(* ===== verification/Prelude.thy ===== *)
theory Prelude
  imports Main "HOL-Library.Char_ord" "HOL-Library.List_Lexorder" "HOL-Library.Sublist"
begin

text \<open>
  Shared vocabulary of the development: Go strings as byte lists with the functions of the
  standard \<^verbatim>\<open>strings\<close> package the sources call, the result type of fallible code, the generic
  facts on lists the components rest on, and the locale of folds that keep the best
  element seen so far (used by role resolution, by check roll-ups and by rule selection).
\<close>

section \<open>Fact collections and type names\<close>

named_theorems go_strings \<open>unfolding and characteristic facts of the string functions\<close>
named_theorems policy_defs \<open>definitions of the access policy, for case analyses of decisions\<close>
named_theorems expr_defs \<open>definitions of the expression evaluator\<close>

type_synonym go_int64 = int
type_synonym 'a result = "string + 'a"

section \<open>Strings\<close>

text \<open>
  A Go string is a byte sequence; \<^typ>\<open>string\<close> is a list of 8-bit characters, so \<open>length\<close> counts
  bytes exactly as Go's \<^verbatim>\<open>len\<close> does.
\<close>

fun HasPrefix :: "'a list \<Rightarrow> 'a list \<Rightarrow> bool" where
  "HasPrefix s [] = True"
| "HasPrefix [] (p # ps) = False"
| "HasPrefix (c # s) (p # ps) = (c = p \<and> HasPrefix s ps)"

definition HasSuffix :: "'a list \<Rightarrow> 'a list \<Rightarrow> bool" where
  "HasSuffix s p = HasPrefix (rev s) (rev p)"

fun Index :: "'a list \<Rightarrow> 'a list \<Rightarrow> nat option" where
  "Index [] p = (if p = [] then Some 0 else None)"
| "Index (c # s) p = (if HasPrefix (c # s) p then Some 0 else map_option Suc (Index s p))"

definition Contains :: "'a list \<Rightarrow> 'a list \<Rightarrow> bool" where
  "Contains s p = (Index s p \<noteq> None)"

fun Join :: "string list \<Rightarrow> string \<Rightarrow> string" where
  "Join [] sep = []"
| "Join [x] sep = x"
| "Join (x # y # xs) sep = x @ sep @ Join (y # xs) sep"

definition TrimPrefix :: "'a list \<Rightarrow> 'a list \<Rightarrow> 'a list" where
  "TrimPrefix s p = (if HasPrefix s p then drop (length p) s else s)"

definition TrimSuffix :: "'a list \<Rightarrow> 'a list \<Rightarrow> 'a list" where
  "TrimSuffix s p = (if HasSuffix s p then take (length s - length p) s else s)"

text \<open>
  \<^verbatim>\<open>strings.TrimSpace\<close> removes the runes with Unicode's White_Space property. Their UTF-8
  encodings are listed below; a rune ends a string exactly when its encoding is a suffix.
\<close>

definition byte :: "nat \<Rightarrow> char" where
  "byte n = char_of n"

definition unicode_spaces :: "string list" where
  "unicode_spaces =
     map (\<lambda>n. [byte n]) [9, 10, 11, 12, 13, 32]
     @ [[byte 194, byte 133], [byte 194, byte 160], [byte 225, byte 154, byte 128]]
     @ map (\<lambda>n. [byte 226, byte 128, byte n]) ([128..<139] @ [168, 169, 175])
     @ [[byte 226, byte 129, byte 159], [byte 227, byte 128, byte 128]]"

fun strip_any :: "'a list list \<Rightarrow> 'a list \<Rightarrow> 'a list option" where
  "strip_any [] s = None"
| "strip_any (p # ps) s = (if p \<noteq> [] \<and> HasPrefix s p then Some (drop (length p) s) else strip_any ps s)"

lemma HasPrefix_prefix [go_strings]: "HasPrefix s p = prefix p s"
  by (induction s p rule: HasPrefix.induct) auto

lemma strip_any_shorter: "strip_any ps s = Some t \<Longrightarrow> length t < length s"
proof (induction ps s rule: strip_any.induct)
  case (2 p ps s)
  then show ?case
    by (auto simp: HasPrefix_prefix prefix_def split: if_splits)
qed simp

function trim_left :: "'a list list \<Rightarrow> 'a list \<Rightarrow> 'a list" where
  "trim_left ps s = (case strip_any ps s of None \<Rightarrow> s | Some t \<Rightarrow> trim_left ps t)"
  by pat_completeness auto
termination
  by (relation "measure (\<lambda>(ps, s). length s)") (auto dest: strip_any_shorter)

declare trim_left.simps [simp del]

definition TrimSpace :: "string \<Rightarrow> string" where
  "TrimSpace s = rev (trim_left (map rev unicode_spaces) (rev (trim_left unicode_spaces s)))"

lemma trim_left_Nil [simp]: "trim_left ps [] = []"
  using strip_any_shorter [of ps "[]"] by (cases "strip_any ps ([] :: 'a list)") (auto simp: trim_left.simps)

lemma TrimSpace_Nil [simp]: "TrimSpace [] = []"
  by (simp add: TrimSpace_def)

text \<open>A text whose first and last bytes are printable ASCII is already trimmed.\<close>

definition graphic :: "char \<Rightarrow> bool" where
  "graphic c \<longleftrightarrow> 32 < (of_char c :: nat) \<and> (of_char c :: nat) < 128"

lemma strip_any_None: "(\<And>p. p \<in> set ps \<Longrightarrow> p \<noteq> [] \<Longrightarrow> hd p \<noteq> c) \<Longrightarrow> strip_any ps (c # s) = None"
proof (induction ps)
  case (Cons p ps)
  from Cons.prems [of p] have "\<not> (p \<noteq> [] \<and> HasPrefix (c # s) p)" by (cases p) (auto simp: HasPrefix_prefix)
  then show ?case using Cons by auto
qed simp

lemma unicode_spaces_edges:
  "p \<in> set unicode_spaces \<Longrightarrow> p \<noteq> [] \<and> \<not> graphic (hd p) \<and> \<not> graphic (last p)"
  unfolding unicode_spaces_def graphic_def byte_def by (auto simp: of_char_of)

lemma TrimSpace_id: "s \<noteq> [] \<Longrightarrow> graphic (hd s) \<Longrightarrow> graphic (last s) \<Longrightarrow> TrimSpace s = s"
proof -
  assume s: "s \<noteq> []" "graphic (hd s)" "graphic (last s)"
  have "trim_left unicode_spaces s = s"
  proof -
    obtain c t where t: "s = c # t" using s(1) by (cases s) auto
    have "strip_any unicode_spaces (c # t) = None" using unicode_spaces_edges s(2) t by (intro strip_any_None) auto
    then show ?thesis by (simp add: trim_left.simps t)
  qed
  moreover have "trim_left (map rev unicode_spaces) (rev s) = rev s"
  proof -
    obtain c t where t: "rev s = c # t" "c = last s" using s(1) by (cases "rev s") (auto simp: last_rev [symmetric] hd_rev)
    have "strip_any (map rev unicode_spaces) (c # t) = None"
      using s(3) t(2) by (intro strip_any_None) (auto simp: hd_rev dest: unicode_spaces_edges)
    then show ?thesis by (simp add: trim_left.simps t(1))
  qed
  ultimately show ?thesis by (simp add: TrimSpace_def)
qed

definition is_ascii_upper :: "char \<Rightarrow> bool" where
  "is_ascii_upper c = (CHR ''A'' \<le> c \<and> c \<le> CHR ''Z'')"

definition is_ascii_lower :: "char \<Rightarrow> bool" where
  "is_ascii_lower c = (CHR ''a'' \<le> c \<and> c \<le> CHR ''z'')"

definition is_ascii_digit :: "char \<Rightarrow> bool" where
  "is_ascii_digit c = (CHR ''0'' \<le> c \<and> c \<le> CHR ''9'')"

definition ascii_lower :: "char \<Rightarrow> char" where
  "ascii_lower c = (if is_ascii_upper c then char_of (of_char c + (32::nat)) else c)"

text \<open>Decimal rendering, as \<^verbatim>\<open>strconv.Itoa\<close> and the verb \<^verbatim>\<open>%d\<close> do it.\<close>

fun decimal :: "nat \<Rightarrow> string" where
  "decimal n = (if n < 10 then [char_of (48 + n)] else decimal (n div 10) @ [char_of (48 + n mod 10)])"

declare decimal.simps [simp del]

definition Itoa :: "int \<Rightarrow> string" where
  "Itoa i = (if i < 0 then ''-'' @ decimal (nat (- i)) else decimal (nat i))"

section \<open>Facts about the string functions\<close>

fun undecimal :: "nat \<Rightarrow> string \<Rightarrow> nat" where
  "undecimal acc [] = acc"
| "undecimal acc (c # cs) = undecimal (10 * acc + (of_char c - 48)) cs"

lemma undecimal_snoc: "undecimal acc (s @ [c]) = 10 * undecimal acc s + (of_char c - 48)"
  by (induction acc s rule: undecimal.induct) auto

lemma of_char_digit: "k < 10 \<Longrightarrow> of_char (char_of (48 + k) :: char) = (48 + k :: nat)"
  by simp

lemma undecimal_decimal: "undecimal 0 (decimal n) = n"
proof (induction n rule: decimal.induct)
  case (1 n)
  show ?case
  proof (cases "n < 10")
    case True
    then show ?thesis by (subst decimal.simps) (simp add: of_char_digit)
  next
    case False
    then show ?thesis
      using 1 by (subst decimal.simps) (simp add: undecimal_snoc of_char_digit)
  qed
qed

lemma decimal_inj [simp]: "decimal m = decimal n \<longleftrightarrow> m = n"
  by (metis undecimal_decimal)

lemma decimal_digits: "c \<in> set (decimal n) \<Longrightarrow> c \<in> (\<lambda>k. char_of (48 + k :: nat)) ` {..<10}"
proof (induction n rule: decimal.induct)
  case (1 n)
  have "n mod 10 \<in> {..<10}" by simp
  then have "char_of (48 + n mod 10) \<in> (\<lambda>k. char_of (48 + k :: nat)) ` {..<10}"
    by (rule imageI)
  with 1 show ?case
    by (subst (asm) (2) decimal.simps) (auto simp del: char_of_eq_iff split: if_splits)
qed

lemma HasSuffix_suffix [go_strings]: "HasSuffix s p = suffix p s"
  by (simp add: HasSuffix_def HasPrefix_prefix suffix_to_prefix)

lemma HasPrefix_append [simp]: "HasPrefix (p @ s) p"
  by (simp add: HasPrefix_prefix)

lemma HasPrefix_iff_take: "HasPrefix s p \<longleftrightarrow> take (length p) s = p"
  by (metis HasPrefix_prefix append_eq_conv_conj prefix_def take_is_prefix)

lemma Index_SomeD:
  assumes "Index s p = Some i"
  shows "s = take i s @ p @ drop (i + length p) s" and "i + length p \<le> length s"
    and "\<And>j. j < i \<Longrightarrow> \<not> HasPrefix (drop j s) p"
proof -
  have "s = take i s @ p @ drop (i + length p) s \<and> i + length p \<le> length s
        \<and> (\<forall>j<i. \<not> HasPrefix (drop j s) p)"
    using assms
  proof (induction s arbitrary: i)
    case Nil
    then show ?case by (auto split: if_splits)
  next
    case (Cons c s)
    show ?case
    proof (cases "HasPrefix (c # s) p")
      case True
      then show ?thesis
        using Cons.prems prefix_length_le [of p "c # s"]
        by (auto simp: HasPrefix_prefix prefix_def)
    next
      case False
      then obtain k where k: "Index s p = Some k" "i = Suc k"
        using Cons.prems by auto
      then show ?thesis
        using Cons.IH [OF k(1)] False by (auto simp: less_Suc_eq_0_disj)
    qed
  qed
  then show "s = take i s @ p @ drop (i + length p) s" and "i + length p \<le> length s"
    and "\<And>j. j < i \<Longrightarrow> \<not> HasPrefix (drop j s) p" by blast+
qed

lemma Index_None_iff: "Index s p = None \<longleftrightarrow> \<not> sublist p s"
proof (induction s)
  case Nil
  then show ?case by simp
next
  case (Cons c s)
  then show ?case
    by (auto simp: sublist_Cons_right HasPrefix_prefix)
qed

lemma Contains_sublist [go_strings]: "Contains s p = sublist p s"
  by (auto simp: Contains_def Index_None_iff)

section \<open>Folds that keep the best element\<close>

text \<open>
  Several loops of the program have one shape: walk a list, remember the best candidate so
  far, replace it only by a strictly better one. \<open>better\<close> is a strict weak order.
\<close>

definition keep_better :: "('a \<Rightarrow> 'a \<Rightarrow> bool) \<Rightarrow> 'a \<Rightarrow> 'a \<Rightarrow> 'a" where
  "keep_better better b x = (if better x b then x else b)"

locale pick_best =
  fixes better :: "'a \<Rightarrow> 'a \<Rightarrow> bool"
  assumes better_asym: "better x y \<Longrightarrow> \<not> better y x"
    and better_negtrans: "\<not> better x y \<Longrightarrow> \<not> better y z \<Longrightarrow> \<not> better x z"
begin

lemma better_irrefl [simp]: "\<not> better x x"
  using better_asym by blast

lemma keep_cases: "keep_better better b x \<in> {b, x}"
  by (simp add: keep_better_def)

lemma keep_not_beaten: "\<not> better b (keep_better better b x)" "\<not> better x (keep_better better b x)"
  by (auto simp: keep_better_def dest: better_asym)

lemma keep_mem: "foldl (keep_better better) b xs \<in> insert b (set xs)"
proof (induction xs arbitrary: b)
  case Nil
  then show ?case by simp
next
  case (Cons x xs)
  have "foldl (keep_better better) (keep_better better b x) xs
        \<in> insert (keep_better better b x) (set xs)"
    by (rule Cons.IH)
  then show ?case using keep_cases [of b x] by auto
qed

lemma keep_best: "y \<in> insert b (set xs) \<Longrightarrow> \<not> better y (foldl (keep_better better) b xs)"
proof (induction xs arbitrary: b y)
  case Nil
  then show ?case by simp
next
  case (Cons x xs)
  let ?k = "keep_better better b x"
  let ?r = "foldl (keep_better better) ?k xs"
  have k: "\<not> better ?k ?r" by (rule Cons.IH) simp
  have "\<not> better b ?r" "\<not> better x ?r"
    using better_negtrans [OF keep_not_beaten(1) k] better_negtrans [OF keep_not_beaten(2) k] .
  moreover have "y \<in> set xs \<Longrightarrow> \<not> better y ?r"
    by (rule Cons.IH) simp
  ultimately show ?case using Cons.prems by auto
qed

end

section \<open>Invariants of step relations\<close>

locale kept_invariant =
  fixes step :: "'s \<Rightarrow> 's \<Rightarrow> bool" and inv :: "'s \<Rightarrow> bool"
  assumes step_inv: "inv s \<Longrightarrow> step s s' \<Longrightarrow> inv s'"
begin

lemma reachable_inv: "step\<^sup>*\<^sup>* s s' \<Longrightarrow> inv s \<Longrightarrow> inv s'"
  by (induction rule: rtranclp_induct) (auto intro: step_inv)

end

end
