(* ===== verification/Policy.thy ===== *)
theory Policy
  imports Prelude
begin

text \<open>
  The access policy (\<^verbatim>\<open>src/internal/auth/policy\<close>): actors, actions, repository references, the
  role lattice, the request-scoped role cache, role resolution against the database and the
  decision function \<open>Can\<close> with its projections. The database is a parameter: a record of
  query functions that may fail, so that every error branch of the Go code is a branch here.
\<close>

section \<open>Actions\<close>

datatype Action =
    ActionRepoRead | ActionRepoWrite | ActionRepoAdmin
  | ActionRepoSettingsGeneral | ActionRepoSettingsCollaborators
  | ActionRepoSettingsBranches | ActionRepoSettingsActions
  | ActionRepoArchive | ActionRepoDelete | ActionRepoTransfer | ActionRepoVisibility
  | ActionActionsRun | ActionActionsApprove
  | ActionIssueRead | ActionIssueCreate | ActionIssueComment
  | ActionIssueClose | ActionIssueLabel | ActionIssueAssign
  | ActionPullRead | ActionPullCreate | ActionPullMerge | ActionPullReview | ActionPullClose
  | ActionStarCreate | ActionForkCreate | ActionWatchSet
  | ActionOther string  \<comment> \<open>any other value of the string type \<^verbatim>\<open>Action\<close>\<close>

definition AllActions :: "Action list" where
  "AllActions =
     [ActionRepoRead, ActionRepoWrite, ActionRepoAdmin,
      ActionRepoSettingsGeneral, ActionRepoSettingsCollaborators,
      ActionRepoSettingsBranches, ActionRepoSettingsActions,
      ActionRepoArchive, ActionRepoDelete, ActionRepoTransfer, ActionRepoVisibility,
      ActionActionsRun, ActionActionsApprove,
      ActionIssueRead, ActionIssueCreate, ActionIssueComment, ActionIssueClose,
      ActionIssueLabel, ActionIssueAssign,
      ActionPullRead, ActionPullCreate, ActionPullMerge, ActionPullReview, ActionPullClose,
      ActionStarCreate, ActionForkCreate, ActionWatchSet]"

definition isWriteAction :: "Action \<Rightarrow> bool" where [policy_defs]:
  "isWriteAction a =
     (case a of ActionRepoRead \<Rightarrow> False | ActionIssueRead \<Rightarrow> False | ActionPullRead \<Rightarrow> False
      | _ \<Rightarrow> True)"

definition isReadAction :: "Action \<Rightarrow> bool" where [policy_defs]:
  "isReadAction a = (\<not> isWriteAction a)"

definition isIssueParticipationAction :: "Action \<Rightarrow> bool" where [policy_defs]:
  "isIssueParticipationAction a = (a = ActionIssueCreate \<or> a = ActionIssueComment)"

section \<open>Actors\<close>

record Actor =
  UserID :: go_int64
  Username :: string
  IsAnonymous :: bool
  IsSuspended :: bool
  IsSiteAdmin :: bool
  HasConfirmedTwoFactor :: bool
  Impersonating :: bool
  ImpersonateWriteOK :: bool

record CurrentUserView =
  ViewID :: go_int64
  ViewUsername :: string
  ViewIsSuspended :: bool
  ViewIsSiteAdmin :: bool
  ViewHasConfirmedTwoFactor :: bool
  ViewImpersonatedUserID :: go_int64
  ViewRealActorID :: go_int64
  ViewImpersonateWriteOK :: bool

definition AnonymousActor :: Actor where
  "AnonymousActor =
     \<lparr>UserID = 0, Username = '''', IsAnonymous = True, IsSuspended = False, IsSiteAdmin = False,
      HasConfirmedTwoFactor = False, Impersonating = False, ImpersonateWriteOK = False\<rparr>"

definition UserActorWithTwoFactor :: "go_int64 \<Rightarrow> string \<Rightarrow> bool \<Rightarrow> bool \<Rightarrow> bool \<Rightarrow> Actor" where
  "UserActorWithTwoFactor userID username suspended siteAdmin hasConfirmedTwoFactor =
     \<lparr>UserID = userID, Username = username, IsAnonymous = False, IsSuspended = suspended,
      IsSiteAdmin = siteAdmin, HasConfirmedTwoFactor = hasConfirmedTwoFactor,
      Impersonating = False, ImpersonateWriteOK = False\<rparr>"

definition UserActor :: "go_int64 \<Rightarrow> string \<Rightarrow> bool \<Rightarrow> bool \<Rightarrow> Actor" where
  "UserActor userID username suspended siteAdmin =
     UserActorWithTwoFactor userID username suspended siteAdmin False"

definition UserActorFromCurrentUser :: "CurrentUserView \<Rightarrow> Actor" where
  "UserActorFromCurrentUser v =
     \<lparr>UserID = ViewID v, Username = ViewUsername v, IsAnonymous = False,
      IsSuspended = ViewIsSuspended v, IsSiteAdmin = ViewIsSiteAdmin v,
      HasConfirmedTwoFactor = ViewHasConfirmedTwoFactor v,
      Impersonating = (ViewImpersonatedUserID v \<noteq> 0),
      ImpersonateWriteOK = ViewImpersonateWriteOK v\<rparr>"

section \<open>Repositories\<close>

record RepoRef =
  RepoID :: go_int64
  OwnerUserID :: go_int64
  OwnerOrgID :: go_int64
  Visibility :: string
  IsArchived :: bool
  IsDeleted :: bool
  IsPaused :: bool
  AuthorUserID :: go_int64

text \<open>The columns of a repository row the adapter reads; nullable columns are options.\<close>

record RepoRow =
  row_ID :: go_int64
  row_OwnerUserID :: "go_int64 option"
  row_OwnerOrgID :: "go_int64 option"
  row_Visibility :: string
  row_IsArchived :: bool
  row_IsPaused :: bool
  row_DeletedAt :: "int option"

definition NewRepoRefFromRepo :: "RepoRow \<Rightarrow> RepoRef" where
  "NewRepoRefFromRepo r =
     \<lparr>RepoID = row_ID r,
      OwnerUserID = (case row_OwnerUserID r of Some u \<Rightarrow> u | None \<Rightarrow> 0),
      OwnerOrgID = (case row_OwnerOrgID r of Some g \<Rightarrow> g | None \<Rightarrow> 0),
      Visibility = row_Visibility r, IsArchived = row_IsArchived r,
      IsDeleted = (row_DeletedAt r \<noteq> None), IsPaused = row_IsPaused r, AuthorUserID = 0\<rparr>"

definition IsPublic :: "RepoRef \<Rightarrow> bool" where [policy_defs]:
  "IsPublic r = (Visibility r = ''public'')"

definition IsPrivate :: "RepoRef \<Rightarrow> bool" where [policy_defs]:
  "IsPrivate r = (Visibility r = ''private'')"

definition Archived :: "RepoRef \<Rightarrow> bool" where
  "Archived r = IsArchived r"

definition IsOwnedByUser :: "RepoRef \<Rightarrow> go_int64 \<Rightarrow> bool" where
  "IsOwnedByUser r userID = (userID \<noteq> 0 \<and> OwnerUserID r = userID)"

section \<open>Roles\<close>

datatype Role =
    RoleNone | RoleRead | RoleTriage | RoleWrite | RoleMaintain | RoleAdmin
  | RoleOther string  \<comment> \<open>any other value of the string type \<^verbatim>\<open>Role\<close>\<close>

definition roleRank :: "Role \<Rightarrow> nat" where
  "roleRank r =
     (case r of RoleAdmin \<Rightarrow> 5 | RoleMaintain \<Rightarrow> 4 | RoleWrite \<Rightarrow> 3 | RoleTriage \<Rightarrow> 2
      | RoleRead \<Rightarrow> 1 | _ \<Rightarrow> 0)"

definition RoleAtLeast :: "Role \<Rightarrow> Role \<Rightarrow> bool" where [policy_defs]:
  "RoleAtLeast have want = (roleRank have \<ge> roleRank want \<and> roleRank want > 0)"

definition roleFromDB :: "string \<Rightarrow> Role" where
  "roleFromDB s =
     (if s = '''' then RoleNone else if s = ''read'' then RoleRead
      else if s = ''triage'' then RoleTriage else if s = ''write'' then RoleWrite
      else if s = ''maintain'' then RoleMaintain else if s = ''admin'' then RoleAdmin
      else RoleOther s)"

definition roleStronger :: "Role \<Rightarrow> Role \<Rightarrow> bool" where
  "roleStronger a b = (roleRank a > roleRank b)"

definition teamRepoRoleToPolicyRole :: "string \<Rightarrow> Role" where
  "teamRepoRoleToPolicyRole s =
     (if s = ''read'' then RoleRead else if s = ''triage'' then RoleTriage
      else if s = ''write'' then RoleWrite else if s = ''maintain'' then RoleMaintain
      else if s = ''admin'' then RoleAdmin else RoleNone)"

definition minRoleFor :: "Action \<Rightarrow> Role" where
  "minRoleFor action =
     (case action of
        ActionRepoRead \<Rightarrow> RoleRead | ActionIssueRead \<Rightarrow> RoleRead | ActionPullRead \<Rightarrow> RoleRead
      | ActionIssueClose \<Rightarrow> RoleTriage | ActionIssueLabel \<Rightarrow> RoleTriage
      | ActionIssueAssign \<Rightarrow> RoleTriage
      | ActionRepoWrite \<Rightarrow> RoleWrite | ActionActionsRun \<Rightarrow> RoleWrite | ActionPullCreate \<Rightarrow> RoleWrite
      | ActionPullReview \<Rightarrow> RoleWrite | ActionPullClose \<Rightarrow> RoleWrite
      | ActionIssueCreate \<Rightarrow> RoleRead | ActionIssueComment \<Rightarrow> RoleRead
      | ActionRepoSettingsGeneral \<Rightarrow> RoleMaintain | ActionRepoSettingsBranches \<Rightarrow> RoleMaintain
      | ActionActionsApprove \<Rightarrow> RoleMaintain
      | ActionRepoAdmin \<Rightarrow> RoleAdmin | ActionRepoSettingsCollaborators \<Rightarrow> RoleAdmin
      | ActionRepoSettingsActions \<Rightarrow> RoleAdmin | ActionRepoArchive \<Rightarrow> RoleAdmin
      | ActionRepoDelete \<Rightarrow> RoleAdmin | ActionRepoTransfer \<Rightarrow> RoleAdmin
      | ActionRepoVisibility \<Rightarrow> RoleAdmin | ActionPullMerge \<Rightarrow> RoleAdmin
      | ActionStarCreate \<Rightarrow> RoleNone | ActionForkCreate \<Rightarrow> RoleNone | ActionWatchSet \<Rightarrow> RoleNone
      | ActionOther _ \<Rightarrow> RoleAdmin)"

section \<open>The request cache\<close>

record cacheKey =
  actorUserID :: go_int64
  repoID :: go_int64

text \<open>\<^const>\<open>None\<close> is the nil pointer: a context without a cache.\<close>

type_synonym requestCache = "(cacheKey \<rightharpoonup> Role) option"

definition WithCache :: requestCache where
  "WithCache = Some Map.empty"

definition cacheGet :: "requestCache \<Rightarrow> cacheKey \<Rightarrow> Role option" where
  "cacheGet c k = (case c of None \<Rightarrow> None | Some roles \<Rightarrow> roles k)"

definition cachePut :: "requestCache \<Rightarrow> cacheKey \<Rightarrow> Role \<Rightarrow> requestCache" where
  "cachePut c k r = (case c of None \<Rightarrow> None | Some roles \<Rightarrow> Some (roles(k \<mapsto> r)))"

definition InvalidateRepo :: "requestCache \<Rightarrow> go_int64 \<Rightarrow> requestCache" where
  "InvalidateRepo c rid =
     (case c of None \<Rightarrow> None
      | Some roles \<Rightarrow> Some (\<lambda>k. if repoID k = rid then None else roles k))"

section \<open>The database\<close>

text \<open>
  One field per query of the package. A single-row query yields a row, no row or an error; a
  row set may fail when it is opened, when a row is scanned or when the iteration ends.
\<close>

datatype 'a query_row = QRow 'a | QNoRows | QErr string
datatype row_end = RowsDone | ScanErr string | RowsErr string
type_synonym 'a query_rows = "string + ('a list \<times> row_end)"

record policy_db =
  q_org_suspended :: "go_int64 \<Rightarrow> bool query_row"
  q_org_requires_2fa :: "go_int64 \<Rightarrow> bool query_row"
  q_org_role :: "go_int64 \<Rightarrow> go_int64 \<Rightarrow> string query_row"
  q_collab_role :: "go_int64 \<Rightarrow> go_int64 \<Rightarrow> string query_row"
  q_teams_of :: "go_int64 \<Rightarrow> go_int64 \<Rightarrow> (go_int64 \<times> go_int64 option) query_rows"
  q_team_grants :: "go_int64 \<Rightarrow> go_int64 list \<Rightarrow> string query_rows"

record Deps =
  Pool :: "policy_db option"

definition isOrgSuspended :: "Deps \<Rightarrow> go_int64 \<Rightarrow> bool" where
  "isOrgSuspended d orgID =
     (case Pool d of None \<Rightarrow> False
      | Some db \<Rightarrow> (case q_org_suspended db orgID of QRow b \<Rightarrow> b | QNoRows \<Rightarrow> False | QErr _ \<Rightarrow> False))"

definition orgRequiresTwoFactor :: "Deps \<Rightarrow> go_int64 \<Rightarrow> bool" where
  "orgRequiresTwoFactor d orgID =
     (case Pool d of None \<Rightarrow> False
      | Some db \<Rightarrow> (case q_org_requires_2fa db orgID of QRow b \<Rightarrow> b | QNoRows \<Rightarrow> False | QErr _ \<Rightarrow> False))"

section \<open>Role resolution\<close>

definition team_ids :: "(go_int64 \<times> go_int64 option) list \<Rightarrow> go_int64 list" where
  "team_ids rows =
     concat (map (\<lambda>(id, parent). id # (case parent of Some p \<Rightarrow> [p] | None \<Rightarrow> [])) rows)"

definition teamGrantedRole :: "policy_db \<Rightarrow> go_int64 \<Rightarrow> go_int64 \<Rightarrow> go_int64 \<Rightarrow> Role result" where
  "teamGrantedRole db userID orgID rid =
     (case q_teams_of db orgID userID of
        Inl e \<Rightarrow> Inl e
      | Inr (rows, fin) \<Rightarrow>
          (case fin of
             ScanErr e \<Rightarrow> Inl e
           | RowsErr e \<Rightarrow> Inl e
           | RowsDone \<Rightarrow>
               (let teamIDs = team_ids rows in
                if teamIDs = [] then Inr RoleNone
                else case q_team_grants db rid teamIDs of
                       Inl e \<Rightarrow> Inl e
                     | Inr (grants, gfin) \<Rightarrow>
                         (case gfin of
                            ScanErr e \<Rightarrow> Inl e
                          | RowsErr e \<Rightarrow> Inl e
                          | RowsDone \<Rightarrow>
                              Inr (foldl (keep_better roleStronger) RoleNone
                                     (map teamRepoRoleToPolicyRole grants))))))"

definition effectiveRole ::
  "Deps \<Rightarrow> requestCache \<Rightarrow> Actor \<Rightarrow> RepoRef \<Rightarrow> Role result \<times> requestCache" where
  "effectiveRole d c actor repo =
     (if UserID actor \<noteq> 0 \<and> UserID actor = OwnerUserID repo then (Inr RoleAdmin, c)
      else if UserID actor = 0 then (Inr RoleNone, c)
      else
        let key = \<lparr>actorUserID = UserID actor, repoID = RepoID repo\<rparr> in
        case cacheGet c key of
          Some r \<Rightarrow> (Inr r, c)
        | None \<Rightarrow>
            (case Pool d of
               None \<Rightarrow> (Inr RoleNone, c)
             | Some db \<Rightarrow>
                 if OwnerOrgID repo \<noteq> 0 \<and> q_org_role db (OwnerOrgID repo) (UserID actor) = QRow ''owner''
                 then (Inr RoleAdmin, cachePut c key RoleAdmin)
                 else
                   (case (case q_collab_role db (RepoID repo) (UserID actor) of
                            QRow s \<Rightarrow> Inr (roleFromDB s) | QNoRows \<Rightarrow> Inr RoleNone | QErr e \<Rightarrow> Inl e) of
                      Inl e \<Rightarrow> (Inl e, c)
                    | Inr best \<Rightarrow>
                        if OwnerOrgID repo \<noteq> 0 then
                          (case teamGrantedRole db (UserID actor) (OwnerOrgID repo) (RepoID repo) of
                             Inl e \<Rightarrow> (Inl e, c)
                           | Inr teamRole \<Rightarrow>
                               (let b = (if roleStronger teamRole best then teamRole else best)
                                in (Inr b, cachePut c key b)))
                        else (Inr best, cachePut c key best))))"

definition EffectiveRole :: "Deps \<Rightarrow> requestCache \<Rightarrow> Actor \<Rightarrow> RepoRef \<Rightarrow> Role \<times> requestCache" where
  "EffectiveRole d c actor repo =
     (if IsAnonymous actor then (RoleNone, c)
      else case effectiveRole d c actor repo of
             (Inl _, c') \<Rightarrow> (RoleNone, c') | (Inr r, c') \<Rightarrow> (r, c'))"

definition HasRoleAtLeast ::
  "Deps \<Rightarrow> requestCache \<Rightarrow> Actor \<Rightarrow> RepoRef \<Rightarrow> Role \<Rightarrow> bool \<times> requestCache" where
  "HasRoleAtLeast d c actor repo want =
     (case EffectiveRole d c actor repo of (r, c') \<Rightarrow> (RoleAtLeast r want, c'))"

section \<open>Decisions\<close>

datatype DenyCode =
    DenyNone | DenyRepoDeleted | DenyActorSuspended | DenyArchived | DenyVisibility
  | DenyRoleTooLow | DenyAnonymous | DenyDBError | DenyOrgSuspended
  | DenyImpersonationReadOnly | DenyPaused | DenyOrgRequiresTwoFactor

record Decision =
  Allow :: bool
  Reason :: string
  Code :: DenyCode

definition allow :: "string \<Rightarrow> Decision" where [policy_defs]:
  "allow reason = \<lparr>Allow = True, Reason = reason, Code = DenyNone\<rparr>"

definition deny :: "DenyCode \<Rightarrow> string \<Rightarrow> Decision" where [policy_defs]:
  "deny code reason = \<lparr>Allow = False, Reason = reason, Code = code\<rparr>"

text \<open>
  Steps 7 to 10 of the decision, once the role is known. The Go function is one body; the
  split follows its own numbering so that the two places that resolve a role read alike.
\<close>

definition Can_with_role :: "Deps \<Rightarrow> Actor \<Rightarrow> Action \<Rightarrow> RepoRef \<Rightarrow> Role \<Rightarrow> Decision" where
  "Can_with_role d actor action repo role =
     (if OwnerOrgID repo \<noteq> 0 \<and> role \<noteq> RoleNone \<and> (IsPrivate repo \<or> isWriteAction action)
         \<and> \<not> HasConfirmedTwoFactor actor \<and> orgRequiresTwoFactor d (OwnerOrgID repo)
      then deny DenyOrgRequiresTwoFactor ''organization requires two-factor authentication''
      else if (action = ActionIssueClose \<or> action = ActionPullClose)
              \<and> AuthorUserID repo \<noteq> 0 \<and> AuthorUserID repo = UserID actor
      then allow ''author of thread''
      else if IsArchived repo \<and> isWriteAction action \<and> action \<noteq> ActionRepoArchive
      then deny DenyArchived ''repo archived''
      else if IsPaused repo \<and> isWriteAction action
      then deny DenyPaused ''repo paused''
      else if OwnerOrgID repo \<noteq> 0 \<and> isWriteAction action \<and> isOrgSuspended d (OwnerOrgID repo)
      then deny DenyOrgSuspended ''owning org suspended''
      else if minRoleFor action \<noteq> RoleNone \<and> \<not> RoleAtLeast role (minRoleFor action)
      then (if role = RoleNone \<and> IsPrivate repo
            then deny DenyVisibility ''no role on private repo''
            else deny DenyRoleTooLow ''role too low'')
      else if (action = ActionStarCreate \<or> action = ActionForkCreate \<or> action = ActionWatchSet)
              \<and> IsAnonymous actor
      then deny DenyAnonymous ''anonymous cannot star/fork/watch''
      else allow ''granted'')"

text \<open>Step 6: issue participation on a public repository by a logged-in user.\<close>

definition Can_public_issue ::
  "Deps \<Rightarrow> requestCache \<Rightarrow> Actor \<Rightarrow> RepoRef \<Rightarrow> Decision \<times> requestCache" where
  "Can_public_issue d c actor repo =
     (let rest = (if IsArchived repo then deny DenyArchived ''repo archived''
                  else if IsPaused repo then deny DenyPaused ''repo paused''
                  else if OwnerOrgID repo \<noteq> 0 \<and> isOrgSuspended d (OwnerOrgID repo)
                  then deny DenyOrgSuspended ''owning org suspended''
                  else allow ''public issue participation'')
      in if IsAnonymous actor
         then (deny DenyAnonymous ''anonymous cannot create/comment on issues'', c)
         else if OwnerOrgID repo \<noteq> 0 \<and> \<not> HasConfirmedTwoFactor actor
                 \<and> orgRequiresTwoFactor d (OwnerOrgID repo)
         then (case effectiveRole d c actor repo of
                 (Inl e, c') \<Rightarrow> (deny DenyDBError (''role lookup failed: '' @ e), c')
               | (Inr role, c') \<Rightarrow>
                   if role \<noteq> RoleNone
                   then (deny DenyOrgRequiresTwoFactor
                           ''organization requires two-factor authentication'', c')
                   else (rest, c'))
         else (rest, c))"

definition Can ::
  "Deps \<Rightarrow> requestCache \<Rightarrow> Actor \<Rightarrow> Action \<Rightarrow> RepoRef \<Rightarrow> Decision \<times> requestCache" where
  "Can d c actor action repo =
     (if IsDeleted repo then (deny DenyRepoDeleted ''repo deleted'', c)
      else if IsSiteAdmin actor \<and> isReadAction action then (allow ''site admin read'', c)
      else if IsSuspended actor \<and> isWriteAction action
      then (deny DenyActorSuspended ''actor suspended'', c)
      else if Impersonating actor \<and> \<not> ImpersonateWriteOK actor \<and> isWriteAction action
      then (deny DenyImpersonationReadOnly ''impersonation in read-only mode'', c)
      else if IsAnonymous actor \<and> IsPrivate repo
      then (deny DenyVisibility ''anonymous on private repo'', c)
      else if isReadAction action \<and> IsPublic repo then (allow ''public repo read'', c)
      else if isIssueParticipationAction action \<and> IsPublic repo
      then Can_public_issue d c actor repo
      else case effectiveRole d c actor repo of
             (Inl e, c') \<Rightarrow> (deny DenyDBError (''role lookup failed: '' @ e), c')
           | (Inr role, c') \<Rightarrow> (Can_with_role d actor action repo role, c'))"

definition IsVisibleTo :: "Deps \<Rightarrow> requestCache \<Rightarrow> Actor \<Rightarrow> RepoRef \<Rightarrow> bool \<times> requestCache" where
  "IsVisibleTo d c actor repo =
     (case Can d c actor ActionRepoRead repo of (dec, c') \<Rightarrow> (Allow dec, c'))"

definition Maybe404 :: "Decision \<Rightarrow> RepoRef \<Rightarrow> Actor \<Rightarrow> nat" where
  "Maybe404 decision repo actor =
     (if Allow decision then 200
      else if Code decision = DenyOrgRequiresTwoFactor then 403
      else if IsPrivate repo
      then (if UserID actor \<noteq> 0 \<and> UserID actor = OwnerUserID repo then 403 else 404)
      else 403)"

record RepoPermissions =
  Admin :: bool
  Maintain :: bool
  Push :: bool
  Triage :: bool
  Pull :: bool

definition PermissionsFor ::
  "Deps \<Rightarrow> requestCache \<Rightarrow> Actor \<Rightarrow> RepoRef \<Rightarrow> RepoPermissions \<times> requestCache" where
  "PermissionsFor d c actor repo =
     (let (d1, c1) = Can d c actor ActionRepoAdmin repo;
          (d2, c2) = Can d c1 actor ActionRepoSettingsGeneral repo;
          (d3, c3) = Can d c2 actor ActionRepoWrite repo;
          (d4, c4) = Can d c3 actor ActionRepoWrite repo;
          (d5, c5) = Can d c4 actor ActionRepoRead repo
      in (\<lparr>Admin = Allow d1, Maintain = Allow d2, Push = Allow d3, Triage = Allow d4,
           Pull = Allow d5\<rparr>, c5))"

definition AuthorAssociation :: "Deps \<Rightarrow> requestCache \<Rightarrow> Actor \<Rightarrow> RepoRef \<Rightarrow> string \<times> requestCache" where
  "AuthorAssociation d c actor repo =
     (if IsAnonymous actor \<or> UserID actor = 0 then (''NONE'', c)
      else if IsOwnedByUser repo (UserID actor) then (''OWNER'', c)
      else case EffectiveRole d c actor repo of
             (role, c') \<Rightarrow>
               (case role of
                  RoleAdmin \<Rightarrow> if OwnerOrgID repo \<noteq> 0 then ''MEMBER'' else ''COLLABORATOR''
                | RoleMaintain \<Rightarrow> if OwnerOrgID repo \<noteq> 0 then ''MEMBER'' else ''COLLABORATOR''
                | RoleWrite \<Rightarrow> ''COLLABORATOR''
                | RoleTriage \<Rightarrow> ''COLLABORATOR''
                | RoleRead \<Rightarrow> ''COLLABORATOR''
                | _ \<Rightarrow> ''NONE'', c'))"

section \<open>The listing predicate\<close>

definition VisibilityPredicate :: "Actor \<Rightarrow> string \<Rightarrow> int \<Rightarrow> string \<times> go_int64 list" where
  "VisibilityPredicate actor tableAlias startPlaceholder =
     (let a = (if tableAlias = '''' then ''r'' else tableAlias);
          base = a @ ''.deleted_at IS NULL'';
          public = [CHR 39] @ ''public'' @ [CHR 39]
      in if IsSiteAdmin actor then (base, [])
         else if IsAnonymous actor then (base @ '' AND '' @ a @ ''.visibility = '' @ public, [])
         else (base @ '' AND ('' @ a @ ''.visibility = '' @ public @ '' ''
               @ ''OR '' @ a @ ''.owner_user_id = $'' @ Itoa startPlaceholder @ '' ''
               @ ''OR EXISTS (SELECT 1 FROM repo_collaborators c ''
               @ ''WHERE c.repo_id = '' @ a @ ''.id AND c.user_id = $'' @ Itoa (startPlaceholder + 1) @ '')''
               @ '')'',
               [UserID actor, UserID actor]))"

text \<open>
  The clause as a condition tree. \<open>cond_text\<close> prints a tree to the text the code builds and
  \<open>cond_holds\<close> gives the tree its SQL meaning on one row; placeholders count from the
  start offset.
\<close>

datatype cond =
    CNotDeleted | CPublic | COwner nat | CCollab nat | CAnd cond cond | COr3 cond cond cond

fun cond_text :: "string \<Rightarrow> int \<Rightarrow> cond \<Rightarrow> string" where
  "cond_text a p CNotDeleted = a @ ''.deleted_at IS NULL''"
| "cond_text a p CPublic = a @ ''.visibility = '' @ [CHR 39] @ ''public'' @ [CHR 39]"
| "cond_text a p (COwner n) = a @ ''.owner_user_id = $'' @ Itoa (p + int n)"
| "cond_text a p (CCollab n) =
     ''EXISTS (SELECT 1 FROM repo_collaborators c WHERE c.repo_id = '' @ a
     @ ''.id AND c.user_id = $'' @ Itoa (p + int n) @ '')''"
| "cond_text a p (CAnd x y) = cond_text a p x @ '' AND '' @ cond_text a p y"
| "cond_text a p (COr3 x y z) =
     ''('' @ cond_text a p x @ '' OR '' @ cond_text a p y @ '' OR '' @ cond_text a p z @ '')''"

definition visibility_cond :: "Actor \<Rightarrow> cond" where
  "visibility_cond actor =
     (if IsSiteAdmin actor then CNotDeleted
      else if IsAnonymous actor then CAnd CNotDeleted CPublic
      else CAnd CNotDeleted (COr3 CPublic (COwner 0) (CCollab 1)))"

fun cond_holds :: "policy_db \<Rightarrow> go_int64 list \<Rightarrow> RepoRow \<Rightarrow> cond \<Rightarrow> bool" where
  "cond_holds db args row CNotDeleted = (row_DeletedAt row = None)"
| "cond_holds db args row CPublic = (row_Visibility row = ''public'')"
| "cond_holds db args row (COwner n) = (n < length args \<and> row_OwnerUserID row = Some (args ! n))"
| "cond_holds db args row (CCollab n) =
     (n < length args \<and> (case q_collab_role db (row_ID row) (args ! n) of QRow _ \<Rightarrow> True | _ \<Rightarrow> False))"
| "cond_holds db args row (CAnd x y) = (cond_holds db args row x \<and> cond_holds db args row y)"
| "cond_holds db args row (COr3 x y z) =
     (cond_holds db args row x \<or> cond_holds db args row y \<or> cond_holds db args row z)"

section \<open>Roles: the lattice\<close>

interpretation role_pick: pick_best roleStronger
  by unfold_locales (auto simp: roleStronger_def)

lemma roleRank_simps [simp]:
  "roleRank RoleNone = 0" "roleRank RoleRead = 1" "roleRank RoleTriage = 2" "roleRank RoleWrite = 3"
  "roleRank RoleMaintain = 4" "roleRank RoleAdmin = 5" "roleRank (RoleOther s) = 0"
  by (simp_all add: roleRank_def)

lemma roleRank_le5: "roleRank r \<le> 5"
  by (cases r) simp_all

lemma roleRank_pos_iff: "0 < roleRank r \<longleftrightarrow> r \<in> {RoleRead, RoleTriage, RoleWrite, RoleMaintain, RoleAdmin}"
  by (cases r) auto

lemma minRoleFor_None_iff:
  "minRoleFor a = RoleNone \<longleftrightarrow> a \<in> {ActionStarCreate, ActionForkCreate, ActionWatchSet}"
  by (cases a) (simp_all add: minRoleFor_def)

lemma minRoleFor_rank: "minRoleFor a \<noteq> RoleNone \<Longrightarrow> 0 < roleRank (minRoleFor a)"
  by (cases a) (simp_all add: minRoleFor_def)

lemma read_minRole: "isReadAction a \<Longrightarrow> minRoleFor a = RoleRead"
  by (cases a) (simp_all add: minRoleFor_def isReadAction_def isWriteAction_def)

section \<open>The request cache as a map\<close>

lemma cacheGet_put [simp]:
  "cacheGet (cachePut c k r) k' = (if c = None then None else if k' = k then Some r else cacheGet c k')"
  by (auto simp: cacheGet_def cachePut_def split: option.splits)

lemma cachePut_nil [simp]: "cachePut None k r = None"
  by (simp add: cachePut_def)

lemma cachePut_eq_None [simp]: "cachePut c k r = None \<longleftrightarrow> c = None"
  by (simp add: cachePut_def split: option.splits)

lemma cacheGet_invalidate:
  "cacheGet (InvalidateRepo c rid) k = (if repoID k = rid then None else cacheGet c k)"
  by (auto simp: cacheGet_def InvalidateRepo_def split: option.splits)

lemma cacheGet_fresh [simp]: "cacheGet WithCache k = None" "cacheGet None k = None"
  by (simp_all add: cacheGet_def WithCache_def)

section \<open>Role resolution: what the loops compute\<close>

text \<open>
  The specification of the actor's role, without caching: the repository's owner and the
  owners of its organisation are administrators; everyone else has the strongest of the
  direct grant and the team grants.
\<close>

definition collabSpec :: "policy_db \<Rightarrow> go_int64 \<Rightarrow> go_int64 \<Rightarrow> Role result" where
  "collabSpec db rid uid =
     (case q_collab_role db rid uid of QRow s \<Rightarrow> Inr (roleFromDB s) | QNoRows \<Rightarrow> Inr RoleNone | QErr e \<Rightarrow> Inl e)"

definition roleSpec :: "Deps \<Rightarrow> go_int64 \<Rightarrow> go_int64 \<Rightarrow> go_int64 \<Rightarrow> go_int64 \<Rightarrow> Role result" where
  "roleSpec d uid rid ownerUser ownerOrg =
     (if uid = 0 then Inr RoleNone
      else if uid = ownerUser then Inr RoleAdmin
      else case Pool d of
             None \<Rightarrow> Inr RoleNone
           | Some db \<Rightarrow>
               if ownerOrg \<noteq> 0 \<and> q_org_role db ownerOrg uid = QRow ''owner'' then Inr RoleAdmin
               else (case collabSpec db rid uid of
                       Inl e \<Rightarrow> Inl e
                     | Inr best \<Rightarrow>
                         if ownerOrg = 0 then Inr best
                         else (case teamGrantedRole db uid ownerOrg rid of
                                 Inl e \<Rightarrow> Inl e
                               | Inr team \<Rightarrow> Inr (keep_better roleStronger best team))))"

text \<open>
  A cache is coherent when each entry is what the queries would answer now. Entries are keyed
  by user and repository only, so the owner columns of a repository are a function \<open>own\<close> of its id.
\<close>

definition cache_coherent :: "Deps \<Rightarrow> (go_int64 \<Rightarrow> go_int64 \<times> go_int64) \<Rightarrow> requestCache \<Rightarrow> bool" where
  "cache_coherent d own c \<longleftrightarrow>
     (\<forall>k r. cacheGet c k = Some r \<longrightarrow>
        roleSpec d (actorUserID k) (repoID k) (fst (own (repoID k))) (snd (own (repoID k))) = Inr r)"

definition owned_as :: "(go_int64 \<Rightarrow> go_int64 \<times> go_int64) \<Rightarrow> RepoRef \<Rightarrow> bool" where
  "owned_as own repo \<longleftrightarrow> own (RepoID repo) = (OwnerUserID repo, OwnerOrgID repo)"

lemma effectiveRole_unfold:
  "effectiveRole d c actor repo =
     (let spec = roleSpec d (UserID actor) (RepoID repo) (OwnerUserID repo) (OwnerOrgID repo);
          key = \<lparr>actorUserID = UserID actor, repoID = RepoID repo\<rparr>
      in if UserID actor = 0 \<or> UserID actor = OwnerUserID repo then (spec, c)
         else case cacheGet c key of
                Some r \<Rightarrow> (Inr r, c)
              | None \<Rightarrow> (case spec of Inl e \<Rightarrow> (Inl e, c)
                         | Inr r \<Rightarrow> (Inr r, if Pool d = None then c else cachePut c key r)))"
  unfolding effectiveRole_def roleSpec_def collabSpec_def keep_better_def Let_def
  by (simp split: option.splits query_row.splits sum.splits)

lemma effectiveRole_spec:
  assumes "cache_coherent d own c" and "owned_as own repo"
  shows "fst (effectiveRole d c actor repo)
           = roleSpec d (UserID actor) (RepoID repo) (OwnerUserID repo) (OwnerOrgID repo)"
    and "cache_coherent d own (snd (effectiveRole d c actor repo))"
proof -
  have "fst (effectiveRole d c actor repo)
           = roleSpec d (UserID actor) (RepoID repo) (OwnerUserID repo) (OwnerOrgID repo)
        \<and> cache_coherent d own (snd (effectiveRole d c actor repo))"
    using assms
    by (fastforce simp: effectiveRole_unfold cache_coherent_def owned_as_def Let_def
        split: option.splits sum.splits)
  then show "fst (effectiveRole d c actor repo)
           = roleSpec d (UserID actor) (RepoID repo) (OwnerUserID repo) (OwnerOrgID repo)"
    and "cache_coherent d own (snd (effectiveRole d c actor repo))" by auto
qed


text \<open>
  The contract between role resolution and its clients: a resolver may carry state, but under its
  invariant every answer is the specified one and the invariant survives. Under that contract a
  whole request, whatever sequence of resolutions it makes, sees the specified roles.
\<close>

locale role_resolver =
  fixes resolve :: "'c \<Rightarrow> Actor \<Rightarrow> RepoRef \<Rightarrow> Role result \<times> 'c"
    and spec :: "Actor \<Rightarrow> RepoRef \<Rightarrow> Role result"
    and inv :: "'c \<Rightarrow> bool"
    and known :: "RepoRef \<Rightarrow> bool"
  assumes resolve_spec: "inv c \<Longrightarrow> known repo \<Longrightarrow> fst (resolve c actor repo) = spec actor repo"
    and resolve_inv: "inv c \<Longrightarrow> known repo \<Longrightarrow> inv (snd (resolve c actor repo))"
begin

lemma resolve_pair:
  assumes "inv c" and "known repo"
  obtains c' where "resolve c actor repo = (spec actor repo, c')" "inv c'"
  using resolve_spec [OF assms] resolve_inv [OF assms] by (metis prod.collapse)

fun resolve_all :: "'c \<Rightarrow> (Actor \<times> RepoRef) list \<Rightarrow> Role result list \<times> 'c" where
  "resolve_all c [] = ([], c)"
| "resolve_all c ((a, r) # qs) =
     (let (x, c1) = resolve c a r; (xs, c2) = resolve_all c1 qs in (x # xs, c2))"

lemma resolve_all_spec:
  "inv c \<Longrightarrow> \<forall>(a, r) \<in> set qs. known r \<Longrightarrow>
   fst (resolve_all c qs) = map (\<lambda>(a, r). spec a r) qs \<and> inv (snd (resolve_all c qs))"
proof (induction c qs rule: resolve_all.induct)
  case (1 c)
  then show ?case by simp
next
  case (2 c a r qs)
  from "2.prems" obtain c1 where c1: "resolve c a r = (spec a r, c1)" "inv c1"
    by (auto elim: resolve_pair)
  then show ?case
    using "2.IH" [of "(spec a r, c1)" "spec a r" c1] "2.prems"
    by (auto simp: Let_def split: prod.splits)
qed

end

abbreviation roleOf :: "Deps \<Rightarrow> Actor \<Rightarrow> RepoRef \<Rightarrow> Role result" where
  "roleOf d actor repo \<equiv> roleSpec d (UserID actor) (RepoID repo) (OwnerUserID repo) (OwnerOrgID repo)"

interpretation request: role_resolver "effectiveRole d" "roleOf d" "cache_coherent d own" "owned_as own"
  for d own
  by unfold_locales (auto simp: effectiveRole_spec)

lemma coherent_fresh: "cache_coherent d own WithCache" "cache_coherent d own None"
  by (simp_all add: cache_coherent_def)

lemma coherent_invalidate: "cache_coherent d own c \<Longrightarrow> cache_coherent d own (InvalidateRepo c rid)"
  by (auto simp: cache_coherent_def cacheGet_invalidate)

section \<open>The decision, given the role\<close>

definition CanSpec :: "Deps \<Rightarrow> Actor \<Rightarrow> Action \<Rightarrow> RepoRef \<Rightarrow> Decision" where
  "CanSpec d actor action repo = fst (Can d None actor action repo)"

text \<open>The steps that need no role, in order; \<^const>\<open>None\<close> when the role decides.\<close>

definition earlyDecision :: "Actor \<Rightarrow> Action \<Rightarrow> RepoRef \<Rightarrow> Decision option" where
  "earlyDecision actor action repo =
     (if IsDeleted repo then Some (deny DenyRepoDeleted ''repo deleted'')
      else if IsSiteAdmin actor \<and> isReadAction action then Some (allow ''site admin read'')
      else if IsSuspended actor \<and> isWriteAction action
      then Some (deny DenyActorSuspended ''actor suspended'')
      else if Impersonating actor \<and> \<not> ImpersonateWriteOK actor \<and> isWriteAction action
      then Some (deny DenyImpersonationReadOnly ''impersonation in read-only mode'')
      else if IsAnonymous actor \<and> IsPrivate repo
      then Some (deny DenyVisibility ''anonymous on private repo'')
      else if isReadAction action \<and> IsPublic repo then Some (allow ''public repo read'')
      else None)"

definition issueGate :: "Deps \<Rightarrow> RepoRef \<Rightarrow> Decision" where
  "issueGate d repo =
     (if IsArchived repo then deny DenyArchived ''repo archived''
      else if IsPaused repo then deny DenyPaused ''repo paused''
      else if OwnerOrgID repo \<noteq> 0 \<and> isOrgSuspended d (OwnerOrgID repo)
      then deny DenyOrgSuspended ''owning org suspended''
      else allow ''public issue participation'')"

lemma Can_early:
  "Can d c actor action repo =
     (case earlyDecision actor action repo of
        Some dec \<Rightarrow> (dec, c)
      | None \<Rightarrow>
          if isIssueParticipationAction action \<and> IsPublic repo then Can_public_issue d c actor repo
          else case effectiveRole d c actor repo of
                 (Inl e, c') \<Rightarrow> (deny DenyDBError (''role lookup failed: '' @ e), c')
               | (Inr role, c') \<Rightarrow> (Can_with_role d actor action repo role, c'))"
  unfolding Can_def earlyDecision_def
  by (cases "IsDeleted repo"; cases "IsSiteAdmin actor \<and> isReadAction action";
      cases "IsSuspended actor \<and> isWriteAction action";
      cases "Impersonating actor \<and> \<not> ImpersonateWriteOK actor \<and> isWriteAction action";
      cases "IsAnonymous actor \<and> IsPrivate repo"; cases "isReadAction action \<and> IsPublic repo";
      simp only: if_True if_False option.case simp_thms)

lemma Can_public_issue_gate:
  "Can_public_issue d c actor repo =
     (if IsAnonymous actor
      then (deny DenyAnonymous ''anonymous cannot create/comment on issues'', c)
      else if OwnerOrgID repo \<noteq> 0 \<and> \<not> HasConfirmedTwoFactor actor
              \<and> orgRequiresTwoFactor d (OwnerOrgID repo)
      then (case effectiveRole d c actor repo of
              (Inl e, c') \<Rightarrow> (deny DenyDBError (''role lookup failed: '' @ e), c')
            | (Inr role, c') \<Rightarrow>
                (if role \<noteq> RoleNone
                 then deny DenyOrgRequiresTwoFactor ''organization requires two-factor authentication''
                 else issueGate d repo, c'))
      else (issueGate d repo, c))"
  unfolding Can_public_issue_def Let_def issueGate_def
  by (cases "effectiveRole d c actor repo") (simp split: sum.splits)

lemma Can_public_issue_coherent:
  assumes c: "cache_coherent d own c" and o: "owned_as own repo"
  shows "fst (Can_public_issue d c actor repo) = fst (Can_public_issue d None actor repo)"
    and "cache_coherent d own (snd (Can_public_issue d c actor repo))"
proof -
  obtain c' where 1: "effectiveRole d c actor repo = (roleOf d actor repo, c')"
    and i: "cache_coherent d own c'"
    by (rule request.resolve_pair [OF c o])
  obtain c'' where 2: "effectiveRole d None actor repo = (roleOf d actor repo, c'')"
    by (rule request.resolve_pair [OF coherent_fresh(2) o])
  show "fst (Can_public_issue d c actor repo) = fst (Can_public_issue d None actor repo)"
    and "cache_coherent d own (snd (Can_public_issue d c actor repo))"
    using c i by (simp_all add: Can_public_issue_gate 1 2 split: sum.splits)
qed

lemma Can_coherent:
  assumes c: "cache_coherent d own c" and o: "owned_as own repo"
  shows "fst (Can d c actor action repo) = CanSpec d actor action repo"
    and "cache_coherent d own (snd (Can d c actor action repo))"
proof -
  obtain c' where 1: "effectiveRole d c actor repo = (roleOf d actor repo, c')"
    and i: "cache_coherent d own c'"
    by (rule request.resolve_pair [OF c o])
  obtain c'' where 2: "effectiveRole d None actor repo = (roleOf d actor repo, c'')"
    by (rule request.resolve_pair [OF coherent_fresh(2) o])
  show "fst (Can d c actor action repo) = CanSpec d actor action repo"
    and "cache_coherent d own (snd (Can d c actor action repo))"
    using c i Can_public_issue_coherent [OF c o, of actor]
    by (simp_all add: CanSpec_def Can_early 1 2 split: sum.splits option.splits)
qed

text \<open>
  Who the code lets through, given the role, as one formula. It grants more than the documentation in two places: any
  logged-in user may star, fork and watch a repository that is not public, and the author of a thread may close it on a
  repository that is archived, paused or of a suspended organization. \<open>documented\<close> below is the documented policy.
\<close>

definition twoFactorMet :: "Deps \<Rightarrow> Actor \<Rightarrow> Action \<Rightarrow> RepoRef \<Rightarrow> Role \<Rightarrow> bool" where
  "twoFactorMet d actor action repo role \<longleftrightarrow>
     OwnerOrgID repo = 0 \<or> role = RoleNone \<or> HasConfirmedTwoFactor actor
     \<or> \<not> orgRequiresTwoFactor d (OwnerOrgID repo) \<or> (\<not> IsPrivate repo \<and> isReadAction action)"

definition writable :: "Deps \<Rightarrow> Action \<Rightarrow> RepoRef \<Rightarrow> bool" where
  "writable d action repo \<longleftrightarrow>
     (IsArchived repo \<longrightarrow> action = ActionRepoArchive) \<and> \<not> IsPaused repo
     \<and> \<not> (OwnerOrgID repo \<noteq> 0 \<and> isOrgSuspended d (OwnerOrgID repo))"

definition roleSuffices :: "Actor \<Rightarrow> Action \<Rightarrow> RepoRef \<Rightarrow> Role \<Rightarrow> bool" where
  "roleSuffices actor action repo role \<longleftrightarrow>
     (if minRoleFor action = RoleNone \<or> (isIssueParticipationAction action \<and> IsPublic repo)
      then \<not> IsAnonymous actor
      else roleRank (minRoleFor action) \<le> roleRank role)"

definition authorCloses :: "Actor \<Rightarrow> Action \<Rightarrow> RepoRef \<Rightarrow> bool" where
  "authorCloses actor action repo \<longleftrightarrow>
     action \<in> {ActionIssueClose, ActionPullClose} \<and> AuthorUserID repo \<noteq> 0
     \<and> AuthorUserID repo = UserID actor"

definition permitted :: "Deps \<Rightarrow> Actor \<Rightarrow> Action \<Rightarrow> RepoRef \<Rightarrow> Role \<Rightarrow> bool" where
  "permitted d actor action repo role \<longleftrightarrow>
     \<not> IsDeleted repo \<and>
     (if isReadAction action
      then IsSiteAdmin actor \<or> IsPublic repo
           \<or> (\<not> (IsAnonymous actor \<and> IsPrivate repo) \<and> twoFactorMet d actor action repo role
              \<and> roleRank RoleRead \<le> roleRank role)
      else \<not> IsSuspended actor \<and> (Impersonating actor \<longrightarrow> ImpersonateWriteOK actor)
           \<and> \<not> (IsAnonymous actor \<and> IsPrivate repo)
           \<and> twoFactorMet d actor action repo role
           \<and> (authorCloses actor action repo
              \<or> (writable d action repo \<and> roleSuffices actor action repo role)))"

lemmas permitted_unfold =
  permitted_def twoFactorMet_def writable_def roleSuffices_def authorCloses_def

lemma public_not_private: "IsPublic repo \<Longrightarrow> \<not> IsPrivate repo"
  by (simp add: IsPublic_def IsPrivate_def)

lemma issue_participation_simps:
  "isIssueParticipationAction a \<Longrightarrow> isWriteAction a \<and> minRoleFor a = RoleRead \<and> a \<noteq> ActionRepoArchive
     \<and> a \<noteq> ActionIssueClose \<and> a \<noteq> ActionPullClose"
  by (auto simp: isIssueParticipationAction_def isWriteAction_def minRoleFor_def)

lemma Can_with_role_read:
  assumes "isReadAction action"
  shows "Allow (Can_with_role d actor action repo role) \<longleftrightarrow>
           twoFactorMet d actor action repo role \<and> roleRank RoleRead \<le> roleRank role"
  using assms read_minRole [OF assms]
  by (cases action)
    (auto simp: Can_with_role_def twoFactorMet_def isReadAction_def isWriteAction_def deny_def allow_def
      RoleAtLeast_def)

lemma Can_with_role_write:
  assumes w: "isWriteAction action" and pub: "\<not> (isIssueParticipationAction action \<and> IsPublic repo)"
  shows "Allow (Can_with_role d actor action repo role) \<longleftrightarrow>
           twoFactorMet d actor action repo role
           \<and> (authorCloses actor action repo
              \<or> (writable d action repo \<and> roleSuffices actor action repo role))"
proof (cases "twoFactorMet d actor action repo role")
  case False
  then show ?thesis
    using w by (simp add: Can_with_role_def twoFactorMet_def isReadAction_def deny_def)
next
  case True
  then have t: "\<not> (OwnerOrgID repo \<noteq> 0 \<and> role \<noteq> RoleNone \<and> (IsPrivate repo \<or> isWriteAction action)
      \<and> \<not> HasConfirmedTwoFactor actor \<and> orgRequiresTwoFactor d (OwnerOrgID repo))"
    using w by (auto simp: twoFactorMet_def isReadAction_def)
  have a: "(action = ActionIssueClose \<or> action = ActionPullClose)
      \<and> AuthorUserID repo \<noteq> 0 \<and> AuthorUserID repo = UserID actor \<longleftrightarrow> authorCloses actor action repo"
    by (simp add: authorCloses_def)
  have r: "roleSuffices actor action repo role \<longleftrightarrow>
      (if minRoleFor action = RoleNone then \<not> IsAnonymous actor else RoleAtLeast role (minRoleFor action))"
    using pub minRoleFor_rank [of action] by (auto simp: roleSuffices_def RoleAtLeast_def)
  have s: "action = ActionStarCreate \<or> action = ActionForkCreate \<or> action = ActionWatchSet
      \<longleftrightarrow> minRoleFor action = RoleNone"
    by (simp add: minRoleFor_None_iff)
  show ?thesis
    unfolding Can_with_role_def if_not_P [OF t] a r s
    using True w by (simp add: writable_def deny_def allow_def)
qed

lemma Can_public_issue_allow:
  assumes "effectiveRole d c actor repo = (Inr role, c')" and "IsPublic repo"
    and "isIssueParticipationAction action"
  shows "Allow (fst (Can_public_issue d c actor repo)) \<longleftrightarrow>
           twoFactorMet d actor action repo role \<and> writable d action repo
           \<and> roleSuffices actor action repo role"
proof -
  have g: "Allow (issueGate d repo) \<longleftrightarrow> writable d action repo"
    using issue_participation_simps [OF assms(3)] by (simp add: issueGate_def writable_def deny_def allow_def)
  have t: "twoFactorMet d actor action repo role \<longleftrightarrow>
      \<not> (OwnerOrgID repo \<noteq> 0 \<and> \<not> HasConfirmedTwoFactor actor \<and> orgRequiresTwoFactor d (OwnerOrgID repo)
         \<and> role \<noteq> RoleNone)"
    using issue_participation_simps [OF assms(3)] by (auto simp: twoFactorMet_def isReadAction_def)
  have r: "roleSuffices actor action repo role \<longleftrightarrow> \<not> IsAnonymous actor"
    using assms(2,3) by (simp add: roleSuffices_def)
  show ?thesis
    unfolding t r g [symmetric] by (simp add: Can_public_issue_gate assms(1) deny_def)
qed

lemma earlyDecision_allow:
  "earlyDecision actor action repo = Some dec \<Longrightarrow> Allow dec \<longleftrightarrow> permitted d actor action repo role"
  using public_not_private [of repo]
  by (auto simp: earlyDecision_def permitted_def isReadAction_def deny_def allow_def split: if_splits)

lemma earlyDecision_None:
  assumes "earlyDecision actor action repo = None"
  shows "permitted d actor action repo role \<longleftrightarrow>
    twoFactorMet d actor action repo role \<and>
    (if isReadAction action then roleRank RoleRead \<le> roleRank role
     else authorCloses actor action repo \<or> (writable d action repo \<and> roleSuffices actor action repo role))"
  using assms
  by (auto simp: earlyDecision_def permitted_def isReadAction_def split: if_splits)

lemma Can_permitted:
  assumes e: "effectiveRole d c actor repo = (Inr role, c')"
  shows "Allow (fst (Can d c actor action repo)) \<longleftrightarrow> permitted d actor action repo role"
proof (cases "earlyDecision actor action repo")
  case (Some dec)
  then show ?thesis
    using earlyDecision_allow [OF Some] by (simp add: Can_early)
next
  case None
  show ?thesis
  proof (cases "isIssueParticipationAction action \<and> IsPublic repo")
    case True
    then have "\<not> authorCloses actor action repo" "\<not> isReadAction action"
      using issue_participation_simps [of action] by (auto simp: authorCloses_def isReadAction_def)
    with True None show ?thesis
      using Can_public_issue_allow [OF e] by (simp add: Can_early earlyDecision_None)
  next
    case False
    then show ?thesis
      using None Can_with_role_write [of action repo d actor role]
        Can_with_role_read [of action d actor repo role]
      by (cases "isReadAction action") (auto simp: Can_early earlyDecision_None e isReadAction_def)
  qed
qed

section \<open>Properties\<close>

text \<open>
  The policy as \<^verbatim>\<open>docs/internal/permissions.md\<close> and the comments of the package give it. The table of roles is the one of
  the document; an action it does not list needs the strongest role. Stars, forks and watches need a login and a repository
  that one can read, issues of public repositories need a login, and the freezes of archived, paused and suspended
  repositories hold for every action that changes something, the author's own close included.
\<close>

definition documentedRole :: "Action \<Rightarrow> Role" where
  "documentedRole action =
     (if action \<in> {ActionRepoRead, ActionIssueRead, ActionPullRead, ActionIssueCreate, ActionIssueComment,
                   ActionStarCreate, ActionForkCreate, ActionWatchSet} then RoleRead
      else if action \<in> {ActionIssueClose, ActionIssueLabel, ActionIssueAssign} then RoleTriage
      else if action \<in> {ActionRepoWrite, ActionActionsRun, ActionPullCreate, ActionPullReview, ActionPullClose} then RoleWrite
      else if action \<in> {ActionRepoSettingsGeneral, ActionRepoSettingsBranches, ActionActionsApprove} then RoleMaintain
      else RoleAdmin)"

definition documentedReads :: "Action set" where
  "documentedReads = {ActionRepoRead, ActionIssueRead, ActionPullRead}"

definition socialActions :: "Action set" where
  "socialActions = {ActionStarCreate, ActionForkCreate, ActionWatchSet}"

definition documented :: "Deps \<Rightarrow> Actor \<Rightarrow> Action \<Rightarrow> RepoRef \<Rightarrow> Role \<Rightarrow> bool" where
  "documented d actor action repo role \<longleftrightarrow>
     \<not> IsDeleted repo \<and>
     (if action \<in> documentedReads
      then IsSiteAdmin actor \<or> IsPublic repo
           \<or> (\<not> (IsAnonymous actor \<and> IsPrivate repo) \<and> twoFactorMet d actor action repo role
              \<and> roleRank (documentedRole action) \<le> roleRank role)
      else \<not> IsSuspended actor \<and> (Impersonating actor \<longrightarrow> ImpersonateWriteOK actor)
           \<and> \<not> (IsAnonymous actor \<and> IsPrivate repo)
           \<and> twoFactorMet d actor action repo role
           \<and> writable d action repo
           \<and> (authorCloses actor action repo
              \<or> (action \<in> socialActions \<and> \<not> IsAnonymous actor \<and> (IsPublic repo \<or> roleRank (documentedRole action) \<le> roleRank role))
              \<or> (action \<in> {ActionIssueCreate, ActionIssueComment} \<and> IsPublic repo \<and> \<not> IsAnonymous actor)
              \<or> (action \<notin> socialActions \<and> \<not> (action \<in> {ActionIssueCreate, ActionIssueComment} \<and> IsPublic repo)
                 \<and> roleRank (documentedRole action) \<le> roleRank role)))"

lemma documented_tables:
  "action \<in> documentedReads \<longleftrightarrow> isReadAction action"
  "action \<in> socialActions \<longleftrightarrow> minRoleFor action = RoleNone"
  "action \<notin> socialActions \<Longrightarrow> documentedRole action = minRoleFor action"
  "action \<in> socialActions \<Longrightarrow> documentedRole action = RoleRead"
  by (cases action; simp add: documentedReads_def socialActions_def documentedRole_def minRoleFor_def isReadAction_def isWriteAction_def)+

lemma permitted_is_documented:
  assumes "action \<in> socialActions \<Longrightarrow> IsPublic repo \<or> roleRank RoleRead \<le> roleRank role"
    and "authorCloses actor action repo \<Longrightarrow> writable d action repo"
  shows "permitted d actor action repo role \<longleftrightarrow> documented d actor action repo role"
proof (cases "isReadAction action")
  case True
  then have "action \<notin> socialActions" using documented_tables(2) [of action] read_minRole [OF True] by (auto simp: roleRank_def)
  then show ?thesis using True by (simp add: permitted_def documented_def documented_tables read_minRole)
next
  case False
  have part: "action \<in> {ActionIssueCreate, ActionIssueComment} \<longleftrightarrow> isIssueParticipationAction action" by (auto simp: isIssueParticipationAction_def)
  have "roleSuffices actor action repo role \<longleftrightarrow>
      (action \<in> socialActions \<and> \<not> IsAnonymous actor \<and> (IsPublic repo \<or> roleRank (documentedRole action) \<le> roleRank role))
      \<or> (isIssueParticipationAction action \<and> IsPublic repo \<and> \<not> IsAnonymous actor)
      \<or> (action \<notin> socialActions \<and> \<not> (isIssueParticipationAction action \<and> IsPublic repo) \<and> roleRank (documentedRole action) \<le> roleRank role)"
    using assms(1) by (cases "action \<in> socialActions") (auto simp: roleSuffices_def documented_tables)
  then show ?thesis using False assms(2) unfolding permitted_def documented_def documented_tables(1) part by auto
qed

text \<open>
  C1. \<^emph>\<open>The decision is the documented policy.\<close> For any actor, action and repository, and any request cache whose entries
  agree with the database, \<open>Can\<close> allows exactly what \<open>documented\<close> grants to the actor's role, outside two cases in which the
  code grants more than its documentation: a star, fork or watch by somebody who cannot read the repository, and the close
  of a thread by its author on an archived, paused or suspended repository. The theorems
  \<open>social_actions_reach_private_repos\<close> and \<open>author_close_precedes_freeze\<close> below are about these two cases.
\<close>

theorem can_decides_policy:
  assumes "cache_coherent d own c" and "owned_as own repo" and "roleOf d actor repo = Inr role"
    and "action \<in> socialActions \<Longrightarrow> IsPublic repo \<or> roleRank RoleRead \<le> roleRank role"
    and "authorCloses actor action repo \<Longrightarrow> writable d action repo"
  shows "Allow (fst (Can d c actor action repo)) \<longleftrightarrow> documented d actor action repo role"
proof -
  obtain c' where "effectiveRole d c actor repo = (Inr role, c')"
    using request.resolve_pair [OF assms(1,2), of actor] assms(3) by metis
  then show ?thesis using permitted_is_documented [OF assms(4,5)] by (simp add: Can_permitted)
qed

definition demo_db :: policy_db where
  "demo_db =
     \<lparr>q_org_suspended = (\<lambda>_. QRow False),
      q_org_requires_2fa = (\<lambda>org. QRow (org = 9)),
      q_org_role = (\<lambda>org u. if u = 2 then QRow ''owner'' else QNoRows),
      q_collab_role = (\<lambda>r u. if u = 3 then QRow ''triage'' else QNoRows),
      q_teams_of = (\<lambda>org u. Inr (if u = 3 then [(70, Some 71)] else [], RowsDone)),
      q_team_grants = (\<lambda>r ts. Inr (if 71 \<in> set ts then [''read'', ''write''] else [], RowsDone))\<rparr>"

definition demo_deps :: Deps where
  "demo_deps = \<lparr>Pool = Some demo_db\<rparr>"

definition demo_repo :: RepoRef where
  "demo_repo =
     \<lparr>RepoID = 5, OwnerUserID = 0, OwnerOrgID = 8, Visibility = ''private'', IsArchived = False,
      IsDeleted = False, IsPaused = False, AuthorUserID = 0\<rparr>"

definition demo_user :: "go_int64 \<Rightarrow> Actor" where
  "demo_user u = UserActor u ''u'' False False"

lemmas demo_simps =
  demo_db_def demo_deps_def demo_repo_def demo_user_def UserActor_def UserActorWithTwoFactor_def

lemma demo_role: "roleOf demo_deps (demo_user 3) demo_repo = Inr RoleWrite"
  by (simp add: demo_simps roleSpec_def collabSpec_def teamGrantedRole_def team_ids_def Let_def
      roleFromDB_def teamRepoRoleToPolicyRole_def keep_better_def roleStronger_def)

lemma demo_owned: "owned_as (\<lambda>_. (0, 8)) demo_repo"
  by (simp add: owned_as_def demo_repo_def)

theorem can_decides_policy_witness:
  "Allow (fst (Can demo_deps WithCache (demo_user 3) ActionRepoWrite demo_repo))
   \<and> Allow (fst (Can demo_deps WithCache (demo_user 3) ActionStarCreate demo_repo))
   \<and> \<not> Allow (fst (Can demo_deps WithCache (demo_user 3) ActionPullMerge demo_repo))"
proof -
  note can = can_decides_policy [OF coherent_fresh(1) demo_owned demo_role]
  have closes: "\<not> authorCloses (demo_user 3) action demo_repo" for action by (simp add: authorCloses_def demo_repo_def)
  have may: "documented demo_deps (demo_user 3) ActionRepoWrite demo_repo RoleWrite" "documented demo_deps (demo_user 3) ActionStarCreate demo_repo RoleWrite"
    "\<not> documented demo_deps (demo_user 3) ActionPullMerge demo_repo RoleWrite"
    by (simp_all add: documented_def documentedReads_def socialActions_def documentedRole_def twoFactorMet_def writable_def authorCloses_def demo_simps
        IsPrivate_def IsPublic_def roleRank_def orgRequiresTwoFactor_def isOrgSuspended_def)
  show ?thesis using can [of ActionRepoWrite] can [of ActionStarCreate] can [of ActionPullMerge] closes may by (auto simp: roleRank_def)
qed

fun can_all :: "Deps \<Rightarrow> requestCache \<Rightarrow> (Actor \<times> Action \<times> RepoRef) list \<Rightarrow> Decision list \<times> requestCache" where
  "can_all d c [] = ([], c)"
| "can_all d c ((actor, action, repo) # qs) =
     (let (dec, c1) = Can d c actor action repo; (decs, c2) = can_all d c1 qs in (dec # decs, c2))"

lemma can_all_coherent:
  "cache_coherent d own c \<Longrightarrow> \<forall>(actor, action, repo) \<in> set qs. owned_as own repo \<Longrightarrow>
   fst (can_all d c qs) = map (\<lambda>(actor, action, repo). CanSpec d actor action repo) qs"
proof (induction qs arbitrary: c)
  case Nil
  then show ?case by simp
next
  case (Cons q qs)
  obtain actor action repo where q: "q = (actor, action, repo)" by (cases q)
  have o: "owned_as own repo" using Cons.prems(2) q by simp
  show ?case
    using Cons.IH [OF Can_coherent(2) [OF Cons.prems(1) o, of actor action]] Cons.prems(2)
      Can_coherent(1) [OF Cons.prems(1) o, of actor action]
    by (cases "Can d c actor action repo") (auto simp: q Let_def split: prod.splits)
qed

text \<open>
  C30. \<^emph>\<open>The request cache is transparent.\<close> A request that makes any sequence of decisions, starting from
  the empty cache, gets for each of them the decision it would get with no cache at all.
\<close>

theorem request_cache_transparent:
  assumes "\<forall>(actor, action, repo) \<in> set qs. owned_as own repo"
  shows "fst (can_all d WithCache qs) = map (\<lambda>(actor, action, repo). fst (Can d None actor action repo)) qs"
  using can_all_coherent [OF coherent_fresh(1) assms] by (simp add: CanSpec_def)

theorem request_cache_transparent_witness:
  "fst (can_all demo_deps WithCache
          [(demo_user 3, ActionRepoWrite, demo_repo), (demo_user 3, ActionRepoAdmin, demo_repo)])
   = [fst (Can demo_deps None (demo_user 3) ActionRepoWrite demo_repo),
      fst (Can demo_deps None (demo_user 3) ActionRepoAdmin demo_repo)]"
  using request_cache_transparent
    [of "[(demo_user 3, ActionRepoWrite, demo_repo), (demo_user 3, ActionRepoAdmin, demo_repo)]"
        "\<lambda>_. (0, 8)" demo_deps] demo_owned
  by simp

lemma teamGrantedRole_rank:
  assumes "q_teams_of db org uid = Inr (rows, RowsDone)"
    and "q_team_grants db rid (team_ids rows) = Inr (grants, RowsDone)"
    and "team_ids rows = [] \<Longrightarrow> grants = []"
  shows "\<exists>role. teamGrantedRole db uid org rid = Inr role
           \<and> roleRank role = Max (insert 0 ((roleRank \<circ> teamRepoRoleToPolicyRole) ` set grants))"
proof -
  let ?r = "foldl (keep_better roleStronger) RoleNone (map teamRepoRoleToPolicyRole grants)"
  let ?S = "insert 0 ((roleRank \<circ> teamRepoRoleToPolicyRole) ` set grants)"
  have "teamGrantedRole db uid org rid = Inr ?r"
    using assms by (auto simp: teamGrantedRole_def Let_def)
  moreover have "roleRank ?r = Max ?S"
  proof (rule Max_eqI [symmetric])
    show "finite ?S" by simp
    show "y \<le> roleRank ?r" if "y \<in> ?S" for y
      using role_pick.keep_best [of _ RoleNone "map teamRepoRoleToPolicyRole grants"] that
      by (auto simp: roleStronger_def not_less)
    show "roleRank ?r \<in> ?S"
      using role_pick.keep_mem [of RoleNone "map teamRepoRoleToPolicyRole grants"] by auto
  qed
  ultimately show ?thesis by blast
qed

text \<open>
  \<^emph>\<open>The effective role is the strongest grant.\<close> When the queries answer, a user who is neither the
  owner nor an owner of the organisation gets a role whose rank is the maximum over the direct
  grant and every grant of one of the user's teams or of their parent teams.
\<close>

theorem effective_role_is_strongest_grant:
  assumes "Pool d = Some db" and "UserID actor \<noteq> 0" and "UserID actor \<noteq> OwnerUserID repo"
    and "OwnerOrgID repo \<noteq> 0" and "q_org_role db (OwnerOrgID repo) (UserID actor) \<noteq> QRow ''owner''"
    and "q_collab_role db (RepoID repo) (UserID actor) = QRow direct"
    and "q_teams_of db (OwnerOrgID repo) (UserID actor) = Inr (rows, RowsDone)" and "rows \<noteq> []"
    and "q_team_grants db (RepoID repo) (team_ids rows) = Inr (grants, RowsDone)"
  shows "\<exists>role. fst (effectiveRole d None actor repo) = Inr role
           \<and> roleRank role = Max (insert (roleRank (roleFromDB direct))
                                    ((roleRank \<circ> teamRepoRoleToPolicyRole) ` set grants))"
proof -
  have ne: "team_ids rows \<noteq> []" using assms(8) by (cases rows) (auto simp: team_ids_def split: prod.splits)
  obtain team where team: "teamGrantedRole db (UserID actor) (OwnerOrgID repo) (RepoID repo) = Inr team"
    and rk: "roleRank team = Max (insert 0 ((roleRank \<circ> teamRepoRoleToPolicyRole) ` set grants))"
    using teamGrantedRole_rank [OF assms(7,9)] ne by blast
  let ?b = "keep_better roleStronger (roleFromDB direct) team"
  have "roleRank ?b = max (roleRank (roleFromDB direct)) (roleRank team)"
    by (simp add: keep_better_def roleStronger_def)
  also have "\<dots> = Max (insert (roleRank (roleFromDB direct))
                         ((roleRank \<circ> teamRepoRoleToPolicyRole) ` set grants))"
    unfolding rk by (cases "grants = []") (auto simp: max.left_commute)
  finally show ?thesis
    using assms team by (simp add: effectiveRole_unfold Let_def roleSpec_def collabSpec_def)
qed

theorem effective_role_is_strongest_grant_witness:
  "\<exists>role. fst (effectiveRole demo_deps None (demo_user 3) demo_repo) = Inr role
     \<and> roleRank role = Max (insert (roleRank (roleFromDB ''triage''))
                              ((roleRank \<circ> teamRepoRoleToPolicyRole) ` set [''read'', ''write'']))"
  by (rule effective_role_is_strongest_grant [where db = demo_db and rows = "[(70, Some 71)]"])
    (simp_all add: demo_simps team_ids_def)

lemma Can_role_error:
  assumes "effectiveRole d c actor repo = (Inl e, c')" and "Allow (fst (Can d c actor action repo))"
  shows "(isReadAction action \<and> (IsSiteAdmin actor \<or> IsPublic repo))
         \<or> (isIssueParticipationAction action \<and> IsPublic repo \<and> \<not> IsAnonymous actor
            \<and> (OwnerOrgID repo = 0 \<or> HasConfirmedTwoFactor actor
               \<or> \<not> orgRequiresTwoFactor d (OwnerOrgID repo)))"
  using assms
  by (auto simp: Can_early Can_public_issue_gate earlyDecision_def deny_def split: if_splits)

text \<open>
  \<^emph>\<open>Role-lookup failures fail closed.\<close> When the database cannot say which role the actor has, nothing
  is allowed but what needs no role: reads by site administrators, reads of public repositories,
  and issue participation on a public repository whose organisation does not gate it on 2FA.
\<close>

theorem role_lookup_failure_denies:
  assumes "roleOf d actor repo = Inl e" and "cache_coherent d own c" and "owned_as own repo"
    and "Allow (fst (Can d c actor action repo))"
  shows "(isReadAction action \<and> (IsSiteAdmin actor \<or> IsPublic repo))
         \<or> (isIssueParticipationAction action \<and> IsPublic repo \<and> \<not> IsAnonymous actor
            \<and> (OwnerOrgID repo = 0 \<or> HasConfirmedTwoFactor actor
               \<or> \<not> orgRequiresTwoFactor d (OwnerOrgID repo)))"
proof -
  obtain c' where "effectiveRole d c actor repo = (Inl e, c')"
    using request.resolve_pair [OF assms(2,3), of actor] assms(1) by metis
  then show ?thesis using assms(4) by (rule Can_role_error)
qed

definition broken_db :: policy_db where
  "broken_db = demo_db\<lparr>q_collab_role := (\<lambda>_ _. QErr ''timeout'')\<rparr>"

theorem role_lookup_failure_denies_witness:
  "\<not> Allow (fst (Can \<lparr>Pool = Some broken_db\<rparr> WithCache (demo_user 3) ActionRepoRead demo_repo))"
proof
  let ?d = "\<lparr>Pool = Some broken_db\<rparr>"
  assume a: "Allow (fst (Can ?d WithCache (demo_user 3) ActionRepoRead demo_repo))"
  have "roleOf ?d (demo_user 3) demo_repo = Inl ''timeout''"
    by (simp add: broken_db_def demo_simps roleSpec_def collabSpec_def)
  from role_lookup_failure_denies [OF this coherent_fresh(1) demo_owned a]
  show False by (simp add: demo_simps IsPublic_def isIssueParticipationAction_def)
qed

text \<open>
  \<^emph>\<open>Private repositories stay hidden.\<close> A user with no role on a private repository, who is no site
  administrator, is refused every action of the registry that needs a role, except closing a
  thread of their own, and the refusal is served as 404, like a repository that is not there.
\<close>

theorem private_repo_hidden:
  assumes "IsPrivate repo" and "roleOf d actor repo = Inr RoleNone" and "\<not> IsSiteAdmin actor"
    and "minRoleFor action \<noteq> RoleNone" and "\<not> authorCloses actor action repo"
    and "cache_coherent d own c" and "owned_as own repo"
  shows "\<not> Allow (fst (Can d c actor action repo))
         \<and> Maybe404 (fst (Can d c actor action repo)) repo actor = 404"
proof -
  obtain c' where e: "effectiveRole d c actor repo = (Inr RoleNone, c')"
    using request.resolve_pair [OF assms(6,7), of actor] assms(2) by metis
  have pub: "\<not> IsPublic repo" using assms(1) public_not_private by blast
  have na: "\<not> Allow (fst (Can d c actor action repo))"
    using minRoleFor_rank [OF assms(4)] read_minRole [of action] assms(1,3-5) pub
    unfolding Can_permitted [OF e] permitted_def
    by (auto simp: roleSuffices_def)
  have "UserID actor = 0 \<or> UserID actor \<noteq> OwnerUserID repo"
    using assms(2) by (auto simp: roleSpec_def)
  moreover have "Code (fst (Can d c actor action repo)) \<noteq> DenyOrgRequiresTwoFactor"
    using na pub by (auto simp: Can_early e earlyDecision_def Can_with_role_def deny_def allow_def split: if_splits)
  ultimately show ?thesis
    using na assms(1) by (auto simp: Maybe404_def)
qed

theorem private_repo_hidden_witness:
  "Maybe404 (fst (Can demo_deps WithCache (demo_user 4) ActionRepoRead demo_repo)) demo_repo (demo_user 4) = 404"
proof -
  have r: "roleOf demo_deps (demo_user 4) demo_repo = Inr RoleNone"
    by (simp add: demo_simps roleSpec_def collabSpec_def teamGrantedRole_def team_ids_def Let_def
        keep_better_def roleStronger_def)
  have p: "IsPrivate demo_repo" by (simp add: demo_repo_def IsPrivate_def)
  have s: "\<not> IsSiteAdmin (demo_user 4)" by (simp add: demo_simps)
  have m: "minRoleFor ActionRepoRead \<noteq> RoleNone" by (simp add: minRoleFor_def)
  have a: "\<not> authorCloses (demo_user 4) ActionRepoRead demo_repo" by (simp add: authorCloses_def)
  show ?thesis using private_repo_hidden [OF p r s m a coherent_fresh(1) demo_owned] by simp
qed

text \<open>
  \<^emph>\<open>Starring, forking and watching are not gated on visibility.\<close> On a private, unfrozen repository, a
  logged-in user with no role at all is still granted the three social actions: \<open>Can\<close> checks no
  visibility for them once the actor is logged in.
\<close>

theorem social_actions_reach_private_repos:
  assumes "IsPrivate repo" and "roleOf d actor repo = Inr RoleNone" and "\<not> IsAnonymous actor"
    and "action \<in> {ActionStarCreate, ActionForkCreate, ActionWatchSet}"
    and "\<not> IsDeleted repo" and "\<not> IsSuspended actor" and "\<not> Impersonating actor"
    and "writable d action repo"
    and "cache_coherent d own c" and "owned_as own repo"
  shows "Allow (fst (Can d c actor action repo))"
proof -
  obtain c' where e: "effectiveRole d c actor repo = (Inr RoleNone, c')"
    using request.resolve_pair [OF assms(9,10), of actor] assms(2) by metis
  have "minRoleFor action = RoleNone" "\<not> isReadAction action"
    using assms(4) by (auto simp: minRoleFor_None_iff isReadAction_def isWriteAction_def)
  then show ?thesis
    unfolding Can_permitted [OF e] permitted_def
    using assms(3,5-8) by (auto simp: twoFactorMet_def roleSuffices_def)
qed

theorem social_actions_reach_private_repos_witness:
  "Allow (fst (Can demo_deps WithCache (demo_user 4) ActionForkCreate demo_repo))"
proof -
  have r: "roleOf demo_deps (demo_user 4) demo_repo = Inr RoleNone"
    by (simp add: demo_simps roleSpec_def collabSpec_def teamGrantedRole_def team_ids_def Let_def
        keep_better_def roleStronger_def)
  have w: "writable demo_deps ActionForkCreate demo_repo"
    by (simp add: writable_def demo_simps isOrgSuspended_def)
  show ?thesis
    by (rule social_actions_reach_private_repos [OF _ r _ _ _ _ _ w coherent_fresh(1) demo_owned])
      (simp_all add: demo_simps IsPrivate_def)
qed

text \<open>
  \<^emph>\<open>Authors may close threads on frozen repositories.\<close> The author of an issue or pull request may close
  it even when the repository is archived or paused or its organisation is suspended: the author
  rule precedes those gates. Suspended and read-only impersonating actors are still refused.
\<close>

theorem author_close_precedes_freeze:
  assumes "authorCloses actor action repo" and "\<not> IsDeleted repo"
    and "\<not> (IsAnonymous actor \<and> IsPrivate repo)"
    and "roleOf d actor repo = Inr role" and "twoFactorMet d actor action repo role"
    and "cache_coherent d own c" and "owned_as own repo"
  shows "Allow (fst (Can d c actor action repo))
         \<longleftrightarrow> \<not> IsSuspended actor \<and> (Impersonating actor \<longrightarrow> ImpersonateWriteOK actor)"
proof -
  obtain c' where e: "effectiveRole d c actor repo = (Inr role, c')"
    using request.resolve_pair [OF assms(6,7), of actor] assms(4) by metis
  have "\<not> isReadAction action"
    using assms(1) by (auto simp: authorCloses_def isReadAction_def isWriteAction_def)
  then show ?thesis
    unfolding Can_permitted [OF e] permitted_def using assms(1,2,3,5) by auto
qed

theorem author_close_precedes_freeze_witness:
  "Allow (fst (Can demo_deps WithCache (demo_user 3) ActionIssueClose
                 (demo_repo\<lparr>IsArchived := True, AuthorUserID := 3\<rparr>)))"
proof -
  let ?r = "demo_repo\<lparr>IsArchived := True, AuthorUserID := 3\<rparr>"
  have role: "roleOf demo_deps (demo_user 3) ?r = Inr RoleWrite"
    using demo_role by (simp add: demo_repo_def)
  have a: "authorCloses (demo_user 3) ActionIssueClose ?r"
    by (simp add: authorCloses_def demo_simps)
  have t: "twoFactorMet demo_deps (demo_user 3) ActionIssueClose ?r RoleWrite"
    by (simp add: twoFactorMet_def demo_simps orgRequiresTwoFactor_def)
  have o: "owned_as (\<lambda>_. (0, 8)) ?r" by (simp add: owned_as_def demo_repo_def)
  show ?thesis
    using author_close_precedes_freeze [OF a _ _ role t coherent_fresh(1) o]
    by (simp add: demo_simps)
qed

text \<open>
  \<^emph>\<open>A stronger role never loses access.\<close> For an actor with confirmed 2FA, whatever is permitted with
  one role is permitted with every role of at least that rank.
\<close>

theorem permitted_monotone_in_role:
  assumes "HasConfirmedTwoFactor actor" and "roleRank weak \<le> roleRank strong"
    and "permitted d actor action repo weak"
  shows "permitted d actor action repo strong"
  using assms
  by (auto simp: permitted_def twoFactorMet_def roleSuffices_def split: if_splits)

theorem permitted_monotone_in_role_witness:
  "permitted demo_deps (demo_user 3\<lparr>HasConfirmedTwoFactor := True\<rparr>) ActionRepoWrite demo_repo RoleAdmin"
proof -
  let ?a = "demo_user 3\<lparr>HasConfirmedTwoFactor := True\<rparr>"
  have "permitted demo_deps ?a ActionRepoWrite demo_repo RoleWrite"
    by (simp add: permitted_unfold demo_simps minRoleFor_def isReadAction_def isWriteAction_def
        isIssueParticipationAction_def isOrgSuspended_def)
  then show ?thesis
    using permitted_monotone_in_role [of ?a RoleWrite RoleAdmin demo_deps ActionRepoWrite demo_repo]
    by simp
qed

text \<open>
  \<^emph>\<open>The permission bundle is nested.\<close> In the bundle served to API clients admin implies maintain,
  maintain implies push, push equals triage, and push implies pull.
\<close>

lemma PermissionsFor_spec:
  assumes "cache_coherent d own c" and "owned_as own repo"
  shows "fst (PermissionsFor d c actor repo) =
     \<lparr>Admin = Allow (CanSpec d actor ActionRepoAdmin repo),
      Maintain = Allow (CanSpec d actor ActionRepoSettingsGeneral repo),
      Push = Allow (CanSpec d actor ActionRepoWrite repo),
      Triage = Allow (CanSpec d actor ActionRepoWrite repo),
      Pull = Allow (CanSpec d actor ActionRepoRead repo)\<rparr>"
proof -
  note step = Can_coherent(1) [OF _ assms(2)] and keep = Can_coherent(2) [OF _ assms(2)]
  let ?c1 = "snd (Can d c actor ActionRepoAdmin repo)"
  let ?c2 = "snd (Can d ?c1 actor ActionRepoSettingsGeneral repo)"
  let ?c3 = "snd (Can d ?c2 actor ActionRepoWrite repo)"
  let ?c4 = "snd (Can d ?c3 actor ActionRepoWrite repo)"
  have k1: "cache_coherent d own ?c1" using assms(1) by (rule keep)
  then have k2: "cache_coherent d own ?c2" by (rule keep)
  then have k3: "cache_coherent d own ?c3" by (rule keep)
  then have k4: "cache_coherent d own ?c4" by (rule keep)
  show ?thesis
    using step [OF assms(1)] step [OF k1] step [OF k2] step [OF k3] step [OF k4]
    by (simp add: PermissionsFor_def Let_def split_beta)
qed

lemma permitted_core_write:
  assumes "action \<in> {ActionRepoAdmin, ActionRepoSettingsGeneral, ActionRepoWrite}"
  shows "permitted d actor action repo role \<longleftrightarrow>
     \<not> IsDeleted repo \<and> \<not> IsSuspended actor \<and> (Impersonating actor \<longrightarrow> ImpersonateWriteOK actor)
     \<and> \<not> (IsAnonymous actor \<and> IsPrivate repo) \<and> twoFactorMet d actor ActionRepoWrite repo role
     \<and> writable d ActionRepoWrite repo \<and> roleRank (minRoleFor action) \<le> roleRank role"
proof -
  have "\<not> isReadAction action" "\<not> authorCloses actor action repo" "action \<noteq> ActionRepoArchive"
    "\<not> isIssueParticipationAction action" "minRoleFor action \<noteq> RoleNone"
    using assms
    by (auto simp: isReadAction_def isWriteAction_def authorCloses_def isIssueParticipationAction_def minRoleFor_def)
  moreover from this have "twoFactorMet d actor action repo role = twoFactorMet d actor ActionRepoWrite repo role"
    by (simp add: twoFactorMet_def isReadAction_def isWriteAction_def)
  ultimately show ?thesis
    by (simp add: permitted_def roleSuffices_def writable_def)
qed

lemma permitted_write_read:
  assumes "permitted d actor ActionRepoWrite repo role"
  shows "permitted d actor ActionRepoRead repo role"
proof -
  have read: "isReadAction ActionRepoRead" by (simp add: isReadAction_def isWriteAction_def)
  have "twoFactorMet d actor ActionRepoRead repo role" "roleRank RoleRead \<le> roleRank role"
    "\<not> IsDeleted repo" "\<not> (IsAnonymous actor \<and> IsPrivate repo)"
    using assms unfolding permitted_core_write [of ActionRepoWrite, simplified]
    by (auto simp: twoFactorMet_def minRoleFor_def isReadAction_def isWriteAction_def)
  then show ?thesis by (simp add: permitted_def read)
qed

lemma CanSpec_write_chain:
  assumes "Allow (CanSpec d actor strong repo)" and "roleRank (minRoleFor weak) \<le> roleRank (minRoleFor strong)"
    and "strong \<in> {ActionRepoAdmin, ActionRepoSettingsGeneral, ActionRepoWrite}"
    and "weak \<in> {ActionRepoSettingsGeneral, ActionRepoWrite, ActionRepoRead}"
  shows "Allow (CanSpec d actor weak repo)"
proof -
  obtain c' where e: "effectiveRole d None actor repo = (roleOf d actor repo, c')"
    by (rule request.resolve_pair [OF coherent_fresh(2), of "\<lambda>_. (OwnerUserID repo, OwnerOrgID repo)"])
      (simp_all add: owned_as_def)
  show ?thesis
  proof (cases "roleOf d actor repo")
    case (Inl err)
    with e have "effectiveRole d None actor repo = (Inl err, c')" by simp
    from Can_role_error [OF this, of strong] assms(1,3) show ?thesis
      by (auto simp: CanSpec_def isReadAction_def isWriteAction_def isIssueParticipationAction_def)
  next
    case (Inr role)
    note p = Can_permitted [OF e [unfolded Inr]]
    show ?thesis
      using assms permitted_write_read [of d actor repo role] unfolding CanSpec_def p
      by (auto simp: permitted_core_write minRoleFor_def)
  qed
qed

theorem permission_bundle_nested:
  assumes "cache_coherent d own c" and "owned_as own repo"
    and "p = fst (PermissionsFor d c actor repo)"
  shows "(Admin p \<longrightarrow> Maintain p) \<and> (Maintain p \<longrightarrow> Push p) \<and> Triage p = Push p \<and> (Push p \<longrightarrow> Pull p)"
  using CanSpec_write_chain [of d actor _ repo]
  unfolding assms(3) PermissionsFor_spec [OF assms(1,2)]
  by (simp add: minRoleFor_def)

theorem permission_bundle_nested_witness:
  "Push (fst (PermissionsFor demo_deps WithCache (demo_user 3) demo_repo)) \<longrightarrow>
   Pull (fst (PermissionsFor demo_deps WithCache (demo_user 3) demo_repo))"
  using permission_bundle_nested [OF coherent_fresh(1) demo_owned refl] by blast

lemma VisibilityPredicate_text:
  "fst (VisibilityPredicate actor a p) = cond_text (if a = '''' then ''r'' else a) p (visibility_cond actor)"
  by (simp add: VisibilityPredicate_def visibility_cond_def Let_def)

lemma VisibilityPredicate_args:
  "\<not> IsSiteAdmin actor \<Longrightarrow> \<not> IsAnonymous actor \<Longrightarrow> snd (VisibilityPredicate actor a p) = [UserID actor, UserID actor]"
  by (simp add: VisibilityPredicate_def Let_def)

text \<open>
  \<^emph>\<open>The listing predicate agrees with the decision on user-owned repositories.\<close> For a logged-in
  viewer, the row of a user-owned repository satisfies the SQL clause of \<open>VisibilityPredicate\<close>
  exactly when \<open>Can\<close> lets the viewer read it, provided the collaborator query answers with a role
  of the enumeration.
\<close>

theorem visibility_predicate_agrees_on_user_repos:
  assumes "Pool d = Some db" and "row_OwnerOrgID row = None" and "row_OwnerUserID row \<noteq> Some 0"
    and "UserID actor \<noteq> 0" and "\<not> IsAnonymous actor"
    and "row_Visibility row \<in> {''public'', ''private''}"
    and "q_collab_role db (row_ID row) (UserID actor) = QNoRows
         \<or> (\<exists>s \<in> {''read'', ''triage'', ''write'', ''maintain'', ''admin''}.
              q_collab_role db (row_ID row) (UserID actor) = QRow s)"
  shows "fst (VisibilityPredicate actor ''r'' p) = cond_text ''r'' p (visibility_cond actor)
         \<and> (cond_holds db (snd (VisibilityPredicate actor ''r'' p)) row (visibility_cond actor)
            \<longleftrightarrow> fst (IsVisibleTo d None actor (NewRepoRefFromRepo row)))"
proof -
  let ?repo = "NewRepoRefFromRepo row"
  obtain c' where e: "effectiveRole d None actor ?repo = (roleOf d actor ?repo, c')"
    by (rule request.resolve_pair [OF coherent_fresh(2), of "\<lambda>_. (OwnerUserID ?repo, OwnerOrgID ?repo)"])
      (simp_all add: owned_as_def)
  define role where "role = (if row_OwnerUserID row = Some (UserID actor) then RoleAdmin
    else case q_collab_role db (row_ID row) (UserID actor) of QRow s \<Rightarrow> roleFromDB s | _ \<Rightarrow> RoleNone)"
  have r: "roleOf d actor ?repo = Inr role"
    using assms(1-4,7)
    by (auto simp: role_def roleSpec_def collabSpec_def NewRepoRefFromRepo_def split: option.splits)
  have rank: "roleRank RoleRead \<le> roleRank role \<longleftrightarrow>
      row_OwnerUserID row = Some (UserID actor)
      \<or> (case q_collab_role db (row_ID row) (UserID actor) of QRow _ \<Rightarrow> True | _ \<Rightarrow> False)"
    using assms(7) by (auto simp: role_def roleFromDB_def)
  have vis: "fst (IsVisibleTo d None actor ?repo) \<longleftrightarrow> permitted d actor ActionRepoRead ?repo role"
    using Can_permitted [OF e [unfolded r], of ActionRepoRead] by (simp add: IsVisibleTo_def split_beta)
  have "permitted d actor ActionRepoRead ?repo role \<longleftrightarrow> row_DeletedAt row = None
      \<and> (IsSiteAdmin actor \<or> row_Visibility row = ''public'' \<or> roleRank RoleRead \<le> roleRank role)"
    using assms(2,5) by (auto simp: permitted_def twoFactorMet_def NewRepoRefFromRepo_def IsPublic_def
        isReadAction_def isWriteAction_def)
  then show ?thesis
    unfolding VisibilityPredicate_text vis rank
    using assms(5) VisibilityPredicate_args [of actor "''r''" p]
    by (cases "IsSiteAdmin actor") (auto simp: visibility_cond_def)
qed

definition demo_row :: RepoRow where
  "demo_row = \<lparr>row_ID = 5, row_OwnerUserID = Some 1, row_OwnerOrgID = None, row_Visibility = ''private'',
     row_IsArchived = False, row_IsPaused = False, row_DeletedAt = None\<rparr>"

theorem visibility_predicate_agrees_on_user_repos_witness:
  "cond_holds demo_db (snd (VisibilityPredicate (demo_user 3) ''r'' 1)) demo_row (visibility_cond (demo_user 3))
   \<longleftrightarrow> fst (IsVisibleTo demo_deps None (demo_user 3) (NewRepoRefFromRepo demo_row))"
  using visibility_predicate_agrees_on_user_repos [of demo_deps demo_db demo_row "demo_user 3" 1]
  by (simp add: demo_simps demo_row_def)

text \<open>
  \<^emph>\<open>The listing predicate misses organisation grants.\<close> There is a private repository of an organisation
  which an owner of the organisation may read but whose row does not satisfy the viewer's clause,
  and one which the clause lists although \<open>Can\<close> refuses the read (2FA required).
\<close>

theorem visibility_predicate_diverges_on_org_repos:
  "(\<exists>d db row actor. Pool d = Some db \<and> \<not> IsAnonymous actor \<and> row_OwnerOrgID row \<noteq> None
     \<and> fst (IsVisibleTo d None actor (NewRepoRefFromRepo row))
     \<and> \<not> cond_holds db (snd (VisibilityPredicate actor ''r'' 1)) row (visibility_cond actor))
   \<and> (\<exists>d db row actor. Pool d = Some db \<and> \<not> IsAnonymous actor \<and> row_OwnerOrgID row \<noteq> None
     \<and> \<not> fst (IsVisibleTo d None actor (NewRepoRefFromRepo row))
     \<and> cond_holds db (snd (VisibilityPredicate actor ''r'' 1)) row (visibility_cond actor))"
proof (rule conjI)
  let ?row = "\<lambda>org. demo_row\<lparr>row_OwnerUserID := None, row_OwnerOrgID := Some org\<rparr>"
  show "\<exists>d db row actor. Pool d = Some db \<and> \<not> IsAnonymous actor \<and> row_OwnerOrgID row \<noteq> None
     \<and> fst (IsVisibleTo d None actor (NewRepoRefFromRepo row))
     \<and> \<not> cond_holds db (snd (VisibilityPredicate actor ''r'' 1)) row (visibility_cond actor)"
    by (rule exI [of _ demo_deps], rule exI [of _ demo_db], rule exI [of _ "?row 8"], rule exI [of _ "demo_user 2"])
      (simp add: demo_simps demo_row_def NewRepoRefFromRepo_def IsVisibleTo_def Can_early earlyDecision_def
        effectiveRole_def Can_with_role_def IsPublic_def IsPrivate_def policy_defs minRoleFor_def
        orgRequiresTwoFactor_def VisibilityPredicate_def visibility_cond_def Let_def)
next
  let ?row = "\<lambda>org. demo_row\<lparr>row_OwnerUserID := None, row_OwnerOrgID := Some org\<rparr>"
  show "\<exists>d db row actor. Pool d = Some db \<and> \<not> IsAnonymous actor \<and> row_OwnerOrgID row \<noteq> None
     \<and> \<not> fst (IsVisibleTo d None actor (NewRepoRefFromRepo row))
     \<and> cond_holds db (snd (VisibilityPredicate actor ''r'' 1)) row (visibility_cond actor)"
    by (rule exI [of _ demo_deps], rule exI [of _ demo_db], rule exI [of _ "?row 9"], rule exI [of _ "demo_user 3"])
      (simp add: demo_simps demo_row_def NewRepoRefFromRepo_def IsVisibleTo_def Can_early earlyDecision_def
        effectiveRole_def Can_with_role_def IsPublic_def IsPrivate_def policy_defs minRoleFor_def
        teamGrantedRole_def team_ids_def roleFromDB_def teamRepoRoleToPolicyRole_def roleStronger_def
        keep_better_def orgRequiresTwoFactor_def VisibilityPredicate_def visibility_cond_def Let_def)
qed

end
