(* ===== verification/GoRunes.thy ===== *)
theory GoRunes
  imports Prelude "HOL-Library.List_Lexorder" "HOL-Library.Char_ord"
begin

text \<open>
  The parts of Go's standard library that look at runes: decoding UTF-8 (\<^verbatim>\<open>unicode/utf8\<close>) and the
  shell patterns of \<^verbatim>\<open>path/filepath.Match\<close> on a Unix host. Byte strings are ordered bytewise, as Go
  orders strings.
\<close>

section \<open>Runes\<close>

abbreviation code :: "char \<Rightarrow> nat" where
  "code c \<equiv> of_char c"

definition RuneError :: nat where
  "RuneError = 65533"

definition in_range :: "nat \<Rightarrow> nat \<Rightarrow> char \<Rightarrow> bool" where
  "in_range lo hi c \<longleftrightarrow> lo \<le> code c \<and> code c \<le> hi"

text \<open>The pair of a rune and its width; an invalid encoding is \<open>(RuneError, 1)\<close>, the empty string \<open>(RuneError, 0)\<close>.\<close>

definition decode2 :: "char \<Rightarrow> string \<Rightarrow> nat \<times> nat" where
  "decode2 c0 rest =
     (case rest of
        c1 # _ \<Rightarrow> if in_range 128 191 c1 then ((code c0 - 192) * 64 + (code c1 - 128), 2) else (RuneError, 1)
      | _ \<Rightarrow> (RuneError, 1))"

definition decode3 :: "nat \<Rightarrow> nat \<Rightarrow> char \<Rightarrow> string \<Rightarrow> nat \<times> nat" where
  "decode3 lo hi c0 rest =
     (case rest of
        c1 # c2 # _ \<Rightarrow>
          if in_range lo hi c1 \<and> in_range 128 191 c2
          then ((code c0 - 224) * 4096 + (code c1 - 128) * 64 + (code c2 - 128), 3) else (RuneError, 1)
      | _ \<Rightarrow> (RuneError, 1))"

definition decode4 :: "nat \<Rightarrow> nat \<Rightarrow> char \<Rightarrow> string \<Rightarrow> nat \<times> nat" where
  "decode4 lo hi c0 rest =
     (case rest of
        c1 # c2 # c3 # _ \<Rightarrow>
          if in_range lo hi c1 \<and> in_range 128 191 c2 \<and> in_range 128 191 c3
          then ((code c0 - 240) * 262144 + (code c1 - 128) * 4096 + (code c2 - 128) * 64 + (code c3 - 128), 4)
          else (RuneError, 1)
      | _ \<Rightarrow> (RuneError, 1))"

fun DecodeRune :: "string \<Rightarrow> nat \<times> nat" where
  "DecodeRune [] = (RuneError, 0)"
| "DecodeRune (c0 # rest) =
     (if code c0 < 128 then (code c0, 1)
      else if in_range 194 223 c0 then decode2 c0 rest
      else if code c0 = 224 then decode3 160 191 c0 rest
      else if code c0 = 237 then decode3 128 159 c0 rest
      else if in_range 225 239 c0 then decode3 128 191 c0 rest
      else if code c0 = 240 then decode4 144 191 c0 rest
      else if in_range 241 243 c0 then decode4 128 191 c0 rest
      else if code c0 = 244 then decode4 128 143 c0 rest
      else (RuneError, 1))"

lemma DecodeRune_width: "s \<noteq> [] \<Longrightarrow> 0 < snd (DecodeRune s) \<and> snd (DecodeRune s) \<le> length s"
  by (cases s) (auto simp: decode2_def decode3_def decode4_def split: list.splits)

section \<open>Shell patterns\<close>

text \<open>
  \<open>getEsc\<close> reads one, possibly escaped, rune of a character class; \<open>None\<close> is \<^verbatim>\<open>ErrBadPattern\<close>. The class
  must not end there.
\<close>

definition getEsc :: "string \<Rightarrow> (nat \<times> string) option" where
  "getEsc chunk = (case chunk of
     [] \<Rightarrow> None
   | c # rest \<Rightarrow> if c = CHR ''-'' \<or> c = CHR '']'' then None
       else let body = (if c = CHR 0x5C then rest else chunk) in
         if body = [] then None
         else let (r, n) = DecodeRune body in
           if r = RuneError \<and> n = 1 then None
           else if drop n body = [] then None else Some (r, drop n body))"

lemma getEsc_shorter: "getEsc s = Some (r, t) \<Longrightarrow> length t < length s \<and> t \<noteq> []"
proof -
  assume g: "getEsc s = Some (r, t)"
  then obtain c rest where s: "s = c # rest" by (cases s) (auto simp: getEsc_def)
  let ?body = "if c = CHR 0x5C then rest else s"
  obtain r' n where d: "DecodeRune ?body = (r', n)" by fastforce
  have b: "?body \<noteq> []" "t = drop n ?body" "drop n ?body \<noteq> []"
    using g d unfolding getEsc_def s by (simp_all add: Let_def split: if_split_asm)
  have "0 < n" using DecodeRune_width [OF b(1)] d by (metis snd_conv)
  moreover have "length ?body \<le> length s" by (simp add: s)
  moreover have "0 < length ?body" using b(1) by blast
  ultimately have "length (drop n ?body) < length s" unfolding length_drop by linarith
  then show "length t < length s \<and> t \<noteq> []" using b(2,3) by simp
qed

text \<open>The ranges of a class up to its closing bracket: whether \<open>r\<close> is in one, and the rest of the pattern.\<close>

function classRanges :: "nat \<Rightarrow> bool \<Rightarrow> bool \<Rightarrow> string \<Rightarrow> (bool \<times> string) option" where
  "classRanges r started found p =
     (if p \<noteq> [] \<and> hd p = CHR '']'' \<and> started then Some (found, tl p)
      else (case getEsc p of None \<Rightarrow> None | Some (lo, p1) \<Rightarrow>
        if hd p1 = CHR ''-''
        then (case getEsc (tl p1) of None \<Rightarrow> None | Some (hi, p2) \<Rightarrow>
                classRanges r True (found \<or> lo \<le> r \<and> r \<le> hi) p2)
        else classRanges r True (found \<or> r = lo) p1))"
  by pat_completeness auto
termination
  by (relation "measure (\<lambda>(_, _, _, p). length p)") (auto dest!: getEsc_shorter)

declare classRanges.simps [simp del]

lemma classRanges_shorter: "classRanges r st f p = Some (b, q) \<Longrightarrow> length q < length p"
proof (induction r st f p rule: classRanges.induct)
  case (1 r started found p)
  show ?case
  proof (cases "p \<noteq> [] \<and> hd p = CHR '']'' \<and> started")
    case True
    then have "classRanges r started found p = Some (found, tl p)" by (subst classRanges.simps) simp
    then show ?thesis using 1(3) True by (cases p) auto
  next
    case False
    then obtain lo p1 where lo: "getEsc p = Some (lo, p1)"
      using 1(3) by (auto simp: classRanges.simps [of r started found p] split: option.split_asm)
    note s1 = getEsc_shorter [OF lo]
    show ?thesis
    proof (cases "hd p1 = CHR ''-''")
      case True
      then obtain hi p2 where hi: "getEsc (tl p1) = Some (hi, p2)"
        using 1(3) False lo by (auto simp: classRanges.simps [of r started found p] split: option.split_asm)
      have "length q < length p2"
        using 1(1) [OF False lo refl True hi refl] 1(3) False lo True hi by (simp add: classRanges.simps [of r started found p])
      then show ?thesis using s1 getEsc_shorter [OF hi] by (cases p1) auto
    next
      case nodash: False
      have "length q < length p1"
        using 1(2) [OF False lo refl nodash] 1(3) False lo nodash by (simp add: classRanges.simps [of r started found p])
      then show ?thesis using s1 by simp
    qed
  qed
qed

definition matchClass :: "nat \<Rightarrow> string \<Rightarrow> (bool \<times> string) option" where
  "matchClass r p = (let neg = (p \<noteq> [] \<and> hd p = CHR ''^'') in
     map_option (\<lambda>(found, rest). (found \<noteq> neg, rest)) (classRanges r False False (if neg then tl p else p)))"

lemma matchClass_shorter: "matchClass r p = Some (b, q) \<Longrightarrow> length q < length p"
  by (auto simp: matchClass_def Let_def dest!: classRanges_shorter split: if_split_asm)

text \<open>
  \<open>fileMatch pattern name\<close> is \<open>True\<close> iff \<^verbatim>\<open>filepath.Match\<close> returns \<^verbatim>\<open>(true, nil)\<close>: a star stands for bytes
  without a slash, a question mark for one rune that is not a slash, a class for one rune (a slash
  too), and a malformed pattern matches nothing.
\<close>

function fileMatch :: "string \<Rightarrow> string \<Rightarrow> bool" where
  "fileMatch [] name = (name = [])"
| "fileMatch (c # p) name =
     (if c = CHR ''*'' then list_ex (\<lambda>i. CHR ''/'' \<notin> set (take i name) \<and> fileMatch p (drop i name)) [0..<Suc (length name)]
      else if name = [] then False
      else if c = CHR ''?'' then hd name \<noteq> CHR ''/'' \<and> fileMatch p (drop (snd (DecodeRune name)) name)
      else if c = CHR ''['' then (case matchClass (fst (DecodeRune name)) p of
             None \<Rightarrow> False
           | Some (ok, q) \<Rightarrow> ok \<and> fileMatch q (drop (snd (DecodeRune name)) name))
      else if c = CHR 0x5C then (case p of [] \<Rightarrow> False | d # q \<Rightarrow> hd name = d \<and> fileMatch q (tl name))
      else hd name = c \<and> fileMatch p (tl name))"
  by pat_completeness auto
termination
  by (relation "measure (\<lambda>(p, _). length p)") (auto dest: matchClass_shorter)

declare fileMatch.simps(2) [simp del]

lemma fileMatch_literal:
  assumes "set p \<inter> {CHR ''*'', CHR ''?'', CHR ''['', CHR 0x5C} = {}"
  shows "fileMatch (p @ q) name \<longleftrightarrow> (\<exists>r. name = p @ r \<and> fileMatch q r)"
  using assms
proof (induction p arbitrary: name)
  case (Cons c p)
  then show ?case by (cases name) (auto simp: fileMatch.simps(2))
qed simp

lemma fileMatch_star: "fileMatch ''*'' name \<longleftrightarrow> CHR ''/'' \<notin> set name"
  by (auto simp: fileMatch.simps(2) list_ex_iff simp del: upt_Suc) (metis atLeastLessThan_iff le0 lessI order_refl take_all)

end
