(* ===== verification/ExprLex.thy ===== *)
theory ExprLex
  imports GoRunes
begin

text \<open>
  The lexer of workflow expressions (\<^verbatim>\<open>src/internal/actions/expr/lex.go\<close>). Source text is a byte
  string; runes are decoded as \<^verbatim>\<open>utf8.DecodeRuneInString\<close> does. Which runes beyond ASCII are letters or
  digits is Unicode's table, a parameter of the lexer; the ASCII part is fixed.
\<close>

section \<open>Characters\<close>

text \<open>Unicode's letter and digit tables beyond ASCII. U+FFFD is neither.\<close>

record unicode =
  uni_letter :: "nat \<Rightarrow> bool"
  uni_digit :: "nat \<Rightarrow> bool"

definition IsLetter :: "unicode \<Rightarrow> nat \<Rightarrow> bool" where
  "IsLetter u r =
     (if r < 128 then (65 \<le> r \<and> r \<le> 90) \<or> (97 \<le> r \<and> r \<le> 122) else r \<noteq> RuneError \<and> uni_letter u r)"

definition IsDigit :: "unicode \<Rightarrow> nat \<Rightarrow> bool" where
  "IsDigit u r = (if r < 128 then 48 \<le> r \<and> r \<le> 57 else r \<noteq> RuneError \<and> uni_digit u r)"

definition isIdentStart :: "unicode \<Rightarrow> nat \<Rightarrow> bool" where
  "isIdentStart u r = (IsLetter u r \<or> r = 95)"

definition isIdentChar :: "unicode \<Rightarrow> nat \<Rightarrow> bool" where
  "isIdentChar u r = (IsLetter u r \<or> IsDigit u r \<or> r = 95)"

section \<open>Tokens\<close>

datatype TokenKind =
    TokInvalid | TokIdent | TokDot | TokLParen | TokRParen | TokComma | TokString | TokBool
  | TokNull | TokAnd | TokOr | TokNot | TokEq | TokNe | TokEOF

definition TokenKind_String :: "TokenKind \<Rightarrow> string" where
  "TokenKind_String k =
     (case k of TokIdent \<Rightarrow> ''identifier'' | TokDot \<Rightarrow> ''.'' | TokLParen \<Rightarrow> ''('' | TokRParen \<Rightarrow> '')''
      | TokComma \<Rightarrow> '','' | TokString \<Rightarrow> ''string literal'' | TokBool \<Rightarrow> ''boolean'' | TokNull \<Rightarrow> ''null''
      | TokAnd \<Rightarrow> ''&&'' | TokOr \<Rightarrow> ''||'' | TokNot \<Rightarrow> ''!'' | TokEq \<Rightarrow> ''=='' | TokNe \<Rightarrow> ''!=''
      | TokEOF \<Rightarrow> ''end of input'' | TokInvalid \<Rightarrow> ''invalid'')"

datatype Token = Token (Kind: TokenKind) (Val: string) (Pos: nat)

datatype lex_error =
    InvalidUTF8 nat | StrayChar char nat | UnterminatedString nat | UnexpectedChar nat nat

section \<open>The lexer\<close>

abbreviation quote :: char where
  "quote \<equiv> CHR 0x27"

text \<open>The string after its opening quote: its value and the bytes read, the closing quote included.\<close>

fun lexStringBody :: "string \<Rightarrow> (string \<times> nat) option" where
  "lexStringBody [] = None"
| "lexStringBody [c] = (if c = quote then Some ([], 1) else None)"
| "lexStringBody (c # d # s) =
     (if c = quote
      then if d = quote then map_option (\<lambda>(v, n). (quote # v, n + 2)) (lexStringBody s)
           else Some ([], 1)
      else map_option (\<lambda>(v, n). (c # v, n + 1)) (lexStringBody (d # s)))"

definition lexString :: "string \<Rightarrow> nat \<Rightarrow> lex_error + Token \<times> nat" where
  "lexString src basePos =
     (if length src < 2 then Inl (UnterminatedString basePos)
      else case lexStringBody (tl src) of
             None \<Rightarrow> Inl (UnterminatedString basePos)
           | Some (v, n) \<Rightarrow> Inr (Token TokString v basePos, n + 1))"

function lexIdentLen :: "unicode \<Rightarrow> string \<Rightarrow> nat" where
  "lexIdentLen u s =
     (if s = [] then 0
      else case DecodeRune s of (r, w) \<Rightarrow>
        if r = RuneError then 0 else if \<not> isIdentChar u r then 0
        else w + lexIdentLen u (drop w s))"
  by pat_completeness auto
termination
proof (relation "measure (\<lambda>(u, s). length s)", goal_cases)
  case (2 u s r w)
  then show ?case using DecodeRune_width [of s] by (cases "DecodeRune s") auto
qed simp

declare lexIdentLen.simps [simp del]

definition lexIdent :: "unicode \<Rightarrow> string \<Rightarrow> nat \<Rightarrow> Token \<times> nat" where
  "lexIdent u src basePos =
     (let i = lexIdentLen u src; v = take i src
      in (if v = ''true'' \<or> v = ''false'' then Token TokBool v basePos
          else if v = ''null'' then Token TokNull v basePos
          else Token TokIdent v basePos, i))"

text \<open>One turn of the main loop on the text from offset \<open>i\<close>: the token read, if any, and the bytes consumed.\<close>

definition lexStep :: "unicode \<Rightarrow> nat \<Rightarrow> string \<Rightarrow> lex_error + Token option \<times> nat" where
  "lexStep u i s =
     (let (r, w) = DecodeRune s;
          next_is = (\<lambda>c. 1 < length s \<and> s ! 1 = c)
      in if r = RuneError \<and> w \<le> 1 then Inl (InvalidUTF8 i)
         else if r \<in> {32, 9, 10, 13} then Inr (None, w)
         else if r = code CHR ''.'' then Inr (Some (Token TokDot ''.'' i), w)
         else if r = code CHR ''('' then Inr (Some (Token TokLParen ''('' i), w)
         else if r = code CHR '')'' then Inr (Some (Token TokRParen '')'' i), w)
         else if r = code CHR '','' then Inr (Some (Token TokComma '','' i), w)
         else if r = code quote then (case lexString s i of Inl e \<Rightarrow> Inl e | Inr (t, n) \<Rightarrow> Inr (Some t, n))
         else if r = code CHR ''&'' then
           (if next_is CHR ''&'' then Inr (Some (Token TokAnd ''&&'' i), 2) else Inl (StrayChar CHR ''&'' i))
         else if r = code CHR ''|'' then
           (if next_is CHR ''|'' then Inr (Some (Token TokOr ''||'' i), 2) else Inl (StrayChar CHR ''|'' i))
         else if r = code CHR ''!'' then
           (if next_is CHR ''='' then Inr (Some (Token TokNe ''!='' i), 2)
            else Inr (Some (Token TokNot ''!'' i), w))
         else if r = code CHR ''='' then
           (if next_is CHR ''='' then Inr (Some (Token TokEq ''=='' i), 2) else Inl (StrayChar CHR ''='' i))
         else if isIdentStart u r then (case lexIdent u s i of (t, n) \<Rightarrow> Inr (Some t, n))
         else Inl (UnexpectedChar r i))"

lemma lexStringBody_pos: "lexStringBody s = Some (v, n) \<Longrightarrow> 0 < n \<and> n \<le> length s"
proof (induction s arbitrary: v n rule: lexStringBody.induct)
  case (3 c d s)
  then show ?case by (fastforce split: if_splits)
qed (auto split: if_splits)

lemma lexIdentLen_pos:
  assumes "s \<noteq> []" and "isIdentStart u (fst (DecodeRune s))"
  shows "0 < lexIdentLen u s"
proof -
  obtain r w where d: "DecodeRune s = (r, w)" by (cases "DecodeRune s")
  have "r \<noteq> RuneError" using assms(2) d by (auto simp: isIdentStart_def IsLetter_def RuneError_def)
  moreover have "isIdentChar u r" using assms(2) d by (auto simp: isIdentStart_def isIdentChar_def)
  moreover have "0 < w" using DecodeRune_width [OF assms(1)] d by simp
  ultimately show ?thesis using assms(1) d by (subst lexIdentLen.simps) simp
qed

lemma lexIdentLen_le: "lexIdentLen u s \<le> length s"
proof (induction u s rule: lexIdentLen.induct)
  case (1 u s)
  show ?case
  proof (cases "s = []")
    case False
    obtain r w where d: "DecodeRune s = (r, w)" by (cases "DecodeRune s")
    have "w \<le> length s" using DecodeRune_width [OF False] d by simp
    then show ?thesis using 1 [OF False d [symmetric]] False d
      by (subst lexIdentLen.simps) auto
  qed (simp add: lexIdentLen.simps)
qed

lemma lexString_pos: "lexString s i = Inr (t, n) \<Longrightarrow> 0 < n \<and> n \<le> length s"
  by (cases s) (auto simp: lexString_def dest: lexStringBody_pos split: if_splits option.splits)

lemma lexStep_progress:
  assumes "lexStep u i s = Inr (t, n)" and "s \<noteq> []"
  shows "0 < n \<and> n \<le> length s"
proof -
  obtain r w where d: "DecodeRune s = (r, w)" by (cases "DecodeRune s")
  have wd: "0 < w" "w \<le> length s" using DecodeRune_width [OF assms(2)] d by auto
  have id: "isIdentStart u r \<Longrightarrow> 0 < lexIdentLen u s" using lexIdentLen_pos [OF assms(2)] d by simp
  show ?thesis
    using assms(1) wd id lexIdentLen_le [of u s]
    by (auto simp: lexStep_def d Let_def lexIdent_def dest: lexString_pos split: if_splits sum.splits)
qed

function LexFrom :: "unicode \<Rightarrow> nat \<Rightarrow> string \<Rightarrow> lex_error + Token list" where
  "LexFrom u i s =
     (if s = [] then Inr [Token TokEOF '''' i]
      else case lexStep u i s of
             Inl e \<Rightarrow> Inl e
           | Inr (t, n) \<Rightarrow>
               (case LexFrom u (i + n) (drop n s) of
                  Inl e \<Rightarrow> Inl e
                | Inr ts \<Rightarrow> Inr ((case t of None \<Rightarrow> [] | Some tok \<Rightarrow> [tok]) @ ts)))"
  by pat_completeness auto
termination
proof (relation "measure (\<lambda>(u, i, s). length s)", goal_cases)
  case (2 u i s p t n)
  then show ?case using lexStep_progress [of u i s t n] by auto
qed simp

declare LexFrom.simps [simp del]

definition Lex :: "unicode \<Rightarrow> string \<Rightarrow> lex_error + Token list" where
  "Lex u src = LexFrom u 0 src"

end
