(* ===== verification/ExprParse.thy ===== *)
theory ExprParse
  imports ExprLex
begin

text \<open>
  The recursive-descent parser of workflow expressions (\<^verbatim>\<open>src/internal/actions/expr/parse.go\<close>). The
  parser state (token slice and position) is the list of tokens not yet consumed. Reading past
  the end of the slice, a panic in Go, is the error \<open>IndexPanic\<close>. Each recursive call on a rest is
  made only if the rest is shorter than what the caller was given, and \<open>NoProgress\<close> otherwise:
  that gives the termination measure, and \<open>NoProgress\<close> is proved never to happen.
\<close>

section \<open>Syntax trees\<close>

datatype Expr =
    LitString string
  | LitBool bool
  | LitNull
  | Ref "string list"
  | Call string "Expr list"
  | Unary string Expr
  | Binary string Expr Expr

datatype parse_error =
    UnexpectedAfter TokenKind nat
  | ExpectedRParen nat
  | UnexpectedToken TokenKind nat
  | ExpectedCallClose nat
  | ExpectedIdent nat
  | IndexPanic
  | NoProgress

section \<open>The parser\<close>

abbreviation peekKind :: "Token list \<Rightarrow> TokenKind" where
  "peekKind ts \<equiv> Kind (hd ts)"

text \<open>The walk over \<^verbatim>\<open>.ident\<close> segments that follows the first identifier of a reference.\<close>

fun parsePath :: "string list \<Rightarrow> Token list \<Rightarrow> parse_error + Expr \<times> Token list" where
  "parsePath path [] = Inl IndexPanic"
| "parsePath path (t # ts) =
     (if Kind t = TokDot
      then (case ts of
              [] \<Rightarrow> Inl IndexPanic
            | n # ts' \<Rightarrow> if Kind n \<noteq> TokIdent then Inl (ExpectedIdent (Pos n))
                         else parsePath (path @ [Val n]) ts')
      else Inr (Ref path, t # ts))"

function (sequential)
  parseOr :: "Token list \<Rightarrow> parse_error + Expr \<times> Token list" and
  parseOrLoop :: "Expr \<Rightarrow> Token list \<Rightarrow> parse_error + Expr \<times> Token list" and
  parseAnd :: "Token list \<Rightarrow> parse_error + Expr \<times> Token list" and
  parseAndLoop :: "Expr \<Rightarrow> Token list \<Rightarrow> parse_error + Expr \<times> Token list" and
  parseEquality :: "Token list \<Rightarrow> parse_error + Expr \<times> Token list" and
  parseEqualityLoop :: "Expr \<Rightarrow> Token list \<Rightarrow> parse_error + Expr \<times> Token list" and
  parseUnary :: "Token list \<Rightarrow> parse_error + Expr \<times> Token list" and
  parsePrimary :: "Token list \<Rightarrow> parse_error + Expr \<times> Token list" and
  parseRefOrCall :: "Token list \<Rightarrow> parse_error + Expr \<times> Token list" and
  parseArgs :: "Token list \<Rightarrow> parse_error + Expr list \<times> Token list"
where
  "parseOr ts =
     (case parseAnd ts of
        Inl e \<Rightarrow> Inl e
      | Inr (left, ts') \<Rightarrow>
          if length ts' < length ts then parseOrLoop left ts' else Inl NoProgress)"
| "parseOrLoop left [] = Inl IndexPanic"
| "parseOrLoop left (t # ts) =
     (if Kind t = TokOr
      then (case parseAnd ts of
              Inl e \<Rightarrow> Inl e
            | Inr (right, ts') \<Rightarrow>
                if length ts' < length (t # ts) then parseOrLoop (Binary (Val t) left right) ts'
                else Inl NoProgress)
      else Inr (left, t # ts))"
| "parseAnd ts =
     (case parseEquality ts of
        Inl e \<Rightarrow> Inl e
      | Inr (left, ts') \<Rightarrow>
          if length ts' < length ts then parseAndLoop left ts' else Inl NoProgress)"
| "parseAndLoop left [] = Inl IndexPanic"
| "parseAndLoop left (t # ts) =
     (if Kind t = TokAnd
      then (case parseEquality ts of
              Inl e \<Rightarrow> Inl e
            | Inr (right, ts') \<Rightarrow>
                if length ts' < length (t # ts) then parseAndLoop (Binary (Val t) left right) ts'
                else Inl NoProgress)
      else Inr (left, t # ts))"
| "parseEquality ts =
     (case parseUnary ts of
        Inl e \<Rightarrow> Inl e
      | Inr (left, ts') \<Rightarrow>
          if length ts' < length ts then parseEqualityLoop left ts' else Inl NoProgress)"
| "parseEqualityLoop left [] = Inl IndexPanic"
| "parseEqualityLoop left (t # ts) =
     (if Kind t = TokEq \<or> Kind t = TokNe
      then (case parseUnary ts of
              Inl e \<Rightarrow> Inl e
            | Inr (right, ts') \<Rightarrow>
                if length ts' < length (t # ts) then parseEqualityLoop (Binary (Val t) left right) ts'
                else Inl NoProgress)
      else Inr (left, t # ts))"
| "parseUnary [] = Inl IndexPanic"
| "parseUnary (t # ts) =
     (if Kind t = TokNot
      then (case parseUnary ts of Inl e \<Rightarrow> Inl e | Inr (x, ts') \<Rightarrow> Inr (Unary ''!'' x, ts'))
      else parsePrimary (t # ts))"
| "parsePrimary [] = Inl IndexPanic"
| "parsePrimary (t # ts) =
     (case Kind t of
        TokString \<Rightarrow> Inr (LitString (Val t), ts)
      | TokBool \<Rightarrow> Inr (LitBool (Val t = ''true''), ts)
      | TokNull \<Rightarrow> Inr (LitNull, ts)
      | TokLParen \<Rightarrow>
          (case parseOr ts of
             Inl e \<Rightarrow> Inl e
           | Inr (e, ts') \<Rightarrow>
               (case ts' of
                  [] \<Rightarrow> Inl IndexPanic
                | c # ts'' \<Rightarrow> if Kind c \<noteq> TokRParen then Inl (ExpectedRParen (Pos c)) else Inr (e, ts'')))
      | TokIdent \<Rightarrow> parseRefOrCall (t # ts)
      | k \<Rightarrow> Inl (UnexpectedToken k (Pos t)))"
| "parseRefOrCall [] = Inl IndexPanic"
| "parseRefOrCall [first] = Inl IndexPanic"
| "parseRefOrCall (first # t # ts) =
     (if Kind t = TokLParen
      then (case ts of
              [] \<Rightarrow> Inl IndexPanic
            | u # us \<Rightarrow>
                if Kind u = TokRParen then Inr (Call (Val first) [], us)
                else (case parseArgs (u # us) of
                        Inl e \<Rightarrow> Inl e
                      | Inr (args, ts') \<Rightarrow>
                          (case ts' of
                             [] \<Rightarrow> Inl IndexPanic
                           | c # ts'' \<Rightarrow>
                               if Kind c \<noteq> TokRParen then Inl (ExpectedCallClose (Pos c))
                               else Inr (Call (Val first) args, ts''))))
      else parsePath [Val first] (t # ts))"
| "parseArgs ts =
     (case parseOr ts of
        Inl e \<Rightarrow> Inl e
      | Inr (a, ts') \<Rightarrow>
          (case ts' of
             [] \<Rightarrow> Inl IndexPanic
           | c # ts'' \<Rightarrow>
               if Kind c = TokComma
               then (if length ts'' < length ts
                     then (case parseArgs ts'' of Inl e \<Rightarrow> Inl e | Inr (as, r) \<Rightarrow> Inr (a # as, r))
                     else Inl NoProgress)
               else Inr ([a], c # ts'')))"
  by pat_completeness auto
termination
  by size_change

lemmas parse_simps =
  parseOr.simps parseOrLoop.simps parseAnd.simps parseAndLoop.simps parseEquality.simps
  parseEqualityLoop.simps parseUnary.simps parsePrimary.simps parseRefOrCall.simps parseArgs.simps

declare parse_simps [simp del]

section \<open>Progress\<close>

lemma parsePath_consumes: "parsePath p ts = Inr (e, r) \<Longrightarrow> length r \<le> length ts"
  by (induction p ts rule: parsePath.induct) (fastforce split: if_splits list.splits)+

lemma parse_consumes:
  "parseOr ts = Inr (e, r) \<Longrightarrow> length r < length ts"
  "parseOrLoop l ts1 = Inr (e1, r1) \<Longrightarrow> length r1 \<le> length ts1"
  "parseAnd ts2 = Inr (e2, r2) \<Longrightarrow> length r2 < length ts2"
  "parseAndLoop l3 ts3 = Inr (e3, r3) \<Longrightarrow> length r3 \<le> length ts3"
  "parseEquality ts4 = Inr (e4, r4) \<Longrightarrow> length r4 < length ts4"
  "parseEqualityLoop l5 ts5 = Inr (e5, r5) \<Longrightarrow> length r5 \<le> length ts5"
  "parseUnary ts6 = Inr (e6, r6) \<Longrightarrow> length r6 < length ts6"
  "parsePrimary ts7 = Inr (e7, r7) \<Longrightarrow> length r7 < length ts7"
  "parseRefOrCall ts8 = Inr (e8, r8) \<Longrightarrow> length r8 < length ts8"
  "parseArgs ts9 = Inr (as, r9) \<Longrightarrow> length r9 < length ts9"
proof (induction ts and l ts1 and ts2 and l3 ts3 and ts4 and l5 ts5 and ts6 and ts7 and ts8 and ts9
    arbitrary: e r and e1 r1 and e2 r2 and e3 r3 and e4 r4 and e5 r5 and e6 r6 and e7 r7 and e8 r8 and as r9
    rule: parseOr_parseOrLoop_parseAnd_parseAndLoop_parseEquality_parseEqualityLoop_parseUnary_parsePrimary_parseRefOrCall_parseArgs.induct)
  case (1 ts)
  then show ?case
    by (auto simp: parseOr.simps [of ts] split: sum.splits if_splits; fastforce)
next
  case (2 left)
  then show ?case by (simp add: parse_simps)
next
  case (3 left t ts)
  then show ?case
    by (auto simp: parseOrLoop.simps split: sum.splits if_splits) (fastforce)+
next
  case (4 ts)
  then show ?case
    by (auto simp: parseAnd.simps [of ts] split: sum.splits if_splits; fastforce)
next
  case (5 left)
  then show ?case by (simp add: parse_simps)
next
  case (6 left t ts)
  then show ?case
    by (auto simp: parseAndLoop.simps split: sum.splits if_splits) (fastforce)+
next
  case (7 ts)
  then show ?case
    by (auto simp: parseEquality.simps [of ts] split: sum.splits if_splits; fastforce)
next
  case (8 left)
  then show ?case by (simp add: parse_simps)
next
  case (9 left t ts)
  then show ?case
    by (auto simp: parseEqualityLoop.simps split: sum.splits if_splits) (fastforce)+
next
  case 10
  then show ?case by (simp add: parse_simps)
next
  case (11 t ts)
  then show ?case
    by (fastforce simp: parseUnary.simps split: sum.splits if_splits)
next
  case 12
  then show ?case by (simp add: parse_simps)
next
  case (13 t ts)
  then show ?case
    by (fastforce simp: parsePrimary.simps split: sum.splits if_splits TokenKind.splits list.splits)
next
  case 14
  then show ?case by (simp add: parse_simps)
next
  case 15
  then show ?case by (simp add: parse_simps)
next
  case (16 first t ts)
  then show ?case
    by (fastforce simp: parseRefOrCall.simps dest: parsePath_consumes split: sum.splits if_splits list.splits)
next
  case (17 ts)
  then show ?case
    by (auto simp: parseArgs.simps [of ts] split: sum.splits if_splits list.splits; fastforce)
qed

text \<open>With progress known, the checks for it can be dropped from the equations.\<close>

lemma parseOr_eq:
  "parseOr ts = (case parseAnd ts of Inl e \<Rightarrow> Inl e | Inr (l, ts') \<Rightarrow> parseOrLoop l ts')"
  by (auto simp: parseOr.simps [of ts] dest: parse_consumes(3) split: sum.splits)

lemma parseAnd_eq:
  "parseAnd ts = (case parseEquality ts of Inl e \<Rightarrow> Inl e | Inr (l, ts') \<Rightarrow> parseAndLoop l ts')"
  by (auto simp: parseAnd.simps [of ts] dest: parse_consumes(5) split: sum.splits)

lemma parseEquality_eq:
  "parseEquality ts = (case parseUnary ts of Inl e \<Rightarrow> Inl e | Inr (l, ts') \<Rightarrow> parseEqualityLoop l ts')"
  by (auto simp: parseEquality.simps [of ts] dest: parse_consumes(7) split: sum.splits)

lemma parseOrLoop_eq:
  "parseOrLoop l (t # ts) =
     (if Kind t = TokOr then (case parseAnd ts of Inl e \<Rightarrow> Inl e | Inr (r, ts') \<Rightarrow> parseOrLoop (Binary (Val t) l r) ts')
      else Inr (l, t # ts))"
  by (auto simp: parseOrLoop.simps dest: parse_consumes(3) split: sum.splits)

lemma parseAndLoop_eq:
  "parseAndLoop l (t # ts) =
     (if Kind t = TokAnd then (case parseEquality ts of Inl e \<Rightarrow> Inl e | Inr (r, ts') \<Rightarrow> parseAndLoop (Binary (Val t) l r) ts')
      else Inr (l, t # ts))"
  by (auto simp: parseAndLoop.simps dest: parse_consumes(5) split: sum.splits)

lemma parseEqualityLoop_eq:
  "parseEqualityLoop l (t # ts) =
     (if Kind t = TokEq \<or> Kind t = TokNe
      then (case parseUnary ts of Inl e \<Rightarrow> Inl e | Inr (r, ts') \<Rightarrow> parseEqualityLoop (Binary (Val t) l r) ts')
      else Inr (l, t # ts))"
  by (auto simp: parseEqualityLoop.simps dest: parse_consumes(7) split: sum.splits)

lemma parseArgs_eq:
  "parseArgs ts =
     (case parseOr ts of
        Inl e \<Rightarrow> Inl e
      | Inr (a, []) \<Rightarrow> Inl IndexPanic
      | Inr (a, c # ts') \<Rightarrow>
          if Kind c = TokComma
          then (case parseArgs ts' of Inl e \<Rightarrow> Inl e | Inr (as, r) \<Rightarrow> Inr (a # as, r))
          else Inr ([a], c # ts'))"
  by (subst parseArgs.simps) (auto dest: parse_consumes(1) split: sum.splits list.splits)

definition Parse :: "Token list \<Rightarrow> parse_error + Expr" where
  "Parse tokens =
     (case parseOr tokens of
        Inl e \<Rightarrow> Inl e
      | Inr (e, []) \<Rightarrow> Inl IndexPanic
      | Inr (e, t # ts) \<Rightarrow> if Kind t \<noteq> TokEOF then Inl (UnexpectedAfter (Kind t) (Pos t)) else Inr e)"

section \<open>No panics\<close>

text \<open>What the lexer produces: the end marker is the last token and only there.\<close>

fun eofT :: "Token list \<Rightarrow> bool" where
  "eofT [] = False"
| "eofT [t] = (Kind t = TokEOF)"
| "eofT (t # ts) = (Kind t \<noteq> TokEOF \<and> eofT ts)"

lemma eofT_Cons [simp]: "Kind t \<noteq> TokEOF \<Longrightarrow> eofT (t # ts) = eofT ts"
  by (cases ts) auto

text \<open>A parse result that did not panic and left a well-formed rest.\<close>

definition sane :: "parse_error + 'a \<times> Token list \<Rightarrow> bool" where
  "sane res = (case res of Inl e \<Rightarrow> e \<noteq> IndexPanic \<and> e \<noteq> NoProgress | Inr (x, r) \<Rightarrow> eofT r)"

lemma sane_simps [simp]:
  "sane (Inr (x, r)) = eofT r" "sane (Inl e) = (e \<noteq> IndexPanic \<and> e \<noteq> NoProgress)"
  by (simp_all add: sane_def)

lemma parsePath_sane: "eofT ts \<Longrightarrow> sane (parsePath p ts)"
  by (induction p ts rule: parsePath.induct) (auto split: list.splits)

lemma parse_sane:
  "eofT ts \<Longrightarrow> sane (parseOr ts)"
  "eofT ts1 \<Longrightarrow> sane (parseOrLoop l ts1)"
  "eofT ts2 \<Longrightarrow> sane (parseAnd ts2)"
  "eofT ts3 \<Longrightarrow> sane (parseAndLoop l3 ts3)"
  "eofT ts4 \<Longrightarrow> sane (parseEquality ts4)"
  "eofT ts5 \<Longrightarrow> sane (parseEqualityLoop l5 ts5)"
  "eofT ts6 \<Longrightarrow> sane (parseUnary ts6)"
  "eofT ts7 \<Longrightarrow> sane (parsePrimary ts7)"
  "eofT ts8 \<Longrightarrow> Kind (hd ts8) \<noteq> TokEOF \<Longrightarrow> sane (parseRefOrCall ts8)"
  "eofT ts9 \<Longrightarrow> sane (parseArgs ts9)"
proof (induction ts and l ts1 and ts2 and l3 ts3 and ts4 and l5 ts5 and ts6 and ts7 and ts8 and ts9
    rule: parseOr_parseOrLoop_parseAnd_parseAndLoop_parseEquality_parseEqualityLoop_parseUnary_parsePrimary_parseRefOrCall_parseArgs.induct)
  case (1 ts)
  then show ?case
    using parse_consumes(3) [of ts] by (fastforce simp: parseOr_eq [of ts] split: sum.splits)
next
  case (3 left t ts)
  then show ?case
    using parse_consumes(3) [of ts] by (cases ts) (fastforce simp: parseOrLoop_eq split: sum.splits)+
next
  case (4 ts)
  then show ?case
    using parse_consumes(5) [of ts] by (fastforce simp: parseAnd_eq [of ts] split: sum.splits)
next
  case (6 left t ts)
  then show ?case
    using parse_consumes(5) [of ts] by (cases ts) (fastforce simp: parseAndLoop_eq split: sum.splits)+
next
  case (7 ts)
  then show ?case
    using parse_consumes(7) [of ts] by (fastforce simp: parseEquality_eq [of ts] split: sum.splits)
next
  case (9 left t ts)
  then show ?case
    using parse_consumes(7) [of ts]
    by (cases "Kind t = TokEq \<or> Kind t = TokNe"; cases "parseUnary ts")
      (auto simp: parseEqualityLoop_eq)
next
  case (11 t ts)
  then show ?case by (auto simp: parseUnary.simps split: sum.splits)
next
  case (13 t ts)
  then show ?case by (auto simp: parsePrimary.simps split: sum.splits TokenKind.splits list.splits)
next
  case (16 first t ts)
  then show ?case
    by (auto simp: parseRefOrCall.simps parsePath_sane split: sum.splits list.splits)
next
  case (17 ts)
  then show ?case
    using parse_consumes(1) [of ts]
    by (subst parseArgs_eq) (fastforce split: sum.splits list.splits)
qed (simp_all add: parse_simps)

section \<open>Printing and the round trip\<close>

text \<open>
  The grammar's four levels as one family: level 0 is \<^verbatim>\<open>||\<close>, level 1 \<^verbatim>\<open>&&\<close>, level 2 equality and level 3
  unary expressions; \<open>loopL k\<close> is the loop of level \<open>k\<close>.
\<close>

definition opKinds :: "nat \<Rightarrow> TokenKind set" where
  "opKinds k = (if k = 0 then {TokOr} else if k = 1 then {TokAnd} else if k = 2 then {TokEq, TokNe} else {})"

definition parseL :: "nat \<Rightarrow> Token list \<Rightarrow> parse_error + Expr \<times> Token list" where
  "parseL k = (if k = 0 then parseOr else if k = 1 then parseAnd else if k = 2 then parseEquality else parseUnary)"

definition loopL :: "nat \<Rightarrow> Expr \<Rightarrow> Token list \<Rightarrow> parse_error + Expr \<times> Token list" where
  "loopL k = (if k = 0 then parseOrLoop else if k = 1 then parseAndLoop
              else if k = 2 then parseEqualityLoop else (\<lambda>e ts. Inr (e, ts)))"

lemma less3: "(k::nat) < 3 \<longleftrightarrow> k = 0 \<or> k = 1 \<or> k = 2"
  by auto

lemma parseL_step:
  "k < 3 \<Longrightarrow> parseL k ts = (case parseL (Suc k) ts of Inl e \<Rightarrow> Inl e | Inr (l, ts') \<Rightarrow> loopL k l ts')"
  by (auto simp: less3 parseL_def loopL_def parseOr_eq [of ts] parseAnd_eq [of ts] parseEquality_eq [of ts]
      split: sum.splits)

lemma loopL_step:
  "k < 3 \<Longrightarrow> Kind t \<in> opKinds k \<Longrightarrow>
   loopL k l (t # ts) =
     (case parseL (Suc k) ts of Inl e \<Rightarrow> Inl e | Inr (r, ts') \<Rightarrow> loopL k (Binary (Val t) l r) ts')"
  by (auto simp: less3 parseL_def loopL_def opKinds_def parseOrLoop_eq parseAndLoop_eq parseEqualityLoop_eq
      split: sum.splits)

lemma loopL_stop: "Kind t \<notin> opKinds k \<Longrightarrow> loopL k l (t # ts) = Inr (l, t # ts)"
  by (auto simp: loopL_def opKinds_def parseOrLoop_eq parseAndLoop_eq parseEqualityLoop_eq split: if_splits)

text \<open>A printer that parenthesises only where precedence or left associativity needs it.\<close>

definition opLevel :: "string \<Rightarrow> nat" where
  "opLevel op = (if op = ''||'' then 0 else if op = ''&&'' then 1 else 2)"

definition opToken :: "string \<Rightarrow> Token" where
  "opToken op = Token (if op = ''||'' then TokOr else if op = ''&&'' then TokAnd
                       else if op = ''=='' then TokEq else TokNe) op 0"

abbreviation tok :: "TokenKind \<Rightarrow> string \<Rightarrow> Token" where
  "tok k v \<equiv> Token k v 0"

fun unparse :: "nat \<Rightarrow> Expr \<Rightarrow> Token list" and unparseArgs :: "Expr list \<Rightarrow> Token list" where
  "unparse k (LitString s) = [tok TokString s]"
| "unparse k (LitBool b) = [tok TokBool (if b then ''true'' else ''false'')]"
| "unparse k LitNull = [tok TokNull ''null'']"
| "unparse k (Ref p) = tok TokIdent (hd p) # concat (map (\<lambda>s. [tok TokDot ''.'', tok TokIdent s]) (tl p))"
| "unparse k (Call f as) = tok TokIdent f # tok TokLParen ''('' # unparseArgs as @ [tok TokRParen '')'']"
| "unparse k (Unary op x) = tok TokNot ''!'' # unparse 3 x"
| "unparse k (Binary op l r) =
     (let p = opLevel op; body = unparse p l @ opToken op # unparse (Suc p) r
      in if p < k then tok TokLParen ''('' # body @ [tok TokRParen '')''] else body)"
| "unparseArgs [] = []"
| "unparseArgs [a] = unparse 0 a"
| "unparseArgs (a # as) = unparse 0 a @ tok TokComma '','' # unparseArgs as"

fun wfExpr :: "Expr \<Rightarrow> bool" where
  "wfExpr (Ref p) = (p \<noteq> [])"
| "wfExpr (Call f as) = (\<forall>a \<in> set as. wfExpr a)"
| "wfExpr (Unary op x) = (op = ''!'' \<and> wfExpr x)"
| "wfExpr (Binary op l r) = (op \<in> {''||'', ''&&'', ''=='', ''!=''} \<and> wfExpr l \<and> wfExpr r)"
| "wfExpr _ = True"

text \<open>\<open>follow k rest\<close>: the text after an expression of level \<open>k\<close> does not continue it.\<close>

definition follow :: "nat \<Rightarrow> Token list \<Rightarrow> bool" where
  "follow k rest \<longleftrightarrow> rest \<noteq> [] \<and> peekKind rest \<notin> {TokDot, TokLParen} \<and> (\<forall>j \<ge> k. peekKind rest \<notin> opKinds j)"

definition parsesTo :: "nat \<Rightarrow> Expr \<Rightarrow> bool" where
  "parsesTo k e \<longleftrightarrow> (\<forall>rest. follow (Suc k) rest \<longrightarrow> parseL k (unparse k e @ rest) = loopL k e rest)"

lemma parsesTo_exact:
  assumes "parsesTo k e" and "follow k rest"
  shows "parseL k (unparse k e @ rest) = Inr (e, rest)"
proof -
  obtain t ts where "rest = t # ts" using assms(2) by (cases rest) (auto simp: follow_def)
  moreover have "follow (Suc k) rest" using assms(2) by (auto simp: follow_def)
  ultimately show ?thesis
    using assms loopL_stop [of t k e ts] by (auto simp: parsesTo_def follow_def)
qed

lemma parsesTo_down:
  assumes "parsesTo (Suc k) e" and "k < 3" and "unparse k e = unparse (Suc k) e"
  shows "parsesTo k e"
  unfolding parsesTo_def
  using parsesTo_exact [OF assms(1)] parseL_step [OF assms(2)] assms(3) by auto

lemma parsesTo_all_below:
  assumes "parsesTo n e" and "n \<le> 3" and "\<And>k. k < n \<Longrightarrow> unparse k e = unparse (Suc k) e"
  shows "k \<le> n \<Longrightarrow> parsesTo k e"
proof (induction "n - k" arbitrary: k)
  case 0
  then show ?case using assms(1) by simp
next
  case (Suc m)
  then have "parsesTo (Suc k) e" by auto
  then show ?case using Suc assms(2,3) by (auto intro: parsesTo_down)
qed

lemma unparse_hd: "unparse k e \<noteq> [] \<and> Kind (hd (unparse k e)) \<noteq> TokRParen"
  by (induction e arbitrary: k) (auto simp: Let_def hd_append)

lemma parsePath_unparse:
  assumes "rest \<noteq> []" and "peekKind rest \<noteq> TokDot"
  shows "parsePath p (concat (map (\<lambda>s. [tok TokDot ''.'', tok TokIdent s]) q) @ rest) = Inr (Ref (p @ q), rest)"
  using assms by (induction q arbitrary: p) (auto simp: neq_Nil_conv)

lemma parseUnary_primary:
  "Kind t \<noteq> TokNot \<Longrightarrow> parseUnary (t # ts) = parsePrimary (t # ts)"
  by (simp add: parseUnary.simps)

lemma parsesTo_unary_leaf:
  "parsesTo 3 (LitString s)" "parsesTo 3 (LitBool b)" "parsesTo 3 LitNull"
  by (auto simp: parsesTo_def parseL_def loopL_def parseUnary.simps parsePrimary.simps)

lemma parsesTo_Ref: "p \<noteq> [] \<Longrightarrow> parsesTo 3 (Ref p)"
  unfolding parsesTo_def
proof (intro allI impI)
  fix rest assume p: "p \<noteq> []" and f: "follow (Suc 3) rest"
  let ?q = "concat (map (\<lambda>s. [tok TokDot ''.'', tok TokIdent s]) (tl p)) @ rest"
  obtain t ts where q: "?q = t # ts" "Kind t \<noteq> TokLParen"
    using f by (cases "tl p"; cases rest) (auto simp: follow_def)
  have "parsePath [hd p] ?q = Inr (Ref ([hd p] @ tl p), rest)"
    using f by (intro parsePath_unparse) (auto simp: follow_def)
  then show "parseL 3 (unparse 3 (Ref p) @ rest) = loopL 3 (Ref p) rest"
    using p q by (simp add: parseL_def loopL_def parseUnary.simps parsePrimary.simps parseRefOrCall.simps)
qed

lemma parseArgs_unparse:
  assumes "\<And>a. a \<in> set as \<Longrightarrow> parsesTo 0 a" and "as \<noteq> []"
  shows "parseArgs (unparseArgs as @ tok TokRParen '')'' # rest) = Inr (as, tok TokRParen '')'' # rest)"
  using assms
proof (induction as rule: induct_list012)
  case (2 a)
  have "parseL 0 (unparse 0 a @ tok TokRParen '')'' # rest) = Inr (a, tok TokRParen '')'' # rest)"
    using 2 by (intro parsesTo_exact) (auto simp: follow_def opKinds_def)
  then show ?case by (subst parseArgs_eq) (simp add: parseL_def)
next
  case (3 a b as)
  let ?r = "tok TokComma '','' # unparseArgs (b # as) @ tok TokRParen '')'' # rest"
  have "parseL 0 (unparse 0 a @ ?r) = Inr (a, ?r)"
    using 3 by (intro parsesTo_exact) (auto simp: follow_def opKinds_def)
  then show ?case using 3 by (subst parseArgs_eq) (simp add: parseL_def)
qed simp

lemma unparseArgs_hd: "as \<noteq> [] \<Longrightarrow> unparseArgs as \<noteq> [] \<and> Kind (hd (unparseArgs as)) \<noteq> TokRParen"
  using unparse_hd by (cases as rule: unparseArgs.cases) (auto simp: hd_append)

lemma parsesTo_Call:
  assumes "\<And>a. a \<in> set as \<Longrightarrow> parsesTo 0 a"
  shows "parsesTo 3 (Call f as)"
proof (cases "as = []")
  case True
  then show ?thesis
    by (auto simp: parsesTo_def parseL_def loopL_def parseUnary.simps parsePrimary.simps parseRefOrCall.simps)
next
  case False
  obtain t ts where u: "unparseArgs as = t # ts" "Kind t \<noteq> TokRParen"
    using unparseArgs_hd [OF False] by (cases "unparseArgs as") auto
  show ?thesis
    using parseArgs_unparse [OF assms False]
    by (auto simp: parsesTo_def parseL_def loopL_def parseUnary.simps parsePrimary.simps parseRefOrCall.simps u)
qed

lemma parsesTo_Unary: "parsesTo 3 x \<Longrightarrow> parsesTo 3 (Unary ''!'' x)"
  by (auto simp: parsesTo_def parseL_def loopL_def parseUnary.simps)

lemma opToken_kind: "op \<in> {''||'', ''&&'', ''=='', ''!=''} \<Longrightarrow> Kind (opToken op) \<in> opKinds (opLevel op)"
  by (auto simp: opToken_def opLevel_def opKinds_def)

lemma opLevel_less: "opLevel op < 3"
  by (simp add: opLevel_def)

lemma opKinds_disjoint: "k \<in> opKinds i \<Longrightarrow> k \<in> opKinds j \<Longrightarrow> i = j"
  by (auto simp: opKinds_def split: if_splits)

lemma opKinds_plain: "k \<in> opKinds i \<Longrightarrow> k \<notin> {TokDot, TokLParen, TokRParen}"
  by (auto simp: opKinds_def split: if_splits)

lemma parsesTo_Binary_own:
  assumes "op \<in> {''||'', ''&&'', ''=='', ''!=''}" and "parsesTo (opLevel op) l" and "parsesTo (Suc (opLevel op)) r"
  shows "parsesTo (opLevel op) (Binary op l r)"
  unfolding parsesTo_def
proof (intro allI impI)
  let ?p = "opLevel op"
  fix rest assume f: "follow (Suc ?p) rest"
  let ?t = "opToken op # unparse (Suc ?p) r @ rest"
  have k: "Kind (opToken op) \<in> opKinds ?p" by (rule opToken_kind [OF assms(1)])
  have "Kind (opToken op) \<notin> opKinds j" if "Suc ?p \<le> j" for j
    using opKinds_disjoint [OF k, of j] that by auto
  then have "follow (Suc ?p) ?t"
    using opKinds_plain [OF k] by (simp add: follow_def)
  then have "parseL ?p (unparse ?p l @ ?t) = loopL ?p l ?t"
    using assms(2) by (simp add: parsesTo_def)
  also have "\<dots> = loopL ?p (Binary op l r) rest"
    using parsesTo_exact [OF assms(3) f] loopL_step [OF opLevel_less k]
    by (simp add: opToken_def)
  finally show "parseL ?p (unparse ?p (Binary op l r) @ rest) = loopL ?p (Binary op l r) rest"
    by (simp add: Let_def)
qed

lemma parsesTo_paren:
  assumes "parsesTo 0 e" and "unparse 3 e = tok TokLParen ''('' # unparse 0 e @ [tok TokRParen '')'']"
  shows "parsesTo 3 e"
proof -
  have "parseL 0 (unparse 0 e @ tok TokRParen '')'' # rest) = Inr (e, tok TokRParen '')'' # rest)" for rest
    using assms(1) by (rule parsesTo_exact) (auto simp: follow_def opKinds_def)
  then show ?thesis
    using assms(2) by (auto simp: parsesTo_def parseL_def loopL_def parseUnary.simps parsePrimary.simps)
qed

lemma parsesTo_Binary:
  assumes "op \<in> {''||'', ''&&'', ''=='', ''!=''}" and "parsesTo (opLevel op) l" and "parsesTo (Suc (opLevel op)) r"
    and "k \<le> 3"
  shows "parsesTo k (Binary op l r)"
proof -
  let ?e = "Binary op l r" and ?p = "opLevel op"
  have own: "parsesTo ?p ?e" by (rule parsesTo_Binary_own [OF assms(1-3)])
  have low: "parsesTo j ?e" if "j \<le> ?p" for j
    using opLevel_less [of op] that by (intro parsesTo_all_below [OF own]) (auto simp: Let_def)
  have three: "parsesTo 3 ?e"
    using low [of 0] opLevel_less [of op] by (intro parsesTo_paren) (auto simp: Let_def)
  show ?thesis
  proof (cases "k \<le> ?p")
    case False
    have "parsesTo k ?e" using assms(4) False
    proof (induction "3 - k" arbitrary: k)
      case 0
      then show ?case using three by simp
    next
      case (Suc m)
      then have k: "parsesTo (Suc k) ?e" "k < 3" "?p < k" by auto
      show ?case by (rule parsesTo_down [OF k(1,2)]) (use k(3) in \<open>simp add: Let_def\<close>)
    qed
    then show ?thesis .
  qed (rule low)
qed

lemma unparse_parsesTo: "wfExpr e \<Longrightarrow> k \<le> 3 \<Longrightarrow> parsesTo k e"
proof (induction e arbitrary: k)
  case (Call f as)
  have "parsesTo 3 (Call f as)" using Call by (intro parsesTo_Call) auto
  then show ?case using Call.prems(2) by (auto intro: parsesTo_all_below)
next
  case (Ref p)
  have "parsesTo 3 (Ref p)" using Ref by (intro parsesTo_Ref) auto
  then show ?case using Ref.prems(2) by (auto intro: parsesTo_all_below)
next
  case (Unary op x)
  have "parsesTo 3 (Unary op x)" using Unary by (auto intro: parsesTo_Unary)
  then show ?case using Unary.prems(2) by (auto intro: parsesTo_all_below)
next
  case (Binary op l r)
  have "parsesTo (opLevel op) l" "parsesTo (Suc (opLevel op)) r"
    using Binary opLevel_less [of op] by auto
  then show ?case using Binary.prems by (intro parsesTo_Binary) auto
qed (auto intro: parsesTo_all_below [OF parsesTo_unary_leaf(1)] parsesTo_all_below [OF parsesTo_unary_leaf(2)]
      parsesTo_all_below [OF parsesTo_unary_leaf(3)])

section \<open>What the lexer guarantees the parser\<close>

text \<open>Operator tokens carry the operator's text, and offsets point into the source.\<close>

definition tokenOK :: "Token \<Rightarrow> bool" where
  "tokenOK t \<longleftrightarrow>
     (Kind t = TokOr \<longrightarrow> Val t = ''||'') \<and> (Kind t = TokAnd \<longrightarrow> Val t = ''&&'')
     \<and> (Kind t = TokEq \<longrightarrow> Val t = ''=='') \<and> (Kind t = TokNe \<longrightarrow> Val t = ''!='')
     \<and> Kind t \<noteq> TokInvalid"

lemma lexStep_token:
  assumes "lexStep u i s = Inr (Some t, n)"
  shows "tokenOK t \<and> Kind t \<noteq> TokEOF \<and> Pos t = i"
proof -
  obtain r w where d: "DecodeRune s = (r, w)" by (cases "DecodeRune s")
  have str: "lexString s i = Inr (t, n) \<Longrightarrow> Kind t = TokString \<and> Pos t = i"
    by (auto simp: lexString_def split: if_split_asm option.splits)
  have ident: "Kind (fst (lexIdent u s i)) \<in> {TokBool, TokNull, TokIdent}" "Pos (fst (lexIdent u s i)) = i"
    by (auto simp: lexIdent_def Let_def)
  show ?thesis
    using assms str ident unfolding lexStep_def d Let_def prod.case
    by (simp del: insert_iff split: if_split_asm sum.splits prod.splits)
      (auto simp: tokenOK_def)
qed

lemma LexFrom_shape:
  "LexFrom u i s = Inr ts \<Longrightarrow>
     eofT ts \<and> (\<forall>t \<in> set ts. tokenOK t \<and> i \<le> Pos t \<and> Pos t \<le> i + length s)
     \<and> sorted_wrt (<) (map Pos ts) \<and> Pos (last ts) = i + length s"
proof (induction u i s arbitrary: ts rule: LexFrom.induct)
  case (1 u i s)
  show ?case
  proof (cases "s = []")
    case True
    then show ?thesis using "1.prems" by (auto simp: LexFrom.simps tokenOK_def)
  next
    case False
    then obtain t n ts' where st: "lexStep u i s = Inr (t, n)"
      and rec: "LexFrom u (i + n) (drop n s) = Inr ts'"
      and ts: "ts = (case t of None \<Rightarrow> [] | Some k \<Rightarrow> [k]) @ ts'"
      using "1.prems" by (subst (asm) LexFrom.simps) (auto split: sum.splits prod.splits)
    have n: "0 < n" "n \<le> length s" using lexStep_progress [OF st False] by auto
    have IH: "eofT ts'" "\<forall>t \<in> set ts'. tokenOK t \<and> i + n \<le> Pos t \<and> Pos t \<le> i + n + length (drop n s)"
      "sorted_wrt (<) (map Pos ts')" "Pos (last ts') = i + n + length (drop n s)"
      using "1.IH" [OF False st refl rec] by auto
    have ne: "ts' \<noteq> []" using IH(1) by auto
    show ?thesis
    proof (cases t)
      case None
      then show ?thesis using ts IH n by (auto simp: Suc_le_eq)
    next
      case (Some k)
      then have k: "tokenOK k" "Kind k \<noteq> TokEOF" "Pos k = i" using lexStep_token st by auto
      show ?thesis using ts Some k IH n ne by (auto simp: Suc_le_eq)
    qed
  qed
qed

lemma Lex_shape:
  assumes "Lex u src = Inr ts"
  shows "eofT ts" and "\<forall>t \<in> set ts. tokenOK t" and "sorted_wrt (<) (map Pos ts)"
    and "\<forall>t \<in> set ts. Pos t \<le> length src" and "Pos (last ts) = length src"
  using LexFrom_shape [OF assms [unfolded Lex_def]] by auto

text \<open>Parsing such tokens yields trees with the four operators only.\<close>

definition wfResult :: "parse_error + Expr \<times> Token list \<Rightarrow> bool" where
  "wfResult res = (case res of Inl _ \<Rightarrow> True | Inr (e, r) \<Rightarrow> wfExpr e \<and> (\<forall>t \<in> set r. tokenOK t))"

lemma wfResult_simps [simp]:
  "wfResult (Inl e) = True" "wfResult (Inr (x, r)) = (wfExpr x \<and> (\<forall>t \<in> set r. tokenOK t))"
  by (simp_all add: wfResult_def)

definition wfArgs :: "parse_error + Expr list \<times> Token list \<Rightarrow> bool" where
  "wfArgs res = (case res of Inl _ \<Rightarrow> True | Inr (as, r) \<Rightarrow> (\<forall>a \<in> set as. wfExpr a) \<and> (\<forall>t \<in> set r. tokenOK t))"

lemma wfArgs_simps [simp]:
  "wfArgs (Inl e) = True"
  "wfArgs (Inr (as, r)) = ((\<forall>a \<in> set as. wfExpr a) \<and> (\<forall>t \<in> set r. tokenOK t))"
  by (simp_all add: wfArgs_def)

lemma parsePath_wf: "\<forall>t \<in> set ts. tokenOK t \<Longrightarrow> p \<noteq> [] \<Longrightarrow> wfResult (parsePath p ts)"
  by (induction p ts rule: parsePath.induct) (auto split: list.splits)

lemma tokenOK_op: "tokenOK t \<Longrightarrow> Kind t \<in> {TokOr, TokAnd, TokEq, TokNe} \<Longrightarrow> Val t \<in> {''||'', ''&&'', ''=='', ''!=''}"
  by (auto simp: tokenOK_def)

lemma parse_wf:
  "\<forall>t \<in> set ts. tokenOK t \<Longrightarrow> wfResult (parseOr ts)"
  "\<forall>t \<in> set ts1. tokenOK t \<Longrightarrow> wfExpr l \<Longrightarrow> wfResult (parseOrLoop l ts1)"
  "\<forall>t \<in> set ts2. tokenOK t \<Longrightarrow> wfResult (parseAnd ts2)"
  "\<forall>t \<in> set ts3. tokenOK t \<Longrightarrow> wfExpr l3 \<Longrightarrow> wfResult (parseAndLoop l3 ts3)"
  "\<forall>t \<in> set ts4. tokenOK t \<Longrightarrow> wfResult (parseEquality ts4)"
  "\<forall>t \<in> set ts5. tokenOK t \<Longrightarrow> wfExpr l5 \<Longrightarrow> wfResult (parseEqualityLoop l5 ts5)"
  "\<forall>t \<in> set ts6. tokenOK t \<Longrightarrow> wfResult (parseUnary ts6)"
  "\<forall>t \<in> set ts7. tokenOK t \<Longrightarrow> wfResult (parsePrimary ts7)"
  "\<forall>t \<in> set ts8. tokenOK t \<Longrightarrow> wfResult (parseRefOrCall ts8)"
  "\<forall>t \<in> set ts9. tokenOK t \<Longrightarrow> wfArgs (parseArgs ts9)"
proof (induction ts and l ts1 and ts2 and l3 ts3 and ts4 and l5 ts5 and ts6 and ts7 and ts8 and ts9
    rule: parseOr_parseOrLoop_parseAnd_parseAndLoop_parseEquality_parseEqualityLoop_parseUnary_parsePrimary_parseRefOrCall_parseArgs.induct)
  case (1 ts)
  then show ?case
    using parse_consumes(3) [of ts] by (cases "parseAnd ts") (auto simp: parseOr_eq [of ts])
next
  case (3 left t ts)
  then show ?case
    using parse_consumes(3) [of ts] tokenOK_op [of t]
    by (cases "Kind t = TokOr"; cases "parseAnd ts") (auto simp: parseOrLoop_eq)
next
  case (4 ts)
  then show ?case
    using parse_consumes(5) [of ts] by (cases "parseEquality ts") (auto simp: parseAnd_eq [of ts])
next
  case (6 left t ts)
  then show ?case
    using parse_consumes(5) [of ts] tokenOK_op [of t]
    by (cases "Kind t = TokAnd"; cases "parseEquality ts") (auto simp: parseAndLoop_eq)
next
  case (7 ts)
  then show ?case
    using parse_consumes(7) [of ts] by (cases "parseUnary ts") (auto simp: parseEquality_eq [of ts])
next
  case (9 left t ts)
  then show ?case
    using parse_consumes(7) [of ts] tokenOK_op [of t]
    by (cases "Kind t = TokEq \<or> Kind t = TokNe"; cases "parseUnary ts") (auto simp: parseEqualityLoop_eq)
next
  case (11 t ts)
  then show ?case by (auto simp: parseUnary.simps split: sum.splits)
next
  case (13 t ts)
  then show ?case by (auto simp: parsePrimary.simps split: sum.splits TokenKind.splits list.splits)
next
  case (16 first t ts)
  then show ?case
    using parsePath_wf [of "t # ts" "[Val first]"]
    by (auto simp: parseRefOrCall.simps split: sum.splits list.splits)
next
  case (17 ts)
  then show ?case
    using parse_consumes(1) [of ts]
    by (subst parseArgs_eq) (fastforce split: sum.splits list.splits)
qed (simp_all add: parse_simps)

lemma Parse_wf: "\<forall>t \<in> set ts. tokenOK t \<Longrightarrow> Parse ts = Inr e \<Longrightarrow> wfExpr e"
  using parse_wf(1) [of ts] by (auto simp: Parse_def split: sum.splits list.splits if_splits)

section \<open>Properties\<close>

text \<open>
  \<^emph>\<open>The lexer's output is well formed.\<close> When \<open>Lex\<close> succeeds, exactly the last token is the end marker,
  it sits at the length of the source, offsets strictly increase, and every operator token carries
  its operator's text.
\<close>

theorem lex_output_well_formed:
  assumes "Lex u src = Inr ts"
  shows "eofT ts \<and> Pos (last ts) = length src \<and> sorted_wrt (<) (map Pos ts) \<and> (\<forall>t \<in> set ts. tokenOK t)"
  using Lex_shape [OF assms] by blast

definition ascii_only :: unicode where
  "ascii_only = \<lparr>uni_letter = (\<lambda>_. False), uni_digit = (\<lambda>_. False)\<rparr>"

lemma lex_demo:
  "Lex ascii_only ''!a == b'' =
     Inr [Token TokNot ''!'' 0, Token TokIdent ''a'' 1, Token TokEq ''=='' 3, Token TokIdent ''b'' 6, Token TokEOF '''' 7]"
  by (simp add: Lex_def LexFrom.simps lexStep_def lexIdent_def lexIdentLen.simps RuneError_def
      isIdentStart_def isIdentChar_def IsLetter_def IsDigit_def)

theorem lex_output_well_formed_witness:
  "eofT [Token TokNot ''!'' 0, Token TokIdent ''a'' 1, Token TokEq ''=='' 3, Token TokIdent ''b'' 6, Token TokEOF '''' 7]"
  using lex_output_well_formed [OF lex_demo] by blast

definition quoted :: "string \<Rightarrow> string" where
  "quoted v = quote # concat (map (\<lambda>c. if c = quote then [quote, quote] else [c]) v) @ [quote]"

lemma lexStringBody_quoted:
  "lexStringBody (concat (map (\<lambda>c. if c = quote then [quote, quote] else [c]) v) @ [quote])
     = Some (v, length (tl (quoted v)))"
proof (induction v)
  case Nil
  then show ?case by (simp add: quoted_def)
next
  case (Cons c v)
  show ?case
  proof (cases "c = quote")
    case True
    then show ?thesis using Cons by (simp add: quoted_def)
  next
    case False
    obtain d ds where "concat (map (\<lambda>c. if c = quote then [quote, quote] else [c]) v) @ [quote] = d # ds"
      by (cases "concat (map (\<lambda>c. if c = quote then [quote, quote] else [c]) v) @ [quote]") auto
    then show ?thesis using Cons False by (simp add: quoted_def)
  qed
qed

text \<open>
  \<^emph>\<open>String literals round-trip.\<close> Every byte string, quoted with its quotes doubled, lexes to the one
  string token that carries it.
\<close>

theorem string_literal_roundtrip:
  "Lex u (quoted v) = Inr [Token TokString v 0, Token TokEOF '''' (length (quoted v))]"
proof -
  have ls: "lexString (quoted v) 0 = Inr (Token TokString v 0, length (quoted v))"
    using lexStringBody_quoted [of v] by (simp add: lexString_def quoted_def)
  have "DecodeRune (quoted v) = (39, 1)" by (simp add: quoted_def)
  then have "lexStep u 0 (quoted v) = Inr (Some (Token TokString v 0), length (quoted v))"
    using ls by (simp add: lexStep_def RuneError_def)
  then show ?thesis
    by (simp add: Lex_def LexFrom.simps quoted_def)
qed

text \<open>
  C25. \<^emph>\<open>The parser never panics.\<close> On the tokens of any source text the parser returns a tree or a
  diagnostic: it never reads past the token slice and never loops, and a tree it returns uses
  only the four binary operators and negation.
\<close>

theorem parse_never_panics:
  assumes "Lex u src = Inr ts"
  shows "Parse ts \<noteq> Inl IndexPanic \<and> Parse ts \<noteq> Inl NoProgress \<and> (\<forall>e. Parse ts = Inr e \<longrightarrow> wfExpr e)"
proof -
  have "sane (parseOr ts)" by (rule parse_sane(1) [OF Lex_shape(1) [OF assms]])
  then show ?thesis
    using Parse_wf [OF Lex_shape(2) [OF assms]]
    by (auto simp: Parse_def split: sum.splits list.splits)
qed

theorem parse_never_panics_witness:
  "Parse [Token TokNot ''!'' 0, Token TokIdent ''a'' 1, Token TokEq ''=='' 3, Token TokIdent ''b'' 6, Token TokEOF '''' 7]
     \<noteq> Inl IndexPanic"
  using parse_never_panics [OF lex_demo] by blast

text \<open>
  C24. \<^emph>\<open>Parsing inverts printing.\<close> Printing a well-formed tree with only the parentheses that precedence
  and left associativity need, and parsing the tokens, gives the tree back: \<^verbatim>\<open>!\<close> binds tighter than
  equality, equality than \<^verbatim>\<open>&&\<close>, and \<^verbatim>\<open>&&\<close> than \<^verbatim>\<open>||\<close>.
\<close>

theorem parse_inverts_printing:
  assumes "wfExpr e"
  shows "Parse (unparse 0 e @ [Token TokEOF '''' 0]) = Inr e"
proof -
  have "follow 0 [Token TokEOF '''' 0]" by (simp add: follow_def opKinds_def)
  from parsesTo_exact [OF unparse_parsesTo [OF assms] this]
  show ?thesis by (simp add: Parse_def parseL_def)
qed

definition sample_expr :: Expr where
  "sample_expr = Binary ''&&'' (Binary ''||'' (Ref [''env'', ''A'']) (Call ''always'' [])) (Unary ''!'' LitNull)"

theorem parse_inverts_printing_witness:
  "Parse (unparse 0 sample_expr @ [Token TokEOF '''' 0]) = Inr sample_expr"
  by (rule parse_inverts_printing) (simp add: sample_expr_def)

end
