(* ===== verification/ExprEval.thy ===== *)
theory ExprEval
  imports ExprParse "HOL-Library.Word" "HOL-Library.List_Lexorder" "HOL-Library.Char_ord"
begin

text \<open>
  The evaluator of workflow expressions (\<^verbatim>\<open>src/internal/actions/expr/eval.go\<close>) with its two
  information-flow labels: \<open>Tainted\<close> for values that depend on the event payload and \<open>Sensitive\<close> for
  values that contain a secret. The noninterference argument is made once, in the locale
  \<open>information_flow\<close>, and interpreted for each label and for their union.

  Go maps that are only looked up are HOL maps (a nil map and an empty one cannot be told apart
  by the operations used); a decoded JSON object is the list of its entries. A \<^verbatim>\<open>float64\<close> is its
  64-bit pattern, and its \<^verbatim>\<open>%v\<close> rendering, the only thing asked of it, is the argument \<open>ff\<close>.
\<close>

section \<open>Values and contexts\<close>

type_synonym float64 = "64 word"

datatype any =
    AnyNil
  | AnyString string
  | AnyBool bool
  | AnyFloat64 float64
  | AnyMap "(string \<times> any) list"
  | AnySlice "any list"

datatype Kind = KindString | KindBool | KindNull

record Value =
  vKind :: Kind
  vS :: string
  vB :: bool
  Tainted :: bool
  Sensitive :: bool

record JobStatus =
  Failed :: bool
  Cancelled :: bool

record ShithubContext =
  Event :: "(string \<times> any) list"
  RunID :: string
  SHA :: string
  GitRef :: string
  ActorName :: string

record Context =
  Secrets :: "string \<rightharpoonup> string"
  Vars :: "string \<rightharpoonup> string"
  Env :: "string \<rightharpoonup> string"
  EnvTaint :: "string \<rightharpoonup> bool"
  EnvSensitive :: "string \<rightharpoonup> bool"
  Shithub :: ShithubContext
  Untrusted :: "string set"
  Status :: JobStatus

datatype eval_error =
    EmptyReference
  | NeedsOneMember string
  | SecretNotBound string
  | UnknownNamespace string
  | ShithubNeedsMember
  | UnknownShithubField string
  | TakesNoArguments string
  | TakesTwoArguments string nat
  | UnknownFunction string
  | UnknownOperator string

definition Value_String :: "Value \<Rightarrow> string" where
  "Value_String v = (case vKind v of
     KindBool \<Rightarrow> if vB v then ''true'' else ''false''
   | KindNull \<Rightarrow> ''''
   | KindString \<Rightarrow> vS v)"

definition Truthy :: "Value \<Rightarrow> bool" where
  "Truthy v = (case vKind v of KindBool \<Rightarrow> vB v | KindString \<Rightarrow> vS v \<noteq> '''' | KindNull \<Rightarrow> False)"

definition DefaultUntrusted :: "string set" where
  "DefaultUntrusted = {''shithub.event''}"

text \<open>\<open>zeroValue\<close> is Go's zero \<^verbatim>\<open>Value{}\<close>; composite literals set some of its fields.\<close>

definition zeroValue :: Value where
  "zeroValue = \<lparr>vKind = KindString, vS = '''', vB = False, Tainted = False, Sensitive = False\<rparr>"

text \<open>A missing key of a \<^verbatim>\<open>map[string]bool\<close> reads as false.\<close>

definition flagged :: "(string \<rightharpoonup> bool) \<Rightarrow> string \<Rightarrow> bool" where
  "flagged m k = (m k = Some True)"

section \<open>Evaluation\<close>

text \<open>The \<^verbatim>\<open>%v\<close> rendering of decoded JSON: maps in key order, nil interfaces as \<^verbatim>\<open><nil>\<close>.\<close>

primrec sprint :: "(float64 \<Rightarrow> string) \<Rightarrow> any \<Rightarrow> string" where
  "sprint ff AnyNil = ''<nil>''"
| "sprint ff (AnyString s) = s"
| "sprint ff (AnyBool b) = (if b then ''true'' else ''false'')"
| "sprint ff (AnyFloat64 x) = ff x"
| "sprint ff (AnyMap m) = ''map['' @
     Join (map (\<lambda>(k, s). k @ '':'' @ s) (sort_key fst (map (map_prod id (sprint ff)) m))) '' '' @ '']''"
| "sprint ff (AnySlice xs) = ''['' @ Join (map (sprint ff) xs) '' '' @ '']''"

definition isUntrusted :: "string list \<Rightarrow> string set \<Rightarrow> bool" where
  "isUntrusted path untrusted = (untrusted \<noteq> {} \<and>
     list_ex (\<lambda>i. Join (take (i + 1) path) ''.'' \<in> untrusted) [0..<length path])"

fun eventWalk :: "string list \<Rightarrow> any \<Rightarrow> any option" where
  "eventWalk [] cur = Some cur"
| "eventWalk (key # path) cur = (case cur of
     AnyMap m \<Rightarrow> eventWalk path (case map_of m key of Some v \<Rightarrow> v | None \<Rightarrow> AnyNil)
   | _ \<Rightarrow> None)"

definition evalEventPath :: "(float64 \<Rightarrow> string) \<Rightarrow> string list \<Rightarrow> (string \<times> any) list \<Rightarrow> bool \<Rightarrow> Value" where
  "evalEventPath ff path event tainted = (case eventWalk path (AnyMap event) of
     None \<Rightarrow> zeroValue\<lparr>vKind := KindNull, Tainted := tainted\<rparr>
   | Some AnyNil \<Rightarrow> zeroValue\<lparr>vKind := KindNull, Tainted := tainted\<rparr>
   | Some (AnyBool b) \<Rightarrow> zeroValue\<lparr>vKind := KindBool, vB := b, Tainted := tainted\<rparr>
   | Some v \<Rightarrow> zeroValue\<lparr>vKind := KindString, vS := sprint ff v, Tainted := tainted\<rparr>)"

definition evalShithub :: "(float64 \<Rightarrow> string) \<Rightarrow> string list \<Rightarrow> Context \<Rightarrow> bool \<Rightarrow> eval_error + Value" where
  "evalShithub ff path ctx tainted = (case path of
     [] \<Rightarrow> Inl ShithubNeedsMember
   | f # flds \<Rightarrow>
       if f = ''run_id'' then Inr (zeroValue\<lparr>vS := RunID (Shithub ctx)\<rparr>)
       else if f = ''sha'' then Inr (zeroValue\<lparr>vS := SHA (Shithub ctx)\<rparr>)
       else if f = ''ref'' then Inr (zeroValue\<lparr>vS := GitRef (Shithub ctx)\<rparr>)
       else if f = ''actor'' then Inr (zeroValue\<lparr>vS := ActorName (Shithub ctx)\<rparr>)
       else if f = ''event'' then Inr (evalEventPath ff flds (Event (Shithub ctx)) tainted)
       else Inl (UnknownShithubField f))"

text \<open>\<open>evalRef\<close>: the \<^verbatim>\<open>github\<close> namespace is rewritten to \<^verbatim>\<open>shithub\<close> before anything looks at it.\<close>

definition canonicalPath :: "string list \<Rightarrow> string list" where
  "canonicalPath p = (if p \<noteq> [] \<and> hd p = ''github'' then ''shithub'' # tl p else p)"

definition evalRef :: "(float64 \<Rightarrow> string) \<Rightarrow> Context \<Rightarrow> string list \<Rightarrow> eval_error + Value" where
  "evalRef ff ctx p = (if p = [] then Inl EmptyReference else
     let path = canonicalPath p; root = hd path; tainted = isUntrusted path (Untrusted ctx) in
     if root = ''secrets'' then
       (if length path \<noteq> 2 then Inl (NeedsOneMember root)
        else case Secrets ctx (path ! 1) of
          None \<Rightarrow> Inl (SecretNotBound (path ! 1))
        | Some v \<Rightarrow> Inr (zeroValue\<lparr>vS := v, Sensitive := True\<rparr>))
     else if root = ''vars'' then
       (if length path \<noteq> 2 then Inl (NeedsOneMember root)
        else case Vars ctx (path ! 1) of None \<Rightarrow> Inr zeroValue | Some v \<Rightarrow> Inr (zeroValue\<lparr>vS := v\<rparr>))
     else if root = ''env'' then
       (if length path \<noteq> 2 then Inl (NeedsOneMember root)
        else case Env ctx (path ! 1) of
          None \<Rightarrow> Inr zeroValue
        | Some v \<Rightarrow> Inr (zeroValue\<lparr>vS := v, Tainted := flagged (EnvTaint ctx) (path ! 1),
                               Sensitive := flagged (EnvSensitive ctx) (path ! 1)\<rparr>))
     else if root = ''shithub'' then evalShithub ff (tl path) ctx tainted
     else Inl (UnknownNamespace root))"

text \<open>
  Evaluation has no effect, so a subexpression the code may or may not evaluate is passed as its
  result: \<open>strFnArity2\<close> gets the results of the arguments, \<open>evalBinary\<close> those of both operands, and
  each looks at a result exactly where the code calls \<^verbatim>\<open>Eval\<close>.
\<close>

definition strFnArity2 :: "string \<Rightarrow> (string \<Rightarrow> string \<Rightarrow> bool) \<Rightarrow> (eval_error + Value) list \<Rightarrow> eval_error + Value" where
  "strFnArity2 name fn args = (case args of
     [ra, rb] \<Rightarrow> (case ra of Inl e \<Rightarrow> Inl e | Inr a \<Rightarrow>
                 (case rb of Inl e \<Rightarrow> Inl e | Inr b \<Rightarrow>
                   Inr \<lparr>vKind = KindBool, vS = '''', vB = fn (Value_String a) (Value_String b),
                        Tainted = Tainted a \<or> Tainted b, Sensitive = Sensitive a \<or> Sensitive b\<rparr>))
   | _ \<Rightarrow> Inl (TakesTwoArguments name (length args)))"

definition statusFn :: "string \<Rightarrow> bool \<Rightarrow> 'a list \<Rightarrow> eval_error + Value" where
  "statusFn name b args = (if args \<noteq> [] then Inl (TakesNoArguments name)
                           else Inr (zeroValue\<lparr>vKind := KindBool, vB := b\<rparr>))"

definition evalCall :: "Context \<Rightarrow> string \<Rightarrow> (eval_error + Value) list \<Rightarrow> eval_error + Value" where
  "evalCall ctx f args = (let js = Status ctx in
     if f = ''contains'' then strFnArity2 f Contains args
     else if f = ''startsWith'' then strFnArity2 f HasPrefix args
     else if f = ''endsWith'' then strFnArity2 f HasSuffix args
     else if f = ''success'' then statusFn f (\<not> Failed js \<and> \<not> Cancelled js) args
     else if f = ''failure'' then statusFn f (Failed js \<and> \<not> Cancelled js) args
     else if f = ''always'' then statusFn f True args
     else if f = ''cancelled'' then statusFn f (Cancelled js) args
     else Inl (UnknownFunction f))"

definition valuesEqual :: "Value \<Rightarrow> Value \<Rightarrow> bool" where
  "valuesEqual a b = (
     if vKind a = KindNull \<or> vKind b = KindNull then vKind a = vKind b
     else if vKind a = KindBool \<and> vKind b = KindBool then vB a = vB b
     else Value_String a = Value_String b)"

definition evalBinary :: "string \<Rightarrow> eval_error + Value \<Rightarrow> eval_error + Value \<Rightarrow> eval_error + Value" where
  "evalBinary op rl rr = (case rl of Inl e \<Rightarrow> Inl e | Inr l \<Rightarrow>
     if op = ''&&'' \<and> \<not> Truthy l then Inr l
     else if op = ''||'' \<and> Truthy l then Inr l
     else (case rr of Inl e \<Rightarrow> Inl e | Inr r \<Rightarrow>
       let t = Tainted l \<or> Tainted r; s = Sensitive l \<or> Sensitive r in
       if op = ''&&'' \<or> op = ''||''
       then Inr \<lparr>vKind = vKind r, vS = vS r, vB = vB r, Tainted = t, Sensitive = s\<rparr>
       else if op = ''=='' then Inr \<lparr>vKind = KindBool, vS = '''', vB = valuesEqual l r, Tainted = t, Sensitive = s\<rparr>
       else if op = ''!='' then Inr \<lparr>vKind = KindBool, vS = '''', vB = \<not> valuesEqual l r, Tainted = t, Sensitive = s\<rparr>
       else Inl (UnknownOperator op)))"

primrec Eval :: "(float64 \<Rightarrow> string) \<Rightarrow> Context \<Rightarrow> Expr \<Rightarrow> eval_error + Value" where
  "Eval ff ctx (LitString s) = Inr (zeroValue\<lparr>vS := s\<rparr>)"
| "Eval ff ctx (LitBool b) = Inr (zeroValue\<lparr>vKind := KindBool, vB := b\<rparr>)"
| "Eval ff ctx LitNull = Inr (zeroValue\<lparr>vKind := KindNull\<rparr>)"
| "Eval ff ctx (Ref p) = evalRef ff ctx p"
| "Eval ff ctx (Call f as) = evalCall ctx f (map (Eval ff ctx) as)"
| "Eval ff ctx (Unary op x) = (case Eval ff ctx x of Inl e \<Rightarrow> Inl e | Inr v \<Rightarrow>
     Inr \<lparr>vKind = KindBool, vS = '''', vB = \<not> Truthy v, Tainted = Tainted v, Sensitive = Sensitive v\<rparr>)"
| "Eval ff ctx (Binary op l r) = evalBinary op (Eval ff ctx l) (Eval ff ctx r)"

section \<open>Information flow\<close>

text \<open>The value the evaluator builds from two others, with both labels joined.\<close>

abbreviation joined :: "Kind \<Rightarrow> string \<Rightarrow> bool \<Rightarrow> Value \<Rightarrow> Value \<Rightarrow> Value" where
  "joined k s b x y \<equiv> \<lparr>vKind = k, vS = s, vB = b, Tainted = Tainted x \<or> Tainted y, Sensitive = Sensitive x \<or> Sensitive y\<rparr>"

abbreviation shortCircuit :: "string \<Rightarrow> Value \<Rightarrow> bool" where
  "shortCircuit op l \<equiv> op = ''&&'' \<and> \<not> Truthy l \<or> op = ''||'' \<and> Truthy l"

lemma strFnArity2_Inr: "strFnArity2 name fn as = Inr v \<longleftrightarrow>
    (\<exists>a b. as = [Inr a, Inr b] \<and> v = joined KindBool '''' (fn (Value_String a) (Value_String b)) a b)"
  unfolding strFnArity2_def by (simp split: list.split sum.split) metis

lemma evalBinary_short: "shortCircuit op l \<Longrightarrow> evalBinary op (Inr l) r = Inr l"
  by (auto simp: evalBinary_def)

lemma evalBinary_full: "\<not> shortCircuit op l \<Longrightarrow> evalBinary op (Inr l) r = (case r of Inl e \<Rightarrow> Inl e | Inr r \<Rightarrow>
    if op = ''&&'' \<or> op = ''||'' then Inr (joined (vKind r) (vS r) (vB r) l r)
    else if op = ''=='' then Inr (joined KindBool '''' (valuesEqual l r) l r)
    else if op = ''!='' then Inr (joined KindBool '''' (\<not> valuesEqual l r) l r)
    else Inl (UnknownOperator op))"
  by (auto simp: evalBinary_def Let_def split: sum.split)

text \<open>
  \<open>information_flow\<close>: a label on values and an indistinguishability relation on contexts. A value the
  evaluator builds from others carries the label iff one of them does, and a reference that is not
  labelled reads the same in indistinguishable contexts. Then every unlabelled result is the same
  in indistinguishable contexts.
\<close>

locale information_flow =
  fixes label :: "Value \<Rightarrow> bool"
    and indist :: "Context \<Rightarrow> Context \<Rightarrow> bool"
  assumes label_join: "label \<lparr>vKind = k, vS = s, vB = b, Tainted = Tainted x \<or> Tainted y,
                          Sensitive = Sensitive x \<or> Sensitive y\<rparr> \<longleftrightarrow> label x \<or> label y"
    and label_one: "label \<lparr>vKind = k, vS = s, vB = b, Tainted = Tainted x, Sensitive = Sensitive x\<rparr> \<longleftrightarrow> label x"
    and ref_flow: "indist c d \<Longrightarrow> evalRef ff c p = Inr v \<Longrightarrow> \<not> label v \<Longrightarrow> evalRef ff d p = Inr v"
    and status_flow: "indist c d \<Longrightarrow> Status d = Status c"
begin

lemma str_flow:
  assumes "strFnArity2 name fn as = Inr v" "\<not> label v"
    and "list_all2 (\<lambda>x y. \<forall>w. x = Inr w \<longrightarrow> \<not> label w \<longrightarrow> y = Inr w) as bs"
  shows "strFnArity2 name fn bs = Inr v"
proof -
  obtain a b where v: "as = [Inr a, Inr b]" "v = joined KindBool '''' (fn (Value_String a) (Value_String b)) a b"
    using assms(1) unfolding strFnArity2_Inr by blast
  with assms(2) have "\<not> label a" "\<not> label b" by (simp_all add: label_join)
  with v(1) assms(3) have "bs = [Inr a, Inr b]" by (auto simp: list_all2_Cons1)
  with v show ?thesis unfolding strFnArity2_Inr by blast
qed

lemma call_flow:
  assumes "indist c d" "evalCall c f as = Inr v" "\<not> label v"
    and "list_all2 (\<lambda>x y. \<forall>w. x = Inr w \<longrightarrow> \<not> label w \<longrightarrow> y = Inr w) as bs"
  shows "evalCall d f bs = Inr v"
proof -
  have "as = [] \<longleftrightarrow> bs = []" using assms(4) by auto
  then have "statusFn f b bs = Inr v" if "statusFn f b as = Inr v" for b
    using that by (simp add: statusFn_def split: if_splits)
  note this str_flow [OF _ assms(3,4)] and eqs = status_flow [OF assms(1)]
  then show ?thesis using assms(2) unfolding evalCall_def Let_def eqs
    by (simp split: if_split_asm)
qed

lemma binary_flow:
  assumes "evalBinary op l r = Inr v" "\<not> label v"
    and "\<And>w. l = Inr w \<Longrightarrow> \<not> label w \<Longrightarrow> l' = Inr w" "\<And>w. r = Inr w \<Longrightarrow> \<not> label w \<Longrightarrow> r' = Inr w"
  shows "evalBinary op l' r' = Inr v"
proof -
  obtain a where a: "l = Inr a" using assms(1) by (cases l) (auto simp: evalBinary_def)
  show ?thesis
  proof (cases "shortCircuit op a")
    case True
    then show ?thesis using assms a by (simp add: evalBinary_short)
  next
    case False
    then obtain b k s bb where b: "r = Inr b" "v = joined k s bb a b"
      using assms(1) a by (cases r) (auto simp: evalBinary_full split: if_splits)
    then have "\<not> label a" "\<not> label b" using assms(2) by (simp_all add: label_join)
    then show ?thesis using assms(1,3,4) a b(1) by simp
  qed
qed

lemma noninterference:
  assumes "indist c d"
  shows "Eval ff c e = Inr v \<Longrightarrow> \<not> label v \<Longrightarrow> Eval ff d e = Inr v"
proof (induction e arbitrary: v)
  case (Ref p)
  then show ?case using ref_flow [OF assms] by simp
next
  case (Call f as)
  have "list_all2 (\<lambda>x y. \<forall>w. x = Inr w \<longrightarrow> \<not> label w \<longrightarrow> y = Inr w) (map (Eval ff c) as) (map (Eval ff d) as)"
    using Call.IH by (simp add: list_all2_conv_all_nth)
  then show ?case using call_flow [OF assms _ Call.prems(2)] Call.prems(1) by simp
next
  case (Unary op x)
  obtain w where w: "Eval ff c x = Inr w"
    "v = \<lparr>vKind = KindBool, vS = '''', vB = \<not> Truthy w, Tainted = Tainted w, Sensitive = Sensitive w\<rparr>"
    using Unary.prems(1) by (simp split: sum.split_asm)
  then have "Eval ff d x = Inr w" using Unary.IH Unary.prems(2) label_one by simp
  then show ?case using w(2) by simp
next
  case (Binary op l r)
  then show ?case
    using binary_flow [OF _ Binary.prems(2), of op "Eval ff c l" "Eval ff c r"] by simp
qed auto

end

text \<open>
  Three relations: contexts that differ in secrets and in environment values marked sensitive;
  in the event payload and in environment values marked tainted; in all of these. In the third
  only the union of the two environment marks has to agree.
\<close>

definition envAgree :: "(Context \<Rightarrow> string \<Rightarrow> bool) \<Rightarrow> Context \<Rightarrow> Context \<Rightarrow> bool" where
  "envAgree mark c d \<longleftrightarrow> dom (Env d) = dom (Env c) \<and> (\<forall>k. mark d k = mark c k) \<and>
     (\<forall>k. \<not> mark c k \<longrightarrow> Env d k = Env c k)"

definition publicEq :: "Context \<Rightarrow> Context \<Rightarrow> bool" where
  "publicEq c d \<longleftrightarrow> Vars d = Vars c \<and> Status d = Status c \<and> Untrusted d = Untrusted c \<and>
     RunID (Shithub d) = RunID (Shithub c) \<and> SHA (Shithub d) = SHA (Shithub c) \<and>
     GitRef (Shithub d) = GitRef (Shithub c) \<and> ActorName (Shithub d) = ActorName (Shithub c)"

definition secretMark :: "Context \<Rightarrow> string \<Rightarrow> bool" where
  "secretMark c = flagged (EnvSensitive c)"

definition taintMark :: "Context \<Rightarrow> string \<Rightarrow> bool" where
  "taintMark c = flagged (EnvTaint c)"

definition anyMark :: "Context \<Rightarrow> string \<Rightarrow> bool" where
  "anyMark c k \<longleftrightarrow> taintMark c k \<or> secretMark c k"

definition sameUpToSecrets :: "Context \<Rightarrow> Context \<Rightarrow> bool" where
  "sameUpToSecrets c d \<longleftrightarrow> publicEq c d \<and> Shithub d = Shithub c \<and> taintMark d = taintMark c \<and> envAgree secretMark c d"

definition sameUpToEvent :: "Context \<Rightarrow> Context \<Rightarrow> bool" where
  "sameUpToEvent c d \<longleftrightarrow> publicEq c d \<and> Secrets d = Secrets c \<and> ''shithub.event'' \<in> Untrusted c \<and>
     secretMark d = secretMark c \<and> envAgree taintMark c d"

definition sameUpToUntrusted :: "Context \<Rightarrow> Context \<Rightarrow> bool" where
  "sameUpToUntrusted c d \<longleftrightarrow> publicEq c d \<and> ''shithub.event'' \<in> Untrusted c \<and> envAgree anyMark c d"

lemma isUntrusted_event: "''shithub.event'' \<in> u \<Longrightarrow> isUntrusted (''shithub'' # ''event'' # p) u"
proof -
  let ?path = "''shithub'' # ''event'' # p"
  assume u: "''shithub.event'' \<in> u"
  have "Join (take (1 + 1) ?path) ''.'' = ''shithub.event''" by simp
  moreover have "1 \<in> set [0..<length ?path]" unfolding set_upt by simp
  ultimately show ?thesis using u unfolding isUntrusted_def list_ex_iff by (metis empty_iff)
qed

lemma Tainted_evalEventPath [simp]:
  "Tainted (evalEventPath ff p ev t) = t" "Sensitive (evalEventPath ff p ev t) = False"
  by (auto simp: evalEventPath_def zeroValue_def split: option.splits any.splits)

text \<open>What a reference reads, by namespace: the shape the three interpretations share.\<close>

lemma evalRef_cases:
  assumes "evalRef ff c p = Inr v"
  obtains (secret) k where "canonicalPath p = [''secrets'', k]" "Secrets c k = Some (vS v)"
      "v = zeroValue\<lparr>vS := vS v, Sensitive := True\<rparr>"
    | (var) k where "canonicalPath p = [''vars'', k]"
    | (env) k s where "canonicalPath p = [''env'', k]" "Env c k = Some s"
        "v = zeroValue\<lparr>vS := s, Tainted := taintMark c k, Sensitive := secretMark c k\<rparr>"
    | (noenv) k where "canonicalPath p = [''env'', k]" "Env c k = None" "v = zeroValue"
    | (event) q where "canonicalPath p = ''shithub'' # ''event'' # q"
        "v = evalEventPath ff q (Event (Shithub c)) (isUntrusted (canonicalPath p) (Untrusted c))"
    | (field) f q where "canonicalPath p = ''shithub'' # f # q" "f \<in> {''run_id'', ''sha'', ''ref'', ''actor''}"
proof -
  have ne: "p \<noteq> []" using assms by (auto simp: evalRef_def)
  then obtain root path where p: "canonicalPath p = root # path" by (cases "canonicalPath p") (auto simp: canonicalPath_def split: if_split_asm)
  have one: "\<exists>b. path = [b]" if "length path = Suc 0" using that by (auto simp: length_Suc_conv)
  have ev: "evalRef ff c p = Inr v" by (rule assms)
  consider "root = ''secrets''" | "root = ''vars''" | "root = ''env''" | "root = ''shithub''"
    using ev p ne by (auto simp: evalRef_def Let_def split: if_split_asm)
  then show thesis
  proof cases
    case 1
    with ev p ne one show thesis
      by (auto simp: evalRef_def Let_def zeroValue_def split: if_split_asm option.split_asm intro: secret)
  next
    case 2
    with ev p ne one show thesis by (auto simp: evalRef_def Let_def split: if_split_asm intro: var)
  next
    case 3
    with ev p ne one show thesis
      by (auto simp: evalRef_def Let_def taintMark_def secretMark_def split: if_split_asm option.split_asm intro: env noenv)
  next
    case 4
    with ev p ne show thesis
      by (auto simp: evalRef_def Let_def evalShithub_def split: if_split_asm list.split_asm intro: event field)
  qed
qed


lemma canonicalPath_ne: "canonicalPath p = x # xs \<Longrightarrow> p \<noteq> []"
  by (auto simp: canonicalPath_def)

lemma evalRef_event:
  assumes "canonicalPath p = ''shithub'' # ''event'' # q"
  shows "evalRef ff c p = Inr (evalEventPath ff q (Event (Shithub c)) (isUntrusted (canonicalPath p) (Untrusted c)))"
  using assms canonicalPath_ne [OF assms] by (simp add: evalRef_def Let_def evalShithub_def)

lemma evalRef_env:
  assumes "canonicalPath p = [''env'', k]"
  shows "evalRef ff c p = Inr (case Env c k of None \<Rightarrow> zeroValue
     | Some s \<Rightarrow> zeroValue\<lparr>vS := s, Tainted := taintMark c k, Sensitive := secretMark c k\<rparr>)"
  using assms canonicalPath_ne [OF assms]
  by (simp add: evalRef_def Let_def taintMark_def secretMark_def split: option.split)

lemma evalRef_public:
  assumes "publicEq c d" "canonicalPath p = [''vars'', k] \<or>
      (\<exists>f q. canonicalPath p = ''shithub'' # f # q \<and> f \<in> {''run_id'', ''sha'', ''ref'', ''actor''})"
  shows "evalRef ff d p = evalRef ff c p"
proof -
  have eqs: "Vars d = Vars c" "RunID (Shithub d) = RunID (Shithub c)" "SHA (Shithub d) = SHA (Shithub c)"
      "GitRef (Shithub d) = GitRef (Shithub c)" "ActorName (Shithub d) = ActorName (Shithub c)"
    using assms(1) by (simp_all add: publicEq_def)
  show ?thesis using assms(2) canonicalPath_ne [of p]
    by (auto simp: evalRef_def Let_def evalShithub_def eqs)
qed

lemma ref_flow_by_namespace:
  assumes "publicEq c d" "dom (Env d) = dom (Env c)" "evalRef ff c p = Inr v"
    and "\<And>k. canonicalPath p = [''secrets'', k] \<Longrightarrow> Sensitive v \<Longrightarrow> evalRef ff d p = evalRef ff c p"
    and "\<And>k s. canonicalPath p = [''env'', k] \<Longrightarrow> Env c k = Some s \<Longrightarrow> Tainted v = taintMark c k \<Longrightarrow>
           Sensitive v = secretMark c k \<Longrightarrow> evalRef ff d p = evalRef ff c p"
    and "\<And>q. canonicalPath p = ''shithub'' # ''event'' # q \<Longrightarrow>
           Tainted v = isUntrusted (''shithub'' # ''event'' # q) (Untrusted c) \<Longrightarrow> evalRef ff d p = evalRef ff c p"
  shows "evalRef ff d p = Inr v"
  using assms(3)
proof (cases rule: evalRef_cases)
  case (secret k)
  then have "Sensitive v" by (metis Value.select_convs(5) Value.surjective Value.update_convs(5))
  with secret assms(3,4) show ?thesis by metis
next
  case (env k s)
  then have "evalRef ff d p = evalRef ff c p" by (intro assms(5) [of k s]) (simp_all add: zeroValue_def)
  then show ?thesis using assms(3) by simp
next
  case (noenv k)
  then have "Env d k = None" using assms(2) by (metis domIff)
  then show ?thesis using noenv by (simp add: evalRef_env)
next
  case (event q)
  then have "evalRef ff d p = evalRef ff c p" by (intro assms(6) [of q]) simp_all
  then show ?thesis using assms(3) by simp
qed (use evalRef_public [OF assms(1)] assms(3) in metis)+

interpretation secrecy: information_flow Sensitive sameUpToSecrets
proof
  fix c d ff p v
  assume cd: "sameUpToSecrets c d" and ev: "evalRef ff c p = Inr v" and low: "\<not> Sensitive v"
  have "evalRef ff d p = evalRef ff c p" if "canonicalPath p = [''env'', k]" "\<not> secretMark c k" for k
    using that cd by (auto simp: evalRef_env sameUpToSecrets_def envAgree_def split: option.split)
  then show "evalRef ff d p = Inr v" using cd low
    by (intro ref_flow_by_namespace [OF _ _ ev])
       (auto simp: sameUpToSecrets_def publicEq_def envAgree_def anyMark_def isUntrusted_event evalRef_event)
qed (auto simp: sameUpToSecrets_def publicEq_def)

interpretation taint: information_flow Tainted sameUpToEvent
proof
  fix c d ff p v
  assume cd: "sameUpToEvent c d" and ev: "evalRef ff c p = Inr v" and low: "\<not> Tainted v"
  have "evalRef ff d p = evalRef ff c p" if "canonicalPath p = [''env'', k]" "\<not> taintMark c k" for k
    using that cd by (auto simp: evalRef_env sameUpToEvent_def envAgree_def split: option.split)
  moreover have "evalRef ff d p = evalRef ff c p" if "canonicalPath p = [''secrets'', k]" for k
    using that cd canonicalPath_ne [OF that] by (simp add: evalRef_def Let_def sameUpToEvent_def)
  ultimately show "evalRef ff d p = Inr v" using cd low
    by (intro ref_flow_by_namespace [OF _ _ ev])
       (auto simp: sameUpToEvent_def publicEq_def envAgree_def anyMark_def isUntrusted_event evalRef_event)
qed (auto simp: sameUpToEvent_def publicEq_def)

interpretation boundary: information_flow "\<lambda>v. Tainted v \<or> Sensitive v" sameUpToUntrusted
proof
  fix c d ff p v
  assume cd: "sameUpToUntrusted c d" and ev: "evalRef ff c p = Inr v" and low: "\<not> (Tainted v \<or> Sensitive v)"
  have "evalRef ff d p = evalRef ff c p" if "canonicalPath p = [''env'', k]" "\<not> anyMark c k" for k
  proof -
    have "\<not> anyMark d k" "Env d k = Env c k" using that cd by (auto simp: sameUpToUntrusted_def envAgree_def)
    then show ?thesis using that by (auto simp: evalRef_env anyMark_def split: option.split)
  qed
  then show "evalRef ff d p = Inr v" using cd low
    by (intro ref_flow_by_namespace [OF _ _ ev])
       (auto simp: sameUpToUntrusted_def publicEq_def envAgree_def anyMark_def isUntrusted_event evalRef_event)
qed (auto simp: sameUpToUntrusted_def publicEq_def)


section \<open>Properties of evaluation\<close>

lemma evalRef_not_empty: "p \<noteq> [] \<Longrightarrow> evalRef ff ctx p \<notin> {Inl EmptyReference, Inl (UnknownOperator op)}"
  by (auto simp: evalRef_def Let_def evalShithub_def split: if_splits option.splits list.splits)

lemma strFnArity2_error: "strFnArity2 name fn rs = Inl e \<Longrightarrow> e = TakesTwoArguments name (length rs) \<or> Inl e \<in> set rs"
  unfolding strFnArity2_def by (simp split: list.split_asm sum.split_asm)

lemma evalCall_error:
  "evalCall ctx f rs = Inl e \<Longrightarrow> Inl e \<in> set rs \<or> e \<in> {TakesTwoArguments f (length rs), TakesNoArguments f, UnknownFunction f}"
  unfolding evalCall_def Let_def statusFn_def using strFnArity2_error [of f _ rs e]
  by (simp split: if_split_asm) blast+

lemma evalBinary_error:
  "evalBinary op l r = Inl e \<Longrightarrow> op \<in> {''||'', ''&&'', ''=='', ''!=''} \<Longrightarrow> l = Inl e \<or> r = Inl e"
  unfolding evalBinary_def Let_def by (auto split: sum.split_asm if_split_asm)

lemma Eval_wf_error:
  "wfExpr e \<Longrightarrow> Eval ff ctx e = Inl err \<Longrightarrow> err \<noteq> EmptyReference \<and> (\<forall>op. err \<noteq> UnknownOperator op)"
proof (induction e arbitrary: err)
  case (Ref p)
  then show ?case using evalRef_not_empty [of p ff ctx] by auto
next
  case (Call f as)
  from Call.prems(2) evalCall_error [of ctx f "map (Eval ff ctx) as" err]
  consider a where "a \<in> set as" "Eval ff ctx a = Inl err"
    | "err \<in> {TakesTwoArguments f (length as), TakesNoArguments f, UnknownFunction f}"
    by (auto dest: sym)
  then show ?case using Call.IH Call.prems(1) by cases auto
next
  case (Unary op x)
  then show ?case by (auto split: sum.split_asm)
next
  case (Binary op l r)
  then show ?case using evalBinary_error [of op "Eval ff ctx l" "Eval ff ctx r" err] by auto
qed auto

text \<open>
  C13. A result that is not marked sensitive does not depend on any secret: evaluating the same
  expression with other secrets (bound or not) and other values for the environment entries
  marked sensitive succeeds with the very same value.
\<close>

theorem unmarked_result_independent_of_secrets:
  assumes "sameUpToSecrets c d" "Eval ff c e = Inr v" "\<not> Sensitive v"
  shows "Eval ff d e = Inr v"
  using assms by (rule secrecy.noninterference)

definition demo_ctx :: "string \<Rightarrow> string \<Rightarrow> Context" where
  "demo_ctx secret title = \<lparr>Secrets = [''TOKEN'' \<mapsto> secret], Vars = Map.empty, Env = [''E'' \<mapsto> secret],
     EnvTaint = Map.empty, EnvSensitive = [''E'' \<mapsto> True],
     Shithub = \<lparr>Event = [(''title'', AnyString title)], RunID = ''7'', SHA = ''abc'', GitRef = ''main'', ActorName = ''bob''\<rparr>,
     Untrusted = DefaultUntrusted, Status = \<lparr>Failed = False, Cancelled = False\<rparr>\<rparr>"

lemma demo_same: "sameUpToSecrets (demo_ctx x t) (demo_ctx y t)"
  by (auto simp: sameUpToSecrets_def publicEq_def envAgree_def secretMark_def taintMark_def demo_ctx_def flagged_def)

theorem unmarked_result_independent_of_secrets_witness:
  "Eval (\<lambda>_. '''') (demo_ctx ''hunter2'' ''t'')
     (Binary ''||'' (Binary ''=='' (Ref [''github'', ''actor'']) (LitString ''bob'')) (Ref [''secrets'', ''TOKEN'']))
     = Inr (zeroValue\<lparr>vKind := KindBool, vB := True\<rparr>)"
  by (rule unmarked_result_independent_of_secrets [OF demo_same [of "''x''" "''t''"]])
     (simp_all add: demo_ctx_def evalBinary_def evalRef_def canonicalPath_def evalShithub_def zeroValue_def
        valuesEqual_def Value_String_def Truthy_def)

text \<open>
  C14. A result that is not marked tainted does not depend on the event payload, as long as the
  untrusted prefixes include the event namespace: another payload and other values for the
  environment entries marked tainted give the same value.
\<close>

theorem untainted_result_independent_of_event:
  assumes "sameUpToEvent c d" "Eval ff c e = Inr v" "\<not> Tainted v"
  shows "Eval ff d e = Inr v"
  using assms by (rule taint.noninterference)

theorem untainted_result_independent_of_event_witness:
  "Eval (\<lambda>_. '''') (demo_ctx ''s'' ''evil'')
     (Binary ''||'' (Ref [''github'', ''ref'']) (Ref [''shithub'', ''event'', ''title'']))
     = Inr (zeroValue\<lparr>vS := ''main''\<rparr>)"
  by (rule untainted_result_independent_of_event [of "demo_ctx ''s'' ''good''"])
     (simp_all add: demo_ctx_def evalBinary_def evalRef_def canonicalPath_def evalShithub_def zeroValue_def Truthy_def
        sameUpToEvent_def publicEq_def envAgree_def DefaultUntrusted_def secretMark_def taintMark_def)

text \<open>
  Evaluating what the lexer and the parser accepted never reaches the evaluator's internal
  error branches: every reference has a namespace and every operator is known.
\<close>

theorem parsed_source_evaluates_without_internal_errors:
  assumes "Lex u src = Inr ts" "Parse ts = Inr e"
  shows "Eval ff ctx e \<noteq> Inl EmptyReference \<and> Eval ff ctx e \<noteq> Inl (UnknownOperator op)"
  using Parse_wf [OF _ assms(2)] Lex_shape [OF assms(1)] Eval_wf_error [of e ff ctx] by blast

lemma parse_demo:
  "Parse [Token TokNot ''!'' 0, Token TokIdent ''a'' 1, Token TokEq ''=='' 3, Token TokIdent ''b'' 6, Token TokEOF '''' 7]
     = Inr (Binary ''=='' (Unary ''!'' (Ref [''a''])) (Ref [''b'']))"
  by (simp add: Parse_def parse_simps)

theorem parsed_source_evaluates_without_internal_errors_witness:
  "Eval (\<lambda>_. '''') (demo_ctx '''' '''') (Binary ''=='' (Unary ''!'' (Ref [''a''])) (Ref [''b''])) \<noteq> Inl (UnknownOperator ''=='')"
  using parsed_source_evaluates_without_internal_errors [OF lex_demo parse_demo, of "\<lambda>_. ''''" "demo_ctx '''' ''''" "''==''"] by blast

end
