(* ===== verification/RunnerRender.thy ===== *)
theory RunnerRender
  imports ExprEval
begin

text \<open>
  Rendering of a workflow step for the runner (\<^verbatim>\<open>src/internal/runner/exec/render.go\<close>) and of
  concurrency groups (\<^verbatim>\<open>src/internal/actions/concurrency/resolve.go\<close>, \<^verbatim>\<open>concurrency.go\<close>): the text of
  a step is scanned for \<^verbatim>\<open>${{ ... }}\<close>, each body is lexed, parsed and evaluated, and a result that is
  tainted or sensitive reaches the shell only through an environment binding. The callback a walk is
  given becomes a state-passing function; the string builder is the rendered text so far. A map whose
  keys are enumerated (the raw environments) is an association list.
\<close>

section \<open>Walking a text\<close>

datatype render_error =
    MissingClosing
  | LexError lex_error
  | ParseError parse_error
  | EvalError eval_error
  | ReservedPrefix string
  | InKey string render_error
  | JobEnvError render_error
  | StepEnvError render_error

abbreviation openMark :: string where
  "openMark \<equiv> ''${{''"

abbreviation closeMark :: string where
  "closeMark \<equiv> ''}}''"

lemma Index_bound: "Index s p = Some i \<Longrightarrow> i + length p \<le> length s"
  using Index_SomeD [of s p i] by (auto dest: arg_cong [of _ _ length])

function walkExpressions :: "('s \<Rightarrow> string \<Rightarrow> string \<Rightarrow> render_error + 's) \<Rightarrow> 's \<Rightarrow> string \<Rightarrow> render_error + 's" where
  "walkExpressions fn st raw = (case Index raw openMark of
     None \<Rightarrow> fn st raw ''''
   | Some start \<Rightarrow> (case Index (drop (start + 3) raw) closeMark of
       None \<Rightarrow> Inl MissingClosing
     | Some n \<Rightarrow> (case fn st (take start raw) (take n (drop (start + 3) raw)) of
         Inl e \<Rightarrow> Inl e
       | Inr st' \<Rightarrow> walkExpressions fn st' (drop (start + 3 + n + 2) raw))))"
  by pat_completeness auto
termination
proof (relation "measure (\<lambda>(_, _, raw). length raw)")
  fix raw :: string and start
  assume "Index raw openMark = Some start"
  then have "start + 3 \<le> length raw" using Index_bound by fastforce
  then show "((fn, st', drop (start + 3 + n + 2) raw), fn, st, raw) \<in> measure (\<lambda>(_, _, raw). length raw)"
    for n and fn :: "'s \<Rightarrow> string \<Rightarrow> string \<Rightarrow> render_error + 's" and st st' by auto
qed simp

declare walkExpressions.simps [simp del]

section \<open>Evaluating a body\<close>

definition zeroContext :: Context where
  "zeroContext = \<lparr>Secrets = Map.empty, Vars = Map.empty, Env = Map.empty, EnvTaint = Map.empty, EnvSensitive = Map.empty,
     Shithub = \<lparr>Event = [], RunID = '''', SHA = '''', GitRef = '''', ActorName = ''''\<rparr>,
     Untrusted = {}, Status = \<lparr>Failed = False, Cancelled = False\<rparr>\<rparr>"

definition eval :: "unicode \<Rightarrow> (float64 \<Rightarrow> string) \<Rightarrow> Context option \<Rightarrow> string \<Rightarrow> render_error + Value" where
  "eval u ff ctx body =
     (let ctx' = (case ctx of None \<Rightarrow> zeroContext\<lparr>Untrusted := DefaultUntrusted\<rparr> | Some c \<Rightarrow> c) in
      case Lex u (TrimSpace body) of Inl e \<Rightarrow> Inl (LexError e) | Inr toks \<Rightarrow>
      (case Parse toks of Inl e \<Rightarrow> Inl (ParseError e) | Inr ast \<Rightarrow>
      (case Eval ff ctx' ast of Inl e \<Rightarrow> Inl (EvalError e) | Inr v \<Rightarrow> Inr v)))"

section \<open>Bindings\<close>

definition defaultBindingPrefix :: string where
  "defaultBindingPrefix = ''SHITHUB_INPUT_''"

record Bindings =
  bindPrefix :: string
  bindNext :: nat
  bindEnv :: "string \<rightharpoonup> string"

definition NewBindings :: "string \<Rightarrow> Bindings" where
  "NewBindings p = \<lparr>bindPrefix = (if TrimSpace p = '''' then defaultBindingPrefix else p), bindNext = 0, bindEnv = Map.empty\<rparr>"

definition bindingName :: "Bindings \<Rightarrow> nat \<Rightarrow> string" where
  "bindingName b n = bindPrefix b @ Itoa (int n)"

definition Add :: "Bindings \<Rightarrow> string \<Rightarrow> string \<times> Bindings" where
  "Add b value = (let name = bindingName b (bindNext b) in
     (name, b\<lparr>bindNext := bindNext b + 1, bindEnv := (bindEnv b)(name \<mapsto> value)\<rparr>))"

definition Bindings_Env :: "Bindings \<Rightarrow> string \<rightharpoonup> string" where
  "Bindings_Env b = bindEnv b"

section \<open>Rendering\<close>

definition shellStep :: "unicode \<Rightarrow> (float64 \<Rightarrow> string) \<Rightarrow> Context option \<Rightarrow> string \<times> Bindings \<Rightarrow> string \<Rightarrow> string
    \<Rightarrow> render_error + string \<times> Bindings" where
  "shellStep u ff ctx st literal body = (case st of (out, b) \<Rightarrow>
     if body = '''' then Inr (out @ literal, b)
     else (case eval u ff ctx body of
       Inl e \<Rightarrow> Inl e
     | Inr v \<Rightarrow> if Tainted v \<or> Sensitive v
               then (case Add b (Value_String v) of (name, b') \<Rightarrow> Inr (out @ literal @ ''${'' @ name @ ''}'', b'))
               else Inr (out @ literal @ Value_String v, b)))"

definition RenderShell :: "unicode \<Rightarrow> (float64 \<Rightarrow> string) \<Rightarrow> string \<Rightarrow> Context option \<Rightarrow> Bindings option
    \<Rightarrow> render_error + string \<times> Bindings" where
  "RenderShell u ff raw ctx bindings =
     walkExpressions (shellStep u ff ctx) ('''', case bindings of None \<Rightarrow> NewBindings '''' | Some b \<Rightarrow> b) raw"

record ResolvedText =
  rText :: string
  rTainted :: bool
  rSensitive :: bool

definition textStep :: "unicode \<Rightarrow> (float64 \<Rightarrow> string) \<Rightarrow> Context option \<Rightarrow> ResolvedText \<Rightarrow> string \<Rightarrow> string
    \<Rightarrow> render_error + ResolvedText" where
  "textStep u ff ctx st literal body =
     (if body = '''' then Inr (st\<lparr>rText := rText st @ literal\<rparr>)
      else (case eval u ff ctx body of
        Inl e \<Rightarrow> Inl e
      | Inr v \<Rightarrow> Inr \<lparr>rText = rText st @ literal @ Value_String v,
                    rTainted = rTainted st \<or> Tainted v, rSensitive = rSensitive st \<or> Sensitive v\<rparr>))"

definition ResolveText :: "unicode \<Rightarrow> (float64 \<Rightarrow> string) \<Rightarrow> string \<Rightarrow> Context option \<Rightarrow> render_error + ResolvedText" where
  "ResolveText u ff raw ctx =
     walkExpressions (textStep u ff ctx) \<lparr>rText = '''', rTainted = False, rSensitive = False\<rparr> raw"

type_synonym env_result = "(string \<rightharpoonup> string) \<times> (string \<rightharpoonup> bool) \<times> (string \<rightharpoonup> bool)"

definition sortedKeys :: "(string \<times> string) list \<Rightarrow> string list" where
  "sortedKeys m = sort (map fst m)"

fun resolveKeys :: "unicode \<Rightarrow> (float64 \<Rightarrow> string) \<Rightarrow> (string \<times> string) list \<Rightarrow> Context \<Rightarrow> string list \<Rightarrow> env_result
    \<Rightarrow> render_error + env_result" where
  "resolveKeys u ff raw ctx [] acc = Inr acc"
| "resolveKeys u ff raw ctx (key # keys) (out, taint, sens) =
     (if HasPrefix key defaultBindingPrefix then Inl (ReservedPrefix key)
      else (case ResolveText u ff (the (map_of raw key)) (Some ctx) of
        Inl e \<Rightarrow> Inl (InKey key e)
      | Inr v \<Rightarrow> resolveKeys u ff raw ctx keys
          (out(key \<mapsto> rText v),
           if rTainted v then taint(key \<mapsto> True) else taint,
           if rSensitive v then sens(key \<mapsto> True) else sens)))"

definition resolveEnv :: "unicode \<Rightarrow> (float64 \<Rightarrow> string) \<Rightarrow> (string \<times> string) list \<Rightarrow> Context \<Rightarrow> render_error + env_result" where
  "resolveEnv u ff raw ctx = resolveKeys u ff raw ctx (sortedKeys raw) (Map.empty, Map.empty, Map.empty)"

definition cloneSet :: "string set \<Rightarrow> string set" where
  "cloneSet s = (if s = {} then DefaultUntrusted else s)"

definition cloneContext :: "Context option \<Rightarrow> Context" where
  "cloneContext ctx = (case ctx of
     None \<Rightarrow> zeroContext\<lparr>Untrusted := DefaultUntrusted\<rparr>
   | Some c \<Rightarrow> c\<lparr>Untrusted := cloneSet (Untrusted c)\<rparr>)"

text \<open>
  Merging visits each key of \<open>env\<close> once and writes only that key, so the order in which Go ranges
  over the map is immaterial: each key is set or deleted pointwise.
\<close>

definition mergeFlags :: "(string \<rightharpoonup> string) \<Rightarrow> (string \<rightharpoonup> bool) \<Rightarrow> (string \<rightharpoonup> bool) \<Rightarrow> string \<rightharpoonup> bool" where
  "mergeFlags env new old k = (if env k = None then old k else if flagged new k then Some True else None)"

definition mergeContextEnv :: "Context \<Rightarrow> env_result \<Rightarrow> Context" where
  "mergeContextEnv ctx r = (case r of (env, taint, sens) \<Rightarrow>
     ctx\<lparr>Env := Env ctx ++ env, EnvTaint := mergeFlags env taint (EnvTaint ctx),
         EnvSensitive := mergeFlags env sens (EnvSensitive ctx)\<rparr>)"

record StepInput =
  stepRun :: string
  JobEnv :: "(string \<times> string) list"
  StepEnv :: "(string \<times> string) list"
  StepContext :: Context

record RenderedStep =
  outRun :: string
  outEnv :: "string \<rightharpoonup> string"
  outTaint :: "string \<rightharpoonup> bool"
  outSensitive :: "string \<rightharpoonup> bool"

definition RenderStep :: "unicode \<Rightarrow> (float64 \<Rightarrow> string) \<Rightarrow> StepInput \<Rightarrow> render_error + RenderedStep" where
  "RenderStep u ff inp = (let ctx = cloneContext (Some (StepContext inp)); bindings = NewBindings '''' in
     case resolveEnv u ff (JobEnv inp) ctx of Inl e \<Rightarrow> Inl (JobEnvError e) | Inr (env, taint, sens) \<Rightarrow>
     (let ctx1 = mergeContextEnv ctx (env, taint, sens) in
     case resolveEnv u ff (StepEnv inp) ctx1 of Inl e \<Rightarrow> Inl (StepEnvError e) | Inr (senv, staint, ssens) \<Rightarrow>
     (let ctx2 = mergeContextEnv ctx1 (senv, staint, ssens) in
     case RenderShell u ff (stepRun inp) (Some ctx2) (Some bindings) of Inl e \<Rightarrow> Inl e | Inr (run, b) \<Rightarrow>
       Inr \<lparr>outRun = run, outEnv = env ++ senv ++ Bindings_Env b,
            outTaint = mergeFlags senv staint taint, outSensitive = mergeFlags senv ssens sens\<rparr>)))"

section \<open>Concurrency groups\<close>

datatype group_error = GroupTooLong | GroupRender render_error | NilWorkflow

definition MaxGroupChars :: nat where
  "MaxGroupChars = 256"

text \<open>\<^verbatim>\<open>utf8.RuneCountInString\<close>: one rune per decoding step, an invalid byte counting as one.\<close>

function RuneCount :: "string \<Rightarrow> nat" where
  "RuneCount s = (if s = [] then 0 else 1 + RuneCount (drop (snd (DecodeRune s)) s))"
  by pat_completeness auto
termination
  by (relation "measure length") (use DecodeRune_width in \<open>auto simp: not_less_eq\<close>)

declare RuneCount.simps [simp del]

definition validateGroup :: "string \<Rightarrow> group_error + string" where
  "validateGroup raw = (let g = TrimSpace raw in
     if g = '''' then Inr '''' else if RuneCount g > MaxGroupChars then Inl GroupTooLong else Inr g)"

record EvalContext =
  EventPayload :: "(string \<times> any) list"
  HeadSHA :: string
  HeadRef :: string

definition groupStep :: "unicode \<Rightarrow> (float64 \<Rightarrow> string) \<Rightarrow> Context \<Rightarrow> string \<Rightarrow> string \<Rightarrow> string \<Rightarrow> render_error + string" where
  "groupStep u ff ctx out literal body =
     (if body = '''' then Inr (out @ literal)
      else (case eval u ff (Some ctx) body of Inl e \<Rightarrow> Inl e | Inr v \<Rightarrow> Inr (out @ literal @ Value_String v)))"

definition groupContext :: "EvalContext \<Rightarrow> Context" where
  "groupContext inp = zeroContext\<lparr>Shithub := (Shithub zeroContext)\<lparr>Event := EventPayload inp, SHA := HeadSHA inp, GitRef := HeadRef inp\<rparr>,
     Untrusted := DefaultUntrusted\<rparr>"

definition ResolveGroup :: "unicode \<Rightarrow> (float64 \<Rightarrow> string) \<Rightarrow> string \<Rightarrow> EvalContext \<Rightarrow> group_error + string" where
  "ResolveGroup u ff raw inp = (case walkExpressions (groupStep u ff (groupContext inp)) '''' raw of
     Inl e \<Rightarrow> Inl (GroupRender e) | Inr out \<Rightarrow> validateGroup out)"

record Concurrency =
  groupRaw :: string
  CancelInProgress :: bool

record Resolution =
  resGroup :: string
  resCancel :: bool

definition Resolve :: "unicode \<Rightarrow> (float64 \<Rightarrow> string) \<Rightarrow> Concurrency option \<Rightarrow> EvalContext \<Rightarrow> group_error + Resolution" where
  "Resolve u ff w inp = (case w of None \<Rightarrow> Inl NilWorkflow | Some c \<Rightarrow>
     (let raw = TrimSpace (groupRaw c) in
      if raw = '''' then Inr \<lparr>resGroup = '''', resCancel = False\<rparr>
      else (case ResolveGroup u ff raw inp of Inl e \<Rightarrow> Inl e | Inr g \<Rightarrow>
        if g = '''' then Inr \<lparr>resGroup = '''', resCancel = False\<rparr>
        else Inr \<lparr>resGroup = g, resCancel = CancelInProgress c\<rparr>)))"

section \<open>Walks in lock step\<close>

text \<open>
  \<open>walk_simulation\<close>: two callbacks, each run in a context of its own, that keep a relation between
  their states whenever both succeed; \<open>walk_refinement\<close> adds that they fail together. Two walks over
  the same text then end in related states.
\<close>

locale walk_simulation =
  fixes f :: "'c \<Rightarrow> 's \<Rightarrow> string \<Rightarrow> string \<Rightarrow> render_error + 's"
    and g :: "'c \<Rightarrow> 't \<Rightarrow> string \<Rightarrow> string \<Rightarrow> render_error + 't"
    and indist :: "'c \<Rightarrow> 'c \<Rightarrow> bool"
    and R :: "'s \<Rightarrow> 't \<Rightarrow> bool"
  assumes step: "indist c d \<Longrightarrow> R s t \<Longrightarrow> f c s l b = Inr s' \<Longrightarrow> g d t l b = Inr t' \<Longrightarrow> R s' t'"
begin

lemma walk_related:
  assumes "indist c d"
  shows "R s t \<Longrightarrow> walkExpressions (f c) s raw = Inr s' \<Longrightarrow> walkExpressions (g d) t raw = Inr t' \<Longrightarrow> R s' t'"
proof (induction raw arbitrary: s t rule: length_induct)
  case (1 raw)
  show ?case
  proof (cases "Index raw openMark")
    case None
    with 1 show ?thesis using step [OF assms] by (simp add: walkExpressions.simps [of _ _ raw])
  next
    case (Some i)
    with 1 obtain n where n: "Index (drop (i + 3) raw) closeMark = Some n"
      by (auto simp: walkExpressions.simps [of _ _ raw] split: option.split_asm)
    let ?rest = "drop (i + 3 + n + 2) raw"
    obtain s1 t1 where st: "f c s (take i raw) (take n (drop (i + 3) raw)) = Inr s1"
        "g d t (take i raw) (take n (drop (i + 3) raw)) = Inr t1"
        "walkExpressions (f c) s1 ?rest = Inr s'" "walkExpressions (g d) t1 ?rest = Inr t'"
      using 1(3,4) Some n by (simp add: walkExpressions.simps [of _ _ raw] split: sum.split_asm)
    have "length ?rest < length raw" using Index_bound [OF Some] by simp
    then show ?thesis using 1(1) step [OF assms 1(2) st(1,2)] st(3,4) by blast
  qed
qed

end

locale walk_refinement = walk_simulation +
  assumes fails: "indist c d \<Longrightarrow> R s t \<Longrightarrow> f c s l b = Inl e \<longleftrightarrow> g d t l b = Inl e"
begin

lemma walk_fails:
  assumes "indist c d"
  shows "R s t \<Longrightarrow> walkExpressions (f c) s raw = Inl e \<longleftrightarrow> walkExpressions (g d) t raw = Inl e"
proof (induction raw arbitrary: s t rule: length_induct)
  case (1 raw)
  show ?case
  proof (cases "Index raw openMark")
    case None
    with fails [OF assms 1(2)] show ?thesis by (simp add: walkExpressions.simps [of _ _ raw])
  next
    case (Some i)
    show ?thesis
    proof (cases "Index (drop (i + 3) raw) closeMark")
      case None
      with Some show ?thesis by (simp add: walkExpressions.simps [of _ _ raw])
    next
      case n: (Some n)
      let ?lit = "take i raw" and ?body = "take n (drop (i + 3) raw)"
      have len: "length (drop (i + 3 + n + 2) raw) < length raw" using Index_bound [OF Some] by simp
      have agree: "f c s ?lit ?body = Inl x \<longleftrightarrow> g d t ?lit ?body = Inl x" for x by (rule fails [OF assms 1(2)])
      show ?thesis
      proof (cases "f c s ?lit ?body")
        case (Inl x)
        with agree have "g d t ?lit ?body = Inl x" by blast
        with Inl Some n show ?thesis by (simp add: walkExpressions.simps [of _ _ raw])
      next
        case (Inr s1)
        with agree obtain t1 where t1: "g d t ?lit ?body = Inr t1" by (cases "g d t ?lit ?body") auto
        from step [OF assms 1(2) Inr t1] len 1(1)
        have "walkExpressions (f c) s1 (drop (i + 3 + n + 2) raw) = Inl e
              \<longleftrightarrow> walkExpressions (g d) t1 (drop (i + 3 + n + 2) raw) = Inl e" by blast
        with Inr t1 Some n show ?thesis by (simp add: walkExpressions.simps [of _ _ raw])
      qed
    qed
  qed
qed

lemma walk_refines:
  assumes "indist c d" "R s t" "walkExpressions (f c) s raw = Inr s'"
  shows "\<exists>t'. walkExpressions (g d) t raw = Inr t' \<and> R s' t'"
  using walk_fails [OF assms(1,2), of raw] walk_related [OF assms] assms(3)
  by (cases "walkExpressions (g d) t raw") auto

end

section \<open>Shell text and plain text\<close>

text \<open>
  What the shell makes of the rendered text: pieces that are literal and references \<^verbatim>\<open>${NAME}\<close> to
  bindings. Replacing each reference by the bound value gives the plain resolution of the text.
\<close>

datatype piece = Plain string | VarRef string

fun shown :: "piece \<Rightarrow> string" where
  "shown (Plain s) = s"
| "shown (VarRef n) = ''${'' @ n @ ''}''"

fun expanded :: "(string \<rightharpoonup> string) \<Rightarrow> piece \<Rightarrow> string" where
  "expanded env (Plain s) = s"
| "expanded env (VarRef n) = the (env n)"

fun refs :: "piece list \<Rightarrow> string list" where
  "refs [] = []"
| "refs (Plain s # ps) = refs ps"
| "refs (VarRef n # ps) = n # refs ps"

lemma refs_append [simp]: "refs (ps @ qs) = refs ps @ refs qs"
  by (induction ps rule: refs.induct) auto

lemma expanded_cong: "(\<And>n. n \<in> set (refs ps) \<Longrightarrow> env n = env' n) \<Longrightarrow> map (expanded env) ps = map (expanded env') ps"
  by (induction ps rule: refs.induct) auto

definition allocated :: "Bindings \<Rightarrow> bool" where
  "allocated b \<longleftrightarrow> dom (bindEnv b) = bindingName b ` {..<bindNext b}"

definition shellMatches :: "string \<Rightarrow> string \<times> Bindings \<Rightarrow> string \<Rightarrow> bool" where
  "shellMatches p st text \<longleftrightarrow> (case st of (out, b) \<Rightarrow> bindPrefix b = p \<and> allocated b \<and>
     (\<exists>ps. out = concat (map shown ps) \<and> text = concat (map (expanded (bindEnv b)) ps) \<and>
        refs ps = map (bindingName b) [0..<bindNext b]))"

lemma bindingName_inj [simp]: "bindingName b m = bindingName b n \<longleftrightarrow> m = n"
  by (simp add: bindingName_def Itoa_def)

lemma Add_name [simp]: "fst (Add b v) = bindingName b (bindNext b)"
  and Add_env [simp]: "bindEnv (snd (Add b v)) = (bindEnv b)(bindingName b (bindNext b) \<mapsto> v)"
  and Add_next [simp]: "bindNext (snd (Add b v)) = bindNext b + 1"
  and Add_prefix [simp]: "bindPrefix (snd (Add b v)) = bindPrefix b"
  by (simp_all add: Add_def Let_def)

lemma bindingName_Add [simp]: "bindingName (snd (Add b v)) = bindingName b"
  by (simp add: bindingName_def fun_eq_iff)

lemma allocated_Add: "allocated b \<Longrightarrow> allocated (snd (Add b v))"
  by (auto simp: allocated_def lessThan_Suc)

lemma shellMatches_plain:
  assumes "shellMatches p (out, b) t"
  shows "shellMatches p (out @ s, b) (t @ s)"
proof -
  obtain ps where "out = concat (map shown ps)" "t = concat (map (expanded (bindEnv b)) ps)"
    "refs ps = map (bindingName b) [0..<bindNext b]" "allocated b" "bindPrefix b = p"
    using assms by (auto simp: shellMatches_def)
  then show ?thesis by (auto simp: shellMatches_def intro!: exI [of _ "ps @ [Plain s]"])
qed

lemma shellMatches_bind:
  assumes "shellMatches p (out, b) t" "Add b v = (name, b')"
  shows "shellMatches p (out @ ''${'' @ name @ ''}'', b') (t @ v)"
proof -
  let ?n = "bindingName b (bindNext b)"
  obtain ps where ps: "out = concat (map shown ps)" "t = concat (map (expanded (bindEnv b)) ps)"
    "refs ps = map (bindingName b) [0..<bindNext b]" and al: "allocated b" "bindPrefix b = p"
    using assms by (auto simp: shellMatches_def)
  have nb: "name = ?n" "b' = snd (Add b v)" using assms(2) Add_name [of b v] by simp_all
  have "map (expanded ((bindEnv b)(?n \<mapsto> v))) ps = map (expanded (bindEnv b)) ps"
    by (rule expanded_cong) (auto simp: ps(3))
  then have "concat (map (expanded ((bindEnv b)(?n \<mapsto> v))) ps) = t" by (simp only: ps(2))
  then show ?thesis using ps al(2) allocated_Add [OF al(1)] unfolding nb
    by (auto simp: shellMatches_def simp del: map_eq_conv intro!: exI [of _ "ps @ [VarRef ?n]"])
qed

interpretation plaintext: walk_refinement "shellStep u ff" "textStep u ff" "(=)" "\<lambda>st t. shellMatches p st (rText t)" for u ff p
proof
  fix c d :: "Context option" and s t l body s' t'
  assume cd: "c = d" and m: "shellMatches p s (rText t)"
    and s': "shellStep u ff c s l body = Inr s'" and t': "textStep u ff d t l body = Inr t'"
  obtain out b where s: "s = (out, b)" by (cases s)
  have lit: "shellMatches p (out @ l, b) (rText t @ l)" using m by (simp add: s shellMatches_plain)
  show "shellMatches p s' (rText t')"
  proof (cases "body = ''''")
    case True
    with s' t' lit show ?thesis by (auto simp: shellStep_def textStep_def s)
  next
    case False
    then obtain v where v: "eval u ff c body = Inr v" using s' by (auto simp: shellStep_def s split: sum.split_asm)
    show ?thesis
      using False v s' t' cd shellMatches_bind [OF lit] shellMatches_plain [OF lit, of "Value_String v"]
      by (auto simp: shellStep_def textStep_def s split: if_split_asm prod.split_asm)
  qed
qed (auto simp: shellStep_def textStep_def split: sum.split prod.split)

section \<open>Runs in indistinguishable contexts\<close>

lemma sameUpToUntrusted_sym: "sameUpToUntrusted c d \<Longrightarrow> sameUpToUntrusted d c"
  by (auto simp: sameUpToUntrusted_def publicEq_def envAgree_def)

abbreviation labelled :: "Value \<Rightarrow> bool" where
  "labelled v \<equiv> Tainted v \<or> Sensitive v"

lemma eval_flow:
  assumes "sameUpToUntrusted c d" "eval u ff (Some c) body = Inr v" "eval u ff (Some d) body = Inr w"
  shows "labelled w = labelled v" and "\<not> labelled v \<Longrightarrow> w = v"
proof -
  obtain e where e: "Eval ff c e = Inr v" "Eval ff d e = Inr w"
    using assms(2,3) by (auto simp: eval_def Let_def split: sum.split_asm)
  note cd = boundary.noninterference [OF assms(1) e(1)]
    and dc = boundary.noninterference [OF sameUpToUntrusted_sym [OF assms(1)] e(2)]
  show eq: "w = v" if "\<not> labelled v" using cd [OF that] e(2) by simp
  have "w = v" if "\<not> labelled w" using dc [OF that] e(1) by simp
  with eq show "labelled w = labelled v" by metis
qed

definition sameShell :: "string \<times> Bindings \<Rightarrow> string \<times> Bindings \<Rightarrow> bool" where
  "sameShell s t \<longleftrightarrow> fst s = fst t \<and> bindPrefix (snd s) = bindPrefix (snd t) \<and> bindNext (snd s) = bindNext (snd t)
     \<and> dom (bindEnv (snd s)) = dom (bindEnv (snd t))"

lemma sameShell_Add:
  assumes "sameShell (out, b) (out', b')" "Add b v = (n, b1)" "Add b' v' = (n', b1')"
  shows "n = n' \<and> sameShell (x, b1) (x, b1')"
  using assms unfolding sameShell_def Add_def Let_def bindingName_def by (elim conjE Pair_inject, hypsubst) simp

interpretation shellRuns: walk_simulation "\<lambda>c. shellStep u ff (Some c)" "\<lambda>c. shellStep u ff (Some c)"
    sameUpToUntrusted sameShell for u ff
proof
  fix c d s t l body s' t'
  assume cd: "sameUpToUntrusted c d" and m: "sameShell s t"
    and s': "shellStep u ff (Some c) s l body = Inr s'" and t': "shellStep u ff (Some d) t l body = Inr t'"
  obtain out b b' where st: "s = (out, b)" "t = (out, b')" using m by (cases s; cases t) (simp add: sameShell_def)
  show "sameShell s' t'"
  proof (cases "body = ''''")
    case True
    with s' t' m have "s' = (out @ l, b)" "t' = (out @ l, b')" by (simp_all add: shellStep_def st)
    then show ?thesis using m by (simp add: st sameShell_def)
  next
    case False
    then obtain v w where v: "eval u ff (Some c) body = Inr v" "eval u ff (Some d) body = Inr w"
      using s' t' by (auto simp: shellStep_def st split: sum.split_asm)
    note flow = eval_flow [OF cd v]
    show ?thesis
    proof (cases "labelled v")
      case True
      obtain n b1 n' b1' where add: "Add b (Value_String v) = (n, b1)" "Add b' (Value_String w) = (n', b1')"
        by (cases "Add b (Value_String v)"; cases "Add b' (Value_String w)")
      have "s' = (out @ l @ ''${'' @ n @ ''}'', b1)" "t' = (out @ l @ ''${'' @ n' @ ''}'', b1')"
        using s' t' False v flow(1) True add by (auto simp: shellStep_def st)
      then show ?thesis using sameShell_Add [OF m [unfolded st] add] by simp
    next
      case False
      then have "s' = (out @ l @ Value_String v, b)" "t' = (out @ l @ Value_String v, b')"
        using s' t' v flow \<open>body \<noteq> ''''\<close> by (simp_all add: shellStep_def st)
      then show ?thesis using m by (simp add: st sameShell_def)
    qed
  qed
qed

abbreviation textMark :: "ResolvedText \<Rightarrow> bool" where
  "textMark t \<equiv> rTainted t \<or> rSensitive t"

definition sameText :: "ResolvedText \<Rightarrow> ResolvedText \<Rightarrow> bool" where
  "sameText s t \<longleftrightarrow> textMark s = textMark t \<and> (\<not> textMark s \<longrightarrow> rText s = rText t)"

interpretation textRuns: walk_simulation "\<lambda>c. textStep u ff (Some c)" "\<lambda>c. textStep u ff (Some c)"
    sameUpToUntrusted sameText for u ff
proof
  fix c d s t l body s' t'
  assume cd: "sameUpToUntrusted c d" and m: "sameText s t"
    and s': "textStep u ff (Some c) s l body = Inr s'" and t': "textStep u ff (Some d) t l body = Inr t'"
  show "sameText s' t'"
  proof (cases "body = ''''")
    case True
    with s' t' have "s' = s\<lparr>rText := rText s @ l\<rparr>" "t' = t\<lparr>rText := rText t @ l\<rparr>" by (simp_all add: textStep_def)
    with m show ?thesis by (auto simp: sameText_def)
  next
    case False
    then obtain v w where v: "eval u ff (Some c) body = Inr v" "eval u ff (Some d) body = Inr w"
      using s' t' by (auto simp: textStep_def split: sum.split_asm)
    have "textMark s' = (textMark s \<or> labelled v)" "rText s' = rText s @ l @ Value_String v"
      "textMark t' = (textMark t \<or> labelled w)" "rText t' = rText t @ l @ Value_String w"
      using s' t' False v by (auto simp: textStep_def)
    then show ?thesis using m eval_flow [OF cd v] unfolding sameText_def by metis
  qed
qed

lemma ResolveText_flow:
  assumes "sameUpToUntrusted c d" "ResolveText u ff raw (Some c) = Inr s" "ResolveText u ff raw (Some d) = Inr t"
  shows "sameText s t"
  using assms textRuns.walk_related [OF assms(1)] unfolding ResolveText_def by (metis sameText_def)

abbreviation envMark :: "env_result \<Rightarrow> string \<Rightarrow> bool" where
  "envMark r k \<equiv> flagged (fst (snd r)) k \<or> flagged (snd (snd r)) k"

definition sameEnv :: "env_result \<Rightarrow> env_result \<Rightarrow> bool" where
  "sameEnv r s \<longleftrightarrow> dom (fst r) = dom (fst s) \<and> (\<forall>k. envMark r k = envMark s k \<and> (\<not> envMark r k \<longrightarrow> fst r k = fst s k))"

text \<open>One key of \<open>resolveEnv\<close>; the keys are distinct, so the key is not marked yet.\<close>

definition putKey :: "string \<Rightarrow> ResolvedText \<Rightarrow> env_result \<Rightarrow> env_result" where
  "putKey key v r = (case r of (out, taint, sens) \<Rightarrow>
     (out(key \<mapsto> rText v), if rTainted v then taint(key \<mapsto> True) else taint, if rSensitive v then sens(key \<mapsto> True) else sens))"

lemma putKey_simps:
  "fst (putKey key v r) = (fst r)(key \<mapsto> rText v)"
  "envMark (putKey key v r) k = (if k = key then textMark v \<or> envMark r key else envMark r k)"
  by (auto simp: putKey_def flagged_def split: prod.split)

lemma resolveKeys_Cons:
  assumes "resolveKeys u ff raw ctx (key # keys) r = Inr r'"
  obtains v where "\<not> HasPrefix key defaultBindingPrefix" "ResolveText u ff (the (map_of raw key)) (Some ctx) = Inr v"
    "resolveKeys u ff raw ctx keys (putKey key v r) = Inr r'"
  using assms by (cases r) (auto simp: putKey_def split: if_split_asm sum.split_asm)

lemma resolveKeys_flow:
  assumes "sameUpToUntrusted c d"
  shows "sameEnv r s \<Longrightarrow> resolveKeys u ff raw c keys r = Inr r' \<Longrightarrow> resolveKeys u ff raw d keys s = Inr s' \<Longrightarrow> sameEnv r' s'"
proof (induction keys arbitrary: r s)
  case (Cons key keys)
  obtain v w where v: "ResolveText u ff (the (map_of raw key)) (Some c) = Inr v"
      "resolveKeys u ff raw c keys (putKey key v r) = Inr r'"
    and w: "ResolveText u ff (the (map_of raw key)) (Some d) = Inr w"
      "resolveKeys u ff raw d keys (putKey key w s) = Inr s'"
    using resolveKeys_Cons [OF Cons.prems(2)] resolveKeys_Cons [OF Cons.prems(3)] by metis
  have "sameText v w" by (rule ResolveText_flow [OF assms v(1) w(1)])
  then have "sameEnv (putKey key v r) (putKey key w s)"
    using Cons.prems(1) unfolding sameEnv_def putKey_simps sameText_def by auto
  then show ?case using Cons.IH v(2) w(2) by blast
qed simp

lemma resolveEnv_flow:
  assumes "sameUpToUntrusted c d" "resolveEnv u ff raw c = Inr r" "resolveEnv u ff raw d = Inr s"
  shows "sameEnv r s"
  by (rule resolveKeys_flow [OF assms(1) _ assms(2,3) [unfolded resolveEnv_def]]) (simp add: sameEnv_def)

lemma anyMark_merge: "anyMark (mergeContextEnv c r) k = (if fst r k = None then anyMark c k else envMark r k)"
  by (cases r) (auto simp: anyMark_def taintMark_def secretMark_def mergeContextEnv_def mergeFlags_def flagged_def)

lemma Env_merge [simp]: "Env (mergeContextEnv c r) = Env c ++ fst r"
  by (cases r) (simp add: mergeContextEnv_def)

lemma publicEq_merge [simp]: "publicEq (mergeContextEnv c r) (mergeContextEnv d s) = publicEq c d"
  and Untrusted_merge [simp]: "Untrusted (mergeContextEnv c r) = Untrusted c"
  by (cases r; cases s; simp add: mergeContextEnv_def publicEq_def)+

lemma merge_flow:
  assumes "sameUpToUntrusted c d" "sameEnv r s"
  shows "sameUpToUntrusted (mergeContextEnv c r) (mergeContextEnv d s)"
proof -
  have none: "fst r k = None \<longleftrightarrow> fst s k = None" for k using assms(2) unfolding sameEnv_def by (metis domIff)
  have old: "anyMark d k = anyMark c k" "\<not> anyMark c k \<Longrightarrow> Env d k = Env c k" for k
    using assms(1) by (simp_all add: sameUpToUntrusted_def envAgree_def)
  have new: "envMark r k = envMark s k" "\<not> envMark r k \<Longrightarrow> fst r k = fst s k" for k
    using assms(2) unfolding sameEnv_def by blast+
  have "dom (Env d ++ fst s) = dom (Env c ++ fst r)"
    using assms by (simp add: sameUpToUntrusted_def envAgree_def sameEnv_def)
  moreover have "anyMark (mergeContextEnv d s) k = anyMark (mergeContextEnv c r) k" for k
    unfolding anyMark_merge none by (simp only: old(1) new(1))
  moreover have "(Env d ++ fst s) k = (Env c ++ fst r) k" if "\<not> anyMark (mergeContextEnv c r) k" for k
    using that none [of k] old(2) [of k] new(2) [of k]
    by (cases "fst r k") (auto simp: anyMark_merge map_add_def)
  ultimately show ?thesis using assms(1)
    by (simp add: sameUpToUntrusted_def envAgree_def del: dom_map_add)
qed

lemma clone_flow:
  assumes "publicEq c d" "Untrusted c = {} \<or> ''shithub.event'' \<in> Untrusted c" "envAgree anyMark c d"
  shows "sameUpToUntrusted (cloneContext (Some c)) (cloneContext (Some d))"
  using assms
  by (auto simp: sameUpToUntrusted_def publicEq_def envAgree_def anyMark_def taintMark_def secretMark_def cloneContext_def
      cloneSet_def DefaultUntrusted_def)


lemma resolveKeys_dom:
  "resolveKeys u ff raw c keys r = Inr r' \<Longrightarrow>
     dom (fst r') = dom (fst r) \<union> set keys \<and> (\<forall>k \<in> set keys. \<not> HasPrefix k defaultBindingPrefix)"
proof (induction keys arbitrary: r)
  case (Cons key keys)
  obtain v where v: "\<not> HasPrefix key defaultBindingPrefix" "resolveKeys u ff raw c keys (putKey key v r) = Inr r'"
    using resolveKeys_Cons [OF Cons.prems] by blast
  show ?case using Cons.IH [OF v(2)] v(1) by (auto simp: putKey_simps)
qed simp

lemma resolveEnv_dom:
  assumes "resolveEnv u ff raw c = Inr r"
  shows "dom (fst r) = fst ` set raw" "k \<in> dom (fst r) \<Longrightarrow> \<not> HasPrefix k defaultBindingPrefix"
  using resolveKeys_dom [OF assms [unfolded resolveEnv_def]] by (auto simp: sortedKeys_def)

lemma RenderStep_stages:
  assumes "RenderStep u ff inp = Inr r"
  obtains j s b where
    "resolveEnv u ff (JobEnv inp) (cloneContext (Some (StepContext inp))) = Inr j"
    "resolveEnv u ff (StepEnv inp) (mergeContextEnv (cloneContext (Some (StepContext inp))) j) = Inr s"
    "RenderShell u ff (stepRun inp) (Some (mergeContextEnv (mergeContextEnv (cloneContext (Some (StepContext inp))) j) s))
        (Some (NewBindings '''')) = Inr (outRun r, b)"
    "outEnv r = fst j ++ fst s ++ bindEnv b"
    "\<forall>k. (flagged (outTaint r) k \<or> flagged (outSensitive r) k) = (if fst s k = None then envMark j k else envMark s k)"
  using assms
  by (auto simp: RenderStep_def Let_def Bindings_Env_def mergeFlags_def flagged_def split: sum.split_asm prod.split_asm)

lemma RenderShell_bindings:
  assumes "RenderShell u ff raw ctx (Some (NewBindings '''')) = Inr (run, b)"
  obtains t ps where "ResolveText u ff raw ctx = Inr t" "run = concat (map shown ps)"
    "rText t = concat (map (expanded (bindEnv b)) ps)" "set (refs ps) = dom (bindEnv b)" "distinct (refs ps)"
    "\<And>n. n \<in> dom (bindEnv b) \<Longrightarrow> HasPrefix n defaultBindingPrefix"
proof -
  let ?t0 = "\<lparr>rText = '''', rTainted = False, rSensitive = False\<rparr>"
  have init: "shellMatches defaultBindingPrefix ('''', NewBindings '''') (rText ?t0)"
    by (auto simp: shellMatches_def NewBindings_def allocated_def intro!: exI [of _ "[]"])
  have walk: "walkExpressions (shellStep u ff ctx) ('''', NewBindings '''') raw = Inr (run, b)"
    using assms by (simp add: RenderShell_def)
  obtain t where t: "walkExpressions (textStep u ff ctx) ?t0 raw = Inr t" "shellMatches defaultBindingPrefix (run, b) (rText t)"
    using plaintext.walk_refines [OF refl init walk] by blast
  then obtain ps where ps: "run = concat (map shown ps)" "rText t = concat (map (expanded (bindEnv b)) ps)"
      "refs ps = map (bindingName b) [0..<bindNext b]" and b: "allocated b" "bindPrefix b = defaultBindingPrefix"
    by (auto simp: shellMatches_def)
  show thesis
  proof (rule that)
    show "ResolveText u ff raw ctx = Inr t" using t(1) by (simp add: ResolveText_def)
    show "set (refs ps) = dom (bindEnv b)" "distinct (refs ps)" using b ps(3)
      by (simp_all add: allocated_def lessThan_atLeast0 distinct_map inj_on_def)
    show "HasPrefix n defaultBindingPrefix" if "n \<in> dom (bindEnv b)" for n
      using that b by (auto simp: allocated_def bindingName_def)
  qed (rule ps)+
qed

section \<open>Properties of rendering\<close>

text \<open>
  C3. The shell text of a rendered step is independent of every secret and of the event payload.
  Two renderings of the same step, in contexts that differ only in secrets, in the event payload
  and in environment values marked tainted or sensitive, have the same script, the same
  environment variable names, and the same values for every variable that is neither marked nor a
  runner binding.
\<close>

theorem rendered_script_is_isolated:
  assumes "RenderStep u ff inp = Inr r" "RenderStep u ff (inp\<lparr>StepContext := d\<rparr>) = Inr r'"
    and "publicEq (StepContext inp) d" "envAgree anyMark (StepContext inp) d"
    and "Untrusted (StepContext inp) = {} \<or> ''shithub.event'' \<in> Untrusted (StepContext inp)"
  shows "outRun r' = outRun r \<and> dom (outEnv r') = dom (outEnv r) \<and>
    (\<forall>k. \<not> flagged (outTaint r) k \<and> \<not> flagged (outSensitive r) k \<and> \<not> HasPrefix k defaultBindingPrefix
        \<longrightarrow> outEnv r' k = outEnv r k)"
proof -
  let ?c0 = "cloneContext (Some (StepContext inp))" and ?d0 = "cloneContext (Some d)"
  obtain j s b where 1: "resolveEnv u ff (JobEnv inp) ?c0 = Inr j"
      "resolveEnv u ff (StepEnv inp) (mergeContextEnv ?c0 j) = Inr s"
      "RenderShell u ff (stepRun inp) (Some (mergeContextEnv (mergeContextEnv ?c0 j) s)) (Some (NewBindings '''')) = Inr (outRun r, b)"
      "outEnv r = fst j ++ fst s ++ bindEnv b"
      and m: "\<forall>k. (flagged (outTaint r) k \<or> flagged (outSensitive r) k) = (if fst s k = None then envMark j k else envMark s k)"
    by (rule RenderStep_stages [OF assms(1)])
  have flds: "JobEnv (inp\<lparr>StepContext := d\<rparr>) = JobEnv inp" "StepEnv (inp\<lparr>StepContext := d\<rparr>) = StepEnv inp"
    "stepRun (inp\<lparr>StepContext := d\<rparr>) = stepRun inp" "StepContext (inp\<lparr>StepContext := d\<rparr>) = d" by simp_all
  obtain j' s' b' where 2: "resolveEnv u ff (JobEnv inp) ?d0 = Inr j'"
      "resolveEnv u ff (StepEnv inp) (mergeContextEnv ?d0 j') = Inr s'"
      "RenderShell u ff (stepRun inp) (Some (mergeContextEnv (mergeContextEnv ?d0 j') s')) (Some (NewBindings '''')) = Inr (outRun r', b')"
      "outEnv r' = fst j' ++ fst s' ++ bindEnv b'"
    by (rule RenderStep_stages [OF assms(2), unfolded flds])
  note cd0 = clone_flow [OF assms(3,5,4)]
  note j = resolveEnv_flow [OF cd0 1(1) 2(1)]
  note cd1 = merge_flow [OF cd0 j]
  note s = resolveEnv_flow [OF cd1 1(2) 2(2)]
  note cd2 = merge_flow [OF cd1 s]
  have "sameShell (outRun r, b) (outRun r', b')"
    using shellRuns.walk_related [OF cd2 _ 1(3) [unfolded RenderShell_def] 2(3) [unfolded RenderShell_def]]
    by (simp add: sameShell_def)
  then have shell: "outRun r' = outRun r" "dom (bindEnv b') = dom (bindEnv b)" by (simp_all add: sameShell_def)
  have doms: "dom (fst j') = dom (fst j)" "dom (fst s') = dom (fst s)" using j s by (simp_all add: sameEnv_def)
  have "outEnv r' k = outEnv r k"
    if k: "\<not> (flagged (outTaint r) k \<or> flagged (outSensitive r) k)" "\<not> HasPrefix k defaultBindingPrefix" for k
  proof -
    have b: "bindEnv b k = None" using RenderShell_bindings [OF 1(3)] k(2) by (metis domIff)
    moreover have "bindEnv b' k = None" using b shell(2) by (metis domIff)
    moreover have "fst s' k = fst s k \<and> (fst s k = None \<longrightarrow> fst j' k = fst j k)"
      using k(1) j s doms(2) unfolding m [rule_format] sameEnv_def by (metis domIff)
    ultimately show ?thesis unfolding 1(4) 2(4) by (simp add: map_add_def split: option.split)
  qed
  moreover have "dom (outEnv r') = dom (outEnv r)" unfolding 1(4) 2(4) by (simp add: doms shell(2))
  ultimately show ?thesis using shell(1) by blast
qed

definition demo_step :: "string \<Rightarrow> StepInput" where
  "demo_step secret = \<lparr>stepRun = ''a ${{env.X}}'', JobEnv = [], StepEnv = [(''X'', ''${{env.E}}'')], StepContext = demo_ctx secret ''t''\<rparr>"

definition demo_out :: "string \<Rightarrow> RenderedStep" where
  "demo_out secret = \<lparr>outRun = ''a ${SHITHUB_INPUT_0}'', outEnv = [''X'' \<mapsto> secret, ''SHITHUB_INPUT_0'' \<mapsto> secret],
     outTaint = Map.empty, outSensitive = [''X'' \<mapsto> True]\<rparr>"

lemma lex_env: "Lex ascii_only ''env.X'' = Inr [Token TokIdent ''env'' 0, Token TokDot ''.'' 3, Token TokIdent ''X'' 4, Token TokEOF '''' 5]"
    "Lex ascii_only ''env.E'' = Inr [Token TokIdent ''env'' 0, Token TokDot ''.'' 3, Token TokIdent ''E'' 4, Token TokEOF '''' 5]"
  by (simp_all add: Lex_def LexFrom.simps lexStep_def lexIdent_def lexIdentLen.simps RuneError_def
      isIdentStart_def isIdentChar_def IsLetter_def IsDigit_def ascii_only_def)

lemma parse_env: "Parse [Token TokIdent a 0, Token TokDot ''.'' 3, Token TokIdent b 4, Token TokEOF '''' 5] = Inr (Ref [a, b])"
  by (simp add: Parse_def parse_simps)

lemma trim_env: "TrimSpace ''env.X'' = ''env.X''" "TrimSpace ''env.E'' = ''env.E''"
  by (simp_all add: TrimSpace_id graphic_def)

lemma eval_env: "eval ascii_only ff (Some c) ''env.X'' = (case evalRef ff c [''env'', ''X''] of Inl e \<Rightarrow> Inl (EvalError e) | Inr v \<Rightarrow> Inr v)"
  "eval ascii_only ff (Some c) ''env.E'' = (case evalRef ff c [''env'', ''E''] of Inl e \<Rightarrow> Inl (EvalError e) | Inr v \<Rightarrow> Inr v)"
  by (simp_all add: eval_def trim_env lex_env parse_env)

lemma walk_demo:
  "walkExpressions fn st ''${{env.E}}'' = (case fn st '''' ''env.E'' of Inl e \<Rightarrow> Inl e | Inr st' \<Rightarrow> fn st' '''' '''')"
  "walkExpressions fn st ''a ${{env.X}}'' = (case fn st ''a '' ''env.X'' of Inl e \<Rightarrow> Inl e | Inr st' \<Rightarrow> fn st' '''' '''')"
  by (simp_all add: walkExpressions.simps cong: sum.case_cong)

lemma demo_stepEnv:
  assumes "Env c ''E'' = Some x" "taintMark c ''E'' = False" "secretMark c ''E'' = True"
  shows "resolveEnv ascii_only ff [(''X'', ''${{env.E}}'')] c = Inr ([''X'' \<mapsto> x], Map.empty, [''X'' \<mapsto> True])"
  using assms
  by (simp add: resolveEnv_def sortedKeys_def ResolveText_def walk_demo textStep_def eval_env evalRef_env canonicalPath_def
      defaultBindingPrefix_def zeroValue_def Value_String_def)

lemma demo_rendered: "RenderStep ascii_only ff (demo_step x) = Inr (demo_out x)"
proof -
  let ?c = "cloneContext (Some (demo_ctx x ''t''))"
  let ?c1 = "mergeContextEnv ?c (Map.empty, Map.empty, Map.empty)"
  let ?c2 = "mergeContextEnv ?c1 ([''X'' \<mapsto> x], Map.empty, [''X'' \<mapsto> True])"
  have E: "Env ?c1 ''E'' = Some x" "taintMark ?c1 ''E'' = False" "secretMark ?c1 ''E'' = True"
    by (simp_all add: cloneContext_def demo_ctx_def taintMark_def secretMark_def mergeContextEnv_def mergeFlags_def flagged_def)
  have X: "Env ?c2 ''X'' = Some x" "taintMark ?c2 ''X'' = False" "secretMark ?c2 ''X'' = True"
    by (simp_all add: taintMark_def secretMark_def mergeContextEnv_def mergeFlags_def flagged_def)
  have job: "resolveEnv ascii_only ff [] ?c = Inr (Map.empty, Map.empty, Map.empty)"
    by (simp add: resolveEnv_def sortedKeys_def)
  have zero: "Itoa 0 = ''0''" by code_simp
  have shell: "RenderShell ascii_only ff ''a ${{env.X}}'' (Some ?c2) (Some (NewBindings ''''))
      = Inr (''a ${SHITHUB_INPUT_0}'', \<lparr>bindPrefix = defaultBindingPrefix, bindNext = 1, bindEnv = [''SHITHUB_INPUT_0'' \<mapsto> x]\<rparr>)"
    using X by (simp add: RenderShell_def walk_demo shellStep_def eval_env evalRef_env canonicalPath_def zeroValue_def
        Value_String_def Add_def NewBindings_def bindingName_def zero Let_def defaultBindingPrefix_def)
  show ?thesis
    using demo_stepEnv [OF E] job shell
    by (auto simp: RenderStep_def demo_step_def demo_out_def Bindings_Env_def mergeFlags_def flagged_def fun_eq_iff)
qed

theorem rendered_script_is_isolated_witness:
  "outRun (demo_out ''hunter2'') = outRun (demo_out ''x'')"
proof -
  have inp: "(demo_step ''x'')\<lparr>StepContext := demo_ctx ''hunter2'' ''t''\<rparr> = demo_step ''hunter2''" by (simp add: demo_step_def)
  show ?thesis
    by (rule rendered_script_is_isolated [THEN conjunct1,
          OF demo_rendered [of _ "''x''"] demo_rendered [of _ "''hunter2''", folded inp]])
       (auto simp: demo_step_def demo_ctx_def publicEq_def envAgree_def anyMark_def secretMark_def taintMark_def flagged_def
          DefaultUntrusted_def)
qed


text \<open>
  C18. What the shell sees is what was written: the rendered script is a sequence of literal
  pieces and \<^verbatim>\<open>${NAME}\<close> references; each name is bound in the step's environment, carries the
  reserved prefix, is used once, and is no variable of the job or the step; and substituting the
  bound values gives exactly the plain resolution of the script in the step's final context.
\<close>

theorem rendered_script_expands_to_resolved_text:
  assumes "RenderStep u ff inp = Inr r"
    and "resolveEnv u ff (JobEnv inp) (cloneContext (Some (StepContext inp))) = Inr j"
    and "resolveEnv u ff (StepEnv inp) (mergeContextEnv (cloneContext (Some (StepContext inp))) j) = Inr s"
  shows "\<exists>ps t. outRun r = concat (map shown ps) \<and> distinct (refs ps) \<and>
    (\<forall>n \<in> set (refs ps). HasPrefix n defaultBindingPrefix \<and> n \<in> dom (outEnv r) \<and>
        n \<notin> fst ` set (JobEnv inp) \<union> fst ` set (StepEnv inp)) \<and>
    ResolveText u ff (stepRun inp) (Some (mergeContextEnv (mergeContextEnv (cloneContext (Some (StepContext inp))) j) s)) = Inr t \<and>
    rText t = concat (map (expanded (outEnv r)) ps)"
proof -
  let ?c = "mergeContextEnv (mergeContextEnv (cloneContext (Some (StepContext inp))) j) s"
  obtain b where b: "RenderShell u ff (stepRun inp) (Some ?c) (Some (NewBindings '''')) = Inr (outRun r, b)"
    and env: "outEnv r = fst j ++ fst s ++ bindEnv b"
    using RenderStep_stages [OF assms(1)] assms(2,3) by (metis sum.inject(2))
  obtain t ps where ps: "ResolveText u ff (stepRun inp) (Some ?c) = Inr t" "outRun r = concat (map shown ps)"
      "rText t = concat (map (expanded (bindEnv b)) ps)" "set (refs ps) = dom (bindEnv b)" "distinct (refs ps)"
    and pre: "\<forall>n \<in> dom (bindEnv b). HasPrefix n defaultBindingPrefix"
    using RenderShell_bindings [OF b] by metis
  have "map (expanded (bindEnv b)) ps = map (expanded (outEnv r)) ps"
    by (rule expanded_cong) (auto simp: env ps(4) map_add_dom_app_simps)
  then have "rText t = concat (map (expanded (outEnv r)) ps)" by (simp only: ps(3))
  moreover have "n \<notin> fst ` set (JobEnv inp) \<union> fst ` set (StepEnv inp)" if "HasPrefix n defaultBindingPrefix" for n
    using resolveEnv_dom [OF assms(2)] resolveEnv_dom [OF assms(3)] that by blast
  moreover have "dom (bindEnv b) \<subseteq> dom (outEnv r)" by (auto simp: env)
  ultimately show ?thesis using ps pre by (metis subsetD)
qed

lemma demo_envs:
  "resolveEnv ascii_only ff (JobEnv (demo_step x)) (cloneContext (Some (StepContext (demo_step x)))) = Inr (Map.empty, Map.empty, Map.empty)"
  "resolveEnv ascii_only ff (StepEnv (demo_step x))
     (mergeContextEnv (cloneContext (Some (StepContext (demo_step x)))) (Map.empty, Map.empty, Map.empty))
   = Inr ([''X'' \<mapsto> x], Map.empty, [''X'' \<mapsto> True])"
proof -
  show "resolveEnv ascii_only ff (JobEnv (demo_step x)) (cloneContext (Some (StepContext (demo_step x)))) = Inr (Map.empty, Map.empty, Map.empty)"
    by (simp add: demo_step_def resolveEnv_def sortedKeys_def)
  show "resolveEnv ascii_only ff (StepEnv (demo_step x))
     (mergeContextEnv (cloneContext (Some (StepContext (demo_step x)))) (Map.empty, Map.empty, Map.empty))
   = Inr ([''X'' \<mapsto> x], Map.empty, [''X'' \<mapsto> True])"
    by (subst demo_stepEnv [symmetric, of "mergeContextEnv (cloneContext (Some (StepContext (demo_step x)))) (Map.empty, Map.empty, Map.empty)" x ff])
       (simp_all add: demo_step_def cloneContext_def demo_ctx_def taintMark_def secretMark_def mergeContextEnv_def mergeFlags_def flagged_def)
qed

theorem rendered_script_expands_to_resolved_text_witness:
  "\<exists>ps. outRun (demo_out ''hunter2'') = concat (map shown ps) \<and> distinct (refs ps) \<and>
     (\<forall>n \<in> set (refs ps). n \<in> dom (outEnv (demo_out ''hunter2'')))"
  using rendered_script_expands_to_resolved_text [OF demo_rendered [of "\<lambda>_. ''''" "''hunter2''"] demo_envs] by blast

text \<open>
  A job or step environment that names a variable under the runner's reserved prefix is refused,
  so no workflow can define or override a binding the runner makes.
\<close>

theorem reserved_names_refused:
  assumes "k \<in> fst ` set (JobEnv inp) \<union> fst ` set (StepEnv inp)" "HasPrefix k defaultBindingPrefix"
  shows "\<exists>e. RenderStep u ff inp = Inl e"
proof (rule ccontr)
  assume "\<not> ?thesis"
  then obtain r where "RenderStep u ff inp = Inr r" by (cases "RenderStep u ff inp") auto
  then show False using RenderStep_stages [of u ff inp r] resolveEnv_dom assms by (metis UnE)
qed

theorem reserved_names_refused_witness:
  "\<exists>e. RenderStep ascii_only (\<lambda>_. '''') ((demo_step ''s'')\<lparr>JobEnv := [(''SHITHUB_INPUT_0'', ''x'')]\<rparr>) = Inl e"
  by (rule reserved_names_refused [of "''SHITHUB_INPUT_0''"]) (simp_all add: defaultBindingPrefix_def)

text \<open>
  A resolved concurrency group is either absent or a trimmed text of at most 256 characters,
  and an empty group never cancels anything.
\<close>

theorem concurrency_group_bounded:
  assumes "Resolve u ff w inp = Inr r"
  shows "(resGroup r = '''' \<and> \<not> resCancel r) \<or> (resGroup r \<noteq> '''' \<and> RuneCount (resGroup r) \<le> MaxGroupChars)"
  using assms by (auto simp: Resolve_def Let_def ResolveGroup_def validateGroup_def split: option.split_asm sum.split_asm if_split_asm)

theorem concurrency_group_bounded_witness:
  "\<exists>r. Resolve ascii_only (\<lambda>_. '''') (Some \<lparr>groupRaw = ''ci'', CancelInProgress = True\<rparr>) \<lparr>EventPayload = [], HeadSHA = '''', HeadRef = ''''\<rparr> = Inr r
     \<and> RuneCount (resGroup r) \<le> MaxGroupChars \<and> resGroup r = ''ci''"
proof -
  have trim: "TrimSpace ''ci'' = ''ci''" and count: "RuneCount ''ci'' = 2"
    by (simp_all add: TrimSpace_id graphic_def RuneCount.simps)
  have "Resolve ascii_only (\<lambda>_. '''') (Some \<lparr>groupRaw = ''ci'', CancelInProgress = True\<rparr>) \<lparr>EventPayload = [], HeadSHA = '''', HeadRef = ''''\<rparr>
      = Inr \<lparr>resGroup = ''ci'', resCancel = True\<rparr>"
    by (simp add: Resolve_def trim ResolveGroup_def walkExpressions.simps groupStep_def validateGroup_def count MaxGroupChars_def)
  from concurrency_group_bounded [OF this] this show ?thesis by auto
qed

end
