(* ===== verification/LogScrub.thy ===== *)
theory LogScrub
  imports Prelude "HOL-Library.Word"
begin

text \<open>
  The streaming secret scrubber of runner logs (\<^verbatim>\<open>src/internal/runner/scrub/scrub.go\<close>). Log output
  arrives in chunks; \<open>Scrub\<close> emits what can no longer be the start of a secret and keeps the rest as
  the tail, \<open>Flush\<close> emits the tail. \<open>Replace\<close> is \<^verbatim>\<open>strings.Replacer\<close>: scanning left to right, the first
  configured value that matches at the current position is replaced. A nil \<^verbatim>\<open>*Scrubber\<close> is \<open>None\<close>.
\<close>

section \<open>State and operations\<close>

definition Mask :: string where
  "Mask = ''***''"

text \<open>
  \<open>normalize\<close> drops empty and repeated values and sorts by descending length. Go's sort is not stable;
  the order of values of equal length is immaterial, since two of them never match at one position.
\<close>

definition normalize :: "string list \<Rightarrow> string list" where
  "normalize xs = sort_key (\<lambda>v. - int (length v)) (rev (remdups (rev (filter (\<lambda>v. v \<noteq> '''') xs))))"

function Replace :: "string list \<Rightarrow> string \<Rightarrow> string" where
  "Replace vs [] = []"
| "Replace vs (c # s) = (case find (\<lambda>v. v \<noteq> [] \<and> HasPrefix (c # s) v) vs of
     Some v \<Rightarrow> Mask @ Replace vs (drop (length v) (c # s))
   | None \<Rightarrow> c # Replace vs s)"
  by pat_completeness auto
termination
  by (relation "measure (\<lambda>(vs, s). length s)") (auto simp: find_Some_iff)

record Scrubber =
  vals :: "string list"
  replacer :: "string list option"
  tail :: string
  replacements :: "64 word"

definition New :: "string list \<Rightarrow> Scrubber" where
  "New vs = (let ns = normalize vs in
     if ns = [] then \<lparr>vals = [], replacer = None, tail = '''', replacements = 0\<rparr>
     else \<lparr>vals = ns, replacer = Some ns, tail = '''', replacements = 0\<rparr>)"

text \<open>
  \<open>bestMatch\<close> is one round of the search in \<open>countReplacements\<close>: the leftmost match, the longest of
  those at one position.
\<close>

definition bestMatch :: "string list \<Rightarrow> string \<Rightarrow> (nat \<times> string) option" where
  "bestMatch vs s = foldl (\<lambda>best v. case Index s v of
       None \<Rightarrow> best
     | Some i \<Rightarrow> (case best of
         None \<Rightarrow> Some (i, v)
       | Some (j, b) \<Rightarrow> if i < j \<or> i = j \<and> length v > length b then Some (i, v) else best)) None vs"

text \<open>
  An empty value would match without consuming anything and the Go loop would not end;
  \<open>normalize\<close> removes such values, and the model stops there.
\<close>

function countReplacements :: "string list \<Rightarrow> string \<Rightarrow> 64 word" where
  "countReplacements vs s = (if s = '''' then 0 else (case bestMatch vs s of
     None \<Rightarrow> 0
   | Some (i, v) \<Rightarrow> if v = '''' then 0 else 1 + countReplacements vs (drop (i + length v) s)))"
  by pat_completeness auto
termination
  by (relation "measure (\<lambda>(vs, s). length s)") auto

declare countReplacements.simps [simp del]

text \<open>The inner loop of \<open>pendingSuffixLen\<close>: the largest \<open>n\<close> with \<open>keep < n \<le> top\<close> that fits, or \<open>keep\<close>.\<close>

fun longestFit :: "string \<Rightarrow> string \<Rightarrow> nat \<Rightarrow> nat \<Rightarrow> nat" where
  "longestFit combined secret keep 0 = keep"
| "longestFit combined secret keep (Suc n) =
     (if Suc n \<le> keep then keep
      else if HasSuffix combined (take (Suc n) secret) then Suc n
      else longestFit combined secret keep n)"

definition pendingSuffixLen :: "string list \<Rightarrow> string \<Rightarrow> nat" where
  "pendingSuffixLen vs combined =
     foldl (\<lambda>keep secret. longestFit combined secret keep (min (length secret - 1) (length combined))) 0 vs"

definition Scrub :: "Scrubber option \<Rightarrow> string \<Rightarrow> string \<times> Scrubber option" where
  "Scrub s chunk = (case s of None \<Rightarrow> (chunk, None) | Some sc \<Rightarrow>
     (case replacer sc of None \<Rightarrow> (chunk, Some sc) | Some rs \<Rightarrow>
       let combined = tail sc @ chunk; keep = pendingSuffixLen (vals sc) combined in
       if keep = length combined then ('''', Some (sc\<lparr>tail := combined\<rparr>))
       else let emit = take (length combined - keep) combined in
         (Replace rs emit,
          Some (sc\<lparr>tail := drop (length combined - keep) combined,
                   replacements := replacements sc + countReplacements (vals sc) emit\<rparr>))))"

definition Flush :: "Scrubber option \<Rightarrow> string \<times> Scrubber option" where
  "Flush s = (case s of None \<Rightarrow> ('''', None) | Some sc \<Rightarrow>
     if tail sc = '''' then ('''', s)
     else (case replacer sc of
       None \<Rightarrow> (tail sc, Some (sc\<lparr>tail := ''''\<rparr>))
     | Some rs \<Rightarrow> (Replace rs (tail sc),
         Some (sc\<lparr>tail := '''', replacements := replacements sc + countReplacements (vals sc) (tail sc)\<rparr>))))"

definition Replacements :: "Scrubber option \<Rightarrow> 64 word" where
  "Replacements s = (case s of None \<Rightarrow> 0 | Some sc \<Rightarrow> replacements sc)"

text \<open>A whole log: the chunks in order, then the flush.\<close>

fun scrubChunks :: "Scrubber option \<Rightarrow> string list \<Rightarrow> string \<times> Scrubber option" where
  "scrubChunks s [] = Flush s"
| "scrubChunks s (c # cs) = (case Scrub s c of (out, s') \<Rightarrow>
     (case scrubChunks s' cs of (outs, s'') \<Rightarrow> (out @ outs, s'')))"

section \<open>What a scan replaces\<close>

text \<open>
  \<open>scan\<close> splits a text into kept characters (\<open>Inl\<close>) and replaced values (\<open>Inr\<close>). \<open>Replace\<close> and the
  replacement count are readings of it.
\<close>

function scan :: "string list \<Rightarrow> string \<Rightarrow> (char + string) list" where
  "scan vs [] = []"
| "scan vs (c # s) = (case find (\<lambda>v. v \<noteq> [] \<and> HasPrefix (c # s) v) vs of
     Some v \<Rightarrow> Inr v # scan vs (drop (length v) (c # s))
   | None \<Rightarrow> Inl c # scan vs s)"
  by pat_completeness auto
termination
  by (relation "measure (\<lambda>(vs, s). length s)") (auto simp: find_Some_iff)

primrec masked :: "char + string \<Rightarrow> string" where
  "masked (Inl c) = [c]"
| "masked (Inr v) = Mask"

primrec original :: "char + string \<Rightarrow> string" where
  "original (Inl c) = [c]"
| "original (Inr v) = v"

definition hits :: "(char + string) list \<Rightarrow> nat" where
  "hits ps = length (filter (\<lambda>p. \<not> isl p) ps)"

lemma hits_simps [simp]: "hits [] = 0" "hits (Inl c # ps) = hits ps" "hits (Inr v # ps) = Suc (hits ps)"
    "hits (ps @ qs) = hits ps + hits qs"
  by (simp_all add: hits_def)

lemma Replace_scan: "Replace vs s = concat (map masked (scan vs s))"
  by (induction vs s rule: scan.induct) (auto split: option.split)

lemma find_prefix: "find (\<lambda>v. v \<noteq> [] \<and> HasPrefix s v) vs = Some v \<Longrightarrow> v \<in> set vs \<and> v \<noteq> [] \<and> prefix v s"
  by (auto simp: find_Some_iff HasPrefix_prefix)

lemma scan_original: "concat (map original (scan vs s)) = s"
proof (induction vs s rule: scan.induct)
  case (2 vs c s)
  show ?case
  proof (cases "find (\<lambda>v. v \<noteq> [] \<and> HasPrefix (c # s) v) vs")
    case (Some v)
    then have "v @ drop (length v) (c # s) = c # s" using find_prefix [OF Some] by (auto simp: prefix_def)
    then show ?thesis using Some 2(2) [OF Some] by simp
  qed (use 2(1) in simp)
qed simp

text \<open>\<open>noStraddle vs x y\<close>: no value matches across the boundary between \<open>x\<close> and \<open>y\<close>.\<close>

definition noStraddle :: "string list \<Rightarrow> string \<Rightarrow> string \<Rightarrow> bool" where
  "noStraddle vs x y \<longleftrightarrow> (\<forall>v \<in> set vs. \<forall>p q. x = p @ q \<longrightarrow> q \<noteq> [] \<longrightarrow> prefix v (q @ y) \<longrightarrow> length v \<le> length q)"

lemma noStraddle_tl: "noStraddle vs (p @ q) y \<Longrightarrow> noStraddle vs q y"
  unfolding noStraddle_def by (metis append.assoc)

lemma find_cong_set: "(\<And>x. x \<in> set xs \<Longrightarrow> P x = Q x) \<Longrightarrow> find P xs = find Q xs"
  by (induction xs) auto

lemma scan_append: "noStraddle vs x y \<Longrightarrow> scan vs (x @ y) = scan vs x @ scan vs y"
proof (induction vs x rule: scan.induct)
  case (2 vs c s)
  have same: "find (\<lambda>v. v \<noteq> [] \<and> HasPrefix (c # s @ y) v) vs = find (\<lambda>v. v \<noteq> [] \<and> HasPrefix (c # s) v) vs"
  proof (rule find_cong_set)
    fix v assume "v \<in> set vs"
    then have "prefix v ((c # s) @ y) \<Longrightarrow> length v \<le> length (c # s)"
      using 2(3) unfolding noStraddle_def by blast
    then have "prefix v ((c # s) @ y) \<longleftrightarrow> prefix v (c # s)" by (meson prefix_length_prefix prefix_prefix prefixI)
    then show "(v \<noteq> [] \<and> HasPrefix (c # s @ y) v) = (v \<noteq> [] \<and> HasPrefix (c # s) v)" by (simp add: HasPrefix_prefix)
  qed
  show ?case
  proof (cases "find (\<lambda>v. v \<noteq> [] \<and> HasPrefix (c # s) v) vs")
    case None
    moreover have "noStraddle vs s y" using 2(3) noStraddle_tl [of vs "[c]" s y] by simp
    ultimately show ?thesis using 2(1) same by simp
  next
    case (Some v)
    then have "length v \<le> length (c # s)" using find_prefix [OF Some] prefix_length_le by blast
    then have drop: "drop (length v) (c # s @ y) = drop (length v) (c # s) @ y"
      using drop_append [of "length v" "c # s" y] by simp
    have "noStraddle vs (drop (length v) (c # s)) y"
      using 2(3) noStraddle_tl [of vs "take (length v) (c # s)" "drop (length v) (c # s)" y] by simp
    then have "scan vs (drop (length v) (c # s) @ y) = scan vs (drop (length v) (c # s)) @ scan vs y"
      by (rule 2(2) [OF Some])
    then show ?thesis using Some same drop by simp
  qed
qed simp

text \<open>A run of kept characters contains no configured value.\<close>

lemma scan_clean:
  assumes "scan vs s = xs @ map Inl seg @ ys" "v \<in> set vs" "v \<noteq> []"
  shows "\<not> sublist v seg"
proof
  assume "sublist v seg"
  then obtain a b where seg: "seg = a @ v @ b" by (auto simp: sublist_def)
  have skip: "\<exists>t. scan vs t = qs \<and> t = concat (map original qs)" if "scan vs t0 = ps @ qs" for t0 ps qs
    using that
  proof (induction ps arbitrary: t0)
    case Nil
    then show ?case by (metis append_Nil scan_original)
  next
    case (Cons p ps)
    then obtain c s where t0: "t0 = c # s" by (cases t0) auto
    show ?case using Cons by (cases "find (\<lambda>v. v \<noteq> [] \<and> HasPrefix (c # s) v) vs") (auto simp: t0)
  qed
  obtain t where t: "scan vs t = map Inl (v @ b) @ ys" "t = concat (map original (map Inl (v @ b) @ ys))"
    using skip [of s "xs @ map Inl a" "map Inl (v @ b) @ ys"] assms(1) seg by auto
  obtain c v' where v: "v = c # v'" using assms(3) by (cases v) auto
  have "prefix v t" unfolding t(2) by (induction v) auto
  then obtain r where r: "t = c # r" "HasPrefix (c # r) v" by (auto simp: v HasPrefix_prefix prefix_def)
  then have "find (\<lambda>v. v \<noteq> [] \<and> HasPrefix (c # r) v) vs \<noteq> None" using assms(2,3) by (auto simp: find_None_iff)
  then show False using t(1) by (auto simp: r(1) v)
qed

section \<open>Counting\<close>

text \<open>The search prefers the leftmost match, then the longest: an instance of \<open>pick_best\<close>.\<close>

definition betterMatch :: "nat \<times> string \<Rightarrow> nat \<times> string \<Rightarrow> bool" where
  "betterMatch x y \<longleftrightarrow> fst x < fst y \<or> fst x = fst y \<and> length (snd x) > length (snd y)"

interpretation match_pick: pick_best betterMatch
  by unfold_locales (auto simp: betterMatch_def)

definition occurrences :: "string list \<Rightarrow> string \<Rightarrow> (nat \<times> string) list" where
  "occurrences vs s = concat (map (\<lambda>v. case Index s v of None \<Rightarrow> [] | Some i \<Rightarrow> [(i, v)]) vs)"

lemma bestMatch_fold:
  "foldl (\<lambda>best v. case Index s v of
       None \<Rightarrow> best
     | Some i \<Rightarrow> (case best of
         None \<Rightarrow> Some (i, v)
       | Some (j, b) \<Rightarrow> if i < j \<or> i = j \<and> length v > length b then Some (i, v) else best)) (Some x) vs
   = Some (foldl (keep_better betterMatch) x (occurrences vs s))"
  by (induction vs arbitrary: x)
     (auto simp: occurrences_def keep_better_def betterMatch_def split: option.split)

lemma bestMatch_occurrences: "bestMatch vs s = (case occurrences vs s of
    [] \<Rightarrow> None | x # xs \<Rightarrow> Some (foldl (keep_better betterMatch) x xs))"
proof (induction vs)
  case (Cons v vs)
  then show ?case using bestMatch_fold [of s _ vs]
    by (cases "Index s v") (simp_all add: bestMatch_def occurrences_def)
qed (simp add: bestMatch_def occurrences_def)

lemma occurrences_mem: "(i, v) \<in> set (occurrences vs s) \<longleftrightarrow> v \<in> set vs \<and> Index s v = Some i"
  by (auto simp: occurrences_def split: option.split)

lemma bestMatch_None: "bestMatch vs s = None \<longleftrightarrow> (\<forall>v \<in> set vs. \<not> sublist v s)"
proof -
  have "bestMatch vs s = None \<longleftrightarrow> occurrences vs s = []" by (auto simp: bestMatch_occurrences split: list.split)
  also have "\<dots> \<longleftrightarrow> (\<forall>v \<in> set vs. Index s v = None)" by (auto simp: occurrences_def split: option.split)
  finally show ?thesis by (simp add: Index_None_iff)
qed

lemma bestMatch_Some:
  assumes "bestMatch vs s = Some (i, v)"
  shows "v \<in> set vs" "Index s v = Some i"
    and "w \<in> set vs \<Longrightarrow> Index s w = Some j \<Longrightarrow> i < j \<or> i = j \<and> length w \<le> length v"
proof -
  obtain x xs where o: "occurrences vs s = x # xs" "(i, v) = foldl (keep_better betterMatch) x xs"
    using assms by (auto simp: bestMatch_occurrences split: list.split_asm)
  have "(i, v) \<in> set (occurrences vs s)" using match_pick.keep_mem [of x xs] o by simp
  then show "v \<in> set vs" "Index s v = Some i" by (simp_all add: occurrences_mem)
  assume "w \<in> set vs" "Index s w = Some j"
  then have "(j, w) \<in> insert x (set xs)" using o(1) occurrences_mem [of j w vs s] by simp
  then have "\<not> betterMatch (j, w) (i, v)" unfolding o(2) by (rule match_pick.keep_best)
  then show "i < j \<or> i = j \<and> length w \<le> length v" by (auto simp: betterMatch_def)
qed

lemma scan_skip: "(\<And>k v. k < length a \<Longrightarrow> v \<in> set vs \<Longrightarrow> v \<noteq> [] \<Longrightarrow> \<not> prefix v (drop k (a @ b)))
    \<Longrightarrow> scan vs (a @ b) = map Inl a @ scan vs b"
proof (induction a)
  case (Cons c a)
  have "find (\<lambda>v. v \<noteq> [] \<and> HasPrefix (c # a @ b) v) vs = None"
    using Cons.prems [of 0] by (auto simp: find_None_iff HasPrefix_prefix)
  moreover have "scan vs (a @ b) = map Inl a @ scan vs b"
    using Cons.prems [of "Suc k" for k] by (intro Cons.IH) auto
  ultimately show ?case by simp
qed simp

definition secretList :: "string list \<Rightarrow> bool" where
  "secretList vs \<longleftrightarrow> [] \<notin> set vs \<and> sorted_wrt (\<lambda>v w. length w \<le> length v) vs"

lemma find_longest:
  assumes "secretList vs" "v \<in> set vs" "prefix v s" "\<And>w. w \<in> set vs \<Longrightarrow> prefix w s \<Longrightarrow> length w \<le> length v"
  shows "find (\<lambda>v. v \<noteq> [] \<and> HasPrefix s v) vs = Some v"
  using assms
proof (induction vs)
  case (Cons w vs)
  show ?case
  proof (cases "prefix w s")
    case True
    have "length w \<le> length v" using Cons.prems(4) [of w] True by simp
    moreover have "length v \<le> length w" using Cons.prems(1,2) by (auto simp: secretList_def)
    ultimately have "w = v" using True Cons.prems(3) by (metis le_antisym prefix_length_prefix prefix_order.antisym)
    then show ?thesis using True Cons.prems(1) by (auto simp: secretList_def HasPrefix_prefix)
  next
    case False
    then have "v \<in> set vs" using Cons.prems(2,3) by auto
    then show ?thesis using Cons False by (auto simp: secretList_def HasPrefix_prefix)
  qed
qed simp

lemma Index_prefix: "Index s v = Some i \<Longrightarrow> prefix v (drop i s)"
  using Index_SomeD(1,2) [of s v i] by (metis append_eq_conv_conj add_leD1 length_take min.absorb2 prefixI)

lemma Index_le: "prefix w (drop k s) \<Longrightarrow> \<exists>j \<le> k. Index s w = Some j"
proof -
  assume w: "prefix w (drop k s)"
  then have "sublist w s" by (metis append_take_drop_id prefixE sublist_appendI)
  then obtain j where j: "Index s w = Some j" using Index_None_iff [of s w] by auto
  then show ?thesis using Index_SomeD(3) [OF j, of k] w by (auto simp: HasPrefix_prefix intro: leI)
qed

lemma scan_bestMatch:
  assumes "secretList vs" "bestMatch vs s = Some (i, v)"
  shows "scan vs s = map Inl (take i s) @ Inr v # scan vs (drop (i + length v) s)" and "v \<noteq> []"
proof -
  note m = bestMatch_Some [OF assms(2)]
  have vi: "prefix v (drop i s)" by (rule Index_prefix [OF m(2)])
  show vne: "v \<noteq> []" using m(1) assms(1) by (auto simp: secretList_def)
  have before: "\<not> prefix w (drop k s)" if "k < i" "w \<in> set vs" for k w
    using Index_le [of w k s] m(3) [OF that(2)] that(1) by fastforce
  have at: "length w \<le> length v" if "w \<in> set vs" "prefix w (drop i s)" for w
    using Index_le [OF that(2)] m(3) [OF that(1)] by fastforce
  have "scan vs (take i s @ drop i s) = map Inl (take i s) @ scan vs (drop i s)"
    using before by (intro scan_skip) simp
  moreover have "scan vs (drop i s) = Inr v # scan vs (drop (length v) (drop i s))"
  proof -
    obtain c r where r: "drop i s = c # r" using vi vne by (cases "drop i s") auto
    have "find (\<lambda>v. v \<noteq> [] \<and> HasPrefix (c # r) v) vs = Some v"
      using find_longest [OF assms(1) m(1)] vi at by (simp add: r)
    then show ?thesis by (simp add: r)
  qed
  ultimately show "scan vs s = map Inl (take i s) @ Inr v # scan vs (drop (i + length v) s)"
    by (simp add: add.commute)
qed

lemma hits_Inl [simp]: "hits (map Inl xs) = 0"
  by (simp add: hits_def comp_def)

lemma countReplacements_hits:
  assumes "secretList vs"
  shows "countReplacements vs s = of_nat (hits (scan vs s))"
proof (induction s rule: length_induct)
  case (1 s)
  show ?case
  proof (cases "bestMatch vs s")
    case None
    then have "scan vs (s @ []) = map Inl s @ scan vs []"
      by (intro scan_skip) (auto simp: bestMatch_None, metis append_take_drop_id prefixE sublist_appendI)
    then show ?thesis using None by (simp add: countReplacements.simps [of vs s])
  next
    case (Some iv)
    then obtain i v where iv: "bestMatch vs s = Some (i, v)" by (cases iv) auto
    note m = scan_bestMatch [OF assms iv]
    have "s \<noteq> []" using m by (cases s) auto
    then have "length (drop (i + length v) s) < length s" using m(2) by simp
    then have "countReplacements vs (drop (i + length v) s) = of_nat (hits (scan vs (drop (i + length v) s)))" using 1 by blast
    then show ?thesis using iv m \<open>s \<noteq> []\<close> by (simp add: countReplacements.simps [of vs s])
  qed
qed

section \<open>Streaming\<close>

lemma longestFit_spec:
  "keep \<le> longestFit c s keep n" 
  "longestFit c s keep n = keep \<or> longestFit c s keep n \<le> n \<and> suffix (take (longestFit c s keep n) s) c"
  "k \<le> n \<Longrightarrow> suffix (take k s) c \<Longrightarrow> k \<le> longestFit c s keep n"
  by (induction n) (auto simp: HasSuffix_suffix le_Suc_eq)

definition pending :: "string list \<Rightarrow> string \<Rightarrow> nat \<Rightarrow> bool" where
  "pending vs c n \<longleftrightarrow> (\<exists>v \<in> set vs. n < length v \<and> n \<le> length c \<and> suffix (take n v) c)"

lemma pending_mono:
  "m \<le> foldl (\<lambda>keep secret. longestFit c secret keep (min (length secret - 1) (length c))) m ws"
  by (induction ws arbitrary: m) (auto intro: order_trans [OF longestFit_spec(1)])

lemma pendingSuffixLen_spec:
  assumes "[] \<notin> set vs"
  shows "pendingSuffixLen vs c = 0 \<or> pending vs c (pendingSuffixLen vs c)"
    and "pending vs c n \<Longrightarrow> n \<le> pendingSuffixLen vs c"
proof -
  let ?f = "\<lambda>keep secret. longestFit c secret keep (min (length secret - 1) (length c))"
  have "foldl ?f k vs = k \<or> pending vs c (foldl ?f k vs)" for k
    using assms
  proof (induction vs arbitrary: k)
    case (Cons v vs)
    have ne: "v \<noteq> []" using Cons.prems by auto
    then have pos: "0 < length v" by simp
    have "?f k v = k \<or> pending (v # vs) c (?f k v)"
      using longestFit_spec(2) [of c v k "min (length v - 1) (length c)"] pos by (auto simp: pending_def)
    moreover have "pending vs c n \<Longrightarrow> pending (v # vs) c n" for n by (auto simp: pending_def)
    ultimately show ?case using Cons.IH [of "?f k v"] Cons.prems by auto
  qed simp
  then show "pendingSuffixLen vs c = 0 \<or> pending vs c (pendingSuffixLen vs c)" by (simp add: pendingSuffixLen_def)
  have "n \<le> foldl ?f k vs" if "pending vs c n" for k n
    using that
  proof (induction vs arbitrary: k)
    case (Cons v vs)
    show ?case
    proof (cases "pending vs c n")
      case True
      then show ?thesis using Cons.IH by simp
    next
      case False
      then have "n \<le> min (length v - 1) (length c)" "suffix (take n v) c" using Cons.prems by (auto simp: pending_def)
      then have "n \<le> ?f k v" by (rule longestFit_spec(3))
      then show ?thesis using pending_mono [where m = "?f k v" and ws = vs and c = c] by simp
    qed
  qed (simp add: pending_def)
  then show "pending vs c n \<Longrightarrow> n \<le> pendingSuffixLen vs c" by (simp add: pendingSuffixLen_def)
qed


text \<open>
  \<open>unbordered\<close>: no proper suffix of a secret begins a secret. Then the tail a scrubber keeps, the
  longest suffix of its input that begins a secret, never cuts a secret in two.
\<close>

definition unbordered :: "string set \<Rightarrow> bool" where
  "unbordered vs \<longleftrightarrow> (\<forall>v \<in> vs. \<forall>w \<in> vs. \<forall>q r. v = q @ r \<longrightarrow> q \<noteq> [] \<longrightarrow> r \<noteq> [] \<longrightarrow> \<not> prefix r w)"

lemma pendingSuffixLen_cut:
  assumes "[] \<notin> set vs" "unbordered (set vs)"
    and "combined = emit @ kept" "length kept = pendingSuffixLen vs combined"
  shows "noStraddle vs emit (kept @ future)"
  unfolding noStraddle_def
proof (intro ballI allI impI, rule ccontr)
  fix v p q
  assume v: "v \<in> set vs" "emit = p @ q" "q \<noteq> []" "prefix v (q @ kept @ future)" "\<not> length v \<le> length q"
  then have qv: "prefix q v" by (meson nat_le_linear prefix_length_prefix prefixI)
  show False
  proof (cases "length v \<le> length (q @ kept)")
    case True
    then have "prefix v (q @ kept)" using v(4) by (metis append.assoc prefixI prefix_length_prefix)
    then obtain r where r: "v = q @ r" "prefix r kept" using qv by (auto simp: prefix_def)
    then have rne: "r \<noteq> []" using v(5) by auto
    then have "kept \<noteq> []" using r(2) by auto
    then have "pending vs combined (length kept)" using pendingSuffixLen_spec(1) [OF assms(1), of combined] assms(4) by auto
    then obtain w where w: "w \<in> set vs" "suffix (take (length kept) w) combined" "length kept < length w"
      by (auto simp: pending_def)
    have "take (length kept) w = kept"
      using w(2,3) unfolding assms(3) by (metis length_take less_imp_le min.absorb2 suffixE append_eq_append_conv)
    then have "prefix r w" using r(2) by (metis prefix_order.trans take_is_prefix)
    then show False using assms(2) v(1,3) w(1) r(1) rne unfolding unbordered_def by blast
  next
    case False
    then have "prefix (q @ kept) v" using v(4) by (metis append.assoc nat_le_linear prefixI prefix_length_prefix)
    then have "take (length (q @ kept)) v = q @ kept" by (auto simp: prefix_def)
    then have "pending vs combined (length (q @ kept))"
      unfolding pending_def using False v(1,2) assms(3) by (intro bexI [of _ v]) (auto simp: suffix_def)
    then show False using pendingSuffixLen_spec(2) [OF assms(1)] assms(4) v(3) by fastforce
  qed
qed

lemma normalize_set: "set (normalize vs) = set vs - {[]}"
  by (auto simp: normalize_def)

lemma normalize_secretList: "secretList (normalize vs)"
proof -
  have "sorted_wrt (\<lambda>v w. - int (length v) \<le> - int (length w)) (normalize vs)"
    using sorted_sort_key [of "\<lambda>v. - int (length v)" "rev (remdups (rev (filter (\<lambda>v. v \<noteq> []) vs)))"]
    by (simp only: normalize_def sorted_map)
  then show ?thesis unfolding secretList_def using normalize_set [of vs] by (simp add: sorted_wrt_mono_rel)
qed


lemma Scrub_step:
  assumes "replacer sc = Some vs" "vals sc = vs" "secretList vs" "unbordered (set vs)" "Scrub (Some sc) chunk = (out, s')"
  obtains emit sc' where "s' = Some sc'" "tail sc @ chunk = emit @ tail sc'" "out = Replace vs emit"
    "replacer sc' = Some vs" "vals sc' = vs" "replacements sc' = replacements sc + of_nat (hits (scan vs emit))"
    "\<And>future. noStraddle vs emit (tail sc' @ future)"
proof -
  define c where "c = tail sc @ chunk"
  define k where "k = pendingSuffixLen vs c"
  define emit where "emit = take (length c - k) c"
  define kept where "kept = drop (length c - k) c"
  have ne: "[] \<notin> set vs" using assms(3) by (simp add: secretList_def)
  have "k \<le> length c"
    using pendingSuffixLen_spec(1) [OF ne, of c] unfolding pending_def k_def by (metis le0)
  then have c: "c = emit @ kept" "length kept = pendingSuffixLen vs c" by (simp_all add: emit_def kept_def k_def)
  note cut = pendingSuffixLen_cut [OF ne assms(4) c]
  have run: "Scrub (Some sc) chunk = (if k = length c then ('''', Some (sc\<lparr>tail := c\<rparr>))
      else (Replace vs emit, Some (sc\<lparr>tail := kept, replacements := replacements sc + countReplacements vs emit\<rparr>)))"
    using assms(1,2) by (simp add: Scrub_def Let_def c_def k_def emit_def kept_def)
  show thesis
  proof (cases "k = length c")
    case True
    then show thesis using assms(1,2,5) run
      by (intro that [of "sc\<lparr>tail := c\<rparr>" "[]"]) (auto simp: noStraddle_def c_def)
  next
    case False
    let ?sc = "sc\<lparr>tail := kept, replacements := replacements sc + countReplacements vs emit\<rparr>"
    show thesis using False assms(1,2,5) run cut c(1)
      by (intro that [of ?sc emit]) (simp_all add: countReplacements_hits [OF assms(3)] c_def)
  qed
qed

lemma scrubChunks_whole:
  assumes "secretList vs" "unbordered (set vs)"
  shows "replacer sc = Some vs \<Longrightarrow> vals sc = vs \<Longrightarrow> scrubChunks (Some sc) cs = (out, s') \<Longrightarrow>
     out = Replace vs (tail sc @ concat cs) \<and>
     Replacements s' = replacements sc + of_nat (hits (scan vs (tail sc @ concat cs)))"
proof (induction cs arbitrary: sc out)
  case Nil
  then show ?case by (auto simp: Flush_def Replacements_def countReplacements_hits [OF assms(1)] split: if_split_asm)
next
  case (Cons c cs)
  obtain o1 s1 o2 where st: "Scrub (Some sc) c = (o1, s1)" "scrubChunks s1 cs = (o2, s')" "out = o1 @ o2"
    using Cons.prems(3) by (auto split: prod.split_asm)
  obtain emit sc' where e: "s1 = Some sc'" "tail sc @ c = emit @ tail sc'" "o1 = Replace vs emit"
      "replacer sc' = Some vs" "vals sc' = vs" "replacements sc' = replacements sc + of_nat (hits (scan vs emit))"
    and cut: "noStraddle vs emit (tail sc' @ concat cs)"
    using Scrub_step [OF Cons.prems(1,2) assms st(1)] by metis
  have whole: "tail sc @ concat (c # cs) = emit @ tail sc' @ concat cs"
    using e(2) by (metis append.assoc concat.simps(2))
  have "o2 = Replace vs (tail sc' @ concat cs) \<and>
     Replacements s' = replacements sc' + of_nat (hits (scan vs (tail sc' @ concat cs)))"
    using Cons.IH [OF e(4,5)] st(2) e(1) by simp
  then show ?case unfolding whole using st(3) e(3,6) by (simp add: Replace_scan scan_append [OF cut])
qed

lemma Replace_nothing: "Replace [] s = s" "hits (scan [] s) = 0"
  by (induction s) simp_all

lemma scrubChunks_none: "replacer sc = None \<Longrightarrow> tail sc = [] \<Longrightarrow> scrubChunks (Some sc) cs = (concat cs, Some sc)"
  by (induction cs) (auto simp: Scrub_def Flush_def)

section \<open>Properties of the scrubber\<close>

text \<open>
  C10. Chunking is invisible: for secrets none of which ends with the beginning of another (or of
  itself), scrubbing a log in any chunks and flushing gives what replacing in the whole log would
  give, and the counter is the number of values replaced there.
\<close>

theorem scrub_independent_of_chunking:
  assumes "unbordered (set vs - {[]})" "scrubChunks (Some (New vs)) chunks = (out, s)"
  shows "out = Replace (normalize vs) (concat chunks) \<and>
    Replacements s = of_nat (hits (scan (normalize vs) (concat chunks)))"
proof (cases "normalize vs = []")
  case True
  then show ?thesis using assms(2) scrubChunks_none [of "New vs" chunks]
    by (auto simp: New_def Let_def Replace_nothing Replacements_def)
next
  case False
  then show ?thesis
    using scrubChunks_whole [OF normalize_secretList [of vs], of "New vs" chunks out s] assms
    by (simp add: New_def Let_def normalize_set)
qed

theorem scrub_independent_of_chunking_witness:
  "\<exists>out s. scrubChunks (Some (New [''key''])) [''a k'', ''ey b''] = (out, s) \<and> out = Replace (normalize [''key'']) ''a key b''"
proof -
  obtain out s where os: "scrubChunks (Some (New [''key''])) [''a k'', ''ey b''] = (out, s)" by fastforce
  have "unbordered (set [''key''] - {[]})"
    by (auto simp: unbordered_def append_eq_Cons_conv Cons_eq_append_conv)
  from scrub_independent_of_chunking [OF this os] os show ?thesis by auto
qed

text \<open>
  In whole-text replacement nothing configured survives: the text splits into kept
  characters and replaced values, the output is the kept characters with a mask for each replaced
  value, and no maximal or other run of kept characters contains a configured value.
\<close>

theorem replacement_leaves_no_secret:
  assumes "v \<in> set vs" "v \<noteq> []"
  shows "concat (map original (scan (normalize vs) s)) = s \<and>
    Replace (normalize vs) s = concat (map masked (scan (normalize vs) s)) \<and>
    (\<nexists>xs seg ys. scan (normalize vs) s = xs @ map Inl seg @ ys \<and> sublist v seg)"
  using assms scan_clean [of "normalize vs" s _ _ _ v] scan_original Replace_scan normalize_set [of vs] by blast

theorem replacement_leaves_no_secret_witness:
  "\<nexists>xs seg ys. scan (normalize [''key'']) ''a key b'' = xs @ map Inl seg @ ys \<and> sublist ''key'' seg"
  using replacement_leaves_no_secret [of "''key''" "[''key'']" "''a key b''"] by simp

text \<open>
  The side condition matters: a secret that begins and ends with the same byte is written to
  the log in full when it ends a chunk, although replacing in the whole log masks it.
\<close>

theorem bordered_secret_leaks:
  "fst (scrubChunks (Some (New [''aXa''])) [''aXa'', '' done'']) = ''aXa done'' \<and>
   Replace (normalize [''aXa'']) ''aXa done'' = ''*** done''"
proof -
  have n: "normalize [''aXa''] = [''aXa'']" by (simp add: normalize_def)
  show ?thesis
    unfolding New_def n
    by (simp add: Scrub_def Flush_def Let_def pendingSuffixLen_def numeral_2_eq_2 HasSuffix_def Mask_def)
qed

end
