(* ===== verification/WorkflowTrigger.thy ===== *)
theory WorkflowTrigger
  imports Prelude
begin

text \<open>
  Which events start a workflow: the filter patterns (\<^verbatim>\<open>src/internal/actions/trigger/glob.go\<close>), the
  \<^verbatim>\<open>on:\<close> predicates (\<^verbatim>\<open>match.go\<close>, \<^verbatim>\<open>event.go\<close>) and the trigger types of
  \<^verbatim>\<open>src/internal/actions/workflow/types.go\<close>. A pattern is translated to an anchored regular expression;
  the model keeps the translation as a list of tokens, prints it as the code does, and gives the
  tokens the meaning Go's \<^verbatim>\<open>regexp\<close> gives that source: \<^verbatim>\<open>.\<close> is any byte but a newline. For UTF-8
  patterns and subjects, bytes and runes give the same matches, since every literal starts a rune.
\<close>

section \<open>Patterns\<close>

datatype reTok = ReLit char | ReOptTail | ReOptHead | ReAny | ReSegment

definition isRegexMeta :: "char \<Rightarrow> bool" where
  "isRegexMeta c \<longleftrightarrow> c \<in> {CHR ''.'', CHR ''+'', CHR ''?'', CHR ''('', CHR '')'', CHR ''['', CHR '']'', CHR ''{'', CHR ''}'',
     CHR ''|'', CHR ''^'', CHR ''$'', CHR 0x5C}"

fun patternTokens :: "string \<Rightarrow> reTok list" where
  "patternTokens [] = []"
| "patternTokens (c # p) =
     (if HasPrefix (c # p) ''/**'' then ReOptTail # patternTokens (drop 2 p)
      else if HasPrefix (c # p) ''**/'' then ReOptHead # patternTokens (drop 2 p)
      else if HasPrefix (c # p) ''**'' then ReAny # patternTokens (drop 1 p)
      else if c = CHR ''*'' then ReSegment # patternTokens p
      else ReLit c # patternTokens p)"

fun tokenSource :: "reTok \<Rightarrow> string" where
  "tokenSource ReOptTail = ''(?:/.*)?''"
| "tokenSource ReOptHead = ''(?:.*/)?''"
| "tokenSource ReAny = ''.*''"
| "tokenSource ReSegment = ''[^/]*''"
| "tokenSource (ReLit c) = (if isRegexMeta c then [CHR 0x5C, c] else [c])"

definition patternToRegex :: "string \<Rightarrow> string" where
  "patternToRegex p = ''^'' @ concat (map tokenSource (patternTokens p)) @ ''$''"

text \<open>What each piece of regular expression matches.\<close>

definition dotted :: "string \<Rightarrow> bool" where
  "dotted s \<longleftrightarrow> CHR 0x0A \<notin> set s"

fun tokenMatches :: "reTok \<Rightarrow> string \<Rightarrow> bool" where
  "tokenMatches (ReLit c) s \<longleftrightarrow> s = [c]"
| "tokenMatches ReAny s \<longleftrightarrow> dotted s"
| "tokenMatches ReSegment s \<longleftrightarrow> CHR ''/'' \<notin> set s"
| "tokenMatches ReOptTail s \<longleftrightarrow> s = [] \<or> (hd s = CHR ''/'' \<and> dotted (tl s))"
| "tokenMatches ReOptHead s \<longleftrightarrow> s = [] \<or> (last s = CHR ''/'' \<and> dotted (butlast s))"

fun MatchString :: "reTok list \<Rightarrow> string \<Rightarrow> bool" where
  "MatchString [] s \<longleftrightarrow> s = []"
| "MatchString (t # ts) s \<longleftrightarrow>
     list_ex (\<lambda>i. tokenMatches t (take i s) \<and> MatchString ts (drop i s)) [0..<Suc (length s)]"

text \<open>The compile cache maps a pattern to its compiled form and is shared by all calls.\<close>

type_synonym globCache = "string \<rightharpoonup> reTok list"

definition compilePattern :: "globCache \<Rightarrow> string \<Rightarrow> reTok list \<times> globCache" where
  "compilePattern cache p = (case cache p of
     Some re \<Rightarrow> (re, cache)
   | None \<Rightarrow> (let re = patternTokens p in (re, cache(p \<mapsto> re))))"

definition globMatch :: "globCache \<Rightarrow> string \<Rightarrow> string \<Rightarrow> bool \<times> globCache" where
  "globMatch cache p s = (case compilePattern cache p of (re, cache') \<Rightarrow> (MatchString re s, cache'))"

text \<open>\<open>matchAny\<close>: one pass with the last match winning, and a second pass for lists of exclusions only.\<close>

abbreviation isExclude :: "string \<Rightarrow> bool" where
  "isExclude p \<equiv> HasPrefix p ''!''"

fun matchLoop :: "globCache \<Rightarrow> string list \<Rightarrow> string \<Rightarrow> bool \<Rightarrow> bool \<Rightarrow> bool \<times> bool \<times> globCache" where
  "matchLoop cache [] s matched hasInclude = (matched, hasInclude, cache)"
| "matchLoop cache (p # ps) s matched hasInclude =
     (if isExclude p
      then (case globMatch cache (drop 1 p) s of (m, cache') \<Rightarrow>
              matchLoop cache' ps s (if m then False else matched) hasInclude)
      else (case globMatch cache p s of (m, cache') \<Rightarrow>
              matchLoop cache' ps s (if m then True else matched) True))"

fun excludeLoop :: "globCache \<Rightarrow> string list \<Rightarrow> string \<Rightarrow> bool \<Rightarrow> bool \<times> globCache" where
  "excludeLoop cache [] s matched = (matched, cache)"
| "excludeLoop cache (p # ps) s matched =
     (if isExclude p
      then (case globMatch cache (drop 1 p) s of (m, cache') \<Rightarrow>
              excludeLoop cache' ps s (if m then False else matched))
      else excludeLoop cache ps s matched)"

definition matchAny :: "globCache \<Rightarrow> string list \<Rightarrow> string \<Rightarrow> bool \<times> globCache" where
  "matchAny cache patterns s = (if patterns = [] then (True, cache) else
     (case matchLoop cache patterns s False False of (matched, hasInclude, cache') \<Rightarrow>
        if hasInclude then (matched, cache') else excludeLoop cache' patterns s True))"

section \<open>Events and triggers\<close>

datatype EventKind = EventPush | EventPullRequest | EventSchedule | EventWorkflowDispatch | EventOther string

record Event =
  evKind :: EventKind
  Branch :: string
  Tag :: string
  evAction :: string
  BaseRef :: string
  ChangedPaths :: "string list"
  Cron :: string

record PushTrigger =
  pushBranches :: "string list"
  pushTags :: "string list"
  pushPaths :: "string list"

record PullRequestTrigger =
  prTypes :: "string list"
  prBranches :: "string list"
  prPaths :: "string list"

record TriggerSet =
  onPush :: "PushTrigger option"
  onPullRequest :: "PullRequestTrigger option"
  onSchedule :: "string list"
  onWorkflowDispatch :: bool

definition defaultPRTypes :: "string list" where
  "defaultPRTypes = [''opened'', ''synchronize'', ''reopened'']"

definition containsString :: "string list \<Rightarrow> string \<Rightarrow> bool" where
  "containsString haystack needle = list_ex (\<lambda>s. s = needle) haystack"

fun matchPaths :: "globCache \<Rightarrow> string list \<Rightarrow> string list \<Rightarrow> bool \<times> globCache" where
  "matchPaths cache filt [] = (filt = [], cache)"
| "matchPaths cache filt (c # cs) = (if filt = [] then (True, cache) else
     (case matchAny cache filt c of (m, cache') \<Rightarrow> if m then (True, cache') else matchPaths cache' filt cs))"

definition refFilter :: "globCache \<Rightarrow> string list \<Rightarrow> string list \<Rightarrow> string list \<Rightarrow> string list \<Rightarrow> string list \<Rightarrow> string \<Rightarrow> bool \<times> globCache" where
  "refFilter cache branches tags own paths changed name =
     (if branches = [] \<and> tags = [] then matchPaths cache paths changed
      else if own = [] then (False, cache)
      else (case matchAny cache own name of (m, cache') \<Rightarrow>
              if \<not> m then (False, cache') else matchPaths cache' paths changed))"

definition matchPush :: "globCache \<Rightarrow> PushTrigger option \<Rightarrow> Event \<Rightarrow> bool \<times> globCache" where
  "matchPush cache trig ev = (case trig of None \<Rightarrow> (False, cache) | Some pt \<Rightarrow>
     if Branch ev \<noteq> '''' then
       refFilter cache (pushBranches pt) (pushTags pt) (pushBranches pt) (pushPaths pt) (ChangedPaths ev) (Branch ev)
     else if Tag ev \<noteq> '''' then
       refFilter cache (pushBranches pt) (pushTags pt) (pushTags pt) (pushPaths pt) (ChangedPaths ev) (Tag ev)
     else (False, cache))"

definition matchPullRequest :: "globCache \<Rightarrow> PullRequestTrigger option \<Rightarrow> Event \<Rightarrow> bool \<times> globCache" where
  "matchPullRequest cache trig ev = (case trig of None \<Rightarrow> (False, cache) | Some prt \<Rightarrow>
     let types = (if prTypes prt = [] then defaultPRTypes else prTypes prt) in
     if \<not> containsString types (evAction ev) then (False, cache)
     else if prBranches prt = [] then matchPaths cache (prPaths prt) (ChangedPaths ev)
     else (case matchAny cache (prBranches prt) (BaseRef ev) of (m, cache') \<Rightarrow>
             if \<not> m then (False, cache') else matchPaths cache' (prPaths prt) (ChangedPaths ev)))"

definition matchSchedule :: "string list \<Rightarrow> Event \<Rightarrow> bool" where
  "matchSchedule entries ev = (entries \<noteq> [] \<and> list_ex (\<lambda>e. e = Cron ev) entries)"

definition Match :: "globCache \<Rightarrow> TriggerSet option \<Rightarrow> Event \<Rightarrow> bool \<times> globCache" where
  "Match cache w ev = (case w of None \<Rightarrow> (False, cache) | Some on \<Rightarrow>
     (case evKind ev of
        EventPush \<Rightarrow> matchPush cache (onPush on) ev
      | EventPullRequest \<Rightarrow> matchPullRequest cache (onPullRequest on) ev
      | EventSchedule \<Rightarrow> (matchSchedule (onSchedule on) ev, cache)
      | EventWorkflowDispatch \<Rightarrow> (onWorkflowDispatch on, cache)
      | EventOther k \<Rightarrow> (False, cache)))"

section \<open>The cache is transparent\<close>

definition cacheOK :: "globCache \<Rightarrow> bool" where
  "cacheOK c \<longleftrightarrow> (\<forall>p re. c p = Some re \<longrightarrow> re = patternTokens p)"

definition glob :: "string \<Rightarrow> string \<Rightarrow> bool" where
  "glob p s = MatchString (patternTokens p) s"

lemma globMatch_ok: "cacheOK c \<Longrightarrow> fst (globMatch c p s) = glob p s \<and> cacheOK (snd (globMatch c p s))"
  by (auto simp: globMatch_def compilePattern_def cacheOK_def glob_def Let_def split: option.split)

text \<open>Last match wins: the verdict of the patterns, scanned from the end.\<close>

fun lastVerdict :: "string list \<Rightarrow> string \<Rightarrow> bool option" where
  "lastVerdict [] s = None"
| "lastVerdict (p # ps) s = (case lastVerdict ps s of
     Some v \<Rightarrow> Some v
   | None \<Rightarrow> if isExclude p then (if glob (drop 1 p) s then Some False else None)
            else (if glob p s then Some True else None))"

definition included :: "string list \<Rightarrow> string \<Rightarrow> bool" where
  "included ps s \<longleftrightarrow> (case lastVerdict ps s of Some v \<Rightarrow> v | None \<Rightarrow> list_all isExclude ps)"

lemma matchLoop_spec:
  "cacheOK c \<Longrightarrow> matchLoop c ps s m h = (m', h', c') \<Longrightarrow>
     m' = (case lastVerdict ps s of Some v \<Rightarrow> v | None \<Rightarrow> m) \<and> h' = (h \<or> \<not> list_all isExclude ps) \<and> cacheOK c'"
proof (induction ps arbitrary: c m h)
  case (Cons p ps)
  obtain b d where g: "globMatch c (if isExclude p then drop 1 p else p) s = (b, d)" by fastforce
  have "b = glob (if isExclude p then drop 1 p else p) s" "cacheOK d"
    using globMatch_ok [OF Cons.prems(1), of "if isExclude p then drop 1 p else p" s] g by auto
  moreover have "matchLoop d ps s (if b then \<not> isExclude p else m) (h \<or> \<not> isExclude p) = (m', h', c')"
    using Cons.prems(2) g by (cases "isExclude p"; cases b) simp_all
  note Cons.IH [OF _ this]
  ultimately show ?case by (cases "lastVerdict ps s"; cases "isExclude p") auto
qed simp

lemma excludeLoop_spec:
  "cacheOK c \<Longrightarrow> list_all isExclude ps \<Longrightarrow> excludeLoop c ps s m = (m', c') \<Longrightarrow>
     m' = (case lastVerdict ps s of Some v \<Rightarrow> v | None \<Rightarrow> m) \<and> cacheOK c'"
proof (induction ps arbitrary: c m)
  case (Cons p ps)
  obtain b d where g: "globMatch c (drop 1 p) s = (b, d)" by fastforce
  have "b = glob (drop 1 p) s" "cacheOK d" using globMatch_ok [OF Cons.prems(1), of "drop 1 p" s] g by auto
  moreover have "excludeLoop d ps s (if b then False else m) = (m', c')" using Cons.prems g by simp
  note Cons.IH [OF _ _ this]
  ultimately show ?case using Cons.prems(2) by (cases "lastVerdict ps s") auto
qed simp

lemma matchAny_spec: "cacheOK c \<Longrightarrow> fst (matchAny c ps s) = included ps s \<and> cacheOK (snd (matchAny c ps s))"
proof -
  assume c: "cacheOK c"
  obtain m h d where l: "matchLoop c ps s False False = (m, h, d)" by (metis prod_cases3)
  note ml = matchLoop_spec [OF c l]
  obtain m' d' where e: "excludeLoop d ps s True = (m', d')" by fastforce
  show ?thesis using ml excludeLoop_spec [of d ps s True m' d'] e l c
    by (auto simp: matchAny_def included_def split: option.split)
qed

section \<open>What patterns match\<close>

lemma MatchString_Cons: "MatchString (t # ts) s \<longleftrightarrow> (\<exists>a b. s = a @ b \<and> tokenMatches t a \<and> MatchString ts b)"
proof
  assume "MatchString (t # ts) s"
  then show "\<exists>a b. s = a @ b \<and> tokenMatches t a \<and> MatchString ts b"
    by (auto simp: list_ex_iff simp del: upt_Suc) (metis append_take_drop_id)
next
  assume "\<exists>a b. s = a @ b \<and> tokenMatches t a \<and> MatchString ts b"
  then obtain a b where "s = a @ b" "tokenMatches t a" "MatchString ts b" by blast
  then show "MatchString (t # ts) s"
    unfolding MatchString.simps list_ex_iff set_upt by (intro bexI [of _ "length a"]) auto
qed

declare MatchString.simps(2) [simp del]

lemma MatchString_literal: "MatchString (map ReLit p @ ts) s \<longleftrightarrow> (\<exists>r. s = p @ r \<and> MatchString ts r)"
  by (induction p arbitrary: s) (auto simp: MatchString_Cons)

lemma patternTokens_literal:
  assumes "CHR ''*'' \<notin> set p" "q = [] \<or> q = ''/**'' \<or> hd q = CHR ''*'' \<and> (p = [] \<or> last p \<noteq> CHR ''/'' \<or> \<not> HasPrefix q ''**'')"
  shows "patternTokens (p @ q) = map ReLit p @ patternTokens q"
  using assms
proof (induction p)
  case (Cons c p)
  have "\<not> HasPrefix (c # p @ q) ''/**''"
    using Cons.prems by (cases p; cases q) (auto simp: HasPrefix_prefix)
  moreover have "patternTokens (p @ q) = map ReLit p @ patternTokens q"
    using Cons.prems by (intro Cons.IH) auto
  ultimately show ?case using Cons.prems(1) by (auto simp: HasPrefix_prefix)
qed simp

lemma glob_literal: "CHR ''*'' \<notin> set p \<Longrightarrow> glob p s \<longleftrightarrow> s = p"
  using patternTokens_literal [of p "[]"] MatchString_literal [of p "[]" s] by (simp add: glob_def)

lemma glob_segment: "CHR ''*'' \<notin> set p \<Longrightarrow> glob (p @ ''*'') s \<longleftrightarrow> (\<exists>r. s = p @ r \<and> CHR ''/'' \<notin> set r)"
  using patternTokens_literal [of p "''*''"] MatchString_literal [of p "[ReSegment]" s]
  by (simp add: glob_def MatchString_Cons)

lemma glob_subtree: "CHR ''*'' \<notin> set p \<Longrightarrow> glob (p @ ''/**'') s \<longleftrightarrow> s = p \<or> (\<exists>r. s = p @ ''/'' @ r \<and> dotted r)"
proof -
  assume "CHR ''*'' \<notin> set p"
  then have "glob (p @ ''/**'') s \<longleftrightarrow> (\<exists>r. s = p @ r \<and> (r = [] \<or> hd r = CHR ''/'' \<and> dotted (tl r)))"
    using patternTokens_literal [of p "''/**''"] MatchString_literal [of p "[ReOptTail]" s]
    by (simp add: glob_def MatchString_Cons)
  also have "\<dots> \<longleftrightarrow> s = p \<or> (\<exists>r. s = p @ ''/'' @ r \<and> dotted r)"
    by (auto simp: neq_Nil_conv) (metis list.collapse)+
  finally show ?thesis .
qed

section \<open>Acceptance\<close>

text \<open>The specification of a trigger set, with no cache and no order of evaluation.\<close>

definition pathsHit :: "string list \<Rightarrow> string list \<Rightarrow> bool" where
  "pathsHit filt changed \<longleftrightarrow> filt = [] \<or> (\<exists>c \<in> set changed. included filt c)"

definition refHit :: "PushTrigger \<Rightarrow> string list \<Rightarrow> string \<Rightarrow> bool" where
  "refHit pt own name \<longleftrightarrow> pushBranches pt = [] \<and> pushTags pt = [] \<or> own \<noteq> [] \<and> included own name"

definition accepts :: "TriggerSet \<Rightarrow> Event \<Rightarrow> bool" where
  "accepts on ev \<longleftrightarrow> (case evKind ev of
     EventPush \<Rightarrow> (\<exists>pt. onPush on = Some pt \<and> pathsHit (pushPaths pt) (ChangedPaths ev) \<and>
       (Branch ev \<noteq> '''' \<and> refHit pt (pushBranches pt) (Branch ev) \<or>
        Branch ev = '''' \<and> Tag ev \<noteq> '''' \<and> refHit pt (pushTags pt) (Tag ev)))
   | EventPullRequest \<Rightarrow> (\<exists>t. onPullRequest on = Some t \<and> pathsHit (prPaths t) (ChangedPaths ev) \<and>
       included (prBranches t) (BaseRef ev) \<and>
       evAction ev \<in> (if prTypes t = [] then {''opened'', ''synchronize'', ''reopened''} else set (prTypes t)))
   | EventSchedule \<Rightarrow> Cron ev \<in> set (onSchedule on)
   | EventWorkflowDispatch \<Rightarrow> onWorkflowDispatch on
   | EventOther _ \<Rightarrow> False)"

lemma included_Nil [simp]: "included [] s"
  by (simp add: included_def)

lemma matchPaths_spec: "cacheOK c \<Longrightarrow> fst (matchPaths c filt changed) = pathsHit filt changed \<and> cacheOK (snd (matchPaths c filt changed))"
proof (induction changed arbitrary: c)
  case (Cons x xs)
  obtain m d where m: "matchAny c filt x = (m, d)" by fastforce
  then have "m = included filt x" "cacheOK d" using matchAny_spec [OF Cons.prems, of filt x] by auto
  then show ?case using Cons m by (auto simp: pathsHit_def)
qed (simp add: pathsHit_def)

lemma refFilter_spec:
  assumes "cacheOK c" "own = pushBranches pt \<or> own = pushTags pt"
  shows "fst (refFilter c (pushBranches pt) (pushTags pt) own paths changed name) = (refHit pt own name \<and> pathsHit paths changed)
    \<and> cacheOK (snd (refFilter c (pushBranches pt) (pushTags pt) own paths changed name))"
proof -
  obtain m d where m: "matchAny c own name = (m, d)" by fastforce
  then have "m = included own name" "cacheOK d" using matchAny_spec [OF assms(1), of own name] by auto
  then show ?thesis using m matchPaths_spec [of d paths changed] matchPaths_spec [OF assms(1), of paths changed] assms
    by (auto simp: refFilter_def refHit_def)
qed

lemma matchPullRequest_spec:
  assumes "cacheOK c"
  shows "fst (matchPullRequest c (Some t) ev) = (pathsHit (prPaths t) (ChangedPaths ev) \<and> included (prBranches t) (BaseRef ev) \<and>
       evAction ev \<in> (if prTypes t = [] then {''opened'', ''synchronize'', ''reopened''} else set (prTypes t)))
    \<and> cacheOK (snd (matchPullRequest c (Some t) ev))"
proof -
  obtain m d where m: "matchAny c (prBranches t) (BaseRef ev) = (m, d)" by fastforce
  then have m': "m = included (prBranches t) (BaseRef ev)" "cacheOK d" using matchAny_spec [OF assms, of "prBranches t" "BaseRef ev"] by auto
  have "containsString (if prTypes t = [] then defaultPRTypes else prTypes t) (evAction ev)
      \<longleftrightarrow> evAction ev \<in> (if prTypes t = [] then {''opened'', ''synchronize'', ''reopened''} else set (prTypes t))"
    by (auto simp: containsString_def defaultPRTypes_def list_ex_iff)
  then show ?thesis
    using m m' matchPaths_spec [OF m'(2), of "prPaths t" "ChangedPaths ev"] matchPaths_spec [OF assms, of "prPaths t" "ChangedPaths ev"] assms
    by (simp add: matchPullRequest_def Let_def del: insert_iff)
qed

section \<open>The documented meaning\<close>

text \<open>
  What the comments of \<^verbatim>\<open>glob.go\<close> say a pattern matches, as a relation between the two strings. Of the special forms the
  leftmost one is read first, and \<^verbatim>\<open>/**\<close> before \<^verbatim>\<open>**/\<close> before \<^verbatim>\<open>**\<close> before a single star. As the comments in \<^verbatim>\<open>patternToRegex\<close>
  have it, \<^verbatim>\<open>/**\<close> and \<^verbatim>\<open>**/\<close> are optional in the middle of a pattern too.
\<close>

inductive globs :: "string \<Rightarrow> string \<Rightarrow> bool" where
  nothing: "globs [] []"
| noTail: "globs p s \<Longrightarrow> globs (''/**'' @ p) s"
| someTail: "globs p s \<Longrightarrow> globs (''/**'' @ p) (''/'' @ a @ s)"
| noHead: "globs p s \<Longrightarrow> globs (''**/'' @ p) s"
| someHead: "globs p s \<Longrightarrow> globs (''**/'' @ p) (a @ ''/'' @ s)"
| anything: "globs p s \<Longrightarrow> \<not> HasPrefix p ''/'' \<Longrightarrow> globs (''**'' @ p) (a @ s)"
| segment: "globs p s \<Longrightarrow> CHR ''/'' \<notin> set a \<Longrightarrow> \<not> HasPrefix p ''*'' \<Longrightarrow> globs (''*'' @ p) (a @ s)"
| literal: "globs p s \<Longrightarrow> c \<noteq> CHR ''*'' \<Longrightarrow> \<not> HasPrefix (c # p) ''/**'' \<Longrightarrow> globs (c # p) (c # s)"

inductive_simps globs_Nil [simp]: "globs [] s"
inductive_simps globs_Cons: "globs (c # p) s"

lemma globs_cases:
  "globs (''/**'' @ p) s \<longleftrightarrow> globs p s \<or> (\<exists>a r. s = ''/'' @ a @ r \<and> globs p r)"
  "globs (''**/'' @ p) s \<longleftrightarrow> globs p s \<or> (\<exists>a r. s = a @ ''/'' @ r \<and> globs p r)"
  "\<not> HasPrefix p ''/'' \<Longrightarrow> globs (''**'' @ p) s \<longleftrightarrow> (\<exists>a r. s = a @ r \<and> globs p r)"
  "\<not> HasPrefix p ''*'' \<Longrightarrow> globs (CHR ''*'' # p) s \<longleftrightarrow> (\<exists>a r. s = a @ r \<and> CHR ''/'' \<notin> set a \<and> globs p r)"
  "c \<noteq> CHR ''*'' \<Longrightarrow> \<not> HasPrefix (c # p) ''/**'' \<Longrightarrow> globs (c # p) s \<longleftrightarrow> (\<exists>r. s = c # r \<and> globs p r)"
  by (simp_all add: globs_Cons) auto

lemma dotted_simps [simp]: "dotted []" "dotted (a @ b) \<longleftrightarrow> dotted a \<and> dotted b" "dotted (c # a) \<longleftrightarrow> c \<noteq> CHR 0x0A \<and> dotted a"
  by (auto simp: dotted_def)

lemma MatchString_step:
  assumes "\<And>b. dotted b \<Longrightarrow> MatchString ts b \<longleftrightarrow> globs q b" "dotted s"
  shows "MatchString (t # ts) s \<longleftrightarrow> (\<exists>a b. s = a @ b \<and> dotted a \<and> tokenMatches t a \<and> globs q b)"
  unfolding MatchString_Cons using assms by (metis dotted_simps(2))

lemma optional_pieces:
  "dotted a \<Longrightarrow> tokenMatches ReOptTail a \<longleftrightarrow> a = [] \<or> (\<exists>b. a = ''/'' @ b)"
  "dotted a \<Longrightarrow> tokenMatches ReOptHead a \<longleftrightarrow> a = [] \<or> (\<exists>b. a = b @ ''/'')"
  by (cases a rule: list.exhaust; auto) (cases a rule: rev_exhaust; auto)

lemma optional_tail:
  assumes "dotted s"
  shows "(\<exists>a b. s = a @ b \<and> dotted a \<and> tokenMatches ReOptTail a \<and> P b) \<longleftrightarrow> P s \<or> (\<exists>a r. s = ''/'' @ a @ r \<and> P r)" (is "?L \<longleftrightarrow> ?R")
proof
  assume ?R
  then show ?L
  proof (elim disjE exE conjE)
    assume "P s"
    then show ?L by (intro exI [of _ "[]"] exI [of _ s]) simp
  next
    fix a r assume "s = ''/'' @ a @ r" "P r"
    then show ?L using assms by (intro exI [of _ "''/'' @ a"] exI [of _ r]) simp
  qed
qed (use optional_pieces(1) in fastforce)

lemma optional_head:
  assumes "dotted s"
  shows "(\<exists>a b. s = a @ b \<and> dotted a \<and> tokenMatches ReOptHead a \<and> P b) \<longleftrightarrow> P s \<or> (\<exists>a r. s = a @ ''/'' @ r \<and> P r)" (is "?L \<longleftrightarrow> ?R")
proof
  assume ?R
  then show ?L
  proof (elim disjE exE conjE)
    assume "P s"
    then show ?L by (intro exI [of _ "[]"] exI [of _ s]) simp
  next
    fix a r assume "s = a @ ''/'' @ r" "P r"
    then show ?L using assms by (intro exI [of _ "a @ ''/''"] exI [of _ r]) simp
  qed
qed (use optional_pieces(2) in fastforce)

text \<open>Where names have no newline, the compiled expression matches what the pattern is documented to match.\<close>

lemma glob_is_globs: "dotted s \<Longrightarrow> glob p s \<longleftrightarrow> globs p s"
  unfolding glob_def
proof (induction p arbitrary: s rule: patternTokens.induct)
  case (2 c p)
  note IH = 2(1-5) and s = 2(6)
  consider (tail) q where "c # p = ''/**'' @ q" | (head) q where "c # p = ''**/'' @ q"
    | (any) q where "c # p = ''**'' @ q" "\<not> HasPrefix q ''/''" | (seg) "c = CHR ''*''" "\<not> HasPrefix p ''*''"
    | (lit) "c \<noteq> CHR ''*''" "\<not> HasPrefix (c # p) ''/**''"
    by (cases "c = CHR ''*''"; cases "HasPrefix p ''*''"; cases "HasPrefix (c # p) ''**/''"; cases "HasPrefix (c # p) ''/**''") (auto simp: HasPrefix_prefix prefix_def)
  then show ?case
  proof cases
    case tail
    then have "MatchString (patternTokens (c # p)) s \<longleftrightarrow> (\<exists>a b. s = a @ b \<and> dotted a \<and> tokenMatches ReOptTail a \<and> globs q b)"
      using MatchString_step [OF IH(1) s] by (auto simp del: tokenMatches.simps)
    also have "\<dots> \<longleftrightarrow> globs (c # p) s" unfolding tail globs_cases by (rule optional_tail [OF s])
    finally show ?thesis .
  next
    case head
    then have "MatchString (patternTokens (c # p)) s \<longleftrightarrow> (\<exists>a b. s = a @ b \<and> dotted a \<and> tokenMatches ReOptHead a \<and> globs q b)"
      using MatchString_step [OF IH(2) s] by (auto simp del: tokenMatches.simps)
    also have "\<dots> \<longleftrightarrow> globs (c # p) s" unfolding head globs_cases by (rule optional_head [OF s])
    finally show ?thesis .
  next
    case any
    then have "MatchString (patternTokens (c # p)) s \<longleftrightarrow> (\<exists>a b. s = a @ b \<and> dotted a \<and> tokenMatches ReAny a \<and> globs q b)"
      using MatchString_step [OF IH(3) s] by auto
    also have "\<dots> \<longleftrightarrow> globs (c # p) s" unfolding any(1) globs_cases(3) [OF any(2)] tokenMatches.simps using s dotted_simps(2) by blast
    finally show ?thesis .
  next
    case seg
    then have "MatchString (patternTokens (c # p)) s \<longleftrightarrow> (\<exists>a b. s = a @ b \<and> dotted a \<and> tokenMatches ReSegment a \<and> globs p b)"
      using MatchString_step [OF IH(4) s] by (cases p) auto
    also have "\<dots> \<longleftrightarrow> globs (c # p) s" unfolding seg(1) globs_cases(4) [OF seg(2)] tokenMatches.simps using s dotted_simps(2) by blast
    finally show ?thesis .
  next
    case lit
    then have "MatchString (patternTokens (c # p)) s \<longleftrightarrow> (\<exists>a b. s = a @ b \<and> dotted a \<and> tokenMatches (ReLit c) a \<and> globs p b)"
      using MatchString_step [OF IH(5) s] by (cases p) auto
    also have "\<dots> \<longleftrightarrow> globs (c # p) s" unfolding globs_cases(5) [OF lit] using s by auto
    finally show ?thesis .
  qed
qed simp

lemma lastVerdict_False: "lastVerdict ps s = Some False \<Longrightarrow> \<exists>q \<in> set ps. isExclude q \<and> glob (drop 1 q) s"
  by (induction ps) (auto split: option.split_asm if_split_asm)

lemma lastVerdict_None:
  "lastVerdict ps s = None \<longleftrightarrow> (\<forall>q \<in> set ps. (isExclude q \<longrightarrow> \<not> glob (drop 1 q) s) \<and> (\<not> isExclude q \<longrightarrow> \<not> glob q s))"
proof (induction ps)
  case (Cons p ps)
  then show ?case by (cases "lastVerdict ps s"; cases "isExclude p") simp_all
qed simp

lemma lastVerdict_True: "lastVerdict ps s = Some True \<longleftrightarrow> (\<exists>xs p ys. ps = xs @ p # ys \<and> \<not> isExclude p \<and> glob p s \<and>
    (\<forall>q \<in> set ys. isExclude q \<longrightarrow> \<not> glob (drop 1 q) s))" (is "_ \<longleftrightarrow> ?A ps")
proof (induction ps)
  case (Cons p ps)
  have "?A (p # ps) \<longleftrightarrow> ?A ps \<or> \<not> isExclude p \<and> glob p s \<and> (\<forall>q \<in> set ps. isExclude q \<longrightarrow> \<not> glob (drop 1 q) s)"
    by (auto simp: Cons_eq_append_conv)
  moreover have "lastVerdict (p # ps) s = Some True \<longleftrightarrow>
      lastVerdict ps s = Some True \<or> lastVerdict ps s = None \<and> \<not> isExclude p \<and> glob p s"
    by (auto split: option.split)
  moreover have "(\<forall>q \<in> set ps. isExclude q \<longrightarrow> \<not> glob (drop 1 q) s) \<longrightarrow> lastVerdict ps s \<noteq> Some False"
    using lastVerdict_False by blast
  moreover have "lastVerdict ps s = None \<longrightarrow> (\<forall>q \<in> set ps. isExclude q \<longrightarrow> \<not> glob (drop 1 q) s)"
    by (simp add: lastVerdict_None)
  moreover have "lastVerdict ps s \<in> {None, Some True, Some False}" by (cases "lastVerdict ps s") auto
  ultimately show ?case using Cons.IH by blast
qed simp

lemma included_iff:
  "included ps s \<longleftrightarrow> (\<exists>xs p ys. ps = xs @ p # ys \<and> \<not> isExclude p \<and> glob p s \<and> (\<forall>q \<in> set ys. isExclude q \<longrightarrow> \<not> glob (drop 1 q) s))
    \<or> (\<forall>q \<in> set ps. isExclude q \<and> \<not> glob (drop 1 q) s)"
proof -
  have "included ps s \<longleftrightarrow> lastVerdict ps s = Some True \<or> lastVerdict ps s = None \<and> list_all isExclude ps"
    by (auto simp: included_def split: option.split)
  also have "lastVerdict ps s = None \<and> list_all isExclude ps \<longleftrightarrow> (\<forall>q \<in> set ps. isExclude q \<and> \<not> glob (drop 1 q) s)"
    by (auto simp: lastVerdict_None list_all_iff)
  finally show ?thesis by (simp add: lastVerdict_True)
qed

text \<open>
  A filter list selects a name when one of its inclusions matches it and no later exclusion does; a list of exclusions only
  selects what none of them matches, and so the empty list selects everything.
\<close>

definition selected :: "string list \<Rightarrow> string \<Rightarrow> bool" where
  "selected ps s \<longleftrightarrow>
     (\<exists>xs p ys. ps = xs @ p # ys \<and> \<not> isExclude p \<and> globs p s \<and> (\<forall>q \<in> set ys. isExclude q \<longrightarrow> \<not> globs (drop 1 q) s))
     \<or> (\<forall>q \<in> set ps. isExclude q \<and> \<not> globs (drop 1 q) s)"

text \<open>
  When an event starts a workflow: a push to a branch or of a tag that the filters of its kind select (no filter of either kind
  selects all, a filter for the other kind only selects none), a pull request with one of the activity types into a selected base
  branch, each with a changed path that the path filter selects, if there is one; one of the schedule entries; a dispatch.
\<close>

definition starts :: "TriggerSet \<Rightarrow> Event \<Rightarrow> bool" where
  "starts on ev \<longleftrightarrow> (case evKind ev of
     EventPush \<Rightarrow> (\<exists>pt. onPush on = Some pt \<and> (pushPaths pt = [] \<or> (\<exists>c \<in> set (ChangedPaths ev). selected (pushPaths pt) c)) \<and>
       (if Branch ev \<noteq> '''' then pushBranches pt = [] \<and> pushTags pt = [] \<or> pushBranches pt \<noteq> [] \<and> selected (pushBranches pt) (Branch ev)
        else Tag ev \<noteq> '''' \<and> (pushBranches pt = [] \<and> pushTags pt = [] \<or> pushTags pt \<noteq> [] \<and> selected (pushTags pt) (Tag ev))))
   | EventPullRequest \<Rightarrow> (\<exists>t. onPullRequest on = Some t \<and> (prPaths t = [] \<or> (\<exists>c \<in> set (ChangedPaths ev). selected (prPaths t) c)) \<and>
       selected (prBranches t) (BaseRef ev) \<and>
       evAction ev \<in> (if prTypes t = [] then {''opened'', ''synchronize'', ''reopened''} else set (prTypes t)))
   | EventSchedule \<Rightarrow> Cron ev \<in> set (onSchedule on)
   | EventWorkflowDispatch \<Rightarrow> onWorkflowDispatch on
   | EventOther _ \<Rightarrow> False)"

definition plainNames :: "Event \<Rightarrow> bool" where
  "plainNames ev \<longleftrightarrow> dotted (Branch ev) \<and> dotted (Tag ev) \<and> dotted (BaseRef ev) \<and> list_all dotted (ChangedPaths ev)"

lemma included_selected: "dotted s \<Longrightarrow> included ps s \<longleftrightarrow> selected ps s"
  unfolding included_iff selected_def by (simp only: glob_is_globs)

lemma pathsHit_selected: "list_all dotted changed \<Longrightarrow> pathsHit filt changed \<longleftrightarrow> filt = [] \<or> (\<exists>c \<in> set changed. selected filt c)"
  by (auto simp: pathsHit_def list_all_iff included_selected)

lemma accepts_starts: "plainNames ev \<Longrightarrow> accepts on ev \<longleftrightarrow> starts on ev"
  by (cases "evKind ev") (auto simp: accepts_def starts_def plainNames_def refHit_def included_selected pathsHit_selected)

lemma Match_accepts:
  assumes "cacheOK c"
  shows "fst (Match c (Some on) ev) = accepts on ev \<and> cacheOK (snd (Match c (Some on) ev))"
proof (cases "evKind ev")
  case EventPush
  then show ?thesis
    using assms refFilter_spec [OF assms] by (auto simp: Match_def accepts_def matchPush_def split: option.split)
next
  case EventPullRequest
  then show ?thesis
    using assms matchPullRequest_spec [OF assms]
    by (cases "onPullRequest on") (simp_all add: Match_def accepts_def matchPullRequest_def [of _ None])
qed (use assms in \<open>auto simp: Match_def accepts_def matchSchedule_def list_ex_iff\<close>)

section \<open>Properties of triggers\<close>

text \<open>
  C31. A workflow starts exactly on the events that its trigger set describes: for an event whose branch, tag, base branch and
  changed paths have no newline, and with a compile cache whose entries are the compilations of their patterns, such as the
  empty one, \<open>Match\<close> agrees with \<open>starts\<close>: the rules for pushes, pull requests, schedules and dispatches, the default activity
  types, the filter lists in which a later exclusion overrides an inclusion, and the documented meaning of the patterns. The cache
  stays one whose entries are the compilations of their patterns.
\<close>

theorem match_implements_trigger_spec:
  assumes "cacheOK c" "plainNames ev"
  shows "fst (Match c (Some on) ev) = starts on ev \<and> cacheOK (snd (Match c (Some on) ev))"
  using Match_accepts [OF assms(1), of on ev] accepts_starts [OF assms(2), of on] by simp

definition demoTriggers :: TriggerSet where
  "demoTriggers = \<lparr>onPush = Some \<lparr>pushBranches = [''rel/**'', ''!rel/old''], pushTags = [], pushPaths = []\<rparr>, onPullRequest = None,
     onSchedule = [], onWorkflowDispatch = False\<rparr>"

definition demoPush :: "string \<Rightarrow> Event" where
  "demoPush branch = \<lparr>evKind = EventPush, Branch = branch, Tag = '''', evAction = '''', BaseRef = '''', ChangedPaths = [''a''], Cron = ''''\<rparr>"

theorem match_implements_trigger_spec_witness:
  "fst (Match Map.empty (Some demoTriggers) (demoPush ''rel/1'')) \<and> \<not> fst (Match Map.empty (Some demoTriggers) (demoPush ''rel/old''))"
proof -
  have same: "fst (Match Map.empty (Some demoTriggers) (demoPush b)) = selected [''rel/**'', ''!rel/old''] b" if "dotted b" "b \<noteq> ''''" for b
    using match_implements_trigger_spec [of Map.empty "demoPush b" demoTriggers] that
    by (simp add: cacheOK_def plainNames_def demoPush_def demoTriggers_def starts_def)
  have pats: "globs ''rel/**'' b \<longleftrightarrow> b = ''rel'' \<or> (\<exists>r. b = ''rel/'' @ r)" "globs ''rel/old'' b \<longleftrightarrow> b = ''rel/old''" for b
    using globs_cases(1) [of "[]"] by (auto simp: globs_cases(5))
  have "selected [''rel/**'', ''!rel/old''] ''rel/1''"
    unfolding selected_def by (intro disjI1 exI [of _ "[]"] exI [of _ "''rel/**''"] exI [of _ "[''!rel/old'']"]) (simp add: pats)
  moreover have "\<not> selected [''rel/**'', ''!rel/old''] ''rel/old''"
    unfolding selected_def by (auto simp: pats Cons_eq_append_conv)
  ultimately show ?thesis using same [of "''rel/1''"] same [of "''rel/old''"] by simp
qed

text \<open>
  In a filter list the last matching pattern decides: a name is accepted iff some inclusion
  matches it and no exclusion after that inclusion does, or the list has exclusions only and
  none matches.
\<close>

theorem last_matching_pattern_decides:
  assumes "cacheOK c"
  shows "fst (matchAny c ps s) \<longleftrightarrow>
    (\<exists>xs p ys. ps = xs @ p # ys \<and> \<not> isExclude p \<and> glob p s \<and> (\<forall>q \<in> set ys. isExclude q \<longrightarrow> \<not> glob (drop 1 q) s))
    \<or> (\<forall>q \<in> set ps. isExclude q \<and> \<not> glob (drop 1 q) s)"
  using matchAny_spec [OF assms] by (simp only: included_iff)

theorem last_matching_pattern_decides_witness:
  "\<not> fst (matchAny Map.empty [''rel/**'', ''!rel/old''] ''rel/old'')"
proof -
  have "glob ''rel/old'' ''rel/old''" by (simp add: glob_literal)
  then show ?thesis
    unfolding last_matching_pattern_decides [of Map.empty, unfolded cacheOK_def, simplified]
    by (auto simp: Cons_eq_append_conv)
qed

text \<open>
  For a prefix \<open>p\<close> without stars: \<open>p\<close> matches itself only, \<open>p*\<close> the names that extend it within one
  path segment, and \<open>p/**\<close> the name itself and every (newline-free) path below it.
\<close>

theorem pattern_shapes:
  assumes "CHR ''*'' \<notin> set p"
  shows "(glob p s \<longleftrightarrow> s = p) \<and> (glob (p @ ''*'') s \<longleftrightarrow> (\<exists>r. s = p @ r \<and> CHR ''/'' \<notin> set r)) \<and>
    (glob (p @ ''/**'') s \<longleftrightarrow> s = p \<or> (\<exists>r. s = p @ ''/'' @ r \<and> CHR 0x0A \<notin> set r))"
  using glob_literal [OF assms] glob_segment [OF assms] glob_subtree [OF assms] by (simp add: dotted_def)

theorem pattern_shapes_witness:
  "glob (''feature'' @ ''/**'') ''feature'' \<and> glob (''feature'' @ ''/**'') ''feature/a/b''"
  using pattern_shapes [of "''feature''"] by simp

text \<open>
  A path that contains a newline is matched by no \<^verbatim>\<open>**\<close> pattern that would have to cross it, so
  the filter \<^verbatim>\<open>**\<close>, documented to match any sequence, does not accept every path.
\<close>

theorem double_star_stops_at_newline:
  "\<not> fst (matchAny Map.empty [''**''] [CHR ''a'', CHR 0x0A, CHR ''b''])"
  by (simp add: matchAny_def globMatch_def compilePattern_def Let_def MatchString_Cons dotted_def)

text \<open>
  The forms \<^verbatim>\<open>/**\<close> and \<^verbatim>\<open>**/\<close> are optional wherever they stand, not only at the end and at the beginning of a pattern: the slash
  itself need not be there.
\<close>

lemma optional_forms_stand_anywhere:
  "fst (matchAny Map.empty [''a/**b''] ''ab'') \<and> fst (matchAny Map.empty [''x**/y''] ''xy'')"
  by code_simp

end
