(* ===== verification/BranchProtection.thy ===== *)
theory BranchProtection
  imports GoRunes
begin

text \<open>
  Protection rules on pushed refs (\<^verbatim>\<open>src/internal/repos/protection/protection.go\<close>): choosing the rule
  for a ref and the gates of \<open>Enforce\<close>. The rules read from the database and the ancestry test run by
  git are arguments, each of which may fail with an error.
\<close>

section \<open>Rules and updates\<close>

record BranchProtectionRule =
  ruleID :: go_int64
  Pattern :: string
  PreventForcePush :: bool
  PreventDeletion :: bool
  RequirePrForPush :: bool
  AllowedPusherUserIds :: "go_int64 list"
  StatusChecksRequired :: "string list"
  RequiredReviewCount :: int
  RequireCodeOwnerReview :: bool
  Target :: string



definition protectionRuleTarget :: "BranchProtectionRule \<Rightarrow> string" where
  "protectionRuleTarget r = (if Target r = ''tag'' then ''tag'' else ''branch'')"



text \<open>
  The matching rules are sorted by descending pattern length, then by pattern, and the first is
  taken. Go's sort leaves the order of equal elements open; here the earliest of them is taken, and
  rules of one target with the same pattern are excluded by a unique index.
\<close>

definition longerPattern :: "BranchProtectionRule \<Rightarrow> BranchProtectionRule \<Rightarrow> bool" where
  "longerPattern a b \<longleftrightarrow>
     (if length (Pattern a) \<noteq> length (Pattern b) then length (Pattern a) > length (Pattern b) else Pattern a < Pattern b)"

definition matchRuleForTarget :: "BranchProtectionRule list \<Rightarrow> string \<Rightarrow> string \<Rightarrow> BranchProtectionRule option" where
  "matchRuleForTarget rules target name =
     (case filter (\<lambda>r. protectionRuleTarget r = target \<and> fileMatch (Pattern r) name) rules of
        [] \<Rightarrow> None
      | r # rs \<Rightarrow> Some (foldl (keep_better longerPattern) r rs))"

definition MatchLongestRule :: "BranchProtectionRule list \<Rightarrow> string \<Rightarrow> BranchProtectionRule option" where
  "MatchLongestRule rules branch = matchRuleForTarget rules ''branch'' branch"

section \<open>Enforcement\<close>






section \<open>Which rule governs a ref\<close>

interpretation rule_pick: pick_best longerPattern
proof
  fix x y z
  show "longerPattern x y \<Longrightarrow> \<not> longerPattern y x" by (auto simp: longerPattern_def split: if_splits)
  show "\<not> longerPattern x y \<Longrightarrow> \<not> longerPattern y z \<Longrightarrow> \<not> longerPattern x z"
    by (auto simp: longerPattern_def split: if_splits)
qed

definition governs :: "BranchProtectionRule list \<Rightarrow> string \<Rightarrow> string \<Rightarrow> BranchProtectionRule \<Rightarrow> bool" where
  "governs rules target name r \<longleftrightarrow> r \<in> set rules \<and> protectionRuleTarget r = target \<and> fileMatch (Pattern r) name"

lemma matchRuleForTarget_None: "matchRuleForTarget rules target name = None \<longleftrightarrow> (\<forall>r. \<not> governs rules target name r)"
proof -
  have "matchRuleForTarget rules target name = None
      \<longleftrightarrow> filter (\<lambda>r. protectionRuleTarget r = target \<and> fileMatch (Pattern r) name) rules = []"
    by (auto simp: matchRuleForTarget_def split: list.split)
  then show ?thesis by (auto simp: governs_def filter_empty_conv)
qed

lemma matchRuleForTarget_Some:
  assumes "matchRuleForTarget rules target name = Some r"
  shows "governs rules target name r" and "governs rules target name q \<Longrightarrow> \<not> longerPattern q r"
proof -
  let ?c = "filter (\<lambda>r. protectionRuleTarget r = target \<and> fileMatch (Pattern r) name) rules"
  obtain x xs where c: "?c = x # xs" "r = foldl (keep_better longerPattern) x xs"
    using assms by (auto simp: matchRuleForTarget_def split: list.split_asm)
  have set: "insert x (set xs) = {r. governs rules target name r}"
    using arg_cong [OF c(1), of set] by (auto simp: governs_def)
  show "governs rules target name r" using rule_pick.keep_mem [of x xs] c(2) set by auto
  show "governs rules target name q \<Longrightarrow> \<not> longerPattern q r" using rule_pick.keep_best [of q x xs] c(2) set by auto
qed

lemma longerPattern_ties: "\<not> longerPattern a b \<Longrightarrow> \<not> longerPattern b a \<Longrightarrow> Pattern a = Pattern b"
  by (auto simp: longerPattern_def split: if_splits)

section \<open>Properties of protection\<close>








definition demo_rule :: "string \<Rightarrow> bool \<Rightarrow> BranchProtectionRule" where
  "demo_rule p pr = \<lparr>ruleID = 1, Pattern = p, PreventForcePush = True, PreventDeletion = True, RequirePrForPush = pr,
     AllowedPusherUserIds = [7], StatusChecksRequired = [], RequiredReviewCount = 1, RequireCodeOwnerReview = False, Target = ''branch''\<rparr>"



text \<open>
  The governing rule depends only on the set of rules, not on the order in which the database
  returns them, as long as no two rules of one target share a pattern.
\<close>

theorem rule_choice_ignores_order:
  assumes "set rules = set rules'"
    and "\<forall>a \<in> set rules. \<forall>b \<in> set rules. protectionRuleTarget a = protectionRuleTarget b \<longrightarrow> Pattern a = Pattern b \<longrightarrow> a = b"
  shows "matchRuleForTarget rules target name = matchRuleForTarget rules' target name"
proof (cases "matchRuleForTarget rules target name")
  case None
  then have "matchRuleForTarget rules' target name = None"
    using assms(1) by (simp add: matchRuleForTarget_None governs_def)
  with None show ?thesis by simp
next
  case (Some r)
  then obtain r' where r': "matchRuleForTarget rules' target name = Some r'"
    using matchRuleForTarget_None assms(1) by (metis governs_def not_None_eq)
  note A = matchRuleForTarget_Some [OF Some] and B = matchRuleForTarget_Some [OF r']
  have "governs rules target name r'" "governs rules' target name r" using A(1) B(1) assms(1) by (simp_all add: governs_def)
  then have "Pattern r = Pattern r'" using longerPattern_ties A(2) B(2) by metis
  then show ?thesis using Some r' assms A(1) B(1) by (auto simp: governs_def)
qed

theorem rule_choice_ignores_order_witness:
  "matchRuleForTarget [demo_rule ''*'' True, demo_rule ''release/*'' False] ''branch'' ''main''
   = matchRuleForTarget [demo_rule ''release/*'' False, demo_rule ''*'' True] ''branch'' ''main''"
  by (rule rule_choice_ignores_order) (auto simp: demo_rule_def)

end
