(* ===== verification/MergeGates.thy ===== *)
theory MergeGates
  imports BranchProtection "HOL-Library.AList"
begin

text \<open>
  The gates a pull request passes before it merges: review decisions
  (\<^verbatim>\<open>src/internal/pulls/review/required.go\<close>, with the code-owner part of \<^verbatim>\<open>codeowners.go\<close>), required checks
  and the roll-up of a check suite (\<^verbatim>\<open>src/internal/checks/required_eval.go\<close>, \<^verbatim>\<open>suite_rollup.go\<close>), the
  conclusion of a workflow run (\<^verbatim>\<open>src/internal/actions/runstate/cancel.go\<close>) and the re-anchoring of review
  comments (\<^verbatim>\<open>src/internal/pulls/review/position_map.go\<close>). Results of database and git reads are arguments.
\<close>

section \<open>Review decisions\<close>

datatype PrReviewState = StateComment | StateApprove | StateRequestChanges

record GateReview =
  AuthorUserID :: "go_int64 option"
  revState :: PrReviewState

definition int64FromPg :: "go_int64 option \<Rightarrow> go_int64" where
  "int64FromPg p = (case p of None \<Rightarrow> 0 | Some i \<Rightarrow> i)"

definition decisive :: "PrReviewState \<Rightarrow> bool" where
  "decisive s \<longleftrightarrow> s = StateApprove \<or> s = StateRequestChanges"

type_synonym latest = "(go_int64 \<times> PrReviewState) list"

definition flushLatest :: "go_int64 \<Rightarrow> latest \<Rightarrow> go_int64 \<Rightarrow> PrReviewState \<Rightarrow> bool \<Rightarrow> latest" where
  "flushLatest prAuthor out curAuthor curState curValid =
     (if \<not> curValid \<or> curAuthor = prAuthor \<or> curAuthor = 0 then out
      else if decisive curState then AList.update curAuthor curState out else out)"

fun latestLoop :: "go_int64 \<Rightarrow> GateReview list \<Rightarrow> latest \<Rightarrow> go_int64 \<Rightarrow> PrReviewState \<Rightarrow> bool \<Rightarrow> latest" where
  "latestLoop pr [] out curAuthor curState curValid = flushLatest pr out curAuthor curState curValid"
| "latestLoop pr (r # rs) out curAuthor curState curValid =
     (let auth = int64FromPg (AuthorUserID r) in
      if auth \<noteq> curAuthor
      then latestLoop pr rs (flushLatest pr out curAuthor curState curValid) auth (revState r) True
      else latestLoop pr rs out curAuthor (if decisive (revState r) then revState r else curState) curValid)"

definition latestPerAuthor :: "GateReview list \<Rightarrow> go_int64 \<Rightarrow> latest" where
  "latestPerAuthor reviews prAuthor = latestLoop prAuthor reviews [] 0 StateComment False"

definition countLatestDecisions :: "latest \<Rightarrow> nat \<times> bool" where
  "countLatestDecisions l =
     (length (filter (\<lambda>(_, s). s = StateApprove) l), list_ex (\<lambda>(_, s). s = StateRequestChanges) l)"

definition latestApprovers :: "latest \<Rightarrow> go_int64 set" where
  "latestApprovers l = set (map fst (filter (\<lambda>(_, s). s = StateApprove) l))"

section \<open>Code owners\<close>

record CodeOwnerTargets =
  UserIDs :: "go_int64 list"
  TeamIDs :: "go_int64 list"

definition targetsEmpty :: "CodeOwnerTargets \<Rightarrow> bool" where
  "targetsEmpty t \<longleftrightarrow> UserIDs t = [] \<and> TeamIDs t = []"

fun teamsHaveApproval :: "(go_int64 \<Rightarrow> go_int64 list result) \<Rightarrow> go_int64 list \<Rightarrow> go_int64 set \<Rightarrow> bool result" where
  "teamsHaveApproval members [] approved = Inr False"
| "teamsHaveApproval members (t # ts) approved = (case members t of
     Inl e \<Rightarrow> Inl e
   | Inr ms \<Rightarrow> if list_ex (\<lambda>m. m \<in> approved) ms then Inr True else teamsHaveApproval members ts approved)"

definition targetsHaveApproval :: "(go_int64 \<Rightarrow> go_int64 list result) \<Rightarrow> CodeOwnerTargets \<Rightarrow> go_int64 set \<Rightarrow> bool result" where
  "targetsHaveApproval members t approved =
     (if list_ex (\<lambda>i. i \<in> approved) (UserIDs t) then Inr True
      else if TeamIDs t = [] \<or> approved = {} then Inr False
      else teamsHaveApproval members (TeamIDs t) approved)"

record GateInputs =
  BaseRef :: string
  BaseOID :: string
  GitDir :: string

text \<open>
  What code-owner review reads: the CODEOWNERS file at the base commit (a lookup from paths to the
  owners of the matching entry), the changed files, the resolution of owners to users and teams
  that may review, and the members of a team.
\<close>

record 'owner OwnerReads =
  LoadOwners :: "(string \<Rightarrow> 'owner list option) option result"
  ChangedFiles :: "string list result"
  ResolveTargets :: "'owner list \<Rightarrow> CodeOwnerTargets result"
  TeamMembers :: "go_int64 \<Rightarrow> go_int64 list result"

fun missingOwners :: "'owner OwnerReads \<Rightarrow> (string \<Rightarrow> 'owner list option) \<Rightarrow> go_int64 set \<Rightarrow> string list \<Rightarrow> string list result" where
  "missingOwners db ownersFor approved [] = Inr []"
| "missingOwners db ownersFor approved (path # paths) = (
     case ownersFor path of
       None \<Rightarrow> missingOwners db ownersFor approved paths
     | Some owners \<Rightarrow>
         if owners = [] then missingOwners db ownersFor approved paths
         else (case ResolveTargets db owners of Inl e \<Rightarrow> Inl e | Inr targets \<Rightarrow>
           if targetsEmpty targets then map_sum id ((#) path) (missingOwners db ownersFor approved paths)
           else (case targetsHaveApproval (TeamMembers db) targets approved of Inl e \<Rightarrow> Inl e | Inr ok \<Rightarrow>
             if ok then missingOwners db ownersFor approved paths
             else map_sum id ((#) path) (missingOwners db ownersFor approved paths))))"

definition codeOwnerReviewSatisfied :: "'owner OwnerReads \<Rightarrow> GateInputs \<Rightarrow> go_int64 set \<Rightarrow> (bool \<times> string list) result" where
  "codeOwnerReviewSatisfied db inp approved =
     (if GitDir inp = '''' \<or> BaseOID inp = '''' then Inr (False, [''CODEOWNERS''])
      else (case LoadOwners db of Inl e \<Rightarrow> Inl e
        | Inr None \<Rightarrow> Inr (True, [])
        | Inr (Some ownersFor) \<Rightarrow> (case ChangedFiles db of Inl e \<Rightarrow> Inl e | Inr files \<Rightarrow>
            (case missingOwners db ownersFor approved files of Inl e \<Rightarrow> Inl e | Inr missing \<Rightarrow>
              Inr (missing = [], missing)))))"

record GateResult =
  Satisfied :: bool
  gReason :: string
  RequiredCount :: int
  CurrentApprovals :: nat
  HasRequestChanges :: bool
  RequiresCodeOwnerReview :: bool
  CodeOwnerReviewSatisfied :: bool
  MissingCodeOwnerPaths :: "string list"

text \<open>
  \<open>Evaluate\<close>: the rules and the undismissed reviews of the pull request as read from the database,
  \<open>repoRead\<close> the error of reading the repository row if there is one.
\<close>

definition Evaluate :: "BranchProtectionRule list result \<Rightarrow> GateReview list result \<Rightarrow> string option \<Rightarrow> 'owner OwnerReads
    \<Rightarrow> GateInputs \<Rightarrow> go_int64 \<Rightarrow> GateResult result" where
  "Evaluate loaded listed repoRead db inp prAuthor = (case loaded of Inl e \<Rightarrow> Inl e | Inr rules \<Rightarrow>
     (let rule = MatchLongestRule rules (BaseRef inp) in
      case listed of Inl e \<Rightarrow> Inl e | Inr reviews \<Rightarrow>
      (let latest = latestPerAuthor reviews prAuthor;
           approves = fst (countLatestDecisions latest);
           requestChanges = snd (countLatestDecisions latest);
           required = (case rule of None \<Rightarrow> 0 | Some r \<Rightarrow> RequiredReviewCount r);
           ownerRule = (case rule of None \<Rightarrow> False | Some r \<Rightarrow> RequireCodeOwnerReview r);
           finish = (\<lambda>ok missing.
             let reason = (if requestChanges then ''Changes requested by a reviewer.''
                           else if int approves < required then ''Approval required.''
                           else if ownerRule \<and> \<not> ok then ''Code owner review required.'' else '''') in
             Inr \<lparr>Satisfied = (reason = ''''), gReason = reason, RequiredCount = required, CurrentApprovals = approves,
                  HasRequestChanges = requestChanges, RequiresCodeOwnerReview = ownerRule,
                  CodeOwnerReviewSatisfied = ok, MissingCodeOwnerPaths = missing\<rparr>) in
       if ownerRule then
         (case repoRead of Some e \<Rightarrow> Inl e | None \<Rightarrow>
           (case codeOwnerReviewSatisfied db inp (latestApprovers latest) of Inl e \<Rightarrow> Inl e | Inr (ok, missing) \<Rightarrow>
              finish ok missing))
       else finish False [])))"

section \<open>Required checks\<close>

datatype CheckStatus = CheckQueued | CheckInProgress | CheckCompleted | CheckPending

datatype CheckConclusion =
    Success | Failure | Neutral | Cancelled | Skipped | TimedOut | ActionRequired | Stale

record CheckRun =
  runStatus :: CheckStatus
  runConclusion :: "CheckConclusion option"

definition runSatisfies :: "CheckRun \<Rightarrow> bool" where
  "runSatisfies r = (runStatus r = CheckCompleted \<and>
     (case runConclusion r of None \<Rightarrow> False | Some c \<Rightarrow> c = Success \<or> c = Neutral))"

record CheckGate =
  chkSatisfied :: bool
  chkReason :: string
  Missing :: "string list"

text \<open>\<open>lookup name\<close>: the latest run with that name on the head commit, \<open>Inr None\<close> when there is none.\<close>

fun missingChecks :: "(string \<Rightarrow> CheckRun option result) \<Rightarrow> string list \<Rightarrow> (string \<times> string) + string list" where
  "missingChecks lookup [] = Inr []"
| "missingChecks lookup (n # ns) = (case lookup n of
     Inl e \<Rightarrow> Inl (n, e)
   | Inr run \<Rightarrow> (case missingChecks lookup ns of Inl e \<Rightarrow> Inl e | Inr ms \<Rightarrow>
       (case run of
          None \<Rightarrow> Inr (n # ms)
        | Some r \<Rightarrow> if runSatisfies r then Inr ms else Inr (n # ms))))"

definition EvaluateRequiredChecks :: "(string \<Rightarrow> CheckRun option result) \<Rightarrow> string \<Rightarrow> string list \<Rightarrow> (string \<times> string) + CheckGate" where
  "EvaluateRequiredChecks lookup headSHA required =
     (if required = [] then Inr \<lparr>chkSatisfied = True, chkReason = '''', Missing = []\<rparr>
      else if headSHA = '''' then
        Inr \<lparr>chkSatisfied = False, chkReason = ''head SHA not yet recorded for this PR'', Missing = required\<rparr>
      else (case missingChecks lookup required of Inl e \<Rightarrow> Inl e | Inr missing \<Rightarrow>
        if missing = [] then Inr \<lparr>chkSatisfied = True, chkReason = '''', Missing = []\<rparr>
        else Inr \<lparr>chkSatisfied = False,
                  chkReason = (if length missing > 1 then ''Required checks missing: ['' @ Join missing '' '' @ '']''
                               else ''Required check missing: '' @ hd missing),
                  Missing = missing\<rparr>))"

section \<open>Roll-ups\<close>

definition priority :: "CheckConclusion list" where
  "priority = [Failure, TimedOut, Cancelled, ActionRequired, Success, Neutral, Skipped, Stale]"

fun rankIn :: "'a \<Rightarrow> 'a list \<Rightarrow> int" where
  "rankIn c [] = 0"
| "rankIn c (x # xs) = (if c = x then 0 else 1 + rankIn c xs)"

definition rollupStep :: "int \<Rightarrow> CheckRun \<Rightarrow> int" where
  "rollupStep bestIdx r = (case runConclusion r of
     None \<Rightarrow> bestIdx
   | Some c \<Rightarrow> let idx = rankIn c priority in if bestIdx < 0 \<or> idx < bestIdx then idx else bestIdx)"

definition DeriveSuiteRollup :: "CheckRun list \<Rightarrow> CheckStatus \<times> CheckConclusion option" where
  "DeriveSuiteRollup runs =
     (if runs = [] then (CheckQueued, None)
      else if list_ex (\<lambda>r. runStatus r \<noteq> CheckCompleted) runs then
        (if list_ex (\<lambda>r. runStatus r \<noteq> CheckQueued) runs then (CheckInProgress, None) else (CheckQueued, None))
      else (let bestIdx = foldl rollupStep (-1) runs in
        if bestIdx < 0 then (CheckCompleted, Some Neutral) else (CheckCompleted, Some (priority ! nat bestIdx))))"

datatype WorkflowJobStatus = JobQueued | JobRunning | JobCompleted | JobCancelled | JobSkipped

record Job =
  jobStatus :: WorkflowJobStatus
  jobConclusion :: "CheckConclusion option"

fun runLoop :: "Job list \<Rightarrow> CheckConclusion \<Rightarrow> CheckConclusion option \<Rightarrow> CheckConclusion option" where
  "runLoop [] worst firstFailure = Some (case firstFailure of Some f \<Rightarrow> f | None \<Rightarrow> worst)"
| "runLoop (j # js) worst firstFailure =
     (if jobStatus j \<notin> {JobCompleted, JobCancelled, JobSkipped} then None
      else if jobStatus j = JobCancelled then runLoop js Cancelled firstFailure
      else (case jobConclusion j of
        None \<Rightarrow> Some Failure
      | Some c \<Rightarrow>
          if c = Failure \<or> c = TimedOut \<or> c = ActionRequired
          then runLoop js worst (if firstFailure = None then Some c else firstFailure)
          else runLoop js (if c = Cancelled then Cancelled else worst) firstFailure))"

text \<open>\<open>None\<close> is the code's \<^verbatim>\<open>("", false)\<close>: the run is not complete.\<close>

definition DeriveWorkflowRunConclusion :: "Job list \<Rightarrow> CheckConclusion option" where
  "DeriveWorkflowRunConclusion jobs = (if jobs = [] then Some Failure else runLoop jobs Success None)"

section \<open>Comment positions\<close>

text \<open>\<open>lineAt blob n\<close>: the bytes of line \<open>n\<close> (from one), without its newline; a nil blob is \<open>None\<close>.\<close>

fun lineLoop :: "string \<Rightarrow> string \<Rightarrow> int \<Rightarrow> int \<Rightarrow> string option" where
  "lineLoop cur [] line n = (if line = n \<and> cur \<noteq> [] then Some cur else None)"
| "lineLoop cur (c # cs) line n =
     (if c = CHR 0x0A then (if line = n then Some cur else lineLoop [] cs (line + 1) n)
      else lineLoop (cur @ [c]) cs line n)"

definition lineAt :: "string option \<Rightarrow> int \<Rightarrow> string option" where
  "lineAt blob n = (case blob of None \<Rightarrow> None | Some b \<Rightarrow> if n < 1 then None else lineLoop [] b 1 n)"

definition newPosition :: "string option \<Rightarrow> string option \<Rightarrow> int \<Rightarrow> int option" where
  "newPosition original current n = (case lineAt original n of
     None \<Rightarrow> None
   | Some l \<Rightarrow> (case lineAt current n of None \<Rightarrow> None | Some l' \<Rightarrow> if l = l' then Some n else None))"

section \<open>The latest decision of each author\<close>

abbreviation reviewer :: "GateReview \<Rightarrow> go_int64" where
  "reviewer r \<equiv> int64FromPg (AuthorUserID r)"

text \<open>The database returns reviews author by author; within an author, oldest first.\<close>

fun byAuthor :: "GateReview list \<Rightarrow> bool" where
  "byAuthor [] = True"
| "byAuthor (r # rs) \<longleftrightarrow> byAuthor rs \<and> (reviewer r \<in> reviewer ` set rs \<longrightarrow> reviewer (hd rs) = reviewer r)"

fun lastDecision :: "GateReview list \<Rightarrow> go_int64 \<Rightarrow> PrReviewState option" where
  "lastDecision [] a = None"
| "lastDecision (r # rs) a = (case lastDecision rs a of
     Some s \<Rightarrow> Some s
   | None \<Rightarrow> if reviewer r = a \<and> decisive (revState r) then Some (revState r) else None)"

lemma lastDecision_absent: "a \<notin> reviewer ` set rs \<Longrightarrow> lastDecision rs a = None"
  by (induction rs) auto

lemma flushLatest_map: "map_of (flushLatest pr out cur st valid) =
    (if valid \<and> cur \<noteq> pr \<and> cur \<noteq> 0 \<and> decisive st then (map_of out)(cur \<mapsto> st) else map_of out)"
  by (auto simp: flushLatest_def update_conv)

lemma flushLatest_distinct: "distinct (map fst out) \<Longrightarrow> distinct (map fst (flushLatest pr out cur st valid))"
  by (auto simp: flushLatest_def distinct_update)

lemma latestLoop_spec:
  assumes "byAuthor rs" "valid \<longrightarrow> cur \<in> reviewer ` set rs \<longrightarrow> reviewer (hd rs) = cur" "cur \<noteq> 0 \<longrightarrow> valid"
  shows "map_of (latestLoop pr rs out cur st valid) a =
    (if a = 0 \<or> a = pr then map_of out a
     else case lastDecision rs a of
       Some s \<Rightarrow> Some s
     | None \<Rightarrow> if a = cur \<and> decisive st then Some st else map_of out a)"
  using assms
proof (induction rs arbitrary: out cur st valid)
  case Nil
  then show ?case by (auto simp: flushLatest_map)
next
  case (Cons r rs)
  have by_rs: "byAuthor rs" "reviewer r \<in> reviewer ` set rs \<longrightarrow> reviewer (hd rs) = reviewer r" using Cons.prems(1) by auto
  show ?case
  proof (cases "reviewer r = cur")
    case True
    let ?st = "if decisive (revState r) then revState r else st"
    have "map_of (latestLoop pr rs out cur ?st valid) a =
      (if a = 0 \<or> a = pr then map_of out a
       else case lastDecision rs a of Some s \<Rightarrow> Some s | None \<Rightarrow> if a = cur \<and> decisive ?st then Some ?st else map_of out a)"
      using by_rs True Cons.prems(3) by (intro Cons.IH) auto
    then show ?thesis using True by (auto simp: Let_def split: option.split)
  next
    case False
    have "lastDecision rs cur = None" if valid
      using Cons.prems(2) False that by (intro lastDecision_absent) auto
    moreover have "map_of (latestLoop pr rs (flushLatest pr out cur st valid) (reviewer r) (revState r) True) a =
      (if a = 0 \<or> a = pr then map_of (flushLatest pr out cur st valid) a
       else case lastDecision rs a of Some s \<Rightarrow> Some s
          | None \<Rightarrow> if a = reviewer r \<and> decisive (revState r) then Some (revState r) else map_of (flushLatest pr out cur st valid) a)"
      using by_rs by (intro Cons.IH) auto
    ultimately show ?thesis using False Cons.prems(3) by (auto simp: Let_def flushLatest_map split: option.split)
  qed
qed

lemma latestLoop_distinct: "distinct (map fst out) \<Longrightarrow> distinct (map fst (latestLoop pr rs out cur st valid))"
  by (induction rs arbitrary: out cur st valid) (simp_all add: Let_def flushLatest_distinct)

lemma latestPerAuthor_spec:
  assumes "byAuthor reviews"
  shows "map_of (latestPerAuthor reviews pr) a = (if a = 0 \<or> a = pr then None else lastDecision reviews a)"
    and "distinct (map fst (latestPerAuthor reviews pr))"
  using latestLoop_spec [OF assms, of False 0 pr "[]" StateComment a] latestLoop_distinct [of "[]" pr reviews 0 StateComment False]
  by (auto simp: latestPerAuthor_def split: option.split)

lemma count_by_author:
  assumes "distinct (map fst l)"
  shows "length (filter (\<lambda>(_, s). s = x) l) = card {a. map_of l a = Some x}"
proof -
  have "{a. map_of l a = Some x} = fst ` set (filter (\<lambda>(_, s). s = x) l)"
    using assms by (auto simp: map_of_eq_Some_iff image_iff)
  moreover have "distinct (map fst (filter (\<lambda>(_, s). s = x) l))" using assms by (rule distinct_map_filter)
  ultimately show ?thesis by (metis distinct_card length_map list.set_map)
qed

section \<open>Properties of the gates\<close>

text \<open>Who approves, and whether someone blocks: the last decisive review of each other author.\<close>

definition approvers :: "GateReview list \<Rightarrow> go_int64 \<Rightarrow> go_int64 set" where
  "approvers reviews pr = {a. a \<noteq> 0 \<and> a \<noteq> pr \<and> lastDecision reviews a = Some StateApprove}"

definition blockers :: "GateReview list \<Rightarrow> go_int64 \<Rightarrow> go_int64 set" where
  "blockers reviews pr = {a. a \<noteq> 0 \<and> a \<noteq> pr \<and> lastDecision reviews a = Some StateRequestChanges}"

lemma latest_counts:
  assumes "byAuthor reviews"
  shows "countLatestDecisions (latestPerAuthor reviews pr) = (card (approvers reviews pr), blockers reviews pr \<noteq> {})"
    and "latestApprovers (latestPerAuthor reviews pr) = approvers reviews pr"
proof -
  note m = latestPerAuthor_spec [OF assms, where pr = pr]
  have ap: "{a. map_of (latestPerAuthor reviews pr) a = Some StateApprove} = approvers reviews pr"
    by (auto simp: m(1) approvers_def)
  have "list_ex (\<lambda>(_, s). s = StateRequestChanges) (latestPerAuthor reviews pr)
      \<longleftrightarrow> (\<exists>a. map_of (latestPerAuthor reviews pr) a = Some StateRequestChanges)"
    using m(2) by (auto simp: list_ex_iff map_of_eq_Some_iff)
  also have "\<dots> \<longleftrightarrow> blockers reviews pr \<noteq> {}" by (auto simp: m(1) blockers_def)
  finally show "countLatestDecisions (latestPerAuthor reviews pr) = (card (approvers reviews pr), blockers reviews pr \<noteq> {})"
    using count_by_author [OF m(2), of StateApprove] ap by (simp add: countLatestDecisions_def)
  have "latestApprovers (latestPerAuthor reviews pr) = {a. map_of (latestPerAuthor reviews pr) a = Some StateApprove}"
    using m(2) by (force simp: latestApprovers_def map_of_eq_Some_iff)
  then show "latestApprovers (latestPerAuthor reviews pr) = approvers reviews pr" using ap by simp
qed

text \<open>
  The review gate is satisfied exactly when no other author's latest decisive review requests
  changes, at least the required number of other authors' latest decisive reviews approve, and, if
  the governing rule asks for it, every owned file has a code owner among the approvers. Comments
  never change an author's standing, and the pull request's author never counts.
\<close>

theorem review_gate_satisfied_iff:
  assumes "Evaluate (Inr rules) (Inr reviews) None db inp pr = Inr g" "byAuthor reviews"
  shows "Satisfied g \<longleftrightarrow> blockers reviews pr = {} \<and>
    (\<forall>r. MatchLongestRule rules (BaseRef inp) = Some r \<longrightarrow>
       RequiredReviewCount r \<le> int (card (approvers reviews pr)) \<and>
       (RequireCodeOwnerReview r \<longrightarrow> (\<exists>missing. codeOwnerReviewSatisfied db inp (approvers reviews pr) = Inr (True, missing))))"
  using assms(1) latest_counts [OF assms(2), of pr]
  by (cases "MatchLongestRule rules (BaseRef inp)")
     (auto simp: Evaluate_def Let_def split: if_split_asm sum.split_asm prod.split_asm)

definition no_reads :: "unit OwnerReads" where
  "no_reads = \<lparr>LoadOwners = Inr None, ChangedFiles = Inr [], ResolveTargets = \<lambda>_. Inl '''', TeamMembers = \<lambda>_. Inl ''''\<rparr>"

definition demo_reviews :: "GateReview list" where
  "demo_reviews = [\<lparr>AuthorUserID = Some 5, revState = StateRequestChanges\<rparr>, \<lparr>AuthorUserID = Some 5, revState = StateApprove\<rparr>,
     \<lparr>AuthorUserID = Some 5, revState = StateComment\<rparr>, \<lparr>AuthorUserID = Some 6, revState = StateComment\<rparr>]"

theorem review_gate_satisfied_iff_witness:
  "\<exists>g. Evaluate (Inr []) (Inr demo_reviews) None no_reads \<lparr>BaseRef = ''main'', BaseOID = '''', GitDir = ''''\<rparr> 9 = Inr g \<and> Satisfied g"
proof -
  obtain g where g: "Evaluate (Inr []) (Inr demo_reviews) None no_reads \<lparr>BaseRef = ''main'', BaseOID = '''', GitDir = ''''\<rparr> 9 = Inr g"
    by (simp add: Evaluate_def Let_def MatchLongestRule_def matchRuleForTarget_def)
  have "byAuthor demo_reviews" "blockers demo_reviews 9 = {}"
    by (auto simp: demo_reviews_def int64FromPg_def blockers_def decisive_def split: if_split_asm)
  with review_gate_satisfied_iff [OF g] g show ?thesis by (simp add: MatchLongestRule_def matchRuleForTarget_def)
qed

text \<open>
  Without any matching rule a pull request with an unresolved change request is still blocked,
  although the documentation of the gate promises it is satisfied when no rule matches.
\<close>

theorem change_request_blocks_without_rule:
  "\<exists>g. Evaluate (Inr []) (Inr [\<lparr>AuthorUserID = Some 5, revState = StateRequestChanges\<rparr>]) None no_reads
     \<lparr>BaseRef = ''main'', BaseOID = '''', GitDir = ''''\<rparr> 9 = Inr g \<and> \<not> Satisfied g"
  by (simp add: Evaluate_def Let_def MatchLongestRule_def matchRuleForTarget_def latestPerAuthor_def
      int64FromPg_def flushLatest_def decisive_def countLatestDecisions_def)

lemma missingOwners_filter:
  "missingOwners db ownersFor approved files = Inr ms \<Longrightarrow>
   ms = filter (\<lambda>p. \<exists>owners ts. ownersFor p = Some owners \<and> owners \<noteq> [] \<and> ResolveTargets db owners = Inr ts \<and>
          (targetsEmpty ts \<or> targetsHaveApproval (TeamMembers db) ts approved = Inr False)) files"
proof (induction files arbitrary: ms)
  case (Cons p ps)
  have tail: "\<exists>rest. missingOwners db ownersFor approved ps = Inr rest"
    using Cons.prems by (cases "missingOwners db ownersFor approved ps") (auto split: option.split_asm if_split_asm sum.split_asm)
  then obtain rest where r: "missingOwners db ownersFor approved ps = Inr rest" by blast
  show ?case using Cons.prems Cons.IH [OF r] r
    by (auto split: option.split_asm if_split_asm sum.split_asm)
qed simp

lemma missingOwners_decided:
  "missingOwners db ownersFor approved files = Inr ms \<Longrightarrow> path \<in> set files \<Longrightarrow> ownersFor path = Some owners \<Longrightarrow> owners \<noteq> [] \<Longrightarrow>
   ResolveTargets db owners = Inr ts \<Longrightarrow> \<not> targetsEmpty ts \<Longrightarrow> \<exists>b. targetsHaveApproval (TeamMembers db) ts approved = Inr b"
proof (induction files arbitrary: ms)
  case (Cons p ps)
  show ?case
  proof (cases "path = p")
    case True
    then show ?thesis using Cons.prems by (auto split: sum.split_asm)
  next
    case False
    obtain rest where "missingOwners db ownersFor approved ps = Inr rest"
      using Cons.prems(1) by (cases "missingOwners db ownersFor approved ps") (auto split: option.split_asm if_split_asm sum.split_asm)
    then show ?thesis using Cons.IH Cons.prems False by auto
  qed
qed simp

lemma teamsHaveApproval_True:
  "teamsHaveApproval members ts approved = Inr True \<Longrightarrow> \<exists>t \<in> set ts. \<exists>ms. members t = Inr ms \<and> set ms \<inter> approved \<noteq> {}"
  by (induction ts) (auto split: sum.split_asm if_split_asm simp: list_ex_iff)

lemma targetsHaveApproval_True:
  "targetsHaveApproval members ts approved = Inr True \<Longrightarrow>
     set (UserIDs ts) \<inter> approved \<noteq> {} \<or> (\<exists>t \<in> set (TeamIDs ts). \<exists>ms. members t = Inr ms \<and> set ms \<inter> approved \<noteq> {})"
  by (auto simp: targetsHaveApproval_def list_ex_iff split: if_split_asm dest: teamsHaveApproval_True)

text \<open>
  When the code-owner gate passes and the base commit has a CODEOWNERS file, every changed file
  with an owned entry has an approver who is one of the users its owners resolve to, or a member of
  one of the teams they resolve to; in particular owners that resolve to nobody block.
\<close>

theorem owned_files_have_owner_approval:
  assumes "codeOwnerReviewSatisfied db inp approved = Inr (True, missing)"
    and "LoadOwners db = Inr (Some ownersFor)" "ChangedFiles db = Inr files"
    and "path \<in> set files" "ownersFor path = Some owners" "owners \<noteq> []" "ResolveTargets db owners = Inr ts"
  shows "\<exists>u \<in> approved. u \<in> set (UserIDs ts) \<or>
    (\<exists>t \<in> set (TeamIDs ts). \<exists>ms. TeamMembers db t = Inr ms \<and> u \<in> set ms)"
proof -
  have m: "missingOwners db ownersFor approved files = Inr []"
    using assms(1-3) by (auto simp: codeOwnerReviewSatisfied_def split: if_split_asm sum.split_asm)
  have decided: "\<exists>b. targetsHaveApproval (TeamMembers db) ts approved = Inr b" if "\<not> targetsEmpty ts"
    by (rule missingOwners_decided [OF m assms(4-7) that])
  have "\<not> targetsEmpty ts" "targetsHaveApproval (TeamMembers db) ts approved \<noteq> Inr False"
    using missingOwners_filter [OF m, symmetric] assms(4-7) by (auto simp: filter_empty_conv)
  then have "targetsHaveApproval (TeamMembers db) ts approved = Inr True" using decided by (metis (full_types))
  then show ?thesis using targetsHaveApproval_True by blast
qed

definition team_reads :: "nat OwnerReads" where
  "team_reads = \<lparr>LoadOwners = Inr (Some (\<lambda>p. Some [0])), ChangedFiles = Inr [''a''],
     ResolveTargets = \<lambda>_. Inr \<lparr>UserIDs = [], TeamIDs = [3]\<rparr>, TeamMembers = \<lambda>_. Inr [8]\<rparr>"

theorem owned_files_have_owner_approval_witness:
  "\<exists>u \<in> {8}. u \<in> set (UserIDs \<lparr>UserIDs = [], TeamIDs = [3]\<rparr>) \<or>
    (\<exists>t \<in> set (TeamIDs \<lparr>UserIDs = [], TeamIDs = [3]\<rparr>). \<exists>ms. TeamMembers team_reads t = Inr ms \<and> u \<in> set ms)"
  by (rule owned_files_have_owner_approval [of team_reads "\<lparr>BaseRef = '''', BaseOID = ''b'', GitDir = ''g''\<rparr>" "{8}" "[]" "\<lambda>p. Some [0]" "[''a'']" "''a''" "[0]"])
     (simp_all add: team_reads_def codeOwnerReviewSatisfied_def targetsEmpty_def targetsHaveApproval_def)

lemma missingChecks_filter:
  "missingChecks lookup ns = Inr ms \<Longrightarrow>
     ms = filter (\<lambda>n. \<not> (\<exists>r. lookup n = Inr (Some r) \<and> runSatisfies r)) ns"
proof (induction ns arbitrary: ms)
  case (Cons n ns)
  then obtain run rest where r: "lookup n = Inr run" "missingChecks lookup ns = Inr rest"
    by (auto split: sum.split_asm)
  then show ?case using Cons.prems Cons.IH [OF r(2)] by (auto split: option.split_asm if_split_asm)
qed simp

text \<open>
  The required-check gate passes exactly when every required name has a completed run on the head
  commit that concluded \<^verbatim>\<open>success\<close> or \<^verbatim>\<open>neutral\<close> (and there is a head commit), and otherwise lists exactly
  the names that lack one, in order.
\<close>

theorem required_checks_gate_iff:
  assumes "EvaluateRequiredChecks lookup sha required = Inr g" "required \<noteq> []"
  shows "(chkSatisfied g \<longleftrightarrow> sha \<noteq> '''' \<and> (\<forall>n \<in> set required. \<exists>r. lookup n = Inr (Some r) \<and> runSatisfies r)) \<and>
    Missing g = (if sha = '''' then required
                 else filter (\<lambda>n. \<not> (\<exists>r. lookup n = Inr (Some r) \<and> runSatisfies r)) required)"
proof (cases "sha = ''''")
  case True
  then show ?thesis using assms by (auto simp: EvaluateRequiredChecks_def)
next
  case False
  then obtain ms where ms: "missingChecks lookup required = Inr ms"
    using assms by (auto simp: EvaluateRequiredChecks_def split: sum.split_asm)
  then have "chkSatisfied g \<longleftrightarrow> ms = []" "Missing g = ms"
    using assms False by (auto simp: EvaluateRequiredChecks_def split: if_split_asm)
  then show ?thesis using missingChecks_filter [OF ms] False by (auto simp: filter_empty_conv)
qed

theorem required_checks_gate_iff_witness:
  "\<exists>g. EvaluateRequiredChecks (\<lambda>n. Inr (if n = ''ci'' then Some \<lparr>runStatus = CheckCompleted, runConclusion = Some Success\<rparr> else None))
     ''abc'' [''ci'', ''lint''] = Inr g \<and> Missing g = [''lint'']"
  (is "\<exists>g. EvaluateRequiredChecks ?l _ _ = _ \<and> _")
proof -
  obtain g where g: "EvaluateRequiredChecks ?l ''abc'' [''ci'', ''lint''] = Inr g"
    by (simp add: EvaluateRequiredChecks_def runSatisfies_def)
  with required_checks_gate_iff [OF g] show ?thesis by (simp add: runSatisfies_def)
qed


text \<open>The roll-up keeps the smallest rank seen; \<open>priority\<close> lists each conclusion once.\<close>

lemma rankIn_priority: "0 \<le> rankIn c priority \<and> nat (rankIn c priority) < length priority \<and> priority ! nat (rankIn c priority) = c"
  by (cases c) (simp_all add: priority_def)

interpretation rank_pick: pick_best "(<) :: int \<Rightarrow> int \<Rightarrow> bool"
  by unfold_locales auto

definition conclusions :: "CheckRun list \<Rightarrow> CheckConclusion list" where
  "conclusions runs = concat (map (\<lambda>r. case runConclusion r of None \<Rightarrow> [] | Some c \<Rightarrow> [c]) runs)"

lemma conclusions_mem: "c \<in> set (conclusions runs) \<longleftrightarrow> (\<exists>r \<in> set runs. runConclusion r = Some c)"
  by (force simp: conclusions_def split: option.split)

lemma rollup_started: "0 \<le> b \<Longrightarrow> foldl rollupStep b runs = foldl (keep_better (<)) b (map (\<lambda>c. rankIn c priority) (conclusions runs))"
proof (induction runs arbitrary: b)
  case (Cons r rs)
  have "0 \<le> rankIn c priority" for c using rankIn_priority by blast
  then have "0 \<le> rollupStep b r" using Cons.prems by (auto simp: rollupStep_def Let_def split: option.split)
  from Cons.IH [OF this] show ?case
    using Cons.prems by (auto simp: conclusions_def rollupStep_def keep_better_def Let_def split: option.split)
qed (simp add: conclusions_def)

lemma rollup_fold: "foldl rollupStep (-1) runs = (case conclusions runs of
    [] \<Rightarrow> -1 | c # cs \<Rightarrow> foldl (keep_better (<)) (rankIn c priority) (map (\<lambda>c. rankIn c priority) cs))"
proof (induction runs)
  case (Cons r rs)
  show ?case
  proof (cases "runConclusion r")
    case None
    then show ?thesis using Cons by (simp add: conclusions_def rollupStep_def)
  next
    case (Some c)
    then have "foldl rollupStep (-1) (r # rs) = foldl rollupStep (rankIn c priority) rs" by (simp add: rollupStep_def)
    also have "\<dots> = foldl (keep_better (<)) (rankIn c priority) (map (\<lambda>c. rankIn c priority) (conclusions rs))"
      using rankIn_priority by (intro rollup_started) blast
    finally show ?thesis using Some by (simp add: conclusions_def)
  qed
qed (simp add: conclusions_def)

text \<open>
  A check suite is completed exactly when it has runs and all are completed, and only then has a
  conclusion: the one of highest priority (failure first, stale last) among its runs' conclusions, or
  neutral if none has any.
\<close>

theorem suite_rollup_takes_worst_conclusion:
  assumes "DeriveSuiteRollup runs = (st, concl)"
  shows "(st = CheckCompleted \<longleftrightarrow> runs \<noteq> [] \<and> (\<forall>r \<in> set runs. runStatus r = CheckCompleted)) \<and>
    (concl = None \<longleftrightarrow> st \<noteq> CheckCompleted) \<and>
    (\<forall>c. concl = Some c \<longrightarrow> (\<forall>r \<in> set runs. runConclusion r = None) \<and> c = Neutral \<or>
       (\<exists>r \<in> set runs. runConclusion r = Some c) \<and>
       (\<forall>r \<in> set runs. \<forall>d. runConclusion r = Some d \<longrightarrow> rankIn c priority \<le> rankIn d priority))"
proof (cases "runs \<noteq> [] \<and> (\<forall>r \<in> set runs. runStatus r = CheckCompleted)")
  case False
  then show ?thesis using assms by (auto simp: DeriveSuiteRollup_def list_ex_iff split: if_split_asm)
next
  case True
  let ?b = "foldl rollupStep (-1) runs"
  have run: "DeriveSuiteRollup runs = (CheckCompleted, Some (if ?b < 0 then Neutral else priority ! nat ?b))"
    using True by (auto simp: DeriveSuiteRollup_def list_ex_iff Let_def)
  show ?thesis
  proof (cases "conclusions runs")
    case Nil
    then have "\<forall>r \<in> set runs. runConclusion r = None" using conclusions_mem [of _ runs] by (auto intro: option.exhaust)
    then show ?thesis using True run assms Nil by (simp add: rollup_fold)
  next
    case (Cons c0 cs)
    let ?ranks = "insert (rankIn c0 priority) (set (map (\<lambda>c. rankIn c priority) cs))"
    have ranks: "?ranks = (\<lambda>c. rankIn c priority) ` set (conclusions runs)" using Cons by auto
    have eq: "?b = foldl (keep_better (<)) (rankIn c0 priority) (map (\<lambda>c. rankIn c priority) cs)"
      using Cons by (simp add: rollup_fold)
    have b: "?b \<in> ?ranks" "\<And>y. y \<in> ?ranks \<Longrightarrow> \<not> y < ?b"
      unfolding eq by (rule rank_pick.keep_mem, rule rank_pick.keep_best)
    obtain c where c: "c \<in> set (conclusions runs)" "?b = rankIn c priority" using b(1) unfolding ranks by blast
    have "\<not> ?b < 0" "priority ! nat ?b = c" using rankIn_priority [of c] c(2) by auto
    then have "concl = Some c" "st = CheckCompleted" using run assms by simp_all
    moreover have "rankIn c priority \<le> rankIn d priority" if "r \<in> set runs" "runConclusion r = Some d" for r d
      using b(2) [unfolded ranks] conclusions_mem [of d runs] that c(2) by fastforce
    ultimately show ?thesis using True c(1) conclusions_mem [of c runs] by blast
  qed
qed

theorem suite_rollup_takes_worst_conclusion_witness:
  "\<exists>concl. DeriveSuiteRollup [\<lparr>runStatus = CheckCompleted, runConclusion = Some Success\<rparr>, \<lparr>runStatus = CheckCompleted, runConclusion = Some TimedOut\<rparr>]
     = (CheckCompleted, concl) \<and> concl \<noteq> None"
proof -
  obtain st concl where r: "DeriveSuiteRollup [\<lparr>runStatus = CheckCompleted, runConclusion = Some Success\<rparr>,
      \<lparr>runStatus = CheckCompleted, runConclusion = Some TimedOut\<rparr>] = (st, concl)" by fastforce
  from suite_rollup_takes_worst_conclusion [OF r] r show ?thesis by auto
qed


abbreviation terminal :: "Job \<Rightarrow> bool" where
  "terminal j \<equiv> jobStatus j \<in> {JobCompleted, JobCancelled, JobSkipped}"

definition failing :: "Job \<Rightarrow> bool" where
  "failing j \<longleftrightarrow> jobStatus j \<noteq> JobCancelled \<and> jobConclusion j \<in> {Some Failure, Some TimedOut, Some ActionRequired}"

definition cancelledJob :: "Job \<Rightarrow> bool" where
  "cancelledJob j \<longleftrightarrow> jobStatus j = JobCancelled \<or> jobConclusion j = Some Cancelled"

lemma runLoop_spec:
  assumes "\<forall>j \<in> set js. terminal j \<and> jobStatus j \<noteq> JobCancelled \<longrightarrow> jobConclusion j \<noteq> None"
  shows "runLoop js worst ff = (if \<forall>j \<in> set js. terminal j
     then Some (case ff of Some f \<Rightarrow> f | None \<Rightarrow>
       (case find failing js of Some j \<Rightarrow> the (jobConclusion j)
        | None \<Rightarrow> if \<exists>j \<in> set js. cancelledJob j then Cancelled else worst))
     else None)"
  using assms
proof (induction js arbitrary: worst ff)
  case (Cons j js)
  show ?case
  proof (cases "terminal j")
    case False
    then show ?thesis by auto
  next
    case True
    show ?thesis
    proof (cases "jobStatus j = JobCancelled")
      case c: True
      then have "\<not> failing j" "cancelledJob j" by (simp_all add: failing_def cancelledJob_def)
      then show ?thesis using c Cons by (simp split: option.split)
    next
      case c: False
      then obtain k where k: "jobConclusion j = Some k" using Cons.prems True by auto
      have "failing j \<longleftrightarrow> k = Failure \<or> k = TimedOut \<or> k = ActionRequired" "cancelledJob j \<longleftrightarrow> k = Cancelled"
        using c k by (auto simp: failing_def cancelledJob_def)
      moreover note Cons.IH
      moreover have "\<forall>j \<in> set js. terminal j \<and> jobStatus j \<noteq> JobCancelled \<longrightarrow> jobConclusion j \<noteq> None" using Cons.prems unfolding list.set by blast
      ultimately show ?thesis using c k True
        by (cases "k = Failure \<or> k = TimedOut \<or> k = ActionRequired"; cases ff; cases "k = Cancelled") auto
    qed
  qed
qed (simp split: option.split)

text \<open>
  If every finished job has a conclusion, a workflow run with jobs completes exactly when all its
  jobs are terminal; it then takes the conclusion of the first failing job, is cancelled if no job
  failed but one was cancelled, and succeeds otherwise.
\<close>

theorem run_conclusion_is_first_failure:
  assumes "jobs \<noteq> []" "\<forall>j \<in> set jobs. terminal j \<and> jobStatus j \<noteq> JobCancelled \<longrightarrow> jobConclusion j \<noteq> None"
  shows "DeriveWorkflowRunConclusion jobs = (if \<forall>j \<in> set jobs. terminal j
     then (case find failing jobs of Some j \<Rightarrow> jobConclusion j
           | None \<Rightarrow> Some (if \<exists>j \<in> set jobs. cancelledJob j then Cancelled else Success))
     else None)"
proof -
  have "jobConclusion j \<noteq> None" if "find failing jobs = Some j" for j
    using that by (auto simp: find_Some_iff failing_def)
  then show ?thesis
    unfolding DeriveWorkflowRunConclusion_def using assms(1) runLoop_spec [OF assms(2), of Success None]
    by (auto split: option.split)
qed

theorem run_conclusion_is_first_failure_witness:
  "DeriveWorkflowRunConclusion [\<lparr>jobStatus = JobCancelled, jobConclusion = None\<rparr>, \<lparr>jobStatus = JobCompleted, jobConclusion = Some TimedOut\<rparr>,
     \<lparr>jobStatus = JobCompleted, jobConclusion = Some Failure\<rparr>] = Some TimedOut"
  by (subst run_conclusion_is_first_failure) (auto simp: failing_def)

text \<open>
  A job that finished without a recorded conclusion completes its run as failed even while another
  job is still running, although a run is documented to complete only when all jobs are terminal.
\<close>

theorem run_completes_while_job_runs:
  "DeriveWorkflowRunConclusion [\<lparr>jobStatus = JobCompleted, jobConclusion = None\<rparr>, \<lparr>jobStatus = JobRunning, jobConclusion = None\<rparr>]
     = Some Failure"
  by (simp add: DeriveWorkflowRunConclusion_def)

section \<open>Lines\<close>

fun textLines :: "string \<Rightarrow> string \<Rightarrow> string list" where
  "textLines cur [] = (if cur = [] then [] else [cur])"
| "textLines cur (c # cs) = (if c = CHR 0x0A then cur # textLines [] cs else textLines (cur @ [c]) cs)"

lemma lineLoop_lines: "line \<le> n \<Longrightarrow> lineLoop cur b line n =
    (if nat (n - line) < length (textLines cur b) then Some (textLines cur b ! nat (n - line)) else None)"
proof (induction cur b line n rule: lineLoop.induct)
  case (2 cur c cs line n)
  show ?case
  proof (cases "c = CHR 0x0A \<and> line \<noteq> n")
    case True
    then have "nat (n - line) = Suc (nat (n - (line + 1)))" using 2(3) by linarith
    then show ?thesis using True 2 by simp
  next
    case False
    then show ?thesis using 2 by auto
  qed
qed auto

text \<open>
  A review comment keeps its position exactly when the line it was written on exists in both
  versions of the file with the same text; otherwise it is outdated.
\<close>

theorem comment_position_kept_iff_line_unchanged:
  "newPosition (Some old) (Some new) n = (let l = textLines [] old; l' = textLines [] new; i = nat (n - 1) in
     if 1 \<le> n \<and> i < length l \<and> i < length l' \<and> l ! i = l' ! i then Some n else None)"
  by (auto simp: newPosition_def lineAt_def lineLoop_lines Let_def)

end
