(* ===== verification/LruCache.thy ===== *)
theory LruCache
  imports Prelude "HOL-Library.Word"
begin

text \<open>
  The in-process caches (\<^verbatim>\<open>src/internal/cache/lru/lru.go\<close> and \<^verbatim>\<open>sized.go\<close>). Each keeps a doubly linked list
  of elements, most recently used first, and a map from keys to list elements; a list element is an
  address into a store of entries, so that the map and the list share it as the Go pointers do. Every
  operation holds the cache's mutex from start to end, so operations are atomic steps. Time is in
  nanoseconds; \<open>now\<close> is an argument of the operations that read the clock.

  The contract both caches offer their clients is the locale \<open>bounded_cache\<close>.
\<close>

section \<open>The contract\<close>

datatype ('k, 'v) cacheOp = GetOp 'k int | SetOp 'k 'v int | DelOp 'k

locale bounded_cache =
  fixes inv :: "'s \<Rightarrow> bool"
    and contents :: "'s \<Rightarrow> 'k \<Rightarrow> 'v option"
    and get :: "'k \<Rightarrow> int \<Rightarrow> 's \<Rightarrow> 'v option \<times> 's"
    and put :: "'k \<Rightarrow> 'v \<Rightarrow> int \<Rightarrow> 's \<Rightarrow> 's"
    and del :: "'k \<Rightarrow> 's \<Rightarrow> 's"
  assumes get_inv: "inv s \<Longrightarrow> inv (snd (get k t s))"
    and put_inv: "inv s \<Longrightarrow> inv (put k v t s)"
    and del_inv: "inv s \<Longrightarrow> inv (del k s)"
    and get_hit: "inv s \<Longrightarrow> fst (get k t s) = Some v \<Longrightarrow> contents s k = Some v"
    and get_keeps: "inv s \<Longrightarrow> contents (snd (get k t s)) \<subseteq>\<^sub>m contents s"
    and put_reads: "inv s \<Longrightarrow> contents (put k v t s) k = Some v"
    and put_keeps: "inv s \<Longrightarrow> contents (put k v t s) \<subseteq>\<^sub>m (contents s)(k \<mapsto> v)"
    and del_reads: "inv s \<Longrightarrow> contents (del k s) = (contents s)(k := None)"
begin

fun exec :: "('k, 'v) cacheOp list \<Rightarrow> 's \<Rightarrow> 's" where
  "exec [] s = s"
| "exec (GetOp k t # ops) s = exec ops (snd (get k t s))"
| "exec (SetOp k v t # ops) s = exec ops (put k v t s)"
| "exec (DelOp k # ops) s = exec ops (del k s)"

end

text \<open>The same operations on a map that never forgets.\<close>

fun execMap :: "('k, 'v) cacheOp list \<Rightarrow> ('k \<rightharpoonup> 'v) \<Rightarrow> 'k \<rightharpoonup> 'v" where
  "execMap [] m = m"
| "execMap (GetOp k t # ops) m = execMap ops m"
| "execMap (SetOp k v t # ops) m = execMap ops (m(k \<mapsto> v))"
| "execMap (DelOp k # ops) m = execMap ops (m(k := None))"

context bounded_cache
begin

lemma exec_inv: "inv s \<Longrightarrow> inv (exec ops s)"
  by (induction ops s rule: exec.induct) (auto intro: get_inv put_inv del_inv)

lemma exec_keeps: "inv s \<Longrightarrow> contents s \<subseteq>\<^sub>m m \<Longrightarrow> contents (exec ops s) \<subseteq>\<^sub>m execMap ops m"
proof (induction ops s arbitrary: m rule: exec.induct)
  case (2 k t ops s)
  have "contents (snd (get k t s)) \<subseteq>\<^sub>m m" using get_keeps [OF 2(2), of k t] 2(3) by (rule map_le_trans)
  then show ?case using 2(1) [OF get_inv [OF 2(2)]] by simp
next
  case (3 k v t ops s)
  have "contents (put k v t s) \<subseteq>\<^sub>m m(k \<mapsto> v)"
    by (rule map_le_trans [OF put_keeps [OF 3(2), of k v t] map_le_upd [OF 3(3)]])
  then show ?case using 3 put_inv by simp
next
  case (4 k ops s)
  have "contents (del k s) \<subseteq>\<^sub>m m(k := None)" using del_reads [OF 4(2), of k] 4(3) by (auto simp: map_le_def)
  then show ?case using 4 del_inv by simp
qed simp

lemma hit_is_last_write:
  "inv s \<Longrightarrow> contents s \<subseteq>\<^sub>m m \<Longrightarrow> fst (get k t (exec ops s)) = Some v \<Longrightarrow> execMap ops m k = Some v"
  using exec_keeps [of s m ops] exec_inv [of s ops] get_hit [of "exec ops s" k t v] by (auto simp: map_le_def dom_def)

end

section \<open>The count-bounded cache\<close>

text \<open>
  What both caches have: the list, the store its elements point into, the map from keys, and the
  next unused address. Entries extend \<open>keyed\<close>, so the lemmas on the shared part serve both.
\<close>

record 'k keyed =
  eKey :: 'k

record ('k, 'x) lruIndex =
  ll :: "nat list"
  store :: "nat \<rightharpoonup> ('k, 'x) keyed_scheme"
  items :: "'k \<rightharpoonup> nat"
  fresh :: nat

record ('k, 'v) entry = "'k keyed" +
  eVal :: 'v
  expiresAt :: int

record ('k, 'v) Cache = "('k, ('v, unit) entry_ext) lruIndex" +
  capacity :: nat
  ttl :: int
  hits :: "64 word"
  misses :: "64 word"
  evictions :: "64 word"

text \<open>\<open>New\<close> panics on a capacity that is not positive: \<open>None\<close>.\<close>

definition New :: "int \<Rightarrow> ('k, 'v) Cache option" where
  "New cap = (if cap \<le> 0 then None else Some \<lparr>ll = [], store = Map.empty, items = Map.empty, fresh = 0,
     capacity = nat cap, ttl = 0, hits = 0, misses = 0, evictions = 0\<rparr>)"

definition NewWithTTL :: "int \<Rightarrow> int \<Rightarrow> ('k, 'v) Cache option" where
  "NewWithTTL cap t = map_option (\<lambda>c. c\<lparr>ttl := t\<rparr>) (New cap)"

definition MoveToFront :: "nat \<Rightarrow> nat list \<Rightarrow> nat list" where
  "MoveToFront el l = el # remove1 el l"

definition removeElement :: "nat \<Rightarrow> ('k, 'x, 'z) lruIndex_scheme \<Rightarrow> ('k, 'x, 'z) lruIndex_scheme" where
  "removeElement el c = c\<lparr>ll := remove1 el (ll c), items := (items c)(eKey (the (store c el)) := None)\<rparr>"

definition Get :: "'k \<Rightarrow> int \<Rightarrow> ('k, 'v) Cache \<Rightarrow> 'v option \<times> ('k, 'v) Cache" where
  "Get key now c = (case items c key of
     None \<Rightarrow> (None, c\<lparr>misses := misses c + 1\<rparr>)
   | Some el \<Rightarrow> let e = the (store c el) in
       if ttl c > 0 \<and> now > expiresAt e then (None, (removeElement el c)\<lparr>misses := misses c + 1\<rparr>)
       else (Some (eVal e), c\<lparr>ll := MoveToFront el (ll c), hits := hits c + 1\<rparr>))"

definition expiry :: "('k, 'v) Cache \<Rightarrow> int \<Rightarrow> int \<Rightarrow> int" where
  "expiry c now old = (if ttl c > 0 then now + ttl c else old)"

definition Set :: "'k \<Rightarrow> 'v \<Rightarrow> int \<Rightarrow> ('k, 'v) Cache \<Rightarrow> ('k, 'v) Cache" where
  "Set key val now c = (case items c key of
     Some el \<Rightarrow> let e = the (store c el) in
       c\<lparr>store := (store c)(el \<mapsto> e\<lparr>eVal := val, expiresAt := expiry c now (expiresAt e)\<rparr>), ll := MoveToFront el (ll c)\<rparr>
   | None \<Rightarrow> let el = fresh c;
            c1 = c\<lparr>store := (store c)(el \<mapsto> \<lparr>eKey = key, eVal = val, expiresAt = expiry c now 0\<rparr>),
                   ll := el # ll c, items := (items c)(key \<mapsto> el), fresh := el + 1\<rparr> in
       if length (ll c1) > capacity c1
       then (removeElement (last (ll c1)) c1)\<lparr>evictions := evictions c1 + 1\<rparr>
       else c1)"

definition Delete :: "'k \<Rightarrow> ('k, 'v) Cache \<Rightarrow> ('k, 'v) Cache" where
  "Delete key c = (case items c key of None \<Rightarrow> c | Some el \<Rightarrow> removeElement el c)"

definition Len :: "('k, 'v) Cache \<Rightarrow> nat" where
  "Len c = length (ll c)"

section \<open>Representation\<close>

text \<open>List and map agree: the elements of the list are exactly those of the map, each under its own key.\<close>

abbreviation keyOf :: "('k, 'x, 'z) lruIndex_scheme \<Rightarrow> nat \<Rightarrow> 'k" where
  "keyOf c el \<equiv> eKey (the (store c el))"

definition linked :: "('k, 'x, 'z) lruIndex_scheme \<Rightarrow> bool" where
  "linked c \<longleftrightarrow> distinct (ll c) \<and> (\<forall>el \<in> set (ll c). el < fresh c \<and> items c (keyOf c el) = Some el) \<and>
     (\<forall>k el. items c k = Some el \<longrightarrow> el \<in> set (ll c) \<and> keyOf c el = k)"

definition cacheInv :: "('k, 'v) Cache \<Rightarrow> bool" where
  "cacheInv c \<longleftrightarrow> linked c \<and> length (ll c) \<le> capacity c \<and> 0 < capacity c"

definition cacheContents :: "('k, 'v) Cache \<Rightarrow> 'k \<Rightarrow> 'v option" where
  "cacheContents c k = map_option (\<lambda>el. eVal (the (store c el))) (items c k)"

text \<open>The keys in order of use, most recent first.\<close>

definition recency :: "('k, 'x, 'z) lruIndex_scheme \<Rightarrow> 'k list" where
  "recency c = map (keyOf c) (ll c)"

lemma linked_key: "linked c \<Longrightarrow> items c k = Some el \<Longrightarrow> keyOf c el = k \<and> el \<in> set (ll c)"
  by (simp add: linked_def)

lemma linked_inj: "linked c \<Longrightarrow> el \<in> set (ll c) \<Longrightarrow> el' \<in> set (ll c) \<Longrightarrow> keyOf c el = keyOf c el' \<Longrightarrow> el = el'"
  unfolding linked_def by (metis option.inject)

lemma linked_move: "linked c \<Longrightarrow> el \<in> set (ll c) \<Longrightarrow> linked (c\<lparr>ll := MoveToFront el (ll c)\<rparr>)"
  by (auto simp: linked_def MoveToFront_def)

lemma removeElement_linked:
  assumes "linked c" "el \<in> set (ll c)"
  shows "linked (removeElement el c)"
proof -
  have other: "keyOf c x \<noteq> keyOf c el" if "x \<in> set (ll c)" "x \<noteq> el" for x using linked_inj [OF assms(1)] assms(2) that by blast
  have d: "distinct (ll c)" "set (remove1 el (ll c)) = set (ll c) - {el}" using assms(1) by (simp_all add: linked_def)
  have l: "ll (removeElement el c) = remove1 el (ll c)" "items (removeElement el c) = (items c)(keyOf c el := None)"
    "store (removeElement el c) = store c" "fresh (removeElement el c) = fresh c" by (simp_all add: removeElement_def)
  have A: "x < fresh c \<and> ((items c)(keyOf c el := None)) (keyOf c x) = Some x" if "x \<in> set (ll c) - {el}" for x
    using other [of x] that assms(1) by (simp add: linked_def)
  have B: "x \<in> set (ll c) - {el} \<and> keyOf c x = k" if "((items c)(keyOf c el := None)) k = Some x" for k x
  proof -
    have "k \<noteq> keyOf c el" "items c k = Some x" using that by (simp_all split: if_split_asm)
    then show ?thesis using linked_key [OF assms(1), of k x] by blast
  qed
  show ?thesis unfolding linked_def l d(2) using distinct_remove1 [OF d(1)] A B by blast
qed

lemma remove1_keys:
  assumes "inj_on f (set xs)" "x \<in> set xs" "distinct xs"
  shows "map f (remove1 x xs) = filter (\<lambda>y. y \<noteq> f x) (map f xs)"
  using assms
proof (induction xs)
  case (Cons a xs)
  show ?case
  proof (cases "a = x")
    case True
    have "f y \<noteq> f x" if "y \<in> set xs" for y using Cons.prems that True by (auto simp: inj_on_def)
    then show ?thesis using True by (auto simp: filter_map comp_def)
  next
    case False
    then have "f a \<noteq> f x" using Cons.prems by (auto simp: inj_on_def)
    then show ?thesis using Cons False by auto
  qed
qed simp

lemma linked_inj_on: "linked c \<Longrightarrow> inj_on (keyOf c) (set (ll c))"
  using linked_inj by (auto intro: inj_onI)

lemma removeElement_recency:
  assumes "linked c" "el \<in> set (ll c)"
  shows "recency (removeElement el c) = filter (\<lambda>j. j \<noteq> keyOf c el) (recency c)"
  using remove1_keys [OF linked_inj_on [OF assms(1)] assms(2)] assms(1)
  by (simp add: recency_def removeElement_def linked_def)

lemma removeElement_contents: "cacheContents (removeElement el c) = (cacheContents c)(keyOf c el := None)"
  by (auto simp: cacheContents_def removeElement_def)

lemma move_recency:
  assumes "linked c" "items c k = Some el"
  shows "map (keyOf c) (MoveToFront el (ll c)) = k # filter (\<lambda>j. j \<noteq> k) (recency c)"
  using remove1_keys [OF linked_inj_on [OF assms(1)]] linked_key [OF assms] assms(1)
  by (simp add: recency_def MoveToFront_def linked_def)


section \<open>Operations on a linked cache\<close>

lemma Get_facts:
  assumes "linked c"
  shows "linked (snd (Get k t c))" and "capacity (snd (Get k t c)) = capacity c"
    and "length (ll (snd (Get k t c))) \<le> length (ll c)"
    and "fst (Get k t c) = Some v \<Longrightarrow> cacheContents c k = Some v"
    and "cacheContents (snd (Get k t c)) \<subseteq>\<^sub>m cacheContents c"
    and "fst (Get k t c) \<noteq> None \<Longrightarrow> recency (snd (Get k t c)) = k # filter (\<lambda>j. j \<noteq> k) (recency c)"
proof -
  have drop: "linked (c'\<lparr>misses := m\<rparr>) = linked c'" "linked (c'\<lparr>hits := m\<rparr>) = linked c'" "cacheContents (c'\<lparr>misses := m\<rparr>) = cacheContents c'"
      "cacheContents (c'\<lparr>ll := l, hits := m\<rparr>) = cacheContents c'" for c' :: "('a, 'b) Cache" and m l
    by (simp_all add: linked_def cacheContents_def fun_eq_iff)
  consider (miss) "items c k = None" | (stale) el where "items c k = Some el" "ttl c > 0 \<and> t > expiresAt (the (store c el))"
    | (hit) el where "items c k = Some el" "\<not> (ttl c > 0 \<and> t > expiresAt (the (store c el)))"
    by (cases "items c k") auto
  then have "linked (snd (Get k t c)) \<and> capacity (snd (Get k t c)) = capacity c \<and> length (ll (snd (Get k t c))) \<le> length (ll c) \<and>
     (\<forall>v. fst (Get k t c) = Some v \<longrightarrow> cacheContents c k = Some v) \<and> cacheContents (snd (Get k t c)) \<subseteq>\<^sub>m cacheContents c \<and>
     (fst (Get k t c) \<noteq> None \<longrightarrow> recency (snd (Get k t c)) = k # filter (\<lambda>j. j \<noteq> k) (recency c))"
  proof cases
    case miss
    then show ?thesis using assms by (simp add: Get_def drop)
  next
    case (stale el)
    have el: "el \<in> set (ll c)" using linked_key [OF assms stale(1)] by simp
    have len: "length (remove1 el (ll c)) \<le> length (ll c)" by (simp add: length_remove1)
    have "Get k t c = (None, (removeElement el c)\<lparr>misses := misses c + 1\<rparr>)" using stale by (simp add: Get_def Let_def)
    then show ?thesis using removeElement_linked [OF assms el] removeElement_contents [of el c] len
      by (simp add: drop) (auto simp: removeElement_def map_le_def)
  next
    case (hit el)
    have el: "el \<in> set (ll c)" using linked_key [OF assms hit(1)] by simp
    have g: "Get k t c = (Some (eVal (the (store c el))), (c\<lparr>ll := MoveToFront el (ll c)\<rparr>)\<lparr>hits := hits c + 1\<rparr>)"
      using hit by (simp add: Get_def Let_def)
    have len: "length (MoveToFront el (ll c)) \<le> length (ll c)"
      using el length_pos_if_in_set [OF el] by (simp add: MoveToFront_def length_remove1)
    have "recency (snd (Get k t c)) = map (keyOf c) (MoveToFront el (ll c))" by (simp add: g recency_def)
    then show ?thesis using linked_move [OF assms el] move_recency [OF assms hit(1)] len hit(1) g
      by (simp add: drop) (simp add: cacheContents_def)
  qed
  then show "linked (snd (Get k t c))" "capacity (snd (Get k t c)) = capacity c" "length (ll (snd (Get k t c))) \<le> length (ll c)"
    "fst (Get k t c) = Some v \<Longrightarrow> cacheContents c k = Some v" "cacheContents (snd (Get k t c)) \<subseteq>\<^sub>m cacheContents c"
    "fst (Get k t c) \<noteq> None \<Longrightarrow> recency (snd (Get k t c)) = k # filter (\<lambda>j. j \<noteq> k) (recency c)" by blast+
qed

lemma recency_distinct: "linked c \<Longrightarrow> distinct (recency c)"
  using linked_inj_on by (auto simp: recency_def linked_def distinct_map)

lemma recency_mem: "linked c \<Longrightarrow> k \<in> set (recency c) \<longleftrightarrow> items c k \<noteq> None"
  unfolding recency_def linked_def by auto

lemma filter_last: "distinct xs \<Longrightarrow> xs \<noteq> [] \<Longrightarrow> filter (\<lambda>x. x \<noteq> last xs) xs = butlast xs"
  by (induction xs rule: rev_induct) (auto simp: filter_id_conv)

text \<open>Writing through an element keeps its key.\<close>

lemma overwrite_linked:
  assumes "linked c" "eKey e' = keyOf c el" "store c' = (store c)(el \<mapsto> e')" "ll c' = ll c" "items c' = items c" "fresh c' = fresh c"
  shows "linked c'" "recency c' = recency c"
proof -
  have "keyOf c' x = keyOf c x" for x using assms(2,3) by simp
  then show "linked c'" "recency c' = recency c" using assms(1,4-6) by (simp_all add: linked_def recency_def)
qed

lemma insert_linked:
  assumes "linked c" "items c k = None" "eKey e = k"
    and "store c' = (store c)(fresh c \<mapsto> e)" "ll c' = fresh c # ll c" "items c' = (items c)(k \<mapsto> fresh c)" "fresh c' = fresh c + 1"
  shows "linked c'" "recency c' = k # recency c"
proof -
  have old: "x < fresh c" "items c (keyOf c x) = Some x" if "x \<in> set (ll c)" for x using assms(1) that by (simp_all add: linked_def)
  have keys: "keyOf c' x = keyOf c x" if "x \<in> set (ll c)" for x using old(1) [OF that] assms(4) by simp
  have new: "keyOf c' (fresh c) = k" using assms(3,4) by simp
  have fr: "fresh c \<notin> set (ll c)" using old(1) by blast
  have dist: "distinct (ll c')" using assms(1,5) fr by (simp add: linked_def)
  have A: "x < fresh c' \<and> items c' (keyOf c' x) = Some x" if "x \<in> set (ll c')" for x
  proof (cases "x = fresh c")
    case True
    then show ?thesis using new assms(6,7) by simp
  next
    case False
    then have x: "x \<in> set (ll c)" using that assms(5) by simp
    then have "keyOf c x \<noteq> k" using old(2) assms(2) by fastforce
    then show ?thesis using old [OF x] keys [OF x] assms(6,7) by simp
  qed
  have B: "x \<in> set (ll c') \<and> keyOf c' x = j" if "items c' j = Some x" for j x
  proof (cases "j = k")
    case True
    then show ?thesis using that assms(5,6) new by simp
  next
    case False
    then have "items c j = Some x" using that assms(6) by simp
    then show ?thesis using linked_key [OF assms(1)] keys assms(5) by fastforce
  qed
  show "linked c'" unfolding linked_def using dist A B by blast
  show "recency c' = k # recency c" using new keys assms(5) by (simp add: recency_def)
qed

text \<open>What a \<open>Set\<close> achieves.\<close>

definition setResult :: "('k, 'v) Cache \<Rightarrow> 'k \<Rightarrow> 'v \<Rightarrow> ('k, 'v) Cache \<Rightarrow> bool" where
  "setResult c k v c' \<longleftrightarrow> cacheInv c' \<and> capacity c' = capacity c \<and> cacheContents c' k = Some v \<and>
     cacheContents c' \<subseteq>\<^sub>m (cacheContents c)(k \<mapsto> v) \<and>
     recency c' = take (capacity c) (k # filter (\<lambda>j. j \<noteq> k) (recency c))"

lemma Set_existing:
  assumes "cacheInv c" "items c k = Some el"
  shows "setResult c k v (Set k v t c)"
proof -
  have ln: "linked c" "length (ll c) \<le> capacity c" "0 < capacity c" using assms(1) by (simp_all add: cacheInv_def)
  have el: "keyOf c el = k" "el \<in> set (ll c)" using linked_key [OF ln(1) assms(2)] by simp_all
  let ?e = "(the (store c el))\<lparr>eVal := v, expiresAt := expiry c t (expiresAt (the (store c el)))\<rparr>"
  define c0 where "c0 = c\<lparr>store := (store c)(el \<mapsto> ?e)\<rparr>"
  have c0: "linked c0" "recency c0 = recency c"
    by (rule overwrite_linked [OF ln(1), of ?e el], simp_all add: c0_def)+
  have s: "Set k v t c = c0\<lparr>ll := MoveToFront el (ll c0)\<rparr>" using assms(2) by (simp add: Set_def Let_def c0_def)
  have it: "items c0 k = Some el" "ll c0 = ll c" "capacity c0 = capacity c" using assms(2) by (simp_all add: c0_def)
  have len: "length (MoveToFront el (ll c)) = length (ll c)"
    using el length_pos_if_in_set [OF el(2)] by (simp add: MoveToFront_def length_remove1)
  have rec: "recency (Set k v t c) = k # filter (\<lambda>j. j \<noteq> k) (recency c)"
    unfolding s using move_recency [OF c0(1) it(1)] c0(2) by (simp add: recency_def)
  have lr: "length (recency (Set k v t c)) \<le> capacity c" unfolding s using len ln(2) it by (simp add: recency_def)
  have "cacheContents (Set k v t c) j = ((cacheContents c)(k \<mapsto> v)) j" for j
  proof (cases "j = k")
    case True
    then show ?thesis unfolding s using assms(2) by (simp add: cacheContents_def c0_def)
  next
    case False
    then have "items c j \<noteq> Some el" using linked_key [OF ln(1), of j el] el(1) by auto
    then show ?thesis unfolding s using False by (cases "items c j") (auto simp: cacheContents_def c0_def)
  qed
  then have "cacheContents (Set k v t c) = (cacheContents c)(k \<mapsto> v)" by (rule ext)
  moreover have "linked (Set k v t c)" unfolding s by (rule linked_move [OF c0(1)]) (simp add: it(2) el(2))
  moreover have "take (capacity c) (recency (Set k v t c)) = recency (Set k v t c)" using lr by simp
  ultimately show ?thesis using ln len it rec by (simp add: setResult_def cacheInv_def s)
qed

text \<open>The state of the cache between insertion and eviction.\<close>

definition pushed :: "'k \<Rightarrow> 'v \<Rightarrow> int \<Rightarrow> ('k, 'v) Cache \<Rightarrow> ('k, 'v) Cache" where
  "pushed k v t c = c\<lparr>store := (store c)(fresh c \<mapsto> \<lparr>eKey = k, eVal = v, expiresAt = expiry c t 0\<rparr>),
     ll := fresh c # ll c, items := (items c)(k \<mapsto> fresh c), fresh := fresh c + 1\<rparr>"

lemma pushed_facts:
  assumes "linked c" "items c k = None"
  shows "linked (pushed k v t c)" "recency (pushed k v t c) = k # recency c"
    and "cacheContents (pushed k v t c) = (cacheContents c)(k \<mapsto> v)"
proof -
  show "linked (pushed k v t c)" "recency (pushed k v t c) = k # recency c"
    by (rule insert_linked [OF assms, of "\<lparr>eKey = k, eVal = v, expiresAt = expiry c t 0\<rparr>"], simp_all add: pushed_def)+
  have "x < fresh c" if "items c j = Some x" for j x using linked_key [OF assms(1) that] assms(1) by (simp add: linked_def)
  then have "cacheContents (pushed k v t c) j = ((cacheContents c)(k \<mapsto> v)) j" for j
    by (cases "items c j") (auto simp: cacheContents_def pushed_def)
  then show "cacheContents (pushed k v t c) = (cacheContents c)(k \<mapsto> v)" by (rule ext)
qed

lemma recency_without: "linked c \<Longrightarrow> items c k = None \<Longrightarrow> filter (\<lambda>j. j \<noteq> k) (recency c) = recency c"
  using recency_mem [of c k] by (auto simp: filter_id_conv)

lemma Set_room:
  assumes "cacheInv c" "items c k = None" "length (ll c) < capacity c"
  shows "setResult c k v (Set k v t c)"
proof -
  have "linked c" "length (recency c) = length (ll c)" using assms(1) by (simp_all add: cacheInv_def recency_def)
  moreover have "Set k v t c = pushed k v t c" using assms(2,3) by (simp add: Set_def Let_def pushed_def)
  moreover have "length (ll (pushed k v t c)) = Suc (length (ll c))" "capacity (pushed k v t c) = capacity c" by (simp_all add: pushed_def)
  ultimately show ?thesis using pushed_facts [OF _ assms(2), of v t] recency_without [OF _ assms(2)] assms(3)
    by (simp add: setResult_def cacheInv_def)
qed

lemma Set_evict:
  assumes "cacheInv c" "items c k = None" "\<not> length (ll c) < capacity c"
  shows "setResult c k v (Set k v t c)"
proof -
  define c1 where "c1 = pushed k v t c"
  have ln: "linked c" "0 < capacity c" "length (ll c) = capacity c" using assms by (simp_all add: cacheInv_def)
  note c1 = pushed_facts [OF ln(1) assms(2), of v t, folded c1_def]
  let ?el = "last (ll c1)"
  have shape: "ll c1 = fresh c # ll c" "capacity c1 = capacity c" "ll c \<noteq> []" using ln(2,3) by (auto simp: c1_def pushed_def)
  have s: "Set k v t c = (removeElement ?el c1)\<lparr>evictions := evictions c1 + 1\<rparr>"
    using assms(2) ln(3) by (simp add: Set_def Let_def c1_def pushed_def)
  have el: "?el \<in> set (ll c1)" by (simp add: shape)
  have last: "keyOf c1 ?el = last (recency c1)" by (simp add: recency_def shape(1) last_map)
  have "recency (Set k v t c) = recency (removeElement ?el c1)" by (simp add: s recency_def)
  also have "\<dots> = filter (\<lambda>j. j \<noteq> last (recency c1)) (recency c1)" unfolding removeElement_recency [OF c1(1) el] last ..
  also have "\<dots> = butlast (k # recency c)"
    using filter_last [OF recency_distinct [OF c1(1)]] unfolding c1(2) by (simp only: list.distinct not_False_eq_True)
  also have "\<dots> = take (capacity c) (k # recency c)" using ln(3) by (simp add: butlast_conv_take recency_def)
  finally have rec: "recency (Set k v t c) = take (capacity c) (k # filter (\<lambda>j. j \<noteq> k) (recency c))" using recency_without [OF ln(1) assms(2)] by simp
  have "recency c \<noteq> []" using shape(3) by (simp add: recency_def)
  then have "keyOf c1 ?el \<in> set (recency c)" unfolding last c1(2) by simp
  then have key: "keyOf c1 ?el \<noteq> k" using recency_mem [OF ln(1)] assms(2) by auto
  have "cacheContents (Set k v t c) = (cacheContents c1)(keyOf c1 ?el := None)"
    using removeElement_contents [of ?el c1] by (simp add: s cacheContents_def fun_eq_iff)
  then have "cacheContents (Set k v t c) k = Some v" "cacheContents (Set k v t c) \<subseteq>\<^sub>m (cacheContents c)(k \<mapsto> v)"
    using c1(3) key by (auto simp: map_le_def)
  moreover have "linked (Set k v t c)" using removeElement_linked [OF c1(1) el] by (simp add: s linked_def)
  moreover have "length (remove1 ?el (ll c1)) = length (ll c1) - 1" using el by (simp only: length_remove1 if_True)
  then have "length (ll (Set k v t c)) \<le> capacity c" "capacity (Set k v t c) = capacity c"
    using ln(3) shape(1,2) by (simp_all add: s removeElement_def)
  ultimately show ?thesis using rec ln(2) by (simp add: setResult_def cacheInv_def)
qed

lemma Set_facts: "cacheInv c \<Longrightarrow> setResult c k v (Set k v t c)"
  using Set_existing Set_room Set_evict by (metis not_None_eq)

lemma Delete_facts:
  assumes "linked c"
  shows "linked (Delete k c)" "capacity (Delete k c) = capacity c" "length (ll (Delete k c)) \<le> length (ll c)"
    "cacheContents (Delete k c) = (cacheContents c)(k := None)"
proof -
  have "linked (Delete k c) \<and> capacity (Delete k c) = capacity c \<and> length (ll (Delete k c)) \<le> length (ll c) \<and>
      cacheContents (Delete k c) = (cacheContents c)(k := None)"
  proof (cases "items c k")
    case None
    then show ?thesis using assms by (auto simp: Delete_def cacheContents_def fun_eq_iff)
  next
    case (Some el)
    then show ?thesis using linked_key [OF assms Some] removeElement_linked [OF assms] removeElement_contents [of el c]
      by (simp add: Delete_def) (simp add: removeElement_def length_remove1)
  qed
  then show "linked (Delete k c)" "capacity (Delete k c) = capacity c" "length (ll (Delete k c)) \<le> length (ll c)"
    "cacheContents (Delete k c) = (cacheContents c)(k := None)" by blast+
qed

interpretation counted: bounded_cache cacheInv cacheContents Get Set Delete
proof
  fix s :: "('a, 'b) Cache" and k v t
  assume s: "cacheInv s"
  then have ln: "linked s" "length (ll s) \<le> capacity s" "0 < capacity s" by (simp_all add: cacheInv_def)
  show "cacheInv (snd (Get k t s))" using Get_facts(1-3) [OF ln(1), of k t] ln by (simp add: cacheInv_def)
  show "cacheInv (Delete k s)" using Delete_facts(1-3) [OF ln(1), of k] ln by (simp add: cacheInv_def)
  show "fst (Get k t s) = Some v \<Longrightarrow> cacheContents s k = Some v" by (rule Get_facts(4) [OF ln(1)])
  show "cacheContents (snd (Get k t s)) \<subseteq>\<^sub>m cacheContents s" by (rule Get_facts(5) [OF ln(1)])
  show "cacheContents (Delete k s) = (cacheContents s)(k := None)" by (rule Delete_facts(4) [OF ln(1)])
  show "cacheInv (Set k v t s)" "cacheContents (Set k v t s) k = Some v" "cacheContents (Set k v t s) \<subseteq>\<^sub>m (cacheContents s)(k \<mapsto> v)"
    using Set_facts [OF s, of k v t] by (simp_all add: setResult_def)
qed

section \<open>The byte-bounded cache\<close>

record 'k sizedEntry = "'k keyed" +
  sVal :: string
  sSize :: int

record 'k SizedCache = "('k, unit sizedEntry_ext) lruIndex" +
  maxBytes :: int
  cur :: int
  sHits :: "64 word"
  sMisses :: "64 word"
  sEvictions :: "64 word"

definition NewSized :: "int \<Rightarrow> 'k SizedCache option" where
  "NewSized mb = (if mb \<le> 0 then None else Some \<lparr>ll = [], store = Map.empty, items = Map.empty, fresh = 0,
     maxBytes = mb, cur = 0, sHits = 0, sMisses = 0, sEvictions = 0\<rparr>)"

definition sizedRemoveElement :: "nat \<Rightarrow> 'k SizedCache \<Rightarrow> 'k SizedCache" where
  "sizedRemoveElement el c = (removeElement el c)\<lparr>cur := cur c - sSize (the (store c el))\<rparr>"

definition SizedGet :: "'k \<Rightarrow> 'k SizedCache \<Rightarrow> string option \<times> 'k SizedCache" where
  "SizedGet key c = (case items c key of
     None \<Rightarrow> (None, c\<lparr>sMisses := sMisses c + 1\<rparr>)
   | Some el \<Rightarrow> (Some (sVal (the (store c el))), c\<lparr>ll := MoveToFront el (ll c), sHits := sHits c + 1\<rparr>))"

lemma remove_last: "distinct xs \<Longrightarrow> xs \<noteq> [] \<Longrightarrow> remove1 (last xs) xs = butlast xs"
  by (induction xs) auto

function evictLoop :: "'k SizedCache \<Rightarrow> 'k SizedCache" where
  "evictLoop c = (if cur c > maxBytes c \<and> length (ll c) > 1
     then evictLoop ((sizedRemoveElement (last (ll c)) c)\<lparr>sEvictions := sEvictions c + 1\<rparr>) else c)"
  by pat_completeness auto
termination
  by (relation "measure (\<lambda>c. length (ll c))") (auto simp: sizedRemoveElement_def removeElement_def length_remove1 intro!: last_in_set)

declare evictLoop.simps [simp del]

definition SizedSet :: "'k \<Rightarrow> string \<Rightarrow> 'k SizedCache \<Rightarrow> 'k SizedCache" where
  "SizedSet key val c = (let size' = int (length val) in
     evictLoop (case items c key of
       Some el \<Rightarrow> let e = the (store c el) in
         c\<lparr>cur := cur c + (size' - sSize e), store := (store c)(el \<mapsto> e\<lparr>sVal := val, sSize := size'\<rparr>), ll := MoveToFront el (ll c)\<rparr>
     | None \<Rightarrow> c\<lparr>store := (store c)(fresh c \<mapsto> \<lparr>eKey = key, sVal = val, sSize = size'\<rparr>), ll := fresh c # ll c,
                items := (items c)(key \<mapsto> fresh c), fresh := fresh c + 1, cur := cur c + size'\<rparr>))"

definition SizedDelete :: "'k \<Rightarrow> 'k SizedCache \<Rightarrow> 'k SizedCache" where
  "SizedDelete key c = (case items c key of None \<Rightarrow> c | Some el \<Rightarrow> sizedRemoveElement el c)"

section \<open>Accounting\<close>

abbreviation sizeOf :: "'k SizedCache \<Rightarrow> nat \<Rightarrow> int" where
  "sizeOf c el \<equiv> sSize (the (store c el))"

text \<open>\<open>accounted\<close>: the running total is the sum of the recorded sizes, and those are the lengths of the values.\<close>

definition accounted :: "'k SizedCache \<Rightarrow> bool" where
  "accounted c \<longleftrightarrow> linked c \<and> 0 < maxBytes c \<and> cur c = sum_list (map (sizeOf c) (ll c)) \<and>
     (\<forall>el \<in> set (ll c). sizeOf c el = int (length (sVal (the (store c el)))))"

definition sizedInv :: "'k SizedCache \<Rightarrow> bool" where
  "sizedInv c \<longleftrightarrow> accounted c \<and> (cur c \<le> maxBytes c \<or> length (ll c) \<le> 1)"

definition sizedContents :: "'k SizedCache \<Rightarrow> 'k \<Rightarrow> string option" where
  "sizedContents c k = map_option (\<lambda>el. sVal (the (store c el))) (items c k)"

lemma sum_remove1: "x \<in> set xs \<Longrightarrow> sum_list (map f (remove1 x xs)) = sum_list (map f xs) - (f x :: int)"
  by (induction xs) auto

lemma sizedRemove_facts:
  assumes "accounted c" "el \<in> set (ll c)"
  shows "accounted (sizedRemoveElement el c)" "maxBytes (sizedRemoveElement el c) = maxBytes c"
    "sizedContents (sizedRemoveElement el c) = (sizedContents c)(keyOf c el := None)"
    "recency (sizedRemoveElement el c) = filter (\<lambda>j. j \<noteq> keyOf c el) (recency c)"
    "ll (sizedRemoveElement el c) = remove1 el (ll c)"
proof -
  have ln: "linked c" using assms(1) by (simp add: accounted_def)
  have "linked (sizedRemoveElement el c)"
    using removeElement_linked [OF ln assms(2)] by (simp add: sizedRemoveElement_def linked_def)
  then show "accounted (sizedRemoveElement el c)"
    using assms sum_remove1 [OF assms(2), of "sizeOf c"]
    by (auto simp: accounted_def sizedRemoveElement_def removeElement_def dest: notin_set_remove1 [THEN contrapos_nn] set_remove1_subset [THEN subsetD])
  show "recency (sizedRemoveElement el c) = filter (\<lambda>j. j \<noteq> keyOf c el) (recency c)"
    using removeElement_recency [OF ln assms(2)] by (simp add: sizedRemoveElement_def recency_def)
qed (simp_all add: sizedRemoveElement_def removeElement_def sizedContents_def fun_eq_iff)

text \<open>Eviction takes entries off the old end and stops with at least one.\<close>

lemma evictLoop_facts:
  assumes "accounted c" "ll c \<noteq> []"
  shows "sizedInv (evictLoop c) \<and> maxBytes (evictLoop c) = maxBytes c \<and>
    (\<exists>n > 0. recency (evictLoop c) = take n (recency c)) \<and> sizedContents (evictLoop c) \<subseteq>\<^sub>m sizedContents c \<and>
    sizedContents (evictLoop c) (hd (recency c)) = sizedContents c (hd (recency c))"
  using assms
proof (induction c rule: evictLoop.induct)
  case (1 c)
  show ?case
  proof (cases "cur c > maxBytes c \<and> length (ll c) > 1")
    case False
    then have e: "evictLoop c = c" by (subst evictLoop.simps) (simp only: if_False)
    have "sizedInv c" using 1(2) False unfolding sizedInv_def by linarith
    moreover have "recency c = take (length (ll c)) (recency c)" "length (ll c) > 0" using 1(3) by (simp_all add: recency_def)
    ultimately show ?thesis unfolding e using map_le_refl by blast
  next
    case True
    let ?el = "last (ll c)"
    let ?c = "(sizedRemoveElement ?el c)\<lparr>sEvictions := sEvictions c + 1\<rparr>"
    have el: "?el \<in> set (ll c)" using 1(3) by simp
    note f = sizedRemove_facts [OF 1(2) el]
    have ln: "linked c" using 1(2) by (simp add: accounted_def)
    have rne: "recency c \<noteq> []" using 1(3) by (simp add: recency_def)
    have last: "keyOf c ?el = last (recency c)" using 1(3) by (simp add: recency_def last_map)
    have r: "recency ?c = butlast (recency c)"
    proof -
      have "recency ?c = recency (sizedRemoveElement ?el c)" by (simp add: recency_def)
      then show ?thesis unfolding f(4) last using filter_last [OF recency_distinct [OF ln] rne] by simp
    qed
    have "distinct (ll c)" using ln by (simp add: linked_def)
    then have l: "ll ?c = butlast (ll c)" using f(5) remove_last [OF _ 1(3)] by simp
    have lne: "ll ?c \<noteq> []" unfolding l using True by (cases "ll c" rule: rev_cases) auto
    have cont: "sizedContents ?c = (sizedContents c)(last (recency c) := None)" using f(3) last by (simp add: sizedContents_def fun_eq_iff)
    have "accounted ?c" using f(1) by (simp add: accounted_def linked_def)
    note IH = 1(1) [OF True this lne]
    obtain x ys where xs: "recency c = x # ys" "ys \<noteq> []" using True by (cases "recency c") (auto simp: recency_def)
    have hd: "hd (recency ?c) = x" "last (recency c) \<noteq> x" using recency_distinct [OF ln] xs unfolding r by auto
    have step: "evictLoop c = evictLoop ?c" using True by (subst evictLoop.simps) simp
    obtain n where n: "n > 0" "recency (evictLoop c) = take n (butlast (recency c))" using IH r step by auto
    have "recency (evictLoop c) = take (min n (length (recency c) - 1)) (recency c)"
      unfolding n(2) by (simp add: butlast_conv_take)
    moreover have "min n (length (recency c) - 1) > 0" using n(1) xs by simp
    moreover have "sizedContents (evictLoop c) \<subseteq>\<^sub>m sizedContents c"
    proof (rule map_le_trans)
      show "sizedContents (evictLoop c) \<subseteq>\<^sub>m sizedContents ?c" using IH step by simp
      show "sizedContents ?c \<subseteq>\<^sub>m sizedContents c" unfolding cont by (auto simp: map_le_def)
    qed
    moreover have "sizedContents (evictLoop c) (hd (recency c)) = sizedContents c (hd (recency c))"
      using IH hd xs(1) step cont by simp
    moreover have "sizedInv (evictLoop c)" "maxBytes (evictLoop c) = maxBytes c" using IH step f(2) by simp_all
    ultimately show ?thesis by blast
  qed
qed


lemma accounted_move:
  assumes "accounted c" "el \<in> set (ll c)"
  shows "accounted (c\<lparr>ll := MoveToFront el (ll c)\<rparr>)"
proof -
  have "sum_list (map (sizeOf c) (MoveToFront el (ll c))) = sum_list (map (sizeOf c) (ll c))"
    using sum_remove1 [OF assms(2), of "sizeOf c"] by (simp add: MoveToFront_def)
  moreover have "set (MoveToFront el (ll c)) = set (ll c)" using assms by (auto simp: MoveToFront_def accounted_def linked_def)
  ultimately show ?thesis using linked_move [of c el] assms by (simp add: accounted_def)
qed

lemma accounted_overwrite:
  fixes c :: "'k SizedCache" and v :: string
  assumes "accounted c" "items c k = Some el"
  defines "c' \<equiv> c\<lparr>cur := cur c + (int (length v) - sizeOf c el), store := (store c)(el \<mapsto> (the (store c el))\<lparr>sVal := v, sSize := int (length v)\<rparr>)\<rparr>"
  shows "accounted c'" "recency c' = recency c" "sizedContents c' = (sizedContents c)(k \<mapsto> v)"
proof -
  have ln: "linked c" using assms(1) by (simp add: accounted_def)
  have el: "keyOf c el = k" "el \<in> set (ll c)" using linked_key [OF ln assms(2)] by simp_all
  have o: "linked c'" "recency c' = recency c"
    by (rule overwrite_linked [OF ln, of "(the (store c el))\<lparr>sVal := v, sSize := int (length v)\<rparr>" el], simp_all add: c'_def)+
  show "recency c' = recency c" by (rule o(2))
  have d: "distinct (ll c)" using ln by (simp add: linked_def)
  have sz: "sizeOf c' el = int (length v)" "x \<noteq> el \<Longrightarrow> sizeOf c' x = sizeOf c x" for x by (simp_all add: c'_def)
  have rest: "map (sizeOf c') (remove1 el (ll c)) = map (sizeOf c) (remove1 el (ll c))"
    by (rule map_cong [OF refl], rule sz(2)) (use d in auto)
  have sum: "sum_list (map (sizeOf c') (ll c)) = sum_list (map (sizeOf c) (ll c)) + (int (length v) - sizeOf c el)"
    using sum_remove1 [OF el(2), of "sizeOf c'"] sum_remove1 [OF el(2), of "sizeOf c"] unfolding rest sz(1) by linarith
  have shape: "ll c' = ll c" "cur c' = cur c + (int (length v) - sizeOf c el)" "maxBytes c' = maxBytes c" by (simp_all add: c'_def)
  have "sizeOf c' x = int (length (sVal (the (store c' x))))" if "x \<in> set (ll c)" for x
    using assms(1) that by (auto simp: accounted_def c'_def)
  then show "accounted c'" using assms(1) o(1) sum unfolding accounted_def shape by simp
  have "sizedContents c' j = ((sizedContents c)(k \<mapsto> v)) j" for j
    using assms(2) linked_key [OF ln, of j] el(1) by (cases "items c j") (auto simp: sizedContents_def c'_def)
  then show "sizedContents c' = (sizedContents c)(k \<mapsto> v)" by (rule ext)
qed

lemma accounted_insert:
  fixes c :: "'k SizedCache" and v :: string
  assumes "accounted c" "items c k = None"
  defines "c' \<equiv> c\<lparr>store := (store c)(fresh c \<mapsto> \<lparr>eKey = k, sVal = v, sSize = int (length v)\<rparr>), ll := fresh c # ll c,
      items := (items c)(k \<mapsto> fresh c), fresh := fresh c + 1, cur := cur c + int (length v)\<rparr>"
  shows "accounted c'" "recency c' = k # recency c" "sizedContents c' = (sizedContents c)(k \<mapsto> v)"
proof -
  have ln: "linked c" using assms(1) by (simp add: accounted_def)
  have i: "linked c'" "recency c' = k # recency c"
    by (rule insert_linked [OF ln assms(2), of "\<lparr>eKey = k, sVal = v, sSize = int (length v)\<rparr>"], simp_all add: c'_def)+
  show "recency c' = k # recency c" by (rule i(2))
  have old: "x \<noteq> fresh c" if "x \<in> set (ll c)" for x using ln that by (auto simp: linked_def)
  have "sizeOf c' x = sizeOf c x" if "x \<in> set (ll c)" for x using old [OF that] by (simp add: c'_def)
  then have rest: "map (sizeOf c') (ll c) = map (sizeOf c) (ll c)" by (rule map_cong [OF refl])
  have shape: "ll c' = fresh c # ll c" "cur c' = cur c + int (length v)" "maxBytes c' = maxBytes c"
    "sizeOf c' (fresh c) = int (length v)" by (simp_all add: c'_def)
  have "sizeOf c' x = int (length (sVal (the (store c' x))))" if "x \<in> set (fresh c # ll c)" for x
    using assms(1) old that by (auto simp: accounted_def c'_def)
  moreover have "cur c + int (length v) = sum_list (map (sizeOf c') (fresh c # ll c))"
    using assms(1) unfolding accounted_def list.map sum_list.Cons shape(4) rest by linarith
  ultimately show "accounted c'" using assms(1) i(1) unfolding accounted_def shape(1-3) by blast
  have "sizedContents c' j = ((sizedContents c)(k \<mapsto> v)) j" for j
    using linked_key [OF ln, of j] old by (cases "items c j") (auto simp: sizedContents_def c'_def)
  then show "sizedContents c' = (sizedContents c)(k \<mapsto> v)" by (rule ext)
qed


lemma recency_ll: "recency (c\<lparr>ll := l\<rparr>) = map (keyOf c) l"
  by (simp add: recency_def)

lemma SizedSet_facts:
  assumes "sizedInv c"
  shows "sizedInv (SizedSet k v c)" "maxBytes (SizedSet k v c) = maxBytes c" "sizedContents (SizedSet k v c) k = Some v"
    "sizedContents (SizedSet k v c) \<subseteq>\<^sub>m (sizedContents c)(k \<mapsto> v)"
    "\<exists>n > 0. recency (SizedSet k v c) = take n (k # filter (\<lambda>j. j \<noteq> k) (recency c))"
proof -
  have ac: "accounted c" and ln: "linked c" using assms by (simp_all add: sizedInv_def accounted_def)
  obtain c' where c': "SizedSet k v c = evictLoop c'" "accounted c'" "recency c' = k # filter (\<lambda>j. j \<noteq> k) (recency c)"
    "sizedContents c' = (sizedContents c)(k \<mapsto> v)" "maxBytes c' = maxBytes c"
  proof (cases "items c k")
    case None
    let ?c = "c\<lparr>store := (store c)(fresh c \<mapsto> \<lparr>eKey = k, sVal = v, sSize = int (length v)\<rparr>), ll := fresh c # ll c,
      items := (items c)(k \<mapsto> fresh c), fresh := fresh c + 1, cur := cur c + int (length v)\<rparr>"
    show thesis using accounted_insert [OF ac None, of v] recency_without [OF ln None] None
      by (intro that [of ?c]) (simp_all add: SizedSet_def Let_def)
  next
    case (Some el)
    let ?c = "c\<lparr>cur := cur c + (int (length v) - sizeOf c el), store := (store c)(el \<mapsto> (the (store c el))\<lparr>sVal := v, sSize := int (length v)\<rparr>)\<rparr>"
    note o = accounted_overwrite [OF ac Some, of v]
    have lnk: "linked ?c" using o(1) unfolding accounted_def by (rule conjunct1)
    have it: "items ?c k = Some el" "el \<in> set (ll ?c)" using Some linked_key [OF ln Some] by simp_all
    have rec: "recency (?c\<lparr>ll := MoveToFront el (ll ?c)\<rparr>) = k # filter (\<lambda>j. j \<noteq> k) (recency c)"
      unfolding recency_ll move_recency [OF lnk it(1)] o(2) ..
    have "sizedContents (?c\<lparr>ll := MoveToFront el (ll ?c)\<rparr>) = sizedContents ?c" by (simp add: sizedContents_def fun_eq_iff)
    then show thesis using accounted_move [OF o(1) it(2)] rec o(3) Some
      by (intro that [of "?c\<lparr>ll := MoveToFront el (ll ?c)\<rparr>"]) (simp_all add: SizedSet_def Let_def)
  qed
  have "ll c' \<noteq> []" using c'(3) by (auto simp: recency_def)
  note e = evictLoop_facts [OF c'(2) this]
  show "sizedInv (SizedSet k v c)" "maxBytes (SizedSet k v c) = maxBytes c" "sizedContents (SizedSet k v c) k = Some v"
    "sizedContents (SizedSet k v c) \<subseteq>\<^sub>m (sizedContents c)(k \<mapsto> v)"
    "\<exists>n > 0. recency (SizedSet k v c) = take n (k # filter (\<lambda>j. j \<noteq> k) (recency c))"
    using e c' by simp_all
qed

lemma SizedGet_facts:
  assumes "sizedInv c"
  shows "sizedInv (snd (SizedGet k c))" "fst (SizedGet k c) = sizedContents c k" "sizedContents (snd (SizedGet k c)) = sizedContents c"
proof -
  have "sizedInv (snd (SizedGet k c)) \<and> fst (SizedGet k c) = sizedContents c k \<and> sizedContents (snd (SizedGet k c)) = sizedContents c"
  proof (cases "items c k")
    case None
    have "sizedInv (c\<lparr>sMisses := m\<rparr>) = sizedInv c" for m by (simp add: sizedInv_def accounted_def linked_def)
    then show ?thesis using assms None by (simp add: SizedGet_def sizedContents_def fun_eq_iff)
  next
    case (Some el)
    have el: "el \<in> set (ll c)" using linked_key [OF _ Some] assms by (simp add: sizedInv_def accounted_def)
    have len: "length (MoveToFront el (ll c)) = length (ll c)"
      using el length_pos_if_in_set [OF el] by (simp add: MoveToFront_def length_remove1)
    have "accounted (c\<lparr>ll := MoveToFront el (ll c)\<rparr>)" using accounted_move [OF _ el] assms by (simp add: sizedInv_def)
    moreover have "accounted (c\<lparr>ll := l, sHits := h\<rparr>) = accounted (c\<lparr>ll := l\<rparr>)" for l h by (simp add: accounted_def linked_def)
    ultimately have "sizedInv (c\<lparr>ll := MoveToFront el (ll c), sHits := h\<rparr>)" for h using assms len by (simp add: sizedInv_def)
    then show ?thesis using Some by (simp add: SizedGet_def sizedContents_def fun_eq_iff)
  qed
  then show "sizedInv (snd (SizedGet k c))" "fst (SizedGet k c) = sizedContents c k" "sizedContents (snd (SizedGet k c)) = sizedContents c"
    by blast+
qed


lemma SizedDelete_facts:
  assumes "sizedInv c"
  shows "sizedInv (SizedDelete k c)" "sizedContents (SizedDelete k c) = (sizedContents c)(k := None)"
proof -
  have ac: "accounted c" using assms by (simp add: sizedInv_def)
  have "sizedInv (SizedDelete k c) \<and> sizedContents (SizedDelete k c) = (sizedContents c)(k := None)"
  proof (cases "items c k")
    case None
    then show ?thesis using assms by (simp add: SizedDelete_def sizedContents_def fun_eq_iff)
  next
    case (Some el)
    have el: "keyOf c el = k" "el \<in> set (ll c)" using linked_key [OF _ Some] ac by (simp_all add: accounted_def)
    note f = sizedRemove_facts [OF ac el(2)]
    have "0 \<le> sizeOf c el" using ac el(2) by (simp add: accounted_def)
    then have "cur (sizedRemoveElement el c) \<le> cur c" "length (remove1 el (ll c)) \<le> length (ll c)"
      by (simp_all add: sizedRemoveElement_def length_remove1)
    then have "sizedInv (sizedRemoveElement el c)"
      using f(1) assms unfolding sizedInv_def f(2,5) by linarith
    then show ?thesis using f(3) Some el(1) by (simp add: SizedDelete_def)
  qed
  then show "sizedInv (SizedDelete k c)" "sizedContents (SizedDelete k c) = (sizedContents c)(k := None)" by blast+
qed

interpretation sized: bounded_cache sizedInv sizedContents "\<lambda>k t. SizedGet k" "\<lambda>k v t. SizedSet k v" SizedDelete
proof
  fix s :: "'a SizedCache" and k v t
  assume s: "sizedInv s"
  show "sizedInv (snd (SizedGet k s))" "fst (SizedGet k s) = Some v \<Longrightarrow> sizedContents s k = Some v"
    "sizedContents (snd (SizedGet k s)) \<subseteq>\<^sub>m sizedContents s" using SizedGet_facts [OF s, of k] by simp_all
  show "sizedInv (SizedSet k v s)" "sizedContents (SizedSet k v s) k = Some v"
    "sizedContents (SizedSet k v s) \<subseteq>\<^sub>m (sizedContents s)(k \<mapsto> v)" by (rule SizedSet_facts [OF s])+
  show "sizedInv (SizedDelete k s)" "sizedContents (SizedDelete k s) = (sizedContents s)(k := None)" by (rule SizedDelete_facts [OF s])+
qed

section \<open>Properties of the caches\<close>

fun runCache :: "('k, 'v) cacheOp list \<Rightarrow> ('k, 'v) Cache \<Rightarrow> ('k, 'v) Cache" where
  "runCache [] c = c"
| "runCache (GetOp k t # ops) c = runCache ops (snd (Get k t c))"
| "runCache (SetOp k v t # ops) c = runCache ops (Set k v t c)"
| "runCache (DelOp k # ops) c = runCache ops (Delete k c)"

fun runSized :: "('k, string) cacheOp list \<Rightarrow> 'k SizedCache \<Rightarrow> 'k SizedCache" where
  "runSized [] c = c"
| "runSized (GetOp k t # ops) c = runSized ops (snd (SizedGet k c))"
| "runSized (SetOp k v t # ops) c = runSized ops (SizedSet k v c)"
| "runSized (DelOp k # ops) c = runSized ops (SizedDelete k c)"

lemma runCache_exec: "runCache ops c = counted.exec ops c"
  by (induction ops c rule: runCache.induct) simp_all

lemma runSized_exec: "runSized ops c = sized.exec ops c"
  by (induction ops c rule: runSized.induct) simp_all

lemma NewWithTTL_inv: "NewWithTTL cap t = Some c \<Longrightarrow> cacheInv c \<and> cacheContents c = Map.empty \<and> int (capacity c) = cap"
  by (auto simp: NewWithTTL_def New_def cacheInv_def linked_def cacheContents_def fun_eq_iff split: if_split_asm)

lemma NewSized_inv: "NewSized mb = Some c \<Longrightarrow> sizedInv c \<and> sizedContents c = Map.empty \<and> maxBytes c = mb"
  by (auto simp: NewSized_def sizedInv_def accounted_def linked_def sizedContents_def fun_eq_iff split: if_split_asm)

lemma runCache_capacity: "cacheInv c \<Longrightarrow> capacity (runCache ops c) = capacity c"
proof (induction ops c rule: runCache.induct)
  case (2 k t ops c)
  then show ?case using counted.get_inv [of c k t] Get_facts(2) [of c k t] by (simp add: cacheInv_def)
next
  case (3 k v t ops c)
  then show ?case using counted.put_inv [of c k v t] Set_facts [of c k v t] by (simp add: setResult_def)
next
  case (4 k ops c)
  then show ?case using counted.del_inv [of c k] Delete_facts(2) [of c k] by (simp add: cacheInv_def)
qed simp

lemma runSized_max: "sizedInv c \<Longrightarrow> maxBytes (runSized ops c) = maxBytes c"
proof (induction ops c rule: runSized.induct)
  case (2 k t ops c)
  have "maxBytes (snd (SizedGet k c)) = maxBytes c" by (simp add: SizedGet_def split: option.split)
  then show ?case using 2 SizedGet_facts(1) [OF 2(2)] by simp
next
  case (3 k v t ops c)
  then show ?case using SizedSet_facts(1,2) [OF 3(2)] by simp
next
  case (4 k ops c)
  have "maxBytes (SizedDelete k c) = maxBytes c" by (simp add: SizedDelete_def sizedRemoveElement_def removeElement_def split: option.split)
  then show ?case using 4 SizedDelete_facts(1) [OF 4(2)] by simp
qed simp

text \<open>
  C26. After any sequence of operations on a new count-bounded cache, with or without TTL, a hit
  returns the value last written for the key and not deleted since, and the cache never holds more
  entries than its capacity.
\<close>

theorem cache_hit_is_last_write:
  assumes "NewWithTTL cap lifetime = Some c"
  shows "(\<forall>v. fst (Get k t (runCache ops c)) = Some v \<longrightarrow> execMap ops Map.empty k = Some v) \<and> int (Len (runCache ops c)) \<le> cap"
proof -
  note n = NewWithTTL_inv [OF assms]
  have "cacheInv (runCache ops c)" using counted.exec_inv [of c ops] n by (simp add: runCache_exec)
  then show ?thesis
    using counted.hit_is_last_write [of c Map.empty k t ops] n runCache_capacity [of c ops]
    by (auto simp: runCache_exec Len_def cacheInv_def)
qed

theorem cache_hit_is_last_write_witness:
  "\<exists>c. NewWithTTL 2 0 = Some c \<and> int (Len (runCache [SetOp 1 ''a'' 0, SetOp 2 ''b'' 0, SetOp (3::nat) ''c'' 0] c)) \<le> 2"
proof -
  obtain c :: "(nat, string) Cache" where c: "NewWithTTL 2 0 = Some c" by (simp add: NewWithTTL_def New_def)
  from cache_hit_is_last_write [OF c] c show ?thesis by blast
qed

text \<open>
  Eviction is least-recently-used: after any history, storing a key puts it first in the order
  of use, keeps the relative order of the others and drops only what no longer fits, from the end.
\<close>

theorem set_evicts_least_recently_used:
  assumes "NewWithTTL cap lifetime = Some c"
  shows "recency (Set k v t (runCache ops c)) = take (nat cap) (k # filter (\<lambda>j. j \<noteq> k) (recency (runCache ops c)))"
  using Set_facts [of "runCache ops c" k v t] NewWithTTL_inv [OF assms] counted.exec_inv [of c ops] runCache_capacity [of c ops]
  by (auto simp: setResult_def runCache_exec)

theorem set_evicts_least_recently_used_witness:
  "\<exists>c. NewWithTTL 2 0 = Some c \<and>
     recency (Set (3::nat) ''c'' 0 (runCache [SetOp 1 ''a'' 0, SetOp 2 ''b'' 0, GetOp 1 0] c)) = [3, 1]"
proof -
  obtain c :: "(nat, string) Cache" where c: "NewWithTTL 2 0 = Some c" by (simp add: NewWithTTL_def New_def)
  have "recency (runCache [SetOp 1 ''a'' 0, SetOp 2 ''b'' 0, GetOp 1 0] c) = [1, 2]"
    using c by (auto simp: NewWithTTL_def New_def Set_def Get_def Let_def recency_def MoveToFront_def expiry_def)
  with set_evicts_least_recently_used [OF c, of 3 "''c''" 0 "[SetOp 1 ''a'' 0, SetOp 2 ''b'' 0, GetOp 1 0]"] c
  show ?thesis by auto
qed

text \<open>
  C27. The byte-bounded cache accounts exactly: after any history its running total is the total
  length of the values it holds, at most the limit unless a single entry remains, and a hit returns
  the value last written.
\<close>

theorem sized_cache_accounts_bytes:
  assumes "NewSized mb = Some c"
  shows "cur (runSized ops c) = sum_list (map (\<lambda>el. int (length (sVal (the (store (runSized ops c) el))))) (ll (runSized ops c))) \<and>
    (cur (runSized ops c) \<le> mb \<or> length (ll (runSized ops c)) \<le> 1) \<and>
    (\<forall>v. fst (SizedGet k (runSized ops c)) = Some v \<longrightarrow> execMap ops Map.empty k = Some v)"
proof -
  note n = NewSized_inv [OF assms]
  let ?c = "runSized ops c"
  have inv: "sizedInv ?c" using sized.exec_inv [of c ops] n by (simp add: runSized_exec)
  then have "map (sizeOf ?c) (ll ?c) = map (\<lambda>el. int (length (sVal (the (store ?c el))))) (ll ?c)"
    by (intro map_cong) (auto simp: sizedInv_def accounted_def)
  then have "cur ?c = sum_list (map (\<lambda>el. int (length (sVal (the (store ?c el))))) (ll ?c))"
    using inv unfolding sizedInv_def accounted_def by (simp only:)
  then show ?thesis
    using inv sized.hit_is_last_write [of c Map.empty k ops] n runSized_max [of c ops]
    by (auto simp: runSized_exec sizedInv_def)
qed

theorem sized_cache_accounts_bytes_witness:
  "\<exists>c. NewSized 5 = Some c \<and> (cur (runSized [SetOp (1::nat) ''abc'' 0, SetOp 2 ''defg'' 0] c) \<le> 5 \<or>
     length (ll (runSized [SetOp 1 ''abc'' 0, SetOp 2 ''defg'' 0] c)) \<le> 1)"
proof -
  obtain c :: "nat SizedCache" where c: "NewSized 5 = Some c" by (simp add: NewSized_def)
  from sized_cache_accounts_bytes [OF c] c show ?thesis by blast
qed

text \<open>
  A value longer than the whole budget is kept although eviction is documented to run until the
  total is within the limit: the loop never removes the last entry.
\<close>

theorem oversized_entry_is_kept:
  "\<exists>c. NewSized 2 = Some c \<and> cur (SizedSet (1::nat) ''abc'' c) = 3 \<and> maxBytes (SizedSet 1 ''abc'' c) = 2"
  by (simp add: NewSized_def SizedSet_def evictLoop.simps)

end
