(* ===== verification/RateLimit.thy ===== *)
theory RateLimit
  imports Prelude "HOL-Library.Word"
begin

text \<open>
  The Postgres-backed counters: the request limiter and its leases
  (\<^verbatim>\<open>src/internal/ratelimit/bucket.go\<close> with the statements of \<^verbatim>\<open>src/internal/ratelimit/queries/rate_limits.sql\<close>) and
  the throttle of the authentication surface (\<^verbatim>\<open>src/internal/auth/throttle/throttle.go\<close> with
  \<^verbatim>\<open>src/internal/users/queries/auth_throttle.sql\<close>). A counter table maps a key to a row; each statement is
  atomic in Postgres and is one function on the table. Times and durations are nanoseconds. The clock
  of the database and that of the Go process are separate arguments, and whether the database answers
  is an argument too.
\<close>

section \<open>Counter rows\<close>

record row =
  rowHits :: int
  WindowStartedAt :: int

type_synonym table = "string \<times> string \<Rightarrow> row option"

text \<open>The upsert shared by the bump statements: roll the window if it started before the cutoff, else count.\<close>

definition bumpRow :: "int \<Rightarrow> int \<Rightarrow> row option \<Rightarrow> row" where
  "bumpRow cutoff now r = (case r of
     None \<Rightarrow> \<lparr>rowHits = 1, WindowStartedAt = now\<rparr>
   | Some x \<Rightarrow> if WindowStartedAt x < cutoff then \<lparr>rowHits = 1, WindowStartedAt = now\<rparr>
              else \<lparr>rowHits = rowHits x + 1, WindowStartedAt = WindowStartedAt x\<rparr>)"

definition BumpRateLimit :: "int \<Rightarrow> int \<Rightarrow> string \<times> string \<Rightarrow> table \<Rightarrow> row \<times> table" where
  "BumpRateLimit ttl now k t = (let r = bumpRow (now - ttl) now (t k) in (r, t(k \<mapsto> r)))"

definition AcquireRateLimitLease :: "int \<Rightarrow> int \<Rightarrow> int \<Rightarrow> string \<times> string \<Rightarrow> table \<Rightarrow> row option \<times> table" where
  "AcquireRateLimitLease ttl maxHits now k t = (case t k of
     Some x \<Rightarrow> if WindowStartedAt x < now - ttl \<or> rowHits x < maxHits
              then (let r = bumpRow (now - ttl) now (t k) in (Some r, t(k \<mapsto> r)))
              else (None, t)
   | None \<Rightarrow> (let r = bumpRow (now - ttl) now None in (Some r, t(k \<mapsto> r))))"

definition ReleaseRateLimitLease :: "string \<times> string \<Rightarrow> table \<Rightarrow> table" where
  "ReleaseRateLimitLease k t = (case t k of None \<Rightarrow> t | Some x \<Rightarrow> t(k \<mapsto> x\<lparr>rowHits := max (rowHits x - 1) 0\<rparr>))"

section \<open>The request limiter\<close>

record LimitPolicy =
  Scope :: string
  Max :: int
  Window :: int

record Decision =
  Allowed :: bool
  Remaining :: int
  Limit :: int
  ResetIn :: int
  RetryAfter :: int

abbreviation second :: int where
  "second \<equiv> 1000000000"

datatype limit_error = BadPolicy | BadKey | DbError string | InvalidIP

definition max0 :: "int \<Rightarrow> int" where
  "max0 n = (if n < 0 then 0 else n)"

text \<open>The window is passed to Postgres in whole microseconds.\<close>

definition ttlOf :: "int \<Rightarrow> int" where
  "ttlOf window = window div 1000 * 1000"

definition zeroDecision :: Decision where
  "zeroDecision = \<lparr>Allowed = False, Remaining = 0, Limit = 0, ResetIn = 0, RetryAfter = 0\<rparr>"

definition failOpen :: "int \<Rightarrow> int \<Rightarrow> Decision" where
  "failOpen mx window = \<lparr>Allowed = True, Remaining = mx, Limit = mx, ResetIn = window, RetryAfter = 0\<rparr>"

definition resetInOf :: "int \<Rightarrow> int \<Rightarrow> row \<Rightarrow> int" where
  "resetInOf goNow window r = (let d = WindowStartedAt r + window - goNow in if d < 0 then 0 else d)"

definition decide :: "int \<Rightarrow> int \<Rightarrow> int \<Rightarrow> row \<Rightarrow> Decision" where
  "decide goNow mx window r = (let resetIn = resetInOf goNow window r; allowed = (rowHits r \<le> mx) in
     \<lparr>Allowed = allowed, Remaining = max0 (mx - rowHits r), Limit = mx, ResetIn = resetIn,
      RetryAfter = (if allowed then 0 else if resetIn \<le> 0 then second else resetIn)\<rparr>)"

text \<open>\<open>dbErr\<close> is the error of the statement, if it fails; then the table is unchanged.\<close>

definition Allow :: "string option \<Rightarrow> int \<Rightarrow> int \<Rightarrow> LimitPolicy \<Rightarrow> string \<Rightarrow> table \<Rightarrow> (Decision \<times> limit_error option) \<times> table" where
  "Allow dbErr dbNow goNow p key t =
     (if Max p \<le> 0 \<or> Window p \<le> 0 then ((zeroDecision, Some BadPolicy), t)
      else if Scope p = '''' \<or> key = '''' then ((zeroDecision, Some BadKey), t)
      else (case dbErr of
        Some e \<Rightarrow> ((failOpen (Max p) (Window p), Some (DbError e)), t)
      | None \<Rightarrow> (case BumpRateLimit (ttlOf (Window p)) dbNow (Scope p, key) t of
          (r, t') \<Rightarrow> ((decide goNow (Max p) (Window p) r, None), t'))))"

section \<open>Leases\<close>

record Lease =
  leasePolicy :: LimitPolicy
  leaseKey :: string
  released :: bool

text \<open>\<open>peekErr\<close>: whether reading the row of a refused lease fails.\<close>

definition blockedLeaseDecision :: "bool \<Rightarrow> int \<Rightarrow> LimitPolicy \<Rightarrow> string \<Rightarrow> table \<Rightarrow> Decision" where
  "blockedLeaseDecision peekErr goNow p key t =
     (let resetIn = (if peekErr then Window p
          else case t (Scope p, key) of
            None \<Rightarrow> Window p
          | Some r \<Rightarrow> let d = WindowStartedAt r + Window p - goNow in if d \<le> 0 then second else d) in
      \<lparr>Allowed = False, Remaining = 0, Limit = Max p, ResetIn = resetIn, RetryAfter = resetIn\<rparr>)"

definition AcquireLease :: "string option \<Rightarrow> bool \<Rightarrow> int \<Rightarrow> int \<Rightarrow> LimitPolicy \<Rightarrow> string \<Rightarrow> table
    \<Rightarrow> (Lease option \<times> Decision \<times> limit_error option) \<times> table" where
  "AcquireLease dbErr peekErr dbNow goNow p key t =
     (if Max p \<le> 0 \<or> Window p \<le> 0 then ((None, zeroDecision, Some BadPolicy), t)
      else if Scope p = '''' \<or> key = '''' then ((None, zeroDecision, Some BadKey), t)
      else (case dbErr of
        Some e \<Rightarrow> ((None, failOpen (Max p) (Window p), Some (DbError e)), t)
      | None \<Rightarrow> (case AcquireRateLimitLease (ttlOf (Window p)) (Max p) dbNow (Scope p, key) t of
          (None, t') \<Rightarrow> ((None, blockedLeaseDecision peekErr goNow p key t', None), t')
        | (Some r, t') \<Rightarrow>
            ((Some \<lparr>leasePolicy = p, leaseKey = key, released = False\<rparr>,
              \<lparr>Allowed = True, Remaining = max0 (Max p - rowHits r), Limit = Max p,
               ResetIn = resetInOf goNow (Window p) r, RetryAfter = 0\<rparr>, None), t'))))"

definition Release :: "string option \<Rightarrow> Lease option \<Rightarrow> table \<Rightarrow> (Lease option \<times> limit_error option) \<times> table" where
  "Release dbErr lease t = (case lease of None \<Rightarrow> ((None, None), t) | Some l \<Rightarrow>
     if released l then ((Some l, None), t)
     else (case dbErr of
       Some e \<Rightarrow> ((Some (l\<lparr>released := True\<rparr>), Some (DbError e)), t)
     | None \<Rightarrow> ((Some (l\<lparr>released := True\<rparr>), None), ReleaseRateLimitLease (Scope (leasePolicy l), leaseKey l) t)))"

section \<open>Networks and sign-ups\<close>

text \<open>A \<^verbatim>\<open>netip.Addr\<close>: invalid, four bytes, or sixteen bytes (a mapped IPv4 address has sixteen).\<close>

datatype Addr = NoAddr | Addr4 "8 word list" | Addr16 "8 word list"

fun maskToNetwork :: "Addr \<Rightarrow> Addr" where
  "maskToNetwork (Addr4 b) = Addr4 (b[3 := 0])"
| "maskToNetwork (Addr16 b) = Addr16 (take 6 b @ replicate 10 0)"
| "maskToNetwork NoAddr = NoAddr"

type_synonym cidrTable = "Addr \<Rightarrow> row option"

definition AllowSignupIP :: "string option \<Rightarrow> int \<Rightarrow> int \<Rightarrow> Addr \<Rightarrow> int \<Rightarrow> int \<Rightarrow> cidrTable
    \<Rightarrow> (Decision \<times> limit_error option) \<times> cidrTable" where
  "AllowSignupIP dbErr dbNow goNow ip mx window t =
     (if ip = NoAddr then ((zeroDecision, Some InvalidIP), t)
      else (case dbErr of
        Some e \<Rightarrow> ((failOpen mx window, Some (DbError e)), t)
      | None \<Rightarrow> let k = maskToNetwork ip; r = bumpRow (dbNow - ttlOf window) dbNow (t k) in
          ((decide goNow mx window r, None), t(k \<mapsto> r))))"

section \<open>The authentication throttle\<close>

datatype throttle_error = BumpError string | ErrThrottled int int

definition Hit :: "string option \<Rightarrow> int \<Rightarrow> int \<Rightarrow> int \<Rightarrow> LimitPolicy \<Rightarrow> string \<Rightarrow> table \<Rightarrow> throttle_error option \<times> table" where
  "Hit dbErr dbNow goNow goLater p ident t = (case dbErr of
     Some e \<Rightarrow> (Some (BumpError e), t)
   | None \<Rightarrow> let r = bumpRow (goNow - Window p) dbNow (t (Scope p, ident)); t' = t((Scope p, ident) \<mapsto> r) in
       if rowHits r > Max p
       then (let retry = Window p - (goLater - WindowStartedAt r) in
             (Some (ErrThrottled (if retry < second then second else retry) (rowHits r)), t'))
       else (None, t'))"

definition Reset :: "string \<Rightarrow> string \<Rightarrow> table \<Rightarrow> table" where
  "Reset scope ident t = t((scope, ident) := None)"

definition Purge :: "int \<Rightarrow> int \<Rightarrow> table \<Rightarrow> table" where
  "Purge goNow olderThan t k = (case t k of
     None \<Rightarrow> None | Some r \<Rightarrow> if WindowStartedAt r < goNow - olderThan then None else Some r)"

section \<open>Counting in a window\<close>

text \<open>
  \<open>granted\<close> counts the requests on one row, at the given database times, that stay within \<open>mx\<close> hits.
\<close>

fun granted :: "int \<Rightarrow> int \<Rightarrow> int list \<Rightarrow> row option \<Rightarrow> nat" where
  "granted ttl mx [] r = 0"
| "granted ttl mx (t # ts) r = (let r' = bumpRow (t - ttl) t r in
     (if rowHits r' \<le> mx then 1 else 0) + granted ttl mx ts (Some r'))"

lemma granted_one_window:
  "(\<forall>t \<in> set ts. t - ttl \<le> WindowStartedAt r) \<Longrightarrow> int (granted ttl mx ts (Some r)) \<le> max 0 (mx - rowHits r)"
proof (induction ts arbitrary: r)
  case (Cons t ts)
  let ?r = "\<lparr>rowHits = rowHits r + 1, WindowStartedAt = WindowStartedAt r\<rparr>"
  have b: "bumpRow (t - ttl) t (Some r) = ?r" using Cons.prems by (simp add: bumpRow_def)
  have "int (granted ttl mx ts (Some ?r)) \<le> max 0 (mx - rowHits ?r)" using Cons.prems by (intro Cons.IH) simp
  then show ?case by (auto simp: b Let_def max_def split: if_split_asm)
qed simp

lemma granted_new_window:
  assumes "0 \<le> mx" "\<forall>u \<in> set ts. u - ttl \<le> t" "rowHits r' = 1" "WindowStartedAt r' = t"
  shows "int ((if rowHits r' \<le> mx then 1 else 0) + granted ttl mx ts (Some r')) \<le> mx"
  using granted_one_window [of ts ttl r' mx] assms by (auto split: if_split_asm)

text \<open>Requests within one span of the window's length meet at most one roll of the window.\<close>

lemma granted_span:
  "0 \<le> mx \<Longrightarrow> (\<forall>t \<in> set ts. a \<le> t \<and> t \<le> a + ttl) \<Longrightarrow>
     int (granted ttl mx ts r) \<le> (case r of None \<Rightarrow> mx | Some x \<Rightarrow> max 0 (mx - rowHits x) + mx)"
proof (induction ts arbitrary: r)
  case (Cons t ts)
  have later: "\<forall>u \<in> set ts. u - ttl \<le> t" using Cons.prems(2) by force
  show ?case
  proof (cases "\<exists>x. r = Some x \<and> t - ttl \<le> WindowStartedAt x")
    case True
    then obtain x where x: "r = Some x" "t - ttl \<le> WindowStartedAt x" by blast
    let ?r = "\<lparr>rowHits = rowHits x + 1, WindowStartedAt = WindowStartedAt x\<rparr>"
    have b: "bumpRow (t - ttl) t (Some x) = ?r" using x by (simp add: bumpRow_def)
    have "int (granted ttl mx ts (Some ?r)) \<le> max 0 (mx - rowHits ?r) + mx" using Cons.IH [of "Some ?r"] Cons.prems by simp
    then show ?thesis using x(1) by (auto simp: b Let_def max_def split: if_split_asm)
  next
    case False
    then have b: "bumpRow (t - ttl) t r = \<lparr>rowHits = 1, WindowStartedAt = t\<rparr>" by (auto simp: bumpRow_def split: option.split)
    show ?thesis using granted_new_window [OF Cons.prems(1) later, of "\<lparr>rowHits = 1, WindowStartedAt = t\<rparr>"]
      by (auto simp: b Let_def split: option.split)
  qed
qed (auto split: option.split)

text \<open>The same count taken from the limiter's own decisions.\<close>

fun allowedCount :: "LimitPolicy \<Rightarrow> string \<Rightarrow> (int \<times> int) list \<Rightarrow> table \<Rightarrow> nat" where
  "allowedCount p key [] t = 0"
| "allowedCount p key ((dbNow, goNow) # reqs) t = (case Allow None dbNow goNow p key t of
     ((d, _), t') \<Rightarrow> (if Allowed d then 1 else 0) + allowedCount p key reqs t')"

definition validPolicy :: "LimitPolicy \<Rightarrow> string \<Rightarrow> bool" where
  "validPolicy p key \<longleftrightarrow> 0 < Max p \<and> 0 < Window p \<and> Scope p \<noteq> '''' \<and> key \<noteq> ''''"

lemma allowedCount_granted:
  "validPolicy p key \<Longrightarrow> allowedCount p key reqs t = granted (ttlOf (Window p)) (Max p) (map fst reqs) (t (Scope p, key))"
proof (induction reqs arbitrary: t)
  case (Cons q reqs)
  obtain dbNow goNow where q: "q = (dbNow, goNow)" by fastforce
  let ?r = "bumpRow (dbNow - ttlOf (Window p)) dbNow (t (Scope p, key))"
  define t' where "t' = t((Scope p, key) \<mapsto> ?r)"
  have "Allow None dbNow goNow p key t = ((decide goNow (Max p) (Window p) ?r, None), t')" "t' (Scope p, key) = Some ?r"
    using Cons.prems by (simp_all add: Allow_def BumpRateLimit_def validPolicy_def Let_def t'_def)
  moreover have "Allowed (decide goNow (Max p) (Window p) ?r) \<longleftrightarrow> rowHits ?r \<le> Max p" by (simp add: decide_def Let_def)
  ultimately show ?case using Cons.IH [OF Cons.prems, of t'] by (simp add: q Let_def)
qed simp

section \<open>Properties of the limiters\<close>

text \<open>
  Whatever happened before, the requests on one key whose database times lie within one window
  length of each other are granted at most twice the configured maximum, and at most the maximum if
  the key has no row yet.
\<close>

theorem limiter_grants_at_most_twice_max:
  assumes "validPolicy p key" "\<forall>q \<in> set reqs. a \<le> fst q \<and> fst q \<le> a + ttlOf (Window p)"
    and "\<forall>x. t (Scope p, key) = Some x \<longrightarrow> 0 \<le> rowHits x"
  shows "int (allowedCount p key reqs t) \<le> (if t (Scope p, key) = None then Max p else 2 * Max p)"
proof -
  have "0 \<le> Max p" using assms(1) by (simp add: validPolicy_def)
  note granted_span [OF this, of "map fst reqs" a "ttlOf (Window p)" "t (Scope p, key)"]
  then show ?thesis using assms by (auto simp: allowedCount_granted split: option.split_asm)
qed

definition demo_policy :: LimitPolicy where
  "demo_policy = \<lparr>Scope = ''api'', Max = 2, Window = 10000\<rparr>"

theorem limiter_grants_at_most_twice_max_witness:
  "int (allowedCount demo_policy ''k'' [(0, 0), (5000, 0), (9000, 0)] Map.empty) \<le> 2"
  using limiter_grants_at_most_twice_max [of demo_policy "''k''" "[(0, 0), (5000, 0), (9000, 0)]" 0 Map.empty]
  by (simp add: demo_policy_def validPolicy_def ttlOf_def)

text \<open>
  The bound is not the configured maximum: with at most two requests per window, three requests
  within a fifth of the window's length are all granted when they straddle a roll of the window.
\<close>

theorem limiter_exceeds_max_across_windows:
  "allowedCount demo_policy ''k'' [(0, 0), (10000, 0), (11000, 0), (12000, 0)] Map.empty = 4"
  by (simp add: demo_policy_def Allow_def BumpRateLimit_def bumpRow_def decide_def ttlOf_def Let_def)

text \<open>
  The limiter fails open and the throttle fails closed: if the database does not answer, a valid
  request is allowed and no counter changes, while an authentication attempt is refused.
\<close>

theorem limiter_fails_open_throttle_fails_closed:
  assumes "validPolicy p key"
  shows "\<exists>d. Allow (Some e) dbNow goNow p key t = ((d, Some (DbError e)), t) \<and> Allowed d \<and> Limit d = Max p \<and>
    Hit (Some e) dbNow goNow goLater p key t = (Some (BumpError e), t)"
  using assms by (auto simp: Allow_def validPolicy_def failOpen_def Hit_def)

theorem limiter_fails_open_throttle_fails_closed_witness:
  "\<exists>d. Allow (Some ''down'') 0 0 demo_policy ''k'' Map.empty = ((d, Some (DbError ''down'')), Map.empty) \<and> Allowed d"
  using limiter_fails_open_throttle_fails_closed [of demo_policy "''k''" "''down''" 0 0 Map.empty 0]
  by (auto simp: validPolicy_def demo_policy_def)

text \<open>A refused request is told to wait, never for less than nothing, and an allowed one is not.\<close>

lemma retry_hint: "RetryAfter (decide goNow mx window r) > 0 \<longleftrightarrow> \<not> Allowed (decide goNow mx window r)"
  by (auto simp: decide_def resetInOf_def Let_def)

text \<open>Masking is idempotent, and every IPv4 address in its sixteen-byte form falls into one network.\<close>

lemma mask_idempotent: "(\<And>b. a = Addr16 b \<Longrightarrow> length b = 16) \<Longrightarrow> maskToNetwork (maskToNetwork a) = maskToNetwork a"
  by (cases a) (simp_all)

lemma mapped_addresses_share_one_network:
  "maskToNetwork (Addr16 (replicate 10 0 @ [255, 255, a, b, c, d])) = Addr16 (replicate 16 0)"
  by (simp add: numeral_eq_Suc)

section \<open>Leases as a state machine\<close>

text \<open>
  Clients of one key acquire and release leases in any order; a state is the table and the leases
  handed out. \<open>leaseStep p key a b\<close> takes steps whose database time lies between \<open>a\<close> and \<open>b\<close>.
\<close>

inductive leaseStep :: "LimitPolicy \<Rightarrow> string \<Rightarrow> int \<Rightarrow> int \<Rightarrow> table \<times> Lease list \<Rightarrow> table \<times> Lease list \<Rightarrow> bool"
  for p key a b where
  acquire: "a \<le> dbNow \<Longrightarrow> dbNow \<le> b \<Longrightarrow> AcquireLease None peekErr dbNow goNow p key t = ((Some l, d, e), t') \<Longrightarrow>
     leaseStep p key a b (t, ls) (t', l # ls)"
| refuse: "a \<le> dbNow \<Longrightarrow> dbNow \<le> b \<Longrightarrow> AcquireLease None peekErr dbNow goNow p key t = ((None, d, e), t') \<Longrightarrow>
     leaseStep p key a b (t, ls) (t', ls)"
| release: "i < length ls \<Longrightarrow> Release None (Some (ls ! i)) t = ((Some l, e), t') \<Longrightarrow>
     leaseStep p key a b (t, ls) (t', ls[i := l])"

inductive_cases leaseStepE: "leaseStep p key a b s s'"

definition held :: "Lease list \<Rightarrow> nat" where
  "held ls = length (filter (\<lambda>l. \<not> released l) ls)"

text \<open>The counter never leaves \<open>0..Max\<close>; within a TTL it covers every lease still held.\<close>

definition leaseInv :: "LimitPolicy \<Rightarrow> string \<Rightarrow> int \<Rightarrow> table \<times> Lease list \<Rightarrow> bool" where
  "leaseInv p key a s \<longleftrightarrow> (\<forall>l \<in> set (snd s). leasePolicy l = p \<and> leaseKey l = key) \<and>
     (case fst s (Scope p, key) of
        None \<Rightarrow> snd s = []
      | Some r \<Rightarrow> a \<le> WindowStartedAt r \<and> rowHits r \<le> Max p \<and> int (held (snd s)) \<le> rowHits r)"

lemma Acquire_cases:
  assumes "AcquireLease None peekErr dbNow goNow p key t = ((lo, d, e), t')" "validPolicy p key"
  shows "lo = None \<and> t' = t \<and> t (Scope p, key) \<noteq> None \<or>
    lo = Some \<lparr>leasePolicy = p, leaseKey = key, released = False\<rparr> \<and>
    t' = t((Scope p, key) \<mapsto> bumpRow (dbNow - ttlOf (Window p)) dbNow (t (Scope p, key))) \<and>
    (\<forall>x. t (Scope p, key) = Some x \<longrightarrow> WindowStartedAt x < dbNow - ttlOf (Window p) \<or> rowHits x < Max p)"
  using assms
  by (auto simp: AcquireLease_def AcquireRateLimitLease_def validPolicy_def Let_def split: option.split_asm if_split_asm)

lemma held_split: "held (xs @ x # ys) = held xs + (if released x then 0 else 1) + held ys"
  by (simp add: held_def)

lemma held_update:
  assumes "i < length ls" "\<not> released (ls ! i)" "released l"
  shows "int (held (ls[i := l])) = int (held ls) - 1"
proof -
  have "held ls = held (take i ls) + 1 + held (drop (Suc i) ls)"
    using held_split [of "take i ls" "ls ! i" "drop (Suc i) ls"] assms(1,2) by (simp add: id_take_nth_drop [symmetric])
  moreover have "held (ls[i := l]) = held (take i ls) + held (drop (Suc i) ls)"
    using assms(1,3) by (simp add: upd_conv_take_nth_drop held_split)
  ultimately show ?thesis by simp
qed

lemma leaseStep_inv:
  assumes "leaseStep p key a b s s'" "leaseInv p key a s" "validPolicy p key" "b \<le> a + ttlOf (Window p)"
  shows "leaseInv p key a s'"
  using assms(1)
proof (cases rule: leaseStep.cases)
  case (acquire dbNow peekErr goNow t l d e t' ls)
  have c: "l = \<lparr>leasePolicy = p, leaseKey = key, released = False\<rparr>"
      "t' = t((Scope p, key) \<mapsto> bumpRow (dbNow - ttlOf (Window p)) dbNow (t (Scope p, key)))"
      "\<forall>x. t (Scope p, key) = Some x \<longrightarrow> WindowStartedAt x < dbNow - ttlOf (Window p) \<or> rowHits x < Max p"
    using Acquire_cases [OF acquire(5) assms(3)] by auto
  have "0 < Max p" using assms(3) by (simp add: validPolicy_def)
  then show ?thesis using assms(2,4) acquire(1-4) c
    by (auto simp: leaseInv_def bumpRow_def held_def split: option.split_asm)
next
  case (refuse dbNow peekErr goNow t d e t' ls)
  then show ?thesis using Acquire_cases [OF refuse(5) assms(3)] assms(2) by auto
next
  case (release i ls t l e t')
  show ?thesis
  proof (cases "released (ls ! i)")
    case True
    then have "l = ls ! i" "t' = t" using release(4) by (auto simp: Release_def)
    then show ?thesis using assms(2) release by simp
  next
    case False
    have mem: "ls ! i \<in> set ls" using release(3) by simp
    then have k: "leasePolicy (ls ! i) = p" "leaseKey (ls ! i) = key" using assms(2) release(1) by (auto simp: leaseInv_def)
    have l: "l = (ls ! i)\<lparr>released := True\<rparr>" "t' = ReleaseRateLimitLease (Scope p, key) t"
      using release(4) False k by (auto simp: Release_def)
    obtain r where r: "t (Scope p, key) = Some r" "a \<le> WindowStartedAt r" "rowHits r \<le> Max p" "int (held ls) \<le> rowHits r"
      using assms(2) release(1) mem by (auto simp: leaseInv_def split: option.split_asm)
    have h: "int (held (ls[i := l])) = int (held ls) - 1" using held_update [OF release(3) False] l(1) by simp
    have "leasePolicy x = p \<and> leaseKey x = key" if "x \<in> set (ls[i := l])" for x
      using that set_update_subset_insert [of ls i l] assms(2) release(1) k l(1) by (auto simp: leaseInv_def)
    then show ?thesis using release(2) r h l(2) by (auto simp: leaseInv_def ReleaseRateLimitLease_def)
  qed
qed

lemma leases_reachable:
  assumes "(leaseStep p key a b)\<^sup>*\<^sup>* s s'" "leaseInv p key a s" "validPolicy p key" "b \<le> a + ttlOf (Window p)"
  shows "leaseInv p key a s'"
  using assms(1,2) by (induction rule: rtranclp_induct) (use leaseStep_inv assms(3,4) in blast)+

text \<open>
  C40. Within one TTL of the first lease no more than \<open>Max\<close> leases of a key are held at a time, in
  whatever order clients acquire and release, and however often they release the same lease.
\<close>

theorem concurrent_leases_bounded:
  assumes "(leaseStep p key a b)\<^sup>*\<^sup>* (Map.empty, []) (t, ls)" "validPolicy p key" "b \<le> a + ttlOf (Window p)"
  shows "int (held ls) \<le> Max p"
proof -
  have "leaseInv p key a (t, ls)" by (rule leases_reachable [OF assms(1) _ assms(2,3)]) (simp add: leaseInv_def)
  then show ?thesis using assms(2) by (auto simp: leaseInv_def held_def validPolicy_def split: option.split_asm)
qed

definition one_lease :: LimitPolicy where
  "one_lease = \<lparr>Scope = ''sse'', Max = 1, Window = 10000\<rparr>"

lemma first_lease: "AcquireLease None False now now one_lease ''u'' Map.empty =
    ((Some \<lparr>leasePolicy = one_lease, leaseKey = ''u'', released = False\<rparr>,
      \<lparr>Allowed = True, Remaining = 0, Limit = 1, ResetIn = 10000, RetryAfter = 0\<rparr>, None),
     [(''sse'', ''u'') \<mapsto> \<lparr>rowHits = 1, WindowStartedAt = now\<rparr>])"
  by (simp add: AcquireLease_def AcquireRateLimitLease_def bumpRow_def one_lease_def resetInOf_def max0_def Let_def)

theorem concurrent_leases_bounded_witness:
  "int (held [\<lparr>leasePolicy = one_lease, leaseKey = ''u'', released = False\<rparr>]) \<le> Max one_lease"
proof -
  have "leaseStep one_lease ''u'' 0 10000 (Map.empty, [])
      ([(''sse'', ''u'') \<mapsto> \<lparr>rowHits = 1, WindowStartedAt = 0\<rparr>], [\<lparr>leasePolicy = one_lease, leaseKey = ''u'', released = False\<rparr>])"
    by (rule leaseStep.acquire [OF _ _ first_lease]) simp_all
  from concurrent_leases_bounded [OF r_into_rtranclp [of "leaseStep one_lease ''u'' 0 10000", OF this]] show ?thesis
    by (simp add: validPolicy_def one_lease_def ttlOf_def)
qed

text \<open>
  A stream that outlives the TTL frees its slot while it still runs: after the TTL a second lease
  is granted under a limit of one although the first was never released, and a late release of the
  first then frees the slot the second one holds.
\<close>

theorem outliving_lease_overadmits:
  "\<exists>l1 l2 l3 d2 d3 t1 t2 t3. fst (AcquireLease None False 0 0 one_lease ''u'' Map.empty) = (Some l1, d2, None) \<and>
     snd (AcquireLease None False 0 0 one_lease ''u'' Map.empty) = t1 \<and>
     AcquireLease None False 10001 10001 one_lease ''u'' t1 = ((Some l2, d3, None), t2) \<and>
     t3 = snd (Release None (Some l1) t2) \<and>
     fst (fst (AcquireLease None False 10002 10002 one_lease ''u'' t3)) = Some l3"
  by (simp add: AcquireLease_def AcquireRateLimitLease_def Release_def ReleaseRateLimitLease_def bumpRow_def one_lease_def
      resetInOf_def max0_def Let_def ttlOf_def)

end
