(* ===== verification/GoPath.thy ===== *)
theory GoPath
  imports GoRunes
begin

text \<open>
  Further parts of Go's standard library: splitting and cutting strings at a byte, re-encoding runes,
  \<^verbatim>\<open>strings.ToLower\<close>, and the lexical path functions of \<^verbatim>\<open>path\<close> and \<^verbatim>\<open>path/filepath\<close> on a Unix host.
  The simple case mapping of the non-ASCII runes is a table of the Unicode standard; it is the
  argument \<open>tbl\<close> of \<open>ToLower\<close>.
\<close>

section \<open>Splitting\<close>

fun splitOn :: "'a \<Rightarrow> 'a list \<Rightarrow> 'a list list" where
  "splitOn c [] = [[]]"
| "splitOn c (x # xs) = (if x = c then [] # splitOn c xs else (x # hd (splitOn c xs)) # tl (splitOn c xs))"

definition Cut :: "'a \<Rightarrow> 'a list \<Rightarrow> ('a list \<times> 'a list) option" where
  "Cut c s = (if c \<in> set s then Some (takeWhile (\<lambda>x. x \<noteq> c) s, tl (dropWhile (\<lambda>x. x \<noteq> c) s)) else None)"

lemma splitOn_nonempty [simp]: "splitOn c s \<noteq> []"
  by (induction s) auto

lemma splitOn_plain: "c \<notin> set s \<Longrightarrow> splitOn c s = [s]"
  by (induction s) auto

lemma splitOn_append: "c \<notin> set s \<Longrightarrow> splitOn c (s @ c # t) = s # splitOn c t"
  by (induction s) auto

lemma splitOn_pieces: "p \<in> set (splitOn c s) \<Longrightarrow> c \<notin> set p"
proof (induction s arbitrary: p)
  case (Cons x xs)
  then have ih: "c \<notin> set (hd (splitOn c xs))" "\<And>q. q \<in> set (tl (splitOn c xs)) \<Longrightarrow> c \<notin> set q"
    by (simp_all add: Cons.IH list.set_sel(2))
  from Cons.prems Cons.IH ih show ?case by (cases "x = c") auto
qed simp

lemma splitOn_Join:
  "xs \<noteq> [] \<Longrightarrow> (\<And>x. x \<in> set xs \<Longrightarrow> c \<notin> set x) \<Longrightarrow> splitOn c (Join xs [c]) = xs"
  by (induction xs "[c]" rule: Join.induct) (auto simp: splitOn_plain splitOn_append)

lemma Join_splitOn: "Join (splitOn c s) [c] = s"
proof (induction s)
  case (Cons x xs)
  obtain y ys where y: "splitOn c xs = y # ys" by (cases "splitOn c xs") auto
  show ?case using Cons y by (cases ys) auto
qed simp

lemma Join_inj:
  assumes "xs \<noteq> []" "ys \<noteq> []" "\<And>x. x \<in> set xs \<Longrightarrow> c \<notin> set x" "\<And>y. y \<in> set ys \<Longrightarrow> c \<notin> set y"
  shows "Join xs [c] = Join ys [c] \<longleftrightarrow> xs = ys"
  using splitOn_Join [OF assms(1,3)] splitOn_Join [OF assms(2,4)] by metis

lemma Join_append: "xs \<noteq> [] \<Longrightarrow> ys \<noteq> [] \<Longrightarrow> Join (xs @ ys) sep = Join xs sep @ sep @ Join ys sep"
proof (induction xs sep rule: Join.induct)
  case (2 x sep)
  then show ?case by (cases ys) auto
qed auto

lemma set_Join: "set (Join segs sep) \<subseteq> set sep \<union> (\<Union>x\<in>set segs. set x)"
  by (induction segs sep rule: Join.induct) auto

lemma Cut_append: "c \<notin> set s \<Longrightarrow> Cut c (s @ c # t) = Some (s, t)"
  by (induction s) (auto simp: Cut_def)

lemma Cut_SomeD: "Cut c s = Some (a, b) \<Longrightarrow> s = a @ c # b \<and> c \<notin> set a"
proof -
  assume "Cut c s = Some (a, b)"
  then have in_s: "c \<in> set s" and a: "a = takeWhile (\<lambda>x. x \<noteq> c) s" and b: "b = tl (dropWhile (\<lambda>x. x \<noteq> c) s)"
    by (auto simp: Cut_def split: if_split_asm)
  have "dropWhile (\<lambda>x. x \<noteq> c) s \<noteq> []" using in_s by (auto simp: dropWhile_eq_Nil_conv)
  then have "dropWhile (\<lambda>x. x \<noteq> c) s = c # b" using hd_dropWhile [of "\<lambda>x. x \<noteq> c" s] b by (cases "dropWhile (\<lambda>x. x \<noteq> c) s") auto
  then show ?thesis using a takeWhile_dropWhile_id [of "\<lambda>x. x \<noteq> c" s] set_takeWhileD [of c "\<lambda>x. x \<noteq> c" s] by auto
qed

section \<open>Case mapping\<close>

text \<open>UTF-8 encoding; surrogates and values past the last rune are written as the error rune.\<close>

definition EncodeRune :: "nat \<Rightarrow> string" where
  "EncodeRune r =
     (if r < 128 then [byte r]
      else if r < 2048 then [byte (192 + r div 64), byte (128 + r mod 64)]
      else if r > 1114111 \<or> (55296 \<le> r \<and> r \<le> 57343) then [byte 239, byte 191, byte 189]
      else if r < 65536 then [byte (224 + r div 4096), byte (128 + r div 64 mod 64), byte (128 + r mod 64)]
      else [byte (240 + r div 262144), byte (128 + r div 4096 mod 64), byte (128 + r div 64 mod 64), byte (128 + r mod 64)])"

function runesOf :: "string \<Rightarrow> nat list" where
  "runesOf s = (if s = [] then [] else fst (DecodeRune s) # runesOf (drop (snd (DecodeRune s)) s))"
  by pat_completeness auto
termination
  by (relation "measure length") (use DecodeRune_width in \<open>auto simp: not_less_eq\<close>)

declare runesOf.simps [simp del]

definition lowerRune :: "(nat \<Rightarrow> nat) \<Rightarrow> nat \<Rightarrow> nat" where
  "lowerRune tbl r = (if r < 128 then of_char (ascii_lower (char_of r)) else tbl r)"

definition ToLower :: "(nat \<Rightarrow> nat) \<Rightarrow> string \<Rightarrow> string" where
  "ToLower tbl s = concat (map (EncodeRune \<circ> lowerRune tbl) (runesOf s))"

definition ascii :: "char \<Rightarrow> bool" where
  "ascii c \<longleftrightarrow> code c < 128"

lemma runesOf_ascii: "list_all ascii s \<Longrightarrow> runesOf s = map of_char s"
  by (induction s) (simp_all add: runesOf.simps ascii_def)

lemma ascii_lower_code: "code c < 128 \<Longrightarrow> code (ascii_lower c) < 128"
  by (auto simp: ascii_lower_def is_ascii_upper_def less_eq_char_def)

lemma ToLower_ascii: "list_all ascii s \<Longrightarrow> ToLower tbl s = map ascii_lower s"
  by (induction s) (simp_all add: ToLower_def runesOf.simps ascii_def lowerRune_def EncodeRune_def byte_def ascii_lower_code)

section \<open>Paths\<close>

text \<open>The pass over the segments; \<open>st\<close> holds the segments kept so far, last one first.\<close>

fun cleanSegs :: "bool \<Rightarrow> string list \<Rightarrow> string list \<Rightarrow> string list" where
  "cleanSegs rooted [] st = rev st"
| "cleanSegs rooted (x # xs) st =
     (if x = '''' \<or> x = ''.'' then cleanSegs rooted xs st
      else if x = ''..'' then
        (if st \<noteq> [] \<and> hd st \<noteq> ''..'' then cleanSegs rooted xs (tl st)
         else if rooted then cleanSegs rooted xs st
         else cleanSegs rooted xs (''..'' # st))
      else cleanSegs rooted xs (x # st))"

definition Clean :: "string \<Rightarrow> string" where
  "Clean p = (let rooted = HasPrefix p ''/'';
                  q = (if rooted then ''/'' else '''') @ Join (cleanSegs rooted (splitOn CHR ''/'' p) []) ''/'' in
              if q = '''' then ''.'' else q)"

definition pathJoin :: "string list \<Rightarrow> string" where
  "pathJoin xs = (let ys = filter (\<lambda>x. x \<noteq> '''') xs in if ys = [] then '''' else Clean (Join ys ''/''))"

text \<open>\<^verbatim>\<open>filepath.Dir\<close>: the cleaned text before the last slash.\<close>

definition pathDir :: "string \<Rightarrow> string" where
  "pathDir p = Clean (if CHR ''/'' \<in> set p then rev (dropWhile (\<lambda>c. c \<noteq> CHR ''/'') (rev p)) else '''')"

definition plainSeg :: "string \<Rightarrow> bool" where
  "plainSeg x \<longleftrightarrow> x \<notin> {'''', ''.'', ''..''} \<and> CHR ''/'' \<notin> set x"

lemma plainSegs_slash: "list_all plainSeg xs \<Longrightarrow> x \<in> set xs \<Longrightarrow> CHR ''/'' \<notin> set x"
  by (simp add: list_all_iff plainSeg_def)

abbreviation absPath :: "string list \<Rightarrow> string" where
  "absPath xs \<equiv> ''/'' @ Join xs ''/''"

lemma cleanSegs_plain: "list_all plainSeg xs \<Longrightarrow> cleanSegs rooted xs st = rev st @ xs"
  by (induction xs arbitrary: st) (auto simp: plainSeg_def)

lemma cleanSegs_keeps:
  assumes "rooted" "list_all plainSeg st" "\<And>x. x \<in> set xs \<Longrightarrow> CHR ''/'' \<notin> set x"
  shows "list_all plainSeg (cleanSegs rooted xs st)"
  using assms
proof (induction rooted xs st rule: cleanSegs.induct)
  case (2 rooted x xs st)
  have "list_all plainSeg (tl st)" using 2(7) by (cases st) auto
  moreover have "plainSeg x" if "x \<noteq> ''''" "x \<noteq> ''.''" "x \<noteq> ''..''" using that 2(8) by (simp add: plainSeg_def)
  ultimately show ?case using 2 by auto
qed (simp add: list_all_iff)

lemma splitOn_absPath:
  assumes "list_all plainSeg xs"
  shows "splitOn CHR ''/'' (absPath xs) = '''' # (if xs = [] then [''''] else xs)"
  using assms splitOn_Join [of xs "CHR ''/''"] by (auto simp: plainSeg_def list_all_iff)

lemma Clean_absPath: "list_all plainSeg xs \<Longrightarrow> Clean (absPath xs) = absPath xs"
  using cleanSegs_plain [of xs True "[]"] splitOn_absPath [of xs] by (auto simp: Clean_def Let_def simp del: splitOn.simps)

text \<open>A cleaned rooted path is the plain one of its segments.\<close>

lemma Clean_rooted:
  assumes "HasPrefix p ''/''"
  obtains xs where "list_all plainSeg xs" "Clean p = absPath xs"
proof
  show "list_all plainSeg (cleanSegs True (splitOn CHR ''/'' p) [])"
    by (rule cleanSegs_keeps) (simp_all add: splitOn_pieces)
  show "Clean p = absPath (cleanSegs True (splitOn CHR ''/'' p) [])"
    using assms by (simp add: Clean_def)
qed

lemma absPath_append: "xs \<noteq> [] \<Longrightarrow> ys \<noteq> [] \<Longrightarrow> absPath (xs @ ys) = absPath xs @ ''/'' @ Join ys ''/''"
  using Join_append [of xs ys "''/''"] by simp

lemma absPath_inj:
  assumes "list_all plainSeg xs" "list_all plainSeg ys"
  shows "absPath xs = absPath ys \<longleftrightarrow> xs = ys"
proof (cases "xs = [] \<or> ys = []")
  case True
  have e: "Join zs ''/'' = '''' \<longleftrightarrow> zs = []" if "list_all plainSeg zs" for zs
    using that by (cases zs; cases "tl zs") (auto simp: plainSeg_def)
  show ?thesis using True e [OF assms(1)] e [OF assms(2)] by auto
next
  case False
  then show ?thesis using assms Join_inj [of xs ys "CHR ''/''"] by (auto simp: plainSeg_def list_all_iff)
qed

lemma pathJoin_absPath:
  assumes "xs \<noteq> []" "list_all plainSeg (xs @ ys)"
  shows "pathJoin (absPath xs # ys) = absPath (xs @ ys)"
proof (cases "ys = []")
  case True
  then show ?thesis using assms Clean_absPath [of xs] by (simp add: pathJoin_def)
next
  case False
  have "filter (\<lambda>x. x \<noteq> '''') ys = ys" using assms(2) by (auto simp: filter_id_conv plainSeg_def list_all_iff)
  moreover have "Join (absPath xs # ys) ''/'' = absPath (xs @ ys)"
    using False assms(1) absPath_append [of xs ys] by (cases ys) auto
  ultimately show ?thesis using Clean_absPath [OF assms(2)] False by (simp add: pathJoin_def Let_def)
qed

lemma pathDir_absPath:
  assumes "xs \<noteq> []" "list_all plainSeg (xs @ [x])"
  shows "pathDir (absPath (xs @ [x])) = absPath xs"
proof -
  have x: "CHR ''/'' \<notin> set x" using assms(2) by (simp add: plainSeg_def)
  have "absPath (xs @ [x]) = absPath xs @ ''/'' @ x" using assms(1) absPath_append [of xs "[x]"] by simp
  moreover have "dropWhile (\<lambda>c. c \<noteq> CHR ''/'') (rev x @ CHR ''/'' # rev (absPath xs)) = CHR ''/'' # rev (absPath xs)"
    using x by (subst dropWhile_append2) auto
  ultimately have "pathDir (absPath (xs @ [x])) = Clean (rev (CHR ''/'' # rev (absPath xs)))"
    by (simp only: pathDir_def) simp
  then have "pathDir (absPath (xs @ [x])) = Clean (absPath xs @ ''/'')" by simp
  also have "\<dots> = absPath xs"
  proof -
    have "Join (xs @ ['''']) ''/'' = Join xs ''/'' @ ''/''" using Join_append [of xs "['''']" "''/''"] assms(1) by simp
    moreover have "splitOn CHR ''/'' (Join (xs @ ['''']) ''/'') = xs @ ['''']"
    proof (rule splitOn_Join)
      show "CHR ''/'' \<notin> set y" if "y \<in> set (xs @ [''''])" for y
        using that plainSegs_slash [OF assms(2)] by (cases "y = ''''") simp_all
    qed simp
    ultimately have "splitOn CHR ''/'' (absPath xs @ ''/'') = '''' # xs @ ['''']" by simp
    moreover have "cleanSegs True (xs @ ['''']) [] = xs"
    proof -
      have "cleanSegs r (zs @ ['''']) st = rev st @ zs" if "list_all plainSeg zs" for r zs st
        using that by (induction zs arbitrary: st) (auto simp: plainSeg_def)
      then show ?thesis using assms(2) by simp
    qed
    ultimately show ?thesis by (simp add: Clean_def Let_def)
  qed
  finally show ?thesis .
qed

section \<open>Runes of concatenations\<close>

lemma DecodeRune_ascii_only:
  assumes "fst (DecodeRune (c # s)) < 128" shows "code c < 128"
proof (rule ccontr)
  assume n: "\<not> code c < 128"
  have d2: "128 \<le> fst (decode2 c s)" if "in_range 194 223 c"
    using that by (auto simp: decode2_def in_range_def RuneError_def split: list.split)
  have d3: "128 \<le> fst (decode3 lo hi c s)" if "code c = 224 \<and> lo = 160 \<or> 225 \<le> code c" for lo hi
    using that by (auto simp: decode3_def in_range_def RuneError_def split: list.split)
  have d4: "128 \<le> fst (decode4 lo hi c s)" if "code c = 240 \<and> lo = 144 \<or> 241 \<le> code c" for lo hi
    using that by (auto simp: decode4_def in_range_def RuneError_def split: list.split)
  have "128 \<le> fst (DecodeRune (c # s))"
    using n d2 d3 [of 160 191] d3 [of 128 159] d3 [of 128 191] d4 [of 144 191] d4 [of 128 191] d4 [of 128 143]
    by (simp add: in_range_def RuneError_def)
  then show False using assms by simp
qed

lemma decode_append_ascii:
  assumes "cs = [] \<or> ascii (hd cs)"
  shows "decode2 c (s @ cs) = decode2 c s"
    "128 \<le> lo \<Longrightarrow> decode3 lo hi c (s @ cs) = decode3 lo hi c s"
    "128 \<le> lo \<Longrightarrow> decode4 lo hi c (s @ cs) = decode4 lo hi c s"
proof -
  have nr: "\<not> in_range l h (hd cs)" if "128 \<le> l" "cs \<noteq> []" for l h
    using assms that by (auto simp: ascii_def in_range_def)
  have two: "s @ cs = x # r \<Longrightarrow> s = [] \<Longrightarrow> \<not> in_range l h x" if "128 \<le> l" for x r l h
    using nr [OF that] by (cases cs) auto
  show "decode2 c (s @ cs) = decode2 c s"
    using nr by (cases s; cases cs) (auto simp: decode2_def)
  show "128 \<le> lo \<Longrightarrow> decode3 lo hi c (s @ cs) = decode3 lo hi c s"
    using nr by (cases s; cases "tl s"; cases cs) (auto simp: decode3_def split: list.split)
  show "128 \<le> lo \<Longrightarrow> decode4 lo hi c (s @ cs) = decode4 lo hi c s"
    using nr by (cases s; cases "tl s"; cases "tl (tl s)"; cases cs) (auto simp: decode4_def split: list.split)
qed

lemma DecodeRune_append_ascii:
  assumes "s \<noteq> []" "cs = [] \<or> ascii (hd cs)"
  shows "DecodeRune (s @ cs) = DecodeRune s"
proof -
  obtain c t where "s = c # t" using assms(1) by (cases s) auto
  then show ?thesis using decode_append_ascii [OF assms(2)] by simp
qed

lemma runesOf_append_ascii:
  assumes "cs = [] \<or> ascii (hd cs)"
  shows "runesOf (s @ cs) = runesOf s @ runesOf cs"
proof (induction s rule: runesOf.induct)
  case (1 s)
  show ?case
  proof (cases "s = []")
    case False
    then have d: "DecodeRune (s @ cs) = DecodeRune s" using DecodeRune_append_ascii assms by blast
    have "drop (snd (DecodeRune s)) (s @ cs) = drop (snd (DecodeRune s)) s @ cs" using DecodeRune_width [OF False] by simp
    then show ?thesis using 1 [OF False] False d by (simp add: runesOf.simps [of "s @ cs"] runesOf.simps [of s])
  qed (simp add: runesOf.simps)
qed

lemma runesOf_Nil [simp]: "runesOf [] = []" "runesOf s = [] \<longleftrightarrow> s = []"
  by (simp_all add: runesOf.simps)



lemma runesOf_ascii_Cons: "ascii c \<Longrightarrow> runesOf (c # s) = code c # runesOf s"
  by (simp add: runesOf.simps [of "c # s"] ascii_def)

lemma runesOf_ascii_prefix:
  "list_all ascii cs \<Longrightarrow> runesOf s = map of_char cs @ q \<longleftrightarrow> (\<exists>t. s = cs @ t \<and> runesOf t = q)"
proof (induction cs arbitrary: s)
  case (Cons c cs)
  have "runesOf s = code c # map of_char cs @ q \<longleftrightarrow> (\<exists>t. s = c # t \<and> runesOf t = map of_char cs @ q)"
  proof (cases s)
    case Nil
    then show ?thesis by simp
  next
    case s: (Cons x t)
    show ?thesis
    proof (cases "ascii x")
      case True
      then show ?thesis using s runesOf_ascii_Cons [OF True, of t] by auto
    next
      case False
      have lt: "code c < 128" using Cons.prems by (simp add: ascii_def)
      have "fst (DecodeRune s) \<noteq> code c" using DecodeRune_ascii_only [of x t] False lt unfolding s ascii_def by metis
      moreover have "x \<noteq> c" using False lt unfolding ascii_def by metis
      moreover have "runesOf s = fst (DecodeRune s) # runesOf (drop (snd (DecodeRune s)) s)"
        by (subst runesOf.simps) (simp add: s)
      ultimately show ?thesis by (simp only: s list.inject) blast
    qed
  qed
  also have "\<dots> \<longleftrightarrow> (\<exists>t. s = c # t \<and> (\<exists>u. t = cs @ u \<and> runesOf u = q))" using Cons.IH Cons.prems by simp
  finally show ?case by auto
qed simp

lemma runesOf_suffix: "runesOf s = pre @ q \<Longrightarrow> \<exists>s1 s2. s = s1 @ s2 \<and> runesOf s2 = q"
proof (induction pre arbitrary: s)
  case (Cons r pre)
  have "s \<noteq> []" using Cons.prems by auto
  then have "runesOf (drop (snd (DecodeRune s)) s) = pre @ q" using Cons.prems by (subst (asm) runesOf.simps) simp
  then obtain s1 s2 where "drop (snd (DecodeRune s)) s = s1 @ s2" "runesOf s2 = q" using Cons.IH by blast
  then show ?case by (metis append.assoc append_take_drop_id)
qed auto

text \<open>For ASCII texts, ending with them means the same for bytes and for runes.\<close>

lemma runesOf_ascii_suffix:
  assumes "list_all ascii cs"
  shows "(\<exists>pre. runesOf s = pre @ map of_char cs) \<longleftrightarrow> (\<exists>s1. s = s1 @ cs)"
proof
  assume "\<exists>pre. runesOf s = pre @ map of_char cs"
  then obtain s1 s2 where "s = s1 @ s2" "runesOf s2 = map of_char cs" using runesOf_suffix by blast
  then show "\<exists>s1. s = s1 @ cs" using runesOf_ascii_prefix [OF assms, of s2 "[]"] by auto
next
  assume "\<exists>s1. s = s1 @ cs"
  moreover have "cs = [] \<or> ascii (hd cs)" using assms by (cases cs) auto
  ultimately show "\<exists>pre. runesOf s = pre @ map of_char cs"
    using runesOf_append_ascii runesOf_ascii [OF assms] by (metis (no_types))
qed

end
