(* ===== verification/GitAccess.thy ===== *)
theory GitAccess
  imports Policy GoPath
begin

text \<open>
  Git access over SSH: the on-disk layout of repositories (\<^verbatim>\<open>src/internal/infra/storage/reposfs.go\<close>), the
  parser of \<^verbatim>\<open>SSH_ORIGINAL_COMMAND\<close> (\<^verbatim>\<open>src/internal/git/protocol/ssh_command.go\<close>), the dispatcher that
  composes it with principal resolution and the authorization policy
  (\<^verbatim>\<open>src/internal/git/protocol/ssh_dispatch.go\<close>, \<^verbatim>\<open>src/internal/orgs/principals.go\<close>) and the pkt-line framing
  (\<^verbatim>\<open>src/internal/git/protocol/pktline.go\<close>). Database answers, the process environment, the entropy source
  and \<^verbatim>\<open>os.Stat\<close> are arguments.
\<close>

section \<open>Names\<close>

definition lowerAlnum :: "char \<Rightarrow> bool" where
  "lowerAlnum c \<longleftrightarrow> is_ascii_lower c \<or> is_ascii_digit c"

text \<open>\<open>nameShape mid fin n\<close> is the expression \<^verbatim>\<open>^[a-z0-9](?:[mid]{0,n}[fin])?$\<close>.\<close>

fun nameShape :: "(char \<Rightarrow> bool) \<Rightarrow> (char \<Rightarrow> bool) \<Rightarrow> nat \<Rightarrow> string \<Rightarrow> bool" where
  "nameShape mid fin n [] = False"
| "nameShape mid fin n (c # cs) =
     (lowerAlnum c \<and> (cs = [] \<or> (length cs \<le> n + 1 \<and> list_all mid (butlast cs) \<and> fin (last cs))))"

definition ownerRE :: "string \<Rightarrow> bool" where
  "ownerRE = nameShape (\<lambda>c. lowerAlnum c \<or> c = CHR ''-'') lowerAlnum 37"

definition repoRE :: "string \<Rightarrow> bool" where
  "repoRE = nameShape (\<lambda>c. lowerAlnum c \<or> c \<in> set ''._-'') (\<lambda>c. lowerAlnum c \<or> c = CHR ''_'') 98"

section \<open>The repository layout\<close>

datatype name_error = NameEmpty | NameTooLong nat | NameNotLower | NameDotDot | NameLeadingDot | NameAbsolute | NameWhitelist

datatype path_error =
    InvalidPath string name_error
  | RepoIDRequired
  | EscapesRoot string string
  | RootRequired | RootNotAbsolute string | RootStat string | RootNotDir string

record RepoFS =
  root :: string

definition NewRepoFS :: "(string \<Rightarrow> string + bool) \<Rightarrow> string \<Rightarrow> path_error + RepoFS" where
  "NewRepoFS stat r =
     (if r = '''' then Inl RootRequired
      else if \<not> HasPrefix r ''/'' then Inl (RootNotAbsolute r)
      else case stat (Clean r) of
             Inl e \<Rightarrow> Inl (RootStat e)
           | Inr isDir \<Rightarrow> if \<not> isDir then Inl (RootNotDir (Clean r)) else Inr \<lparr>root = Clean r\<rparr>)"

definition validateName :: "(nat \<Rightarrow> nat) \<Rightarrow> string \<Rightarrow> string \<Rightarrow> path_error + unit" where
  "validateName tbl kind name =
     (let maxLen = (if kind = ''repo'' then 100 else 39);
          re = (if kind = ''repo'' then repoRE else ownerRE) in
      if name = '''' then Inl (InvalidPath kind NameEmpty)
      else if length name > maxLen then Inl (InvalidPath kind (NameTooLong maxLen))
      else if name \<noteq> ToLower tbl name then Inl (InvalidPath kind NameNotLower)
      else if Contains name ''..'' then Inl (InvalidPath kind NameDotDot)
      else if HasPrefix name ''.'' then Inl (InvalidPath kind NameLeadingDot)
      else if HasPrefix name ''/'' then Inl (InvalidPath kind NameAbsolute)
      else if \<not> re name then Inl (InvalidPath kind NameWhitelist)
      else Inr ())"

definition shardOf :: "string \<Rightarrow> string" where
  "shardOf owner = (if owner = [] then ''__'' else if length owner = 1 then owner @ ''_'' else take 2 owner)"

definition containedInRoot :: "RepoFS \<Rightarrow> string \<Rightarrow> path_error + unit" where
  "containedInRoot r p = (let clean = Clean p in
     if \<not> HasPrefix clean (root r @ ''/'') \<and> clean \<noteq> root r then Inl (EscapesRoot clean (root r)) else Inr ())"

definition RepoPath :: "(nat \<Rightarrow> nat) \<Rightarrow> RepoFS \<Rightarrow> string \<Rightarrow> string \<Rightarrow> path_error + string" where
  "RepoPath tbl r owner0 name0 =
     (let owner = ToLower tbl owner0; name = ToLower tbl name0 in
      case validateName tbl ''owner'' owner of Inl e \<Rightarrow> Inl e | Inr _ \<Rightarrow>
      case validateName tbl ''repo'' name of Inl e \<Rightarrow> Inl e | Inr _ \<Rightarrow>
      let p = pathJoin [root r, shardOf owner, owner, name @ ''.git''] in
      case containedInRoot r p of Inl e \<Rightarrow> Inl e | Inr _ \<Rightarrow> Inr p)"

definition DeletedRepoPath :: "(nat \<Rightarrow> nat) \<Rightarrow> RepoFS \<Rightarrow> string \<Rightarrow> string \<Rightarrow> go_int64 \<Rightarrow> path_error + string" where
  "DeletedRepoPath tbl r owner name rid =
     (if rid \<le> 0 then Inl RepoIDRequired
      else case RepoPath tbl r owner name of Inl e \<Rightarrow> Inl e | Inr canonical \<Rightarrow>
      let p = pathJoin [pathDir canonical, ''.deleted'', Itoa rid @ ''.git''] in
      case containedInRoot r p of Inl e \<Rightarrow> Inl e | Inr _ \<Rightarrow> Inr p)"

section \<open>The command of an SSH session\<close>

datatype Service = UploadPack | ReceivePack

fun serviceName :: "Service \<Rightarrow> string" where
  "serviceName UploadPack = ''git-upload-pack''"
| "serviceName ReceivePack = ''git-receive-pack''"

record ParsedSSHCommand =
  cmdService :: Service
  cmdOwner :: string
  cmdRepo :: string

datatype ssh_error =
    ErrUnknownSSHCommand | ErrInvalidSSHPath string
  | ErrSSHRepoNotFound | ErrSSHPermDenied | ErrSSHArchived | ErrSSHPaused | ErrSSHSuspended | ErrSSHRequires2FA
  | ErrSSHInternal string

definition reSpace :: "char \<Rightarrow> bool" where
  "reSpace c \<longleftrightarrow> code c \<in> {9, 10, 12, 13, 32}"

abbreviation apostrophe :: char where
  "apostrophe \<equiv> char_of (39 :: nat)"

text \<open>
  The two alternatives of the path group: the quoted text, else the bare one. Runs of blanks before it
  are matched greedily; neither alternative can start with a blank, so there is nothing to backtrack to.
\<close>

definition sshPathGroup :: "string \<Rightarrow> string option" where
  "sshPathGroup s =
     (if length s \<ge> 3 \<and> hd s = apostrophe \<and> last s = apostrophe \<and> apostrophe \<notin> set (butlast (tl s))
      then Some (butlast (tl s))
      else if s \<noteq> [] \<and> list_all (\<lambda>c. c \<noteq> apostrophe \<and> \<not> reSpace c) s then Some s
      else None)"

definition sshCmdArgs :: "Service \<Rightarrow> string \<Rightarrow> string option" where
  "sshCmdArgs svc cmd =
     (if HasPrefix cmd (serviceName svc)
      then (let rest = drop (length (serviceName svc)) cmd in
            if takeWhile reSpace rest = [] then None else sshPathGroup (dropWhile reSpace rest))
      else None)"

definition sshCmdRE :: "string \<Rightarrow> (Service \<times> string) option" where
  "sshCmdRE cmd =
     (case sshCmdArgs UploadPack cmd of
        Some p \<Rightarrow> Some (UploadPack, p)
      | None \<Rightarrow> map_option (Pair ReceivePack) (sshCmdArgs ReceivePack cmd))"

definition validateOwner :: "string \<Rightarrow> string option" where
  "validateOwner s = (if \<not> ownerRE s then Some ''owner shape'' else if Contains s ''..'' then Some ''dot-dot'' else None)"

definition validateRepo :: "string \<Rightarrow> string option" where
  "validateRepo s =
     (if \<not> repoRE s then Some ''repo shape''
      else if Contains s ''..'' then Some ''dot-dot''
      else if HasPrefix s ''.'' then Some ''starts with dot'' else None)"

definition ParseSSHCommand :: "(nat \<Rightarrow> nat) \<Rightarrow> string \<Rightarrow> ssh_error + ParsedSSHCommand" where
  "ParseSSHCommand tbl cmd =
     (if cmd \<noteq> TrimSpace cmd then Inl ErrUnknownSSHCommand
      else case sshCmdRE cmd of None \<Rightarrow> Inl ErrUnknownSSHCommand | Some (svc, path0) \<Rightarrow>
      let path = TrimSuffix path0 ''.git'' in
      case Cut CHR ''/'' path of None \<Rightarrow> Inl (ErrInvalidSSHPath ''missing owner/repo split'') | Some (owner0, repo0) \<Rightarrow>
      if Contains repo0 ''/'' then Inl (ErrInvalidSSHPath ''extra path segments'')
      else let owner = ToLower tbl owner0; repo = ToLower tbl repo0 in
        case validateOwner owner of Some e \<Rightarrow> Inl (ErrInvalidSSHPath e) | None \<Rightarrow>
        case validateRepo repo of Some e \<Rightarrow> Inl (ErrInvalidSSHPath e) | None \<Rightarrow>
        Inr \<lparr>cmdService = svc, cmdOwner = owner, cmdRepo = repo\<rparr>)"

section \<open>Principals\<close>

record Principal =
  Slug :: string
  PrincipalKind :: string
  PrincipalID :: go_int64

datatype principal_error = ErrNoPrincipal | PrincipalErr string

definition Resolve :: "(string \<Rightarrow> (string \<times> string \<times> go_int64) query_row) \<Rightarrow> string \<Rightarrow> principal_error + Principal" where
  "Resolve q slug = (case q slug of
     QNoRows \<Rightarrow> Inl ErrNoPrincipal
   | QErr e \<Rightarrow> Inl (PrincipalErr e)
   | QRow (sl, kind, i) \<Rightarrow> Inr \<lparr>Slug = sl, PrincipalKind = kind, PrincipalID = i\<rparr>)"

section \<open>The dispatcher\<close>

record SshUser =
  suID :: go_int64
  suUsername :: string
  suSuspendedAt :: "int option"
  suDeletedAt :: "int option"

record SshReads =
  GetUserByID :: "go_int64 \<Rightarrow> SshUser query_row"
  PrincipalRow :: "string \<Rightarrow> (string \<times> string \<times> go_int64) query_row"
  RepoByOwnerUser :: "go_int64 \<Rightarrow> string \<Rightarrow> (RepoRow \<times> string) query_row"
  RepoByOwnerOrg :: "go_int64 \<Rightarrow> string \<Rightarrow> (RepoRow \<times> string) query_row"
  HasConfirmedTOTP :: "go_int64 \<Rightarrow> string + bool"

record SSHDispatchInput =
  OriginalCommand :: string
  inUserID :: go_int64
  RemoteIP :: string

record SSHDispatchResult =
  Argv0 :: string
  Argv0Args :: "string list"
  Env :: "string list"

definition hexDigit :: "nat \<Rightarrow> char" where
  "hexDigit n = (if n < 10 then char_of (48 + n) else char_of (87 + n))"

definition hexEncode :: "string \<Rightarrow> string" where
  "hexEncode s = concat (map (\<lambda>c. [hexDigit (code c div 16), hexDigit (code c mod 16)]) s)"

definition newRequestID :: "string + string \<Rightarrow> string + string" where
  "newRequestID rand = map_sum id (\<lambda>s. hexEncode (take 16 s)) rand"

definition buildSSHEnv :: "string list \<Rightarrow> SshUser \<Rightarrow> string \<Rightarrow> go_int64 \<Rightarrow> string \<Rightarrow> string \<Rightarrow> string \<Rightarrow> string list" where
  "buildSSHEnv environ user ownerName rid repoName remoteIP requestID =
     environ @
     [''SHITHUB_USER_ID='' @ Itoa (suID user),
      ''SHITHUB_USERNAME='' @ suUsername user,
      ''SHITHUB_REPO_ID='' @ Itoa rid,
      ''SHITHUB_REPO_FULL_NAME='' @ ownerName @ ''/'' @ repoName,
      ''SHITHUB_PROTOCOL=ssh'',
      ''SHITHUB_REMOTE_IP='' @ remoteIP,
      ''SHITHUB_REQUEST_ID='' @ requestID,
      ''GIT_CONFIG_COUNT=1'',
      ''GIT_CONFIG_KEY_0=safe.directory'',
      ''GIT_CONFIG_VALUE_0=*'']"

definition lookupRepo :: "SshReads \<Rightarrow> ParsedSSHCommand \<Rightarrow> ssh_error + RepoRow \<times> string" where
  "lookupRepo db parsed =
     (case Resolve (PrincipalRow db) (cmdOwner parsed) of Inl _ \<Rightarrow> Inl ErrSSHRepoNotFound | Inr pr \<Rightarrow>
      let q = (if PrincipalKind pr = ''user'' then Some (RepoByOwnerUser db) else
               if PrincipalKind pr = ''org'' then Some (RepoByOwnerOrg db) else None) in
      case q of None \<Rightarrow> Inl ErrSSHRepoNotFound | Some repoBy \<Rightarrow>
      case repoBy (PrincipalID pr) (cmdRepo parsed) of
        QNoRows \<Rightarrow> Inl ErrSSHRepoNotFound
      | QErr e \<Rightarrow> Inl (ErrSSHInternal e)
      | QRow row \<Rightarrow> Inr row)"

fun denyError :: "DenyCode \<Rightarrow> ssh_error" where
  "denyError DenyActorSuspended = ErrSSHSuspended"
| "denyError DenyArchived = ErrSSHArchived"
| "denyError DenyPaused = ErrSSHPaused"
| "denyError DenyOrgRequiresTwoFactor = ErrSSHRequires2FA"
| "denyError DenyVisibility = ErrSSHRepoNotFound"
| "denyError DenyRepoDeleted = ErrSSHRepoNotFound"
| "denyError _ = ErrSSHPermDenied"

definition serviceAction :: "Service \<Rightarrow> Action" where
  "serviceAction svc = (if svc = ReceivePack then ActionRepoWrite else ActionRepoRead)"

text \<open>
  The result carries the error or what the caller executes, the parsed command, and the clone events
  recorded for traffic statistics (repository and visitor key).
\<close>

definition PrepareDispatch ::
  "(nat \<Rightarrow> nat) \<Rightarrow> RepoFS \<Rightarrow> Deps \<Rightarrow> SshReads \<Rightarrow> string list \<Rightarrow> string + string \<Rightarrow> SSHDispatchInput \<Rightarrow>
     (ssh_error + SSHDispatchResult) \<times> ParsedSSHCommand option \<times> (go_int64 \<times> string) list" where
  "PrepareDispatch tbl fs d db environ rand inp =
     (case ParseSSHCommand tbl (OriginalCommand inp) of Inl e \<Rightarrow> (Inl e, None, []) | Inr parsed \<Rightarrow>
      case GetUserByID db (inUserID inp) of
        QNoRows \<Rightarrow> (Inl (ErrSSHInternal ''no rows''), Some parsed, [])
      | QErr e \<Rightarrow> (Inl (ErrSSHInternal e), Some parsed, [])
      | QRow user \<Rightarrow>
      if suSuspendedAt user \<noteq> None then (Inl ErrSSHSuspended, Some parsed, [])
      else if suDeletedAt user \<noteq> None then (Inl ErrSSHSuspended, Some parsed, [])
      else case lookupRepo db parsed of Inl e \<Rightarrow> (Inl e, Some parsed, []) | Inr (row, repoName) \<Rightarrow>
      case HasConfirmedTOTP db (suID user) of Inl e \<Rightarrow> (Inl (ErrSSHInternal e), Some parsed, []) | Inr has2FA \<Rightarrow>
      let actor = UserActorWithTwoFactor (suID user) (suUsername user) (suSuspendedAt user \<noteq> None) False has2FA;
          decision = fst (Can d None actor (serviceAction (cmdService parsed)) (NewRepoRefFromRepo row)) in
      if \<not> Allow decision then (Inl (denyError (Code decision)), Some parsed, [])
      else case RepoPath tbl fs (cmdOwner parsed) (cmdRepo parsed) of
        Inl e \<Rightarrow> (Inl (ErrSSHInternal ''repo path''), Some parsed, [])
      | Inr gitDir \<Rightarrow>
        let events = (if cmdService parsed = UploadPack
                      then [(row_ID row, ''ssh:user:'' @ Itoa (suID user) @ ''|ip:'' @ RemoteIP inp)] else []) in
        case newRequestID rand of Inl e \<Rightarrow> (Inl (ErrSSHInternal e), Some parsed, events) | Inr requestID \<Rightarrow>
        (Inr \<lparr>Argv0 = serviceName (cmdService parsed),
              Argv0Args = [serviceName (cmdService parsed), gitDir],
              Env = buildSSHEnv environ user (cmdOwner parsed) (row_ID row) repoName (RemoteIP inp) requestID\<rparr>,
         Some parsed, events))"

definition FriendlyMessageFor :: "ssh_error \<Rightarrow> string \<Rightarrow> string" where
  "FriendlyMessageFor err requestID = (case err of
     ErrSSHRepoNotFound \<Rightarrow> ''shithub: repository not found''
   | ErrSSHPermDenied \<Rightarrow> ''shithub: permission denied''
   | ErrSSHArchived \<Rightarrow> ''shithub: this repository is archived; pushes are disabled''
   | ErrSSHPaused \<Rightarrow> ''shithub: this repository is paused; pushes are disabled until the owner unpauses''
   | ErrSSHSuspended \<Rightarrow> ''shithub: your account is suspended''
   | ErrSSHRequires2FA \<Rightarrow> ''shithub: this organization requires two-factor authentication''
   | ErrUnknownSSHCommand \<Rightarrow> ''shithub does not allow shell access''
   | ErrInvalidSSHPath _ \<Rightarrow> ''shithub: repository not found''
   | ErrSSHInternal _ \<Rightarrow> if requestID = '''' then ''shithub: internal error''
                         else ''shithub: internal error (request_id='' @ requestID @ '')'')"

section \<open>Packet lines\<close>

definition MaxPktLine :: nat where
  "MaxPktLine = 65520"

text \<open>The verb \<^verbatim>\<open>%04x\<close> for a value below 16 to the fourth.\<close>

definition hex4 :: "nat \<Rightarrow> string" where
  "hex4 n = [hexDigit (n div 4096), hexDigit (n div 256 mod 16), hexDigit (n div 16 mod 16), hexDigit (n mod 16)]"

text \<open>A writer is the bytes written so far; the only error is the one the code raises itself.\<close>

definition WritePkt :: "string \<Rightarrow> string \<Rightarrow> nat + string" where
  "WritePkt w payload =
     (if length payload + 4 > MaxPktLine then Inl (length payload) else Inr (w @ hex4 (length payload + 4) @ payload))"

definition WriteFlush :: "string \<Rightarrow> string" where
  "WriteFlush w = w @ ''0000''"

definition WriteServiceAdvertisement :: "string \<Rightarrow> string \<Rightarrow> nat + string" where
  "WriteServiceAdvertisement w service =
     (case WritePkt w (''# service='' @ service @ [char_of (10 :: nat)]) of Inl n \<Rightarrow> Inl n | Inr w' \<Rightarrow> Inr (WriteFlush w'))"

section \<open>Names are plain path segments\<close>

lemma nameShape_facts:
  assumes "nameShape mid fin n s" "\<And>c. fin c \<Longrightarrow> mid c" "\<And>c. lowerAlnum c \<Longrightarrow> mid c"
  shows "s \<noteq> []" "length s \<le> n + 2" "lowerAlnum (hd s)" "list_all mid s"
proof -
  obtain c cs where s: "s = c # cs" using assms(1) by (cases s) auto
  show "s \<noteq> []" "length s \<le> n + 2" "lowerAlnum (hd s)" using assms(1) s by auto
  show "list_all mid s"
  proof (cases "cs = []")
    case False
    then have "cs = butlast cs @ [last cs]" by simp
    moreover have "list_all mid (butlast cs)" "mid (last cs)" using assms(1,2) s False by simp_all
    then have "list_all mid (butlast cs @ [last cs])" by (simp del: append_butlast_last_id)
    ultimately show ?thesis using assms(1,3) s by (simp del: append_butlast_last_id)
  qed (use assms s in simp)
qed

lemma lowerAlnum_facts:
  assumes "lowerAlnum c"
  shows "ascii c" "ascii_lower c = c" "c \<notin> set ''/.-''" "graphic c"
  using assms
  by (auto simp: lowerAlnum_def is_ascii_lower_def is_ascii_digit_def ascii_def ascii_lower_def is_ascii_upper_def graphic_def
      less_eq_char_def)

definition nameChar :: "char \<Rightarrow> bool" where
  "nameChar c \<longleftrightarrow> lowerAlnum c \<or> c \<in> set ''._-''"

lemma nameChar_facts:
  assumes "nameChar c" shows "ascii c" "ascii_lower c = c" "c \<noteq> CHR ''/''" "c \<noteq> apostrophe" "\<not> reSpace c" "graphic c"
proof -
  have "code c \<noteq> 39 \<and> \<not> reSpace c" if "graphic c" "lowerAlnum c \<or> c \<in> set ''._-''"
    using that by (auto simp: graphic_def reSpace_def lowerAlnum_def is_ascii_lower_def is_ascii_digit_def less_eq_char_def)
  moreover have "graphic c" using assms lowerAlnum_facts(4) by (auto simp: nameChar_def graphic_def)
  ultimately have "code c \<noteq> 39" "\<not> reSpace c" "graphic c" using assms by (simp_all add: nameChar_def)
  moreover have "code apostrophe = 39" by simp
  ultimately show "\<not> reSpace c" "c \<noteq> apostrophe" "graphic c" by blast+
  show "ascii_lower c = c"
  proof (cases "lowerAlnum c")
    case False
    then show ?thesis using assms by (auto simp: nameChar_def ascii_lower_def is_ascii_upper_def less_eq_char_def)
  qed (rule lowerAlnum_facts(2))
qed (use assms lowerAlnum_facts(1,3) in \<open>auto simp: nameChar_def ascii_def\<close>)

lemma ownerRE_facts:
  assumes "ownerRE s" shows "s \<noteq> []" "length s \<le> 39" "lowerAlnum (hd s)" "list_all nameChar s" "CHR ''.'' \<notin> set s"
proof -
  note f = nameShape_facts [OF assms [unfolded ownerRE_def]]
  show "s \<noteq> []" "length s \<le> 39" "lowerAlnum (hd s)" using f by auto
  have a: "list_all (\<lambda>c. lowerAlnum c \<or> c = CHR ''-'') s" using f(4) by auto
  then show "list_all nameChar s" by (auto simp: nameChar_def list_all_iff)
  show "CHR ''.'' \<notin> set s" using a lowerAlnum_facts(3) by (fastforce simp: list_all_iff)
qed

lemma repoRE_facts:
  assumes "repoRE s" shows "s \<noteq> []" "length s \<le> 100" "lowerAlnum (hd s)" "list_all nameChar s"
proof -
  have "\<And>c. lowerAlnum c \<or> c = CHR ''_'' \<Longrightarrow> lowerAlnum c \<or> c \<in> set ''._-''" by auto
  note f = nameShape_facts [OF assms [unfolded repoRE_def] this]
  show "s \<noteq> []" "length s \<le> 100" "lowerAlnum (hd s)" "list_all nameChar s" using f by (auto simp: nameChar_def list_all_iff)
qed

lemma list_all_hd: "list_all P s \<Longrightarrow> s \<noteq> [] \<Longrightarrow> P (hd s)"
  by (cases s) auto

lemma nameChars_plain:
  assumes "list_all nameChar s" "s \<noteq> []" "hd s \<noteq> CHR ''.''"
  shows "plainSeg s"
  using assms nameChar_facts(3) by (cases s) (auto simp: plainSeg_def list_all_iff)

lemma nameChars_lower: "list_all nameChar s \<Longrightarrow> ToLower tbl s = s"
proof -
  assume a: "list_all nameChar s"
  then have "ToLower tbl s = map ascii_lower s" by (intro ToLower_ascii) (auto simp: list_all_iff nameChar_facts(1))
  also have "\<dots> = s" using a nameChar_facts(2) by (auto simp: list_all_iff intro: map_idI)
  finally show ?thesis .
qed

lemma shardOf_plain: "ownerRE s \<Longrightarrow> plainSeg (shardOf s)"
proof -
  assume o: "ownerRE s"
  then have "hd (shardOf s) = hd s" "shardOf s \<noteq> []" using ownerRE_facts(1) by (cases s; auto simp: shardOf_def)+
  moreover have "list_all nameChar (shardOf s)"
    using ownerRE_facts(4) [OF o] by (auto simp: shardOf_def list_all_iff nameChar_def dest: in_set_takeD)
  ultimately show ?thesis using ownerRE_facts(3) [OF o] lowerAlnum_facts(3) by (intro nameChars_plain) auto
qed

lemma owner_plain: "ownerRE s \<Longrightarrow> plainSeg s"
  using ownerRE_facts lowerAlnum_facts(3) by (intro nameChars_plain) auto

lemma repo_dir_plain: "repoRE s \<Longrightarrow> plainSeg (s @ ''.git'')"
proof (rule nameChars_plain)
  assume r: "repoRE s"
  show "hd (s @ ''.git'') \<noteq> CHR ''.''" using repoRE_facts(1,3) [OF r] lowerAlnum_facts(3) by auto
  have "lowerAlnum CHR ''g''" "lowerAlnum CHR ''i''" "lowerAlnum CHR ''t''"
    by (simp_all add: lowerAlnum_def is_ascii_lower_def less_eq_char_def)
  then show "list_all nameChar (s @ ''.git'')" using repoRE_facts(4) [OF r] by (simp add: nameChar_def)
qed simp

section \<open>Repository directories\<close>

definition wfRoot :: "RepoFS \<Rightarrow> string list \<Rightarrow> bool" where
  "wfRoot r rs \<longleftrightarrow> rs \<noteq> [] \<and> list_all plainSeg rs \<and> root r = absPath rs"

lemma NewRepoFS_root:
  assumes "NewRepoFS stat s = Inr r" "root r \<noteq> ''/''"
  obtains rs where "wfRoot r rs"
proof -
  have s: "HasPrefix s ''/''" "root r = Clean s"
    using assms(1) by (auto simp: NewRepoFS_def split: if_split_asm sum.split_asm)
  obtain rs where "list_all plainSeg rs" "Clean s = absPath rs" using Clean_rooted [OF s(1)] by blast
  then show ?thesis using that assms(2) s(2) by (cases "rs = []") (auto simp: wfRoot_def)
qed

lemma contained_below:
  assumes "wfRoot r rs" "list_all plainSeg xs"
  shows "containedInRoot r (absPath (rs @ xs)) = Inr ()"
proof (cases "xs = []")
  case True
  then show ?thesis using assms Clean_absPath [of rs] by (simp add: containedInRoot_def wfRoot_def Let_def)
next
  case False
  have "Clean (absPath (rs @ xs)) = absPath (rs @ xs)" using assms by (intro Clean_absPath) (simp add: wfRoot_def)
  moreover have "absPath (rs @ xs) = root r @ ''/'' @ Join xs ''/''"
    using absPath_append [of rs xs] False assms(1) by (simp add: wfRoot_def)
  ultimately show ?thesis by (simp add: containedInRoot_def Let_def HasPrefix_prefix)
qed

definition repoSegs :: "string \<Rightarrow> string \<Rightarrow> string list" where
  "repoSegs owner name = [shardOf owner, owner, name @ ''.git'']"

lemma repoSegs_plain: "ownerRE o' \<Longrightarrow> repoRE n \<Longrightarrow> list_all plainSeg (repoSegs o' n)"
  by (simp add: repoSegs_def shardOf_plain owner_plain repo_dir_plain)

lemma RepoPath_shape:
  assumes "wfRoot r rs" "RepoPath tbl r owner name = Inr p"
  shows "ownerRE (ToLower tbl owner)" "repoRE (ToLower tbl name)"
    "p = absPath (rs @ repoSegs (ToLower tbl owner) (ToLower tbl name))"
proof -
  show o: "ownerRE (ToLower tbl owner)" and n: "repoRE (ToLower tbl name)"
    using assms(2) by (auto simp: RepoPath_def validateName_def Let_def split: if_split_asm sum.split_asm)
  have "p = pathJoin (absPath rs # repoSegs (ToLower tbl owner) (ToLower tbl name))"
    using assms by (auto simp: RepoPath_def repoSegs_def wfRoot_def Let_def split: sum.split_asm)
  also have "\<dots> = absPath (rs @ repoSegs (ToLower tbl owner) (ToLower tbl name))"
    using assms(1) repoSegs_plain [OF o n] by (intro pathJoin_absPath) (auto simp: wfRoot_def)
  finally show "p = absPath (rs @ repoSegs (ToLower tbl owner) (ToLower tbl name))" .
qed

lemma Itoa_git_plain: "0 < i \<Longrightarrow> plainSeg (Itoa i @ ''.git'')"
proof -
  assume i: "0 < i"
  have "CHR ''/'' \<notin> set (decimal n)" for n
  proof
    assume "CHR ''/'' \<in> set (decimal n)"
    then obtain k :: nat where "k < 10" "CHR ''/'' = char_of (48 + k)" using decimal_digits by blast
    then have "code CHR ''/'' = 48 + k" using of_char_digit by metis
    then show False by simp
  qed
  moreover have "length (Itoa i @ ''.git'') > 2" by simp
  ultimately show ?thesis using i by (auto simp: plainSeg_def Itoa_def)
qed

definition deletedSegs :: "string \<Rightarrow> go_int64 \<Rightarrow> string list" where
  "deletedSegs owner i = [shardOf owner, owner, ''.deleted'', Itoa i @ ''.git'']"

lemma deletedSegs_plain: "ownerRE o' \<Longrightarrow> 0 < i \<Longrightarrow> list_all plainSeg (deletedSegs o' i)"
  using Itoa_git_plain [of i] by (simp add: deletedSegs_def shardOf_plain owner_plain) (simp add: plainSeg_def)

lemma DeletedRepoPath_shape:
  assumes "wfRoot r rs" "DeletedRepoPath tbl r owner name i = Inr p"
  shows "ownerRE (ToLower tbl owner)" "0 < i" "p = absPath (rs @ deletedSegs (ToLower tbl owner) i)"
proof -
  obtain c where c: "RepoPath tbl r owner name = Inr c" "0 < i" "p = pathJoin [pathDir c, ''.deleted'', Itoa i @ ''.git'']"
    using assms(2) by (auto simp: DeletedRepoPath_def Let_def split: if_split_asm sum.split_asm)
  note s = RepoPath_shape [OF assms(1) c(1)]
  show o: "ownerRE (ToLower tbl owner)" and i: "0 < i" using s(1) c(2) by auto
  let ?o = "ToLower tbl owner" and ?n = "ToLower tbl name @ ''.git''"
  have rs: "list_all plainSeg rs" "rs \<noteq> []" using assms(1) by (auto simp: wfRoot_def)
  have "c = absPath ((rs @ [shardOf ?o, ?o]) @ [?n])" using s(3) by (simp add: repoSegs_def)
  then have "pathDir c = absPath (rs @ [shardOf ?o, ?o])"
    using rs pathDir_absPath [of "rs @ [shardOf ?o, ?o]" ?n] s(1,2) shardOf_plain owner_plain repo_dir_plain by auto
  then have "p = pathJoin (absPath (rs @ [shardOf ?o, ?o]) # [''.deleted'', Itoa i @ ''.git''])" using c(3) by simp
  also have "\<dots> = absPath ((rs @ [shardOf ?o, ?o]) @ [''.deleted'', Itoa i @ ''.git''])"
    using rs deletedSegs_plain [OF o i] by (intro pathJoin_absPath) (auto simp: deletedSegs_def)
  finally show "p = absPath (rs @ deletedSegs ?o i)" by (simp add: deletedSegs_def)
qed

lemma below_root: "wfRoot r rs \<Longrightarrow> xs \<noteq> [] \<Longrightarrow> HasPrefix (absPath (rs @ xs)) (root r @ ''/'')"
  using absPath_append [of rs xs] by (simp add: wfRoot_def HasPrefix_prefix)

lemma deletedSegs_inj: "0 < i \<Longrightarrow> 0 < j \<Longrightarrow> deletedSegs a i = deletedSegs b j \<longleftrightarrow> a = b \<and> i = j"
  by (auto simp: deletedSegs_def Itoa_def)

text \<open>Names of the right shape are accepted.\<close>

lemma shape_lower: "ownerRE s \<or> repoRE s \<Longrightarrow> ToLower tbl s = s"
  using nameChars_lower ownerRE_facts(4) repoRE_facts(4) by blast

lemma validateName_ok:
  "ownerRE o' \<Longrightarrow> validateName tbl ''owner'' o' = Inr ()"
  "repoRE n \<Longrightarrow> \<not> Contains n ''..'' \<Longrightarrow> validateName tbl ''repo'' n = Inr ()"
proof -
  have hd: "\<not> HasPrefix s ''.'' \<and> \<not> HasPrefix s ''/''" if "s \<noteq> []" "lowerAlnum (hd s)" for s
    using that lowerAlnum_facts(3) by (cases s) auto
  have dots: "\<not> Contains s ''..''" if "CHR ''.'' \<notin> set s" for s
    using that by (auto simp: Contains_sublist sublist_def)
  show "ownerRE o' \<Longrightarrow> validateName tbl ''owner'' o' = Inr ()"
    using ownerRE_facts [of o'] hd dots shape_lower [of o'] by (simp add: validateName_def not_less)
  show "repoRE n \<Longrightarrow> \<not> Contains n ''..'' \<Longrightarrow> validateName tbl ''repo'' n = Inr ()"
    using repoRE_facts [of n] hd shape_lower [of n] by (simp add: validateName_def not_less)
qed

lemma RepoPath_ok:
  assumes "wfRoot r rs" "ownerRE o'" "repoRE n" "\<not> Contains n ''..''"
  shows "RepoPath tbl r o' n = Inr (absPath (rs @ repoSegs o' n))"
proof -
  have "pathJoin [root r, shardOf o', o', n @ ''.git''] = absPath (rs @ repoSegs o' n)"
    using pathJoin_absPath [of rs "repoSegs o' n"] repoSegs_plain [OF assms(2,3)] assms(1) by (simp add: wfRoot_def repoSegs_def)
  then show ?thesis
    using contained_below [OF assms(1) repoSegs_plain [OF assms(2,3)]] assms shape_lower validateName_ok
    by (simp add: RepoPath_def Let_def)
qed

text \<open>
  C28. Every repository directory lies below the configured root, and no two repositories share one:
  live paths agree only for the same (case-folded) owner and name, tombstones only for the same owner
  and repository id, and a tombstone never collides with a live repository, so a deleted name can be
  reused while the old repository is kept.
\<close>

theorem repo_directories_disjoint_below_root:
  assumes "NewRepoFS stat s = Inr r" "root r \<noteq> ''/''"
    and "RepoPath tbl r o1 n1 = Inr p1" "RepoPath tbl r o2 n2 = Inr p2"
    and "DeletedRepoPath tbl r o3 n3 i3 = Inr d3" "DeletedRepoPath tbl r o4 n4 i4 = Inr d4"
  shows "HasPrefix p1 (root r @ ''/'') \<and> HasPrefix d3 (root r @ ''/'') \<and> Clean p1 = p1 \<and> Clean d3 = d3 \<and> p1 \<noteq> d3 \<and>
    (p1 = p2 \<longleftrightarrow> ToLower tbl o1 = ToLower tbl o2 \<and> ToLower tbl n1 = ToLower tbl n2) \<and>
    (d3 = d4 \<longleftrightarrow> ToLower tbl o3 = ToLower tbl o4 \<and> i3 = i4)"
proof -
  obtain rs where rs: "wfRoot r rs" using NewRepoFS_root [OF assms(1,2)] by blast
  then have pr: "list_all plainSeg rs" by (simp add: wfRoot_def)
  note p1 = RepoPath_shape [OF rs assms(3)] and p2 = RepoPath_shape [OF rs assms(4)]
  note d3 = DeletedRepoPath_shape [OF rs assms(5)] and d4 = DeletedRepoPath_shape [OF rs assms(6)]
  have pl: "list_all plainSeg (rs @ repoSegs (ToLower tbl o1) (ToLower tbl n1))"
      "list_all plainSeg (rs @ repoSegs (ToLower tbl o2) (ToLower tbl n2))"
      "list_all plainSeg (rs @ deletedSegs (ToLower tbl o3) i3)" "list_all plainSeg (rs @ deletedSegs (ToLower tbl o4) i4)"
    using pr repoSegs_plain [OF p1(1,2)] repoSegs_plain [OF p2(1,2)] deletedSegs_plain [OF d3(1,2)] deletedSegs_plain [OF d4(1,2)]
    by simp_all
  have "HasPrefix p1 (root r @ ''/'')" "HasPrefix d3 (root r @ ''/'')"
    unfolding p1(3) d3(3) by (rule below_root [OF rs], simp add: repoSegs_def deletedSegs_def)+
  moreover have "Clean p1 = p1" "Clean d3 = d3" unfolding p1(3) d3(3) by (rule Clean_absPath [OF pl(1)], rule Clean_absPath [OF pl(3)])
  moreover have "p1 \<noteq> d3" unfolding p1(3) d3(3) absPath_inj [OF pl(1,3)] by (simp add: repoSegs_def deletedSegs_def)
  moreover have "p1 = p2 \<longleftrightarrow> ToLower tbl o1 = ToLower tbl o2 \<and> ToLower tbl n1 = ToLower tbl n2"
    unfolding p1(3) p2(3) absPath_inj [OF pl(1,2)] by (auto simp: repoSegs_def)
  moreover have "d3 = d4 \<longleftrightarrow> ToLower tbl o3 = ToLower tbl o4 \<and> i3 = i4"
    unfolding d3(3) d4(3) absPath_inj [OF pl(3,4)] by (simp add: deletedSegs_inj d3(2) d4(2))
  ultimately show ?thesis by blast
qed


definition wellKnownFS :: RepoFS where
  "wellKnownFS = \<lparr>root = ''/srv/repos''\<rparr>"

lemma wellKnownFS_new: "NewRepoFS (\<lambda>_. Inr True) ''/srv/repos'' = Inr wellKnownFS"
  by (simp add: NewRepoFS_def Clean_def wellKnownFS_def)

lemma id_lower [simp]: "ToLower id ''ana'' = ''ana''" "ToLower id ''site'' = ''site''"
  by (simp_all add: ToLower_ascii ascii_def ascii_lower_def is_ascii_upper_def less_eq_char_def)

lemma demo_names: "ownerRE ''ana''" "repoRE ''site''"
  by (simp_all add: ownerRE_def repoRE_def lowerAlnum_def is_ascii_lower_def is_ascii_digit_def less_eq_char_def)

lemma wellKnownFS_wf: "wfRoot wellKnownFS [''srv'', ''repos'']"
  by (simp add: wfRoot_def wellKnownFS_def plainSeg_def)

lemma demo_path: "RepoPath id wellKnownFS ''ana'' ''site'' = Inr ''/srv/repos/an/ana/site.git''"
  using RepoPath_ok [OF wellKnownFS_wf demo_names] by (simp add: repoSegs_def shardOf_def Contains_def)

lemma demo_tombstone: "DeletedRepoPath id wellKnownFS ''ana'' ''site'' 7 = Inr ''/srv/repos/an/ana/.deleted/7.git''"
proof -
  have "pathDir ''/srv/repos/an/ana/site.git'' = ''/srv/repos/an/ana''" by (simp add: pathDir_def Clean_def)
  moreover have "Itoa 7 = ''7''" by code_simp
  moreover have "pathJoin [''/srv/repos/an/ana'', ''.deleted'', ''7.git''] = ''/srv/repos/an/ana/.deleted/7.git''"
    using pathJoin_absPath [of "[''srv'', ''repos'', ''an'', ''ana'']" "[''.deleted'', ''7.git'']"] by (simp add: plainSeg_def)
  moreover have "containedInRoot wellKnownFS ''/srv/repos/an/ana/.deleted/7.git'' = Inr ()"
    using contained_below [OF wellKnownFS_wf, of "[''an'', ''ana'', ''.deleted'', ''7.git'']"] by (simp add: plainSeg_def)
  ultimately show ?thesis by (simp add: DeletedRepoPath_def demo_path)
qed

theorem repo_directories_disjoint_below_root_witness:
  "''/srv/repos/an/ana/site.git'' \<noteq> ''/srv/repos/an/ana/.deleted/7.git'' \<and>
   HasPrefix ''/srv/repos/an/ana/site.git'' (root wellKnownFS @ ''/'')"
  using repo_directories_disjoint_below_root [OF wellKnownFS_new _ demo_path demo_path demo_tombstone demo_tombstone]
  by (simp add: wellKnownFS_def)

section \<open>Parsed commands\<close>

lemma ParseSSHCommand_names:
  assumes "ParseSSHCommand tbl cmd = Inr p"
  shows "ownerRE (cmdOwner p)" "repoRE (cmdRepo p)" "\<not> Contains (cmdRepo p) ''..''"
  using assms
  by (auto simp: ParseSSHCommand_def validateOwner_def validateRepo_def Let_def
      split: if_split_asm option.split_asm prod.split_asm)

text \<open>
  C29. Whatever text a client sends, an accepted command names the two git services only, its owner
  and repository are non-empty names of at most 39 and 100 bytes over \<^verbatim>\<open>a-z 0-9 . _ -\<close> that start with a
  letter or digit (so neither an option nor a path traversal), and the storage layer, which
  validates names on its own, accepts them: the directory is the one of that owner and name.
\<close>

theorem ssh_command_names_are_safe:
  assumes "ParseSSHCommand tbl cmd = Inr p" "wfRoot r rs"
  shows "length (cmdOwner p) \<in> {1..39} \<and> length (cmdRepo p) \<in> {1..100} \<and>
    list_all nameChar (cmdOwner p @ cmdRepo p) \<and> lowerAlnum (hd (cmdOwner p)) \<and> lowerAlnum (hd (cmdRepo p)) \<and>
    \<not> Contains (cmdRepo p) ''..'' \<and> CHR ''.'' \<notin> set (cmdOwner p) \<and>
    RepoPath tbl r (cmdOwner p) (cmdRepo p) = Inr (absPath (rs @ repoSegs (cmdOwner p) (cmdRepo p)))"
  using ParseSSHCommand_names [OF assms(1)] ownerRE_facts [of "cmdOwner p"] repoRE_facts [of "cmdRepo p"]
    RepoPath_ok [OF assms(2)]
  by (simp add: Suc_le_eq)

lemma sshPathGroup_quoted: "s \<noteq> [] \<Longrightarrow> apostrophe \<notin> set s \<Longrightarrow> sshPathGroup (apostrophe # s @ [apostrophe]) = Some s"
  by (cases s) (auto simp: sshPathGroup_def)

lemma sshPathGroup_bare:
  "s \<noteq> [] \<Longrightarrow> list_all (\<lambda>c. c \<noteq> apostrophe \<and> \<not> reSpace c) s \<Longrightarrow> sshPathGroup s = Some s"
  by (cases s) (auto simp: sshPathGroup_def list_all_iff)

lemma sshCmdArgs_service:
  assumes "s \<noteq> []" "\<not> reSpace (hd s)"
  shows "sshCmdArgs svc (serviceName svc @ '' '' @ s) = sshPathGroup s"
proof -
  have "takeWhile reSpace (CHR '' '' # s) \<noteq> []" "dropWhile reSpace (CHR '' '' # s) = s"
    using assms by (cases s; simp add: reSpace_def)+
  then show ?thesis by (simp add: sshCmdArgs_def Let_def)
qed

lemma sshCmdRE_service:
  assumes "s \<noteq> []" "\<not> reSpace (hd s)" "sshPathGroup s = Some p"
  shows "sshCmdRE (serviceName svc @ '' '' @ s) = Some (svc, p)"
proof (cases svc)
  case UploadPack
  then show ?thesis using sshCmdArgs_service [OF assms(1,2), of svc] assms(3) by (simp add: sshCmdRE_def)
next
  case ReceivePack
  then have "sshCmdArgs UploadPack (serviceName svc @ '' '' @ s) = None" by (simp add: sshCmdArgs_def)
  then show ?thesis using ReceivePack sshCmdArgs_service [OF assms(1,2), of svc] assms(3) by (simp add: sshCmdRE_def)
qed

lemma trimmed_command:
  assumes "s \<noteq> []" "graphic (last s)"
  shows "TrimSpace (serviceName svc @ '' '' @ s) = serviceName svc @ '' '' @ s"
  by (rule TrimSpace_id) (use assms in \<open>cases svc; simp add: graphic_def\<close>)+

lemma TrimSuffix_append [simp]: "TrimSuffix (s @ p) p = s"
  by (simp add: TrimSuffix_def HasSuffix_suffix suffix_def)

lemma parse_path:
  assumes "validateOwner o' = None" "validateRepo n = None" "cmd = TrimSpace cmd" "sshCmdRE cmd = Some (svc, o' @ ''/'' @ n @ ''.git'')"
  shows "ParseSSHCommand tbl cmd = Inr \<lparr>cmdService = svc, cmdOwner = o', cmdRepo = n\<rparr>"
proof -
  have re: "ownerRE o'" "repoRE n" using assms(1,2) by (auto simp: validateOwner_def validateRepo_def split: if_split_asm)
  have slash: "CHR ''/'' \<notin> set o'" "CHR ''/'' \<notin> set n"
    using ownerRE_facts(4) [OF re(1)] repoRE_facts(4) [OF re(2)] nameChar_facts(3) by (auto simp: list_all_iff)
  have "TrimSuffix (o' @ ''/'' @ n @ ''.git'') ''.git'' = o' @ CHR ''/'' # n"
    using TrimSuffix_append [of "o' @ ''/'' @ n" "''.git''"] by simp
  moreover have "\<not> Contains n ''/''" using slash(2) by (auto simp: Contains_sublist sublist_def)
  moreover have "ToLower tbl o' = o'" "ToLower tbl n = n" using re shape_lower by auto
  ultimately show ?thesis using assms slash(1) by (simp add: ParseSSHCommand_def Let_def Cut_append)
qed

text \<open>
  The commands git clients send are understood: for every valid owner and repository name, the
  quoted and the unquoted clone and push commands for \<^verbatim>\<open>owner/name.git\<close> parse back to the service, the
  owner and the name.
\<close>

theorem ssh_command_roundtrip:
  assumes "validateOwner o' = None" "validateRepo n = None"
  shows "ParseSSHCommand tbl (serviceName svc @ '' '' @ [apostrophe] @ o' @ ''/'' @ n @ ''.git'' @ [apostrophe])
      = Inr \<lparr>cmdService = svc, cmdOwner = o', cmdRepo = n\<rparr> \<and>
    ParseSSHCommand tbl (serviceName svc @ '' '' @ o' @ ''/'' @ n @ ''.git'') = Inr \<lparr>cmdService = svc, cmdOwner = o', cmdRepo = n\<rparr>"
proof -
  define path where "path = o' @ ''/'' @ n @ ''.git''"
  have re: "ownerRE o'" "repoRE n" using assms by (auto simp: validateOwner_def validateRepo_def split: if_split_asm)
  have lit: "nameChar CHR ''.''" "nameChar CHR ''g''" "nameChar CHR ''i''" "nameChar CHR ''t''"
    by (simp_all add: nameChar_def lowerAlnum_def is_ascii_lower_def less_eq_char_def)
  have chars: "c \<noteq> apostrophe \<and> \<not> reSpace c" if "c \<in> set path" for c
  proof -
    have "list_all nameChar (o' @ n @ ''.git'')" using ownerRE_facts(4) [OF re(1)] repoRE_facts(4) [OF re(2)] lit by simp
    then have "nameChar c \<or> c = CHR ''/''" using that unfolding path_def list_all_iff by auto
    moreover have "CHR ''/'' \<noteq> apostrophe" "\<not> reSpace CHR ''/''" by (simp_all add: reSpace_def char_of_def)
    ultimately show ?thesis using nameChar_facts(4) [of c] nameChar_facts(5) [of c] by auto
  qed
  have ne: "path \<noteq> []" "last path = CHR ''t''" by (simp_all add: path_def)
  have q: "sshPathGroup (apostrophe # path @ [apostrophe]) = Some path" using ne chars by (intro sshPathGroup_quoted) auto
  have b: "sshPathGroup path = Some path" using ne chars by (intro sshPathGroup_bare) (auto simp: list_all_iff)
  have parse: "ParseSSHCommand tbl (serviceName svc @ '' '' @ s) = Inr \<lparr>cmdService = svc, cmdOwner = o', cmdRepo = n\<rparr>"
    if s: "s \<noteq> []" "graphic (last s)" "\<not> reSpace (hd s)" "sshPathGroup s = Some path" for s
    by (rule parse_path [OF assms trimmed_command [OF s(1,2), symmetric]])
       (use sshCmdRE_service [OF s(1,3,4)] in \<open>simp add: path_def\<close>)
  have "ParseSSHCommand tbl (serviceName svc @ '' '' @ (apostrophe # path @ [apostrophe])) = Inr \<lparr>cmdService = svc, cmdOwner = o', cmdRepo = n\<rparr>"
    by (rule parse [OF _ _ _ q]) (simp_all add: graphic_def reSpace_def)
  moreover have "ParseSSHCommand tbl (serviceName svc @ '' '' @ path) = Inr \<lparr>cmdService = svc, cmdOwner = o', cmdRepo = n\<rparr>"
    by (rule parse [OF ne(1) _ _ b]) (use ne chars [of "hd path"] in \<open>simp_all add: graphic_def\<close>)
  ultimately show ?thesis by (simp add: path_def)
qed


lemma demo_valid: "validateOwner ''ana'' = None" "validateRepo ''site'' = None"
  by (simp_all add: validateOwner_def validateRepo_def demo_names Contains_def)

theorem ssh_command_roundtrip_witness:
  "ParseSSHCommand id ''git-receive-pack ana/site.git'' = Inr \<lparr>cmdService = ReceivePack, cmdOwner = ''ana'', cmdRepo = ''site''\<rparr>"
  using ssh_command_roundtrip [OF demo_valid, of id ReceivePack] by simp

abbreviation demo_cmd :: ParsedSSHCommand where
  "demo_cmd \<equiv> \<lparr>cmdService = ReceivePack, cmdOwner = ''ana'', cmdRepo = ''site''\<rparr>"

lemma demo_parse: "ParseSSHCommand id ''git-receive-pack ana/site.git'' = Inr demo_cmd"
proof -
  have "sshPathGroup ''ana/site.git'' = Some ''ana/site.git''" by (simp add: sshPathGroup_def reSpace_def char_of_def)
  then have "sshCmdRE (serviceName ReceivePack @ '' '' @ ''ana/site.git'') = Some (ReceivePack, ''ana/site.git'')"
    by (intro sshCmdRE_service) (simp_all add: reSpace_def)
  then have "ParseSSHCommand id (serviceName ReceivePack @ '' '' @ ''ana/site.git'') = Inr demo_cmd"
    by (intro parse_path [OF demo_valid trimmed_command [symmetric]]) (simp_all add: graphic_def)
  then show ?thesis by simp
qed

theorem ssh_command_names_are_safe_witness:
  "RepoPath id wellKnownFS ''ana'' ''site'' = Inr ''/srv/repos/an/ana/site.git'' \<and> lowerAlnum (hd ''ana'')"
proof -
  show ?thesis using ssh_command_names_are_safe [OF demo_parse wellKnownFS_wf] by (simp add: repoSegs_def shardOf_def)
qed

section \<open>Dispatch\<close>

text \<open>The decision behind a session, once user and repository are known.\<close>

definition sshActor :: "SshUser \<Rightarrow> bool \<Rightarrow> Actor" where
  "sshActor user two = UserActorWithTwoFactor (suID user) (suUsername user) False False two"

definition sshDecision :: "Deps \<Rightarrow> SshUser \<Rightarrow> bool \<Rightarrow> Service \<Rightarrow> RepoRow \<Rightarrow> Decision" where
  "sshDecision d user two svc row = fst (Can d None (sshActor user two) (serviceAction svc) (NewRepoRefFromRepo row))"

definition sshSubject :: "(nat \<Rightarrow> nat) \<Rightarrow> SshReads \<Rightarrow> SSHDispatchInput \<Rightarrow> ParsedSSHCommand \<Rightarrow> SshUser \<Rightarrow> RepoRow \<Rightarrow> string \<Rightarrow> bool \<Rightarrow> bool" where
  "sshSubject tbl db inp parsed user row nm two \<longleftrightarrow>
     ParseSSHCommand tbl (OriginalCommand inp) = Inr parsed \<and> GetUserByID db (inUserID inp) = QRow user \<and>
     suSuspendedAt user = None \<and> suDeletedAt user = None \<and> lookupRepo db parsed = Inr (row, nm) \<and>
     HasConfirmedTOTP db (suID user) = Inr two"

lemma PrepareDispatch_subject:
  assumes "PrepareDispatch tbl fs d db environ rand inp = (Inr res, p, ev)"
  obtains parsed user row nm two gitDir where "p = Some parsed" "sshSubject tbl db inp parsed user row nm two"
    "Allow (sshDecision d user two (cmdService parsed) row)" "RepoPath tbl fs (cmdOwner parsed) (cmdRepo parsed) = Inr gitDir"
    "Argv0 res = serviceName (cmdService parsed)" "Argv0Args res = [serviceName (cmdService parsed), gitDir]"
proof -
  from assms obtain parsed user row nm two gitDir where
      "ParseSSHCommand tbl (OriginalCommand inp) = Inr parsed" "GetUserByID db (inUserID inp) = QRow user"
      "suSuspendedAt user = None" "suDeletedAt user = None" "lookupRepo db parsed = Inr (row, nm)"
      "HasConfirmedTOTP db (suID user) = Inr two" "Allow (sshDecision d user two (cmdService parsed) row)"
      "RepoPath tbl fs (cmdOwner parsed) (cmdRepo parsed) = Inr gitDir"
      "p = Some parsed" "Argv0 res = serviceName (cmdService parsed)" "Argv0Args res = [serviceName (cmdService parsed), gitDir]"
    unfolding PrepareDispatch_def Let_def sshDecision_def sshActor_def
    by (auto split: sum.split_asm query_row.split_asm prod.split_asm if_split_asm)
  then show ?thesis using that by (simp add: sshSubject_def)
qed

lemma PrepareDispatch_denied:
  assumes "sshSubject tbl db inp parsed user row nm two" "\<not> Allow (sshDecision d user two (cmdService parsed) row)"
  shows "PrepareDispatch tbl fs d db environ rand inp
    = (Inl (denyError (Code (sshDecision d user two (cmdService parsed) row))), Some parsed, [])"
  using assms by (simp add: PrepareDispatch_def sshSubject_def sshDecision_def sshActor_def Let_def)

lemma write_allowed:
  assumes "Allow (fst (Can d c actor ActionRepoWrite repo))"
  shows "\<exists>role c'. effectiveRole d c actor repo = (Inr role, c') \<and> permitted d actor ActionRepoWrite repo role"
proof (cases "effectiveRole d c actor repo")
  case (Pair r c')
  show ?thesis
  proof (cases r)
    case (Inl e)
    then show ?thesis using assms Pair
      by (auto simp: Can_def isReadAction_def isWriteAction_def isIssueParticipationAction_def deny_def allow_def split: if_split_asm)
  next
    case (Inr role)
    then show ?thesis using assms Pair Can_permitted [of d c actor repo role c'] by blast
  qed
qed

text \<open>
  C12. A session is handed to git only for an active account and only as the policy allows: the
  program is the requested service, its one argument the directory of the named repository; a clone
  was allowed as a read, and a push only with at least the write role, on a repository that is not
  deleted, archived or paused and whose organisation is not suspended.
\<close>

theorem ssh_session_is_authorized:
  assumes "PrepareDispatch tbl fs d db environ rand inp = (Inr res, p, ev)" "wfRoot fs rs"
  shows "\<exists>parsed user row nm two. p = Some parsed \<and> sshSubject tbl db inp parsed user row nm two \<and>
    Argv0Args res = [Argv0 res, absPath (rs @ repoSegs (cmdOwner parsed) (cmdRepo parsed))] \<and>
    Argv0 res = serviceName (cmdService parsed) \<and>
    (case cmdService parsed of
       UploadPack \<Rightarrow> Allow (fst (Can d None (sshActor user two) ActionRepoRead (NewRepoRefFromRepo row)))
     | ReceivePack \<Rightarrow> \<exists>role c'. effectiveRole d None (sshActor user two) (NewRepoRefFromRepo row) = (Inr role, c') \<and>
         RoleAtLeast role RoleWrite \<and> row_DeletedAt row = None \<and> \<not> row_IsArchived row \<and> \<not> row_IsPaused row \<and>
         (case row_OwnerOrgID row of None \<Rightarrow> True | Some g \<Rightarrow> g = 0 \<or> \<not> isOrgSuspended d g))"
proof -
  obtain parsed user row nm two gitDir where s: "p = Some parsed" "sshSubject tbl db inp parsed user row nm two"
    "Allow (sshDecision d user two (cmdService parsed) row)" "RepoPath tbl fs (cmdOwner parsed) (cmdRepo parsed) = Inr gitDir"
    "Argv0 res = serviceName (cmdService parsed)" "Argv0Args res = [serviceName (cmdService parsed), gitDir]"
    by (rule PrepareDispatch_subject [OF assms(1)])
  have names: "ownerRE (cmdOwner parsed)" "repoRE (cmdRepo parsed)" "\<not> Contains (cmdRepo parsed) ''..''"
    using s(2) ParseSSHCommand_names by (auto simp: sshSubject_def)
  have dir: "gitDir = absPath (rs @ repoSegs (cmdOwner parsed) (cmdRepo parsed))"
    using RepoPath_ok [OF assms(2) names] s(4) by simp
  have "case cmdService parsed of
       UploadPack \<Rightarrow> Allow (fst (Can d None (sshActor user two) ActionRepoRead (NewRepoRefFromRepo row)))
     | ReceivePack \<Rightarrow> \<exists>role c'. effectiveRole d None (sshActor user two) (NewRepoRefFromRepo row) = (Inr role, c') \<and>
         RoleAtLeast role RoleWrite \<and> row_DeletedAt row = None \<and> \<not> row_IsArchived row \<and> \<not> row_IsPaused row \<and>
         (case row_OwnerOrgID row of None \<Rightarrow> True | Some g \<Rightarrow> g = 0 \<or> \<not> isOrgSuspended d g)"
  proof (cases "cmdService parsed")
    case UploadPack
    then show ?thesis using s(3) by (simp add: sshDecision_def serviceAction_def)
  next
    case ReceivePack
    then obtain role c' where "effectiveRole d None (sshActor user two) (NewRepoRefFromRepo row) = (Inr role, c')"
        "permitted d (sshActor user two) ActionRepoWrite (NewRepoRefFromRepo row) role"
      using s(3) write_allowed [of d None "sshActor user two" "NewRepoRefFromRepo row"] by (auto simp: sshDecision_def serviceAction_def)
    then show ?thesis using ReceivePack
      by (auto simp: permitted_unfold isReadAction_def isWriteAction_def isIssueParticipationAction_def minRoleFor_def RoleAtLeast_def
          NewRepoRefFromRepo_def split: option.split)
  qed
  then show ?thesis using s dir by auto
qed

text \<open>
  To a user without a role, a private repository looks missing to a clone and to a push, except
  that a push to an archived one is answered with the archived message, which reveals that the
  repository exists (paused repositories and those of suspended organisations likewise).
\<close>

theorem private_repo_over_ssh:
  assumes "sshSubject tbl db inp parsed user row nm two" "row_Visibility row = ''private''" "row_DeletedAt row = None"
    and "effectiveRole d None (sshActor user two) (NewRepoRefFromRepo row) = (Inr RoleNone, c')"
  shows "fst (PrepareDispatch tbl fs d db environ rand inp) = Inl
    (if cmdService parsed = ReceivePack \<and> row_IsArchived row then ErrSSHArchived
     else if cmdService parsed = ReceivePack \<and> row_IsPaused row then ErrSSHPaused
     else if cmdService parsed = ReceivePack \<and> (\<exists>g. row_OwnerOrgID row = Some g \<and> g \<noteq> 0 \<and> isOrgSuspended d g) then ErrSSHPermDenied
     else ErrSSHRepoNotFound)"
proof -
  let ?ref = "NewRepoRefFromRepo row"
  have ref: "IsPrivate ?ref" "\<not> IsPublic ?ref" "\<not> IsDeleted ?ref" "AuthorUserID ?ref = 0" "IsArchived ?ref = row_IsArchived row"
      "IsPaused ?ref = row_IsPaused row" "OwnerOrgID ?ref = (case row_OwnerOrgID row of Some g \<Rightarrow> g | None \<Rightarrow> 0)"
    using assms(2,3) by (simp_all add: NewRepoRefFromRepo_def IsPrivate_def IsPublic_def)
  have act: "\<not> IsSiteAdmin (sshActor user two)" "\<not> IsSuspended (sshActor user two)" "\<not> Impersonating (sshActor user two)"
      "\<not> IsAnonymous (sshActor user two)" by (simp_all add: sshActor_def UserActorWithTwoFactor_def)
  have dec: "sshDecision d user two (cmdService parsed) row
      = Can_with_role d (sshActor user two) (serviceAction (cmdService parsed)) ?ref RoleNone"
    using ref(2,3) act assms(4)
    by (simp add: sshDecision_def Can_def serviceAction_def isReadAction_def isIssueParticipationAction_def)
  have out: "Can_with_role d (sshActor user two) (serviceAction (cmdService parsed)) ?ref RoleNone =
    (if cmdService parsed = ReceivePack \<and> row_IsArchived row then deny DenyArchived ''repo archived''
     else if cmdService parsed = ReceivePack \<and> row_IsPaused row then deny DenyPaused ''repo paused''
     else if cmdService parsed = ReceivePack \<and> OwnerOrgID ?ref \<noteq> 0 \<and> isOrgSuspended d (OwnerOrgID ?ref)
     then deny DenyOrgSuspended ''owning org suspended''
     else deny DenyVisibility ''no role on private repo'')"
    using ref(1,4,5,6)
    by (cases "cmdService parsed") (simp_all add: Can_with_role_def serviceAction_def isWriteAction_def minRoleFor_def RoleAtLeast_def roleRank_def)
  have g: "(\<exists>g. row_OwnerOrgID row = Some g \<and> g \<noteq> 0 \<and> isOrgSuspended d g) \<longleftrightarrow> OwnerOrgID ?ref \<noteq> 0 \<and> isOrgSuspended d (OwnerOrgID ?ref)"
    unfolding ref(7) by (auto split: option.split)
  show ?thesis
    unfolding g using PrepareDispatch_denied [OF assms(1)] by (simp add: dec out deny_def)
qed


definition demo_row :: "bool \<Rightarrow> RepoRow" where
  "demo_row archived = \<lparr>row_ID = 5, row_OwnerUserID = Some 1, row_OwnerOrgID = None, row_Visibility = ''private'',
     row_IsArchived = archived, row_IsPaused = False, row_DeletedAt = None\<rparr>"

definition demo_reads :: "bool \<Rightarrow> SshReads" where
  "demo_reads archived =
     \<lparr>GetUserByID = \<lambda>u. QRow \<lparr>suID = u, suUsername = ''u'', suSuspendedAt = None, suDeletedAt = None\<rparr>,
      PrincipalRow = \<lambda>s. QRow (s, ''user'', 1),
      RepoByOwnerUser = \<lambda>o' n. QRow (demo_row archived, n), RepoByOwnerOrg = \<lambda>o' n. QNoRows,
      HasConfirmedTOTP = \<lambda>u. Inr False\<rparr>"

definition demo_push :: "go_int64 \<Rightarrow> SSHDispatchInput" where
  "demo_push u = \<lparr>OriginalCommand = ''git-receive-pack ana/site.git'', inUserID = u, RemoteIP = ''''\<rparr>"

lemma demo_subject:
  "sshSubject id (demo_reads archived) (demo_push u) demo_cmd \<lparr>suID = u, suUsername = ''u'', suSuspendedAt = None, suDeletedAt = None\<rparr>
     (demo_row archived) ''site'' False"
  by (simp add: sshSubject_def demo_push_def demo_parse demo_reads_def lookupRepo_def Resolve_def Let_def)

lemmas demo_dispatch_simps = demo_row_def NewRepoRefFromRepo_def sshActor_def UserActorWithTwoFactor_def effectiveRole_def demo_db_def demo_deps_def

theorem private_repo_over_ssh_witness:
  "fst (PrepareDispatch id wellKnownFS demo_deps (demo_reads True) [] (Inr []) (demo_push 4)) = Inl ErrSSHArchived \<and>
   fst (PrepareDispatch id wellKnownFS demo_deps (demo_reads False) [] (Inr []) (demo_push 4)) = Inl ErrSSHRepoNotFound"
proof -
  have e: "effectiveRole demo_deps None (sshActor \<lparr>suID = 4, suUsername = ''u'', suSuspendedAt = None, suDeletedAt = None\<rparr> False)
      (NewRepoRefFromRepo (demo_row archived)) = (Inr RoleNone, None)" for archived
    by (simp add: demo_dispatch_simps cacheGet_def cachePut_def)
  show ?thesis
    using private_repo_over_ssh [OF demo_subject [of True 4] _ _ e] private_repo_over_ssh [OF demo_subject [of False 4] _ _ e]
    by (simp add: demo_row_def)
qed

theorem ssh_session_is_authorized_witness:
  "\<exists>parsed user row nm two. sshSubject id (demo_reads False) (demo_push 1) parsed user row nm two"
proof -
  have dec: "Allow (sshDecision demo_deps \<lparr>suID = 1, suUsername = ''u'', suSuspendedAt = None, suDeletedAt = None\<rparr> False ReceivePack (demo_row False))"
    by (simp add: sshDecision_def serviceAction_def Can_def Can_with_role_def isReadAction_def isWriteAction_def isIssueParticipationAction_def
        minRoleFor_def RoleAtLeast_def roleRank_def allow_def IsPrivate_def IsPublic_def demo_dispatch_simps)
  have "\<exists>res ev. PrepareDispatch id wellKnownFS demo_deps (demo_reads False) [] (Inr []) (demo_push 1) = (Inr res, Some demo_cmd, ev)"
    using demo_subject [of False 1] dec demo_path
    by (simp add: PrepareDispatch_def sshSubject_def sshDecision_def sshActor_def newRequestID_def Let_def)
  then show ?thesis using ssh_session_is_authorized [OF _ wellKnownFS_wf] by blast
qed

section \<open>Framing\<close>

text \<open>The receiving side of the protocol: four hex digits that count themselves, then the payload.\<close>

definition unhex :: "char \<Rightarrow> nat" where
  "unhex c = (if is_ascii_digit c then code c - 48 else code c - 87)"

definition readPkt :: "string \<Rightarrow> (string \<times> string) option" where
  "readPkt s = (let n = foldl (\<lambda>a c. 16 * a + unhex c) 0 (take 4 s) in
     if length s < 4 \<or> n < 4 \<or> length s < n then None else Some (take (n - 4) (drop 4 s), drop n s))"

lemma unhex_hexDigit: "n < 16 \<Longrightarrow> unhex (hexDigit n) = n"
  by (auto simp: unhex_def hexDigit_def is_ascii_digit_def less_eq_char_def)

lemma hex4_value: "n < 65536 \<Longrightarrow> foldl (\<lambda>a c. 16 * a + unhex c) 0 (hex4 n) = n"
proof -
  assume "n < 65536"
  have d: "n div 256 = n div 16 div 16" "n div 4096 = n div 16 div 16 div 16" by (simp_all add: div_mult2_eq [symmetric])
  have "4096 * (n div 4096) + 256 * (n div 256 mod 16) + 16 * (n div 16 mod 16) + n mod 16 = n"
    unfolding d using div_mult_mod_eq [of n 16] div_mult_mod_eq [of "n div 16" 16] div_mult_mod_eq [of "n div 16 div 16" 16] by linarith
  with \<open>n < 65536\<close> show ?thesis by (simp add: hex4_def unhex_hexDigit)
qed

text \<open>
  A written packet is read back whatever follows it; a payload past the protocol's limit is refused,
  so the four-digit length never overflows.
\<close>

theorem pkt_line_roundtrip:
  "WritePkt w payload = Inr out \<Longrightarrow> \<exists>pkt. out = w @ pkt \<and> readPkt (pkt @ rest) = Some (payload, rest)"
proof -
  assume "WritePkt w payload = Inr out"
  then have l: "length payload + 4 \<le> 65520" "out = w @ hex4 (length payload + 4) @ payload"
    by (auto simp: WritePkt_def MaxPktLine_def split: if_split_asm)
  have len: "length (hex4 (length payload + 4)) = 4" by (simp add: hex4_def)
  have "readPkt ((hex4 (length payload + 4) @ payload) @ rest) = Some (payload, rest)"
    using l(1) len hex4_value [of "length payload + 4"] by (simp add: readPkt_def Let_def)
  then show ?thesis using l(2) by blast
qed

end
