(* ===== verification/GoNet.thy ===== *)
theory GoNet
  imports GoPath
begin

text \<open>
  IP addresses as Go's standard library has them: \<^verbatim>\<open>net/netip\<close> parsing of addresses and prefixes with
  prefix membership, and the classification methods of \<^verbatim>\<open>net.IP\<close>. Bytes are natural numbers below 256.
\<close>

section \<open>Addresses\<close>

datatype netAddr = NetAddr4 "nat list" | NetAddr6 "nat list" (zoneOf: string)

definition octet :: "string \<Rightarrow> nat option" where
  "octet s = (if s \<noteq> [] \<and> list_all is_ascii_digit s \<and> (length s = 1 \<or> hd s \<noteq> CHR ''0'') \<and> undecimal 0 s \<le> 255
     then Some (undecimal 0 s) else None)"

definition parseIPv4 :: "string \<Rightarrow> nat list option" where
  "parseIPv4 s = (case map octet (splitOn CHR ''.'' s) of
     [Some a, Some b, Some c, Some d] \<Rightarrow> Some [a, b, c, d] | _ \<Rightarrow> None)"

definition hexVal :: "char \<Rightarrow> nat" where
  "hexVal c = (if is_ascii_digit c then code c - 48 else if is_ascii_lower c then code c - 87 else code c - 55)"

definition isHexDigit :: "char \<Rightarrow> bool" where
  "isHexDigit c \<longleftrightarrow> is_ascii_digit c \<or> (CHR ''a'' \<le> c \<and> c \<le> CHR ''f'') \<or> (CHR ''A'' \<le> c \<and> c \<le> CHR ''F'')"

definition hexNum :: "string \<Rightarrow> nat" where
  "hexNum s = foldl (\<lambda>a c. 16 * a + hexVal c) 0 s"

text \<open>The loop over the groups: the bytes read so far and the position of the \<^verbatim>\<open>::\<close>, if any.\<close>

function parseGroups :: "string \<Rightarrow> nat list \<Rightarrow> nat option \<Rightarrow> (nat list \<times> nat option) option" where
  "parseGroups s ip ell =
     (if length ip \<ge> 16 then (if s = [] then Some (ip, ell) else None)
      else let h = takeWhile isHexDigit s; rest = dropWhile isHexDigit s in
        if h = [] \<or> length h > 4 then None
        else if rest \<noteq> [] \<and> hd rest = CHR ''.'' then
          (if ell = None \<and> length ip \<noteq> 12 then None
           else if length ip + 4 > 16 then None
           else map_option (\<lambda>v. (ip @ v, ell)) (parseIPv4 s))
        else let ip' = ip @ [hexNum h div 256, hexNum h mod 256] in
          if rest = [] then Some (ip', ell)
          else if hd rest \<noteq> CHR '':'' \<or> tl rest = [] then None
          else if hd (tl rest) = CHR '':'' then
            (if ell \<noteq> None then None
             else if tl (tl rest) = [] then Some (ip', Some (length ip'))
             else parseGroups (tl (tl rest)) ip' (Some (length ip')))
          else parseGroups (tl rest) ip' ell)"
  by pat_completeness auto
termination
proof (relation "measure (\<lambda>(s, ip, ell). length s)", goal_cases)
  case (2 s ip ell h rest ip')
  then have "length rest \<le> length s" "rest \<noteq> []" "tl rest \<noteq> []" using length_dropWhile_le [of isHexDigit s] by auto
  then show ?case by (cases rest; cases "tl rest") auto
next
  case (3 s ip ell h rest ip')
  then have "length rest \<le> length s" "rest \<noteq> []" using length_dropWhile_le [of isHexDigit s] by auto
  then show ?case by (cases rest) auto
qed simp

declare parseGroups.simps [simp del]

definition parseIPv6 :: "string \<Rightarrow> netAddr option" where
  "parseIPv6 inp =
     (let (s, zone) = (case Cut CHR ''%'' inp of None \<Rightarrow> (inp, Some '''') | Some (a, z) \<Rightarrow> (a, if z = '''' then None else Some z)) in
      case zone of None \<Rightarrow> None | Some z \<Rightarrow>
      if HasPrefix s ''::'' \<and> drop 2 s = [] then Some (NetAddr6 (replicate 16 0) z)
      else case (if HasPrefix s ''::'' then parseGroups (drop 2 s) [] (Some 0) else parseGroups s [] None) of
        None \<Rightarrow> None
      | Some (ip, ell) \<Rightarrow>
          if length ip < 16
          then (case ell of None \<Rightarrow> None
                | Some e \<Rightarrow> Some (NetAddr6 (take e ip @ replicate (16 - length ip) 0 @ drop e ip) z))
          else if ell \<noteq> None then None else Some (NetAddr6 ip z))"

text \<open>The first dot, colon or percent sign decides the family.\<close>

definition ParseAddr :: "string \<Rightarrow> netAddr option" where
  "ParseAddr s = (case filter (\<lambda>c. c \<in> set ''.:%'') s of
     [] \<Rightarrow> None
   | c # _ \<Rightarrow> if c = CHR ''.'' then map_option NetAddr4 (parseIPv4 s)
              else if c = CHR '':'' then parseIPv6 s else None)"

definition isMapped :: "nat list \<Rightarrow> bool" where
  "isMapped ip \<longleftrightarrow> length ip = 16 \<and> take 12 ip = replicate 10 0 @ [255, 255]"

fun Unmap :: "netAddr \<Rightarrow> netAddr" where
  "Unmap (NetAddr4 b) = NetAddr4 b"
| "Unmap (NetAddr6 b z) = (if isMapped b then NetAddr4 (drop 12 b) else NetAddr6 b z)"

section \<open>Prefixes\<close>

record netPrefix =
  prefixAddr :: netAddr
  prefixBits :: nat

fun withoutZone :: "netAddr \<Rightarrow> netAddr" where
  "withoutZone (NetAddr4 b) = NetAddr4 b"
| "withoutZone (NetAddr6 b z) = NetAddr6 b ''''"

definition PrefixFrom :: "netAddr \<Rightarrow> nat \<Rightarrow> netPrefix" where
  "PrefixFrom a n = \<lparr>prefixAddr = withoutZone a, prefixBits = n\<rparr>"

fun maxBits :: "netAddr \<Rightarrow> nat" where
  "maxBits (NetAddr4 _) = 32"
| "maxBits (NetAddr6 _ _) = 128"

fun noZone :: "netAddr \<Rightarrow> bool" where
  "noZone (NetAddr4 _) = True"
| "noZone (NetAddr6 _ z) = (z = '''')"

definition lastSlash :: "string \<Rightarrow> (string \<times> string) option" where
  "lastSlash s = (if CHR ''/'' \<in> set s
     then Some (rev (tl (dropWhile (\<lambda>c. c \<noteq> CHR ''/'') (rev s))), rev (takeWhile (\<lambda>c. c \<noteq> CHR ''/'') (rev s)))
     else None)"

definition ParsePrefix :: "string \<Rightarrow> netPrefix option" where
  "ParsePrefix s = (case lastSlash s of None \<Rightarrow> None | Some (a, bits) \<Rightarrow>
     case ParseAddr a of None \<Rightarrow> None | Some ip \<Rightarrow>
     if \<not> noZone ip then None
     else if bits = [] \<or> \<not> list_all is_ascii_digit bits \<or> (length bits > 1 \<and> hd bits = CHR ''0'') then None
     else if undecimal 0 bits > maxBits ip then None
     else Some (PrefixFrom ip (undecimal 0 bits)))"

definition bits8 :: "nat \<Rightarrow> bool list" where
  "bits8 b = map (\<lambda>i. odd (b div 2 ^ (7 - i))) [0..<8]"

definition addrBits :: "nat list \<Rightarrow> bool list" where
  "addrBits bs = concat (map bits8 bs)"

definition PrefixContains :: "netPrefix \<Rightarrow> netAddr \<Rightarrow> bool" where
  "PrefixContains p a = (case (prefixAddr p, a) of
     (NetAddr4 x, NetAddr4 y) \<Rightarrow> take (prefixBits p) (addrBits x) = take (prefixBits p) (addrBits y)
   | (NetAddr6 x _, NetAddr6 y z) \<Rightarrow> z = '''' \<and> take (prefixBits p) (addrBits x) = take (prefixBits p) (addrBits y)
   | _ \<Rightarrow> False)"

section \<open>Classes of net.IP\<close>

text \<open>An IP is its 4 or 16 bytes; \<open>[]\<close> is the nil slice.\<close>

definition To4 :: "nat list \<Rightarrow> nat list option" where
  "To4 ip = (if length ip = 4 then Some ip else if isMapped ip then Some (drop 12 ip) else None)"

definition To16 :: "nat list \<Rightarrow> nat list" where
  "To16 ip = (if length ip = 4 then replicate 10 0 @ [255, 255] @ ip else ip)"

definition IP_Equal :: "nat list \<Rightarrow> nat list \<Rightarrow> bool" where
  "IP_Equal a b \<longleftrightarrow> To16 a = To16 b"

definition IsUnspecified :: "nat list \<Rightarrow> bool" where
  "IsUnspecified ip \<longleftrightarrow> IP_Equal ip [0, 0, 0, 0] \<or> IP_Equal ip (replicate 16 0)"

definition IsLoopback :: "nat list \<Rightarrow> bool" where
  "IsLoopback ip \<longleftrightarrow> (case To4 ip of Some v \<Rightarrow> v ! 0 = 127 | None \<Rightarrow> ip = replicate 15 0 @ [1])"

definition IsMulticast :: "nat list \<Rightarrow> bool" where
  "IsMulticast ip \<longleftrightarrow> (case To4 ip of Some v \<Rightarrow> v ! 0 div 16 = 14 | None \<Rightarrow> length ip = 16 \<and> ip ! 0 = 255)"

definition IsLinkLocalUnicast :: "nat list \<Rightarrow> bool" where
  "IsLinkLocalUnicast ip \<longleftrightarrow> (case To4 ip of Some v \<Rightarrow> v ! 0 = 169 \<and> v ! 1 = 254
     | None \<Rightarrow> length ip = 16 \<and> ip ! 0 = 254 \<and> ip ! 1 div 64 = 2)"

definition IsLinkLocalMulticast :: "nat list \<Rightarrow> bool" where
  "IsLinkLocalMulticast ip \<longleftrightarrow> (case To4 ip of Some v \<Rightarrow> v ! 0 = 224 \<and> v ! 1 = 0 \<and> v ! 2 = 0
     | None \<Rightarrow> length ip = 16 \<and> ip ! 0 = 255 \<and> ip ! 1 mod 16 = 2)"

definition IsInterfaceLocalMulticast :: "nat list \<Rightarrow> bool" where
  "IsInterfaceLocalMulticast ip \<longleftrightarrow> length ip = 16 \<and> ip ! 0 = 255 \<and> ip ! 1 mod 16 = 1"

text \<open>\<^verbatim>\<open>net.ParseIP\<close>: addresses with a zone are refused and IPv4 is returned in its 16-byte form.\<close>

definition ParseIP :: "string \<Rightarrow> nat list option" where
  "ParseIP s = (case ParseAddr s of None \<Rightarrow> None
     | Some (NetAddr4 b) \<Rightarrow> Some (To16 b)
     | Some (NetAddr6 b z) \<Rightarrow> if z = '''' then Some b else None)"

section \<open>Facts\<close>

lemma parseIPv4_bytes: "parseIPv4 s = Some ip \<Longrightarrow> length ip = 4 \<and> list_all (\<lambda>b. b < 256) ip"
proof -
  assume "parseIPv4 s = Some ip"
  then obtain a b c d where "map octet (splitOn CHR ''.'' s) = [Some a, Some b, Some c, Some d]" "ip = [a, b, c, d]"
    by (auto simp: parseIPv4_def split: list.split_asm option.split_asm)
  moreover have "octet x = Some n \<Longrightarrow> n < 256" for x n by (auto simp: octet_def split: if_split_asm)
  ultimately show ?thesis by auto
qed

lemma parseIPv4_dotted:
  assumes "a < 256" "b < 256" "c < 256" "d < 256"
  shows "parseIPv4 (Join [decimal a, decimal b, decimal c, decimal d] ''.'') = Some [a, b, c, d]"
proof -
  have dig: "list_all is_ascii_digit (decimal n)" for n
    using decimal_digits [of _ n] by (fastforce simp: list_all_iff is_ascii_digit_def less_eq_char_def)
  have dot: "CHR ''.'' \<notin> set (decimal n)" for n
  proof
    assume "CHR ''.'' \<in> set (decimal n)"
    then have "is_ascii_digit CHR ''.''" using dig [of n] by (simp add: list_all_iff)
    then show False by (simp add: is_ascii_digit_def less_eq_char_def)
  qed
  have ne: "decimal n \<noteq> []" for n by (subst decimal.simps) simp
  have lead: "length (decimal n) = 1 \<or> hd (decimal n) \<noteq> CHR ''0''" for n
  proof (induction n rule: decimal.induct)
    case (1 n)
    show ?case
    proof (cases "n < 10")
      case True
      then show ?thesis by (subst decimal.simps) simp
    next
      case False
      have "hd (decimal (n div 10)) \<noteq> CHR ''0''"
      proof (cases "n div 10 < 10")
        case True
        moreover have "0 < n div 10" using False by simp
        ultimately have "of_char (char_of (48 + n div 10) :: char) \<noteq> (48 :: nat)" by (simp add: of_char_digit)
        then have "char_of (48 + n div 10) \<noteq> CHR ''0''" by fastforce
        then show ?thesis using True by (subst decimal.simps) simp
      next
        case F: False
        then have "length (decimal (n div 10)) \<noteq> 1" using ne by (subst decimal.simps) (simp add: ne)
        then show ?thesis using 1 False by simp
      qed
      then show ?thesis using False ne by (subst decimal.simps, subst (2) decimal.simps) simp
    qed
  qed
  have "splitOn CHR ''.'' (Join [decimal a, decimal b, decimal c, decimal d] ''.'') = [decimal a, decimal b, decimal c, decimal d]"
    using dot by (intro splitOn_Join) auto
  then show ?thesis using assms dig ne lead by (simp add: parseIPv4_def octet_def undecimal_decimal)
qed

end
