(* ===== verification/AccessTokens.thy ===== *)
theory AccessTokens
  imports GoNet "HOL-Library.AList"
begin

text \<open>
  Personal access tokens (\<^verbatim>\<open>src/internal/auth/pat\<close>): minting and recognising tokens, scopes, the single-repository
  binding, the IP allowlist check, the debouncer of last-used writes and the route prefix of the usage
  statistics. SHA-256 is the argument \<open>sha256\<close>; the entropy source is the sequence of its answers.
\<close>

section \<open>Scopes\<close>

definition AllScopes :: "string list" where
  "AllScopes = [''repo:read'', ''repo:write'', ''user:read'', ''user:write'', ''admin:read'']"

definition ValidScope :: "string \<Rightarrow> bool" where
  "ValidScope s = list_ex (\<lambda>sc. sc = s) AllScopes"

fun HasScope :: "string list \<Rightarrow> string \<Rightarrow> bool" where
  "HasScope [] required = False"
| "HasScope (h # held) required =
     (if h = required then True
      else if required = ''repo:read'' \<and> h = ''repo:write'' then True
      else if required = ''user:read'' \<and> h = ''user:write'' then True
      else HasScope held required)"

definition NormalizeScopes :: "string list \<Rightarrow> string list" where
  "NormalizeScopes inp = (let seen = filter ValidScope inp in filter (\<lambda>sc. sc \<in> set seen) AllScopes)"

section \<open>Tokens\<close>

definition patPrefix :: string where
  "patPrefix = ''shithub_pat_''"

definition PayloadLen :: nat where
  "PayloadLen = 32"

definition DisplayPrefixLen :: nat where
  "DisplayPrefixLen = length ''shithub_pat_'' + 4"

definition alphabet :: string where
  "alphabet = ''ABCDEFGHIJKLMNOPQRSTUVWXYZabcdefghijklmnopqrstuvwxyz0123456789''"

definition isBase62 :: "char \<Rightarrow> bool" where
  "isBase62 r \<longleftrightarrow> is_ascii_upper r \<or> is_ascii_lower r \<or> is_ascii_digit r"

datatype pat_error = ErrMalformed | MintPayload string

text \<open>The inner loop: append the accepted bytes of one buffer until \<open>n\<close> characters are there.\<close>

fun fillBase62 :: "nat \<Rightarrow> nat list \<Rightarrow> string \<Rightarrow> string" where
  "fillBase62 n [] out = out"
| "fillBase62 n (b # bs) out =
     (if b \<ge> 248 then fillBase62 n bs out
      else let out' = out @ [alphabet ! (b mod 62)] in if length out' = n then out' else fillBase62 n bs out')"

text \<open>The outer loop over the answers of the entropy source; \<open>None\<close> is a loop that needs more of them.\<close>

fun randomLoop :: "nat \<Rightarrow> (string + nat list) list \<Rightarrow> string \<Rightarrow> (string + string) option" where
  "randomLoop n reads out =
     (if length out < n
      then (case reads of
              [] \<Rightarrow> None
            | Inl e # rest \<Rightarrow> Some (Inl e)
            | Inr buf # rest \<Rightarrow> randomLoop n rest (fillBase62 n buf out))
      else Some (Inr out))"

declare randomLoop.simps [simp del]

definition randomBase62 :: "nat \<Rightarrow> (string + nat list) list \<Rightarrow> (string + string) option" where
  "randomBase62 n reads = randomLoop n reads ''''"

definition Mint :: "(string \<Rightarrow> string) \<Rightarrow> (string + nat list) list \<Rightarrow> (pat_error + string \<times> string \<times> string) option" where
  "Mint sha256 reads = (case randomBase62 PayloadLen reads of
     None \<Rightarrow> None
   | Some (Inl e) \<Rightarrow> Some (Inl (MintPayload e))
   | Some (Inr payload) \<Rightarrow>
       let raw = patPrefix @ payload in Some (Inr (raw, sha256 raw, take DisplayPrefixLen raw)))"

definition HashOf :: "(string \<Rightarrow> string) \<Rightarrow> string \<Rightarrow> pat_error + string" where
  "HashOf sha256 raw =
     (if \<not> HasPrefix raw patPrefix then Inl ErrMalformed
      else if length raw \<noteq> length patPrefix + PayloadLen then Inl ErrMalformed
      else if \<not> list_all isBase62 (drop (length patPrefix) raw) then Inl ErrMalformed
      else Inr (sha256 raw))"

definition EqualHash :: "string \<Rightarrow> string \<Rightarrow> bool" where
  "EqualHash a b = (a = b)"

definition LooksLike :: "string \<Rightarrow> bool" where
  "LooksLike s =
     (if \<not> HasPrefix s patPrefix then False
      else if length s \<noteq> length patPrefix + PayloadLen then False
      else list_all isBase62 (drop (length patPrefix) s))"

section \<open>Restrictions\<close>

definition RepoBindingAllows :: "go_int64 \<Rightarrow> go_int64 \<Rightarrow> bool" where
  "RepoBindingAllows binding requested = (if binding = 0 then True else binding = requested)"

definition parseAllowlistEntry :: "string \<Rightarrow> netPrefix option" where
  "parseAllowlistEntry s =
     (if Contains s ''/'' then ParsePrefix s
      else map_option (\<lambda>addr. PrefixFrom addr (case addr of NetAddr4 _ \<Rightarrow> 32 | NetAddr6 _ _ \<Rightarrow> 128)) (ParseAddr s))"

fun matchEntries :: "string list \<Rightarrow> netAddr \<Rightarrow> bool" where
  "matchEntries [] ip = False"
| "matchEntries (e # es) ip = (case parseAllowlistEntry e of
     None \<Rightarrow> False | Some p \<Rightarrow> if PrefixContains p ip then True else matchEntries es ip)"

text \<open>The invalid (zero) address is \<open>None\<close>.\<close>

definition IPMatch :: "string list \<Rightarrow> netAddr option \<Rightarrow> bool" where
  "IPMatch allowlist ip =
     (if allowlist = [] then True
      else case ip of None \<Rightarrow> False | Some a \<Rightarrow> matchEntries allowlist (Unmap a))"

section \<open>The debouncer\<close>

record Debouncer =
  last_touch :: "(go_int64 \<times> int) list"
  window :: int
  maxEntries :: nat

definition NewDebouncer :: "int \<Rightarrow> Debouncer" where
  "NewDebouncer w = \<lparr>last_touch = [], window = (if w \<le> 0 then 60 * 1000000000 else w), maxEntries = 4096\<rparr>"

definition evictStaleLocked :: "int \<Rightarrow> Debouncer \<Rightarrow> Debouncer" where
  "evictStaleLocked now d = d\<lparr>last_touch := filter (\<lambda>(k, t). \<not> now - t \<ge> window d) (last_touch d)\<rparr>"

definition ShouldTouch :: "int \<Rightarrow> go_int64 \<Rightarrow> Debouncer \<Rightarrow> bool \<times> Debouncer" where
  "ShouldTouch now tokenID d =
     (case map_of (last_touch d) tokenID of
        Some l \<Rightarrow> if now - l < window d then (False, d)
                 else (let d' = d\<lparr>last_touch := AList.update tokenID now (last_touch d)\<rparr> in
                       (True, if length (last_touch d') > maxEntries d' then evictStaleLocked now d' else d'))
      | None \<Rightarrow> (let d' = d\<lparr>last_touch := AList.update tokenID now (last_touch d)\<rparr> in
                 (True, if length (last_touch d') > maxEntries d' then evictStaleLocked now d' else d')))"

definition Forget :: "go_int64 \<Rightarrow> Debouncer \<Rightarrow> Debouncer" where
  "Forget tokenID d = d\<lparr>last_touch := AList.delete tokenID (last_touch d)\<rparr>"

section \<open>Route prefixes\<close>

definition isAllDigits :: "string \<Rightarrow> bool" where
  "isAllDigits s = list_all is_ascii_digit s"

definition isHex :: "string \<Rightarrow> bool" where
  "isHex s = list_all isHexDigit s"

definition canonicalSegment :: "string \<Rightarrow> string" where
  "canonicalSegment s =
     (if s = '''' then '''' else if isAllDigits s then '':id'' else if length s \<ge> 20 \<and> isHex s then '':id'' else s)"

definition trimSlashes :: "string \<Rightarrow> string" where
  "trimSlashes s = rev (dropWhile (\<lambda>c. c = CHR ''/'') (rev (dropWhile (\<lambda>c. c = CHR ''/'') s)))"

fun cutoffBack :: "string \<Rightarrow> nat \<Rightarrow> nat" where
  "cutoffBack out 0 = 0"
| "cutoffBack out (Suc n) = (if code (out ! Suc n) div 64 = 2 then cutoffBack out n else Suc n)"

definition RoutePrefix :: "(nat \<Rightarrow> nat) \<Rightarrow> string \<Rightarrow> string" where
  "RoutePrefix tbl urlPath =
     (if urlPath = '''' \<or> urlPath = ''/'' then ''/''
      else let trimmed = trimSlashes urlPath in
        if trimmed = '''' then ''/''
        else let parts = map (ToLower tbl \<circ> canonicalSegment) (take 3 (splitOn CHR ''/'' trimmed));
                 out = ''/'' @ Join parts ''/'' in
          if length out > 64 then take (cutoffBack out 61) out @ [byte 226, byte 128, byte 166] else out)"

section \<open>Minting\<close>

abbreviation accepted :: "nat list \<Rightarrow> nat list" where
  "accepted bs \<equiv> filter (\<lambda>b. b < 248) bs"

abbreviation pick62 :: "nat \<Rightarrow> char" where
  "pick62 b \<equiv> alphabet ! (b mod 62)"

lemma alphabet_facts: "length alphabet = 62" "distinct alphabet" "list_all isBase62 alphabet"
  by (simp_all add: alphabet_def isBase62_def is_ascii_upper_def is_ascii_lower_def is_ascii_digit_def less_eq_char_def)

lemma pick62_base62: "isBase62 (pick62 b)"
  using alphabet_facts nth_mem [of "b mod 62" alphabet] by (simp add: list_all_iff)

lemma fillBase62_eq:
  "length out < n \<Longrightarrow> fillBase62 n bs out = out @ map pick62 (take (n - length out) (accepted bs))"
proof (induction n bs out rule: fillBase62.induct)
  case (2 n b bs out)
  show ?case
  proof (cases "b < 248 \<and> length (out @ [pick62 b]) \<noteq> n")
    case True
    then have "n - length out = Suc (n - length (out @ [pick62 b]))" using 2(3) by simp
    then show ?thesis using True 2 by (simp add: not_le Let_def)
  next
    case False
    then show ?thesis using 2 by (cases "b < 248") (auto simp: Let_def not_less)
  qed
qed simp

lemma fillBase62_length: "length out < n \<Longrightarrow> length (fillBase62 n bs out) \<le> n"
  by (simp add: fillBase62_eq)

lemma randomLoop_collects:
  "length out \<le> n \<Longrightarrow> n - length out \<le> length (accepted (concat bufs)) \<Longrightarrow>
     randomLoop n (map Inr bufs) out = Some (Inr (out @ map pick62 (take (n - length out) (accepted (concat bufs)))))"
proof (induction bufs arbitrary: out)
  case Nil
  then show ?case by (simp add: randomLoop.simps)
next
  case (Cons buf bufs)
  show ?case
  proof (cases "length out < n")
    case True
    let ?out = "fillBase62 n buf out"
    have eq: "?out = out @ map pick62 (take (n - length out) (accepted buf))" by (rule fillBase62_eq [OF True])
    have "randomLoop n (map Inr (buf # bufs)) out = randomLoop n (map Inr bufs) ?out"
      using True by (simp add: randomLoop.simps)
    also have "\<dots> = Some (Inr (?out @ map pick62 (take (n - length ?out) (accepted (concat bufs)))))"
      by (rule Cons.IH) (use True Cons.prems in \<open>auto simp: eq min_def split: if_split_asm\<close>)
    finally show ?thesis unfolding eq using Cons.prems by (simp add: min_def)
  qed (use Cons.prems in \<open>simp add: randomLoop.simps\<close>)
qed

lemma randomLoop_result:
  assumes "randomLoop n reads out = Some (Inr s)" "length out \<le> n" "list_all isBase62 out"
  shows "length s = n \<and> list_all isBase62 s"
  using assms
proof (induction n reads out rule: randomLoop.induct)
  case (1 n reads out)
  show ?case
  proof (cases "length out < n")
    case True
    then obtain buf rest where r: "reads = Inr buf # rest" "randomLoop n rest (fillBase62 n buf out) = Some (Inr s)"
      using 1(2) by (subst (asm) randomLoop.simps) (auto split: list.split_asm sum.split_asm)
    have "list_all isBase62 (fillBase62 n buf out)"
      using 1(4) pick62_base62 by (auto simp: fillBase62_eq [OF True] list_all_iff)
    then show ?thesis using 1(1) [OF True r(1) refl] r(2) fillBase62_length [OF True] by blast
  next
    case False
    then show ?thesis using 1(2-4) by (subst (asm) randomLoop.simps) auto
  qed
qed

lemma HashOf_looks_like: "(\<exists>h. HashOf sha256 raw = Inr h) \<longleftrightarrow> LooksLike raw"
  by (simp add: HashOf_def LooksLike_def)

text \<open>
  A minted token is recognised: it has the documented 44 bytes, every lookup and the log redactor
  accept it, the stored hash is the one looked up, and the displayed part is its first 16 bytes. A text
  is hashed for lookup exactly when it looks like a token.
\<close>

theorem minted_token_is_recognised:
  assumes "Mint sha256 reads = Some (Inr (raw, h, pre))"
  shows "HashOf sha256 raw = Inr h \<and> LooksLike raw \<and> length raw = 44 \<and> HasPrefix raw pre \<and> length pre = 16 \<and>
    ((\<exists>h'. HashOf sha256 other = Inr h') \<longleftrightarrow> LooksLike other)"
proof -
  obtain payload where p: "randomBase62 PayloadLen reads = Some (Inr payload)" "raw = patPrefix @ payload" "h = sha256 raw"
      "pre = take DisplayPrefixLen raw"
    using assms by (auto simp: Mint_def Let_def split: option.split_asm sum.split_asm)
  have "length payload = 32" "list_all isBase62 payload"
    using randomLoop_result [of PayloadLen reads "''''" payload] p(1) by (simp_all add: randomBase62_def PayloadLen_def)
  then show ?thesis using p(2-4) HashOf_looks_like [of sha256 other]
    by (simp add: HashOf_def LooksLike_def patPrefix_def PayloadLen_def DisplayPrefixLen_def HasPrefix_iff_take)
qed

theorem minted_token_is_recognised_witness:
  "\<exists>raw h pre. Mint id [Inr (replicate 64 1)] = Some (Inr (raw, h, pre)) \<and> LooksLike raw"
proof -
  have "randomBase62 PayloadLen (map Inr [replicate 64 1]) = Some (Inr (map pick62 (replicate 32 1)))"
    using randomLoop_collects [of "''''" PayloadLen "[replicate 64 1]"] by (simp add: randomBase62_def PayloadLen_def)
  then have "\<exists>raw h pre. Mint id [Inr (replicate 64 1)] = Some (Inr (raw, h, pre))" by (simp add: Mint_def Let_def)
  then show ?thesis using minted_token_is_recognised by blast
qed

text \<open>
  C37. The payload sampler returns as soon as the entropy source has delivered enough accepted bytes,
  with one character per accepted byte in order, and is unbiased: every character of the alphabet
  stands for exactly four of the 248 accepted byte values.
\<close>

theorem payload_sampling_is_uniform:
  assumes "n \<le> length (accepted (concat bufs))" "c \<in> set alphabet"
  shows "randomBase62 n (map Inr bufs) = Some (Inr (map pick62 (take n (accepted (concat bufs))))) \<and>
    card {b. b < 248 \<and> pick62 b = c} = 4"
proof
  show "randomBase62 n (map Inr bufs) = Some (Inr (map pick62 (take n (accepted (concat bufs)))))"
    using randomLoop_collects [of "''''" n bufs] assms(1) by (simp add: randomBase62_def)
  obtain i where i: "i < 62" "alphabet ! i = c" using assms(2) alphabet_facts(1) by (auto simp: in_set_conv_nth)
  have "pick62 b = c \<longleftrightarrow> b mod 62 = i" for b
    using i alphabet_facts(1) nth_eq_iff_index_eq [OF alphabet_facts(2), of "b mod 62" i] by auto
  moreover have "b \<in> {i, i + 62, i + 124, i + 186}" if "b < 248" "b mod 62 = i" for b
  proof -
    have "b div 62 < 4" using that(1) by (intro less_mult_imp_div_less) simp
    then have "b div 62 \<in> {0, 1, 2, 3}" by auto
    then show ?thesis using div_mult_mod_eq [of b 62] that(2) by auto
  qed
  moreover have "(i + 62 * k) mod 62 = i" for k using i(1) by simp
  note this [of 0] this [of 1] this [of 2] this [of 3]
  ultimately have "{b. b < 248 \<and> pick62 b = c} = {i, i + 62, i + 124, i + 186}" using i(1) by auto
  then show "card {b. b < 248 \<and> pick62 b = c} = 4" by simp
qed

theorem payload_sampling_is_uniform_witness:
  "randomBase62 2 (map Inr [[250, 3], [66, 1]]) = Some (Inr ''DE'') \<and> card {b. b < 248 \<and> pick62 b = CHR ''A''} = 4"
  using payload_sampling_is_uniform [of 2 "[[250, 3], [66, 1]]" "CHR ''A''"] by (simp add: alphabet_def numeral_2_eq_2)

section \<open>Scopes in normal form\<close>

lemma HasScope_iff:
  "HasScope held r \<longleftrightarrow> r \<in> set held \<or> (r = ''repo:read'' \<and> ''repo:write'' \<in> set held) \<or> (r = ''user:read'' \<and> ''user:write'' \<in> set held)"
  by (induction held r rule: HasScope.induct) auto

lemma NormalizeScopes_set: "set (NormalizeScopes inp) = set inp \<inter> set AllScopes"
  by (auto simp: NormalizeScopes_def ValidScope_def list_ex_iff Let_def)

text \<open>
  Normalising scopes keeps exactly the grants: a known scope is held after normalisation iff it was held
  before, the result is a duplicate-free selection of the canonical list in its order, and normalising
  again changes nothing.
\<close>

theorem normalized_scopes_grant_the_same:
  assumes "ValidScope r"
  shows "HasScope (NormalizeScopes inp) r = HasScope inp r \<and> subseq (NormalizeScopes inp) AllScopes \<and>
    distinct (NormalizeScopes inp) \<and> NormalizeScopes (NormalizeScopes inp) = NormalizeScopes inp"
proof -
  have "r \<in> set AllScopes" using assms by (auto simp: ValidScope_def list_ex_iff)
  then have "HasScope (NormalizeScopes inp) r = HasScope inp r"
    by (auto simp: HasScope_iff NormalizeScopes_set AllScopes_def)
  moreover have "subseq (NormalizeScopes inp) AllScopes" by (simp add: NormalizeScopes_def Let_def)
  moreover have "distinct (NormalizeScopes inp)" by (simp add: NormalizeScopes_def Let_def AllScopes_def)
  moreover have "NormalizeScopes (NormalizeScopes inp) = NormalizeScopes inp"
    by (auto simp: NormalizeScopes_def Let_def ValidScope_def list_ex_iff intro: filter_cong)
  ultimately show ?thesis by blast
qed

section \<open>The allowlist\<close>

lemma matchEntries_iff:
  "\<forall>e \<in> set es. parseAllowlistEntry e \<noteq> None \<Longrightarrow>
     matchEntries es a \<longleftrightarrow> (\<exists>e \<in> set es. \<exists>p. parseAllowlistEntry e = Some p \<and> PrefixContains p a)"
  by (induction es a rule: matchEntries.induct) auto

text \<open>
  With a well-formed allowlist a token works exactly from the addresses of one of its networks
  (IPv4-mapped IPv6 clients counting as their IPv4 address) and never from an unknown address; an empty
  list restricts nothing; and a list whose first entry is malformed lets nobody in.
\<close>

theorem allowlist_decides_by_network:
  assumes "\<forall>e \<in> set es. parseAllowlistEntry e \<noteq> None" "es \<noteq> []" "parseAllowlistEntry bad = None"
  shows "(IPMatch es ip \<longleftrightarrow> (\<exists>a e p. ip = Some a \<and> e \<in> set es \<and> parseAllowlistEntry e = Some p \<and> PrefixContains p (Unmap a))) \<and>
    IPMatch [] ip \<and> \<not> IPMatch (bad # es) ip"
  using assms matchEntries_iff [OF assms(1)] by (auto simp: IPMatch_def split: option.split)

lemma octet_simps: "octet ''10'' = Some 10" "octet ''0'' = Some 0" "octet ''8'' = Some 8"
  by (simp_all add: octet_def is_ascii_digit_def less_eq_char_def)

lemma demo_prefix: "parseAllowlistEntry ''10.0.0.0/8'' = Some \<lparr>prefixAddr = NetAddr4 [10, 0, 0, 0], prefixBits = 8\<rparr>"
  by (simp add: parseAllowlistEntry_def Contains_def ParsePrefix_def lastSlash_def ParseAddr_def parseIPv4_def octet_simps
      is_ascii_digit_def less_eq_char_def PrefixFrom_def)

lemma demo_malformed: "parseAllowlistEntry ''office'' = None"
  by (simp add: parseAllowlistEntry_def Contains_def ParseAddr_def)

theorem allowlist_decides_by_network_witness:
  "IPMatch [''10.0.0.0/8''] (Some (NetAddr4 [10, 1, 2, 3])) \<and> \<not> IPMatch [''10.0.0.0/8''] (Some (NetAddr4 [11, 1, 2, 3]))"
  using allowlist_decides_by_network [of "[''10.0.0.0/8'']" "''office''" "Some (NetAddr4 [10, 1, 2, 3])"]
    allowlist_decides_by_network [of "[''10.0.0.0/8'']" "''office''" "Some (NetAddr4 [11, 1, 2, 3])"]
  by (simp add: demo_prefix demo_malformed PrefixContains_def addrBits_def bits8_def upt_rec)

text \<open>
  A malformed entry does not always deny: the check stops at the first network that contains the
  address, so an entry it cannot parse behind that one goes unnoticed, although the contract says a
  list with any malformed entry lets nobody in.
\<close>

theorem later_malformed_entry_is_ignored:
  "IPMatch [''10.0.0.0/8'', ''office''] (Some (NetAddr4 [10, 1, 2, 3])) \<and> \<not> IPMatch [''office'', ''10.0.0.0/8''] (Some (NetAddr4 [10, 1, 2, 3]))"
  by (simp add: IPMatch_def demo_prefix demo_malformed PrefixContains_def addrBits_def bits8_def upt_rec)

section \<open>Debounced touches\<close>

datatype debOp = TouchOp (opTime: int) (opToken: go_int64) | ForgetOp (opTime: int) (opToken: go_int64)

fun debStep :: "debOp \<Rightarrow> Debouncer \<Rightarrow> bool \<times> Debouncer" where
  "debStep (TouchOp now k) d = ShouldTouch now k d"
| "debStep (ForgetOp now k) d = (False, Forget k d)"

text \<open>The specification: the last granted touch of every token, never evicted.\<close>

fun specStep :: "int \<Rightarrow> debOp \<Rightarrow> (go_int64 \<rightharpoonup> int) \<Rightarrow> bool \<times> (go_int64 \<rightharpoonup> int)" where
  "specStep w (TouchOp now k) m =
     (if (case m k of None \<Rightarrow> True | Some t \<Rightarrow> now - t \<ge> w) then (True, m(k \<mapsto> now)) else (False, m))"
| "specStep w (ForgetOp now k) m = (False, m(k := None))"

fun runOps :: "('op \<Rightarrow> 's \<Rightarrow> bool \<times> 's) \<Rightarrow> 'op list \<Rightarrow> 's \<Rightarrow> bool list" where
  "runOps step [] s = []"
| "runOps step (op # ops) s = (case step op s of (b, s') \<Rightarrow> b # runOps step ops s')"

text \<open>A simulation that holds at a time and is kept by every later operation gives equal answers.\<close>

locale timed_simulation =
  fixes stepC :: "'op \<Rightarrow> 'c \<Rightarrow> bool \<times> 'c" and stepA :: "'op \<Rightarrow> 'a \<Rightarrow> bool \<times> 'a"
    and time :: "'op \<Rightarrow> int" and sim :: "int \<Rightarrow> 'c \<Rightarrow> 'a \<Rightarrow> bool"
  assumes step_sim: "sim t c a \<Longrightarrow> t \<le> time op \<Longrightarrow>
    fst (stepC op c) = fst (stepA op a) \<and> sim (time op) (snd (stepC op c)) (snd (stepA op a))"
begin

lemma run_sim: "sim t c a \<Longrightarrow> sorted (t # map time ops) \<Longrightarrow> runOps stepC ops c = runOps stepA ops a"
proof (induction ops arbitrary: t c a)
  case (Cons op ops)
  then have "fst (stepC op c) = fst (stepA op a)" "sim (time op) (snd (stepC op c)) (snd (stepA op a))"
    using step_sim by auto
  then show ?case using Cons.IH [of "time op" "snd (stepC op c)" "snd (stepA op a)"] Cons.prems(2)
    by (simp add: case_prod_beta)
qed simp

end

definition debSim :: "int \<Rightarrow> int \<Rightarrow> Debouncer \<Rightarrow> (go_int64 \<rightharpoonup> int) \<Rightarrow> bool" where
  "debSim w now d m \<longleftrightarrow> window d = w \<and> distinct (map fst (last_touch d)) \<and>
     (\<forall>k. map_of (last_touch d) k = m k \<or> (map_of (last_touch d) k = None \<and> (\<exists>t. m k = Some t \<and> now - t \<ge> w)))"

lemma map_of_filter_time:
  "distinct (map fst xs) \<Longrightarrow> map_of (filter (\<lambda>(k, t). P t) xs) k = (case map_of xs k of None \<Rightarrow> None | Some t \<Rightarrow> if P t then Some t else None)"
  by (induction xs) (auto split: option.split simp: map_of_eq_None_iff image_iff)

lemma debSim_later: "debSim w t d m \<Longrightarrow> t \<le> now \<Longrightarrow> debSim w now d m"
  unfolding debSim_def by force

lemma debSim_evict: "debSim w now d m \<Longrightarrow> debSim w now (evictStaleLocked now d) m"
proof -
  assume s: "debSim w now d m"
  then have "distinct (map fst (last_touch d))" "window d = w" by (auto simp: debSim_def)
  moreover have "map_of (last_touch (evictStaleLocked now d)) k = m k \<or>
      (map_of (last_touch (evictStaleLocked now d)) k = None \<and> (\<exists>t. m k = Some t \<and> now - t \<ge> w))" for k
    using s calculation map_of_filter_time [of "last_touch d" "\<lambda>t. \<not> window d \<le> now - t" k]
    by (cases "map_of (last_touch d) k") (auto simp: evictStaleLocked_def debSim_def dest!: spec [of _ k])
  ultimately show ?thesis
    by (simp add: debSim_def evictStaleLocked_def distinct_map_filter)
qed

lemma debSim_update:
  "debSim w now d m \<Longrightarrow> debSim w now (d\<lparr>last_touch := AList.update k now (last_touch d)\<rparr>) (m(k \<mapsto> now))"
  by (auto simp: debSim_def distinct_update update_conv')

lemma ShouldTouch_sim:
  assumes "debSim w now d m"
  shows "fst (ShouldTouch now k d) = fst (specStep w (TouchOp now k) m) \<and>
    debSim w now (snd (ShouldTouch now k d)) (snd (specStep w (TouchOp now k) m))"
proof -
  let ?d = "d\<lparr>last_touch := AList.update k now (last_touch d)\<rparr>"
  have up: "debSim w now ?d (m(k \<mapsto> now))" "debSim w now (evictStaleLocked now ?d) (m(k \<mapsto> now))"
    using debSim_update [OF assms] debSim_evict by blast+
  show ?thesis
  proof (cases "map_of (last_touch d) k")
    case None
    then have "case m k of None \<Rightarrow> True | Some t \<Rightarrow> now - t \<ge> w" using assms by (auto simp: debSim_def dest!: spec [of _ k])
    then show ?thesis using None up by (simp add: ShouldTouch_def Let_def)
  next
    case (Some t)
    then have "m k = Some t" "window d = w" using assms by (auto simp: debSim_def dest!: spec [of _ k])
    then show ?thesis using Some up assms by (auto simp: ShouldTouch_def Let_def)
  qed
qed

lemma Forget_sim: "debSim w now d m \<Longrightarrow> debSim w now (Forget k d) (m(k := None))"
  by (auto simp: debSim_def Forget_def delete_conv' distinct_delete)

interpretation debounce: timed_simulation debStep "specStep w" opTime "debSim w" for w
proof
  fix t c and a :: "go_int64 \<rightharpoonup> int" and op :: debOp
  assume "debSim w t c a" "t \<le> opTime op"
  then have "debSim w (opTime op) c a" by (rule debSim_later)
  then show "fst (debStep op c) = fst (specStep w op a) \<and> debSim w (opTime op) (snd (debStep op c)) (snd (specStep w op a))"
    using ShouldTouch_sim Forget_sim by (cases op) auto
qed

text \<open>
  C36. The debouncer answers as if it remembered every token for ever: for operations in time order, a
  touch is granted exactly when the token's last granted touch (if any since it was forgotten) is at
  least a window old, so the sweep of old entries never lets an extra write through nor suppresses one.
\<close>

theorem debouncer_refines_unbounded_memory:
  assumes "sorted (map opTime ops)"
  shows "runOps debStep ops (NewDebouncer w) = runOps (specStep (window (NewDebouncer w))) ops Map.empty"
proof (cases ops)
  case (Cons op rest)
  then have "sorted (opTime op # map opTime ops)" using assms by simp
  moreover have "debSim (window (NewDebouncer w)) (opTime op) (NewDebouncer w) Map.empty"
    by (simp add: debSim_def NewDebouncer_def)
  ultimately show ?thesis using debounce.run_sim by blast
qed simp

theorem debouncer_refines_unbounded_memory_witness:
  "runOps debStep [TouchOp 0 7, TouchOp 5 7, TouchOp 12 7] (NewDebouncer 10) = [True, False, True]"
  using debouncer_refines_unbounded_memory [of "[TouchOp 0 7, TouchOp 5 7, TouchOp 12 7]" 10] by (simp add: NewDebouncer_def)

section \<open>Route prefixes fit the column\<close>

lemma cutoffBack_le: "cutoffBack out n \<le> n"
  by (induction out n rule: cutoffBack.induct) auto

text \<open>
  The route prefix of a request is never empty and never longer than the 64 bytes its column allows.
\<close>

theorem route_prefix_fits: "RoutePrefix tbl urlPath \<noteq> [] \<and> length (RoutePrefix tbl urlPath) \<le> 64"
  using cutoffBack_le by (auto simp: RoutePrefix_def Let_def not_less min_le_iff_disj)

end
