(* ===== verification/OutboundGuard.thy ===== *)
theory OutboundGuard
  imports GoNet
begin

text \<open>
  The guards on outbound requests and on redirects: \<^verbatim>\<open>src/internal/security/ssrf/ssrf.go\<close> and
  \<^verbatim>\<open>src/internal/security/openredirect/openredirect.go\<close>. The URL parser and the DNS resolver are arguments, so
  every statement holds for whatever they answer; a dialled connection is the address and port handed
  to the dialer.
\<close>

section \<open>Go's integer and host parsing\<close>

text \<open>\<^verbatim>\<open>strconv.Atoi\<close>: the value and whether it parsed; a failure yields 0 or the nearest 64-bit integer.\<close>

definition Atoi :: "string \<Rightarrow> int \<times> bool" where
  "Atoi s =
     (let neg = HasPrefix s ''-''; ds = (if neg \<or> HasPrefix s ''+'' then tl s else s) in
      if ds = [] \<or> \<not> list_all is_ascii_digit ds then (0, False)
      else let v = int (undecimal 0 ds) in
        if neg then (if v > 2 ^ 63 then (- (2 ^ 63), False) else (- v, True))
        else (if v \<ge> 2 ^ 63 then (2 ^ 63 - 1, False) else (v, True)))"

definition lastColon :: "string \<Rightarrow> (string \<times> string) option" where
  "lastColon s = (if CHR '':'' \<in> set s
     then Some (rev (tl (dropWhile (\<lambda>c. c \<noteq> CHR '':'') (rev s))), rev (takeWhile (\<lambda>c. c \<noteq> CHR '':'') (rev s)))
     else None)"

text \<open>\<^verbatim>\<open>net.SplitHostPort\<close>; \<open>None\<close> is any of its errors.\<close>

definition SplitHostPort :: "string \<Rightarrow> (string \<times> string) option" where
  "SplitHostPort s = (case lastColon s of None \<Rightarrow> None | Some (before, port) \<Rightarrow>
     if HasPrefix s ''['' then
       (if CHR '']'' \<notin> set s \<or> last before \<noteq> CHR '']'' \<or> CHR '']'' \<in> set (butlast (tl before)) \<or> length before < 2
           \<or> CHR ''['' \<in> set (tl s) \<or> CHR '']'' \<in> set port then None
        else Some (butlast (tl before), port))
     else if CHR '':'' \<in> set before \<or> CHR ''['' \<in> set s \<or> CHR '']'' \<in> set s then None
     else Some (before, port))"

section \<open>Configuration\<close>

record Config =
  AllowedSchemes :: "string list"
  AllowedPorts :: "int list"
  AllowPrivateNetworks :: bool
  AllowedHosts :: "string list"
  DialTimeout :: int
  RequestTimeout :: int

definition Default :: Config where
  "Default = \<lparr>AllowedSchemes = [''http'', ''https''], AllowedPorts = [80, 443, 8080, 8443], AllowPrivateNetworks = False,
     AllowedHosts = [], DialTimeout = 10 * 1000000000, RequestTimeout = 30 * 1000000000\<rparr>"

definition applyDefaults :: "Config \<Rightarrow> Config" where
  "applyDefaults c =
     c\<lparr>AllowedSchemes := (if AllowedSchemes c = [] then AllowedSchemes Default else AllowedSchemes c),
       AllowedPorts := (if AllowedPorts c = [] then AllowedPorts Default else AllowedPorts c),
       DialTimeout := (if DialTimeout c = 0 then DialTimeout Default else DialTimeout c),
       RequestTimeout := (if RequestTimeout c = 0 then RequestTimeout Default else RequestTimeout c)\<rparr>"

section \<open>Forbidden addresses\<close>

definition IsForbiddenIP :: "nat list \<Rightarrow> bool" where
  "IsForbiddenIP ip =
     (if ip = [] then True
      else if IsUnspecified ip \<or> IsLoopback ip \<or> IsLinkLocalUnicast ip \<or> IsLinkLocalMulticast ip
              \<or> IsInterfaceLocalMulticast ip \<or> IsMulticast ip then True
      else case To4 ip of
        Some ip4 \<Rightarrow>
          if ip4 ! 0 = 10 then True
          else if ip4 ! 0 = 172 \<and> ip4 ! 1 \<ge> 16 \<and> ip4 ! 1 \<le> 31 then True
          else if ip4 ! 0 = 192 \<and> ip4 ! 1 = 168 then True
          else if ip4 ! 0 = 100 \<and> ip4 ! 1 \<ge> 64 \<and> ip4 ! 1 \<le> 127 then True
          else if ip4 ! 0 = 169 \<and> ip4 ! 1 = 254 then True
          else if ip4 ! 0 = 0 then True
          else ip4 ! 0 = 255
      | None \<Rightarrow> length ip = 16 \<and> ip ! 0 div 2 = 126)"

fun equalFold :: "string \<Rightarrow> string \<Rightarrow> bool" where
  "equalFold [] [] = True"
| "equalFold (a # as) (b # bs) = (ascii_lower a = ascii_lower b \<and> equalFold as bs)"
| "equalFold _ _ = False"

definition stringSetContains :: "string list \<Rightarrow> string \<Rightarrow> bool" where
  "stringSetContains xs v = list_ex (\<lambda>s. s = v) xs"

definition stringSetContainsFold :: "string list \<Rightarrow> string \<Rightarrow> bool" where
  "stringSetContainsFold xs v = list_ex (\<lambda>s. equalFold s v) xs"

definition intSetContains :: "int list \<Rightarrow> int \<Rightarrow> bool" where
  "intSetContains xs v = list_ex (\<lambda>s. s = v) xs"

section \<open>Validation and dialling\<close>

record URL =
  Scheme :: string
  Host :: string
  Path :: string
  Hostname :: string
  Port :: string

datatype ssrf_reason =
    MalformedURL | SchemeNotAllowed string | MissingHost | InvalidPort | PortNotAllowed string
  | ForbiddenIP "nat list" | DnsResolve string | NoIPs | SplitError

definition portText :: "URL \<Rightarrow> string" where
  "portText u = (if Port u \<noteq> '''' then Port u else if Scheme u = ''http'' then ''80'' else if Scheme u = ''https'' then ''443'' else '''')"

definition Validate :: "(string \<Rightarrow> URL option) \<Rightarrow> Config \<Rightarrow> string \<Rightarrow> ssrf_reason option" where
  "Validate parse c rawURL =
     (let cfg = applyDefaults c in
      case parse rawURL of None \<Rightarrow> Some MalformedURL | Some u \<Rightarrow>
      if \<not> stringSetContains (AllowedSchemes cfg) (Scheme u) then Some (SchemeNotAllowed (Scheme u))
      else if Hostname u = '''' then Some MissingHost
      else case Atoi (portText u) of (pn, ok) \<Rightarrow>
        if \<not> ok \<or> pn \<le> 0 \<or> pn > 65535 then Some InvalidPort
        else if \<not> intSetContains (AllowedPorts cfg) pn then Some (PortNotAllowed (portText u))
        else None)"

fun firstForbidden :: "nat list list \<Rightarrow> nat list option" where
  "firstForbidden [] = None"
| "firstForbidden (ip # ips) = (if IsForbiddenIP ip then Some ip else firstForbidden ips)"

definition ValidateWithResolve ::
  "(string \<Rightarrow> URL option) \<Rightarrow> (string \<Rightarrow> string + nat list list) \<Rightarrow> Config \<Rightarrow> string \<Rightarrow> ssrf_reason option" where
  "ValidateWithResolve parse lookupIP c rawURL =
     (case Validate parse c rawURL of Some e \<Rightarrow> Some e | None \<Rightarrow>
      let cfg = applyDefaults c in
      case parse rawURL of None \<Rightarrow> Some MalformedURL | Some u \<Rightarrow>
      if stringSetContainsFold (AllowedHosts cfg) (Hostname u) then None
      else if AllowPrivateNetworks cfg then None
      else case ParseIP (Hostname u) of
        Some ip \<Rightarrow> if IsForbiddenIP ip then Some (ForbiddenIP ip) else None
      | None \<Rightarrow>
          (case lookupIP (Hostname u) of Inl e \<Rightarrow> Some (DnsResolve e) | Inr ips \<Rightarrow>
           if ips = [] then Some NoIPs else map_option ForbiddenIP (firstForbidden ips)))"

definition dialContext :: "(string \<Rightarrow> string + nat list list) \<Rightarrow> Config \<Rightarrow> string \<Rightarrow> ssrf_reason + nat list \<times> string" where
  "dialContext lookupIP c addr =
     (case SplitHostPort addr of None \<Rightarrow> Inl SplitError | Some (host, port) \<Rightarrow>
      if \<not> intSetContains (AllowedPorts c) (fst (Atoi port)) then Inl (PortNotAllowed port)
      else let hostAllowed = stringSetContainsFold (AllowedHosts c) host in
        case lookupIP host of Inl e \<Rightarrow> Inl (DnsResolve e) | Inr ips \<Rightarrow>
        if ips = [] then Inl NoIPs
        else case (if \<not> hostAllowed \<and> \<not> AllowPrivateNetworks c then firstForbidden ips else None) of
          Some ip \<Rightarrow> Inl (ForbiddenIP ip)
        | None \<Rightarrow> Inr (hd ips, port))"

text \<open>The client: its transport dials with the defaults applied and never follows redirects.\<close>

definition clientDial :: "(string \<Rightarrow> string + nat list list) \<Rightarrow> Config \<Rightarrow> string \<Rightarrow> ssrf_reason + nat list \<times> string" where
  "clientDial lookupIP c addr = dialContext lookupIP (applyDefaults c) addr"

section \<open>Redirect targets\<close>

definition Safe :: "(string \<Rightarrow> URL option) \<Rightarrow> string list \<Rightarrow> string \<Rightarrow> bool" where
  "Safe parse hosts candidate =
     (if candidate = '''' then False
      else if HasPrefix candidate ''//'' then False
      else if HasPrefix candidate [CHR ''/'', char_of (92 :: nat)] then False
      else case parse candidate of None \<Rightarrow> False | Some u \<Rightarrow>
      if Scheme u = '''' \<and> Host u = '''' then HasPrefix (Path u) ''/''
      else if Scheme u \<noteq> ''http'' \<and> Scheme u \<noteq> ''https'' then False
      else if Hostname u = '''' then False
      else list_ex (\<lambda>h. equalFold h (Hostname u)) hosts)"

definition SafeOr :: "(string \<Rightarrow> URL option) \<Rightarrow> string list \<Rightarrow> string \<Rightarrow> string \<Rightarrow> string" where
  "SafeOr parse hosts candidate fallback = (if Safe parse hosts candidate then candidate else fallback)"

section \<open>Which addresses are forbidden\<close>

text \<open>A network of \<open>n\<close> leading bits, on addresses read as one number of \<open>w\<close> bits.\<close>

definition inNet :: "nat \<Rightarrow> nat \<times> nat \<Rightarrow> nat \<Rightarrow> bool" where
  "inNet w net v \<longleftrightarrow> v div 2 ^ (w - snd net) = fst net div 2 ^ (w - snd net)"

definition ipValue :: "nat list \<Rightarrow> nat" where
  "ipValue bs = foldl (\<lambda>a b. 256 * a + b) 0 bs"

definition bytesOK :: "nat list \<Rightarrow> bool" where
  "bytesOK ip \<longleftrightarrow> list_all (\<lambda>b. b < 256) ip"

definition blocked4 :: "(nat \<times> nat) list" where
  "blocked4 =
     [(ipValue [0, 0, 0, 0], 8), (ipValue [10, 0, 0, 0], 8), (ipValue [100, 64, 0, 0], 10), (ipValue [127, 0, 0, 0], 8),
      (ipValue [169, 254, 0, 0], 16), (ipValue [172, 16, 0, 0], 12), (ipValue [192, 168, 0, 0], 16),
      (ipValue [224, 0, 0, 0], 4), (ipValue [255, 0, 0, 0], 8)]"

lemma v4_prefixes:
  assumes "a < 256" "b < 256" "c < 256" "d < 256"
  shows "ipValue [a, b, c, d] div 2 ^ 24 = a" "ipValue [a, b, c, d] div 2 ^ 28 = a div 16"
    "ipValue [a, b, c, d] div 2 ^ 16 = 256 * a + b" "ipValue [a, b, c, d] div 2 ^ 20 = 16 * a + b div 16"
    "ipValue [a, b, c, d] div 2 ^ 22 = 4 * a + b div 64"
proof -
  let ?v = "ipValue [a, b, c, d]"
  have v: "?v = (256 * a + b) * 65536 + (256 * c + d)" by (simp add: ipValue_def)
  have lo: "256 * c + d < 65536" using assms by simp
  have d16: "?v div 65536 = 256 * a + b" unfolding v using lo by simp
  then show "?v div 2 ^ 16 = 256 * a + b" by simp
  have "?v div 2 ^ 24 = (256 * a + b) div 256" using d16 div_mult2_eq [of ?v 65536 256] by simp
  then show "?v div 2 ^ 24 = a" using assms(2) by simp
  then show "?v div 2 ^ 28 = a div 16" using div_mult2_eq [of ?v "2 ^ 24" 16] by simp
  have "?v div 2 ^ 20 = (16 * (16 * a) + b) div 16" using d16 div_mult2_eq [of ?v 65536 16] by simp
  then show "?v div 2 ^ 20 = 16 * a + b div 16" by simp
  have "?v div 2 ^ 22 = (64 * (4 * a) + b) div 64" using d16 div_mult2_eq [of ?v 65536 64] by simp
  then show "?v div 2 ^ 22 = 4 * a + b div 64" by simp
qed

lemma digits_unique: "b < m \<Longrightarrow> y < m \<Longrightarrow> m * a + b = m * x + y \<longleftrightarrow> a = x \<and> b = (y :: nat)"
proof -
  assume "b < m" "y < m"
  then have "(m * a + b) div m = a" "(m * a + b) mod m = b" "(m * x + y) div m = x" "(m * x + y) mod m = y" by simp_all
  then show ?thesis by metis
qed

lemma div_eq_1: "0 < m \<Longrightarrow> b div m = Suc 0 \<longleftrightarrow> m \<le> b \<and> b < 2 * (m :: nat)"
proof
  assume "0 < m" "b div m = Suc 0"
  then have "m + b mod m = b" "b mod m < m" using div_mult_mod_eq [of b m] by simp_all
  then show "m \<le> b \<and> b < 2 * m" by linarith
next
  assume "m \<le> b \<and> b < 2 * m"
  then show "b div m = Suc 0" by (intro div_nat_eqI) (auto simp: mult_2)
qed

lemma forbidden_v4:
  assumes "a < 256" "b < 256" "c < 256" "d < 256"
  shows "list_ex (\<lambda>n. inNet 32 n (ipValue [a, b, c, d])) blocked4 \<longleftrightarrow>
    a \<in> {0, 10, 127, 255} \<or> (a = 100 \<and> 64 \<le> b \<and> b \<le> 127) \<or> (a = 169 \<and> b = 254) \<or> (a = 172 \<and> 16 \<le> b \<and> b \<le> 31) \<or>
    (a = 192 \<and> b = 168) \<or> a div 16 = 14"
proof -
  note p = v4_prefixes [OF assms]
  have nets: "ipValue [x, y, 0, 0] div 2 ^ 24 = x" "ipValue [x, y, 0, 0] div 2 ^ 28 = x div 16"
      "ipValue [x, y, 0, 0] div 2 ^ 16 = 256 * x + y" "ipValue [x, y, 0, 0] div 2 ^ 20 = 16 * x + y div 16"
      "ipValue [x, y, 0, 0] div 2 ^ 22 = 4 * x + y div 64" if "x < 256" "y < 256" for x y
    using v4_prefixes [OF that, of 0 0] by simp_all
  have "inNet 32 (ipValue [x, 0, 0, 0], 8) (ipValue [a, b, c, d]) \<longleftrightarrow> a = x" if "x < 256" for x
    unfolding inNet_def using p(1) nets(1) [OF that, of 0] by simp
  moreover have "inNet 32 (ipValue [x, y, 0, 0], 16) (ipValue [a, b, c, d]) \<longleftrightarrow> a = x \<and> b = y" if "x < 256" "y < 256" for x y
  proof -
    have "inNet 32 (ipValue [x, y, 0, 0], 16) (ipValue [a, b, c, d]) \<longleftrightarrow> 256 * a + b = 256 * x + y"
      unfolding inNet_def using p(3) nets(3) [OF that] by simp
    also have "\<dots> \<longleftrightarrow> a = x \<and> b = y" using assms(2) that(2) by (rule digits_unique)
    finally show ?thesis .
  qed
  moreover have "inNet 32 (ipValue [224, 0, 0, 0], 4) (ipValue [a, b, c, d]) \<longleftrightarrow> a div 16 = 14"
    unfolding inNet_def using p(2) nets(2) [of 224 0] by simp
  moreover have "inNet 32 (ipValue [100, 64, 0, 0], 10) (ipValue [a, b, c, d]) \<longleftrightarrow> a = 100 \<and> 64 \<le> b \<and> b \<le> 127"
  proof -
    have "inNet 32 (ipValue [100, 64, 0, 0], 10) (ipValue [a, b, c, d]) \<longleftrightarrow> 4 * a + b div 64 = 401"
      unfolding inNet_def using p(5) nets(5) [of 100 64] by simp
    also have "\<dots> \<longleftrightarrow> a = 100 \<and> b div 64 = 1" using digits_unique [of "b div 64" 4 1 a 100] assms(2) by simp
    also have "b div 64 = 1 \<longleftrightarrow> 64 \<le> b \<and> b \<le> 127" using div_eq_1 [of 64 b] by auto
    finally show ?thesis .
  qed
  moreover have "inNet 32 (ipValue [172, 16, 0, 0], 12) (ipValue [a, b, c, d]) \<longleftrightarrow> a = 172 \<and> 16 \<le> b \<and> b \<le> 31"
  proof -
    have "inNet 32 (ipValue [172, 16, 0, 0], 12) (ipValue [a, b, c, d]) \<longleftrightarrow> 16 * a + b div 16 = 2753"
      unfolding inNet_def using p(4) nets(4) [of 172 16] by simp
    also have "\<dots> \<longleftrightarrow> a = 172 \<and> b div 16 = 1" using digits_unique [of "b div 16" 16 1 a 172] assms(2) by simp
    also have "b div 16 = 1 \<longleftrightarrow> 16 \<le> b \<and> b \<le> 31" using div_eq_1 [of 16 b] by auto
    finally show ?thesis .
  qed
  ultimately show ?thesis unfolding blocked4_def by auto
qed

lemma IsForbiddenIP_v4:
  assumes "To4 ip = Some [a, b, c, d]"
  shows "IsForbiddenIP ip \<longleftrightarrow>
    a \<in> {0, 10, 127, 255} \<or> (a = 100 \<and> 64 \<le> b \<and> b \<le> 127) \<or> (a = 169 \<and> b = 254) \<or> (a = 172 \<and> 16 \<le> b \<and> b \<le> 31) \<or>
    (a = 192 \<and> b = 168) \<or> a div 16 = 14"
proof -
  have ip: "ip = [a, b, c, d] \<or> (isMapped ip \<and> drop 12 ip = [a, b, c, d])" using assms by (auto simp: To4_def split: if_split_asm)
  have "To16 ip = replicate 10 0 @ [255, 255] @ [a, b, c, d]"
  proof (cases "length ip = 4")
    case True
    then show ?thesis using ip by (auto simp: To16_def isMapped_def)
  next
    case False
    then have "isMapped ip" "drop 12 ip = [a, b, c, d]" using ip by auto
    then show ?thesis using False append_take_drop_id [of 12 ip] by (simp add: To16_def isMapped_def)
  qed
  then have u: "IsUnspecified ip \<longleftrightarrow> [a, b, c, d] = [0, 0, 0, 0]"
    by (auto simp: IsUnspecified_def IP_Equal_def To16_def numeral_eq_Suc)
  have i: "\<not> IsInterfaceLocalMulticast ip"
  proof (cases "isMapped ip")
    case True
    then have "take 12 ip ! 0 = 0" by (simp add: isMapped_def nth_append)
    then have "ip ! 0 = 0" by simp
    then show ?thesis by (simp add: IsInterfaceLocalMulticast_def)
  qed (use ip in \<open>auto simp: IsInterfaceLocalMulticast_def\<close>)
  have "ip \<noteq> []" using ip by (auto simp: isMapped_def)
  then show ?thesis using assms u i
    by (auto simp: IsForbiddenIP_def IsLoopback_def IsLinkLocalUnicast_def IsLinkLocalMulticast_def IsMulticast_def)
qed

section \<open>IPv6 networks\<close>

lemma ipValue_acc: "foldl (\<lambda>a b. 256 * a + b) x bs = x * 256 ^ length bs + ipValue bs"
proof (induction bs arbitrary: x)
  case (Cons b bs)
  show ?case using Cons [of "256 * x + b"] Cons [of b] by (simp add: ipValue_def algebra_simps)
qed (simp add: ipValue_def)

lemma ipValue_Cons: "ipValue (b # bs) = b * 256 ^ length bs + ipValue bs"
  using ipValue_acc [of b bs] by (simp add: ipValue_def)

lemma ipValue_less: "bytesOK bs \<Longrightarrow> ipValue bs < 256 ^ length bs"
proof (induction bs)
  case (Cons b bs)
  then have "b * 256 ^ length bs + ipValue bs < (b + 1) * 256 ^ length bs" by (simp add: bytesOK_def)
  also have "\<dots> \<le> 256 * 256 ^ length bs" using Cons.prems by (intro mult_right_mono) (auto simp: bytesOK_def)
  finally show ?case by (simp add: ipValue_Cons)
qed (simp add: ipValue_def)

lemma ipValue_inj: "bytesOK xs \<Longrightarrow> bytesOK ys \<Longrightarrow> length xs = length ys \<Longrightarrow> ipValue xs = ipValue ys \<longleftrightarrow> xs = ys"
proof (induction xs arbitrary: ys)
  case (Cons x xs)
  obtain y zs where y: "ys = y # zs" using Cons.prems(3) by (cases ys) auto
  have l: "ipValue xs < 256 ^ length xs" "ipValue zs < 256 ^ length xs"
    using ipValue_less [of xs] ipValue_less [of zs] Cons.prems y by (auto simp: bytesOK_def)
  have "ipValue (x # xs) div 256 ^ length xs = x" "ipValue ys div 256 ^ length xs = y"
    using l Cons.prems(3) y by (simp_all add: ipValue_Cons)
  moreover have "ipValue (x # xs) mod 256 ^ length xs = ipValue xs" "ipValue ys mod 256 ^ length xs = ipValue zs"
    using l Cons.prems(3) y by (simp_all add: ipValue_Cons)
  ultimately have "x = y" "ipValue xs = ipValue zs" if "ipValue (x # xs) = ipValue ys"
    using that by metis+
  then have "ipValue (x # xs) = ipValue ys \<longleftrightarrow> x = y \<and> ipValue xs = ipValue zs"
    using Cons.prems(3) y by (auto simp: ipValue_Cons)
  then show ?case using Cons.IH [of zs] Cons.prems y by (auto simp: bytesOK_def)
qed simp

definition blocked6 :: "(nat \<times> nat) list" where
  "blocked6 = [(0, 128), (1, 128), (252 * 2 ^ 120, 7), (254 * 2 ^ 120 + 128 * 2 ^ 112, 10), (255 * 2 ^ 120, 8)]"

lemma v6_prefixes:
  assumes "length rest = 14" "bytesOK (a # b # rest)"
  shows "ipValue (a # b # rest) div 2 ^ 120 = a" "ipValue (a # b # rest) div 2 ^ 121 = a div 2"
    "ipValue (a # b # rest) div 2 ^ 118 = 4 * a + b div 64"
proof -
  let ?v = "ipValue (a # b # rest)"
  have ok: "b < 256" "bytesOK rest" using assms(2) by (auto simp: bytesOK_def)
  have "ipValue rest < 2 ^ 112" using ipValue_less [OF ok(2)] assms(1) by simp
  moreover have v: "?v = (256 * a + b) * 2 ^ 112 + ipValue rest" using assms(1) by (simp add: ipValue_Cons)
  ultimately have d: "?v div 2 ^ 112 = 256 * a + b" by simp
  have "?v div 2 ^ 120 = (256 * a + b) div 256" using d div_mult2_eq [of ?v "2 ^ 112" 256] by simp
  then show a: "?v div 2 ^ 120 = a" using ok(1) by simp
  show "?v div 2 ^ 121 = a div 2" using a div_mult2_eq [of ?v "2 ^ 120" 2] by simp
  have "?v div 2 ^ 118 = (64 * (4 * a) + b) div 64" using d div_mult2_eq [of ?v "2 ^ 112" 64] by simp
  then show "?v div 2 ^ 118 = 4 * a + b div 64" by simp
qed

lemma forbidden_v6:
  assumes "length ip = 16" "bytesOK ip" "To4 ip = None"
  shows "IsForbiddenIP ip \<longleftrightarrow> list_ex (\<lambda>n. inNet 128 n (ipValue ip)) blocked6"
proof -
  obtain a b rest where ip: "ip = a # b # rest" "length rest = 14"
    using assms(1) by (cases ip; cases "tl ip") auto
  have ok: "a < 256" "b < 256" using assms(2) ip by (auto simp: bytesOK_def)
  note p = v6_prefixes [OF ip(2) assms(2) [unfolded ip(1)], folded ip(1)]
  have eq: "ip = zs \<longleftrightarrow> ipValue ip = ipValue zs" if "length zs = 16" "bytesOK zs" for zs
    using ipValue_inj [OF assms(2) that(2)] assms(1) that(1) by simp
  have z: "ipValue (replicate n 0) = 0" "ipValue (replicate n 0 @ [1]) = 1" for n
    by (induction n) (simp_all add: ipValue_Cons, simp_all add: ipValue_def)
  have u: "IsUnspecified ip \<longleftrightarrow> ipValue ip = 0"
  proof -
    have "bytesOK (replicate 16 0)" by (simp add: bytesOK_def list_all_iff)
    then have "ip = replicate 16 0 \<longleftrightarrow> ipValue ip = 0" using eq z(1) by simp
    moreover have "take 12 ip \<noteq> replicate 10 0 @ [255, 255]" using assms(1,3) by (auto simp: To4_def isMapped_def split: if_split_asm)
    then have "ip \<noteq> replicate 10 0 @ [255, 255, 0, 0, 0, 0]" by auto
    ultimately show ?thesis using assms(1) by (simp add: IsUnspecified_def IP_Equal_def To16_def)
  qed
  have l: "IsLoopback ip \<longleftrightarrow> ipValue ip = 1"
    using assms(3) eq [of "replicate 15 0 @ [1]"] z(2) [of 15] by (simp add: IsLoopback_def bytesOK_def list_all_iff)
  have "IsForbiddenIP ip \<longleftrightarrow> ipValue ip = 0 \<or> ipValue ip = 1 \<or> a div 2 = 126 \<or> (a = 254 \<and> b div 64 = 2) \<or> a = 255"
    using assms(1,3) ip(1) u l
    by (auto simp: IsForbiddenIP_def IsLinkLocalUnicast_def IsLinkLocalMulticast_def IsMulticast_def IsInterfaceLocalMulticast_def)
  moreover have "inNet 128 (252 * 2 ^ 120, 7) (ipValue ip) \<longleftrightarrow> a div 2 = 126" unfolding inNet_def using p(2) by simp
  moreover have "inNet 128 (255 * 2 ^ 120, 8) (ipValue ip) \<longleftrightarrow> a = 255" unfolding inNet_def using p(1) by simp
  moreover have "inNet 128 (254 * 2 ^ 120 + 128 * 2 ^ 112, 10) (ipValue ip) \<longleftrightarrow> 4 * a + b div 64 = 1018"
    unfolding inNet_def using p(3) by simp
  moreover have "4 * a + b div 64 = 1018 \<longleftrightarrow> a = 254 \<and> b div 64 = 2" using digits_unique [of "b div 64" 4 2 a 254] ok by simp
  moreover have "inNet 128 (n, 128) (ipValue ip) \<longleftrightarrow> ipValue ip = n" for n by (simp add: inNet_def)
  ultimately show ?thesis by (simp add: blocked6_def disj_ac)
qed

text \<open>
  C39. An address is refused exactly when it lies in one of the listed networks: for IPv4 and for
  IPv4 addresses written as IPv6, the unspecified, private, carrier-grade NAT, loopback, link-local,
  multicast and broadcast networks; for other IPv6 addresses the unspecified and loopback addresses,
  unique-local, link-local and multicast ones.
\<close>

theorem forbidden_addresses_are_the_blocked_networks:
  assumes "bytesOK ip" "length ip = 4 \<or> length ip = 16"
  shows "IsForbiddenIP ip \<longleftrightarrow> (case To4 ip of
    Some ip4 \<Rightarrow> list_ex (\<lambda>n. inNet 32 n (ipValue ip4)) blocked4
  | None \<Rightarrow> list_ex (\<lambda>n. inNet 128 n (ipValue ip)) blocked6)"
proof (cases "To4 ip")
  case None
  then have "length ip = 16" using assms(2) by (auto simp: To4_def)
  then show ?thesis using forbidden_v6 [OF _ assms(1) None] None by simp
next
  case (Some ip4)
  have ok4: "bytesOK ip4" "length ip4 = 4"
    using Some assms(1) by (auto simp: To4_def isMapped_def bytesOK_def list_all_iff dest: in_set_dropD split: if_split_asm)
  then obtain a b c d where i4: "ip4 = [a, b, c, d]" by (auto simp: numeral_eq_Suc length_Suc_conv)
  then show ?thesis using Some IsForbiddenIP_v4 [of ip a b c d] forbidden_v4 [of a b c d] ok4(1) by (simp add: bytesOK_def)
qed

theorem forbidden_addresses_are_the_blocked_networks_witness:
  "IsForbiddenIP [172, 31, 0, 1] \<and> \<not> IsForbiddenIP [172, 32, 0, 1]"
  using forbidden_addresses_are_the_blocked_networks [of "[172, 31, 0, 1]"] forbidden_addresses_are_the_blocked_networks [of "[172, 32, 0, 1]"]
  by (simp add: bytesOK_def To4_def blocked4_def inNet_def ipValue_def)


section \<open>Dialled connections\<close>

lemma firstForbidden_None: "firstForbidden ips = None \<longleftrightarrow> (\<forall>ip \<in> set ips. \<not> IsForbiddenIP ip)"
  by (induction ips) auto

text \<open>
  Whatever the resolver answers, and however that differs from an earlier answer, a client under
  the guard connects only to an allowed port and to an address of the very resolution it checked; unless
  the operator allow-listed the host or opened private networks, no address of that resolution is
  forbidden. So a host name cannot be rebound to an internal address between check and connection.
\<close>

theorem dialled_address_was_checked:
  assumes "clientDial lookupIP c addr = Inr (ip, port)"
  shows "\<exists>host ips. SplitHostPort addr = Some (host, port) \<and> lookupIP host = Inr ips \<and> ip \<in> set ips \<and>
    fst (Atoi port) \<in> set (AllowedPorts (applyDefaults c)) \<and>
    (stringSetContainsFold (AllowedHosts c) host \<or> AllowPrivateNetworks c \<or> (\<nexists>x. x \<in> set ips \<and> IsForbiddenIP x))"
proof -
  let ?c = "applyDefaults c"
  have hosts: "AllowedHosts ?c = AllowedHosts c" "AllowPrivateNetworks ?c = AllowPrivateNetworks c" by (simp_all add: applyDefaults_def)
  obtain host ips where d: "SplitHostPort addr = Some (host, port)" "intSetContains (AllowedPorts ?c) (fst (Atoi port))"
      "lookupIP host = Inr ips" "ips \<noteq> []" "ip = hd ips"
      "(if \<not> stringSetContainsFold (AllowedHosts ?c) host \<and> \<not> AllowPrivateNetworks ?c then firstForbidden ips else None) = None"
    using assms unfolding clientDial_def dialContext_def Let_def
    by (auto split: option.split_asm prod.split_asm if_split_asm sum.split_asm)
  then show ?thesis using hosts firstForbidden_None [of ips]
    by (auto simp: intSetContains_def list_ex_iff split: if_split_asm)
qed

theorem dialled_address_was_checked_witness:
  "\<exists>host ips. SplitHostPort ''hooks.test:443'' = Some (host, ''443'') \<and> ips = [[93, 184, 216, 34]] \<and> (\<nexists>x. x \<in> set ips \<and> IsForbiddenIP x)"
proof -
  have s: "SplitHostPort ''hooks.test:443'' = Some (''hooks.test'', ''443'')" by (simp add: SplitHostPort_def lastColon_def)
  have f: "\<not> IsForbiddenIP [93, 184, 216, 34]" using IsForbiddenIP_v4 [of "[93, 184, 216, 34]"] by (simp add: To4_def)
  have "clientDial (\<lambda>_. Inr [[93, 184, 216, 34]]) Default ''hooks.test:443'' = Inr ([93, 184, 216, 34], ''443'')"
    by (simp add: clientDial_def dialContext_def s f Default_def applyDefaults_def intSetContains_def Atoi_def is_ascii_digit_def less_eq_char_def Let_def)
  from dialled_address_was_checked [OF this] show ?thesis
    using s by (auto simp: Default_def stringSetContainsFold_def)
qed

text \<open>
  A URL accepted with resolution has an allowed scheme, a host and an allowed port between 1 and 65535,
  and either its host is exempt or no address it stands for, literally or by resolution, is forbidden.
\<close>

theorem resolved_url_is_admissible:
  assumes "ValidateWithResolve parse lookupIP c rawURL = None"
  shows "\<exists>u pn. parse rawURL = Some u \<and> Scheme u \<in> set (AllowedSchemes (applyDefaults c)) \<and> Hostname u \<noteq> '''' \<and>
    Atoi (portText u) = (pn, True) \<and> 1 \<le> pn \<and> pn \<le> 65535 \<and> pn \<in> set (AllowedPorts (applyDefaults c)) \<and>
    (stringSetContainsFold (AllowedHosts c) (Hostname u) \<or> AllowPrivateNetworks c \<or>
     (case ParseIP (Hostname u) of Some ip \<Rightarrow> \<not> IsForbiddenIP ip
      | None \<Rightarrow> \<exists>ips. lookupIP (Hostname u) = Inr ips \<and> ips \<noteq> [] \<and> (\<nexists>x. x \<in> set ips \<and> IsForbiddenIP x)))"
proof -
  have hosts: "AllowedHosts (applyDefaults c) = AllowedHosts c" "AllowPrivateNetworks (applyDefaults c) = AllowPrivateNetworks c"
    by (simp_all add: applyDefaults_def)
  have v: "Validate parse c rawURL = None" using assms by (auto simp: ValidateWithResolve_def split: option.split_asm)
  then obtain u pn where u: "parse rawURL = Some u" "stringSetContains (AllowedSchemes (applyDefaults c)) (Scheme u)" "Hostname u \<noteq> ''''"
      "Atoi (portText u) = (pn, True)" "\<not> pn \<le> 0" "\<not> pn > 65535" "intSetContains (AllowedPorts (applyDefaults c)) pn"
    by (auto simp: Validate_def Let_def split: option.split_asm if_split_asm prod.split_asm)
  have "stringSetContainsFold (AllowedHosts c) (Hostname u) \<or> AllowPrivateNetworks c \<or>
     (case ParseIP (Hostname u) of Some ip \<Rightarrow> \<not> IsForbiddenIP ip
      | None \<Rightarrow> \<exists>ips. lookupIP (Hostname u) = Inr ips \<and> ips \<noteq> [] \<and> (\<nexists>x. x \<in> set ips \<and> IsForbiddenIP x))"
    using assms v u(1) hosts firstForbidden_None
    by (auto simp: ValidateWithResolve_def Let_def split: if_split_asm option.split_asm sum.split_asm option.split)
  then show ?thesis using u by (auto simp: stringSetContains_def intSetContains_def list_ex_iff)
qed

section \<open>Redirects\<close>

text \<open>
  A redirect goes to the fallback, to a path on this host, or to an http(s) URL on an allow-listed
  host: never to a protocol-relative target, written with slashes or with a backslash.
\<close>

theorem redirect_stays_on_allowed_hosts:
  assumes "SafeOr parse hosts candidate fallback = t" "t \<noteq> fallback"
  shows "\<not> HasPrefix t ''//'' \<and> \<not> HasPrefix t [CHR ''/'', char_of (92 :: nat)] \<and>
    (\<exists>u. parse t = Some u \<and>
      ((Scheme u = '''' \<and> Host u = '''' \<and> HasPrefix (Path u) ''/'') \<or>
       (Scheme u \<in> {''http'', ''https''} \<and> Hostname u \<noteq> '''' \<and> (\<exists>h \<in> set hosts. equalFold h (Hostname u)))))"
  using assms by (auto simp: SafeOr_def Safe_def list_ex_iff split: if_split_asm option.split_asm)

end
