(* ===== verification/CodeOwners.thy ===== *)
theory CodeOwners
  imports GoPath
begin

text \<open>
  CODEOWNERS files (\<^verbatim>\<open>src/internal/repos/codeowners/codeowners.go\<close>): finding, parsing and matching. A compiled
  pattern is kept as its parts: how its prefix anchors it, the tokens of its body and whether it ends
  with the optional directory tail. Matching works on runes, as Go's regular expressions do; the
  contents of the repository are an argument.
\<close>

section \<open>Patterns\<close>

datatype coTok = CoRune nat | CoOne | CoSeg | CoAny

text \<open>The prefixes \<^verbatim>\<open>^\<close>, \<^verbatim>\<open>(?:^|.*/)\<close> and \<^verbatim>\<open>(?:^|.*/)?\<close>.\<close>

datatype coPrefix = CoStart | CoAnyDir | CoOptDir

record coRegex =
  rePrefix :: coPrefix
  reBody :: "coTok list"
  reDirTail :: bool

abbreviation star :: char where
  "star \<equiv> CHR ''*''"

text \<open>A literal byte is written as the rune with that number.\<close>

fun globRegex :: "string \<Rightarrow> coTok list" where
  "globRegex [] = []"
| "globRegex (ch # rest) =
     (if ch = star
      then (case rest of
              [] \<Rightarrow> CoSeg # globRegex []
            | c2 # rest' \<Rightarrow> if c2 = star then CoAny # globRegex rest' else CoSeg # globRegex (c2 # rest'))
      else if ch = CHR ''?'' then CoOne # globRegex rest
      else CoRune (code ch) # globRegex rest)"

definition suffixSlash :: "string \<Rightarrow> string" where
  "suffixSlash s = (if HasSuffix s ''/'' then ''/'' else '''')"

definition slashes :: "string \<Rightarrow> string" where
  "slashes s = map (\<lambda>c. if code c = 92 then CHR ''/'' else c) s"

definition trimSlash :: "string \<Rightarrow> string" where
  "trimSlash s = rev (dropWhile (\<lambda>c. c = CHR ''/'') (rev (dropWhile (\<lambda>c. c = CHR ''/'') s)))"

definition normalizePattern :: "string \<Rightarrow> string" where
  "normalizePattern pattern = (let p = slashes pattern in
     if HasPrefix p ''/'' then ''/'' @ trimSlash (Clean (TrimPrefix p ''/'')) @ suffixSlash p
     else trimSlash (Clean p) @ suffixSlash p)"

definition normalizePath :: "string \<Rightarrow> string" where
  "normalizePath filePath = trimSlash (Clean (slashes filePath))"

definition compilePattern :: "string \<Rightarrow> coRegex option" where
  "compilePattern pattern =
     (let p0 = normalizePattern pattern; dirOnly = HasSuffix p0 ''/''; p1 = TrimSuffix p0 ''/'';
          anchored = HasPrefix p1 ''/''; p = TrimPrefix p1 ''/'' in
      if p = '''' then None
      else Some \<lparr>rePrefix = (if anchored then CoStart else if \<not> Contains p ''/'' then CoAnyDir else CoOptDir),
                 reBody = globRegex p, reDirTail = dirOnly\<rparr>)"

definition validatePattern :: "string \<Rightarrow> string option" where
  "validatePattern pattern =
     (if pattern = '''' then Some ''empty pattern''
      else if HasPrefix pattern ''!'' then Some ''negation patterns are not supported''
      else if HasPrefix pattern ''#'' then Some ''comment patterns are not supported''
      else if CHR ''['' \<in> set pattern \<or> CHR '']'' \<in> set pattern then Some ''character ranges are not supported''
      else None)"

section \<open>Matching\<close>

text \<open>The body and the tail from a position to the end of the text.\<close>

fun coMatch :: "coTok list \<Rightarrow> bool \<Rightarrow> nat list \<Rightarrow> bool" where
  "coMatch [] tail rs = (rs = [] \<or> (tail \<and> hd rs = 47 \<and> list_all (\<lambda>r. r \<noteq> 10) (tl rs)))"
| "coMatch (CoRune c # ts) tail [] = False"
| "coMatch (CoRune c # ts) tail (r # rs) = (r = c \<and> coMatch ts tail rs)"
| "coMatch (CoOne # ts) tail [] = False"
| "coMatch (CoOne # ts) tail (r # rs) = (r \<noteq> 47 \<and> coMatch ts tail rs)"
| "coMatch (CoSeg # ts) tail [] = coMatch ts tail []"
| "coMatch (CoSeg # ts) tail (r # rs) = (coMatch ts tail (r # rs) \<or> (r \<noteq> 47 \<and> coMatch (CoSeg # ts) tail rs))"
| "coMatch (CoAny # ts) tail [] = coMatch ts tail []"
| "coMatch (CoAny # ts) tail (r # rs) = (coMatch ts tail (r # rs) \<or> (r \<noteq> 10 \<and> coMatch (CoAny # ts) tail rs))"

fun tails :: "'a list \<Rightarrow> 'a list list" where
  "tails [] = [[]]"
| "tails (x # xs) = (x # xs) # tails xs"

text \<open>
  Where the body may start in an unanchored search: at the start of the text; there or after any slash;
  anywhere, since the whole prefix group may be skipped.
\<close>

fun coStarts :: "coPrefix \<Rightarrow> nat list \<Rightarrow> nat list list" where
  "coStarts CoStart rs = [rs]"
| "coStarts CoAnyDir rs = rs # map tl (filter (\<lambda>t. t \<noteq> [] \<and> hd t = 47) (tails rs))"
| "coStarts CoOptDir rs = tails rs"

definition MatchString :: "coRegex \<Rightarrow> string \<Rightarrow> bool" where
  "MatchString re s = list_ex (coMatch (reBody re) (reDirTail re)) (coStarts (rePrefix re) (runesOf s))"

section \<open>Files\<close>

datatype OwnerKind = OwnerUser | OwnerTeam | OwnerEmail

record Owner =
  Kind :: OwnerKind
  Raw :: string
  OwnerUsername :: string
  Org :: string
  Team :: string
  Email :: string

record Entry =
  Line :: nat
  EntryPattern :: string
  Owners :: "Owner list"
  entryRe :: coRegex

record ParseError =
  errLine :: nat
  Message :: string

record File =
  filePath :: string
  Entries :: "Entry list"
  Errors :: "ParseError list"

record tokState =
  tokFields :: "string list"
  builder :: string
  inField :: bool
  escaped :: bool

text \<open>One step of the scanner; \<open>None\<close> is the early return at a comment.\<close>

definition tokStep :: "tokState \<Rightarrow> nat \<Rightarrow> tokState option" where
  "tokStep st r =
     (if escaped st then Some (st\<lparr>builder := builder st @ EncodeRune r, inField := True, escaped := False\<rparr>)
      else if r = 92 then Some (st\<lparr>escaped := True, inField := True\<rparr>)
      else if r = 32 \<or> r = 9 then
        Some (if inField st then st\<lparr>tokFields := tokFields st @ [builder st], builder := '''', inField := False\<rparr> else st)
      else if r = 35 \<and> \<not> inField st then None
      else Some (st\<lparr>builder := builder st @ EncodeRune r, inField := True\<rparr>))"

definition tokEnd :: "tokState \<Rightarrow> string list" where
  "tokEnd st = (let b = (if escaped st then builder st @ [CHR 0x5C] else builder st) in
     if inField st then tokFields st @ [b] else tokFields st)"

fun tokLoop :: "nat list \<Rightarrow> tokState \<Rightarrow> string list" where
  "tokLoop [] st = tokEnd st"
| "tokLoop (r # rs) st = (case tokStep st r of None \<Rightarrow> tokFields st | Some st' \<Rightarrow> tokLoop rs st')"

definition tokenize :: "string \<Rightarrow> string list" where
  "tokenize line = tokLoop (runesOf line) \<lparr>tokFields = [], builder = '''', inField = False, escaped = False\<rparr>"

definition parseOwner :: "(nat \<Rightarrow> nat) \<Rightarrow> string \<Rightarrow> Owner option" where
  "parseOwner tbl raw =
     (let own = (\<lambda>k u g t e. Some \<lparr>Kind = k, Raw = raw, OwnerUsername = u, Org = g, Team = t, Email = e\<rparr>) in
      if raw = '''' then None
      else if HasPrefix raw ''@'' then
        (let body = TrimPrefix raw ''@'' in
         if body = '''' then None
         else if Contains body ''/'' then
           (case Cut CHR ''/'' body of None \<Rightarrow> None | Some (g, t) \<Rightarrow>
            if g = '''' \<or> t = '''' \<or> Contains t ''/'' then None
            else own OwnerTeam '''' (ToLower tbl g) (ToLower tbl t) '''')
         else own OwnerUser (ToLower tbl body) '''' '''' '''')
      else if Contains raw ''@'' then own OwnerEmail '''' '''' '''' (ToLower tbl raw)
      else None)"

text \<open>\<^verbatim>\<open>strings.ReplaceAll(text, "\r\n", "\n")\<close>.\<close>

fun crlf :: "string \<Rightarrow> string" where
  "crlf [] = []"
| "crlf [c] = [c]"
| "crlf (a # b # s) = (if code a = 13 \<and> code b = 10 then b # crlf s else a # crlf (b # s))"

definition parseOwners :: "(nat \<Rightarrow> nat) \<Rightarrow> nat \<Rightarrow> string list \<Rightarrow> ParseError list \<times> Owner list" where
  "parseOwners tbl n toks =
     (map (\<lambda>t. \<lparr>errLine = n, Message = ''invalid owner '' @ t\<rparr>) (filter (\<lambda>t. parseOwner tbl t = None) toks),
      List.map_filter (parseOwner tbl) toks)"

definition isBlankOrComment :: "string \<Rightarrow> bool" where
  "isBlankOrComment line \<longleftrightarrow> TrimSpace line = '''' \<or> HasPrefix (dropWhile (\<lambda>c. c = CHR '' '' \<or> code c = 9) line) ''#''"

definition parseLine :: "(nat \<Rightarrow> nat) \<Rightarrow> nat \<Rightarrow> string \<Rightarrow> ParseError list \<times> Entry option" where
  "parseLine tbl n raw =
     (let line = rev (dropWhile (\<lambda>c. code c = 13) (rev raw)) in
      if isBlankOrComment line then ([], None)
      else case tokenize line of [] \<Rightarrow> ([], None) | pattern # ownerTokens \<Rightarrow>
      case validatePattern pattern of Some e \<Rightarrow> ([\<lparr>errLine = n, Message = e\<rparr>], None) | None \<Rightarrow>
      case parseOwners tbl n ownerTokens of (errs, owners) \<Rightarrow>
      if ownerTokens \<noteq> [] \<and> owners = [] then (errs, None)
      else case compilePattern pattern of
        None \<Rightarrow> (errs @ [\<lparr>errLine = n, Message = ''empty pattern''\<rparr>], None)
      | Some re \<Rightarrow> (errs, Some \<lparr>Line = n, EntryPattern = pattern, Owners = owners, entryRe = re\<rparr>))"

fun parseLines :: "(nat \<Rightarrow> nat) \<Rightarrow> nat \<Rightarrow> string list \<Rightarrow> ParseError list \<times> Entry list" where
  "parseLines tbl n [] = ([], [])"
| "parseLines tbl n (l # ls) = (case parseLine tbl n l of (errs, e) \<Rightarrow>
     case parseLines tbl (n + 1) ls of (errs', es) \<Rightarrow>
     (errs @ errs', (case e of None \<Rightarrow> es | Some x \<Rightarrow> x # es)))"

definition Parse :: "(nat \<Rightarrow> nat) \<Rightarrow> string \<Rightarrow> string \<Rightarrow> File" where
  "Parse tbl path body =
     (case parseLines tbl 1 (splitOn (CHR 0x0A) (crlf body)) of (errs, es) \<Rightarrow>
      \<lparr>filePath = path, Entries = es, Errors = errs\<rparr>)"

definition OwnersFor :: "File \<Rightarrow> string \<Rightarrow> Entry option" where
  "OwnersFor f path = foldl (\<lambda>found e. if MatchString (entryRe e) (normalizePath path) then Some e else found) None (Entries f)"

section \<open>Loading\<close>

definition Locations :: "string list" where
  "Locations = [''.github/CODEOWNERS'', ''CODEOWNERS'', ''docs/CODEOWNERS'']"

datatype pathStat = PathNotFound | NotATree | StatErr string | EntryBlob | EntryOther

fun loadFrom :: "(nat \<Rightarrow> nat) \<Rightarrow> (string \<Rightarrow> pathStat) \<Rightarrow> (string \<Rightarrow> string + string) \<Rightarrow> string list \<Rightarrow> string + File option" where
  "loadFrom tbl stat read [] = Inr None"
| "loadFrom tbl stat read (loc # locs) = (case stat loc of
     PathNotFound \<Rightarrow> loadFrom tbl stat read locs
   | NotATree \<Rightarrow> loadFrom tbl stat read locs
   | StatErr e \<Rightarrow> Inl e
   | EntryOther \<Rightarrow> loadFrom tbl stat read locs
   | EntryBlob \<Rightarrow> (case read loc of Inl e \<Rightarrow> Inl e | Inr body \<Rightarrow> Inr (Some (Parse tbl loc body))))"

definition Load :: "(nat \<Rightarrow> nat) \<Rightarrow> (string \<Rightarrow> pathStat) \<Rightarrow> (string \<Rightarrow> string + string) \<Rightarrow> string + File option" where
  "Load tbl stat read = loadFrom tbl stat read Locations"

section \<open>The last matching entry\<close>

lemma foldl_last_match:
  "foldl (\<lambda>found e. if P e then Some e else found) init es
     = (if filter P es = [] then init else Some (last (filter P es)))"
proof (induction es rule: rev_induct)
  case (snoc e es)
  then show ?case by (cases "filter P es") auto
qed simp

text \<open>
  The owners of a path are those of the last entry whose pattern matches it: the lookup returns an
  entry exactly when it matches and no later entry does, and nothing exactly when no entry matches.
\<close>

theorem last_matching_entry_owns:
  "(OwnersFor f path = Some e \<longleftrightarrow> (\<exists>xs ys. Entries f = xs @ e # ys \<and> MatchString (entryRe e) (normalizePath path) \<and>
      list_all (\<lambda>y. \<not> MatchString (entryRe y) (normalizePath path)) ys)) \<and>
   (OwnersFor f path = None \<longleftrightarrow> list_all (\<lambda>y. \<not> MatchString (entryRe y) (normalizePath path)) (Entries f))"
proof
  let ?P = "\<lambda>e. MatchString (entryRe e) (normalizePath path)"
  have o: "OwnersFor f path = (if filter ?P (Entries f) = [] then None else Some (last (filter ?P (Entries f))))"
    unfolding OwnersFor_def by (rule foldl_last_match)
  show "OwnersFor f path = None \<longleftrightarrow> list_all (\<lambda>y. \<not> ?P y) (Entries f)"
    using o by (simp add: filter_empty_conv list_all_iff)
  show "OwnersFor f path = Some e \<longleftrightarrow> (\<exists>xs ys. Entries f = xs @ e # ys \<and> ?P e \<and> list_all (\<lambda>y. \<not> ?P y) ys)"
  proof
    assume "OwnersFor f path = Some e"
    then have f: "filter ?P (Entries f) \<noteq> []" "e = last (filter ?P (Entries f))" using o by (auto split: if_split_asm)
    then obtain xs x ys where m: "Entries f = xs @ x # ys" "?P x" "\<forall>y\<in>set ys. \<not> ?P y"
      using split_list_last_prop [of "Entries f" ?P] by (auto simp: filter_empty_conv)
    then have "filter ?P (Entries f) = filter ?P xs @ [x]" by simp
    then show "\<exists>xs ys. Entries f = xs @ e # ys \<and> ?P e \<and> list_all (\<lambda>y. \<not> ?P y) ys" using f m by (auto simp: list_all_iff)
  next
    assume "\<exists>xs ys. Entries f = xs @ e # ys \<and> ?P e \<and> list_all (\<lambda>y. \<not> ?P y) ys"
    then obtain xs ys where "Entries f = xs @ e # ys" "?P e" "filter ?P ys = []" by (auto simp: filter_empty_conv list_all_iff)
    then have "filter ?P (Entries f) = filter ?P xs @ [e]" by simp
    then show "OwnersFor f path = Some e" using o by simp
  qed
qed

section \<open>What patterns match\<close>

lemma globRegex_literal:
  "star \<notin> set p \<Longrightarrow> CHR ''?'' \<notin> set p \<Longrightarrow> globRegex p = map (CoRune \<circ> of_char) p"
  by (induction p rule: globRegex.induct) auto

lemma coMatch_literal:
  "coMatch (map CoRune cs) tail rs \<longleftrightarrow> (\<exists>rest. rs = cs @ rest \<and> (rest = [] \<or> (tail \<and> hd rest = 47 \<and> list_all (\<lambda>r. r \<noteq> 10) (tl rest))))"
proof (induction cs arbitrary: rs)
  case (Cons c cs)
  then show ?case by (cases rs) auto
qed simp

lemma tails_suffix: "t \<in> set (tails xs) \<longleftrightarrow> suffix t xs"
  by (induction xs) (auto simp: suffix_Cons)

lemma coStarts_AnyDir: "t \<in> set (coStarts CoAnyDir rs) \<longleftrightarrow> t = rs \<or> (\<exists>pre. rs = pre @ 47 # t)"
proof -
  have "(\<exists>u. suffix u rs \<and> u \<noteq> [] \<and> hd u = 47 \<and> t = tl u) \<longleftrightarrow> (\<exists>pre. rs = pre @ 47 # t)"
    by (metis list.collapse list.distinct(1) list.sel(1,3) suffix_def)
  then show ?thesis by (auto simp: tails_suffix image_iff)
qed

lemma runesOf_ascii_member: "ascii c \<Longrightarrow> code c \<in> set (runesOf s) \<longleftrightarrow> c \<in> set s"
proof
  assume a: "ascii c" and "code c \<in> set (runesOf s)"
  then obtain pre q where "runesOf s = pre @ code c # q" by (metis split_list)
  then obtain s1 s2 where "s = s1 @ s2" "runesOf s2 = map of_char [c] @ q" using runesOf_suffix by (metis append_Cons append_Nil list.simps(8,9))
  then show "c \<in> set s" using a runesOf_ascii_prefix [of "[c]" s2 q] by auto
next
  assume a: "ascii c" and "c \<in> set s"
  then obtain u v where "s = u @ c # v" by (metis split_list)
  then show "code c \<in> set (runesOf s)" using runesOf_append_ascii [of "c # v" u] runesOf_ascii_Cons [OF a] a by simp
qed

text \<open>A plain path: segments without the characters that patterns give a meaning to.\<close>

definition literalName :: "string \<Rightarrow> bool" where
  "literalName p \<longleftrightarrow> plainSeg p \<and> set p \<inter> {star, CHR ''?'', CHR 0x5C} = {}"

lemma slashes_id: "CHR 0x5C \<notin> set s \<Longrightarrow> slashes s = s"
proof -
  assume "CHR 0x5C \<notin> set s"
  moreover have "code c = 92 \<longleftrightarrow> c = CHR 0x5C" for c using of_char_eq_iff [of c "CHR 0x5C", where 'a = nat] by simp
  ultimately show "slashes s = s" unfolding slashes_def by (intro map_idI) auto
qed

lemma trimSlash_id: "s \<noteq> [] \<Longrightarrow> hd s \<noteq> CHR ''/'' \<Longrightarrow> last s \<noteq> CHR ''/'' \<Longrightarrow> trimSlash s = s"
  by (simp add: trimSlash_def dropWhile_eq_self_iff [THEN iffD2] hd_rev)

lemma Join_ends:
  assumes "segs \<noteq> []" "list_all plainSeg segs"
  shows "Join segs ''/'' \<noteq> [] \<and> hd (Join segs ''/'') \<noteq> CHR ''/'' \<and> last (Join segs ''/'') \<noteq> CHR ''/''"
  using assms
proof (induction segs)
  case (Cons x segs)
  have "x \<noteq> []" "hd x \<noteq> CHR ''/''" "last x \<noteq> CHR ''/''"
    using Cons.prems by (auto simp: plainSeg_def dest: hd_in_set last_in_set)
  then show ?case using Cons by (cases segs) auto
qed simp

lemma literal_path:
  assumes "list_all literalName segs"
  shows "star \<notin> set (Join segs ''/'')" "CHR ''?'' \<notin> set (Join segs ''/'')"
    "CHR 0x5C \<notin> set (Join segs ''/'')" "list_all plainSeg segs"
proof -
  have j: "c \<in> set (Join segs ''/'') \<Longrightarrow> c = CHR ''/'' \<or> (\<exists>x\<in>set segs. c \<in> set x)" for c using set_Join [of segs "''/''"] by auto
  have l: "c \<in> set x \<Longrightarrow> c \<notin> {star, CHR ''?'', CHR 0x5C}" if "x \<in> set segs" for c x
    using assms that by (auto simp: literalName_def list_all_iff)
  show "star \<notin> set (Join segs ''/'')" "CHR ''?'' \<notin> set (Join segs ''/'')" using j l by fastforce+
  show "CHR 0x5C \<notin> set (Join segs ''/'')" using j [of "CHR 0x5C"] l by auto
  show "list_all plainSeg segs" using assms by (auto simp: literalName_def list_all_iff)
qed

lemma cleanSegs_append_empty: "cleanSegs rooted (xs @ ['''']) st = cleanSegs rooted xs st"
  by (induction rooted xs st rule: cleanSegs.induct) auto

lemma Clean_literal:
  assumes "segs \<noteq> []" "list_all literalName segs"
  shows "Clean (Join segs ''/'') = Join segs ''/''" "Clean (Join segs ''/'' @ ''/'') = Join segs ''/''"
proof -
  let ?q = "Join segs ''/''"
  have p: "list_all plainSeg segs" using literal_path assms by blast
  have h: "?q \<noteq> []" "\<not> HasPrefix ?q ''/''" "\<not> HasPrefix (?q @ ''/'') ''/''"
    using Join_ends [OF assms(1) p] by (cases ?q; simp)+
  have s: "splitOn CHR ''/'' ?q = segs" using splitOn_Join [OF assms(1), of "CHR ''/''"] plainSegs_slash [OF p] by auto
  have "?q @ ''/'' = Join (segs @ ['''']) ''/''" using Join_append [OF assms(1), of "['''']" "''/''"] by simp
  then have t: "splitOn CHR ''/'' (?q @ ''/'') = segs @ ['''']"
    using splitOn_Join [of "segs @ ['''']" "CHR ''/''"] plainSegs_slash [OF p] by force
  have c: "cleanSegs False (segs @ ['''']) [] = segs" "cleanSegs False segs [] = segs"
    using cleanSegs_plain [OF p] cleanSegs_append_empty by auto
  show "Clean ?q = ?q" "Clean (?q @ ''/'') = ?q" using h s t c by (simp_all add: Clean_def Let_def)
qed

lemma HasSuffix_single: "HasSuffix s [c] \<longleftrightarrow> s \<noteq> [] \<and> last s = c"
  by (cases s rule: rev_cases) (auto simp: HasSuffix_def)

lemma HasPrefix_single: "HasPrefix s [c] \<longleftrightarrow> s \<noteq> [] \<and> hd s = c"
  by (cases s) auto

lemma normalizePattern_literal:
  assumes "segs \<noteq> []" "list_all literalName segs"
  defines "q \<equiv> Join segs ''/''"
  shows "normalizePattern (''/'' @ q) = ''/'' @ q" "normalizePattern (''/'' @ q @ ''/'') = ''/'' @ q @ ''/''"
    "normalizePattern q = q"
proof -
  note e = Join_ends [OF assms(1) literal_path(4) [OF assms(2)], folded q_def]
  note c = Clean_literal [OF assms(1,2), folded q_def]
  have b: "slashes q = q" using slashes_id literal_path(3) [OF assms(2)] q_def by blast
  then have s: "slashes (''/'' @ q) = ''/'' @ q" "slashes (''/'' @ q @ ''/'') = ''/'' @ q @ ''/''" by (simp_all add: slashes_def)
  have t: "trimSlash q = q" using trimSlash_id e by blast
  have nf: "\<not> HasPrefix q ''/''" "\<not> HasSuffix q ''/''" "\<not> HasSuffix (''/'' @ q) ''/''" "HasSuffix (''/'' @ q @ ''/'') ''/''"
    using e by (simp_all add: HasSuffix_single HasPrefix_single)
  show "normalizePattern (''/'' @ q) = ''/'' @ q" "normalizePattern (''/'' @ q @ ''/'') = ''/'' @ q @ ''/''" "normalizePattern q = q"
    using nf b s t c by (simp_all add: normalizePattern_def suffixSlash_def TrimPrefix_def)
qed

lemma compilePattern_literal:
  assumes "segs \<noteq> []" "list_all literalName segs"
  defines "q \<equiv> Join segs ''/''"
  shows "compilePattern (''/'' @ q) = Some \<lparr>rePrefix = CoStart, reBody = map (CoRune \<circ> of_char) q, reDirTail = False\<rparr>"
    "compilePattern (''/'' @ q @ ''/'') = Some \<lparr>rePrefix = CoStart, reBody = map (CoRune \<circ> of_char) q, reDirTail = True\<rparr>"
    "compilePattern q = Some \<lparr>rePrefix = (if length segs = 1 then CoAnyDir else CoOptDir), reBody = map (CoRune \<circ> of_char) q, reDirTail = False\<rparr>"
proof -
  note e = Join_ends [OF assms(1) literal_path(4) [OF assms(2)], folded q_def]
  note n = normalizePattern_literal [OF assms(1,2), folded q_def]
  note g = globRegex_literal [OF literal_path(1,2) [OF assms(2)], folded q_def]
  have nf: "\<not> HasPrefix q ''/''" "\<not> HasSuffix q ''/''" "\<not> HasSuffix (''/'' @ q) ''/''" "HasSuffix (''/'' @ q @ ''/'') ''/''" "q \<noteq> []"
    using e by (simp_all add: HasSuffix_single HasPrefix_single)
  have c: "Contains q ''/'' \<longleftrightarrow> length segs \<noteq> 1"
  proof (cases segs)
    case (Cons x ys)
    then have "CHR ''/'' \<notin> set x" using literal_path(4) [OF assms(2)] by (simp add: plainSeg_def)
    then show ?thesis using Cons by (cases ys) (auto simp: q_def Contains_sublist sublist_def in_set_conv_decomp)
  qed (use assms in simp)
  show "compilePattern (''/'' @ q) = Some \<lparr>rePrefix = CoStart, reBody = map (CoRune \<circ> of_char) q, reDirTail = False\<rparr>"
    using nf g n by (simp add: compilePattern_def TrimPrefix_def TrimSuffix_def)
  show "compilePattern (''/'' @ q @ ''/'') = Some \<lparr>rePrefix = CoStart, reBody = map (CoRune \<circ> of_char) q, reDirTail = True\<rparr>"
    using nf g n by (simp add: compilePattern_def TrimPrefix_def TrimSuffix_def)
  show "compilePattern q = Some \<lparr>rePrefix = (if length segs = 1 then CoAnyDir else CoOptDir), reBody = map (CoRune \<circ> of_char) q, reDirTail = False\<rparr>"
    using nf g n c by (simp add: compilePattern_def TrimPrefix_def TrimSuffix_def)
qed

text \<open>Matching literal bodies, in bytes.\<close>

lemma coMatchString_literal:
  assumes "list_all ascii q"
  defines "re \<equiv> \<lambda>p t. \<lparr>rePrefix = p, reBody = map (CoRune \<circ> of_char) q, reDirTail = t\<rparr>"
  shows "MatchString (re CoStart False) s \<longleftrightarrow> s = q"
    "MatchString (re CoStart True) s \<longleftrightarrow> s = q \<or> (\<exists>t. s = q @ ''/'' @ t \<and> CHR 0x0A \<notin> set t)"
    "MatchString (re CoAnyDir False) s \<longleftrightarrow> s = q \<or> (\<exists>d. s = d @ ''/'' @ q)"
    "MatchString (re CoOptDir False) s \<longleftrightarrow> suffix q s"
proof -
  have m: "coMatch (map (CoRune \<circ> of_char) q) tail rs \<longleftrightarrow>
      (\<exists>rest. rs = map of_char q @ rest \<and> (rest = [] \<or> (tail \<and> hd rest = 47 \<and> list_all (\<lambda>r. r \<noteq> 10) (tl rest))))" for tail rs
    using coMatch_literal [of "map of_char q"] by (simp add: map_map)
  have f: "coMatch (map (CoRune \<circ> of_char) q) False rs \<longleftrightarrow> rs = map of_char q" for rs by (simp add: m)
  have whole: "runesOf s = map of_char q \<longleftrightarrow> s = q" using runesOf_ascii_prefix [OF assms(1), of s "[]"] by auto
  show "MatchString (re CoStart False) s \<longleftrightarrow> s = q" using whole f by (simp add: re_def MatchString_def)
  have sl: "list_all ascii (''/'' @ q)" using assms(1) by (simp add: ascii_def)
  show "MatchString (re CoAnyDir False) s \<longleftrightarrow> s = q \<or> (\<exists>d. s = d @ ''/'' @ q)"
    using whole f runesOf_ascii_suffix [OF sl, of s] by (auto simp: re_def MatchString_def list_ex_iff coStarts_AnyDir simp del: coStarts.simps)
  show "MatchString (re CoOptDir False) s \<longleftrightarrow> suffix q s"
    using f runesOf_ascii_suffix [OF assms(1), of s] by (simp add: re_def MatchString_def list_ex_iff tails_suffix) (simp add: suffix_def)
  have nl: "list_all (\<lambda>r. r \<noteq> 10) (runesOf t) \<longleftrightarrow> CHR 0x0A \<notin> set t" for t
    using runesOf_ascii_member [of "CHR 0x0A" t] by (auto simp: ascii_def list_all_iff)
  have "(\<exists>rest. runesOf s = map of_char q @ rest \<and> rest \<noteq> [] \<and> hd rest = 47 \<and> list_all (\<lambda>r. r \<noteq> 10) (tl rest))
      \<longleftrightarrow> (\<exists>rs. runesOf s = map of_char (q @ ''/'') @ rs \<and> list_all (\<lambda>r. r \<noteq> 10) rs)"
    by (auto, metis list.collapse)
  also have "\<dots> \<longleftrightarrow> (\<exists>t. s = (q @ ''/'') @ t \<and> CHR 0x0A \<notin> set t)"
    using runesOf_ascii_prefix [of "q @ ''/''" s] sl nl by auto
  finally show "MatchString (re CoStart True) s \<longleftrightarrow> s = q \<or> (\<exists>t. s = q @ ''/'' @ t \<and> CHR 0x0A \<notin> set t)"
    using whole by (auto simp: re_def MatchString_def m)
qed

lemma runesOf_length: "length (runesOf s) \<le> length s"
proof (induction s rule: runesOf.induct)
  case (1 s)
  show ?case
  proof (cases "s = []")
    case False
    then have "length (runesOf s) = Suc (length (runesOf (drop (snd (DecodeRune s)) s)))" by (subst runesOf.simps) simp
    then show ?thesis using 1 [OF False] DecodeRune_width [OF False] by (simp only: length_drop) linarith
  qed simp
qed

lemma DecodeRune_error:
  assumes "\<not> ascii c" shows "snd (DecodeRune (c # s)) \<noteq> 1 \<or> fst (DecodeRune (c # s)) = RuneError"
  using assms by (auto simp: ascii_def decode2_def decode3_def decode4_def split: list.split)

lemma runesOf_bytes: "runesOf s = map of_char s \<longleftrightarrow> list_all ascii s"
proof (induction s)
  case (Cons c s)
  show ?case
  proof (cases "ascii c")
    case True
    then show ?thesis using Cons by (simp add: runesOf_ascii_Cons)
  next
    case False
    have r: "runesOf (c # s) = fst (DecodeRune (c # s)) # runesOf (drop (snd (DecodeRune (c # s))) (c # s))"
      by (subst runesOf.simps) simp
    consider "fst (DecodeRune (c # s)) = RuneError" | "2 \<le> snd (DecodeRune (c # s))"
      using DecodeRune_error [OF False, of s] DecodeRune_width [of "c # s"] by fastforce
    then have "runesOf (c # s) \<noteq> map of_char (c # s)"
    proof cases
      case 1
      have "code c < 256" by simp
      then have "fst (DecodeRune (c # s)) \<noteq> code c" using 1 by (simp only: RuneError_def)
      then show ?thesis unfolding r by (simp only: list.map list.inject) blast
    next
      case 2
      then have "length (runesOf (c # s)) < length (c # s)"
        using r runesOf_length [of "drop (snd (DecodeRune (c # s))) (c # s)"] DecodeRune_width [OF list.distinct(2), of c s] by (simp only: length_Cons length_drop) linarith
      then show ?thesis by (metis length_map nat_neq_iff)
    qed
    then show ?thesis using False by simp
  qed
qed simp

text \<open>
  What a pattern without wildcards matches. Anchored, it matches exactly its own path; with a
  trailing slash also every path below it (whose rest has no line break); a single name matches that name
  in every directory. A longer unanchored path matches every path that ends with its text, whether or not
  a directory starts there.
\<close>

theorem literal_codeowner_patterns:
  assumes "segs \<noteq> []" "list_all literalName segs" "list_all (list_all ascii) segs"
  defines "q \<equiv> Join segs ''/''"
  shows "\<exists>anchored dir loose.
    compilePattern (''/'' @ q) = Some anchored \<and> compilePattern (''/'' @ q @ ''/'') = Some dir \<and> compilePattern q = Some loose \<and>
    Collect (MatchString anchored) = {q} \<and>
    Collect (MatchString dir) = {q} \<union> {q @ ''/'' @ t |t. CHR 0x0A \<notin> set t} \<and>
    Collect (MatchString loose) = (if length segs = 1 then {q} \<union> {d @ ''/'' @ q |d. True} else {d @ q |d. True})"
proof -
  have "x \<in> set segs \<Longrightarrow> c \<in> set x \<Longrightarrow> ascii c" for x c using assms(3) by (auto simp: list_all_iff)
  then have "list_all ascii q" using set_Join [of segs "''/''"] unfolding q_def list_all_iff by (fastforce simp: ascii_def)
  note m = coMatchString_literal [OF this]
  show ?thesis
    by (rule exI conjI compilePattern_literal [OF assms(1,2), folded q_def])+ (auto simp: m set_eq_iff suffix_def)
qed

theorem literal_codeowner_patterns_witness:
  "\<exists>anchored dir loose.
    compilePattern ''/docs/api'' = Some anchored \<and> compilePattern ''/docs/api/'' = Some dir \<and> compilePattern ''docs/api'' = Some loose \<and>
    Collect (MatchString anchored) = {''docs/api''} \<and>
    Collect (MatchString dir) = {''docs/api''} \<union> {''docs/api'' @ ''/'' @ t |t. CHR 0x0A \<notin> set t} \<and>
    Collect (MatchString loose) = {d @ ''docs/api'' |d. True}"
  using literal_codeowner_patterns [of "[''docs'', ''api'']"] by (simp add: literalName_def plainSeg_def ascii_def)

text \<open>
  An anchored literal pattern matches its own path only when it is ASCII: each byte of the pattern
  becomes a rune of its own, so a name with a multi-byte character never matches itself.
\<close>

theorem anchored_literal_needs_ascii:
  assumes "segs \<noteq> []" "list_all literalName segs"
  shows "map_option (\<lambda>re. MatchString re (Join segs ''/'')) (compilePattern (''/'' @ Join segs ''/''))
       = Some (list_all ascii (Join segs ''/''))"
proof -
  have "coMatch (map (CoRune \<circ> of_char) q) False rs \<longleftrightarrow> rs = map of_char q" for q rs
    using coMatch_literal [of "map of_char q"] by (simp add: map_map)
  then show ?thesis using compilePattern_literal(1) [OF assms] by (simp add: MatchString_def runesOf_bytes)
qed

theorem anchored_literal_needs_ascii_witness:
  "map_option (\<lambda>re. MatchString re [CHR 0xC3, CHR 0xA9]) (compilePattern [CHR ''/'', CHR 0xC3, CHR 0xA9]) = Some False"
  using anchored_literal_needs_ascii [of "[[CHR 0xC3, CHR 0xA9]]"] by (simp add: literalName_def plainSeg_def ascii_def)

section \<open>Lines and fields\<close>

definition escapeChar :: "char \<Rightarrow> string" where
  "escapeChar c = (if c \<in> {CHR '' '', CHR 0x09, CHR ''#'', CHR 0x5C} then [CHR 0x5C, c] else [c])"

definition escapeField :: "string \<Rightarrow> string" where
  "escapeField f = concat (map escapeChar f)"

lemma EncodeRune_ascii: "ascii c \<Longrightarrow> EncodeRune (code c) = [c]"
  by (simp add: EncodeRune_def ascii_def byte_def)

lemma tokLoop_escapeChar:
  assumes "ascii c" "\<not> escaped st"
  shows "tokLoop (map of_char (escapeChar c) @ rs) st = tokLoop rs (st\<lparr>builder := builder st @ [c], inField := True\<rparr>)"
proof -
  have e: "code c = code d \<longleftrightarrow> c = d" for d by (rule of_char_eq_iff)
  have n: "code c = 92 \<longleftrightarrow> c = CHR 0x5C" "code c = 32 \<longleftrightarrow> c = CHR '' ''" "code c = 9 \<longleftrightarrow> c = CHR 0x09" "code c = 35 \<longleftrightarrow> c = CHR ''#''"
    using e [of "CHR 0x5C"] e [of "CHR '' ''"] e [of "CHR 0x09"] e [of "CHR ''#''"] by simp_all
  show ?thesis
  proof (cases "c \<in> {CHR '' '', CHR 0x09, CHR ''#'', CHR 0x5C}")
    case True
    then have "escapeChar c = [CHR 0x5C, c]" by (simp add: escapeChar_def)
    then show ?thesis using assms EncodeRune_ascii [of c] by (cases st) (simp add: tokStep_def)
  next
    case False
    then have "escapeChar c = [c]" by (simp add: escapeChar_def)
    then show ?thesis using assms n False EncodeRune_ascii [of c] by (simp add: tokStep_def)
  qed
qed

lemma tokLoop_escapeField:
  "list_all ascii f \<Longrightarrow> \<not> escaped st \<Longrightarrow>
   tokLoop (map of_char (escapeField f) @ rs) st = tokLoop rs (st\<lparr>builder := builder st @ f, inField := inField st \<or> f \<noteq> []\<rparr>)"
proof (induction f arbitrary: st)
  case (Cons c f)
  then show ?case using tokLoop_escapeChar [of c st "map of_char (escapeField f) @ rs"] by (simp add: escapeField_def)
qed (simp add: escapeField_def)

lemma tokLoop_fields:
  assumes "list_all (\<lambda>f. f \<noteq> [] \<and> list_all ascii f) fs" "fs \<noteq> []" "\<not> escaped st" "builder st = []" "\<not> inField st"
  shows "tokLoop (map of_char (Join (map escapeField fs) '' '')) st = tokFields st @ fs"
  using assms
proof (induction fs arbitrary: st)
  case (Cons f fs)
  show ?case
  proof (cases fs)
    case Nil
    then show ?thesis using Cons.prems tokLoop_escapeField [of f st "[]"] by (simp add: tokEnd_def)
  next
    case c: (Cons g gs)
    let ?st = "st\<lparr>tokFields := tokFields st @ [f], builder := '''', inField := False\<rparr>"
    have "tokLoop (map of_char (Join (map escapeField (f # fs)) '' '')) st
        = tokLoop (map of_char (Join (map escapeField fs) '' '')) ?st"
      using Cons.prems c tokLoop_escapeField [of f st "32 # map of_char (Join (map escapeField fs) '' '')"] by (simp add: tokStep_def)
    also have "\<dots> = tokFields ?st @ fs" using Cons.prems c by (intro Cons.IH) simp_all
    finally show ?thesis by simp
  qed
qed simp

lemma ascii_escaped: "list_all (list_all ascii) fs \<Longrightarrow> list_all ascii (Join (map escapeField fs) '' '')"
proof -
  assume a: "list_all (list_all ascii) fs"
  have "c \<in> set (escapeField f) \<Longrightarrow> ascii c" if "f \<in> set fs" for c f
    using that a by (auto simp: escapeField_def escapeChar_def list_all_iff ascii_def split: if_split_asm)
  then show ?thesis using set_Join [of "map escapeField fs" "'' ''"] unfolding list_all_iff by (fastforce simp: ascii_def)
qed

text \<open>
  Splitting a line is the inverse of writing its fields with every blank, hash and backslash escaped:
  the fields come back as they were.
\<close>

theorem tokenize_roundtrip:
  assumes "list_all (\<lambda>f. f \<noteq> [] \<and> list_all ascii f) fs"
  shows "tokenize (Join (map escapeField fs) '' '') = fs"
proof (cases "fs = []")
  case False
  have "list_all (list_all ascii) fs" using assms by (auto simp: list_all_iff)
  then have "runesOf (Join (map escapeField fs) '' '') = map of_char (Join (map escapeField fs) '' '')"
    using ascii_escaped runesOf_ascii by blast
  then show ?thesis using tokLoop_fields [OF assms False] by (simp add: tokenize_def)
qed (simp add: tokenize_def tokEnd_def)

theorem tokenize_roundtrip_witness:
  "tokenize [CHR ''a'', CHR 0x5C, CHR '' '', CHR ''b'', CHR '' '', CHR ''@'', CHR ''x''] = [''a b'', ''@x'']"
  using tokenize_roundtrip [of "[''a b'', ''@x'']"] by (simp add: ascii_def escapeField_def escapeChar_def)

lemma parseLine_Some:
  assumes "snd (parseLine tbl n l) = Some e"
  shows "Line e = n" "compilePattern (EntryPattern e) = Some (entryRe e)" "validatePattern (EntryPattern e) = None"
    "\<exists>toks. tokenize (rev (dropWhile (\<lambda>c. code c = 13) (rev l))) = EntryPattern e # toks \<and> Owners e = List.map_filter (parseOwner tbl) toks \<and>
      (Owners e = [] \<longrightarrow> toks = [])"
  using assms by (auto simp: parseLine_def parseOwners_def Let_def split: if_split_asm list.split_asm option.split_asm)

lemma parseLines_Cons:
  "snd (parseLines tbl n (l # ls)) = (case snd (parseLine tbl n l) of None \<Rightarrow> [] | Some e \<Rightarrow> [e]) @ snd (parseLines tbl (n + 1) ls)"
  by (simp split: prod.split option.split)

lemma parseLines_nth:
  "e \<in> set (snd (parseLines tbl n ls)) \<longleftrightarrow> (\<exists>i<length ls. snd (parseLine tbl (n + i) (ls ! i)) = Some e)"
proof (induction ls arbitrary: n)
  case (Cons l ls)
  have "(\<exists>i<length (l # ls). snd (parseLine tbl (n + i) ((l # ls) ! i)) = Some e)
      \<longleftrightarrow> snd (parseLine tbl n l) = Some e \<or> (\<exists>i<length ls. snd (parseLine tbl (n + 1 + i) (ls ! i)) = Some e)"
    by (simp add: Ex_less_Suc2)
  then show ?case using Cons [of "n + 1"] unfolding parseLines_Cons by (auto split: option.split)
qed simp

lemma parseLines_sorted: "sorted_wrt (<) (map Line (snd (parseLines tbl n ls)))"
proof (induction ls arbitrary: n)
  case (Cons l ls)
  have "n < Line e" if "e \<in> set (snd (parseLines tbl (n + 1) ls))" for e
    using that parseLine_Some(1) unfolding parseLines_nth by fastforce
  then show ?case using Cons [of "n + 1"] parseLine_Some(1) [of tbl n l] unfolding parseLines_Cons by (auto split: option.split)
qed simp

text \<open>
  Parsing a file keeps its lines apart: the entries come in the order of their lines, and an entry is
  there exactly when its line alone parses to it. Its matcher is its compiled pattern, its pattern is
  valid, and it has no owners only if its line names none: a line whose owners are all malformed is dropped
  rather than kept as an entry that clears the owners.
\<close>

theorem parsed_entries:
  fixes tbl path body
  defines "ls \<equiv> splitOn (CHR 0x0A) (crlf body)" and "es \<equiv> Entries (Parse tbl path body)"
  shows "sorted_wrt (<) (map Line es) \<and>
    set es = {e. 0 < Line e \<and> Line e \<le> length ls \<and> snd (parseLine tbl (Line e) (ls ! (Line e - 1))) = Some e} \<and>
    list_all (\<lambda>e. compilePattern (EntryPattern e) = Some (entryRe e) \<and> validatePattern (EntryPattern e) = None \<and>
      (Owners e = [] \<longleftrightarrow> tokenize (rev (dropWhile (\<lambda>c. code c = 13) (rev (ls ! (Line e - 1))))) = [EntryPattern e])) es"
proof -
  have es: "es = snd (parseLines tbl 1 ls)" by (simp add: es_def ls_def Parse_def split_beta)
  have mem: "e \<in> set es \<longleftrightarrow> 0 < Line e \<and> Line e \<le> length ls \<and> snd (parseLine tbl (Line e) (ls ! (Line e - 1))) = Some e" for e
  proof -
    have "e \<in> set es \<longleftrightarrow> (\<exists>i<length ls. Line e = 1 + i \<and> snd (parseLine tbl (1 + i) (ls ! i)) = Some e)"
      unfolding es parseLines_nth using parseLine_Some(1) by blast
    also have "\<dots> \<longleftrightarrow> 0 < Line e \<and> Line e \<le> length ls \<and> snd (parseLine tbl (Line e) (ls ! (Line e - 1))) = Some e"
      by (cases "Line e") auto
    finally show ?thesis .
  qed
  moreover have "Owners e = [] \<longleftrightarrow> tokenize (rev (dropWhile (\<lambda>c. code c = 13) (rev (ls ! (Line e - 1))))) = [EntryPattern e]" if "e \<in> set es" for e
    using that parseLine_Some(4) [of tbl "Line e" "ls ! (Line e - 1)" e] unfolding mem by (auto simp: map_filter_simps)
  ultimately show ?thesis using parseLine_Some(2,3) parseLines_sorted [of tbl 1 ls] unfolding list_all_iff es [symmetric] by blast
qed

end
