(* ===== verification/IssueRefs.thy ===== *)
theory IssueRefs
  imports GoPath
begin

text \<open>
  References between issues (\<^verbatim>\<open>src/internal/issues/references.go\<close>, \<^verbatim>\<open>src/internal/pulls/linked_issues.go\<close>): the
  patterns \<^verbatim>\<open>#N\<close>, \<^verbatim>\<open>owner/repo#N\<close> and the closing keywords. Go's regular expressions work on runes, so the
  scanners do too; word characters and boundaries are ASCII.
\<close>

section \<open>Tokens\<close>

definition digitRune :: "nat \<Rightarrow> bool" where
  "digitRune r \<longleftrightarrow> 48 \<le> r \<and> r \<le> 57"

definition alnumRune :: "nat \<Rightarrow> bool" where
  "alnumRune r \<longleftrightarrow> digitRune r \<or> (65 \<le> r \<and> r \<le> 90) \<or> (97 \<le> r \<and> r \<le> 122)"

definition wordRune :: "nat \<Rightarrow> bool" where
  "wordRune r \<longleftrightarrow> alnumRune r \<or> r = 95"

definition nameRune :: "nat \<Rightarrow> bool" where
  "nameRune r \<longleftrightarrow> alnumRune r \<or> r = 46 \<or> r = 95 \<or> r = 45"

definition spaceRune :: "nat \<Rightarrow> bool" where
  "spaceRune r \<longleftrightarrow> r \<in> {9, 10, 12, 13, 32}"

text \<open>\<^verbatim>\<open>[0-9]{1,9}\b\<close>: the value and the number of runes.\<close>

definition refNumber :: "nat list \<Rightarrow> (nat \<times> nat) option" where
  "refNumber s = (let d = takeWhile digitRune s; r = dropWhile digitRune s in
     if 1 \<le> length d \<and> length d \<le> 9 \<and> (r = [] \<or> \<not> wordRune (hd r))
     then Some (foldl (\<lambda>n c. n * 10 + (c - 48)) 0 d, length d) else None)"

text \<open>\<^verbatim>\<open>[A-Za-z0-9][A-Za-z0-9._-]*\<close>.\<close>

definition refName :: "nat list \<Rightarrow> nat list option" where
  "refName s = (if s \<noteq> [] \<and> alnumRune (hd s) then Some (takeWhile nameRune s) else None)"

definition sameToken :: "nat list \<Rightarrow> (nat \<times> nat) option" where
  "sameToken s = (if s \<noteq> [] \<and> hd s = 35 then map_option (\<lambda>(v, n). (v, n + 1)) (refNumber (tl s)) else None)"

definition crossToken :: "nat list \<Rightarrow> ((nat list \<times> nat list \<times> nat) \<times> nat) option" where
  "crossToken s =
     (case refName s of None \<Rightarrow> None | Some owner \<Rightarrow>
      let s1 = drop (length owner) s in
      if s1 = [] \<or> hd s1 \<noteq> 47 then None
      else case refName (tl s1) of None \<Rightarrow> None | Some name \<Rightarrow>
      let s2 = drop (length name) (tl s1) in
      case sameToken s2 of None \<Rightarrow> None | Some (v, n) \<Rightarrow> Some ((owner, name, v), length owner + 1 + length name + n))"

section \<open>Searching\<close>

text \<open>
  All matches of \<^verbatim>\<open>(?:^|[^\w/])\<close> followed by a token, and the text with every match replaced by a blank. Only
  the first match can lack the leading rune.
\<close>

definition leadRune :: "nat \<Rightarrow> bool" where
  "leadRune r \<longleftrightarrow> \<not> wordRune r \<and> r \<noteq> 47"

fun refScan :: "(nat list \<Rightarrow> ('a \<times> nat) option) \<Rightarrow> nat list \<Rightarrow> 'a list \<times> nat list" where
  "refScan tok [] = ([], [])"
| "refScan tok (c # s) =
     (case (if leadRune c then tok s else None) of
        Some (v, n) \<Rightarrow> (case refScan tok (drop n s) of (vs, t) \<Rightarrow> (v # vs, 32 # t))
      | None \<Rightarrow> (case refScan tok s of (vs, t) \<Rightarrow> (vs, c # t)))"

definition refFind :: "(nat list \<Rightarrow> ('a \<times> nat) option) \<Rightarrow> nat list \<Rightarrow> 'a list \<times> nat list" where
  "refFind tok s = (case tok s of
       Some (v, n) \<Rightarrow> (case refScan tok (drop n s) of (vs, t) \<Rightarrow> (v # vs, 32 # t))
     | None \<Rightarrow> refScan tok s)"

text \<open>\<open>reCrossRepoIssueRef\<close> over a body, then \<open>reSameRepoIssueRef\<close> over what it leaves.\<close>

definition crossRefs :: "string \<Rightarrow> (string \<times> string \<times> nat) list" where
  "crossRefs body = map (\<lambda>(ow, nm, v). (map char_of ow, map char_of nm, v)) (fst (refFind crossToken (runesOf body)))"

definition sameRefs :: "string \<Rightarrow> nat list" where
  "sameRefs body = fst (refFind sameToken (snd (refFind crossToken (runesOf body))))"

section \<open>Closing keywords\<close>

text \<open>Case folding of the letters the keywords use; the long s folds to \<^verbatim>\<open>s\<close>.\<close>

definition foldRune :: "nat \<Rightarrow> nat" where
  "foldRune r = (if 65 \<le> r \<and> r \<le> 90 then r + 32 else if r = 383 then 115 else r)"

definition linkKeywords :: "string list" where
  "linkKeywords = [''closes'', ''closed'', ''close'', ''fixes'', ''fixed'', ''fix'', ''resolves'', ''resolved'', ''resolve'']"

definition keywordToken :: "nat list \<Rightarrow> string \<Rightarrow> (nat \<times> nat) option" where
  "keywordToken s kw =
     (let k = length kw; sp = takeWhile spaceRune (drop k s) in
      if map foldRune (take k s) = map of_char kw \<and> sp \<noteq> []
      then map_option (\<lambda>(v, n). (v, k + length sp + n)) (sameToken (drop (k + length sp) s)) else None)"

fun firstSome :: "('a \<Rightarrow> 'b option) \<Rightarrow> 'a list \<Rightarrow> 'b option" where
  "firstSome f [] = None"
| "firstSome f (x # xs) = (case f x of Some y \<Rightarrow> Some y | None \<Rightarrow> firstSome f xs)"

definition linkToken :: "nat list \<Rightarrow> (nat \<times> nat) option" where
  "linkToken s = firstSome (keywordToken s) linkKeywords"

text \<open>Matches of \<open>reLinkedIssue\<close>; \<open>pw\<close> tells whether the rune before is a word character.\<close>

fun linkScan :: "bool \<Rightarrow> nat list \<Rightarrow> nat list" where
  "linkScan pw [] = []"
| "linkScan pw (c # s) =
     (case (if pw then None else linkToken (c # s)) of
        Some (v, n) \<Rightarrow> v # linkScan True (drop (n - 1) s)
      | None \<Rightarrow> linkScan (wordRune c) s)"

text \<open>The first occurrences, in order.\<close>

definition firstOnes :: "'a list \<Rightarrow> 'a list" where
  "firstOnes xs = rev (remdups (rev xs))"

definition parseLinkedIssues :: "string \<Rightarrow> nat list" where
  "parseLinkedIssues body = firstOnes (linkScan False (runesOf body))"

section \<open>Numbers\<close>

lemma decimal_runes: "map of_char (decimal n) \<noteq> []" "list_all digitRune (map of_char (decimal n))"
proof -
  show "list_all digitRune (map of_char (decimal n))"
    using decimal_digits [of _ n] by (fastforce simp: list_all_iff digitRune_def)
  show "map of_char (decimal n) \<noteq> []" by (subst decimal.simps) simp
qed

lemma decimal_length: "n < 10 ^ k \<Longrightarrow> 0 < k \<Longrightarrow> length (decimal n) \<le> k"
proof (induction n arbitrary: k rule: decimal.induct)
  case (1 n)
  show ?case
  proof (cases "n < 10")
    case False
    then have k: "1 < k" using 1(2,3) by (cases k; cases "k - 1") auto
    have "n div 10 < 10 ^ (k - 1)" using 1(2) k by (simp add: less_mult_imp_div_less power_eq_if mult.commute)
    then have "length (decimal (n div 10)) \<le> k - 1" using 1(1) [OF False] k by simp
    then show ?thesis using False k by (subst decimal.simps) simp
  qed (use 1 in \<open>subst decimal.simps, simp\<close>)
qed

lemma foldl_undecimal: "foldl (\<lambda>n c. n * 10 + (c - 48)) acc (map of_char s) = undecimal acc s"
  by (induction s arbitrary: acc) (simp_all add: mult.commute)

lemma digit_word: "digitRune r \<Longrightarrow> wordRune r \<and> nameRune r \<and> alnumRune r \<and> \<not> leadRune r \<and> \<not> spaceRune r"
  by (auto simp: wordRune_def nameRune_def alnumRune_def leadRune_def spaceRune_def digitRune_def)

definition endsToken :: "nat list \<Rightarrow> bool" where
  "endsToken r \<longleftrightarrow> r = [] \<or> \<not> nameRune (hd r)"

lemma endsToken_word: "endsToken r \<Longrightarrow> r = [] \<or> (\<not> digitRune (hd r) \<and> \<not> wordRune (hd r))"
  by (auto simp: endsToken_def nameRune_def wordRune_def alnumRune_def)

lemma refNumber_decimal:
  assumes "n < 10 ^ 9" "endsToken r"
  shows "refNumber (map of_char (decimal n) @ r) = Some (n, length (decimal n))"
proof -
  let ?d = "map of_char (decimal n)"
  have d: "\<And>x. x \<in> set ?d \<Longrightarrow> digitRune x" using decimal_runes(2) unfolding list_all_iff by blast
  have "takeWhile digitRune (?d @ r) = ?d" "dropWhile digitRune (?d @ r) = r"
    using d endsToken_word [OF assms(2)] by (cases r; simp add: takeWhile_append2 dropWhile_append2 del: set_map)+
  moreover have "1 \<le> length (decimal n)" using decimal_runes(1) [of n] by (cases "decimal n") auto
  moreover have "length (decimal n) \<le> 9" using decimal_length [OF assms(1)] by simp
  ultimately show ?thesis using endsToken_word [OF assms(2)] foldl_undecimal [of 0 "decimal n"] undecimal_decimal [of n]
    by (simp add: refNumber_def Let_def) blast
qed

lemma sameToken_decimal:
  "n < 10 ^ 9 \<Longrightarrow> endsToken r \<Longrightarrow> sameToken (35 # map of_char (decimal n) @ r) = Some (n, length (decimal n) + 1)"
  by (simp add: sameToken_def refNumber_decimal)

section \<open>Written references are read back\<close>

datatype textRef = SameRef nat | CrossRef string string nat

definition refNameOK :: "string \<Rightarrow> bool" where
  "refNameOK s \<longleftrightarrow> s \<noteq> [] \<and> list_all ascii s \<and> alnumRune (of_char (hd s)) \<and> list_all (nameRune \<circ> of_char) s"

fun wfTextRef :: "textRef \<Rightarrow> bool" where
  "wfTextRef (SameRef n) \<longleftrightarrow> 1 \<le> n \<and> n < 10 ^ 9"
| "wfTextRef (CrossRef ow nm n) \<longleftrightarrow> 1 \<le> n \<and> n < 10 ^ 9 \<and> refNameOK ow \<and> refNameOK nm"

fun showTextRef :: "textRef \<Rightarrow> string" where
  "showTextRef (SameRef n) = ''#'' @ decimal n"
| "showTextRef (CrossRef ow nm n) = ow @ ''/'' @ nm @ ''#'' @ decimal n"

lemma refName_ok: "refNameOK s \<Longrightarrow> endsToken r \<Longrightarrow> refName (map of_char s @ r) = Some (map of_char s)"
proof -
  assume s: "refNameOK s" and r: "endsToken r"
  have "takeWhile nameRune (map of_char s @ r) = map of_char s"
    using s r by (cases r; subst takeWhile_append2) (auto simp: refNameOK_def endsToken_def list_all_iff)
  then show ?thesis using s by (cases s) (simp_all add: refName_def refNameOK_def)
qed

lemma ends_simps: "endsToken (47 # r)" "endsToken (35 # r)" "endsToken (32 # r)" "endsToken []" "endsToken (44 # r)"
  by (simp_all add: endsToken_def nameRune_def alnumRune_def digitRune_def)

lemma crossToken_ok:
  assumes "n < 10 ^ 9" "refNameOK ow" "refNameOK nm" "endsToken r"
  shows "crossToken (map of_char (showTextRef (CrossRef ow nm n)) @ r)
       = Some ((map of_char ow, map of_char nm, n), length (showTextRef (CrossRef ow nm n)))"
  using assms refName_ok [OF assms(2) ends_simps(1), of "map of_char nm @ 35 # map of_char (decimal n) @ r"]
    refName_ok [OF assms(3) ends_simps(2), of "map of_char (decimal n) @ r"] sameToken_decimal [OF assms(1,4)]
  by (simp add: crossToken_def Let_def)

lemma crossToken_number:
  assumes "endsToken r" "r = [] \<or> hd r \<noteq> 47"
  shows "crossToken (map of_char (decimal n) @ r) = None"
proof -
  let ?d = "map of_char (decimal n)"
  have d: "\<And>x. x \<in> set ?d \<Longrightarrow> digitRune x" using decimal_runes(2) unfolding list_all_iff by blast
  have "takeWhile nameRune (?d @ r) = ?d"
    using d digit_word assms(1) by (cases r) (simp_all add: endsToken_def takeWhile_append2 del: set_map)
  then show ?thesis using assms(2) by (simp add: crossToken_def refName_def Let_def)
qed

lemma refScan_skip: "list_all (\<lambda>c. \<not> leadRune c) d \<Longrightarrow> refScan tok (d @ r) = (fst (refScan tok r), d @ snd (refScan tok r))"
  by (induction d) (simp_all add: split_beta)

lemma leads: "leadRune 32" "leadRune 35" "\<not> alnumRune 35" "\<not> alnumRune 32"
  by (simp_all add: leadRune_def wordRune_def alnumRune_def digitRune_def)

fun crossOf :: "textRef list \<Rightarrow> (string \<times> string \<times> nat) list" where
  "crossOf [] = []"
| "crossOf (SameRef n # rs) = crossOf rs"
| "crossOf (CrossRef ow nm n # rs) = (ow, nm, n) # crossOf rs"

fun sameOf :: "textRef list \<Rightarrow> nat list" where
  "sameOf [] = []"
| "sameOf (SameRef n # rs) = n # sameOf rs"
| "sameOf (CrossRef ow nm n # rs) = sameOf rs"

abbreviation spaced :: "textRef list \<Rightarrow> nat list" where
  "spaced rs \<equiv> concat (map (\<lambda>r. 32 # map of_char (showTextRef r)) rs)"

fun afterCross :: "textRef list \<Rightarrow> nat list" where
  "afterCross [] = []"
| "afterCross (SameRef n # rs) = 32 # 35 # map of_char (decimal n) @ afterCross rs"
| "afterCross (CrossRef ow nm n # rs) = 32 # afterCross rs"

lemma ends_lists: "endsToken (spaced rs)" "spaced rs = [] \<or> hd (spaced rs) \<noteq> 47" "endsToken (afterCross rs)"
proof -
  show "endsToken (spaced rs)" "spaced rs = [] \<or> hd (spaced rs) \<noteq> 47" by (cases rs; simp add: ends_simps)+
  show "endsToken (afterCross rs)" by (cases rs rule: afterCross.cases) (simp_all add: ends_simps)
qed

lemma digits_no_lead: "list_all (\<lambda>c. \<not> leadRune c) (map of_char (decimal n))"
  using decimal_runes(2) [of n] digit_word by (simp add: list_all_iff)

lemma crossToken_hash: "crossToken (35 # r) = None" "crossToken (32 # r) = None"
  by (simp_all add: crossToken_def refName_def leads)

lemma refScan_cross:
  "list_all wfTextRef rs \<Longrightarrow>
   refScan crossToken (spaced rs) = (map (\<lambda>(ow, nm, n). (map of_char ow, map of_char nm, n)) (crossOf rs), afterCross rs)"
proof (induction rs rule: crossOf.induct)
  case (2 n rs)
  have "crossToken (map of_char (decimal n) @ spaced rs) = None" using crossToken_number ends_lists by blast
  then show ?case using 2 refScan_skip [OF digits_no_lead, of crossToken n "spaced rs"] by (simp add: leads crossToken_hash)
next
  case (3 ow nm n rs)
  then have "crossToken (map of_char (showTextRef (CrossRef ow nm n)) @ spaced rs)
      = Some ((map of_char ow, map of_char nm, n), length (showTextRef (CrossRef ow nm n)))"
    by (intro crossToken_ok ends_lists) simp_all
  then show ?case using 3 by (simp add: leads del: showTextRef.simps)
qed simp

lemma sameToken_space: "sameToken (32 # r) = None" "sameToken [] = None"
  by (simp_all add: sameToken_def)

lemma afterCross_head: "afterCross rs = [] \<or> hd (afterCross rs) = 32"
  by (cases rs rule: afterCross.cases) auto

lemma refScan_same: "list_all wfTextRef rs \<Longrightarrow> fst (refScan sameToken (afterCross rs)) = sameOf rs"
proof (induction rs rule: sameOf.induct)
  case (2 n rs)
  then have "sameToken (35 # map of_char (decimal n) @ afterCross rs) = Some (n, length (decimal n) + 1)"
    by (intro sameToken_decimal ends_lists) simp_all
  then show ?case using 2 by (simp add: leads split_beta)
next
  case (3 ow nm n rs)
  have "sameToken (afterCross rs) = None" using afterCross_head [of rs] sameToken_space by (cases "afterCross rs") auto
  then show ?case using 3 by (simp add: split_beta)
qed simp

text \<open>Searching from the start of a text is searching behind a blank.\<close>

lemma refFind_blank:
  "fst (refFind tok s) = fst (refScan tok (32 # s))"
  "snd (refScan tok (32 # s)) = (case tok s of None \<Rightarrow> 32 # snd (refFind tok s) | Some _ \<Rightarrow> snd (refFind tok s))"
  by (auto simp: refFind_def leads split_beta split: option.split)

lemma sameRefs_blank: "sameRefs body = fst (refScan sameToken (snd (refScan crossToken (32 # runesOf body))))"
proof (cases "crossToken (runesOf body)")
  case None
  then show ?thesis unfolding sameRefs_def refFind_blank(2) by (simp add: refFind_blank(1) del: refScan.simps)
next
  case (Some v)
  then obtain t where t: "snd (refFind crossToken (runesOf body)) = 32 # t" by (auto simp: refFind_def split_beta)
  have "fst (refFind sameToken (32 # t)) = fst (refScan sameToken (32 # t))"
    unfolding refFind_blank(1) by (simp add: leads sameToken_space split_beta)
  then show ?thesis using Some t unfolding sameRefs_def refFind_blank(2) by (simp del: refScan.simps)
qed

lemma spaced_Join:
  "rs \<noteq> [] \<Longrightarrow> 32 # map of_char (Join (map showTextRef rs) '' '') = spaced rs"
  by (induction rs rule: induct_list012) simp_all

lemma showTextRef_ascii: "wfTextRef r \<Longrightarrow> list_all ascii (showTextRef r)"
proof -
  have "list_all ascii (decimal n)" for n
    using decimal_digits [of _ n] by (fastforce simp: list_all_iff ascii_def)
  then show "wfTextRef r \<Longrightarrow> list_all ascii (showTextRef r)"
    by (cases r) (simp_all add: refNameOK_def ascii_def)
qed

text \<open>
  C23. References written in a text are found again: for every list of same-repository and cross-repository
  references with positive numbers of up to nine digits, joined by blanks, the cross-repository search finds exactly those of other repositories, in
  order, and the search for plain numbers exactly the others: the number of \<^verbatim>\<open>owner/repo#N\<close> is never taken for
  one of this repository.
\<close>

theorem references_roundtrip:
  assumes "list_all wfTextRef rs"
  shows "crossRefs (Join (map showTextRef rs) '' '') = crossOf rs \<and> sameRefs (Join (map showTextRef rs) '' '') = sameOf rs"
proof (cases "rs = []")
  case False
  let ?body = "Join (map showTextRef rs) '' ''"
  have "c \<in> set ?body \<Longrightarrow> ascii c" for c
    using set_Join [of "map showTextRef rs" "'' ''"] assms showTextRef_ascii by (fastforce simp: list_all_iff ascii_def)
  then have r: "runesOf ?body = map of_char ?body" by (intro runesOf_ascii) (simp add: list_all_iff)
  have s: "32 # runesOf ?body = spaced rs" unfolding r by (rule spaced_Join [OF False])
  have "crossRefs ?body = crossOf rs"
    unfolding crossRefs_def refFind_blank(1) s refScan_cross [OF assms] by (simp add: map_map comp_def case_prod_unfold)
  moreover have "sameRefs ?body = sameOf rs" unfolding sameRefs_blank s refScan_cross [OF assms] by (simp add: refScan_same [OF assms])
  ultimately show ?thesis by blast
qed (simp add: crossRefs_def sameRefs_def refFind_def crossToken_def refName_def sameToken_def)

lemma demo_decimals: "decimal 3 = ''3''" "decimal 9 = ''9''" "decimal 42 = ''42''" "decimal 5 = ''5''" "decimal 7 = ''7''"
  by code_simp+

theorem references_roundtrip_witness:
  "crossRefs ''#3 ana/site#9 #42'' = [(''ana'', ''site'', 9)] \<and> sameRefs ''#3 ana/site#9 #42'' = [3, 42]"
  using references_roundtrip [of "[SameRef 3, CrossRef ''ana'' ''site'' 9, SameRef 42]"]
  by (simp add: refNameOK_def ascii_def nameRune_def alnumRune_def digitRune_def demo_decimals)

text \<open>The comment on the expressions asks for a leading digit from 1 to 9; the expressions accept a leading zero, and zero itself.\<close>

lemma zero_reference_is_found: "sameRefs ''#0'' = [0] \<and> sameRefs ''#07'' = [7] \<and> crossRefs ''ana/site#0'' = [(''ana'', ''site'', 0)]"
  by code_simp

section \<open>Closing keywords are read back\<close>

lemma keywordToken_other:
  assumes "kw \<in> set linkKeywords" "kw' \<in> set linkKeywords" "kw' \<noteq> kw"
  shows "keywordToken (map of_char kw @ 32 # t) kw' = None"
  using assms unfolding linkKeywords_def
  by (simp only: list.set insert_iff empty_iff; elim disjE; simp add: keywordToken_def foldRune_def spaceRune_def)

lemma keywordToken_self:
  "kw \<in> set linkKeywords \<Longrightarrow> keywordToken (map of_char kw @ 32 # 35 # t) kw = map_option (\<lambda>(v, n). (v, length kw + 1 + n)) (sameToken (35 # t))"
  unfolding linkKeywords_def
  by (simp only: list.set insert_iff empty_iff; elim disjE; simp add: keywordToken_def foldRune_def spaceRune_def)

lemma firstSome_None: "(\<And>y. y \<in> set xs \<Longrightarrow> f y = None) \<Longrightarrow> firstSome f xs = None"
  by (induction xs) auto

lemma firstSome_unique:
  assumes "x \<in> set xs" "\<And>y. y \<in> set xs \<Longrightarrow> y \<noteq> x \<Longrightarrow> f y = None"
  shows "firstSome f xs = f x"
  using assms
proof (induction xs)
  case (Cons a xs)
  show ?case
  proof (cases "a = x")
    case True
    show ?thesis
    proof (cases "f x")
      case None
      then have "f y = None" if "y \<in> set xs" for y using Cons.prems(2) [of y] that by (cases "y = x") auto
      then show ?thesis using True None firstSome_None [of xs f] by simp
    qed (simp add: True)
  qed (use Cons in auto)
qed simp

lemma linkToken_keyword:
  assumes "kw \<in> set linkKeywords" "n < 10 ^ 9" "endsToken r"
  shows "linkToken (map of_char kw @ 32 # 35 # map of_char (decimal n) @ r) = Some (n, length kw + 2 + length (decimal n))"
proof -
  let ?s = "map of_char kw @ 32 # 35 # map of_char (decimal n) @ r"
  have "linkToken ?s = keywordToken ?s kw"
    unfolding linkToken_def using assms(1) keywordToken_other by (intro firstSome_unique) blast+
  then show ?thesis using keywordToken_self [OF assms(1)] sameToken_decimal [OF assms(2,3)] by simp
qed

lemma linkScan_keyword:
  assumes "kw \<in> set linkKeywords" "n < 10 ^ 9" "endsToken r"
  shows "linkScan False (map of_char kw @ 32 # 35 # map of_char (decimal n) @ r) = n # linkScan True r"
proof -
  have "kw \<noteq> []" using assms(1) by (auto simp: linkKeywords_def)
  then obtain c k where k: "kw = c # k" by (cases kw) auto
  have "drop (length kw + 2 + length (decimal n) - 1) (map of_char k @ 32 # 35 # map of_char (decimal n) @ r) = r"
    by (simp add: k)
  then show ?thesis using linkToken_keyword [OF assms] by (simp add: k)
qed

abbreviation showLink :: "string \<times> nat \<Rightarrow> string" where
  "showLink l \<equiv> fst l @ '' #'' @ decimal (snd l)"

lemma linkScan_list:
  assumes "\<forall>(kw, n) \<in> set ls. kw \<in> set linkKeywords \<and> n < 10 ^ 9"
  shows "linkScan False (map of_char (Join (map showLink ls) '', '')) = map snd ls"
  using assms
proof (induction ls rule: induct_list012)
  case (2 l)
  then show ?case using linkScan_keyword [of "fst l" "snd l" "[]"] by (cases l) (simp add: ends_simps)
next
  case (3 l m ls)
  let ?rest = "map of_char (Join (map showLink (m # ls)) '', '')"
  have "linkScan False (map of_char (fst l) @ 32 # 35 # map of_char (decimal (snd l)) @ 44 # 32 # ?rest)
      = snd l # linkScan True (44 # 32 # ?rest)"
    using 3(3) by (intro linkScan_keyword) (auto simp: ends_simps)
  moreover have "linkScan True (44 # 32 # ?rest) = linkScan False ?rest"
    by (simp add: wordRune_def alnumRune_def digitRune_def linkToken_def linkKeywords_def keywordToken_def foldRune_def)
  ultimately show ?case using 3(2) 3(3) by simp
qed simp

text \<open>
  C22. Closing keywords are understood: any list of keywords with issue numbers, written one after the other
  with commas, yields exactly those numbers, each once and in the order of their first mention.
\<close>

theorem linked_issues_roundtrip:
  assumes "\<forall>(kw, n) \<in> set ls. kw \<in> set linkKeywords \<and> n < 10 ^ 9"
  shows "parseLinkedIssues (Join (map showLink ls) '', '') = firstOnes (map snd ls)"
proof -
  let ?body = "Join (map showLink ls) '', ''"
  have dec: "list_all ascii (decimal n)" for n
    using decimal_digits [of _ n] by (fastforce simp: list_all_iff ascii_def)
  have kw: "list_all ascii k" if "k \<in> set linkKeywords" for k using that by (auto simp: linkKeywords_def ascii_def)
  have "list_all ascii (showLink l)" if "l \<in> set ls" for l
    using assms that kw dec by (cases l) (auto simp: ascii_def)
  then have "c \<in> set ?body \<Longrightarrow> ascii c" for c
    using set_Join [of "map showLink ls" "'', ''"] by (fastforce simp: list_all_iff ascii_def)
  then have "runesOf ?body = map of_char ?body" by (intro runesOf_ascii) (simp add: list_all_iff)
  then show ?thesis using linkScan_list [OF assms] by (simp add: parseLinkedIssues_def)
qed

theorem linked_issues_roundtrip_witness:
  "parseLinkedIssues ''fixes #5, closed #7, fixes #5'' = [5, 7]"
  using linked_issues_roundtrip [of "[(''fixes'', 5), (''closed'', 7), (''fixes'', 5)]"]
  by (simp add: linkKeywords_def demo_decimals firstOnes_def)

text \<open>Any amount of white space may separate keyword and number, line breaks included.\<close>

lemma keyword_across_lines: "parseLinkedIssues (''fix'' @ [CHR 0x0A, CHR 0x0A] @ ''#5'') = [5]"
  by code_simp

end
