(* ===== verification/IssueTracker.thy ===== *)
theory IssueTracker
  imports IssueRefs
begin

text \<open>
  Issues, comments and their timeline (\<^verbatim>\<open>src/internal/issues/issues.go\<close>, \<^verbatim>\<open>references.go\<close>, \<^verbatim>\<open>notif_emit.go\<close>). Tables
  are lists of rows; a statement either changes them or fails, for the reasons the database has
  (constraints, foreign keys) or for one given from outside by a table of faults. A transaction that
  fails leaves everything as it was. Time stamps and the optional audit log are left out. The error type
  also has the errors of the packages built on this one, pull requests and reviews.
\<close>

section \<open>Transactions\<close>

datatype tracker_error =
    ErrEmptyTitle | ErrTitleTooLong | ErrNullByteInTitle | ErrMultilineTitle | ErrUnicodeControlInTitle
  | ErrBodyTooLong | ErrNullByteInBody | ErrEmptyComment | ErrCommentTooLong | ErrNullByteInComment
  | ErrCommentRateLimit | ErrIssueLocked | ErrIssueNotFound | ErrAlreadyInState | ErrBadState
  | ErrSameBranch | ErrBaseNotFound | ErrHeadNotFound | ErrNoCommitsToMerge | ErrAlreadyMerged | ErrAlreadyClosed
  | ErrMergeBlocked | ErrHeadAlreadyMerged | ErrConcurrentMerge | ErrPRNotFound | ErrBranchUpToDate | ErrUpdateBranchMethod
  | DuplicatePRError go_int64 string string
  | ErrInvalidState | ErrAuthorCannotApprove | ErrReviewerLimitReached | ErrReviewerAlreadyPending | ErrReviewerTargetRequired | ErrReviewNotFound
  | ErrEmptyBody | ErrCommentNotOnPR | ErrAlreadyResolved | ErrNotResolved
  | GitErr string | GateErr string | StoreErr string string

type_synonym ('s, 'a) tx = "'s \<Rightarrow> tracker_error + 'a \<times> 's"
type_synonym faults = "string \<Rightarrow> string option"

definition okTx :: "'a \<Rightarrow> ('s, 'a) tx" where
  "okTx x s = Inr (x, s)"

definition failTx :: "tracker_error \<Rightarrow> ('s, 'a) tx" where
  "failTx e s = Inl e"

definition bindTx :: "('s, 'a) tx \<Rightarrow> ('a \<Rightarrow> ('s, 'b) tx) \<Rightarrow> ('s, 'b) tx" where
  "bindTx m f s = (case m s of Inl e \<Rightarrow> Inl e | Inr (x, s') \<Rightarrow> f x s')"

definition readTx :: "('s \<Rightarrow> 'a) \<Rightarrow> ('s, 'a) tx" where
  "readTx f s = Inr (f s, s)"

text \<open>A statement: refused by a fault or by a constraint, otherwise an update with a result.\<close>

definition stmt :: "faults \<Rightarrow> string \<Rightarrow> ('s \<Rightarrow> bool) \<Rightarrow> ('s \<Rightarrow> 'a \<times> 's) \<Rightarrow> ('s, 'a) tx" where
  "stmt flt name ok upd s = (case flt name of Some e \<Rightarrow> Inl (StoreErr name e)
     | None \<Rightarrow> if ok s then Inr (upd s) else Inl (StoreErr name ''constraint''))"

definition transaction :: "faults \<Rightarrow> ('s, 'a) tx \<Rightarrow> 's \<Rightarrow> (tracker_error + 'a) \<times> 's" where
  "transaction flt body s = (case flt ''Begin'' of Some e \<Rightarrow> (Inl (StoreErr ''Begin'' e), s) | None \<Rightarrow>
     (case body s of Inl e \<Rightarrow> (Inl e, s) | Inr (x, s') \<Rightarrow>
     (case flt ''Commit'' of Some e \<Rightarrow> (Inl (StoreErr ''Commit'' e), s) | None \<Rightarrow> (Inr x, s'))))"

definition updateWhere :: "('r \<Rightarrow> bool) \<Rightarrow> ('r \<Rightarrow> 'r) \<Rightarrow> 'r list \<Rightarrow> 'r list" where
  "updateWhere P f rows = map (\<lambda>r. if P r then f r else r) rows"

section \<open>Tables\<close>

record Issue =
  isID :: go_int64
  isRepo :: go_int64
  isNumber :: go_int64
  isKind :: string
  isTitle :: string
  isBody :: string
  isHtml :: "string option"
  isAuthor :: "go_int64 option"
  isState :: string
  isReason :: "string option"
  isClosedBy :: "go_int64 option"
  isLocked :: bool
  isLockReason :: "string option"

record IssueEvent =
  evIssue :: go_int64
  evActor :: "go_int64 option"
  evKind :: string
  evMeta :: string
  evRef :: "go_int64 option"

record IssueReference =
  refTarget :: go_int64
  refKind :: string
  refSource :: "go_int64 option"
  refObject :: "go_int64 option"

record IssueComment =
  coID :: go_int64
  coIssue :: go_int64
  coAuthor :: "go_int64 option"
  coBody :: string
  coHtml :: "string option"

record DomainEvent =
  deActor :: "go_int64 option"
  deKind :: string
  deRepo :: go_int64
  deSource :: go_int64
  dePublic :: bool
  deMentions :: "go_int64 list"

record Tracker =
  Issues :: "Issue list"
  Counters :: "go_int64 \<rightharpoonup> go_int64"
  NextIssueID :: go_int64
  Events :: "IssueEvent list"
  References :: "IssueReference list"
  Comments :: "IssueComment list"
  NextCommentID :: go_int64
  DomainEvents :: "DomainEvent list"

text \<open>
  What the package reads elsewhere: faults, the markdown renderer with the users it finds mentioned, the
  principals table, repository names, visibility, and the case table of the unicode package.
\<close>

record TrackerEnv =
  flt :: faults
  markdown :: "string \<Rightarrow> string \<times> go_int64 list"
  principalOf :: "string \<Rightarrow> (string \<times> go_int64) option"
  repoNamed :: "string \<Rightarrow> go_int64 \<Rightarrow> string \<Rightarrow> go_int64 option"
  repoPublic :: "go_int64 \<Rightarrow> bool"
  caseTable :: "nat \<Rightarrow> nat"

definition renderBody :: "TrackerEnv \<Rightarrow> string \<Rightarrow> string \<times> go_int64 list" where
  "renderBody env body = (if body = '''' then ('''', []) else markdown env body)"

definition pgInt8 :: "go_int64 \<Rightarrow> go_int64 option" where
  "pgInt8 v = (if v \<noteq> 0 then Some v else None)"

definition pgText :: "string \<Rightarrow> string option" where
  "pgText s = (if s \<noteq> '''' then Some s else None)"

section \<open>Queries\<close>

definition GetIssueByID :: "go_int64 \<Rightarrow> 'x Tracker_scheme \<Rightarrow> Issue option" where
  "GetIssueByID i db = find (\<lambda>r. isID r = i) (Issues db)"

definition GetIssueByNumber :: "go_int64 \<Rightarrow> go_int64 \<Rightarrow> 'x Tracker_scheme \<Rightarrow> Issue option" where
  "GetIssueByNumber repo num db = find (\<lambda>r. isRepo r = repo \<and> isNumber r = num) (Issues db)"

definition issueStates :: "string set" where
  "issueStates = {''open'', ''closed''}"

definition stateReasons :: "string set" where
  "stateReasons = {''completed'', ''not_planned'', ''reopened'', ''duplicate''}"

text \<open>\<^verbatim>\<open>UPDATE ... WHERE id = $1 AND state <> $2\<close>; the result is the number of rows.\<close>

definition SetIssueState :: "faults \<Rightarrow> go_int64 \<Rightarrow> string \<Rightarrow> string option \<Rightarrow> go_int64 option \<Rightarrow> ('x Tracker_scheme, nat) tx" where
  "SetIssueState f i st reason by = stmt f ''SetIssueState'' (\<lambda>_. st \<in> issueStates \<and> (case reason of None \<Rightarrow> True | Some r \<Rightarrow> r \<in> stateReasons))
     (\<lambda>db. (length (filter (\<lambda>r. isID r = i \<and> isState r \<noteq> st) (Issues db)),
            db\<lparr>Issues := updateWhere (\<lambda>r. isID r = i \<and> isState r \<noteq> st)
                 (\<lambda>r. r\<lparr>isState := st, isReason := reason, isClosedBy := by\<rparr>) (Issues db)\<rparr>))"

definition InsertIssueEvent :: "faults \<Rightarrow> IssueEvent \<Rightarrow> ('x Tracker_scheme, unit) tx" where
  "InsertIssueEvent f e = stmt f ''InsertIssueEvent'' (\<lambda>db. GetIssueByID (evIssue e) db \<noteq> None) (\<lambda>db. ((), db\<lparr>Events := Events db @ [e]\<rparr>))"

definition InsertIssueReference :: "faults \<Rightarrow> IssueReference \<Rightarrow> ('x Tracker_scheme, unit) tx" where
  "InsertIssueReference f r = stmt f ''InsertIssueReference'' (\<lambda>db. GetIssueByID (refTarget r) db \<noteq> None)
     (\<lambda>db. ((), db\<lparr>References := References db @ [r]\<rparr>))"

definition UpdateIssueTitleBody :: "faults \<Rightarrow> go_int64 \<Rightarrow> string \<Rightarrow> string \<Rightarrow> string option \<Rightarrow> ('x Tracker_scheme, unit) tx" where
  "UpdateIssueTitleBody f i title body html = stmt f ''UpdateIssueTitleBody'' (\<lambda>_. True)
     (\<lambda>db. ((), db\<lparr>Issues := updateWhere (\<lambda>r. isID r = i) (\<lambda>r. r\<lparr>isTitle := title, isBody := body, isHtml := html\<rparr>) (Issues db)\<rparr>))"

definition SetIssueLock :: "faults \<Rightarrow> go_int64 \<Rightarrow> bool \<Rightarrow> string option \<Rightarrow> ('x Tracker_scheme, unit) tx" where
  "SetIssueLock f i locked reason = stmt f ''SetIssueLock'' (\<lambda>_. True)
     (\<lambda>db. ((), db\<lparr>Issues := updateWhere (\<lambda>r. isID r = i) (\<lambda>r. r\<lparr>isLocked := locked, isLockReason := reason\<rparr>) (Issues db)\<rparr>))"

definition EnsureRepoIssueCounter :: "faults \<Rightarrow> go_int64 \<Rightarrow> ('x Tracker_scheme, unit) tx" where
  "EnsureRepoIssueCounter f repo = stmt f ''EnsureRepoIssueCounter'' (\<lambda>_. True)
     (\<lambda>db. ((), if Counters db repo = None then db\<lparr>Counters := (Counters db)(repo \<mapsto> 1)\<rparr> else db))"

definition AllocateIssueNumber :: "faults \<Rightarrow> go_int64 \<Rightarrow> ('x Tracker_scheme, go_int64) tx" where
  "AllocateIssueNumber f repo = stmt f ''AllocateIssueNumber'' (\<lambda>db. Counters db repo \<noteq> None)
     (\<lambda>db. let n = the (Counters db repo) in (n, db\<lparr>Counters := (Counters db)(repo \<mapsto> n + 1)\<rparr>))"

text \<open>\<^verbatim>\<open>UNIQUE (repo_id, number)\<close> and the kinds of the enumeration type.\<close>

definition CreateIssue :: "faults \<Rightarrow> go_int64 \<Rightarrow> go_int64 \<Rightarrow> string \<Rightarrow> string \<Rightarrow> string \<Rightarrow> go_int64 option \<Rightarrow> ('x Tracker_scheme, Issue) tx" where
  "CreateIssue f repo num kind title body author = stmt f ''CreateIssue''
     (\<lambda>db. GetIssueByNumber repo num db = None \<and> kind \<in> {''issue'', ''pr''})
     (\<lambda>db. let row = \<lparr>isID = NextIssueID db, isRepo = repo, isNumber = num, isKind = kind, isTitle = title, isBody = body, isHtml = None,
                      isAuthor = author, isState = ''open'', isReason = None, isClosedBy = None, isLocked = False, isLockReason = None\<rparr>
           in (row, db\<lparr>Issues := Issues db @ [row], NextIssueID := NextIssueID db + 1\<rparr>))"

definition CreateIssueComment :: "faults \<Rightarrow> go_int64 \<Rightarrow> go_int64 option \<Rightarrow> string \<Rightarrow> string option \<Rightarrow> ('x Tracker_scheme, IssueComment) tx" where
  "CreateIssueComment f i author body html = stmt f ''CreateIssueComment'' (\<lambda>db. GetIssueByID i db \<noteq> None)
     (\<lambda>db. let c = \<lparr>coID = NextCommentID db, coIssue = i, coAuthor = author, coBody = body, coHtml = html\<rparr>
           in (c, db\<lparr>Comments := Comments db @ [c], NextCommentID := NextCommentID db + 1\<rparr>))"

definition emitDomainEvent :: "faults \<Rightarrow> DomainEvent \<Rightarrow> ('x Tracker_scheme, unit) tx" where
  "emitDomainEvent f e = stmt f ''InsertDomainEvent'' (\<lambda>_. True) (\<lambda>db. ((), db\<lparr>DomainEvents := DomainEvents db @ [e]\<rparr>))"

definition emitIssueEventTx :: "faults \<Rightarrow> string \<Rightarrow> Issue \<Rightarrow> go_int64 \<Rightarrow> bool \<Rightarrow> go_int64 list \<Rightarrow> ('x Tracker_scheme, unit) tx" where
  "emitIssueEventTx f kind issue actor pub mentions =
     emitDomainEvent f \<lparr>deActor = pgInt8 actor, deKind = kind, deRepo = isRepo issue, deSource = isID issue, dePublic = pub, deMentions = mentions\<rparr>"

section \<open>References\<close>

definition crossTarget :: "TrackerEnv \<Rightarrow> 'x Tracker_scheme \<Rightarrow> string \<times> string \<times> nat \<Rightarrow> go_int64 option" where
  "crossTarget env db r = (case r of (owner, name, num) \<Rightarrow>
     (case principalOf env (ToLower (caseTable env) owner) of None \<Rightarrow> None | Some (kind, pid) \<Rightarrow>
      if kind = ''user'' \<or> kind = ''org'' then
        (case repoNamed env kind pid name of None \<Rightarrow> None | Some rid \<Rightarrow> map_option isID (GetIssueByNumber rid (int num) db))
      else None))"

definition refTargets :: "TrackerEnv \<Rightarrow> 'x Tracker_scheme \<Rightarrow> Issue \<Rightarrow> string \<Rightarrow> go_int64 list" where
  "refTargets env db source body =
     List.map_filter (crossTarget env db) (crossRefs body)
     @ List.map_filter (\<lambda>num. map_option isID (GetIssueByNumber (isRepo source) (int num) db)) (sameRefs body)"

text \<open>\<open>insertRef\<close> over the targets; \<open>seen\<close> holds those already recorded.\<close>

fun insertRefs :: "faults \<Rightarrow> Issue \<Rightarrow> string \<Rightarrow> go_int64 \<Rightarrow> go_int64 list \<Rightarrow> go_int64 set \<Rightarrow> ('x Tracker_scheme, unit) tx" where
  "insertRefs f source srcKind obj [] seen = okTx ()"
| "insertRefs f source srcKind obj (t # ts) seen =
     (if t = isID source \<or> t \<in> seen then insertRefs f source srcKind obj ts seen
      else bindTx (InsertIssueReference f \<lparr>refTarget = t, refKind = srcKind, refSource = Some (isID source), refObject = pgInt8 obj\<rparr>) (\<lambda>_.
           bindTx (InsertIssueEvent f \<lparr>evIssue = t, evActor = isAuthor source, evKind = ''referenced'',
                     evMeta = ''{\"source_issue_id\":'' @ Itoa (isID source) @ ''}'', evRef = Some (isID source)\<rparr>) (\<lambda>_.
           insertRefs f source srcKind obj ts (insert t seen))))"

definition insertReferencesFromBody :: "TrackerEnv \<Rightarrow> Issue \<Rightarrow> string \<Rightarrow> string \<Rightarrow> go_int64 \<Rightarrow> ('x Tracker_scheme, unit) tx" where
  "insertReferencesFromBody env source body srcKind obj =
     (if body = '''' then okTx ()
      else bindTx (readTx (\<lambda>db. refTargets env db source body)) (\<lambda>ts. insertRefs (flt env) source srcKind obj ts {}))"

section \<open>Operations\<close>

definition hostileRunes :: "nat set" where
  "hostileRunes = {0x200B, 0x200C, 0x200D, 0x200E, 0x200F, 0x202A, 0x202B, 0x202C, 0x202D, 0x202E,
                   0x2066, 0x2067, 0x2068, 0x2069, 0xFEFF}"

definition containsHostileUnicode :: "string \<Rightarrow> bool" where
  "containsHostileUnicode s = list_ex (\<lambda>r. r \<in> hostileRunes) (runesOf s)"

text \<open>The checks of a trimmed title and of a body, in order.\<close>

definition titleError :: "string \<Rightarrow> tracker_error option" where
  "titleError title =
     (if title = '''' then Some ErrEmptyTitle
      else if length title > 256 then Some ErrTitleTooLong
      else if CHR 0x00 \<in> set title then Some ErrNullByteInTitle
      else if CHR 0x0A \<in> set title \<or> CHR 0x0D \<in> set title then Some ErrMultilineTitle
      else if containsHostileUnicode title then Some ErrUnicodeControlInTitle
      else None)"

definition bodyError :: "string \<Rightarrow> tracker_error option" where
  "bodyError body =
     (if length body > 65535 then Some ErrBodyTooLong
      else if CHR 0x00 \<in> set body then Some ErrNullByteInBody
      else None)"

record CreateParams =
  cpRepoID :: go_int64
  cpAuthor :: go_int64
  cpTitle :: string
  cpBody :: string
  cpKind :: string

definition CreateInTx :: "TrackerEnv \<Rightarrow> CreateParams \<Rightarrow> ('x Tracker_scheme, Issue) tx" where
  "CreateInTx env p =
     (let title = TrimSpace (cpTitle p); body = cpBody p; f = flt env; html = pgText (fst (renderBody env body)) in
      case titleError title of Some e \<Rightarrow> failTx e | None \<Rightarrow>
      case bodyError body of Some e \<Rightarrow> failTx e | None \<Rightarrow>
      let kind = (if cpKind p = '''' then ''issue'' else cpKind p) in
      bindTx (EnsureRepoIssueCounter f (cpRepoID p)) (\<lambda>_.
      bindTx (AllocateIssueNumber f (cpRepoID p)) (\<lambda>num.
      bindTx (CreateIssue f (cpRepoID p) num kind title body (pgInt8 (cpAuthor p))) (\<lambda>row0.
      let row = row0\<lparr>isHtml := html\<rparr> in
      bindTx (UpdateIssueTitleBody f (isID row) (isTitle row) (isBody row) html) (\<lambda>_.
      bindTx (insertReferencesFromBody env row body ''issue_body'' (isID row)) (\<lambda>_.
      bindTx (emitIssueEventTx f (if kind = ''pr'' then ''pr_opened'' else ''issue_created'') row (cpAuthor p)
               (repoPublic env (cpRepoID p)) (snd (renderBody env body))) (\<lambda>_.
      okTx row)))))))"

definition Create :: "TrackerEnv \<Rightarrow> CreateParams \<Rightarrow> 'x Tracker_scheme \<Rightarrow> (tracker_error + Issue) \<times> 'x Tracker_scheme" where
  "Create env p db = transaction (flt env) (CreateInTx env p) db"

record CommentCreateParams =
  ccIssueID :: go_int64
  ccAuthor :: go_int64
  ccBody :: string

text \<open>\<open>limited\<close> tells whether the throttle refuses another comment of the author.\<close>

definition AddComment ::
  "TrackerEnv \<Rightarrow> (go_int64 \<Rightarrow> bool) option \<Rightarrow> CommentCreateParams \<Rightarrow> 'x Tracker_scheme \<Rightarrow> (tracker_error + IssueComment) \<times> 'x Tracker_scheme" where
  "AddComment env limited p db =
     (let body = TrimSpace (ccBody p); f = flt env in
      if body = '''' then (Inl ErrEmptyComment, db)
      else if length body > 65535 then (Inl ErrCommentTooLong, db)
      else if CHR 0x00 \<in> set body then (Inl ErrNullByteInComment, db)
      else if (case limited of None \<Rightarrow> False | Some l \<Rightarrow> ccAuthor p \<noteq> 0 \<and> l (ccAuthor p)) then (Inl ErrCommentRateLimit, db)
      else case f ''GetIssueByID'' of Some e \<Rightarrow> (Inl (StoreErr ''GetIssueByID'' e), db) | None \<Rightarrow>
      case GetIssueByID (ccIssueID p) db of None \<Rightarrow> (Inl ErrIssueNotFound, db) | Some issue \<Rightarrow>
      if isLocked issue then (Inl ErrIssueLocked, db)
      else let r = renderBody env body in
      transaction f (
        bindTx (CreateIssueComment f (ccIssueID p) (pgInt8 (ccAuthor p)) body (pgText (fst r))) (\<lambda>c.
        bindTx (insertReferencesFromBody env issue body ''comment_body'' (coID c)) (\<lambda>_.
        bindTx (emitIssueEventTx f (if isKind issue = ''pr'' then ''pr_comment_created'' else ''issue_comment_created'') issue (ccAuthor p)
                 (repoPublic env (isRepo issue)) (snd r)) (\<lambda>_.
        okTx c)))) db)"

text \<open>
  \<open>Edit\<close> with optional title and body. The row is read again after the commit, so a failing read reports an
  error for an edit that was made.
\<close>

definition editTx :: "TrackerEnv \<Rightarrow> go_int64 \<Rightarrow> string option \<Rightarrow> string option \<Rightarrow> ('x Tracker_scheme, unit) tx" where
  "editTx env i title body =
     bindTx (stmt (flt env) ''GetIssueByID'' (\<lambda>db. GetIssueByID i db \<noteq> None) (\<lambda>db. (the (GetIssueByID i db), db))) (\<lambda>cur.
     let t = (case title of Some s \<Rightarrow> TrimSpace s | None \<Rightarrow> isTitle cur); b = (case body of Some s \<Rightarrow> s | None \<Rightarrow> isBody cur) in
     case (case title of Some s \<Rightarrow> titleError t | None \<Rightarrow> None) of Some e \<Rightarrow> failTx e | None \<Rightarrow>
     case (case body of Some s \<Rightarrow> bodyError b | None \<Rightarrow> None) of Some e \<Rightarrow> failTx e | None \<Rightarrow>
     bindTx (UpdateIssueTitleBody (flt env) i t b (pgText (fst (renderBody env b)))) (\<lambda>_.
     case body of None \<Rightarrow> okTx () | Some s \<Rightarrow>
       bindTx (readTx (GetIssueByID i)) (\<lambda>fresh.
         case fresh of None \<Rightarrow> okTx () | Some r \<Rightarrow> insertReferencesFromBody env r b ''issue_body'' (isID r))))"

definition Edit :: "TrackerEnv \<Rightarrow> go_int64 \<Rightarrow> string option \<Rightarrow> string option \<Rightarrow> 'x Tracker_scheme \<Rightarrow> (tracker_error + Issue) \<times> 'x Tracker_scheme" where
  "Edit env i title body db =
     (case transaction (flt env) (editTx env i title body) db of
        (Inl e, db') \<Rightarrow> (Inl e, db')
      | (Inr _, db') \<Rightarrow> (case flt env ''ReadBack'' of Some e \<Rightarrow> (Inl (StoreErr ''ReadBack'' e), db') | None \<Rightarrow>
          (case GetIssueByID i db' of None \<Rightarrow> (Inl (StoreErr ''ReadBack'' ''no rows''), db') | Some r \<Rightarrow> (Inr r, db'))))"

text \<open>\<open>setState\<close>: the transaction tells whether a row changed; only then events are written.\<close>

definition setStateTx :: "TrackerEnv \<Rightarrow> go_int64 \<Rightarrow> go_int64 \<Rightarrow> string \<Rightarrow> string \<Rightarrow> go_int64 \<Rightarrow> ('x Tracker_scheme, bool) tx" where
  "setStateTx env actor i newState reason commentID =
     (let f = flt env; closedBy = (if newState = ''closed'' then pgInt8 actor else None);
          kind = (if newState = ''open'' then ''reopened'' else ''closed'');
          meta = (if commentID \<noteq> 0 then ''{\"comment_id\":'' @ Itoa commentID @ ''}'' else ''{}'') in
      bindTx (SetIssueState f i newState (pgText reason) closedBy) (\<lambda>rows.
      if rows = 0 then okTx False
      else bindTx (InsertIssueEvent f \<lparr>evIssue = i, evActor = pgInt8 actor, evKind = kind, evMeta = meta, evRef = None\<rparr>) (\<lambda>_.
           bindTx (readTx (GetIssueByID i)) (\<lambda>r.
           case r of None \<Rightarrow> okTx True | Some issue \<Rightarrow>
             bindTx (emitIssueEventTx f ((if isKind issue = ''pr'' then ''pr_'' else ''issue_'') @ kind) issue actor (repoPublic env (isRepo issue)) [])
               (\<lambda>_. okTx True)))))"

definition setState :: "TrackerEnv \<Rightarrow> go_int64 \<Rightarrow> go_int64 \<Rightarrow> string \<Rightarrow> string \<Rightarrow> go_int64 \<Rightarrow> 'x Tracker_scheme \<Rightarrow> (tracker_error + unit) \<times> 'x Tracker_scheme" where
  "setState env actor i newState reason commentID db =
     (if newState \<notin> issueStates then (Inl ErrBadState, db)
      else case transaction (flt env) (setStateTx env actor i newState reason commentID) db of
        (Inl e, db') \<Rightarrow> (Inl e, db')
      | (Inr changed, db') \<Rightarrow> (if changed then Inr () else Inl ErrAlreadyInState, db'))"

definition SetLock :: "TrackerEnv \<Rightarrow> go_int64 \<Rightarrow> go_int64 \<Rightarrow> bool \<Rightarrow> string \<Rightarrow> 'x Tracker_scheme \<Rightarrow> (tracker_error + unit) \<times> 'x Tracker_scheme" where
  "SetLock env actor i locked reason db = transaction (flt env)
     (bindTx (SetIssueLock (flt env) i locked (pgText reason)) (\<lambda>_.
      InsertIssueEvent (flt env) \<lparr>evIssue = i, evActor = pgInt8 actor, evKind = (if locked then ''locked'' else ''unlocked''), evMeta = ''{}'', evRef = None\<rparr>)) db"

text \<open>\<^verbatim>\<open>DELETE ... WHERE kind = 'issue'\<close> with its cascades.\<close>

definition Delete :: "TrackerEnv \<Rightarrow> go_int64 \<Rightarrow> 'x Tracker_scheme \<Rightarrow> (tracker_error + unit) \<times> 'x Tracker_scheme" where
  "Delete env i db = (case flt env ''DeleteIssue'' of Some e \<Rightarrow> (Inl (StoreErr ''DeleteIssue'' e), db) | None \<Rightarrow> (Inr (),
     if list_ex (\<lambda>r. isID r = i \<and> isKind r = ''issue'') (Issues db)
     then db\<lparr>Issues := filter (\<lambda>r. isID r \<noteq> i) (Issues db), Events := filter (\<lambda>e. evIssue e \<noteq> i) (Events db),
             Comments := filter (\<lambda>c. coIssue c \<noteq> i) (Comments db),
             References := map (\<lambda>r. if refSource r = Some i then r\<lparr>refSource := None\<rparr> else r) (filter (\<lambda>r. refTarget r \<noteq> i) (References db))\<rparr>
     else db))"

section \<open>Effects of statements\<close>

lemma bindTx_Inr: "bindTx m f s = Inr (y, s'') \<longleftrightarrow> (\<exists>x s'. m s = Inr (x, s') \<and> f x s' = Inr (y, s''))"
  by (auto simp: bindTx_def split: sum.split)

lemma tx_basic:
  "okTx x s = Inr (y, s') \<longleftrightarrow> y = x \<and> s' = s"
  "failTx e s = Inr (y, s') \<longleftrightarrow> False"
  "readTx f s = Inr (y, s') \<longleftrightarrow> y = f s \<and> s' = s"
  "stmt q n ok upd s = Inr (y, s') \<longleftrightarrow> q n = None \<and> ok s \<and> (y, s') = upd s"
  by (auto simp: okTx_def failTx_def readTx_def stmt_def split: option.split)

lemmas tx_simps = bindTx_Inr tx_basic

lemma transaction_Inr: "transaction q body s = (Inr x, s') \<longleftrightarrow> q ''Begin'' = None \<and> q ''Commit'' = None \<and> body s = Inr (x, s')"
  by (auto simp: transaction_def split: option.split sum.split)

lemma transaction_Inl: "transaction q body s = (Inl e, s') \<Longrightarrow> s' = s"
  by (auto simp: transaction_def split: option.split_asm sum.split_asm)

lemma updateWhere_simps [simp]:
  "updateWhere P f [] = []" "updateWhere P f (r # rs) = (if P r then f r else r) # updateWhere P f rs"
  "updateWhere P f (rs @ ss) = updateWhere P f rs @ updateWhere P f ss"
  "length (updateWhere P f rs) = length rs"
  by (simp_all add: updateWhere_def)

lemma updateWhere_id: "(\<And>r. r \<in> set rs \<Longrightarrow> \<not> P r) \<Longrightarrow> updateWhere P f rs = rs"
  by (induction rs) auto

lemma map_updateWhere: "(\<And>r. g (f r) = g r) \<Longrightarrow> map g (updateWhere P f rs) = map g rs"
  by (induction rs) auto

lemma set_updateWhere: "set (updateWhere P f rs) = (\<lambda>r. if P r then f r else r) ` set rs"
  by (simp add: updateWhere_def)

section \<open>The timeline\<close>

text \<open>The state of an issue as its timeline tells it.\<close>

definition replayEvent :: "go_int64 \<Rightarrow> string \<Rightarrow> IssueEvent \<Rightarrow> string" where
  "replayEvent i st e = (if evIssue e \<noteq> i then st else if evKind e = ''closed'' \<or> evKind e = ''merged'' then ''closed''
     else if evKind e = ''reopened'' then ''open'' else st)"

definition replay :: "IssueEvent list \<Rightarrow> go_int64 \<Rightarrow> string" where
  "replay es i = foldl (replayEvent i) ''open'' es"

definition stateKinds :: "string set" where
  "stateKinds = {''closed'', ''merged'', ''reopened''}"

lemma replay_append: "replay (es @ fs) i = foldl (replayEvent i) (replay es i) fs"
  by (simp add: replay_def)

lemma replay_quiet: "(\<And>e. e \<in> set fs \<Longrightarrow> evKind e \<notin> stateKinds \<or> evIssue e \<noteq> i) \<Longrightarrow> foldl (replayEvent i) st fs = st"
  by (induction fs) (auto simp: replayEvent_def stateKinds_def)

text \<open>
  The invariant of the tracker: issue ids and numbers are unique and below their counters, every event
  belongs to an issue, and the state of an issue is the one its timeline replays to.
\<close>

definition trackerInv :: "'x Tracker_scheme \<Rightarrow> bool" where
  "trackerInv db \<longleftrightarrow>
     distinct (map isID (Issues db)) \<and>
     distinct (map (\<lambda>r. (isRepo r, isNumber r)) (Issues db)) \<and>
     (\<forall>repo n. Counters db repo = Some n \<longrightarrow> 0 < n) \<and>
     (\<forall>r \<in> set (Issues db). isID r < NextIssueID db \<and> 0 < isNumber r \<and> (\<exists>n. Counters db (isRepo r) = Some n \<and> isNumber r < n) \<and>
        isState r \<in> issueStates \<and> isState r = replay (Events db) (isID r)) \<and>
     (\<forall>e \<in> set (Events db). evIssue e \<in> isID ` set (Issues db))"

definition noted :: "'x Tracker_scheme \<Rightarrow> 'x Tracker_scheme \<Rightarrow> bool" where
  "noted db db' \<longleftrightarrow> (\<exists>es rs cs n ds. db' = db\<lparr>Events := Events db @ es, References := rs, Comments := cs, NextCommentID := n, DomainEvents := ds\<rparr> \<and>
     (\<forall>e \<in> set es. evKind e \<notin> stateKinds \<and> evIssue e \<in> isID ` set (Issues db)))"

lemma GetIssueByID_Some: "GetIssueByID i db = Some r \<Longrightarrow> r \<in> set (Issues db) \<and> isID r = i"
  by (auto simp: GetIssueByID_def find_Some_iff dest: nth_mem)

lemma GetIssueByID_None: "GetIssueByID i db = None \<longleftrightarrow> i \<notin> isID ` set (Issues db)"
  by (auto simp: GetIssueByID_def find_None_iff)

lemma noted_refl: "noted db db"
proof -
  have "db = db\<lparr>Events := Events db @ [], References := References db, Comments := Comments db, NextCommentID := NextCommentID db, DomainEvents := DomainEvents db\<rparr>"
    by simp
  then show ?thesis unfolding noted_def by fastforce
qed

lemma noted_trans: "noted a b \<Longrightarrow> noted b c \<Longrightarrow> noted a c"
proof -
  assume "noted a b" "noted b c"
  then obtain es rs cs n ds fs ss ts m us where
    b: "b = a\<lparr>Events := Events a @ es, References := rs, Comments := cs, NextCommentID := n, DomainEvents := ds\<rparr>" and
    c: "c = b\<lparr>Events := Events b @ fs, References := ss, Comments := ts, NextCommentID := m, DomainEvents := us\<rparr>" and
    k: "\<forall>e \<in> set es. evKind e \<notin> stateKinds \<and> evIssue e \<in> isID ` set (Issues a)"
       "\<forall>e \<in> set fs. evKind e \<notin> stateKinds \<and> evIssue e \<in> isID ` set (Issues b)"
    unfolding noted_def by blast
  have "c = a\<lparr>Events := Events a @ (es @ fs), References := ss, Comments := ts, NextCommentID := m, DomainEvents := us\<rparr>" by (simp add: b c)
  moreover have "\<forall>e \<in> set (es @ fs). evKind e \<notin> stateKinds \<and> evIssue e \<in> isID ` set (Issues a)" using k by (auto simp: b)
  ultimately show ?thesis unfolding noted_def by blast
qed

lemma noted_inv: "noted db db' \<Longrightarrow> trackerInv db \<Longrightarrow> trackerInv db'"
  by (auto simp: noted_def trackerInv_def replay_append replay_quiet)

lemma noted_steps:
  "InsertIssueReference q r db = Inr (u, db') \<Longrightarrow> noted db db'"
  "InsertIssueEvent q e db = Inr (u, db') \<Longrightarrow> evKind e \<notin> stateKinds \<Longrightarrow> noted db db'"
  "emitDomainEvent q d db = Inr (u, db') \<Longrightarrow> noted db db'"
  "CreateIssueComment q i a b h db = Inr (c, db') \<Longrightarrow> noted db db'"
proof -
  have n: "noted db (db\<lparr>Events := Events db @ es, References := rs, Comments := cs, NextCommentID := m, DomainEvents := ds\<rparr>)"
    if "\<forall>e \<in> set es. evKind e \<notin> stateKinds \<and> evIssue e \<in> isID ` set (Issues db)" for es rs cs m ds
    unfolding noted_def using that by blast
  show "InsertIssueReference q r db = Inr (u, db') \<Longrightarrow> noted db db'"
    using n [where es = "[]" and rs = "References db @ [r]" and cs = "Comments db" and m = "NextCommentID db" and ds = "DomainEvents db"] by (simp add: InsertIssueReference_def tx_simps)
  show "InsertIssueEvent q e db = Inr (u, db') \<Longrightarrow> evKind e \<notin> stateKinds \<Longrightarrow> noted db db'"
    using n [where es = "[e]" and rs = "References db" and cs = "Comments db" and m = "NextCommentID db" and ds = "DomainEvents db"]
    by (simp add: InsertIssueEvent_def tx_simps GetIssueByID_None)
  show "emitDomainEvent q d db = Inr (u, db') \<Longrightarrow> noted db db'"
    using n [where es = "[]" and rs = "References db" and cs = "Comments db" and m = "NextCommentID db" and ds = "DomainEvents db @ [d]"] by (simp add: emitDomainEvent_def tx_simps)
  show "CreateIssueComment q i a b h db = Inr (c, db') \<Longrightarrow> noted db db'"
    using n [where es = "[]" and rs = "References db" and cs = "Comments db @ [c]" and m = "NextCommentID db + 1" and ds = "DomainEvents db"]
    by (simp add: CreateIssueComment_def tx_simps Let_def)
qed

lemma insertRefs_noted: "insertRefs q source k obj ts seen db = Inr (u, db') \<Longrightarrow> noted db db'"
proof (induction q source k obj ts seen arbitrary: db rule: insertRefs.induct)
  case (1 q source k obj seen)
  then show ?case by (simp add: tx_simps noted_refl)
next
  case (2 q source k obj t ts seen)
  show ?case
  proof (cases "t = isID source \<or> t \<in> seen")
    case True
    then show ?thesis using 2 by simp
  next
    case False
    then obtain db1 db2 u1 u2 e where r: "InsertIssueReference q \<lparr>refTarget = t, refKind = k, refSource = Some (isID source), refObject = pgInt8 obj\<rparr> db = Inr (u1, db1)"
      "InsertIssueEvent q e db1 = Inr (u2, db2)" "evKind e = ''referenced''" "insertRefs q source k obj ts (insert t seen) db2 = Inr (u, db')"
      using 2(3) by (simp add: bindTx_Inr) fastforce
    have "noted db db1" "noted db1 db2" using noted_steps(1) [OF r(1)] noted_steps(2) [OF r(2)] r(3) by (simp_all add: stateKinds_def)
    moreover have "noted db2 db'" using 2(2) False r(4) by blast
    ultimately show ?thesis using noted_trans by blast
  qed
qed

lemma references_noted: "insertReferencesFromBody env source body k obj db = Inr (u, db') \<Longrightarrow> noted db db'"
  by (auto simp: insertReferencesFromBody_def tx_simps noted_refl insertRefs_noted split: if_split_asm)

lemma emitIssueEventTx_noted: "emitIssueEventTx q k issue actor pub ms db = Inr (u, db') \<Longrightarrow> noted db db'"
  unfolding emitIssueEventTx_def by (rule noted_steps(3))

section \<open>Creating issues\<close>

definition nextNumber :: "'x Tracker_scheme \<Rightarrow> go_int64 \<Rightarrow> go_int64" where
  "nextNumber db repo = (case Counters db repo of None \<Rightarrow> 1 | Some n \<Rightarrow> n)"

text \<open>What a successful creation does: one row with the next number, then notes.\<close>

lemma CreateInTx_effect:
  assumes "trackerInv db" "CreateInTx env p db = Inr (row, db')"
  shows "noted (db\<lparr>Counters := (Counters db)(cpRepoID p \<mapsto> nextNumber db (cpRepoID p) + 1),
      Issues := Issues db @ [row], NextIssueID := NextIssueID db + 1\<rparr>) db'"
    "isID row = NextIssueID db" "isRepo row = cpRepoID p" "isNumber row = nextNumber db (cpRepoID p)"
    "isState row = ''open''" "isKind row = (if cpKind p = '''' then ''issue'' else cpKind p)" "isAuthor row = pgInt8 (cpAuthor p)"
    "isTitle row = TrimSpace (cpTitle p)" "titleError (isTitle row) = None" "isBody row = cpBody p"
proof -
  define f where "f = flt env"
  define repo where "repo = cpRepoID p"
  define kind where "kind = (if cpKind p = '''' then ''issue'' else cpKind p)"
  define html where "html = pgText (fst (renderBody env (cpBody p)))"
  have ids: "r \<in> set (Issues db) \<Longrightarrow> isID r \<noteq> NextIssueID db" for r using assms(1) by (auto simp: trackerInv_def)
  have te: "titleError (TrimSpace (cpTitle p)) = None" "bodyError (cpBody p) = None"
    using assms(2) by (auto simp: CreateInTx_def Let_def tx_basic split: option.split_asm)
  obtain u0 db0 num db1 row0 db2 u2 db3 u3 db4 k pub ms where r: "EnsureRepoIssueCounter f repo db = Inr (u0, db0)"
      "AllocateIssueNumber f repo db0 = Inr (num, db1)"
      "CreateIssue f repo num kind (TrimSpace (cpTitle p)) (cpBody p) (pgInt8 (cpAuthor p)) db1 = Inr (row0, db2)"
      "row = row0\<lparr>isHtml := html\<rparr>" "UpdateIssueTitleBody f (isID row) (isTitle row) (isBody row) html db2 = Inr (u2, db3)"
      "insertReferencesFromBody env row (cpBody p) ''issue_body'' (isID row) db3 = Inr (u3, db4)"
      "emitIssueEventTx f k row (cpAuthor p) pub ms db4 = Inr ((), db')"
    using assms(2) te unfolding CreateInTx_def f_def repo_def kind_def html_def by (auto simp: Let_def bindTx_Inr tx_basic(1))
  have a: "num = nextNumber db repo" "db1 = db\<lparr>Counters := (Counters db)(repo \<mapsto> nextNumber db repo + 1)\<rparr>"
    using r(1,2) by (auto simp: EnsureRepoIssueCounter_def AllocateIssueNumber_def nextNumber_def tx_basic Let_def split: if_split_asm option.split)
  have c: "row0 = \<lparr>isID = NextIssueID db, isRepo = repo, isNumber = num, isKind = kind, isTitle = TrimSpace (cpTitle p), isBody = cpBody p, isHtml = None,
      isAuthor = pgInt8 (cpAuthor p), isState = ''open'', isReason = None, isClosedBy = None, isLocked = False, isLockReason = None\<rparr>"
    "db2 = db1\<lparr>Issues := Issues db @ [row0], NextIssueID := NextIssueID db + 1\<rparr>"
    using r(3) by (auto simp: CreateIssue_def tx_basic Let_def a(2))
  show "isID row = NextIssueID db" "isRepo row = cpRepoID p" "isNumber row = nextNumber db (cpRepoID p)"
    "isState row = ''open''" "isKind row = (if cpKind p = '''' then ''issue'' else cpKind p)" "isAuthor row = pgInt8 (cpAuthor p)"
    "isTitle row = TrimSpace (cpTitle p)" "titleError (isTitle row) = None" "isBody row = cpBody p"
    using te by (simp_all add: r(4) c(1) a(1) repo_def kind_def)
  have "db3 = db1\<lparr>Issues := Issues db @ [row], NextIssueID := NextIssueID db + 1\<rparr>"
    using r(5) updateWhere_id [of "Issues db" "\<lambda>r. isID r = NextIssueID db"] ids by (auto simp: UpdateIssueTitleBody_def tx_basic r(4) c)
  then show "noted (db\<lparr>Counters := (Counters db)(cpRepoID p \<mapsto> nextNumber db (cpRepoID p) + 1),
      Issues := Issues db @ [row], NextIssueID := NextIssueID db + 1\<rparr>) db'"
    using noted_trans [OF references_noted [OF r(6)] emitIssueEventTx_noted [OF r(7)]] by (simp add: a(2) repo_def)
qed

lemma CreateInTx_inv:
  assumes "trackerInv db" "CreateInTx env p db = Inr (row, db')"
  shows "trackerInv db'"
proof -
  note e = CreateInTx_effect [OF assms]
  have n: "0 < nextNumber db (cpRepoID p)" using assms(1) by (auto simp: nextNumber_def trackerInv_def split: option.split)
  have fresh: "isNumber r \<noteq> nextNumber db (cpRepoID p)" if "r \<in> set (Issues db)" "isRepo r = cpRepoID p" for r
    using assms(1) that by (auto simp: nextNumber_def trackerInv_def split: option.split)
  have quiet: "replay (Events db) (NextIssueID db) = ''open''"
    using assms(1) replay_quiet [of "Events db" "NextIssueID db" "''open''"] by (fastforce simp: replay_def trackerInv_def)
  have "trackerInv (db\<lparr>Counters := (Counters db)(cpRepoID p \<mapsto> nextNumber db (cpRepoID p) + 1), Issues := Issues db @ [row], NextIssueID := NextIssueID db + 1\<rparr>)"
    using assms(1) e(2-5) n fresh quiet unfolding trackerInv_def issueStates_def
    by (auto simp: nextNumber_def split: option.split_asm)
  then show ?thesis using noted_inv [OF e(1)] by blast
qed

section \<open>The other operations\<close>

text \<open>Updates of rows that touch neither identity nor state.\<close>

lemma updateRows_inv:
  assumes "trackerInv db" "\<And>r. isID (g r) = isID r" "\<And>r. isRepo (g r) = isRepo r" "\<And>r. isNumber (g r) = isNumber r" "\<And>r. isState (g r) = isState r"
  shows "trackerInv (db\<lparr>Issues := updateWhere P g (Issues db)\<rparr>)"
proof -
  have "map isID (updateWhere P g (Issues db)) = map isID (Issues db)"
      "map (\<lambda>r. (isRepo r, isNumber r)) (updateWhere P g (Issues db)) = map (\<lambda>r. (isRepo r, isNumber r)) (Issues db)"
    using assms by (simp_all add: map_updateWhere)
  moreover from arg_cong [OF this(1), of set] have "isID ` set (updateWhere P g (Issues db)) = isID ` set (Issues db)" by simp
  ultimately show ?thesis using assms unfolding trackerInv_def by (auto simp: set_updateWhere)
qed

lemma AddComment_noted: "AddComment env l p db = (r, db') \<Longrightarrow> noted db db'"
proof (cases r)
  case (Inl e)
  assume "AddComment env l p db = (r, db')"
  then have "db' = db" using Inl transaction_Inl
    unfolding AddComment_def Let_def by (auto split: if_split_asm option.split_asm)
  then show "noted db db'" by (simp add: noted_refl)
next
  case (Inr c)
  assume "AddComment env l p db = (r, db')"
  then obtain issue a b h k pub ms db1 db2 u where
    "CreateIssueComment (flt env) (ccIssueID p) a b h db = Inr (c, db1)" "insertReferencesFromBody env issue b ''comment_body'' (coID c) db1 = Inr (u, db2)"
    "emitIssueEventTx (flt env) k issue (ccAuthor p) pub ms db2 = Inr ((), db')"
    unfolding AddComment_def Let_def using Inr by (auto simp: transaction_Inr tx_simps split: if_split_asm option.split_asm)
  from noted_trans [OF noted_trans [OF noted_steps(4) [OF this(1)] references_noted [OF this(2)]] emitIssueEventTx_noted [OF this(3)]]
  show "noted db db'" .
qed

lemma Edit_effect:
  assumes "Edit env i title body db = (r, db')"
  obtains t b h where "noted (db\<lparr>Issues := updateWhere (\<lambda>r. isID r = i) (\<lambda>r. r\<lparr>isTitle := t, isBody := b, isHtml := h\<rparr>) (Issues db)\<rparr>) db'"
      "titleError t = None \<or> (\<exists>cur. GetIssueByID i db = Some cur \<and> t = isTitle cur)"
    | "db' = db"
proof -
  obtain r1 where t: "transaction (flt env) (editTx env i title body) db = (r1, db')"
    using assms by (cases "transaction (flt env) (editTx env i title body) db") (auto simp: Edit_def split: sum.split_asm option.split_asm)
  show ?thesis
  proof (cases r1)
    case (Inl e)
    then show ?thesis using transaction_Inl [OF t [unfolded Inl]] that(2) by simp
  next
    case (Inr u)
    then have e: "editTx env i title body db = Inr ((), db')" using t by (simp add: transaction_Inr)
    then obtain cur where cur: "GetIssueByID i db = Some cur" by (auto simp: editTx_def tx_simps)
    define t' where "t' = (case title of Some s \<Rightarrow> TrimSpace s | None \<Rightarrow> isTitle cur)"
    define b' where "b' = (case body of Some s \<Rightarrow> s | None \<Rightarrow> isBody cur)"
    define h where "h = pgText (fst (renderBody env b'))"
    have te: "titleError t' = None \<or> t' = isTitle cur"
      using e cur by (auto simp: editTx_def tx_simps Let_def t'_def split: option.split_asm)
    let ?db1 = "db\<lparr>Issues := updateWhere (\<lambda>r. isID r = i) (\<lambda>r. r\<lparr>isTitle := t', isBody := b', isHtml := h\<rparr>) (Issues db)\<rparr>"
    have "(\<lambda>_. case body of None \<Rightarrow> okTx () | Some s \<Rightarrow> bindTx (readTx (GetIssueByID i)) (\<lambda>fresh.
         case fresh of None \<Rightarrow> okTx () | Some r \<Rightarrow> insertReferencesFromBody env r b' ''issue_body'' (isID r))) () ?db1 = Inr ((), db')"
      using e cur unfolding editTx_def bindTx_Inr t'_def b'_def h_def
      by (auto simp: tx_basic Let_def UpdateIssueTitleBody_def bindTx_Inr split: option.split_asm)
    then have "noted ?db1 db'" using references_noted noted_refl by (auto simp: tx_simps split: option.split_asm)
    then show ?thesis using that(1) te cur by blast
  qed
qed

lemma Edit_inv: "trackerInv db \<Longrightarrow> Edit env i title body db = (r, db') \<Longrightarrow> trackerInv db'"
proof -
  assume i: "trackerInv db" and "Edit env i title body db = (r, db')"
  from this(2) show "trackerInv db'"
  proof (cases rule: Edit_effect)
    case (1 t b h)
    show ?thesis by (rule noted_inv [OF 1(1) updateRows_inv [OF i]]) simp_all
  qed (use i in simp)
qed

lemma emitIssueEventTx_domain: "emitIssueEventTx q k issue actor pub ms db = Inr (u, db') \<Longrightarrow> \<exists>ds. db' = db\<lparr>DomainEvents := ds\<rparr>"
  by (auto simp: emitIssueEventTx_def emitDomainEvent_def tx_basic)

lemma noted_domain: "noted db (db\<lparr>DomainEvents := ds\<rparr>)"
proof -
  have "db\<lparr>DomainEvents := ds\<rparr> = db\<lparr>Events := Events db @ [], References := References db, Comments := Comments db, NextCommentID := NextCommentID db, DomainEvents := ds\<rparr>"
    by simp
  then show ?thesis unfolding noted_def by fastforce
qed

lemma setState_effect:
  assumes "setState env actor i newState reason cid db = (r, db')"
  obtains ds where "r = Inr ()" "db' = db\<lparr>Issues := updateWhere (\<lambda>r. isID r = i \<and> isState r \<noteq> newState) (\<lambda>r. r\<lparr>isState := newState, isReason := pgText reason,
        isClosedBy := (if newState = ''closed'' then pgInt8 actor else None)\<rparr>) (Issues db),
      Events := Events db @ [\<lparr>evIssue = i, evActor = pgInt8 actor, evKind = (if newState = ''open'' then ''reopened'' else ''closed''),
        evMeta = (if cid \<noteq> 0 then ''{\"comment_id\":'' @ Itoa cid @ ''}'' else ''{}''), evRef = None\<rparr>], DomainEvents := ds\<rparr>"
      "newState \<in> issueStates" "\<exists>x \<in> set (Issues db). isID x = i \<and> isState x \<noteq> newState"
    | e where "r = Inl e" "db' = db"
proof (cases r)
  case (Inl e)
  have "db' = db"
  proof (cases "newState \<in> issueStates")
    case True
    then obtain r1 where t: "transaction (flt env) (setStateTx env actor i newState reason cid) db = (r1, db')"
      and "r1 = Inl e \<or> r1 = Inr False"
      using assms Inl unfolding setState_def by (auto split: prod.split_asm sum.split_asm if_split_asm)
    then consider "r1 = Inl e" | "setStateTx env actor i newState reason cid db = Inr (False, db')" by (auto simp: transaction_Inr)
    then show ?thesis
    proof cases
      case 1
      then show ?thesis using transaction_Inl [OF t [unfolded 1]] by simp
    next
      case 2
      then have "filter (\<lambda>r. isID r = i \<and> isState r \<noteq> newState) (Issues db) = []"
          "db' = db\<lparr>Issues := updateWhere (\<lambda>r. isID r = i \<and> isState r \<noteq> newState)
             (\<lambda>r. r\<lparr>isState := newState, isReason := pgText reason, isClosedBy := (if newState = ''closed'' then pgInt8 actor else None)\<rparr>) (Issues db)\<rparr>"
        by (auto simp: setStateTx_def Let_def tx_simps SetIssueState_def split: if_split_asm option.split_asm)
      then show ?thesis using updateWhere_id [of "Issues db" "\<lambda>r. isID r = i \<and> isState r \<noteq> newState"] by (simp add: filter_empty_conv)
    qed
  qed (use assms in \<open>simp add: setState_def\<close>)
  then show ?thesis using that(2) Inl by blast
next
  case (Inr u)
  then have st: "newState \<in> issueStates" "setStateTx env actor i newState reason cid db = Inr (True, db')"
    using assms unfolding setState_def by (auto simp: transaction_Inr split: prod.split_asm sum.split_asm if_split_asm)
  let ?db1 = "db\<lparr>Issues := updateWhere (\<lambda>r. isID r = i \<and> isState r \<noteq> newState) (\<lambda>r. r\<lparr>isState := newState, isReason := pgText reason,
        isClosedBy := (if newState = ''closed'' then pgInt8 actor else None)\<rparr>) (Issues db),
      Events := Events db @ [\<lparr>evIssue = i, evActor = pgInt8 actor, evKind = (if newState = ''open'' then ''reopened'' else ''closed''),
        evMeta = (if cid \<noteq> 0 then ''{\"comment_id\":'' @ Itoa cid @ ''}'' else ''{}''), evRef = None\<rparr>]\<rparr>"
  have rows: "filter (\<lambda>r. isID r = i \<and> isState r \<noteq> newState) (Issues db) \<noteq> []" and "?db1 = db' \<or> (\<exists>k issue pub. emitIssueEventTx (flt env) k issue actor pub [] ?db1 = Inr ((), db'))"
    using st(2) by (auto simp: setStateTx_def Let_def tx_simps SetIssueState_def InsertIssueEvent_def split: if_split_asm option.split_asm)
  then have "\<exists>ds. db' = ?db1\<lparr>DomainEvents := ds\<rparr>"
  proof (elim disjE exE)
    assume "?db1 = db'"
    then have "db' = ?db1\<lparr>DomainEvents := DomainEvents db\<rparr>" by auto
    then show ?thesis by blast
  qed (rule emitIssueEventTx_domain)
  then obtain ds where d: "db' = ?db1\<lparr>DomainEvents := ds\<rparr>" by blast
  have "\<exists>x \<in> set (Issues db). isID x = i \<and> isState x \<noteq> newState" using rows by (simp add: filter_empty_conv)
  from that(1) [OF _ d st(1) this] show ?thesis using Inr by simp
qed

lemma stateChange_inv:
  assumes "trackerInv db" "newState \<in> issueStates" "i \<in> isID ` set (Issues db)"
    "replayEvent i st e = newState" "evIssue e = i" "evKind e \<in> stateKinds"
  shows "trackerInv (db\<lparr>Issues := updateWhere (\<lambda>r. isID r = i \<and> isState r \<noteq> newState) (\<lambda>r. r\<lparr>isState := newState, isReason := rs, isClosedBy := by\<rparr>) (Issues db),
    Events := Events db @ [e]\<rparr>)"
proof -
  let ?g = "\<lambda>r. r\<lparr>isState := newState, isReason := rs, isClosedBy := by\<rparr>"
  let ?P = "\<lambda>r. isID r = i \<and> isState r \<noteq> newState"
  have m: "map isID (updateWhere ?P ?g (Issues db)) = map isID (Issues db)"
      "map (\<lambda>r. (isRepo r, isNumber r)) (updateWhere ?P ?g (Issues db)) = map (\<lambda>r. (isRepo r, isNumber r)) (Issues db)"
    by (simp_all add: map_updateWhere)
  from arg_cong [OF m(1), of set] have ids: "isID ` set (updateWhere ?P ?g (Issues db)) = isID ` set (Issues db)" by simp
  have all: "replayEvent i x e = newState" for x using assms(4-6) by (auto simp: replayEvent_def stateKinds_def)
  have other: "replayEvent j x e = x" if "j \<noteq> i" for j x using assms(5) that by (simp add: replayEvent_def)
  have "isState r = foldl (replayEvent (isID r)) (replay (Events db) (isID r)) [e]" if r: "r \<in> set (updateWhere ?P ?g (Issues db))" for r
  proof (cases "isID r = i")
    case True
    obtain x where "r = (if ?P x then ?g x else x)" using r unfolding set_updateWhere by blast
    then have "isState r = newState" using True by (cases "?P x") auto
    then show ?thesis using True all by simp
  next
    case False
    obtain x where "x \<in> set (Issues db)" "r = (if ?P x then ?g x else x)" using r unfolding set_updateWhere by blast
    then have "r \<in> set (Issues db)" using False by (cases "?P x") auto
    then show ?thesis using False other assms(1) by (simp add: trackerInv_def)
  qed
  moreover have "isID r < NextIssueID db \<and> 0 < isNumber r \<and> (\<exists>n. Counters db (isRepo r) = Some n \<and> isNumber r < n) \<and> isState r \<in> issueStates"
    if "r \<in> set (updateWhere ?P ?g (Issues db))" for r
    using that assms(1,2) unfolding set_updateWhere trackerInv_def by fastforce
  ultimately show ?thesis using assms(1,3,5) m ids unfolding trackerInv_def by (simp add: replay_append)
qed

lemma setState_inv:
  assumes "trackerInv db" "setState env actor i newState reason cid db = (r, db')"
  shows "trackerInv db'"
  using assms(2)
proof (cases rule: setState_effect)
  case (1 ds)
  have "noted (db'\<lparr>DomainEvents := DomainEvents db\<rparr>) db'" using noted_domain [of "db'\<lparr>DomainEvents := DomainEvents db\<rparr>" "DomainEvents db'"] by simp
  moreover have "trackerInv (db'\<lparr>DomainEvents := DomainEvents db\<rparr>)"
    unfolding 1(2) using stateChange_inv [OF assms(1) 1(3)] 1(3,4)
    by (simp) (auto simp: replayEvent_def stateKinds_def issueStates_def)
  ultimately show ?thesis by (rule noted_inv)
qed (use assms(1) in simp)

lemma SetLock_inv:
  assumes "trackerInv db" "SetLock env actor i locked reason db = (r, db')"
  shows "trackerInv db'"
proof (cases r)
  case (Inl e)
  then show ?thesis using assms transaction_Inl [of "flt env"] unfolding SetLock_def by metis
next
  case (Inr u)
  let ?db1 = "db\<lparr>Issues := updateWhere (\<lambda>r. isID r = i) (\<lambda>r. r\<lparr>isLocked := locked, isLockReason := pgText reason\<rparr>) (Issues db)\<rparr>"
  obtain e where "InsertIssueEvent (flt env) e ?db1 = Inr ((), db')" "evKind e \<notin> stateKinds"
    using assms(2) Inr unfolding SetLock_def by (auto simp: transaction_Inr tx_simps SetIssueLock_def stateKinds_def split: if_split_asm)
  from noted_steps(2) [OF this] show ?thesis by (rule noted_inv [OF _ updateRows_inv [OF assms(1)]]) simp_all
qed

lemma Delete_inv:
  assumes "trackerInv db" "Delete env i db = (r, db')"
  shows "trackerInv db'"
proof -
  have keep: "foldl (replayEvent j) st (filter (\<lambda>e. evIssue e \<noteq> i) es) = foldl (replayEvent j) st es" if "j \<noteq> i" for j st es
    using that by (induction es arbitrary: st) (simp_all add: replayEvent_def)
  have "trackerInv (db\<lparr>Issues := filter (\<lambda>r. isID r \<noteq> i) (Issues db), Events := filter (\<lambda>e. evIssue e \<noteq> i) (Events db), Comments := cs, References := rs\<rparr>)" for cs rs
    using assms(1) unfolding trackerInv_def by (auto simp: distinct_map inj_on_def replay_def keep)
  then show ?thesis using assms by (auto simp: Delete_def split: option.split_asm if_split_asm)
qed

section \<open>Reachable trackers\<close>

inductive trackerStep :: "'x Tracker_scheme \<Rightarrow> 'x Tracker_scheme \<Rightarrow> bool" where
  Created: "Create env p db = (r, db') \<Longrightarrow> trackerStep db db'"
| Commented: "AddComment env l c db = (r, db') \<Longrightarrow> trackerStep db db'"
| Edited: "Edit env i title body db = (r, db') \<Longrightarrow> trackerStep db db'"
| StateSet: "setState env actor i st reason cid db = (r, db') \<Longrightarrow> trackerStep db db'"
| LockSet: "SetLock env actor i locked reason db = (r, db') \<Longrightarrow> trackerStep db db'"
| Deleted: "Delete env i db = (r, db') \<Longrightarrow> trackerStep db db'"

inductive_cases trackerStepE: "trackerStep db db'"

lemma Create_inv: "trackerInv db \<Longrightarrow> Create env p db = (r, db') \<Longrightarrow> trackerInv db'"
  unfolding Create_def by (cases r) (auto simp: transaction_Inr dest: transaction_Inl CreateInTx_inv)

lemma trackerStep_inv: "trackerInv db \<Longrightarrow> trackerStep db db' \<Longrightarrow> trackerInv db'"
  by (erule trackerStepE)
     (blast intro: Create_inv Edit_inv setState_inv SetLock_inv Delete_inv noted_inv AddComment_noted)+

interpretation tracker_runs: kept_invariant trackerStep trackerInv
  by unfold_locales (rule trackerStep_inv)

definition emptyTracker :: Tracker where
  "emptyTracker = \<lparr>Issues = [], Counters = Map.empty, NextIssueID = 1, Events = [], References = [], Comments = [], NextCommentID = 1, DomainEvents = []\<rparr>"

lemma emptyTracker_inv: "trackerInv emptyTracker"
  by (simp add: emptyTracker_def trackerInv_def)

text \<open>
  C8. In every tracker that the operations can produce, issue numbers are unique within a repository and
  below the number allocated next, and the timeline tells the truth: replaying the closed, merged and
  reopened events of an issue gives its state.
\<close>

theorem timeline_replays_state:
  assumes "trackerStep\<^sup>*\<^sup>* emptyTracker db" "r \<in> set (Issues db)" "r' \<in> set (Issues db)"
  shows "isState r = replay (Events db) (isID r) \<and> 0 < isNumber r \<and> isNumber r < nextNumber db (isRepo r) \<and>
    (isRepo r = isRepo r' \<and> isNumber r = isNumber r' \<longleftrightarrow> r = r') \<and> (isID r = isID r' \<longleftrightarrow> r = r')"
proof -
  have i: "trackerInv db" using tracker_runs.reachable_inv [OF assms(1) emptyTracker_inv] .
  have "isRepo r = isRepo r' \<and> isNumber r = isNumber r' \<longleftrightarrow> r = r'"
    using i assms(2,3) inj_onD [of "\<lambda>r. (isRepo r, isNumber r)" "set (Issues db)" r r'] by (auto simp: trackerInv_def distinct_map)
  moreover have "isID r = isID r' \<longleftrightarrow> r = r'" using i assms(2,3) by (auto simp: trackerInv_def distinct_map dest: inj_onD)
  moreover have "isNumber r < nextNumber db (isRepo r)" using i assms(2) by (auto simp: trackerInv_def nextNumber_def)
  ultimately show ?thesis using i assms(2) by (simp add: trackerInv_def)
qed

section \<open>Creation succeeds\<close>

lemma insertRefs_ok:
  assumes "q = (\<lambda>_. None)" "set ts \<subseteq> isID ` set (Issues db)"
  shows "\<exists>db'. insertRefs q source k obj ts seen db = Inr ((), db')"
  using assms
proof (induction q source k obj ts seen arbitrary: db rule: insertRefs.induct)
  case (2 q source k obj t ts seen)
  show ?case
  proof (cases "t = isID source \<or> t \<in> seen")
    case False
    have ex: "GetIssueByID t db \<noteq> None" using 2(4) GetIssueByID_None by auto
    let ?r = "\<lparr>refTarget = t, refKind = k, refSource = Some (isID source), refObject = pgInt8 obj\<rparr>"
    have r: "InsertIssueReference q ?r db = Inr ((), db\<lparr>References := References db @ [?r]\<rparr>)"
      using ex 2(3) by (simp add: InsertIssueReference_def stmt_def)
    have "GetIssueByID t (db\<lparr>References := References db @ [?r]\<rparr>) \<noteq> None" using ex by (simp add: GetIssueByID_def)
    then have e: "InsertIssueEvent q ev (db\<lparr>References := References db @ [?r]\<rparr>) = Inr ((), db\<lparr>References := References db @ [?r], Events := Events db @ [ev]\<rparr>)"
      if "evIssue ev = t" for ev
      using 2(3) that by (simp add: InsertIssueEvent_def stmt_def)
    have "\<exists>db'. insertRefs q source k obj ts (insert t seen) (db\<lparr>References := References db @ [?r], Events := Events db @ [ev]\<rparr>) = Inr ((), db')" for ev
      using 2(2) [OF False 2(3)] 2(4) by simp
    then show ?thesis using False by (simp add: bindTx_def r e)
  qed (use 2 in simp)
qed (simp add: okTx_def)

lemma GetIssueByNumber_Some: "GetIssueByNumber repo n db = Some r \<Longrightarrow> r \<in> set (Issues db) \<and> isRepo r = repo \<and> isNumber r = n"
  by (auto simp: GetIssueByNumber_def find_Some_iff dest: nth_mem)

lemma in_map_filter: "x \<in> set (List.map_filter f xs) \<longleftrightarrow> (\<exists>y \<in> set xs. f y = Some x)"
  by (induction xs) (auto simp: map_filter_simps split: option.split)

lemma crossTarget_exists: "crossTarget env db r = Some x \<Longrightarrow> x \<in> isID ` set (Issues db)"
  by (cases r) (auto simp: crossTarget_def split: option.split_asm prod.split_asm if_split_asm dest!: GetIssueByNumber_Some)

lemma refTargets_exist: "set (refTargets env db source body) \<subseteq> isID ` set (Issues db)"
  using crossTarget_exists by (fastforce simp: refTargets_def in_map_filter dest!: GetIssueByNumber_Some)

lemma references_ok: "flt env = (\<lambda>_. None) \<Longrightarrow> \<exists>db'. insertReferencesFromBody env source body k obj db = Inr ((), db')"
  using insertRefs_ok [OF _ refTargets_exist] by (auto simp: insertReferencesFromBody_def okTx_def bindTx_def readTx_def)

lemma CreateInTx_ok:
  assumes "trackerInv db" "flt env = (\<lambda>_. None)" "cpKind p \<in> {'''', ''issue'', ''pr''}"
    and "titleError (TrimSpace (cpTitle p)) = None" "bodyError (cpBody p) = None"
  shows "\<exists>row db'. CreateInTx env p db = Inr (row, db')"
proof -
  define repo where "repo = cpRepoID p"
  define kind where "kind = (if cpKind p = '''' then ''issue'' else cpKind p)"
  define num where "num = nextNumber db repo"
  define db0 where "db0 = (if Counters db repo = None then db\<lparr>Counters := (Counters db)(repo \<mapsto> 1)\<rparr> else db)"
  define db1 where "db1 = db0\<lparr>Counters := (Counters db0)(repo \<mapsto> num + 1)\<rparr>"
  have e0: "EnsureRepoIssueCounter (flt env) repo db = Inr ((), db0)" by (simp add: EnsureRepoIssueCounter_def stmt_def assms(2) db0_def)
  have e1: "AllocateIssueNumber (flt env) repo db0 = Inr (num, db1)"
    by (auto simp: AllocateIssueNumber_def stmt_def assms(2) db0_def db1_def num_def nextNumber_def)
  have "isNumber r \<noteq> num" if "r \<in> set (Issues db)" "isRepo r = repo" for r
    using assms(1) that by (auto simp: num_def nextNumber_def trackerInv_def split: option.split)
  then have "GetIssueByNumber repo num db1 = None" by (auto simp: GetIssueByNumber_def find_None_iff db1_def db0_def)
  moreover have "kind \<in> {''issue'', ''pr''}" using assms(3) by (auto simp: kind_def)
  ultimately obtain row0 db2 where e2: "CreateIssue (flt env) repo num kind (TrimSpace (cpTitle p)) (cpBody p) (pgInt8 (cpAuthor p)) db1 = Inr (row0, db2)"
    by (auto simp: CreateIssue_def stmt_def assms(2) Let_def)
  define html where "html = pgText (fst (renderBody env (cpBody p)))"
  define row where "row = row0\<lparr>isHtml := html\<rparr>"
  obtain db3 where e3: "UpdateIssueTitleBody (flt env) (isID row) (isTitle row) (isBody row) html db2 = Inr ((), db3)"
    by (simp add: UpdateIssueTitleBody_def stmt_def assms(2))
  obtain db4 where e4: "insertReferencesFromBody env row (cpBody p) ''issue_body'' (isID row) db3 = Inr ((), db4)"
    using references_ok [OF assms(2)] by blast
  obtain db5 where e5: "emitIssueEventTx (flt env) (if kind = ''pr'' then ''pr_opened'' else ''issue_created'') row (cpAuthor p)
       (repoPublic env repo) (snd (renderBody env (cpBody p))) db4 = Inr ((), db5)"
    by (simp add: emitIssueEventTx_def emitDomainEvent_def stmt_def assms(2))
  have "CreateInTx env p db = Inr (row, db5)"
    unfolding CreateInTx_def Let_def assms(4,5) option.case kind_def [symmetric] repo_def [symmetric] html_def [symmetric]
      bindTx_def e0 e1 e2 sum.case prod.case row_def [symmetric] e3 e4 e5 okTx_def ..
  then show ?thesis by blast
qed

text \<open>
  C35. Creating an issue always does one of two things. A title or body that breaks a rule is refused with
  the first rule it breaks and nothing changes. Otherwise (unless a statement of the database fails) there
  is one more issue, open, with the next number of its repository, which no issue had before; every other
  issue keeps its row.
\<close>

theorem create_allocates_next_number:
  assumes "trackerInv db" "flt env = (\<lambda>_. None)" "cpKind p \<in> {'''', ''issue'', ''pr''}"
  shows "case titleError (TrimSpace (cpTitle p)) of
      Some e \<Rightarrow> Create env p db = (Inl e, db)
    | None \<Rightarrow> (case bodyError (cpBody p) of
        Some e \<Rightarrow> Create env p db = (Inl e, db)
      | None \<Rightarrow> \<exists>row db'. Create env p db = (Inr row, db') \<and> Issues db' = Issues db @ [row] \<and> isState row = ''open'' \<and>
          isNumber row = nextNumber db (cpRepoID p) \<and> GetIssueByNumber (cpRepoID p) (isNumber row) db = None \<and>
          nextNumber db' = (nextNumber db)(cpRepoID p := nextNumber db (cpRepoID p) + 1))"
proof -
  have bad: "Create env p db = (Inl e, db)" if "titleError (TrimSpace (cpTitle p)) = Some e \<or>
      (titleError (TrimSpace (cpTitle p)) = None \<and> bodyError (cpBody p) = Some e)" for e
    using that assms(2) by (auto simp: Create_def CreateInTx_def transaction_def failTx_def Let_def)
  have good: "\<exists>row db'. Create env p db = (Inr row, db') \<and> Issues db' = Issues db @ [row] \<and> isState row = ''open'' \<and>
          isNumber row = nextNumber db (cpRepoID p) \<and> GetIssueByNumber (cpRepoID p) (isNumber row) db = None \<and>
          nextNumber db' = (nextNumber db)(cpRepoID p := nextNumber db (cpRepoID p) + 1)"
    if ok: "titleError (TrimSpace (cpTitle p)) = None" "bodyError (cpBody p) = None"
  proof -
    obtain row db' where c: "CreateInTx env p db = Inr (row, db')" using CreateInTx_ok [OF assms ok] by blast
    note e = CreateInTx_effect [OF assms(1) c]
    have "isNumber r \<noteq> nextNumber db (cpRepoID p)" if "r \<in> set (Issues db)" "isRepo r = cpRepoID p" for r
      using assms(1) that by (auto simp: nextNumber_def trackerInv_def split: option.split)
    then have "GetIssueByNumber (cpRepoID p) (isNumber row) db = None" by (auto simp: GetIssueByNumber_def find_None_iff e(4))
    moreover have "Create env p db = (Inr row, db')" using c assms(2) by (simp add: Create_def transaction_def)
    moreover have "Issues db' = Issues db @ [row]" "nextNumber db' = (nextNumber db)(cpRepoID p := nextNumber db (cpRepoID p) + 1)"
      using e(1) by (auto simp: noted_def nextNumber_def fun_eq_iff)
    ultimately show ?thesis using e by blast
  qed
  show ?thesis using bad good by (auto split: option.split)
qed

definition quietEnv :: TrackerEnv where
  "quietEnv = \<lparr>flt = \<lambda>_. None, markdown = \<lambda>b. (b, []), principalOf = \<lambda>_. None, repoNamed = \<lambda>_ _ _. None, repoPublic = \<lambda>_. True, caseTable = id\<rparr>"

definition demoIssue :: CreateParams where
  "demoIssue = \<lparr>cpRepoID = 5, cpAuthor = 3, cpTitle = ''broken'', cpBody = ''see #1'', cpKind = ''''\<rparr>"

lemma demo_valid_issue: "TrimSpace (cpTitle demoIssue) = ''broken''" "titleError ''broken'' = None" "bodyError (cpBody demoIssue) = None"
proof -
  show "TrimSpace (cpTitle demoIssue) = ''broken''" by (simp add: demoIssue_def TrimSpace_id graphic_def)
  have "runesOf ''broken'' = map of_char ''broken''" by (rule runesOf_ascii) (simp add: ascii_def)
  then show "titleError ''broken'' = None" by (simp add: titleError_def containsHostileUnicode_def hostileRunes_def)
  show "bodyError (cpBody demoIssue) = None" by (simp add: bodyError_def demoIssue_def)
qed

theorem create_allocates_next_number_witness:
  "\<exists>row db'. Create quietEnv demoIssue emptyTracker = (Inr row, db') \<and> isNumber row = 1"
  using create_allocates_next_number [OF emptyTracker_inv, of quietEnv demoIssue] demo_valid_issue
  by (simp add: quietEnv_def demoIssue_def nextNumber_def emptyTracker_def) blast

theorem timeline_replays_state_witness:
  "\<exists>db r. trackerStep\<^sup>*\<^sup>* emptyTracker db \<and> r \<in> set (Issues db) \<and> isState r = replay (Events db) (isID r)"
proof -
  have "\<exists>row db'. CreateInTx quietEnv demoIssue emptyTracker = Inr (row, db')"
    by (rule CreateInTx_ok [OF emptyTracker_inv]) (simp_all add: demo_valid_issue, simp_all add: quietEnv_def demoIssue_def)
  then obtain row db' where c: "CreateInTx quietEnv demoIssue emptyTracker = Inr (row, db')" by blast
  then have "row \<in> set (Issues db')" using CreateInTx_effect(1) [OF emptyTracker_inv c] by (auto simp: noted_def)
  moreover have "trackerStep emptyTracker db'"
    by (rule Created [of quietEnv demoIssue _ "Inr row"]) (use c in \<open>simp add: Create_def transaction_def quietEnv_def\<close>)
  ultimately show ?thesis using timeline_replays_state [of db' row row] by blast
qed

section \<open>Closing and reopening\<close>

lemma find_updateWhere: "(\<And>r. isID (g r) = isID r) \<Longrightarrow>
  find (\<lambda>r. isID r = j) (updateWhere P g rs) = map_option (\<lambda>r. if P r then g r else r) (find (\<lambda>r. isID r = j) rs)"
  by (induction rs) auto

lemma updated_state:
  assumes "x \<in> set (updateWhere (\<lambda>r. isID r = i \<and> isState r \<noteq> st) g rs)" "isID x = i" "\<And>r. isState (g r) = st"
  shows "isState x = st"
proof -
  obtain y where "x = (if isID y = i \<and> isState y \<noteq> st then g y else y)" using assms(1) unfolding set_updateWhere by blast
  then show ?thesis using assms(2,3) by (metis (full_types))
qed

lemma setStateTx_ok:
  assumes "flt env = (\<lambda>_. None)" "GetIssueByID i db = Some r" "isState r \<noteq> st" "st \<in> issueStates" "reason = '''' \<or> reason \<in> stateReasons"
  shows "\<exists>db'. setStateTx env actor i st reason cid db = Inr (True, db')"
proof -
  let ?rs = "updateWhere (\<lambda>r. isID r = i \<and> isState r \<noteq> st) (\<lambda>r. r\<lparr>isState := st, isReason := pgText reason,
        isClosedBy := (if st = ''closed'' then pgInt8 actor else None)\<rparr>) (Issues db)"
  have r: "r \<in> set (Issues db)" "isID r = i" using GetIssueByID_Some [OF assms(2)] by blast+
  then have rows: "filter (\<lambda>r. isID r = i \<and> isState r \<noteq> st) (Issues db) \<noteq> []" using assms(3) by (auto simp: filter_empty_conv)
  define q where "q = flt env"
  have qn: "q n = None" for n using assms(1) by (simp add: q_def)
  have s: "SetIssueState q i st (pgText reason) (if st = ''closed'' then pgInt8 actor else None) db
      = Inr (length (filter (\<lambda>r. isID r = i \<and> isState r \<noteq> st) (Issues db)), db\<lparr>Issues := ?rs\<rparr>)"
    using assms(4,5) by (auto simp: SetIssueState_def stmt_def pgText_def qn)
  have g: "GetIssueByID i (db\<lparr>Issues := ?rs, Events := es\<rparr>) \<noteq> None" for es
    using assms(2) by (simp add: GetIssueByID_def find_updateWhere)
  have e: "InsertIssueEvent q ev (db\<lparr>Issues := ?rs\<rparr>) = Inr ((), db\<lparr>Issues := ?rs, Events := Events db @ [ev]\<rparr>)" if "evIssue ev = i" for ev
    using g [of "Events db"] that by (simp add: InsertIssueEvent_def stmt_def qn)
  show ?thesis using rows g
    unfolding setStateTx_def Let_def q_def [symmetric] bindTx_def s sum.case prod.case
    by (simp add: e readTx_def okTx_def emitIssueEventTx_def emitDomainEvent_def stmt_def qn split: option.split)
qed

text \<open>
  Closing and reopening are transitions: asking for the state an issue has changes nothing and is
  reported as such; any other request of a valid state changes that one issue and writes exactly one
  event to the timeline, closed or reopened; asking again is then reported as already done.
\<close>

theorem set_state_is_idempotent:
  assumes "flt env = (\<lambda>_. None)" "GetIssueByID i db = Some r" "st \<in> issueStates" "reason = '''' \<or> reason \<in> stateReasons"
    and "trackerInv db"
  shows "if isState r = st then setState env actor i st reason cid db = (Inl ErrAlreadyInState, db)
    else \<exists>db' r' e. setState env actor i st reason cid db = (Inr (), db') \<and> setState env actor i st reason cid db' = (Inl ErrAlreadyInState, db') \<and>
      GetIssueByID i db' = Some r' \<and> isState r' = st \<and> Events db' = Events db @ [e] \<and> evIssue e = i \<and>
      evKind e = (if st = ''open'' then ''reopened'' else ''closed'') \<and> filter (\<lambda>x. isID x \<noteq> i) (Issues db') = filter (\<lambda>x. isID x \<noteq> i) (Issues db)"
proof -
  have same: "setState env actor i st reason cid d = (Inl ErrAlreadyInState, d)" if "\<And>x. x \<in> set (Issues d) \<Longrightarrow> isID x = i \<Longrightarrow> isState x = st" for d
  proof -
    have "filter (\<lambda>r. isID r = i \<and> isState r \<noteq> st) (Issues d) = []" using that by (auto simp: filter_empty_conv)
    moreover have "updateWhere (\<lambda>r. isID r = i \<and> isState r \<noteq> st) g (Issues d) = Issues d" for g using that by (intro updateWhere_id) blast
    ultimately show ?thesis using assms(1,3,4)
      by (auto simp: setState_def setStateTx_def transaction_def Let_def bindTx_def SetIssueState_def stmt_def okTx_def pgText_def)
  qed
  have r: "r \<in> set (Issues db)" "isID r = i" using GetIssueByID_Some [OF assms(2)] by blast+
  have uniq: "x = r" if "x \<in> set (Issues db)" "isID x = i" for x
    using assms(5) that r by (auto simp: trackerInv_def distinct_map dest: inj_onD)
  show ?thesis
  proof (cases "isState r = st")
    case True
    then show ?thesis using same [of db] uniq by auto
  next
    case False
    obtain db' where "setStateTx env actor i st reason cid db = Inr (True, db')" using setStateTx_ok [OF assms(1,2) False assms(3,4)] by blast
    then have ok: "setState env actor i st reason cid db = (Inr (), db')" using assms(1,3) by (simp add: setState_def transaction_def)
    from ok show ?thesis
    proof (cases rule: setState_effect)
      case (1 ds)
      let ?g = "\<lambda>r. r\<lparr>isState := st, isReason := pgText reason, isClosedBy := (if st = ''closed'' then pgInt8 actor else None)\<rparr>"
      let ?P = "\<lambda>r. isID r = i \<and> isState r \<noteq> st"
      have n: "Issues db' = updateWhere ?P ?g (Issues db)" unfolding 1(2) by simp
      define e where "e = last (Events db')"
      have e: "Events db' = Events db @ [e]" "evIssue e = i" "evKind e = (if st = ''open'' then ''reopened'' else ''closed'')"
        by (simp_all add: e_def 1(2))
      have gs: "isState (?g x) = st" for x by simp
      have "x \<in> set (Issues db') \<Longrightarrow> isID x = i \<Longrightarrow> isState x = st" for x
        unfolding n using updated_state [of x i st ?g "Issues db", OF _ _ gs] by blast
      then have again: "setState env actor i st reason cid db' = (Inl ErrAlreadyInState, db')" using same by blast
      have "GetIssueByID i db' = Some (?g r)" using assms(2) False r(2) by (simp add: GetIssueByID_def n find_updateWhere)
      moreover have "filter (\<lambda>x. isID x \<noteq> i) (updateWhere ?P ?g rs) = filter (\<lambda>x. isID x \<noteq> i) rs" for rs by (induction rs) auto
      ultimately show ?thesis using ok again False n e by auto
    qed simp
  qed
qed

definition demoTracker :: Tracker where
  "demoTracker = emptyTracker\<lparr>Issues := [\<lparr>isID = 1, isRepo = 5, isNumber = 1, isKind = ''issue'', isTitle = ''broken'', isBody = '''', isHtml = None,
     isAuthor = Some 3, isState = ''open'', isReason = None, isClosedBy = None, isLocked = False, isLockReason = None\<rparr>],
     NextIssueID := 2, Counters := [5 \<mapsto> 2]\<rparr>"

theorem set_state_is_idempotent_witness:
  "\<exists>db' r'. setState quietEnv 3 1 ''closed'' '''' 0 demoTracker = (Inr (), db') \<and> GetIssueByID 1 db' = Some r' \<and> isState r' = ''closed'' \<and> length (Events db') = 1"
proof -
  have "trackerInv demoTracker" by (simp add: trackerInv_def demoTracker_def emptyTracker_def issueStates_def replay_def)
  moreover have "GetIssueByID 1 demoTracker = Some (hd (Issues demoTracker))" "isState (hd (Issues demoTracker)) = ''open''" "Events demoTracker = []"
    by (simp_all add: GetIssueByID_def demoTracker_def emptyTracker_def)
  ultimately show ?thesis
    using set_state_is_idempotent [of quietEnv 1 demoTracker _ "''closed''" "''''" 3 0] by (simp add: quietEnv_def issueStates_def) fastforce
qed

end
