(* ===== verification/PullReviews.thy ===== *)
theory PullReviews
  imports IssueTracker MergeGates
begin

text \<open>
  Reviews of pull requests (\<^verbatim>\<open>src/internal/pulls/review\<close>, \<^verbatim>\<open>src/internal/pulls/codeowners.go\<close>): requests, submissions,
  dismissals, comments on the diff with their positions, and the reads of the two merge gates. The tables
  extend those of the issue tracker, since a pull request is an issue with a second row. Git is a record
  of functions: what it answers, and the commit a merge or update produces.
\<close>

section \<open>Tables\<close>

record PullRequest =
  prID :: go_int64
  prBaseRef :: string
  prHeadRef :: string
  prHeadRepo :: go_int64
  prBaseOid :: string
  prHeadOid :: string
  prDraft :: bool
  prMergeable :: "bool option"
  prMergeableState :: string
  prMerged :: bool
  prMergeSha :: "string option"
  prMergedBy :: "go_int64 option"
  prMergeMethod :: "string option"
  prBaseAtMerge :: "string option"
  prHeadAtMerge :: "string option"

record PRCommit =
  pcSha :: string
  pcSubject :: string
  pcBody :: string

record PRFile =
  pfPath :: string
  pfStatus :: string
  pfOldPath :: "string option"
  pfAdditions :: int
  pfDeletions :: int

record Review =
  rvID :: go_int64
  rvPR :: go_int64
  rvAuthor :: "go_int64 option"
  rvState :: PrReviewState
  rvBody :: string
  rvDismissed :: bool
  rvDismissedBy :: "go_int64 option"
  rvDismissalReason :: string

record ReviewRequest =
  rqPR :: go_int64
  rqUser :: "go_int64 option"
  rqTeam :: "go_int64 option"
  rqBy :: "go_int64 option"
  rqDismissed :: bool
  rqSatisfiedBy :: "go_int64 option"

text \<open>
  A comment on the diff. Drafts are pending until their author submits a review; a comment without a
  position is outdated.
\<close>

record ReviewComment =
  rcID :: go_int64
  rcPR :: go_int64
  rcAuthor :: "go_int64 option"
  rcReview :: "go_int64 option"
  rcPending :: bool
  rcPath :: string
  rcSide :: string
  rcCommit :: string
  rcLine :: int
  rcOriginalPosition :: int
  rcPosition :: "int option"
  rcBody :: string
  rcHtml :: "string option"
  rcReply :: "go_int64 option"
  rcResolved :: bool
  rcResolvedBy :: "go_int64 option"

record PullTracker = Tracker +
  Pulls :: "PullRequest list"
  PRCommits :: "go_int64 \<Rightarrow> PRCommit list"
  PRFiles :: "go_int64 \<Rightarrow> PRFile list"
  Reviews :: "Review list"
  NextReviewID :: go_int64
  Requests :: "ReviewRequest list"
  ReviewComments :: "ReviewComment list"
  NextReviewCommentID :: go_int64
  DefaultBranches :: "go_int64 \<rightharpoonup> string \<times> string option"
  Jobs :: "(string \<times> go_int64) list"

datatype 'a git = GitOK 'a | RefNotFound | GitFailed string

record MergeOptions =
  moBaseRef :: string
  moBaseOID :: string
  moHeadOID :: string
  moMethod :: string
  moAuthorName :: string
  moAuthorEmail :: string
  moCommitterName :: string
  moCommitterEmail :: string
  moSubject :: string
  moBody :: string

record UpdateBranchOptions =
  uoHeadRef :: string
  uoHeadOID :: string
  uoBaseOID :: string
  uoMethod :: string
  uoName :: string
  uoEmail :: string

datatype branchUpdate = AlreadyUpToDate | UpdateFailed string | NewHead string

record GitRepo =
  ResolveRefOID :: "string \<Rightarrow> string git"
  IsAncestor :: "string \<Rightarrow> string \<Rightarrow> bool git"
  CommitsBetween :: "string \<Rightarrow> string \<Rightarrow> nat \<Rightarrow> PRCommit list git"
  FilesChangedBetween :: "string \<Rightarrow> string \<Rightarrow> PRFile list git"
  ProbeMerge :: "string \<Rightarrow> string \<Rightarrow> bool git"
  PerformMerge :: "MergeOptions \<Rightarrow> string git"
  ReadBlobBytes :: "string \<Rightarrow> string \<Rightarrow> string option"
  UpdateBranchFromBase :: "UpdateBranchOptions \<Rightarrow> branchUpdate"
  gitDirName :: string

text \<open>
  What the gates read outside these tables: protection rules, the repository row, code owners and check
  runs on a commit; and users: display name, name, verified primary address.
\<close>

record 'o GateEnv =
  ListBranchProtectionRules :: "go_int64 \<Rightarrow> BranchProtectionRule list result"
  RepoReadError :: "string option"
  OwnerData :: "'o OwnerReads"
  LatestRun :: "go_int64 \<Rightarrow> string \<Rightarrow> string \<Rightarrow> CheckRun option result"

record PullUser =
  puDisplay :: string
  puUsername :: string
  puPrimary :: "(string \<times> bool) option"

type_synonym userTable = "go_int64 \<Rightarrow> PullUser option"

definition GetPullRequest :: "go_int64 \<Rightarrow> 'x PullTracker_scheme \<Rightarrow> PullRequest option" where
  "GetPullRequest i db = find (\<lambda>r. prID r = i) (Pulls db)"

definition updatePull :: "faults \<Rightarrow> string \<Rightarrow> go_int64 \<Rightarrow> (PullRequest \<Rightarrow> PullRequest) \<Rightarrow> ('x PullTracker_scheme, unit) tx" where
  "updatePull f name i g = stmt f name (\<lambda>_. True) (\<lambda>db. ((), db\<lparr>Pulls := updateWhere (\<lambda>r. prID r = i) g (Pulls db)\<rparr>))"

definition SetPullRequestMergeability :: "faults \<Rightarrow> go_int64 \<Rightarrow> bool option \<Rightarrow> string \<Rightarrow> ('x PullTracker_scheme, unit) tx" where
  "SetPullRequestMergeability f i m st = updatePull f ''SetPullRequestMergeability'' i (\<lambda>r. r\<lparr>prMergeable := m, prMergeableState := st\<rparr>)"

definition SetPullRequestSnapshot :: "faults \<Rightarrow> go_int64 \<Rightarrow> string \<Rightarrow> string \<Rightarrow> ('x PullTracker_scheme, unit) tx" where
  "SetPullRequestSnapshot f i base head = updatePull f ''SetPullRequestSnapshot'' i (\<lambda>r. r\<lparr>prBaseOid := base, prHeadOid := head\<rparr>)"

text \<open>A statement outside a transaction commits at once.\<close>

definition alone :: "('s, 'a) tx \<Rightarrow> 's \<Rightarrow> (tracker_error + 'a) \<times> 's" where
  "alone m s = (case m s of Inl e \<Rightarrow> (Inl e, s) | Inr (x, s') \<Rightarrow> (Inr x, s'))"

text \<open>\<open>mergeenqueue.ForPR\<close> and the other best-effort jobs: a failing insert is only logged.\<close>

definition enqueueJob :: "faults \<Rightarrow> string \<Rightarrow> go_int64 \<Rightarrow> 'x PullTracker_scheme \<Rightarrow> 'x PullTracker_scheme" where
  "enqueueJob f kind i db = (if f ''Enqueue'' = None then db\<lparr>Jobs := Jobs db @ [(kind, i)]\<rparr> else db)"

section \<open>Gates\<close>

definition gateState :: "Review \<Rightarrow> GateReview" where
  "gateState r = \<lparr>AuthorUserID = rvAuthor r, revState = rvState r\<rparr>"

text \<open>\<^verbatim>\<open>ORDER BY author_user_id, submitted_at\<close>; reviews without an author come last.\<close>

definition ListUndismissedReviewsForGate :: "go_int64 \<Rightarrow> 'x PullTracker_scheme \<Rightarrow> GateReview list" where
  "ListUndismissedReviewsForGate i db =
     (let rs = filter (\<lambda>r. rvPR r = i \<and> \<not> rvDismissed r) (Reviews db) in
      map gateState (sort_key (\<lambda>r. the (rvAuthor r)) (filter (\<lambda>r. rvAuthor r \<noteq> None) rs) @ filter (\<lambda>r. rvAuthor r = None) rs))"

definition reviewGate :: "'o GateEnv \<Rightarrow> string \<Rightarrow> Issue \<Rightarrow> PullRequest \<Rightarrow> 'x PullTracker_scheme \<Rightarrow> GateResult result" where
  "reviewGate ge gitDir issue pr db =
     Evaluate (ListBranchProtectionRules ge (isRepo issue)) (Inr (ListUndismissedReviewsForGate (prID pr) db)) (RepoReadError ge)
       ((OwnerData ge)\<lparr>ChangedFiles := Inr (sort (map pfPath (PRFiles db (prID pr))))\<rparr>)
       \<lparr>BaseRef = prBaseRef pr, BaseOID = prBaseOid pr, GitDir = gitDir\<rparr> (int64FromPg (isAuthor issue))"

definition loadRequiredCheckNames :: "'o GateEnv \<Rightarrow> go_int64 \<Rightarrow> string \<Rightarrow> string list result" where
  "loadRequiredCheckNames ge repo baseRef = (case ListBranchProtectionRules ge repo of Inl e \<Rightarrow> Inl e
     | Inr rules \<Rightarrow> (case MatchLongestRule rules baseRef of None \<Rightarrow> Inr [] | Some rule \<Rightarrow> Inr (StatusChecksRequired rule)))"

definition checksGate :: "'o GateEnv \<Rightarrow> Issue \<Rightarrow> PullRequest \<Rightarrow> CheckGate result" where
  "checksGate ge issue pr = (case loadRequiredCheckNames ge (isRepo issue) (prBaseRef pr) of Inl e \<Rightarrow> Inl e
     | Inr names \<Rightarrow> (case EvaluateRequiredChecks (LatestRun ge (isRepo issue) (prHeadOid pr)) (prHeadOid pr) names of
         Inl (n, e) \<Rightarrow> Inl e | Inr g \<Rightarrow> Inr g))"

definition identityFor :: "userTable \<Rightarrow> go_int64 \<Rightarrow> (string \<times> string) option" where
  "identityFor users u = (case users u of None \<Rightarrow> None | Some user \<Rightarrow>
     (let display = TrimSpace (puDisplay user) in
      Some (if display = '''' then puUsername user else display,
            case puPrimary user of Some (addr, True) \<Rightarrow> addr | _ \<Rightarrow> puUsername user @ ''@noreply.shithub.local'')))"

section \<open>Reviews\<close>

definition MaxReviewersPerPR :: nat where
  "MaxReviewersPerPR = 20"

definition activeRequest :: "ReviewRequest \<Rightarrow> bool" where
  "activeRequest e \<longleftrightarrow> \<not> rqDismissed e \<and> rqSatisfiedBy e = None"

text \<open>\<open>CountActivePRReviewRequests\<close> counts what is not dismissed, satisfied requests included.\<close>

definition CountActivePRReviewRequests :: "go_int64 \<Rightarrow> 'x PullTracker_scheme \<Rightarrow> nat" where
  "CountActivePRReviewRequests i db = length (filter (\<lambda>e. rqPR e = i \<and> \<not> rqDismissed e) (Requests db))"

definition pendingFor :: "go_int64 \<Rightarrow> go_int64 \<Rightarrow> ReviewRequest \<Rightarrow> bool" where
  "pendingFor user team e \<longleftrightarrow> activeRequest e \<and> ((rqUser e = Some user \<and> user \<noteq> 0) \<or> (rqTeam e = Some team \<and> team \<noteq> 0))"

text \<open>
  \<open>Request\<close> counts, lists and inserts in statements of their own, without a transaction or a unique index: \<open>requestRefused\<close> is
  what the first two answer and \<open>insertRequest\<close> the rest. \<open>Request\<close> is a call that no other one overlaps.
\<close>

definition requestRefused :: "faults \<Rightarrow> go_int64 \<Rightarrow> go_int64 \<Rightarrow> go_int64 \<Rightarrow> 'x PullTracker_scheme \<Rightarrow> tracker_error option" where
  "requestRefused f i user team db =
     (if (user = 0) = (team = 0) then Some ErrReviewerTargetRequired
      else case f ''CountActivePRReviewRequests'' of Some e \<Rightarrow> Some (StoreErr ''CountActivePRReviewRequests'' e) | None \<Rightarrow>
      if CountActivePRReviewRequests i db \<ge> MaxReviewersPerPR then Some ErrReviewerLimitReached
      else case f ''ListPRReviewRequests'' of Some e \<Rightarrow> Some (StoreErr ''ListPRReviewRequests'' e) | None \<Rightarrow>
      if list_ex (\<lambda>e. rqPR e = i \<and> pendingFor user team e) (Requests db) then Some ErrReviewerAlreadyPending
      else None)"

definition insertRequest ::
  "TrackerEnv \<Rightarrow> go_int64 \<Rightarrow> go_int64 \<Rightarrow> go_int64 \<Rightarrow> go_int64 \<Rightarrow> 'x PullTracker_scheme \<Rightarrow> (tracker_error + ReviewRequest) \<times> 'x PullTracker_scheme" where
  "insertRequest env i user team by db =
     (let f = flt env; row = \<lparr>rqPR = i, rqUser = pgInt8 user, rqTeam = pgInt8 team, rqBy = pgInt8 by, rqDismissed = False, rqSatisfiedBy = None\<rparr> in
      case alone (stmt f ''CreatePRReviewRequest'' (\<lambda>db. GetIssueByID i db \<noteq> None) (\<lambda>db. (row, db\<lparr>Requests := Requests db @ [row]\<rparr>))) db of
        (Inl e, db1) \<Rightarrow> (Inl e, db1)
      | (Inr r, db1) \<Rightarrow> (Inr r, case GetIssueByID i db1 of None \<Rightarrow> db1 | Some issue \<Rightarrow>
          if user = 0 then db1
          else snd (alone (emitIssueEventTx f ''review_requested'' issue by (repoPublic env (isRepo issue)) []) db1)))"

definition Request ::
  "TrackerEnv \<Rightarrow> go_int64 \<Rightarrow> go_int64 \<Rightarrow> go_int64 \<Rightarrow> go_int64 \<Rightarrow> 'x PullTracker_scheme \<Rightarrow> (tracker_error + ReviewRequest) \<times> 'x PullTracker_scheme" where
  "Request env i user team by db = (case requestRefused (flt env) i user team db of Some e \<Rightarrow> (Inl e, db) | None \<Rightarrow> insertRequest env i user team by db)"

definition parseReviewState :: "string \<Rightarrow> PrReviewState option" where
  "parseReviewState s = (if s = ''comment'' then Some StateComment else if s = ''approve'' then Some StateApprove
     else if s = ''request_changes'' then Some StateRequestChanges else None)"

text \<open>\<open>teams\<close>: the teams of a user, for requests of a whole team.\<close>

definition Submit ::
  "TrackerEnv \<Rightarrow> (go_int64 \<Rightarrow> go_int64 set) \<Rightarrow> go_int64 \<Rightarrow> go_int64 \<Rightarrow> string \<Rightarrow> string \<Rightarrow> go_int64 \<Rightarrow> 'x PullTracker_scheme
     \<Rightarrow> (tracker_error + Review) \<times> 'x PullTracker_scheme" where
  "Submit env teams i author state body prAuthor db =
     (let f = flt env; b = TrimSpace body in
      case parseReviewState state of None \<Rightarrow> (Inl ErrInvalidState, db) | Some st \<Rightarrow>
      if st = StateApprove \<and> author \<noteq> 0 \<and> author = prAuthor then (Inl ErrAuthorCannotApprove, db)
      else if length b > 65535 then (Inl ErrBodyTooLong, db)
      else transaction f (
        bindTx (stmt f ''CreatePRReview'' (\<lambda>db. GetIssueByID i db \<noteq> None) (\<lambda>db.
          let row = \<lparr>rvID = NextReviewID db, rvPR = i, rvAuthor = pgInt8 author, rvState = st, rvBody = b, rvDismissed = False,
                     rvDismissedBy = None, rvDismissalReason = ''''\<rparr>
          in (row, db\<lparr>Reviews := Reviews db @ [row], NextReviewID := NextReviewID db + 1\<rparr>))) (\<lambda>row.
        bindTx (stmt f ''AttachPendingCommentsToReview'' (\<lambda>_. True) (\<lambda>db. ((), db\<lparr>ReviewComments :=
          updateWhere (\<lambda>c. rcPR c = i \<and> rcAuthor c = pgInt8 author \<and> rcAuthor c \<noteq> None \<and> rcPending c) (\<lambda>c. c\<lparr>rcReview := Some (rvID row), rcPending := False\<rparr>)
            (ReviewComments db)\<rparr>))) (\<lambda>_.
        bindTx (if st = StateComment then okTx ()
                else bindTx (stmt f ''SatisfyPRReviewRequest'' (\<lambda>_. True) (\<lambda>db. ((), db\<lparr>Requests :=
                       updateWhere (\<lambda>e. rqPR e = i \<and> rqUser e = pgInt8 author \<and> rqUser e \<noteq> None \<and> activeRequest e) (\<lambda>e. e\<lparr>rqSatisfiedBy := Some (rvID row)\<rparr>)
                         (Requests db)\<rparr>))) (\<lambda>_.
                     stmt f ''SatisfyPRReviewTeamRequests'' (\<lambda>_. True) (\<lambda>db. ((), db\<lparr>Requests :=
                       updateWhere (\<lambda>e. rqPR e = i \<and> activeRequest e \<and> (\<exists>t \<in> teams author. rqTeam e = Some t)) (\<lambda>e. e\<lparr>rqSatisfiedBy := Some (rvID row)\<rparr>)
                         (Requests db)\<rparr>)))) (\<lambda>_.
        bindTx (InsertIssueEvent f \<lparr>evIssue = i, evActor = pgInt8 author, evKind = ''reviewed'',
                  evMeta = ''{\"state\":\"'' @ state @ ''\",\"review_id\":'' @ Itoa (rvID row) @ ''}'', evRef = None\<rparr>) (\<lambda>_.
        okTx row))))) db)"

definition Dismiss :: "TrackerEnv \<Rightarrow> go_int64 \<Rightarrow> go_int64 \<Rightarrow> string \<Rightarrow> 'x PullTracker_scheme \<Rightarrow> (tracker_error + unit) \<times> 'x PullTracker_scheme" where
  "Dismiss env actor rid reason db =
     (case flt env ''GetPRReviewByID'' of Some e \<Rightarrow> (Inl (StoreErr ''GetPRReviewByID'' e), db) | None \<Rightarrow>
      if \<not> list_ex (\<lambda>r. rvID r = rid) (Reviews db) then (Inl ErrReviewNotFound, db)
      else alone (stmt (flt env) ''DismissPRReview'' (\<lambda>_. True) (\<lambda>db. ((), db\<lparr>Reviews :=
             updateWhere (\<lambda>r. rvID r = rid) (\<lambda>r. r\<lparr>rvDismissed := True, rvDismissedBy := pgInt8 actor, rvDismissalReason := TrimSpace reason\<rparr>) (Reviews db)\<rparr>))) db)"

section \<open>Comments on the diff\<close>

definition GetPRReviewComment :: "go_int64 \<Rightarrow> 'x PullTracker_scheme \<Rightarrow> ReviewComment option" where
  "GetPRReviewComment c db = find (\<lambda>r. rcID r = c) (ReviewComments db)"

definition updateComment :: "faults \<Rightarrow> string \<Rightarrow> go_int64 \<Rightarrow> (ReviewComment \<Rightarrow> ReviewComment) \<Rightarrow> ('x PullTracker_scheme, unit) tx" where
  "updateComment f name c g = stmt f name (\<lambda>_. True) (\<lambda>db. ((), db\<lparr>ReviewComments := updateWhere (\<lambda>r. rcID r = c) g (ReviewComments db)\<rparr>))"

record CommentParams =
  cmPR :: go_int64
  cmAuthor :: go_int64
  cmPath :: string
  cmSide :: string
  cmCommit :: string
  cmLine :: int
  cmOriginalPosition :: int
  cmPosition :: int
  cmBody :: string
  cmReply :: go_int64
  cmPending :: bool

text \<open>A reply takes the anchor of its parent; the position only if the parent still has one.\<close>

definition anchored :: "CommentParams \<Rightarrow> ReviewComment option \<Rightarrow> CommentParams" where
  "anchored p parent =
     (let p = (if cmSide p \<noteq> ''left'' \<and> cmSide p \<noteq> ''right'' then p\<lparr>cmSide := ''right''\<rparr> else p) in
      case parent of None \<Rightarrow> p | Some c \<Rightarrow>
        p\<lparr>cmPath := rcPath c, cmSide := rcSide c, cmCommit := rcCommit c, cmLine := rcLine c, cmOriginalPosition := rcOriginalPosition c,
          cmPosition := (case rcPosition c of Some n \<Rightarrow> n | None \<Rightarrow> cmPosition p)\<rparr>)"

definition replyParent :: "faults \<Rightarrow> CommentParams \<Rightarrow> 'x PullTracker_scheme \<Rightarrow> tracker_error + ReviewComment option" where
  "replyParent f p db =
     (if cmReply p = 0 then Inr None
      else case f ''GetPRReviewComment'' of Some e \<Rightarrow> Inl (StoreErr ''GetPRReviewComment'' e) | None \<Rightarrow>
      case GetPRReviewComment (cmReply p) db of None \<Rightarrow> Inl ErrCommentNotOnPR | Some c \<Rightarrow>
      if rcPR c \<noteq> cmPR p then Inl ErrCommentNotOnPR else Inr (Some c))"

definition AddReviewComment ::
  "TrackerEnv \<Rightarrow> CommentParams \<Rightarrow> 'x PullTracker_scheme \<Rightarrow> (tracker_error + ReviewComment) \<times> 'x PullTracker_scheme" where
  "AddReviewComment env p db =
     (let body = TrimSpace (cmBody p) in
      if body = '''' then (Inl ErrEmptyBody, db)
      else if length body > 65535 then (Inl ErrBodyTooLong, db)
      else case replyParent (flt env) p db of Inl e \<Rightarrow> (Inl e, db) | Inr parent \<Rightarrow>
      let q = anchored p parent in
      alone (stmt (flt env) ''CreatePRReviewComment'' (\<lambda>db. GetIssueByID (cmPR p) db \<noteq> None) (\<lambda>db.
        let row = \<lparr>rcID = NextReviewCommentID db, rcPR = cmPR p, rcAuthor = pgInt8 (cmAuthor p), rcReview = None, rcPending = cmPending p,
                   rcPath = cmPath q, rcSide = cmSide q, rcCommit = cmCommit q, rcLine = cmLine q, rcOriginalPosition = cmOriginalPosition q,
                   rcPosition = (if cmPosition q \<ge> 0 then Some (cmPosition q) else None), rcBody = body,
                   rcHtml = pgText (fst (renderBody env body)), rcReply = pgInt8 (cmReply p), rcResolved = False, rcResolvedBy = None\<rparr>
        in (row, db\<lparr>ReviewComments := ReviewComments db @ [row], NextReviewCommentID := NextReviewCommentID db + 1\<rparr>))) db)"

definition EditComment :: "TrackerEnv \<Rightarrow> go_int64 \<Rightarrow> string \<Rightarrow> 'x PullTracker_scheme \<Rightarrow> (tracker_error + unit) \<times> 'x PullTracker_scheme" where
  "EditComment env c text0 db =
     (let body = TrimSpace text0 in
      if body = '''' then (Inl ErrEmptyBody, db)
      else if length body > 65535 then (Inl ErrBodyTooLong, db)
      else alone (updateComment (flt env) ''UpdatePRReviewCommentBody'' c (\<lambda>r. r\<lparr>rcBody := body, rcHtml := pgText (fst (renderBody env body))\<rparr>)) db)"

definition setResolved :: "faults \<Rightarrow> bool \<Rightarrow> go_int64 option \<Rightarrow> tracker_error \<Rightarrow> go_int64 \<Rightarrow> 'x PullTracker_scheme \<Rightarrow> (tracker_error + unit) \<times> 'x PullTracker_scheme" where
  "setResolved f resolved by refusal c db =
     (case f ''GetPRReviewComment'' of Some e \<Rightarrow> (Inl (StoreErr ''GetPRReviewComment'' e), db) | None \<Rightarrow>
      case GetPRReviewComment c db of None \<Rightarrow> (Inl (StoreErr ''GetPRReviewComment'' ''no rows''), db) | Some r \<Rightarrow>
      if rcResolved r = resolved then (Inl refusal, db)
      else alone (updateComment f ''SetPRReviewCommentResolved'' c (\<lambda>r. r\<lparr>rcResolved := resolved, rcResolvedBy := by\<rparr>)) db)"

definition Resolve :: "TrackerEnv \<Rightarrow> go_int64 \<Rightarrow> go_int64 \<Rightarrow> 'x PullTracker_scheme \<Rightarrow> (tracker_error + unit) \<times> 'x PullTracker_scheme" where
  "Resolve env actor c db = setResolved (flt env) True (pgInt8 actor) ErrAlreadyResolved c db"

definition Reopen :: "TrackerEnv \<Rightarrow> go_int64 \<Rightarrow> 'x PullTracker_scheme \<Rightarrow> (tracker_error + unit) \<times> 'x PullTracker_scheme" where
  "Reopen env c db = setResolved (flt env) False None ErrNotResolved c db"

text \<open>
  \<open>RemapAllForPR\<close>: the line a comment was written on is compared with the same line of the new base or head.
  Every row is a statement of its own, so a failing one leaves the rows before it remapped. Reads of a blob
  are the same each time, so the cache of blobs is left out.
\<close>

definition remappedPosition :: "GitRepo \<Rightarrow> string \<Rightarrow> string \<Rightarrow> ReviewComment \<Rightarrow> int option" where
  "remappedPosition git baseOID headOID c =
     newPosition (ReadBlobBytes git (rcCommit c) (rcPath c)) (ReadBlobBytes git (if rcSide c = ''left'' then baseOID else headOID) (rcPath c)) (rcLine c)"

fun remapRows :: "faults \<Rightarrow> GitRepo \<Rightarrow> string \<Rightarrow> string \<Rightarrow> ReviewComment list \<Rightarrow> 'x PullTracker_scheme \<Rightarrow> (tracker_error + unit) \<times> 'x PullTracker_scheme" where
  "remapRows f git baseOID headOID [] db = (Inr (), db)"
| "remapRows f git baseOID headOID (c # cs) db =
     (case alone (updateComment f ''SetPRReviewCommentCurrentPosition'' (rcID c) (\<lambda>r. r\<lparr>rcPosition := remappedPosition git baseOID headOID c\<rparr>)) db of
        (Inl e, db') \<Rightarrow> (Inl e, db') | (Inr _, db') \<Rightarrow> remapRows f git baseOID headOID cs db')"

definition RemapAllForPR :: "faults \<Rightarrow> GitRepo \<Rightarrow> go_int64 \<Rightarrow> string \<Rightarrow> string \<Rightarrow> 'x PullTracker_scheme \<Rightarrow> (tracker_error + unit) \<times> 'x PullTracker_scheme" where
  "RemapAllForPR f git i baseOID headOID db =
     (if baseOID = '''' \<or> headOID = '''' then (Inr (), db)
      else case f ''ListNonDraftCommentsForPositionMap'' of Some e \<Rightarrow> (Inl (StoreErr ''ListNonDraftCommentsForPositionMap'' e), db) | None \<Rightarrow>
      remapRows f git baseOID headOID (filter (\<lambda>c. rcPR c = i \<and> \<not> rcPending c) (ReviewComments db)) db)"

section \<open>Requests for code owners\<close>

text \<open>
  \<open>requestCodeOwners\<close>: review requests for the owners of changed files. \<open>entitled\<close> is the answer for a private
  repository of the entitlement check. Errors of the whole are only logged by its callers.
\<close>

fun ownerTargets :: "'o OwnerReads \<Rightarrow> (string \<Rightarrow> 'o list option) \<Rightarrow> string list \<Rightarrow> (go_int64 list \<times> go_int64 list) result" where
  "ownerTargets od ownersFor [] = Inr ([], [])"
| "ownerTargets od ownersFor (p # ps) = (case ownersFor p of
     None \<Rightarrow> ownerTargets od ownersFor ps
   | Some owners \<Rightarrow> if owners = [] then ownerTargets od ownersFor ps
       else (case ResolveTargets od owners of Inl e \<Rightarrow> Inl e | Inr t \<Rightarrow>
         (case ownerTargets od ownersFor ps of Inl e \<Rightarrow> Inl e | Inr (us, ts) \<Rightarrow>
            Inr (fold List.insert (UserIDs t) us, fold List.insert (TeamIDs t) ts))))"

definition requestReviewerTarget ::
  "TrackerEnv \<Rightarrow> go_int64 \<Rightarrow> go_int64 \<Rightarrow> go_int64 \<Rightarrow> go_int64 \<Rightarrow> 'x PullTracker_scheme \<Rightarrow> (tracker_error + unit) \<times> 'x PullTracker_scheme" where
  "requestReviewerTarget env i by user team db = (case Request env i user team by db of
     (Inr _, db') \<Rightarrow> (Inr (), db')
   | (Inl e, db') \<Rightarrow> (if e = ErrReviewerAlreadyPending \<or> e = ErrReviewerLimitReached then Inr () else Inl e, db'))"

fun requestAll :: "TrackerEnv \<Rightarrow> go_int64 \<Rightarrow> go_int64 \<Rightarrow> (go_int64 \<times> go_int64) list \<Rightarrow> 'x PullTracker_scheme \<Rightarrow> 'x PullTracker_scheme" where
  "requestAll env i by [] db = db"
| "requestAll env i by ((u, t) # rs) db = (case requestReviewerTarget env i by u t db of
     (Inl e, db') \<Rightarrow> db' | (Inr _, db') \<Rightarrow> requestAll env i by rs db')"

definition requestCodeOwners ::
  "TrackerEnv \<Rightarrow> 'o GateEnv \<Rightarrow> bool result \<Rightarrow> go_int64 \<Rightarrow> go_int64 \<Rightarrow> 'x PullTracker_scheme \<Rightarrow> 'x PullTracker_scheme" where
  "requestCodeOwners env ge entitled i by db =
     (if RepoReadError ge \<noteq> None \<or> entitled \<noteq> Inr True then db
      else case LoadOwners (OwnerData ge) of Inl e \<Rightarrow> db | Inr None \<Rightarrow> db | Inr (Some ownersFor) \<Rightarrow>
        (case ownerTargets (OwnerData ge) ownersFor (sort (map pfPath (PRFiles db i))) of Inl e \<Rightarrow> db | Inr (us, ts) \<Rightarrow>
          requestAll env i by (map (\<lambda>u. (u, 0)) (filter (\<lambda>u. u \<noteq> by) us) @ map (\<lambda>t. (0, t)) ts) db))"

end
