(* ===== verification/PullRequests.thy ===== *)
theory PullRequests
  imports PullReviews "HOL-Library.Word"
begin

text \<open>
  Pull requests (\<^verbatim>\<open>src/internal/pulls\<close>): opening, synchronizing, mergeability, merging, closing, retargeting and
  updating.
\<close>

section \<open>Opening and synchronizing\<close>

text \<open>Inserts one after the other; \<open>free\<close> is the primary key.\<close>

fun insertRows :: "faults \<Rightarrow> string \<Rightarrow> ('r \<Rightarrow> 's \<Rightarrow> bool) \<Rightarrow> ('r \<Rightarrow> 's \<Rightarrow> 's) \<Rightarrow> 'r list \<Rightarrow> ('s, unit) tx" where
  "insertRows f name free ins [] = okTx ()"
| "insertRows f name free ins (r # rs) = bindTx (stmt f name (free r) (\<lambda>db. ((), ins r db))) (\<lambda>_. insertRows f name free ins rs)"

definition refreshCommitsAndFiles ::
  "faults \<Rightarrow> GitRepo \<Rightarrow> go_int64 \<Rightarrow> string \<Rightarrow> string \<Rightarrow> 'x PullTracker_scheme \<Rightarrow> (tracker_error + unit) \<times> 'x PullTracker_scheme" where
  "refreshCommitsAndFiles f git i baseOID headOID db =
     (case CommitsBetween git baseOID headOID 250 of RefNotFound \<Rightarrow> (Inl (GitErr ''commits''), db) | GitFailed e \<Rightarrow> (Inl (GitErr e), db) | GitOK commits \<Rightarrow>
     (case FilesChangedBetween git baseOID headOID of RefNotFound \<Rightarrow> (Inl (GitErr ''files''), db) | GitFailed e \<Rightarrow> (Inl (GitErr e), db) | GitOK files \<Rightarrow>
      transaction f (
        bindTx (stmt f ''ClearPullRequestCommits'' (\<lambda>_. True) (\<lambda>db. ((), db\<lparr>PRCommits := (PRCommits db)(i := [])\<rparr>))) (\<lambda>_.
        bindTx (stmt f ''ClearPullRequestFiles'' (\<lambda>_. True) (\<lambda>db. ((), db\<lparr>PRFiles := (PRFiles db)(i := [])\<rparr>))) (\<lambda>_.
        bindTx (insertRows f ''InsertPullRequestCommit'' (\<lambda>c db. pcSha c \<notin> pcSha ` set (PRCommits db i)) (\<lambda>c db. db\<lparr>PRCommits := (PRCommits db)(i := PRCommits db i @ [c])\<rparr>) commits) (\<lambda>_.
        bindTx (insertRows f ''InsertPullRequestFile'' (\<lambda>c db. pfPath c \<notin> pfPath ` set (PRFiles db i)) (\<lambda>c db. db\<lparr>PRFiles := (PRFiles db)(i := PRFiles db i @ [c])\<rparr>) files) (\<lambda>_.
        SetPullRequestSnapshot f i baseOID headOID))))) db))"

record PullParams =
  ppRepoID :: go_int64
  ppAuthor :: go_int64
  ppTitle :: string
  ppBody :: string
  ppBaseRef :: string
  ppHeadRef :: string
  ppDraft :: bool

definition FindOpenPullRequestByBranches :: "go_int64 \<Rightarrow> string \<Rightarrow> string \<Rightarrow> 'x PullTracker_scheme \<Rightarrow> Issue option" where
  "FindOpenPullRequestByBranches repo base head db =
     find (\<lambda>is. isRepo is = repo \<and> isKind is = ''pr'' \<and> isState is = ''open'' \<and>
        list_ex (\<lambda>pr. prID pr = isID is \<and> prBaseRef pr = base \<and> prHeadRef pr = head) (Pulls db)) (Issues db)"

definition newPull :: "go_int64 \<Rightarrow> PullParams \<Rightarrow> string \<Rightarrow> string \<Rightarrow> string \<Rightarrow> string \<Rightarrow> PullRequest" where
  "newPull i p base head baseOID headOID =
     \<lparr>prID = i, prBaseRef = base, prHeadRef = head, prHeadRepo = ppRepoID p, prBaseOid = baseOID, prHeadOid = headOID, prDraft = ppDraft p,
      prMergeable = None, prMergeableState = ''unknown'', prMerged = False, prMergeSha = None, prMergedBy = None, prMergeMethod = None,
      prBaseAtMerge = None, prHeadAtMerge = None\<rparr>"

definition CreatePullRequest :: "faults \<Rightarrow> PullRequest \<Rightarrow> ('x PullTracker_scheme, PullRequest) tx" where
  "CreatePullRequest f row = stmt f ''CreatePullRequest'' (\<lambda>db. GetPullRequest (prID row) db = None \<and> prBaseRef row \<noteq> prHeadRef row)
     (\<lambda>db. (row, db\<lparr>Pulls := Pulls db @ [row]\<rparr>))"

definition openTx :: "TrackerEnv \<Rightarrow> PullParams \<Rightarrow> string \<Rightarrow> string \<Rightarrow> string \<Rightarrow> string \<Rightarrow> ('x PullTracker_scheme, Issue \<times> PullRequest) tx" where
  "openTx env p base head baseOID headOID =
     bindTx (stmt (flt env) ''pg_advisory_xact_lock'' (\<lambda>_. True) (\<lambda>db. ((), db))) (\<lambda>_.
     bindTx (stmt (flt env) ''FindOpenPullRequestByBranches'' (\<lambda>_. True) (\<lambda>db. (FindOpenPullRequestByBranches (ppRepoID p) base head db, db))) (\<lambda>existing.
     case existing of Some is \<Rightarrow> failTx (DuplicatePRError (isNumber is) base head) | None \<Rightarrow>
     bindTx (CreateInTx env \<lparr>cpRepoID = ppRepoID p, cpAuthor = ppAuthor p, cpTitle = ppTitle p, cpBody = ppBody p, cpKind = ''pr''\<rparr>) (\<lambda>issue.
     bindTx (CreatePullRequest (flt env) (newPull (isID issue) p base head baseOID headOID)) (\<lambda>pr.
     okTx (issue, pr)))))"

text \<open>
  \<open>pulls.Create\<close>. After the commit everything is best effort: the first snapshot and, if it worked, review
  requests for code owners; then the jobs.
\<close>

definition OpenPull ::
  "TrackerEnv \<Rightarrow> 'o GateEnv \<Rightarrow> bool result \<Rightarrow> GitRepo \<Rightarrow> PullParams \<Rightarrow> 'x PullTracker_scheme \<Rightarrow> (tracker_error + Issue \<times> PullRequest) \<times> 'x PullTracker_scheme" where
  "OpenPull env ge entitled git p db =
     (let f = flt env; base = TrimSpace (ppBaseRef p); head = TrimSpace (ppHeadRef p) in
      if base = '''' \<or> head = '''' \<or> base = head then (Inl ErrSameBranch, db)
      else case ResolveRefOID git base of RefNotFound \<Rightarrow> (Inl ErrBaseNotFound, db) | GitFailed e \<Rightarrow> (Inl (GitErr e), db) | GitOK baseOID \<Rightarrow>
      case ResolveRefOID git head of RefNotFound \<Rightarrow> (Inl ErrHeadNotFound, db) | GitFailed e \<Rightarrow> (Inl (GitErr e), db) | GitOK headOID \<Rightarrow>
      if baseOID = headOID then (Inl ErrNoCommitsToMerge, db)
      else case transaction f (openTx env p base head baseOID headOID) db of
        (Inl e, db') \<Rightarrow> (Inl e, db')
      | (Inr (issue, pr), db1) \<Rightarrow>
          let db3 = (case refreshCommitsAndFiles f git (prID pr) baseOID headOID db1 of
                       (Inl e, db2) \<Rightarrow> db2 | (Inr _, db2) \<Rightarrow> requestCodeOwners env ge entitled (prID pr) (ppAuthor p) db2)
          in (Inr (issue, pr), enqueueJob f ''pr:dependency_review'' (prID pr) (enqueueJob f ''pr:mergeability'' (prID pr)
                (enqueueJob f ''workflow:trigger'' (prID pr) db3))))"

text \<open>\<open>Synchronize\<close> once both tips are known.\<close>

definition syncSnapshot ::
  "TrackerEnv \<Rightarrow> 'o GateEnv \<Rightarrow> bool result \<Rightarrow> GitRepo \<Rightarrow> go_int64 \<Rightarrow> string \<Rightarrow> string \<Rightarrow> 'x PullTracker_scheme \<Rightarrow> (tracker_error + unit) \<times> 'x PullTracker_scheme" where
  "syncSnapshot env ge entitled git i baseOID headOID db =
     (let f = flt env in
      case refreshCommitsAndFiles f git i baseOID headOID db of (Inl e, db1) \<Rightarrow> (Inl e, db1) | (Inr _, db1) \<Rightarrow>
      case f ''GetIssueByID'' of Some e \<Rightarrow> (Inl (StoreErr ''GetIssueByID'' e), db1) | None \<Rightarrow>
      case GetIssueByID i db1 of None \<Rightarrow> (Inl (StoreErr ''GetIssueByID'' ''no rows''), db1) | Some issue \<Rightarrow>
      let db2 = snd (RemapAllForPR f git i baseOID headOID (requestCodeOwners env ge entitled i (int64FromPg (isAuthor issue)) db1)) in
      case alone (SetPullRequestMergeability f i None ''unknown'') db2 of (Inl e, db3) \<Rightarrow> (Inl e, db3) | (Inr _, db3) \<Rightarrow>
      alone (InsertIssueEvent f \<lparr>evIssue = i, evActor = None, evKind = ''synchronized'', evMeta = ''{\"head_oid\":\"'' @ headOID @ ''\"}'', evRef = None\<rparr>) db3)"

definition Synchronize ::
  "TrackerEnv \<Rightarrow> 'o GateEnv \<Rightarrow> bool result \<Rightarrow> GitRepo \<Rightarrow> go_int64 \<Rightarrow> 'x PullTracker_scheme \<Rightarrow> (tracker_error + unit) \<times> 'x PullTracker_scheme" where
  "Synchronize env ge entitled git i db =
     (case flt env ''GetPullRequestByIssueID'' of Some e \<Rightarrow> (Inl (StoreErr ''GetPullRequestByIssueID'' e), db) | None \<Rightarrow>
      case GetPullRequest i db of None \<Rightarrow> (Inl ErrPRNotFound, db) | Some pr \<Rightarrow>
      case ResolveRefOID git (prBaseRef pr) of RefNotFound \<Rightarrow> (Inl (GitErr ''resolve base''), db) | GitFailed e \<Rightarrow> (Inl (GitErr e), db) | GitOK baseOID \<Rightarrow>
      case ResolveRefOID git (prHeadRef pr) of RefNotFound \<Rightarrow> (Inl (GitErr ''resolve head''), db) | GitFailed e \<Rightarrow> (Inl (GitErr e), db) | GitOK headOID \<Rightarrow>
      syncSnapshot env ge entitled git i baseOID headOID db)"

section \<open>Mergeability and merging\<close>

text \<open>\<open>Mergeability\<close> of a pull request that merges without conflicts: the gates decide.\<close>

definition gatesState ::
  "faults \<Rightarrow> 'o GateEnv \<Rightarrow> GitRepo \<Rightarrow> go_int64 \<Rightarrow> PullRequest \<Rightarrow> 'x PullTracker_scheme \<Rightarrow> (tracker_error + unit) \<times> 'x PullTracker_scheme" where
  "gatesState f ge git i pr db =
     (case f ''GetIssueByID'' of Some e \<Rightarrow> (Inl (StoreErr ''GetIssueByID'' e), db) | None \<Rightarrow>
      case GetIssueByID i db of None \<Rightarrow> (Inl (StoreErr ''GetIssueByID'' ''no rows''), db) | Some issue \<Rightarrow>
      case reviewGate ge (gitDirName git) issue pr db of Inl e \<Rightarrow> (Inl (GateErr e), db) | Inr rg \<Rightarrow>
      case checksGate ge issue pr of Inl e \<Rightarrow> (Inl (GateErr e), db) | Inr cg \<Rightarrow>
      if \<not> Satisfied rg \<or> \<not> chkSatisfied cg then alone (SetPullRequestMergeability f i (Some False) ''blocked'') db
      else alone (SetPullRequestMergeability f i (Some True) ''clean'') db)"

definition Mergeability ::
  "faults \<Rightarrow> 'o GateEnv \<Rightarrow> GitRepo \<Rightarrow> go_int64 \<Rightarrow> 'x PullTracker_scheme \<Rightarrow> (tracker_error + unit) \<times> 'x PullTracker_scheme" where
  "Mergeability f ge git i db =
     (case f ''GetPullRequestByIssueID'' of Some e \<Rightarrow> (Inl (StoreErr ''GetPullRequestByIssueID'' e), db) | None \<Rightarrow>
      case GetPullRequest i db of None \<Rightarrow> (Inl (StoreErr ''GetPullRequestByIssueID'' ''no rows''), db) | Some pr \<Rightarrow>
      if prBaseOid pr = '''' \<or> prHeadOid pr = '''' then (Inr (), db)
      else case (case CommitsBetween git (prBaseOid pr) (prHeadOid pr) 1 of GitOK cs \<Rightarrow> Inr cs | RefNotFound \<Rightarrow> Inr [] | GitFailed e \<Rightarrow> Inl e) of
        Inl e \<Rightarrow> (Inl (GitErr e), db)
      | Inr commits \<Rightarrow>
      if commits = [] then alone (SetPullRequestMergeability f i (Some False) ''behind'') db
      else case ProbeMerge git (prBaseOid pr) (prHeadOid pr) of RefNotFound \<Rightarrow> (Inl (GitErr ''probe''), db) | GitFailed e \<Rightarrow> (Inl (GitErr e), db)
      | GitOK hasConflict \<Rightarrow>
      if hasConflict then alone (SetPullRequestMergeability f i (Some False) ''dirty'') db
      else gatesState f ge git i pr db)"

record MergeParams =
  mpPRID :: go_int64
  mpActor :: go_int64
  mpMethod :: string
  mpSubject :: string
  mpBody :: string

text \<open>The checks of a merge before git is asked.\<close>

definition mergeChecks :: "faults \<Rightarrow> 'o GateEnv \<Rightarrow> GitRepo \<Rightarrow> go_int64 \<Rightarrow> 'x PullTracker_scheme \<Rightarrow> tracker_error + PullRequest \<times> Issue" where
  "mergeChecks f ge git i db =
     (case (if f ''LockPullRequestForMerge'' \<noteq> None then None else GetPullRequest i db) of None \<Rightarrow> Inl ErrPRNotFound | Some pr \<Rightarrow>
      if prMerged pr then Inl ErrAlreadyMerged
      else case f ''GetIssueByID'' of Some e \<Rightarrow> Inl (StoreErr ''GetIssueByID'' e) | None \<Rightarrow>
      case GetIssueByID i db of None \<Rightarrow> Inl (StoreErr ''GetIssueByID'' ''no rows'') | Some issue \<Rightarrow>
      if isState issue \<noteq> ''open'' then Inl ErrAlreadyClosed
      else if prHeadOid pr \<noteq> '''' \<and> prBaseOid pr \<noteq> '''' \<and> IsAncestor git (prHeadOid pr) (prBaseOid pr) = GitOK True then Inl ErrHeadAlreadyMerged
      else if prMergeableState pr \<noteq> ''clean'' then Inl ErrMergeBlocked
      else case reviewGate ge (gitDirName git) issue pr db of Inl e \<Rightarrow> Inl (GateErr e) | Inr rg \<Rightarrow>
      if \<not> Satisfied rg then Inl ErrMergeBlocked
      else case checksGate ge issue pr of Inl e \<Rightarrow> Inl (GateErr e) | Inr cg \<Rightarrow>
      if \<not> chkSatisfied cg then Inl ErrMergeBlocked
      else Inr (pr, issue))"

definition mergeOptions :: "userTable \<Rightarrow> MergeParams \<Rightarrow> PullRequest \<Rightarrow> Issue \<Rightarrow> MergeOptions option" where
  "mergeOptions users p pr issue =
     (case identityFor users (mpActor p) of None \<Rightarrow> None | Some (mergerName, mergerEmail) \<Rightarrow>
      let author = (if mpMethod p = ''squash'' then (case isAuthor issue of None \<Rightarrow> None | Some a \<Rightarrow> identityFor users a) else None);
          subject = TrimSpace (mpSubject p) in
      Some \<lparr>moBaseRef = ''refs/heads/'' @ prBaseRef pr, moBaseOID = prBaseOid pr, moHeadOID = prHeadOid pr, moMethod = mpMethod p,
            moAuthorName = (case author of Some (n, e) \<Rightarrow> n | None \<Rightarrow> mergerName), moAuthorEmail = (case author of Some (n, e) \<Rightarrow> e | None \<Rightarrow> mergerEmail),
            moCommitterName = mergerName, moCommitterEmail = mergerEmail,
            moSubject = (if subject = '''' then isTitle issue @ '' (#'' @ Itoa (isNumber issue) @ '')'' else subject), moBody = mpBody p\<rparr>)"

text \<open>
  Closing the linked issues; \<open>closed\<close> holds those the loop has closed. A statement that fails aborts the whole
  transaction even where the code ignores its error, because the commit is then refused.
\<close>

fun closeLinked :: "faults \<Rightarrow> MergeParams \<Rightarrow> Issue \<Rightarrow> go_int64 set \<Rightarrow> nat list \<Rightarrow> ('x PullTracker_scheme, unit) tx" where
  "closeLinked f p issue closed [] = okTx ()"
| "closeLinked f p issue closed (n # ns) =
     (if int n = isNumber issue then closeLinked f p issue closed ns
      else bindTx (readTx (GetIssueByNumber (isRepo issue) (int n))) (\<lambda>target.
        case target of None \<Rightarrow> closeLinked f p issue closed ns | Some t \<Rightarrow>
        if isKind t \<noteq> ''issue'' \<or> isState t \<noteq> ''open'' then closeLinked f p issue closed ns
        else if isID t \<in> closed then closeLinked f p issue closed ns
        else bindTx (SetIssueState f (isID t) ''closed'' (Some ''completed'') (pgInt8 (mpActor p))) (\<lambda>_.
             bindTx (InsertIssueEvent f \<lparr>evIssue = isID t, evActor = pgInt8 (mpActor p), evKind = ''closed'',
                       evMeta = ''{\"closed_by_pr\":'' @ Itoa (mpPRID p) @ ''}'', evRef = None\<rparr>) (\<lambda>_.
             closeLinked f p issue (insert (isID t) closed) ns))))"

definition linkedNumbers :: "Issue \<Rightarrow> PRCommit list \<Rightarrow> nat list" where
  "linkedNumbers issue commits = concat (map parseLinkedIssues (isBody issue # map (\<lambda>c. pcSubject c @ [CHR 0x0A, CHR 0x0A] @ pcBody c) commits))"

definition validMethods :: "string set" where
  "validMethods = {''merge'', ''squash'', ''rebase''}"

definition recordMerge :: "faults \<Rightarrow> MergeParams \<Rightarrow> PullRequest \<Rightarrow> Issue \<Rightarrow> string \<Rightarrow> ('x PullTracker_scheme, unit) tx" where
  "recordMerge f p pr issue merged =
     bindTx (stmt f ''SetPullRequestMerged'' (\<lambda>_. mpMethod p \<in> validMethods) (\<lambda>db. ((), db\<lparr>Pulls := updateWhere (\<lambda>r. prID r = mpPRID p)
        (\<lambda>r. r\<lparr>prMerged := True, prMergedBy := pgInt8 (mpActor p), prMergeSha := Some merged, prMergeMethod := Some (mpMethod p),
              prBaseAtMerge := Some (prBaseOid pr), prHeadAtMerge := Some (prHeadOid pr), prMergeable := Some False, prMergeableState := ''clean''\<rparr>) (Pulls db)\<rparr>))) (\<lambda>_.
     bindTx (stmt f ''GetRepoByID'' (\<lambda>db. DefaultBranches db (isRepo issue) \<noteq> None) (\<lambda>db. (fst (the (DefaultBranches db (isRepo issue))), db))) (\<lambda>def.
     bindTx (if def = prBaseRef pr then stmt f ''UpdateRepoDefaultBranchOID'' (\<lambda>_. True) (\<lambda>db. ((), db\<lparr>DefaultBranches := (DefaultBranches db)(isRepo issue \<mapsto> (def, Some merged))\<rparr>)) else okTx ()) (\<lambda>_.
     bindTx (SetIssueState f (mpPRID p) ''closed'' (Some ''completed'') (pgInt8 (mpActor p))) (\<lambda>_.
     bindTx (InsertIssueEvent f \<lparr>evIssue = mpPRID p, evActor = pgInt8 (mpActor p), evKind = ''merged'',
               evMeta = ''{\"method\":\"'' @ mpMethod p @ ''\",\"commit\":\"'' @ merged @ ''\"}'', evRef = None\<rparr>) (\<lambda>_.
     bindTx (readTx (\<lambda>db. linkedNumbers issue (PRCommits db (mpPRID p)))) (\<lambda>linked.
     closeLinked f p issue {} linked))))))"

text \<open>
  \<open>Merge\<close>. The result also has the options git was called with, if it was: the ref moves when git succeeds,
  whatever happens to the transaction afterwards.
\<close>

definition Merge ::
  "faults \<Rightarrow> 'o GateEnv \<Rightarrow> userTable \<Rightarrow> GitRepo \<Rightarrow> MergeParams \<Rightarrow> 'x PullTracker_scheme \<Rightarrow> (tracker_error + unit) \<times> MergeOptions option \<times> 'x PullTracker_scheme" where
  "Merge f ge users git p db =
     (case f ''Begin'' of Some e \<Rightarrow> (Inl (StoreErr ''Begin'' e), None, db) | None \<Rightarrow>
      case mergeChecks f ge git (mpPRID p) db of Inl e \<Rightarrow> (Inl e, None, db) | Inr (pr, issue) \<Rightarrow>
      case mergeOptions users p pr issue of None \<Rightarrow> (Inl (StoreErr ''GetUserByID'' ''no rows''), None, db) | Some opts \<Rightarrow>
      case PerformMerge git opts of RefNotFound \<Rightarrow> (Inl (GitErr ''perform merge''), None, db) | GitFailed e \<Rightarrow> (Inl (GitErr e), None, db) | GitOK merged \<Rightarrow>
      case recordMerge f p pr issue merged db of Inl e \<Rightarrow> (Inl e, Some opts, db) | Inr (u, db') \<Rightarrow>
      case f ''Commit'' of Some e \<Rightarrow> (Inl (StoreErr ''Commit'' e), Some opts, db) | None \<Rightarrow> (Inr (), Some opts, db'))"

section \<open>Closing, editing, retargeting\<close>

text \<open>\<open>strconv.Quote\<close>, the verb \<^verbatim>\<open>%q\<close>; \<open>isPrint\<close> is the table of the unicode package beyond ASCII.\<close>

definition hexDigits :: "nat \<Rightarrow> nat \<Rightarrow> string" where
  "hexDigits width r = map (\<lambda>k. let d = r div 16 ^ k mod 16 in if d < 10 then char_of (48 + d) else char_of (87 + d)) (rev [0..<width])"

definition quoteRune :: "(nat \<Rightarrow> bool) \<Rightarrow> nat \<Rightarrow> string" where
  "quoteRune isPrint r =
     (if r = 34 \<or> r = 92 then [CHR 0x5C, char_of r]
      else if (if r < 128 then 32 \<le> r \<and> r < 127 else isPrint r) then EncodeRune r
      else if r = 7 then [CHR 0x5C, CHR ''a''] else if r = 8 then [CHR 0x5C, CHR ''b''] else if r = 12 then [CHR 0x5C, CHR ''f'']
      else if r = 10 then [CHR 0x5C, CHR ''n''] else if r = 13 then [CHR 0x5C, CHR ''r''] else if r = 9 then [CHR 0x5C, CHR ''t'']
      else if r = 11 then [CHR 0x5C, CHR ''v'']
      else if r < 32 \<or> r = 127 then [CHR 0x5C, CHR ''x''] @ hexDigits 2 r
      else if r < 65536 then [CHR 0x5C, CHR ''u''] @ hexDigits 4 r
      else [CHR 0x5C, CHR ''U''] @ hexDigits 8 r)"

function quoteBody :: "(nat \<Rightarrow> bool) \<Rightarrow> string \<Rightarrow> string" where
  "quoteBody isPrint s = (if s = [] then [] else
     (if DecodeRune s = (RuneError, 1) then [CHR 0x5C, CHR ''x''] @ hexDigits 2 (of_char (hd s)) else quoteRune isPrint (fst (DecodeRune s)))
     @ quoteBody isPrint (drop (snd (DecodeRune s)) s))"
  by pat_completeness auto
termination
  by (relation "measure (length \<circ> snd)") (use DecodeRune_width in \<open>auto simp: not_less_eq\<close>)

declare quoteBody.simps [simp del]

definition Quote :: "(nat \<Rightarrow> bool) \<Rightarrow> string \<Rightarrow> string" where
  "Quote isPrint s = [CHR 0x22] @ quoteBody isPrint s @ [CHR 0x22]"

definition SetState ::
  "TrackerEnv \<Rightarrow> GitRepo \<Rightarrow> go_int64 \<Rightarrow> go_int64 \<Rightarrow> string \<Rightarrow> 'x PullTracker_scheme \<Rightarrow> (tracker_error + unit) \<times> 'x PullTracker_scheme" where
  "SetState env git actor i newState db =
     (case (if flt env ''GetPullRequestByIssueID'' \<noteq> None then None else GetPullRequest i db) of None \<Rightarrow> (Inl ErrPRNotFound, db) | Some pr \<Rightarrow>
      if prMerged pr then (Inl ErrAlreadyMerged, db)
      else case (if newState \<noteq> ''open'' then None else
          case ResolveRefOID git (prBaseRef pr) of RefNotFound \<Rightarrow> Some ErrBaseNotFound | GitFailed e \<Rightarrow> Some (GitErr e) | GitOK _ \<Rightarrow>
          case ResolveRefOID git (prHeadRef pr) of RefNotFound \<Rightarrow> Some ErrHeadNotFound | GitFailed e \<Rightarrow> Some (GitErr e) | GitOK _ \<Rightarrow> None) of
        Some e \<Rightarrow> (Inl e, db)
      | None \<Rightarrow> (case setState env actor i newState '''' 0 db of
          (Inl e, db') \<Rightarrow> (if e = ErrAlreadyInState then Inr () else Inl e, db') | (Inr _, db') \<Rightarrow> (Inr (), db')))"

text \<open>\<open>EditPR\<close> checks its title and body itself: unlike an issue, no check for invisible or bidirectional runes.\<close>

definition prTextError :: "string \<Rightarrow> string \<Rightarrow> tracker_error option" where
  "prTextError title body =
     (if title = '''' then Some ErrEmptyTitle
      else if length title > 256 then Some ErrTitleTooLong
      else if CHR 0x00 \<in> set title then Some ErrNullByteInTitle
      else if CHR 0x0A \<in> set title \<or> CHR 0x0D \<in> set title then Some ErrMultilineTitle
      else if length body > 65535 then Some ErrBodyTooLong
      else None)"

definition EditPR :: "TrackerEnv \<Rightarrow> go_int64 \<Rightarrow> string \<Rightarrow> string \<Rightarrow> 'x PullTracker_scheme \<Rightarrow> (tracker_error + unit) \<times> 'x PullTracker_scheme" where
  "EditPR env i title0 body db =
     (let title = TrimSpace title0 in
      case prTextError title body of Some e \<Rightarrow> (Inl e, db) | None \<Rightarrow>
      alone (UpdateIssueTitleBody (flt env) i title body (pgText (fst (renderBody env body)))) db)"

definition SetReady :: "TrackerEnv \<Rightarrow> go_int64 \<Rightarrow> go_int64 \<Rightarrow> 'x PullTracker_scheme \<Rightarrow> (tracker_error + unit) \<times> 'x PullTracker_scheme" where
  "SetReady env actor i db = transaction (flt env)
     (bindTx (updatePull (flt env) ''SetPullRequestDraft'' i (\<lambda>r. r\<lparr>prDraft := False\<rparr>)) (\<lambda>_.
      InsertIssueEvent (flt env) \<lparr>evIssue = i, evActor = pgInt8 actor, evKind = ''ready_for_review'', evMeta = ''{}'', evRef = None\<rparr>)) db"

definition UpdateBranch ::
  "TrackerEnv \<Rightarrow> userTable \<Rightarrow> GitRepo \<Rightarrow> go_int64 \<Rightarrow> go_int64 \<Rightarrow> string \<Rightarrow> string \<Rightarrow> 'x PullTracker_scheme \<Rightarrow> (tracker_error + string) \<times> 'x PullTracker_scheme" where
  "UpdateBranch env users git actor i method0 expected db =
     (let f = flt env; m = TrimSpace (ToLower (caseTable env) method0); method = (if m = '''' then ''merge'' else m) in
      if method \<noteq> ''merge'' \<and> method \<noteq> ''rebase'' then (Inl ErrUpdateBranchMethod, db)
      else case (if f ''GetPullRequestByIssueID'' \<noteq> None then None else GetPullRequest i db) of None \<Rightarrow> (Inl ErrPRNotFound, db) | Some pr \<Rightarrow>
      case (if f ''GetIssueByID'' \<noteq> None then None else GetIssueByID i db) of None \<Rightarrow> (Inl ErrPRNotFound, db) | Some issue \<Rightarrow>
      if prMerged pr then (Inl ErrAlreadyMerged, db)
      else if isState issue \<noteq> ''open'' then (Inl ErrAlreadyClosed, db)
      else if expected \<noteq> '''' \<and> TrimSpace expected \<noteq> prHeadOid pr then (Inl ErrConcurrentMerge, db)
      else case identityFor users actor of None \<Rightarrow> (Inl (StoreErr ''GetUserByID'' ''no rows''), db) | Some (name, email) \<Rightarrow>
      case ResolveRefOID git (prBaseRef pr) of RefNotFound \<Rightarrow> (Inl ErrBaseNotFound, db) | GitFailed e \<Rightarrow> (Inl (GitErr e), db) | GitOK baseOID \<Rightarrow>
      case UpdateBranchFromBase git \<lparr>uoHeadRef = ''refs/heads/'' @ prHeadRef pr, uoHeadOID = prHeadOid pr, uoBaseOID = baseOID, uoMethod = method,
             uoName = name, uoEmail = email\<rparr> of
        AlreadyUpToDate \<Rightarrow> (Inl ErrBranchUpToDate, db)
      | UpdateFailed e \<Rightarrow> (Inl (GitErr e), db)
      | NewHead newHead \<Rightarrow>
      case transaction f (
          bindTx (SetPullRequestSnapshot f i (prBaseOid pr) newHead) (\<lambda>_.
          InsertIssueEvent f \<lparr>evIssue = i, evActor = pgInt8 actor, evKind = ''branch_updated'',
            evMeta = ''{\"method\":\"'' @ method @ ''\",\"new_head_oid\":\"'' @ newHead @ ''\"}'', evRef = None\<rparr>)) db of
        (Inl e, db') \<Rightarrow> (Inl e, db')
      | (Inr _, db') \<Rightarrow> (Inr newHead, enqueueJob f ''pr:mergeability'' i db'))"

text \<open>The table refuses a base equal to the head; the caller's idea of the head may be another one.\<close>

definition SetBase ::
  "TrackerEnv \<Rightarrow> (nat \<Rightarrow> bool) \<Rightarrow> GitRepo \<Rightarrow> go_int64 \<Rightarrow> go_int64 \<Rightarrow> string \<Rightarrow> string \<Rightarrow> 'x PullTracker_scheme \<Rightarrow> (tracker_error + string) \<times> 'x PullTracker_scheme" where
  "SetBase env isPrint git actor i currentHeadRef newBase0 db =
     (let f = flt env; newBase = TrimSpace newBase0 in
      if newBase = '''' then (Inl ErrBaseNotFound, db)
      else if newBase = TrimSpace currentHeadRef then (Inl ErrSameBranch, db)
      else case ResolveRefOID git newBase of RefNotFound \<Rightarrow> (Inl ErrBaseNotFound, db) | GitFailed e \<Rightarrow> (Inl (GitErr e), db) | GitOK baseOID \<Rightarrow>
      case transaction f (
          bindTx (stmt f ''SetPullRequestBaseRef'' (\<lambda>db. \<forall>r \<in> set (Pulls db). prID r = i \<longrightarrow> newBase \<noteq> prHeadRef r)
            (\<lambda>db. ((), db\<lparr>Pulls := updateWhere (\<lambda>r. prID r = i) (\<lambda>r. r\<lparr>prBaseRef := newBase, prBaseOid := baseOID\<rparr>) (Pulls db)\<rparr>))) (\<lambda>_.
          InsertIssueEvent f \<lparr>evIssue = i, evActor = pgInt8 actor, evKind = ''base_ref_changed'',
            evMeta = ''{\"base\":'' @ Quote isPrint newBase @ ''}'', evRef = None\<rparr>)) db of
        (Inl e, db') \<Rightarrow> (Inl e, db')
      | (Inr _, db') \<Rightarrow> (Inr baseOID, enqueueJob f ''pr:mergeability'' i db'))"

record MergeConfig =
  AllowMergeCommit :: bool
  AllowSquashMerge :: bool
  AllowRebaseMerge :: bool

definition AllowedMethod :: "MergeConfig \<Rightarrow> string \<Rightarrow> bool" where
  "AllowedMethod repo method = (if method = ''merge'' then AllowMergeCommit repo else if method = ''squash'' then AllowSquashMerge repo
     else if method = ''rebase'' then AllowRebaseMerge repo else False)"

text \<open>\<open>mergeenqueue.ForHeadSHA\<close>: a mergeability job for every open pull request whose head is the commit.\<close>

definition ListOpenPRsForHeadSHA :: "go_int64 \<Rightarrow> string \<Rightarrow> 'x PullTracker_scheme \<Rightarrow> go_int64 list" where
  "ListOpenPRsForHeadSHA repo sha db =
     map prID (filter (\<lambda>pr. prHeadRepo pr = repo \<and> prHeadOid pr = sha \<and> \<not> prMerged pr \<and>
       list_ex (\<lambda>is. isID is = prID pr \<and> isState is = ''open'') (Issues db)) (Pulls db))"

definition ForHeadSHA :: "faults \<Rightarrow> go_int64 \<Rightarrow> string \<Rightarrow> 'x PullTracker_scheme \<Rightarrow> 'x PullTracker_scheme" where
  "ForHeadSHA f repo sha db =
     (if sha = '''' \<or> f ''ListOpenPRsForHeadSHA'' \<noteq> None then db
      else foldl (\<lambda>db i. if i = 0 then db else enqueueJob f ''pr:mergeability'' i db) db (ListOpenPRsForHeadSHA repo sha db))"

text \<open>The key of the advisory lock: FNV-1a over the repository id, the base, a zero byte and the head.\<close>

definition fnvStep :: "64 word \<Rightarrow> nat \<Rightarrow> 64 word" where
  "fnvStep h b = (xor h (of_nat b)) * 1099511628211"

definition lockInput :: "go_int64 \<Rightarrow> string \<Rightarrow> string \<Rightarrow> nat list" where
  "lockInput repo base head = map (\<lambda>k. nat (repo div 256 ^ k mod 256)) [0..<8] @ map of_char base @ [0] @ map of_char head"

definition createLockKey :: "go_int64 \<Rightarrow> string \<Rightarrow> string \<Rightarrow> go_int64" where
  "createLockKey repo base head = sint (foldl fnvStep 14695981039346656037 (lockInput repo base head))"

end
