(* ===== verification/PullRuns.thy ===== *)
theory PullRuns
  imports PullRequests CodeOwners
begin

text \<open>
  Runs of the tracker with pull requests: a step relation with one rule per operation, the invariant every step
  keeps, and what a merge needs and does. Most operations are quiet: they leave identities, states and merge
  records alone. The few others (creating, closing, deleting, opening, merging) are described exactly.
\<close>

section \<open>What must stay true of reviews\<close>

definition reviewInv :: "'x PullTracker_scheme \<Rightarrow> bool" where
  "reviewInv db \<longleftrightarrow>
     (\<forall>i. CountActivePRReviewRequests i db \<le> MaxReviewersPerPR) \<and>
     (\<forall>r \<in> set (Requests db). (rqUser r = None) \<noteq> (rqTeam r = None)) \<and>
     distinct (map (\<lambda>r. (rqPR r, rqUser r, rqTeam r)) (filter activeRequest (Requests db))) \<and>
     distinct (map rvID (Reviews db)) \<and> (\<forall>r \<in> set (Reviews db). rvID r < NextReviewID db \<and> rvAuthor r \<noteq> Some 0) \<and>
     distinct (map rcID (ReviewComments db)) \<and> (\<forall>c \<in> set (ReviewComments db). rcID c < NextReviewCommentID db) \<and>
     (\<forall>p \<in> set (Pulls db). prBaseRef p \<noteq> prHeadRef p)"

lemma reviewInv_cong:
  "\<lbrakk>Requests db' = Requests db; Reviews db' = Reviews db; NextReviewID db' = NextReviewID db; ReviewComments db' = ReviewComments db;
    NextReviewCommentID db' = NextReviewCommentID db; Pulls db' = Pulls db\<rbrakk> \<Longrightarrow> reviewInv db' \<longleftrightarrow> reviewInv db"
  by (simp add: reviewInv_def CountActivePRReviewRequests_def)

definition issueCore :: "Issue \<Rightarrow> go_int64 \<times> go_int64 \<times> go_int64 \<times> string \<times> string" where
  "issueCore r = (isID r, isRepo r, isNumber r, isKind r, isState r)"

definition mergeRecord :: "PullRequest \<Rightarrow> go_int64 \<times> string \<times> bool \<times> string option \<times> go_int64 option \<times> string option \<times> string option \<times> string option" where
  "mergeRecord p = (prID p, prHeadRef p, prMerged p, prMergeSha p, prMergedBy p, prMergeMethod p, prBaseAtMerge p, prHeadAtMerge p)"

text \<open>A change that leaves identities, states and merge records alone and only adds events that change no state.\<close>

definition quietly :: "'x PullTracker_scheme \<Rightarrow> 'x PullTracker_scheme \<Rightarrow> bool" where
  "quietly db db' \<longleftrightarrow>
     map issueCore (Issues db') = map issueCore (Issues db) \<and> Counters db' = Counters db \<and> NextIssueID db' = NextIssueID db \<and>
     map mergeRecord (Pulls db') = map mergeRecord (Pulls db) \<and>
     (\<exists>es. Events db' = Events db @ es \<and> (\<forall>e \<in> set es. evKind e \<notin> stateKinds \<and> evIssue e \<in> isID ` set (Issues db))) \<and>
     (reviewInv db \<longrightarrow> reviewInv db')"

lemma map_issueCore_ids:
  assumes "map issueCore rs = map issueCore ss"
  shows "map isID rs = map isID ss" "map (\<lambda>r. (isRepo r, isNumber r)) rs = map (\<lambda>r. (isRepo r, isNumber r)) ss"
    "isID ` set rs = isID ` set ss"
proof -
  show i: "map isID rs = map isID ss" using arg_cong [OF assms, of "map fst"] by (simp add: issueCore_def comp_def)
  show "map (\<lambda>r. (isRepo r, isNumber r)) rs = map (\<lambda>r. (isRepo r, isNumber r)) ss"
    using arg_cong [OF assms, of "map (\<lambda>(a, b, c, d). (b, c))"] by (simp add: issueCore_def comp_def)
  show "isID ` set rs = isID ` set ss" using arg_cong [OF i, of set] by simp
qed

lemma quietly_refl: "quietly db db"
  by (simp add: quietly_def)

lemma quietly_trans:
  assumes "quietly a b" "quietly b c"
  shows "quietly a c"
proof -
  have ids: "isID ` set (Issues b) = isID ` set (Issues a)" using assms(1) map_issueCore_ids(3) unfolding quietly_def by blast
  obtain es fs where "Events b = Events a @ es" "\<forall>e \<in> set es. evKind e \<notin> stateKinds \<and> evIssue e \<in> isID ` set (Issues a)"
      "Events c = Events b @ fs" "\<forall>e \<in> set fs. evKind e \<notin> stateKinds \<and> evIssue e \<in> isID ` set (Issues b)"
    using assms unfolding quietly_def by blast
  then have "Events c = Events a @ (es @ fs)" "\<forall>e \<in> set (es @ fs). evKind e \<notin> stateKinds \<and> evIssue e \<in> isID ` set (Issues a)"
    using ids by auto
  then show ?thesis using assms unfolding quietly_def by auto
qed

lemma quietly_noted: "noted db db' \<Longrightarrow> quietly db db'"
proof -
  assume "noted db db'"
  then obtain es rs cs n ds where e: "db' = db\<lparr>Events := Events db @ es, References := rs, Comments := cs, NextCommentID := n, DomainEvents := ds\<rparr>"
    "\<forall>e \<in> set es. evKind e \<notin> stateKinds \<and> evIssue e \<in> isID ` set (Issues db)" unfolding noted_def by blast
  have "reviewInv db' \<longleftrightarrow> reviewInv db" by (rule reviewInv_cong) (simp_all add: e(1))
  then show ?thesis using e by (simp add: quietly_def)
qed

text \<open>The tables beside issues and events: their updates are quiet if they keep the invariant of reviews.\<close>

lemma quietly_tables:
  assumes "Issues db' = Issues db" "Counters db' = Counters db" "NextIssueID db' = NextIssueID db" "Events db' = Events db"
    "map mergeRecord (Pulls db') = map mergeRecord (Pulls db)" "reviewInv db \<Longrightarrow> reviewInv db'"
  shows "quietly db db'"
  using assms by (simp add: quietly_def)

lemma quietly_pull:
  assumes "\<And>r. mergeRecord (g r) = mergeRecord r" "\<And>r. r \<in> set (Pulls db) \<Longrightarrow> P r \<Longrightarrow> prBaseRef r \<noteq> prHeadRef r \<Longrightarrow> prBaseRef (g r) \<noteq> prHeadRef (g r)"
  shows "quietly db (db\<lparr>Pulls := updateWhere P g (Pulls db)\<rparr>)"
proof (rule quietly_tables)
  show "map mergeRecord (Pulls (db\<lparr>Pulls := updateWhere P g (Pulls db)\<rparr>)) = map mergeRecord (Pulls db)"
    using assms(1) by (simp add: map_updateWhere)
  show "reviewInv (db\<lparr>Pulls := updateWhere P g (Pulls db)\<rparr>)" if "reviewInv db"
    using that assms(2) by (auto simp: reviewInv_def CountActivePRReviewRequests_def set_updateWhere)
qed simp_all

lemma quietly_rows:
  assumes "\<And>r. issueCore (g r) = issueCore r"
  shows "quietly db (db\<lparr>Issues := updateWhere P g (Issues db)\<rparr>)"
proof -
  have "reviewInv (db\<lparr>Issues := updateWhere P g (Issues db)\<rparr>) \<longleftrightarrow> reviewInv db" by (rule reviewInv_cong) simp_all
  then show ?thesis using assms by (simp add: quietly_def map_updateWhere)
qed

lemma quietly_event: "InsertIssueEvent q e db = Inr (u, db') \<Longrightarrow> evKind e \<notin> stateKinds \<Longrightarrow> quietly db db'"
  by (rule quietly_noted, rule noted_steps(2))

lemma alone_Inr: "alone m s = (Inr x, s') \<longleftrightarrow> m s = Inr (x, s')"
  by (auto simp: alone_def split: sum.split)

lemma alone_Inl: "alone m s = (Inl e, s') \<Longrightarrow> s' = s"
  by (auto simp: alone_def split: sum.split_asm)

text \<open>A failed statement or transaction changes nothing, so only successful ones have to be looked at.\<close>

lemma quietly_alone: "alone m db = (r, db') \<Longrightarrow> (\<And>x. m db = Inr (x, db') \<Longrightarrow> quietly db db') \<Longrightarrow> quietly db db'"
  by (cases r) (auto simp: alone_Inr quietly_refl dest: alone_Inl)

lemma quietly_transaction: "transaction q m db = (r, db') \<Longrightarrow> (\<And>x. m db = Inr (x, db') \<Longrightarrow> quietly db db') \<Longrightarrow> quietly db db'"
  by (cases r) (auto simp: transaction_Inr quietly_refl dest: transaction_Inl)

section \<open>Reviews\<close>

lemma active_sub: "activeRequest r \<Longrightarrow> \<not> rqDismissed r"
  by (simp add: activeRequest_def)

lemma reviewInv_request:
  assumes "reviewInv db" "CountActivePRReviewRequests (rqPR row) db < MaxReviewersPerPR" "(rqUser row = None) \<noteq> (rqTeam row = None)"
    "\<And>r. r \<in> set (Requests db) \<Longrightarrow> activeRequest r \<Longrightarrow> (rqPR r, rqUser r, rqTeam r) \<noteq> (rqPR row, rqUser row, rqTeam row)"
  shows "reviewInv (db\<lparr>Requests := Requests db @ [row]\<rparr>)"
proof -
  have "CountActivePRReviewRequests i (db\<lparr>Requests := Requests db @ [row]\<rparr>) \<le> MaxReviewersPerPR" for i
  proof (cases "i = rqPR row")
    case True
    then show ?thesis using assms(2) by (simp add: CountActivePRReviewRequests_def)
  next
    case False
    then have "CountActivePRReviewRequests i (db\<lparr>Requests := Requests db @ [row]\<rparr>) = CountActivePRReviewRequests i db"
      by (simp add: CountActivePRReviewRequests_def)
    then show ?thesis using assms(1) by (simp add: reviewInv_def)
  qed
  moreover have "distinct (map (\<lambda>r. (rqPR r, rqUser r, rqTeam r)) (filter activeRequest (Requests db @ [row])))"
    using assms(1,4) by (fastforce simp: reviewInv_def)
  ultimately show ?thesis using assms(1,3) by (simp add: reviewInv_def)
qed

lemma Request_quiet:
  assumes "Request env i user team by db = (r, db')"
  shows "quietly db db'"
proof -
  define row where "row = \<lparr>rqPR = i, rqUser = pgInt8 user, rqTeam = pgInt8 team, rqBy = pgInt8 by, rqDismissed = False, rqSatisfiedBy = None\<rparr>"
  let ?m = "stmt (flt env) ''CreatePRReviewRequest'' (\<lambda>db. GetIssueByID i db \<noteq> None) (\<lambda>db. (row, db\<lparr>Requests := Requests db @ [row]\<rparr>))"
  have no_change: "db' = db \<or> ((user = 0) \<noteq> (team = 0) \<and> CountActivePRReviewRequests i db < MaxReviewersPerPR \<and>
      \<not> list_ex (\<lambda>e. rqPR e = i \<and> pendingFor user team e) (Requests db) \<and> (\<exists>r1 db1. alone ?m db = (r1, db1) \<and>
       (db' = db1 \<or> (\<exists>issue pub. db' = snd (alone (emitIssueEventTx (flt env) ''review_requested'' issue by pub []) db1)))))"
    using assms unfolding Request_def requestRefused_def insertRequest_def Let_def row_def [symmetric]
    by (auto split: if_split_asm option.split_asm prod.split_asm sum.split_asm)
  show ?thesis
  proof (cases "db' = db")
    case False
    then obtain r1 db1 where c: "(user = 0) \<noteq> (team = 0)" "CountActivePRReviewRequests i db < MaxReviewersPerPR"
        "\<not> list_ex (\<lambda>e. rqPR e = i \<and> pendingFor user team e) (Requests db)" "alone ?m db = (r1, db1)"
        and d: "db' = db1 \<or> (\<exists>issue pub. db' = snd (alone (emitIssueEventTx (flt env) ''review_requested'' issue by pub []) db1))"
      using no_change by blast
    have "quietly db db1"
    proof (rule quietly_alone [OF c(4)])
      fix x assume "?m db = Inr (x, db1)"
      then have e: "db1 = db\<lparr>Requests := Requests db @ [row]\<rparr>" by (simp add: tx_basic)
      have "pendingFor user team q" if "activeRequest q" "rqUser q = pgInt8 user" "rqTeam q = pgInt8 team" for q
        using c(1) that by (auto simp: pendingFor_def pgInt8_def)
      then have "(rqPR q, rqUser q, rqTeam q) \<noteq> (rqPR row, rqUser row, rqTeam row)" if "q \<in> set (Requests db)" "activeRequest q" for q
        using c(3) that unfolding list_ex_iff by (fastforce simp: row_def)
      then have "reviewInv db1" if "reviewInv db" unfolding e
        using reviewInv_request [OF that] c(1,2) by (simp add: row_def pgInt8_def)
      then show "quietly db db1" by (intro quietly_tables) (simp_all add: e)
    qed
    moreover have "quietly db1 db'" using d
    proof
      assume "\<exists>issue pub. db' = snd (alone (emitIssueEventTx (flt env) ''review_requested'' issue by pub []) db1)"
      then obtain issue pub r2 where "alone (emitIssueEventTx (flt env) ''review_requested'' issue by pub []) db1 = (r2, db')"
        by (metis prod.collapse)
      then show ?thesis by (rule quietly_alone) (blast intro: quietly_noted emitIssueEventTx_noted)
    qed (simp add: quietly_refl)
    ultimately show ?thesis by (rule quietly_trans)
  qed (simp add: quietly_refl)
qed

lemma distinct_keys_updateWhere:
  assumes "distinct (map key (filter A rs))" "\<And>r. key (g r) = key r" "\<And>r. A (g r) \<Longrightarrow> A r"
  shows "distinct (map key (filter A (updateWhere P g rs)))"
proof -
  have sub: "key ` {r \<in> set (updateWhere P g ss). A r} \<subseteq> key ` {r \<in> set ss. A r}" for ss
  proof
    fix x assume "x \<in> key ` {r \<in> set (updateWhere P g ss). A r}"
    then obtain r where "r \<in> set ss" "x = key (if P r then g r else r)" "A (if P r then g r else r)" unfolding set_updateWhere by blast
    then show "x \<in> key ` {r \<in> set ss. A r}" using assms(2,3) by (cases "P r") auto
  qed
  show ?thesis using assms(1)
  proof (induction rs)
    case (Cons r rs)
    then show ?case using sub [of rs] assms(2,3) by (auto split: if_split_asm)
  qed simp
qed

lemma reviewInv_satisfy:
  assumes "reviewInv db"
  shows "reviewInv (db\<lparr>Requests := updateWhere P (\<lambda>e. e\<lparr>rqSatisfiedBy := Some v\<rparr>) (Requests db)\<rparr>)"
proof -
  let ?g = "\<lambda>e. e\<lparr>rqSatisfiedBy := Some v\<rparr>"
  let ?db = "db\<lparr>Requests := updateWhere P ?g (Requests db)\<rparr>"
  have "length (filter Q (updateWhere P ?g rs)) = length (filter Q rs)" if "\<And>e. Q (?g e) = Q e" for Q rs
    using that by (induction rs) auto
  then have "CountActivePRReviewRequests i ?db = CountActivePRReviewRequests i db" for i by (simp add: CountActivePRReviewRequests_def)
  moreover have "distinct (map (\<lambda>r. (rqPR r, rqUser r, rqTeam r)) (filter activeRequest (Requests ?db)))"
    using assms by (auto simp: reviewInv_def activeRequest_def intro: distinct_keys_updateWhere)
  moreover have "\<forall>r \<in> set (Requests ?db). (rqUser r = None) \<noteq> (rqTeam r = None)"
    using assms by (auto simp: reviewInv_def set_updateWhere)
  ultimately show ?thesis using assms by (simp add: reviewInv_def)
qed

lemma reviewInv_comments:
  assumes "reviewInv db" "\<And>c. rcID (g c) = rcID c"
  shows "reviewInv (db\<lparr>ReviewComments := updateWhere P g (ReviewComments db)\<rparr>)"
  using assms by (auto simp: reviewInv_def CountActivePRReviewRequests_def map_updateWhere set_updateWhere)

lemma reviewInv_reviews:
  assumes "reviewInv db" "\<And>r. rvID (g r) = rvID r" "\<And>r. rvAuthor (g r) = rvAuthor r"
  shows "reviewInv (db\<lparr>Reviews := updateWhere P g (Reviews db)\<rparr>)"
  using assms by (auto simp: reviewInv_def CountActivePRReviewRequests_def map_updateWhere set_updateWhere)

lemma reviewInv_new_review:
  "reviewInv db \<Longrightarrow> rvID row = NextReviewID db \<Longrightarrow> rvAuthor row \<noteq> Some 0 \<Longrightarrow>
   reviewInv (db\<lparr>Reviews := Reviews db @ [row], NextReviewID := NextReviewID db + 1\<rparr>)"
  by (auto simp: reviewInv_def CountActivePRReviewRequests_def)

lemma reviewInv_new_comment:
  "reviewInv db \<Longrightarrow> rcID row = NextReviewCommentID db \<Longrightarrow>
   reviewInv (db\<lparr>ReviewComments := ReviewComments db @ [row], NextReviewCommentID := NextReviewCommentID db + 1\<rparr>)"
  by (auto simp: reviewInv_def CountActivePRReviewRequests_def)

lemma pgInt8_nonzero: "pgInt8 v \<noteq> Some 0"
  by (simp add: pgInt8_def)

lemma quietly_satisfy: "quietly db (db\<lparr>Requests := updateWhere P (\<lambda>e. e\<lparr>rqSatisfiedBy := Some v\<rparr>) (Requests db)\<rparr>)"
  by (intro quietly_tables reviewInv_satisfy) simp_all

lemma quietly_comments: "(\<And>c. rcID (g c) = rcID c) \<Longrightarrow> quietly db (db\<lparr>ReviewComments := updateWhere P g (ReviewComments db)\<rparr>)"
  by (intro quietly_tables reviewInv_comments) simp_all

lemma quietly_reviews:
  "(\<And>r. rvID (g r) = rvID r) \<Longrightarrow> (\<And>r. rvAuthor (g r) = rvAuthor r) \<Longrightarrow> quietly db (db\<lparr>Reviews := updateWhere P g (Reviews db)\<rparr>)"
  by (intro quietly_tables reviewInv_reviews) simp_all

lemma quietly_new_review:
  "rvID row = NextReviewID db \<Longrightarrow> rvAuthor row \<noteq> Some 0 \<Longrightarrow> quietly db (db\<lparr>Reviews := Reviews db @ [row], NextReviewID := NextReviewID db + 1\<rparr>)"
  by (intro quietly_tables reviewInv_new_review) simp_all

lemma quietly_new_comment:
  "rcID row = NextReviewCommentID db \<Longrightarrow>
   quietly db (db\<lparr>ReviewComments := ReviewComments db @ [row], NextReviewCommentID := NextReviewCommentID db + 1\<rparr>)"
  by (intro quietly_tables reviewInv_new_comment) simp_all

lemma quietly_stmt: "stmt q n ok upd db = Inr (x, db') \<Longrightarrow> (\<And>y s. upd db = (y, s) \<Longrightarrow> quietly db s) \<Longrightarrow> quietly db db'"
  by (metis tx_basic(4))

text \<open>The body of a submission, statement by statement.\<close>

lemma Submit_effect:
  assumes "Submit env teams i author state body prAuthor db = (Inr row, db')"
  obtains st db1 db2 db3 where "parseReviewState state = Some st" "\<not> (st = StateApprove \<and> author \<noteq> 0 \<and> author = prAuthor)"
    "row = \<lparr>rvID = NextReviewID db, rvPR = i, rvAuthor = pgInt8 author, rvState = st, rvBody = TrimSpace body, rvDismissed = False,
                     rvDismissedBy = None, rvDismissalReason = ''''\<rparr>"
    "db1 = db\<lparr>Reviews := Reviews db @ [row], NextReviewID := NextReviewID db + 1\<rparr>"
    "db2 = db1\<lparr>ReviewComments :=
          updateWhere (\<lambda>c. rcPR c = i \<and> rcAuthor c = pgInt8 author \<and> rcAuthor c \<noteq> None \<and> rcPending c) (\<lambda>c. c\<lparr>rcReview := Some (rvID row), rcPending := False\<rparr>)
            (ReviewComments db)\<rparr>"
    "db3 = (if st = StateComment then db2 else db2\<lparr>Requests :=
                       updateWhere (\<lambda>e. rqPR e = i \<and> activeRequest e \<and> (\<exists>t \<in> teams author. rqTeam e = Some t)) (\<lambda>e. e\<lparr>rqSatisfiedBy := Some (rvID row)\<rparr>)
                 (updateWhere (\<lambda>e. rqPR e = i \<and> rqUser e = pgInt8 author \<and> rqUser e \<noteq> None \<and> activeRequest e) (\<lambda>e. e\<lparr>rqSatisfiedBy := Some (rvID row)\<rparr>)
                         (Requests db))\<rparr>)"
    "\<exists>e. evKind e = ''reviewed'' \<and> evIssue e = i \<and> InsertIssueEvent (flt env) e db3 = Inr ((), db')"
proof -
  obtain st where st: "parseReviewState state = Some st" using assms unfolding Submit_def by (auto simp: Let_def split: option.split_asm)
  have no: "\<not> (st = StateApprove \<and> author \<noteq> 0 \<and> author = prAuthor)" using assms st unfolding Submit_def Let_def by (auto split: if_split_asm)
  have row: "row = \<lparr>rvID = NextReviewID db, rvPR = i, rvAuthor = pgInt8 author, rvState = st, rvBody = TrimSpace body, rvDismissed = False,
                     rvDismissedBy = None, rvDismissalReason = ''''\<rparr>"
    using assms st no unfolding Submit_def Let_def by (auto simp: transaction_Inr bindTx_Inr tx_basic split: if_split_asm)
  define db1 where "db1 = db\<lparr>Reviews := Reviews db @ [row], NextReviewID := NextReviewID db + 1\<rparr>"
  define db2 where "db2 = db1\<lparr>ReviewComments :=
          updateWhere (\<lambda>c. rcPR c = i \<and> rcAuthor c = pgInt8 author \<and> rcAuthor c \<noteq> None \<and> rcPending c) (\<lambda>c. c\<lparr>rcReview := Some (rvID row), rcPending := False\<rparr>)
            (ReviewComments db)\<rparr>"
  define db3 where "db3 = (if st = StateComment then db2 else db2\<lparr>Requests :=
                       updateWhere (\<lambda>e. rqPR e = i \<and> activeRequest e \<and> (\<exists>t \<in> teams author. rqTeam e = Some t)) (\<lambda>e. e\<lparr>rqSatisfiedBy := Some (rvID row)\<rparr>)
                 (updateWhere (\<lambda>e. rqPR e = i \<and> rqUser e = pgInt8 author \<and> rqUser e \<noteq> None \<and> activeRequest e) (\<lambda>e. e\<lparr>rqSatisfiedBy := Some (rvID row)\<rparr>)
                         (Requests db))\<rparr>)"
  have "InsertIssueEvent (flt env) \<lparr>evIssue = i, evActor = pgInt8 author, evKind = ''reviewed'',
                  evMeta = ''{\"state\":\"'' @ state @ ''\",\"review_id\":'' @ Itoa (rvID row) @ ''}'', evRef = None\<rparr> db3 = Inr ((), db')"
    using assms st no row unfolding Submit_def Let_def
    by (cases "st = StateComment") (auto simp: transaction_Inr bindTx_Inr tx_basic db1_def db2_def db3_def split: if_split_asm)
  then have "\<exists>e. evKind e = ''reviewed'' \<and> evIssue e = i \<and> InsertIssueEvent (flt env) e db3 = Inr ((), db')"
    by (intro exI) (intro conjI, simp_all)
  then show ?thesis by (rule that [OF st no row db1_def db2_def db3_def])
qed

lemma Submit_Inl: "Submit env teams i author state body prAuthor db = (Inl e, db') \<Longrightarrow> db' = db"
  using transaction_Inl unfolding Submit_def Let_def by (fastforce split: option.split_asm if_split_asm)

lemma Submit_quiet:
  assumes "Submit env teams i author state body prAuthor db = (r, db')"
  shows "quietly db db'"
proof (cases r)
  case (Inl e)
  then show ?thesis using Submit_Inl assms quietly_refl by metis
next
  case (Inr row)
  from assms [unfolded Inr] show ?thesis
  proof (rule Submit_effect)
    fix st db1 db2 db3
    assume row: "row = \<lparr>rvID = NextReviewID db, rvPR = i, rvAuthor = pgInt8 author, rvState = st, rvBody = TrimSpace body, rvDismissed = False,
                     rvDismissedBy = None, rvDismissalReason = ''''\<rparr>"
      and d1: "db1 = db\<lparr>Reviews := Reviews db @ [row], NextReviewID := NextReviewID db + 1\<rparr>"
      and d2: "db2 = db1\<lparr>ReviewComments :=
          updateWhere (\<lambda>c. rcPR c = i \<and> rcAuthor c = pgInt8 author \<and> rcAuthor c \<noteq> None \<and> rcPending c) (\<lambda>c. c\<lparr>rcReview := Some (rvID row), rcPending := False\<rparr>)
            (ReviewComments db)\<rparr>"
      and d3: "db3 = (if st = StateComment then db2 else db2\<lparr>Requests :=
                       updateWhere (\<lambda>e. rqPR e = i \<and> activeRequest e \<and> (\<exists>t \<in> teams author. rqTeam e = Some t)) (\<lambda>e. e\<lparr>rqSatisfiedBy := Some (rvID row)\<rparr>)
                 (updateWhere (\<lambda>e. rqPR e = i \<and> rqUser e = pgInt8 author \<and> rqUser e \<noteq> None \<and> activeRequest e) (\<lambda>e. e\<lparr>rqSatisfiedBy := Some (rvID row)\<rparr>)
                         (Requests db))\<rparr>)"
      and ev: "\<exists>e. evKind e = ''reviewed'' \<and> evIssue e = i \<and> InsertIssueEvent (flt env) e db3 = Inr ((), db')"
    have "quietly db db1" unfolding d1 by (rule quietly_new_review) (simp_all add: row pgInt8_nonzero)
    moreover have "quietly db1 db2" using quietly_comments [of "\<lambda>c. c\<lparr>rcReview := Some (rvID row), rcPending := False\<rparr>" db1] by (simp add: d2 d1)
    moreover have "quietly db2 db3"
      using quietly_trans [OF quietly_satisfy [of db2] quietly_satisfy] by (simp add: d3 d2 d1 quietly_refl)
    moreover have "quietly db3 db'" using ev quietly_event by (fastforce simp: stateKinds_def)
    ultimately show ?thesis using quietly_trans by blast
  qed
qed

lemma Dismiss_quiet: "Dismiss env actor rid reason db = (r, db') \<Longrightarrow> quietly db db'"
  unfolding Dismiss_def
  by (auto simp: quietly_refl tx_basic quietly_reviews elim!: quietly_alone split: option.split_asm if_split_asm)

lemma updateComment_quiet: "alone (updateComment f n c g) db = (r, db') \<Longrightarrow> (\<And>c. rcID (g c) = rcID c) \<Longrightarrow> quietly db db'"
  unfolding updateComment_def by (erule quietly_alone) (auto simp: tx_basic intro: quietly_comments)

lemma AddReviewComment_quiet: "AddReviewComment env p db = (r, db') \<Longrightarrow> quietly db db'"
  unfolding AddReviewComment_def Let_def
  by (auto simp: quietly_refl tx_basic quietly_new_comment elim!: quietly_alone split: sum.split_asm if_split_asm)

lemma EditComment_quiet: "EditComment env c t db = (r, db') \<Longrightarrow> quietly db db'"
  unfolding EditComment_def Let_def by (auto simp: quietly_refl split: if_split_asm elim!: updateComment_quiet)

lemma setResolved_quiet: "setResolved f b u e c db = (r, db') \<Longrightarrow> quietly db db'"
  unfolding setResolved_def by (auto simp: quietly_refl split: if_split_asm option.split_asm elim!: updateComment_quiet)

lemma remapRows_quiet: "remapRows f git b h cs db = (r, db') \<Longrightarrow> quietly db db'"
proof (induction cs arbitrary: db)
  case (Cons c cs)
  obtain r1 db1 where a: "alone (updateComment f ''SetPRReviewCommentCurrentPosition'' (rcID c) (\<lambda>r. r\<lparr>rcPosition := remappedPosition git b h c\<rparr>)) db = (r1, db1)"
    by fastforce
  then have "quietly db db1" by (rule updateComment_quiet) simp
  moreover have "quietly db1 db'" using Cons a by (cases r1) (auto simp: quietly_refl)
  ultimately show ?case by (rule quietly_trans)
qed (simp add: quietly_refl)

lemma RemapAllForPR_quiet: "quietly db (snd (RemapAllForPR f git i b h db))"
  unfolding RemapAllForPR_def by (auto simp: quietly_refl split: option.split intro: remapRows_quiet [OF surjective_pairing])

lemma requestAll_quiet: "quietly db (requestAll env i by rs db)"
proof (induction env i "by" rs db rule: requestAll.induct)
  case (2 env i "by" u t rs db)
  obtain r1 db1 where q: "Request env i u t by db = (r1, db1)" by fastforce
  obtain r2 where r: "requestReviewerTarget env i by u t db = (r2, db1)"
    using q by (cases r1) (auto simp: requestReviewerTarget_def)
  show ?case using 2 [OF r [symmetric]] quietly_trans [OF Request_quiet [OF q]] Request_quiet [OF q] by (cases r2) (auto simp: r)
qed (simp add: quietly_refl)

lemma requestCodeOwners_quiet: "quietly db (requestCodeOwners env ge entitled i by db)"
  unfolding requestCodeOwners_def by (auto simp: quietly_refl requestAll_quiet split: sum.split option.split)

lemma enqueueJob_quiet: "quietly db (enqueueJob f k i db)"
proof -
  have "quietly db (db\<lparr>Jobs := js\<rparr>)" for js by (rule quietly_tables) (simp_all add: reviewInv_def CountActivePRReviewRequests_def)
  then show ?thesis by (simp add: enqueueJob_def quietly_refl)
qed

section \<open>Quiet operations on pull requests\<close>

lemma insertRows_quiet:
  assumes "insertRows f n free ins rs db = Inr (u, db')" "\<And>r db. quietly db (ins r db)"
  shows "quietly db db'"
  using assms(1)
proof (induction rs arbitrary: db)
  case (Cons r rs)
  then have "quietly (ins r db) db'" by (auto simp: bindTx_Inr tx_basic)
  then show ?case using quietly_trans [OF assms(2)] by blast
qed (simp add: tx_basic quietly_refl)

lemma quietly_snapshot_tables: "quietly db (db\<lparr>PRCommits := cs\<rparr>)" "quietly db (db\<lparr>PRFiles := fs\<rparr>)"
  by (rule quietly_tables; simp add: reviewInv_def CountActivePRReviewRequests_def)+

lemma updatePull_quiet:
  assumes "updatePull f n i g db = Inr (u, db')" "\<And>r. mergeRecord (g r) = mergeRecord r"
    "\<And>r. prBaseRef (g r) = prBaseRef r"
  shows "quietly db db'"
proof -
  have "prHeadRef (g r) = prHeadRef r" for r using assms(2) [of r] by (simp add: mergeRecord_def)
  then have "quietly db (db\<lparr>Pulls := updateWhere (\<lambda>r. prID r = i) g (Pulls db)\<rparr>)" using assms(2,3) by (intro quietly_pull) simp_all
  then show ?thesis using assms(1) by (simp add: updatePull_def tx_basic)
qed

lemma snapshot_quiet:
  "SetPullRequestSnapshot f i b h db = Inr (u, db') \<Longrightarrow> quietly db db'"
  "SetPullRequestMergeability f i m st db = Inr (u, db') \<Longrightarrow> quietly db db'"
  unfolding SetPullRequestSnapshot_def SetPullRequestMergeability_def by (erule updatePull_quiet; simp add: mergeRecord_def)+

lemma refresh_quiet: "refreshCommitsAndFiles f git i b h db = (r, db') \<Longrightarrow> quietly db db'"
proof -
  assume r: "refreshCommitsAndFiles f git i b h db = (r, db')"
  have step: "quietly db db'" if
    "insertRows f ''InsertPullRequestCommit'' fr1 (\<lambda>c db. db\<lparr>PRCommits := (PRCommits db)(i := PRCommits db i @ [c])\<rparr>) commits
       (db\<lparr>PRCommits := cs, PRFiles := fs\<rparr>) = Inr (u1, db1)"
    "insertRows f ''InsertPullRequestFile'' fr2 (\<lambda>c db. db\<lparr>PRFiles := (PRFiles db)(i := PRFiles db i @ [c])\<rparr>) files db1 = Inr (u2, db2)"
    "SetPullRequestSnapshot f i b h db2 = Inr (u3, db')" for fr1 fr2 cs fs commits files u1 u2 u3 db1 db2
    using quietly_trans [OF quietly_trans [OF quietly_snapshot_tables(1) [of db cs] quietly_snapshot_tables(2) [of _ fs]]
        quietly_trans [OF insertRows_quiet [OF that(1) quietly_snapshot_tables(1)]
          quietly_trans [OF insertRows_quiet [OF that(2) quietly_snapshot_tables(2)] snapshot_quiet(1) [OF that(3)]]]] .
  show ?thesis using r unfolding refreshCommitsAndFiles_def
    by (auto simp: quietly_refl bindTx_Inr tx_basic intro: step elim!: quietly_transaction split: git.split_asm)
qed

lemma mergeability_alone: "alone (SetPullRequestMergeability f i m st) db = (r, db') \<Longrightarrow> quietly db db'"
  by (erule quietly_alone) (rule snapshot_quiet(2))

lemma event_alone: "alone (InsertIssueEvent f ev) db = (r, db') \<Longrightarrow> evKind ev \<notin> stateKinds \<Longrightarrow> quietly db db'"
  by (erule quietly_alone) (rule quietly_event)

lemma Synchronize_quiet: "quietly db (snd (Synchronize env ge entitled git i db))"
proof -
  have mid: "quietly db1 db3" if "alone (SetPullRequestMergeability f i None ''unknown'')
      (snd (RemapAllForPR f git i b h (requestCodeOwners env ge entitled i u db1))) = (r, db3)" for f b h u db1 r db3
    using quietly_trans [OF quietly_trans [OF requestCodeOwners_quiet RemapAllForPR_quiet] mergeability_alone [OF that]] .
  have ev: "quietly db1 (snd (alone (InsertIssueEvent f ev) db1))" if "evKind ev = ''synchronized''" for f ev db1
    by (rule event_alone [OF surjective_pairing]) (simp add: that stateKinds_def)
  show ?thesis unfolding Synchronize_def syncSnapshot_def Let_def
    by (auto simp: quietly_refl split: option.split git.split prod.split sum.split dest!: refresh_quiet mid intro: quietly_trans)
       (meson ev quietly_trans IssueEvent.select_convs)+
qed

lemma Mergeability_quiet: "quietly db (snd (Mergeability f ge git i db))"
proof -
  have m: "quietly db (snd (alone (SetPullRequestMergeability f i m st) db))" for m st by (rule mergeability_alone [OF surjective_pairing])
  show ?thesis unfolding Mergeability_def gatesState_def by (simp add: m quietly_refl split: option.split sum.split git.split)
qed

lemma EditPR_quiet: "quietly db (snd (EditPR env i title body db))"
proof -
  have "quietly db (snd (alone (UpdateIssueTitleBody f i t b h) db))" for f t b h
    by (rule quietly_alone [OF surjective_pairing]) (simp add: UpdateIssueTitleBody_def tx_basic quietly_rows issueCore_def)
  then show ?thesis by (simp add: EditPR_def Let_def quietly_refl split: option.split)
qed

lemma SetReady_quiet: "quietly db (snd (SetReady env actor i db))"
  unfolding SetReady_def
  by (rule quietly_transaction [OF surjective_pairing])
     (auto simp: bindTx_Inr stateKinds_def intro: quietly_trans [OF updatePull_quiet quietly_event] simp: mergeRecord_def)

lemma quietly_enqueue: "quietly db db' \<Longrightarrow> quietly db (enqueueJob f k i db')"
  using quietly_trans [OF _ enqueueJob_quiet] .

lemma quietly_then_enqueue:
  "quietly db (snd (transaction f m db)) \<Longrightarrow>
   quietly db (snd (case transaction f m db of (Inl e, db') \<Rightarrow> (Inl e, db') | (Inr _, db') \<Rightarrow> (Inr x, enqueueJob g k i db')))"
  by (auto simp: quietly_enqueue split: prod.split sum.split)

lemma UpdateBranch_quiet: "quietly db (snd (UpdateBranch env users git actor i m e db))"
proof -
  have "quietly db (snd (transaction f (bindTx (SetPullRequestSnapshot f i b h) (\<lambda>_. InsertIssueEvent f ev)) db))" if "evKind ev = ''branch_updated''" for f b h ev
    by (rule quietly_transaction [OF surjective_pairing])
       (use that in \<open>auto simp: bindTx_Inr stateKinds_def intro: quietly_trans [OF snapshot_quiet(1) quietly_event]\<close>)
  then show ?thesis unfolding UpdateBranch_def Let_def
    by (simp add: quietly_refl quietly_then_enqueue split: option.split git.split branchUpdate.split)
qed

lemma retarget_quiet:
  assumes "bindTx (stmt f n (\<lambda>db. \<forall>r \<in> set (Pulls db). prID r = i \<longrightarrow> nb \<noteq> prHeadRef r)
            (\<lambda>db. ((), db\<lparr>Pulls := updateWhere (\<lambda>r. prID r = i) (\<lambda>r. r\<lparr>prBaseRef := nb, prBaseOid := oid\<rparr>) (Pulls db)\<rparr>)))
          (\<lambda>_. InsertIssueEvent f ev) db = Inr (x, db')" "evKind ev \<notin> stateKinds"
  shows "quietly db db'"
proof -
  have ok: "\<forall>r \<in> set (Pulls db). prID r = i \<longrightarrow> nb \<noteq> prHeadRef r"
    and e: "InsertIssueEvent f ev (db\<lparr>Pulls := updateWhere (\<lambda>r. prID r = i) (\<lambda>r. r\<lparr>prBaseRef := nb, prBaseOid := oid\<rparr>) (Pulls db)\<rparr>) = Inr (x, db')"
    using assms(1) by (simp_all add: bindTx_Inr tx_basic)
  have "quietly db (db\<lparr>Pulls := updateWhere (\<lambda>r. prID r = i) (\<lambda>r. r\<lparr>prBaseRef := nb, prBaseOid := oid\<rparr>) (Pulls db)\<rparr>)"
    using ok by (intro quietly_pull) (auto simp: mergeRecord_def)
  then show ?thesis using quietly_event [OF e assms(2)] quietly_trans by blast
qed

lemma SetBase_quiet: "quietly db (snd (SetBase env isPrint git actor i h b db))"
proof -
  have "quietly db (snd (transaction f (bindTx (stmt f n (\<lambda>db. \<forall>r \<in> set (Pulls db). prID r = i \<longrightarrow> nb \<noteq> prHeadRef r)
            (\<lambda>db. ((), db\<lparr>Pulls := updateWhere (\<lambda>r. prID r = i) (\<lambda>r. r\<lparr>prBaseRef := nb, prBaseOid := oid\<rparr>) (Pulls db)\<rparr>)))
          (\<lambda>_. InsertIssueEvent f ev)) db))" if "evKind ev = ''base_ref_changed''" for f n nb oid ev
    by (rule quietly_transaction [OF surjective_pairing], erule retarget_quiet) (simp add: that stateKinds_def)
  then show ?thesis unfolding SetBase_def Let_def by (simp add: quietly_refl quietly_then_enqueue split: git.split)
qed

lemma ForHeadSHA_quiet: "quietly db (ForHeadSHA f repo sha db)"
proof -
  have "quietly a (foldl (\<lambda>db i. if i = 0 then db else enqueueJob f k i db) a is)" for a k "is"
  proof (induction "is" arbitrary: a)
    case (Cons i "is")
    then show ?case by (auto intro: quietly_trans [OF enqueueJob_quiet])
  qed (simp add: quietly_refl)
  then show ?thesis unfolding ForHeadSHA_def by (auto simp: quietly_refl)
qed

text \<open>The operations of the issue tracker that change no state.\<close>

lemma Edit_quiet: "Edit env i title body (db :: 'x PullTracker_scheme) = (r, db') \<Longrightarrow> quietly db db'"
proof (erule Edit_effect)
  fix t b h
  assume "noted (db\<lparr>Issues := updateWhere (\<lambda>r. isID r = i) (\<lambda>r. r\<lparr>isTitle := t, isBody := b, isHtml := h\<rparr>) (Issues db)\<rparr>) db'"
  moreover have "quietly db (db\<lparr>Issues := updateWhere (\<lambda>r. isID r = i) (\<lambda>r. r\<lparr>isTitle := t, isBody := b, isHtml := h\<rparr>) (Issues db)\<rparr>)"
    by (rule quietly_rows) (simp add: issueCore_def)
  ultimately show ?thesis using quietly_trans quietly_noted by blast
qed (simp add: quietly_refl)

lemma SetLock_quiet: "SetLock env actor i locked reason (db :: 'x PullTracker_scheme) = (r, db') \<Longrightarrow> quietly db db'"
  unfolding SetLock_def
proof (erule quietly_transaction)
  fix x
  let ?e = "\<lparr>evIssue = i, evActor = pgInt8 actor, evKind = (if locked then ''locked'' else ''unlocked''), evMeta = ''{}'', evRef = None\<rparr>"
  assume "bindTx (SetIssueLock (flt env) i locked (pgText reason)) (\<lambda>_. InsertIssueEvent (flt env) ?e) db = Inr (x, db')"
  then obtain db1 u where "SetIssueLock (flt env) i locked (pgText reason) db = Inr (u, db1)" "InsertIssueEvent (flt env) ?e db1 = Inr (x, db')"
    by (auto simp: bindTx_Inr)
  moreover from this(1) have "quietly db db1" by (simp add: SetIssueLock_def tx_basic quietly_rows issueCore_def)
  moreover have "evKind ?e \<notin> stateKinds" by (simp add: stateKinds_def)
  ultimately show "quietly db db'" using quietly_trans quietly_event by blast
qed

section \<open>The invariant\<close>

text \<open>
  Every pull request has an issue of its kind; a merged one has the record of its merge and an entry in the
  timeline. \<open>mergedClosed\<close> is stated apart: it needs that nobody reopens a pull request as if it were an issue.
\<close>

definition mergedOK :: "'x PullTracker_scheme \<Rightarrow> PullRequest \<Rightarrow> bool" where
  "mergedOK db p \<longleftrightarrow> prMerged p \<longrightarrow> prMergeSha p \<noteq> None \<and> prBaseAtMerge p \<noteq> None \<and> prHeadAtMerge p \<noteq> None \<and>
     (\<exists>m \<in> validMethods. prMergeMethod p = Some m) \<and> (\<exists>e \<in> set (Events db). evIssue e = prID p \<and> evKind e = ''merged'')"

definition pullInv :: "'x PullTracker_scheme \<Rightarrow> bool" where
  "pullInv db \<longleftrightarrow> trackerInv db \<and> reviewInv db \<and> distinct (map prID (Pulls db)) \<and>
     (\<forall>p \<in> set (Pulls db). (\<exists>r \<in> set (Issues db). isID r = prID p \<and> isKind r = ''pr'') \<and> mergedOK db p)"

definition mergedClosed :: "'x PullTracker_scheme \<Rightarrow> bool" where
  "mergedClosed db \<longleftrightarrow> (\<forall>p \<in> set (Pulls db). \<forall>r \<in> set (Issues db). prMerged p \<and> isID r = prID p \<longrightarrow> isState r = ''closed'')"

lemma map_eq_member: "map f xs = map f ys \<Longrightarrow> x \<in> set xs \<Longrightarrow> \<exists>y \<in> set ys. f y = f x"
  by (metis imageE image_eqI set_map)

lemma quietly_rows_iff:
  assumes "quietly db db'"
  shows "r' \<in> set (Issues db') \<Longrightarrow> \<exists>r \<in> set (Issues db). issueCore r = issueCore r'" "r \<in> set (Issues db) \<Longrightarrow> \<exists>r' \<in> set (Issues db'). issueCore r' = issueCore r"
    "p' \<in> set (Pulls db') \<Longrightarrow> \<exists>p \<in> set (Pulls db). mergeRecord p = mergeRecord p'"
  using assms map_eq_member unfolding quietly_def by metis+

lemma quietly_tracker:
  assumes "quietly db db'" "trackerInv db"
  shows "trackerInv db'"
proof -
  obtain es where es: "Events db' = Events db @ es" "\<forall>e \<in> set es. evKind e \<notin> stateKinds \<and> evIssue e \<in> isID ` set (Issues db)"
    using assms(1) unfolding quietly_def by blast
  have core: "map issueCore (Issues db') = map issueCore (Issues db)" "Counters db' = Counters db" "NextIssueID db' = NextIssueID db"
    using assms(1) by (simp_all add: quietly_def)
  note ids = map_issueCore_ids [OF core(1)]
  have row: "isID r' < NextIssueID db \<and> 0 < isNumber r' \<and> (\<exists>n. Counters db (isRepo r') = Some n \<and> isNumber r' < n) \<and>
        isState r' \<in> issueStates \<and> isState r' = replay (Events db') (isID r')" if r': "r' \<in> set (Issues db')" for r'
  proof -
    obtain r where "r \<in> set (Issues db)" "issueCore r = issueCore r'" using quietly_rows_iff(1) [OF assms(1) r'] by blast
    then show ?thesis using assms(2) es replay_quiet [of es] by (auto simp: trackerInv_def issueCore_def replay_append)
  qed
  have "evIssue e \<in> isID ` set (Issues db)" if "e \<in> set (Events db')" for e using that es assms(2) by (auto simp: trackerInv_def)
  then show ?thesis using assms(2) row unfolding trackerInv_def core(2,3) ids by blast
qed

lemma quietly_inv:
  assumes "quietly db db'" "pullInv db"
  shows "pullInv db'"
proof -
  have m: "map mergeRecord (Pulls db') = map mergeRecord (Pulls db)" using assms(1) by (simp add: quietly_def)
  have "distinct (map prID (Pulls db'))"
    using arg_cong [OF m, of "map fst"] assms(2) by (simp add: mergeRecord_def comp_def pullInv_def)
  moreover have "(\<exists>r \<in> set (Issues db'). isID r = prID p' \<and> isKind r = ''pr'') \<and> mergedOK db' p'" if p': "p' \<in> set (Pulls db')" for p'
  proof -
    obtain p where p: "p \<in> set (Pulls db)" "mergeRecord p = mergeRecord p'" using quietly_rows_iff(3) [OF assms(1) p'] by blast
    then obtain r where "r \<in> set (Issues db)" "isID r = prID p" "isKind r = ''pr''" "mergedOK db p" using assms(2) unfolding pullInv_def by blast
    moreover then obtain r' where "r' \<in> set (Issues db')" "issueCore r' = issueCore r" using quietly_rows_iff(2) [OF assms(1)] by blast
    moreover have "set (Events db) \<subseteq> set (Events db')" using assms(1) by (auto simp: quietly_def)
    ultimately show ?thesis using p(2) by (auto simp: issueCore_def mergeRecord_def mergedOK_def)
  qed
  moreover have "reviewInv db'" using assms by (simp add: quietly_def pullInv_def)
  moreover have "trackerInv db'" using quietly_tracker assms by (auto simp: pullInv_def)
  ultimately show ?thesis by (simp add: pullInv_def)
qed

lemma quietly_closed:
  assumes "quietly db db'" "mergedClosed db"
  shows "mergedClosed db'"
  unfolding mergedClosed_def
proof (intro ballI impI)
  fix p' r' assume "p' \<in> set (Pulls db')" "r' \<in> set (Issues db')" and m: "prMerged p' \<and> isID r' = prID p'"
  then obtain p r where "p \<in> set (Pulls db)" "mergeRecord p = mergeRecord p'" "r \<in> set (Issues db)" "issueCore r = issueCore r'"
    using quietly_rows_iff [OF assms(1)] by blast
  then show "isState r' = ''closed''" using m assms(2) by (auto simp: mergedClosed_def mergeRecord_def issueCore_def)
qed

text \<open>A change of the state of one issue with its event.\<close>

definition changeState :: "go_int64 \<Rightarrow> string \<Rightarrow> string option \<Rightarrow> go_int64 option \<Rightarrow> IssueEvent \<Rightarrow> 'x Tracker_scheme \<Rightarrow> 'x Tracker_scheme" where
  "changeState i st reason by e db = db\<lparr>Issues := updateWhere (\<lambda>r. isID r = i \<and> isState r \<noteq> st) (\<lambda>r. r\<lparr>isState := st, isReason := reason, isClosedBy := by\<rparr>) (Issues db),
    Events := Events db @ [e]\<rparr>"

lemma changeState_rows:
  "r' \<in> set (Issues (changeState i st reason by e db)) \<Longrightarrow> \<exists>r \<in> set (Issues db). isID r' = isID r \<and> isKind r' = isKind r \<and> isState r' = (if isID r = i then st else isState r)"
  "r \<in> set (Issues db) \<Longrightarrow> \<exists>r' \<in> set (Issues (changeState i st reason by e db)). isID r' = isID r \<and> isKind r' = isKind r"
proof -
  show "\<exists>r \<in> set (Issues db). isID r' = isID r \<and> isKind r' = isKind r \<and> isState r' = (if isID r = i then st else isState r)"
    if "r' \<in> set (Issues (changeState i st reason by e db))"
    using that by (auto simp: changeState_def set_updateWhere)
  show "\<exists>r' \<in> set (Issues (changeState i st reason by e db)). isID r' = isID r \<and> isKind r' = isKind r" if "r \<in> set (Issues db)"
    by (rule bexI [of _ "if isID r = i \<and> isState r \<noteq> st then r\<lparr>isState := st, isReason := reason, isClosedBy := by\<rparr> else r"])
       (use that in \<open>auto simp: changeState_def set_updateWhere\<close>)
qed

lemma changeState_inv:
  assumes "pullInv db" "st \<in> issueStates" "i \<in> isID ` set (Issues db)"
    and "evIssue e = i" "evKind e = (if st = ''open'' then ''reopened'' else ''closed'') \<or> (st = ''closed'' \<and> evKind e = ''merged'')"
  shows "pullInv (changeState i st reason by e db)"
proof -
  have "evKind e \<in> stateKinds" "replayEvent i ''open'' e = st" using assms(2,4,5) by (auto simp: stateKinds_def issueStates_def replayEvent_def)
  then have "trackerInv (changeState i st reason by e db)" unfolding changeState_def
    using stateChange_inv [of db st i _ e] assms(1-4) by (simp add: pullInv_def)
  moreover have "reviewInv (changeState i st reason by e db)"
    using assms(1) reviewInv_cong [of "changeState i st reason by e db" db] by (simp add: pullInv_def changeState_def)
  moreover have "(\<exists>r \<in> set (Issues (changeState i st reason by e db)). isID r = prID p \<and> isKind r = ''pr'') \<and> mergedOK (changeState i st reason by e db) p"
    if "p \<in> set (Pulls db)" for p
  proof -
    obtain r where "r \<in> set (Issues db)" "isID r = prID p" "isKind r = ''pr''" "mergedOK db p" using assms(1) \<open>p \<in> set (Pulls db)\<close> unfolding pullInv_def by blast
    moreover have "set (Events db) \<subseteq> set (Events (changeState i st reason by e db))" by (auto simp: changeState_def)
    ultimately show ?thesis using changeState_rows(2) [of r db i st reason "by" e] by (auto simp: mergedOK_def)
  qed
  ultimately show ?thesis using assms(1) by (simp add: pullInv_def changeState_def)
qed

lemma changeState_closed:
  assumes "mergedClosed db" "st = ''closed'' \<or> (\<forall>p \<in> set (Pulls db). prMerged p \<longrightarrow> prID p \<noteq> i)"
  shows "mergedClosed (changeState i st reason by e db)"
  unfolding mergedClosed_def
proof (intro ballI impI)
  fix p r' assume "p \<in> set (Pulls (changeState i st reason by e db))" "r' \<in> set (Issues (changeState i st reason by e db))" "prMerged p \<and> isID r' = prID p"
  moreover from this obtain r where "r \<in> set (Issues db)" "isID r' = isID r" "isState r' = (if isID r = i then st else isState r)"
    using changeState_rows(1) by blast
  ultimately show "isState r' = ''closed''" using assms by (auto simp: mergedClosed_def changeState_def)
qed

section \<open>Operations that change state\<close>

lemma setState_change:
  assumes "setState env actor i st reason cid (db :: 'x PullTracker_scheme) = (r, db')"
  obtains "db' = db" | rs "by" e where "quietly (changeState i st rs by e db) db'" "st \<in> issueStates" "i \<in> isID ` set (Issues db)"
     "evIssue e = i" "evKind e = (if st = ''open'' then ''reopened'' else ''closed'')"
  using assms
proof (cases rule: setState_effect)
  case (1 ds)
  let ?e = "\<lparr>evIssue = i, evActor = pgInt8 actor, evKind = (if st = ''open'' then ''reopened'' else ''closed''),
        evMeta = (if cid \<noteq> 0 then ''{\"comment_id\":'' @ Itoa cid @ ''}'' else ''{}''), evRef = None\<rparr>"
  let ?db1 = "changeState i st (pgText reason) (if st = ''closed'' then pgInt8 actor else None) ?e db"
  have "db' = ?db1\<lparr>DomainEvents := ds\<rparr>" unfolding 1(2) changeState_def by simp
  then have "quietly ?db1 db'" using quietly_noted [OF noted_domain] by metis
  then show ?thesis using that(2) [of _ _ ?e] 1(3,4) by force
qed (use that(1) in simp)

lemma setState_pullInv:
  assumes "pullInv db" "setState env actor i st reason cid db = (r, db')"
  shows "pullInv db'"
  using assms(2)
proof (cases rule: setState_change)
  case (2 rs "by" e)
  then show ?thesis using quietly_inv [OF 2(1)] changeState_inv [OF assms(1) 2(2,3,4)] by simp
qed (use assms(1) in simp)

lemma setState_closed:
  assumes "mergedClosed db" "setState env actor i st reason cid db = (r, db')" "st = ''closed'' \<or> (\<forall>p \<in> set (Pulls db). prMerged p \<longrightarrow> prID p \<noteq> i)"
  shows "mergedClosed db'"
  using assms(2)
proof (cases rule: setState_change)
  case (2 rs "by" e)
  then show ?thesis using quietly_closed [OF 2(1)] changeState_closed [OF assms(1,3)] by simp
qed (use assms(1) in simp)

lemma GetPullRequest_Some: "GetPullRequest i db = Some p \<Longrightarrow> p \<in> set (Pulls db) \<and> prID p = i"
  by (auto simp: GetPullRequest_def find_Some_iff dest: nth_mem)

lemma GetPullRequest_unique: "distinct (map prID (Pulls db)) \<Longrightarrow> p \<in> set (Pulls db) \<Longrightarrow> GetPullRequest (prID p) db = Some p"
proof (cases "GetPullRequest (prID p) db")
  case None
  assume "p \<in> set (Pulls db)"
  then show ?thesis using None by (auto simp: GetPullRequest_def find_None_iff)
next
  case (Some q)
  assume "distinct (map prID (Pulls db))" "p \<in> set (Pulls db)"
  then have "q = p" using GetPullRequest_Some [OF Some] by (auto simp: distinct_map dest: inj_onD)
  then show ?thesis using Some by simp
qed

lemma SetState_setState:
  assumes "SetState env git actor i st db = (r, db')"
  obtains "db' = db" | p r1 where "GetPullRequest i db = Some p" "\<not> prMerged p" "setState env actor i st '''' 0 db = (r1, db')"
proof -
  have "db' = db \<or> (\<exists>p r1. GetPullRequest i db = Some p \<and> \<not> prMerged p \<and> setState env actor i st '''' 0 db = (r1, db'))"
    using assms unfolding SetState_def by (auto split: option.split_asm if_split_asm git.split_asm prod.split_asm sum.split_asm)
  then show ?thesis using that by blast
qed

lemma SetState_pullInv: "pullInv db \<Longrightarrow> SetState env git actor i st db = (r, db') \<Longrightarrow> pullInv db'"
  by (erule SetState_setState) (auto intro: setState_pullInv)

lemma SetState_closed:
  assumes "pullInv db" "mergedClosed db" "SetState env git actor i st db = (r, db')"
  shows "mergedClosed db'"
  using assms(3)
proof (cases rule: SetState_setState)
  case (2 p r1)
  have "prID q \<noteq> i" if "q \<in> set (Pulls db)" "prMerged q" for q
  proof
    assume "prID q = i"
    then have "GetPullRequest i db = Some q" using GetPullRequest_unique [OF _ that(1)] assms(1) by (simp add: pullInv_def)
    then show False using 2 that(2) by simp
  qed
  then show ?thesis using setState_closed [OF assms(2) 2(3)] by blast
qed (use assms(2) in simp)

lemma Delete_pull:
  assumes "pullInv db" "Delete env i db = (r, db')"
  shows "pullInv db'" "mergedClosed db \<Longrightarrow> mergedClosed db'" "Pulls db' = Pulls db"
proof -
  have p: "Pulls db' = Pulls db" "reviewInv db' \<longleftrightarrow> reviewInv db" "set (Issues db') \<subseteq> set (Issues db)"
    using assms(2) reviewInv_cong [of db' db] by (auto simp: Delete_def split: option.split_asm if_split_asm)
  show "Pulls db' = Pulls db" by (rule p)
  show "mergedClosed db'" if "mergedClosed db" using that p by (auto simp: mergedClosed_def)
  have ids: "distinct (map isID (Issues db))" using assms(1) by (simp add: pullInv_def trackerInv_def)
  have "(\<exists>r \<in> set (Issues db'). isID r = prID q \<and> isKind r = ''pr'') \<and> mergedOK db' q" if q: "q \<in> set (Pulls db)" for q
  proof -
    obtain x where x: "x \<in> set (Issues db)" "isID x = prID q" "isKind x = ''pr''" "mergedOK db q" using assms(1) q unfolding pullInv_def by blast
    have ne: "isID y \<noteq> prID q" if "y \<in> set (Issues db)" "isKind y = ''issue''" for y
    proof
      assume "isID y = prID q"
      then have "y = x" using x(1,2) that(1) ids inj_onD [of isID "set (Issues db)" y x] by (simp add: distinct_map)
      then show False using x(3) that(2) by simp
    qed
    have "\<forall>y \<in> set (Issues db). isKind y = ''issue'' \<longrightarrow> isID y \<noteq> prID q" using ne by blast
    then have "db' = db \<or> (prID q \<noteq> i \<and> Issues db' = filter (\<lambda>r. isID r \<noteq> i) (Issues db) \<and> Events db' = filter (\<lambda>e. evIssue e \<noteq> i) (Events db))"
      using assms(2) by (auto simp: Delete_def list_ex_iff split: option.split_asm if_split_asm)
    then show ?thesis
    proof
      assume d: "prID q \<noteq> i \<and> Issues db' = filter (\<lambda>r. isID r \<noteq> i) (Issues db) \<and> Events db' = filter (\<lambda>e. evIssue e \<noteq> i) (Events db)"
      then have "x \<in> set (Issues db')" using x by auto
      then show ?thesis using x d by (auto simp: mergedOK_def)
    qed (use x in blast)
  qed
  then show "pullInv db'" using assms p Delete_inv [OF _ assms(2)] by (simp add: pullInv_def)
qed

lemma CreateInTx_pull:
  assumes "pullInv db" "CreateInTx env p db = Inr (row, db')"
  shows "pullInv db'" "mergedClosed db \<Longrightarrow> mergedClosed db'" "Pulls db' = Pulls db" "set (Issues db) \<subseteq> set (Issues db')"
    "row \<in> set (Issues db')" "isID row \<notin> prID ` set (Pulls db)"
proof -
  have ti: "trackerInv db" using assms(1) by (simp add: pullInv_def)
  note e = CreateInTx_effect [OF ti assms(2)]
  let ?db1 = "db\<lparr>Counters := (Counters db)(cpRepoID p \<mapsto> nextNumber db (cpRepoID p) + 1), Issues := Issues db @ [row], NextIssueID := NextIssueID db + 1\<rparr>"
  have sub: "Issues db' = Issues db @ [row]" "Pulls db' = Pulls db" "set (Events db) \<subseteq> set (Events db')" "reviewInv db' \<longleftrightarrow> reviewInv db"
    using e(1) reviewInv_cong [of db' db] by (auto simp: noted_def)
  show "Pulls db' = Pulls db" "set (Issues db) \<subseteq> set (Issues db')" "row \<in> set (Issues db')" using sub by auto
  have "prID q < NextIssueID db" if "q \<in> set (Pulls db)" for q
    using assms(1) that by (fastforce simp: pullInv_def trackerInv_def)
  then show fresh: "isID row \<notin> prID ` set (Pulls db)" using e(2) by (metis imageE less_irrefl)
  show "mergedClosed db'" if "mergedClosed db" using that fresh sub by (auto simp: mergedClosed_def)
  show "pullInv db'" using assms(1) sub CreateInTx_inv [OF ti assms(2)] by (fastforce simp: pullInv_def mergedOK_def)
qed

lemma openTx_effect:
  assumes "openTx env p base head bo ho db = Inr (x, db')"
  obtains issue db1 where "x = (issue, newPull (isID issue) p base head bo ho)"
    "CreateInTx env \<lparr>cpRepoID = ppRepoID p, cpAuthor = ppAuthor p, cpTitle = ppTitle p, cpBody = ppBody p, cpKind = ''pr''\<rparr> db = Inr (issue, db1)"
    "FindOpenPullRequestByBranches (ppRepoID p) base head db = None" "base \<noteq> head" "db' = db1\<lparr>Pulls := Pulls db1 @ [newPull (isID issue) p base head bo ho]\<rparr>"
  using assms unfolding openTx_def CreatePullRequest_def
  by (auto simp: bindTx_Inr tx_basic newPull_def split: option.split_asm)

lemma trackerInv_cong:
  "\<lbrakk>Issues db' = Issues db; Counters db' = Counters db; NextIssueID db' = NextIssueID db; Events db' = Events db\<rbrakk> \<Longrightarrow> trackerInv db' \<longleftrightarrow> trackerInv db"
  by (simp only: trackerInv_def)

lemma openTx_pull:
  assumes "pullInv db" "openTx env p base head bo ho db = Inr (x, db')"
  shows "pullInv db'" "mergedClosed db \<Longrightarrow> mergedClosed db'"
proof -
  obtain issue db1 where o: "CreateInTx env \<lparr>cpRepoID = ppRepoID p, cpAuthor = ppAuthor p, cpTitle = ppTitle p, cpBody = ppBody p, cpKind = ''pr''\<rparr> db = Inr (issue, db1)"
    "base \<noteq> head" "db' = db1\<lparr>Pulls := Pulls db1 @ [newPull (isID issue) p base head bo ho]\<rparr>"
    using openTx_effect [OF assms(2)] by metis
  let ?n = "newPull (isID issue) p base head bo ho"
  note c = CreateInTx_pull [OF assms(1) o(1)]
  have kind: "isKind issue = ''pr''" using CreateInTx_effect(6) [OF _ o(1)] assms(1) by (simp add: pullInv_def)
  have new: "prID ?n = isID issue" "\<not> prMerged ?n" "prBaseRef ?n \<noteq> prHeadRef ?n" using o(2) by (simp_all add: newPull_def)
  show "mergedClosed db'" if "mergedClosed db" using c(2) [OF that] new unfolding o(3) by (simp add: mergedClosed_def)
  have "trackerInv db'" using c(1) trackerInv_cong [of db' db1] by (simp add: pullInv_def o(3))
  moreover have "reviewInv db'" using c(1) new unfolding o(3) by (simp add: pullInv_def reviewInv_def CountActivePRReviewRequests_def)
  moreover have "distinct (map prID (Pulls db'))" using c(1,3,6) new(1) unfolding o(3) by (simp add: pullInv_def)
  moreover have "\<forall>q \<in> set (Pulls db'). (\<exists>r \<in> set (Issues db'). isID r = prID q \<and> isKind r = ''pr'') \<and> mergedOK db' q"
    using c(1,5) new(1,2) kind unfolding o(3) by (auto simp: pullInv_def mergedOK_def)
  ultimately show "pullInv db'" by (simp add: pullInv_def)
qed

text \<open>What follows the transaction of an opening is quiet.\<close>

lemma OpenPull_transaction:
  assumes "OpenPull env ge entitled git p db = (r, db')"
  obtains "db' = db" "\<exists>e. r = Inl e" | base head bo ho issue pr db1 where "base = TrimSpace (ppBaseRef p)" "head = TrimSpace (ppHeadRef p)" "r = Inr (issue, pr)"
     "ResolveRefOID git base = GitOK bo" "ResolveRefOID git head = GitOK ho" "openTx env p base head bo ho db = Inr ((issue, pr), db1)" "quietly db1 db'"
proof -
  have quiet: "quietly db1 (enqueueJob f a i (enqueueJob f b i (enqueueJob f c i (case refreshCommitsAndFiles f git i bo ho db1 of
       (Inl e, db2) \<Rightarrow> db2 | (Inr _, db2) \<Rightarrow> requestCodeOwners env ge entitled i u db2))))" for db1 f i a b c bo ho u
    by (intro quietly_enqueue) (auto split: prod.split sum.split dest!: refresh_quiet intro: quietly_trans [OF _ requestCodeOwners_quiet])
  show ?thesis
  proof (cases r)
    case (Inl e)
    then have "db' = db" using assms unfolding OpenPull_def Let_def
      by (auto split: if_split_asm git.split_asm prod.split_asm sum.split_asm dest: transaction_Inl)
    then show ?thesis using that(1) Inl by blast
  next
    case (Inr ip)
    obtain bo ho db1 where o: "ResolveRefOID git (TrimSpace (ppBaseRef p)) = GitOK bo" "ResolveRefOID git (TrimSpace (ppHeadRef p)) = GitOK ho"
        "transaction (flt env) (openTx env p (TrimSpace (ppBaseRef p)) (TrimSpace (ppHeadRef p)) bo ho) db = (Inr ip, db1)"
        "db' = enqueueJob (flt env) ''pr:dependency_review'' (prID (snd ip)) (enqueueJob (flt env) ''pr:mergeability'' (prID (snd ip))
                (enqueueJob (flt env) ''workflow:trigger'' (prID (snd ip)) (case refreshCommitsAndFiles (flt env) git (prID (snd ip)) bo ho db1 of
                       (Inl e, db2) \<Rightarrow> db2 | (Inr _, db2) \<Rightarrow> requestCodeOwners env ge entitled (prID (snd ip)) (ppAuthor p) db2)))"
      using assms unfolding OpenPull_def Let_def Inr by (auto split: if_split_asm git.split_asm prod.split_asm sum.split_asm)
    have "quietly db1 db'" unfolding o(4) by (rule quiet)
    moreover have "openTx env p (TrimSpace (ppBaseRef p)) (TrimSpace (ppHeadRef p)) bo ho db = Inr ((fst ip, snd ip), db1)"
      using o(3) by (simp add: transaction_Inr)
    moreover have "r = Inr (fst ip, snd ip)" using Inr by simp
    ultimately show ?thesis using that(2) [OF refl refl _ o(1,2)] by blast
  qed
qed

lemma OpenPull_pull:
  assumes "pullInv db" "OpenPull env ge entitled git p db = (r, db')"
  shows "pullInv db'" "mergedClosed db \<Longrightarrow> mergedClosed db'"
proof -
  have "pullInv db' \<and> (mergedClosed db \<longrightarrow> mergedClosed db')"
    using assms(2)
  proof (cases rule: OpenPull_transaction)
    case (2 base head bo ho issue pr db1)
    then show ?thesis using openTx_pull [OF assms(1) 2(6)] quietly_inv [OF 2(7)] quietly_closed [OF 2(7)] by blast
  qed (use assms(1) in simp)
  then show "pullInv db'" "mergedClosed db \<Longrightarrow> mergedClosed db'" by blast+
qed

section \<open>Merging\<close>

definition closeRow :: "MergeParams \<Rightarrow> Issue \<Rightarrow> Issue" where
  "closeRow p r = r\<lparr>isState := ''closed'', isReason := Some ''completed'', isClosedBy := pgInt8 (mpActor p)\<rparr>"

text \<open>The issues a merge closes besides its own: open issues of the repository that it names.\<close>

definition linkedRow :: "Issue \<Rightarrow> nat list \<Rightarrow> Issue \<Rightarrow> bool" where
  "linkedRow issue ns r \<longleftrightarrow> isRepo r = isRepo issue \<and> isKind r = ''issue'' \<and> isState r = ''open'' \<and> isNumber r \<in> int ` set ns \<and> isNumber r \<noteq> isNumber issue"

lemma closeRow_simps [simp]:
  "isID (closeRow p r) = isID r" "isRepo (closeRow p r) = isRepo r" "isNumber (closeRow p r) = isNumber r" "isKind (closeRow p r) = isKind r"
  "isState (closeRow p r) = ''closed''"
  by (simp_all add: closeRow_def)

lemma updateWhere_cong: "(\<And>r. r \<in> set rs \<Longrightarrow> P r = Q r) \<Longrightarrow> updateWhere P g rs = updateWhere Q g rs"
  by (simp add: updateWhere_def)

lemma updateWhere_compose: "(\<And>r. r \<in> set rs \<Longrightarrow> P r \<Longrightarrow> \<not> Q (g r)) \<Longrightarrow> updateWhere Q g (updateWhere P g rs) = updateWhere (\<lambda>r. P r \<or> Q r) g rs"
  by (simp add: updateWhere_def)

lemma GetIssueByNumber_unique:
  assumes "trackerInv db" "r \<in> set (Issues db)"
  shows "GetIssueByNumber (isRepo r) (isNumber r) db = Some r"
proof (cases "GetIssueByNumber (isRepo r) (isNumber r) db")
  case None
  then show ?thesis using assms(2) by (auto simp: GetIssueByNumber_def find_None_iff)
next
  case (Some q)
  have "inj_on (\<lambda>r. (isRepo r, isNumber r)) (set (Issues db))" using assms(1) by (simp add: trackerInv_def distinct_map)
  then have "q = r" using GetIssueByNumber_Some [OF Some] assms(2) by (auto dest: inj_onD)
  then show ?thesis using Some by simp
qed

lemma GetIssueByID_unique:
  assumes "trackerInv db" "r \<in> set (Issues db)"
  shows "GetIssueByID (isID r) db = Some r"
proof (cases "GetIssueByID (isID r) db")
  case None
  then show ?thesis using assms(2) by (simp add: GetIssueByID_None)
next
  case (Some q)
  have "inj_on isID (set (Issues db))" using assms(1) by (simp add: trackerInv_def distinct_map)
  then have "q = r" using GetIssueByID_Some [OF Some] assms(2) by (auto dest: inj_onD)
  then show ?thesis using Some by simp
qed

definition closesLinked :: "MergeParams \<Rightarrow> Issue \<Rightarrow> nat list \<Rightarrow> 'x PullTracker_scheme \<Rightarrow> 'x PullTracker_scheme \<Rightarrow> bool" where
  "closesLinked p issue ns db db' \<longleftrightarrow> Issues db' = updateWhere (linkedRow issue ns) (closeRow p) (Issues db) \<and> pullInv db' \<and> (mergedClosed db \<longrightarrow> mergedClosed db') \<and>
    (\<exists>es. db' = db\<lparr>Issues := Issues db', Events := Events db @ es\<rparr> \<and> (\<forall>e \<in> set es. evKind e = ''closed'' \<and> (\<exists>r \<in> set (Issues db). linkedRow issue ns r \<and> evIssue e = isID r)))"

lemma closesLinked_skip:
  assumes "closesLinked p issue ns db db'" "\<And>r. r \<in> set (Issues db) \<Longrightarrow> linkedRow issue (n # ns) r = linkedRow issue ns r"
  shows "closesLinked p issue (n # ns) db db'"
  using assms updateWhere_cong [of "Issues db" "linkedRow issue (n # ns)" "linkedRow issue ns"] unfolding closesLinked_def by auto

text \<open>Closing one linked issue.\<close>

lemma close_one:
  assumes "pullInv db" "t \<in> set (Issues db)" "isRepo t = isRepo issue" "isNumber t = int n" "isKind t = ''issue''" "isState t = ''open''" "int n \<noteq> isNumber issue"
  shows "Issues (changeState (isID t) ''closed'' (Some ''completed'') (pgInt8 (mpActor p)) e db) = updateWhere (linkedRow issue [n]) (closeRow p) (Issues db)"
proof -
  have inj: "inj_on isID (set (Issues db))" using assms(1) by (simp add: pullInv_def trackerInv_def distinct_map)
  have "(isID r = isID t \<and> isState r \<noteq> ''closed'') = linkedRow issue [n] r" if r: "r \<in> set (Issues db)" for r
  proof (cases "r = t")
    case False
    then have "\<not> (isRepo r = isRepo issue \<and> isNumber r = int n)"
      using GetIssueByNumber_unique [of db r] GetIssueByNumber_unique [of db t] assms r by (auto simp: pullInv_def)
    then show ?thesis using False inj_onD [OF inj _ r assms(2)] by (auto simp: linkedRow_def)
  qed (use assms in \<open>simp add: linkedRow_def\<close>)
  note eq = updateWhere_cong [OF this]
  have g: "closeRow p = (\<lambda>r. r\<lparr>isState := ''closed'', isReason := Some ''completed'', isClosedBy := pgInt8 (mpActor p)\<rparr>)"
    by (simp add: closeRow_def fun_eq_iff)
  show ?thesis unfolding changeState_def g by (simp add: eq)
qed

lemma closesLinked_step:
  assumes "pullInv db" "t \<in> set (Issues db)" "isRepo t = isRepo issue" "isNumber t = int n" "isKind t = ''issue''" "isState t = ''open''" "int n \<noteq> isNumber issue"
    "db1 = changeState (isID t) ''closed'' (Some ''completed'') (pgInt8 (mpActor p)) e db" "evKind e = ''closed''" "evIssue e = isID t"
    "closesLinked p issue ns db1 db'"
  shows "closesLinked p issue (n # ns) db db'"
proof -
  have rows: "Issues db1 = updateWhere (linkedRow issue [n]) (closeRow p) (Issues db)" unfolding assms(8) by (rule close_one [OF assms(1-7)])
  have "updateWhere (linkedRow issue ns) (closeRow p) (Issues db1) = updateWhere (linkedRow issue (n # ns)) (closeRow p) (Issues db)"
  proof -
    have "updateWhere (linkedRow issue ns) (closeRow p) (Issues db1) = updateWhere (\<lambda>r. linkedRow issue [n] r \<or> linkedRow issue ns r) (closeRow p) (Issues db)"
      unfolding rows by (rule updateWhere_compose) (simp add: linkedRow_def)
    also have "\<dots> = updateWhere (linkedRow issue (n # ns)) (closeRow p) (Issues db)" by (rule updateWhere_cong) (auto simp: linkedRow_def)
    finally show ?thesis .
  qed
  moreover obtain es where es: "db' = db1\<lparr>Issues := Issues db', Events := Events db1 @ es\<rparr>"
      "\<forall>e \<in> set es. evKind e = ''closed'' \<and> (\<exists>r \<in> set (Issues db1). linkedRow issue ns r \<and> evIssue e = isID r)"
    using assms(11) unfolding closesLinked_def by blast
  have "db' = db\<lparr>Issues := Issues db', Events := Events db @ (e # es)\<rparr>" by (subst es(1)) (simp add: assms(8) changeState_def)
  moreover have "linkedRow issue (n # ns) t" using assms by (simp add: linkedRow_def)
  moreover have "\<exists>r \<in> set (Issues db). linkedRow issue (n # ns) r \<and> isID r' = isID r" if "r' \<in> set (Issues db1)" "linkedRow issue ns r'" for r'
  proof -
    obtain r where "r \<in> set (Issues db)" "r' = (if linkedRow issue [n] r then closeRow p r else r)" using \<open>r' \<in> set (Issues db1)\<close> unfolding rows set_updateWhere by blast
    then show ?thesis using \<open>linkedRow issue ns r'\<close> by (auto simp: linkedRow_def split: if_split_asm)
  qed
  ultimately have "Issues db' = updateWhere (linkedRow issue (n # ns)) (closeRow p) (Issues db)" and
      "\<exists>es. db' = db\<lparr>Issues := Issues db', Events := Events db @ es\<rparr> \<and> (\<forall>e \<in> set es. evKind e = ''closed'' \<and> (\<exists>r \<in> set (Issues db). linkedRow issue (n # ns) r \<and> evIssue e = isID r))"
    using assms(2,9-11) es(2) unfolding closesLinked_def by (auto 0 3 intro!: exI [of _ "e # es"])
  moreover have "mergedClosed db \<Longrightarrow> mergedClosed db1" unfolding assms(8) by (rule changeState_closed) simp_all
  ultimately show ?thesis using assms(11) unfolding closesLinked_def by blast
qed

lemma close_statement:
  assumes "SetIssueState f i st rs by db = Inr (k, db1)" "InsertIssueEvent f e db1 = Inr (u, db2)"
  shows "db2 = changeState i st rs by e db" "st \<in> issueStates" "evIssue e = i \<Longrightarrow> i \<in> isID ` set (Issues db)"
proof -
  have d: "db1 = db\<lparr>Issues := updateWhere (\<lambda>r. isID r = i \<and> isState r \<noteq> st) (\<lambda>r. r\<lparr>isState := st, isReason := rs, isClosedBy := by\<rparr>) (Issues db)\<rparr>"
    using assms(1) by (simp add: SetIssueState_def tx_basic)
  show "db2 = changeState i st rs by e db" using assms(2) by (simp add: InsertIssueEvent_def tx_basic d changeState_def)
  show "st \<in> issueStates" using assms(1) by (simp add: SetIssueState_def tx_basic)
  have "map isID (Issues db1) = map isID (Issues db)" unfolding d by (simp add: map_updateWhere)
  from arg_cong [OF this, of set] have "isID ` set (Issues db1) = isID ` set (Issues db)" by simp
  then show "i \<in> isID ` set (Issues db)" if "evIssue e = i" using assms(2) that GetIssueByID_None [of i db1] by (auto simp: InsertIssueEvent_def tx_basic)
qed

lemma closeLinked_effect:
  assumes "closeLinked f p issue closed ns db = Inr (u, db')" "pullInv db" "\<forall>r \<in> set (Issues db). isID r \<in> closed \<longrightarrow> isState r \<noteq> ''open''"
  shows "closesLinked p issue ns db db'"
  using assms
proof (induction ns arbitrary: closed db)
  case Nil
  have "updateWhere (linkedRow issue []) (closeRow p) (Issues db) = Issues db" by (rule updateWhere_id) (simp add: linkedRow_def)
  moreover have "db = db\<lparr>Issues := Issues db, Events := Events db @ []\<rparr>" by simp
  moreover have "db' = db" using Nil by (simp add: tx_basic)
  ultimately show ?case using Nil(2) unfolding closesLinked_def by (auto intro!: exI [of _ "[]"])
next
  case (Cons n ns)
  show ?case
  proof (cases "int n \<noteq> isNumber issue \<and> (\<exists>t. GetIssueByNumber (isRepo issue) (int n) db = Some t \<and> isKind t = ''issue'' \<and> isState t = ''open'')")
    case False
    have "linkedRow issue (n # ns) r = linkedRow issue ns r" if "r \<in> set (Issues db)" for r
      using False GetIssueByNumber_unique [of db r] Cons(3) that by (auto simp: linkedRow_def pullInv_def)
    moreover have "closeLinked f p issue closed ns db = Inr (u, db')"
      using Cons(2) False by (auto simp: bindTx_Inr tx_basic split: if_split_asm option.split_asm)
    ultimately show ?thesis using closesLinked_skip Cons(1) [OF _ Cons(3,4)] by metis
  next
    case True
    then obtain t where t: "int n \<noteq> isNumber issue" "GetIssueByNumber (isRepo issue) (int n) db = Some t" "isKind t = ''issue''" "isState t = ''open''" by blast
    have new: "isID t \<notin> closed" using Cons(4) t(4) GetIssueByNumber_Some [OF t(2)] by blast
    let ?e = "\<lparr>evIssue = isID t, evActor = pgInt8 (mpActor p), evKind = ''closed'', evMeta = ''{\"closed_by_pr\":'' @ Itoa (mpPRID p) @ ''}'', evRef = None\<rparr>"
    obtain k db1 v db2 where s: "SetIssueState f (isID t) ''closed'' (Some ''completed'') (pgInt8 (mpActor p)) db = Inr (k, db1)"
        "InsertIssueEvent f ?e db1 = Inr (v, db2)" "closeLinked f p issue (insert (isID t) closed) ns db2 = Inr (u, db')"
      using Cons(2) t new by (auto simp: bindTx_Inr tx_basic)
    note c = close_statement [OF s(1,2)]
    have m: "t \<in> set (Issues db)" "isRepo t = isRepo issue" "isNumber t = int n" using GetIssueByNumber_Some [OF t(2)] by simp_all
    have "pullInv db2" unfolding c(1) by (rule changeState_inv [OF Cons(3) c(2)]) (simp_all add: m(1))
    moreover have "\<forall>r \<in> set (Issues db2). isID r \<in> insert (isID t) closed \<longrightarrow> isState r \<noteq> ''open''"
      using Cons(4) unfolding c(1) changeState_def by (auto simp: updateWhere_def)
    ultimately have "closesLinked p issue ns db2 db'" by (rule Cons(1) [OF s(3)])
    then show ?thesis using closesLinked_step [OF Cons(3) m t(3,4,1) c(1)] by simp
  qed
qed

definition mergedRow :: "MergeParams \<Rightarrow> PullRequest \<Rightarrow> string \<Rightarrow> PullRequest \<Rightarrow> PullRequest" where
  "mergedRow p pr merged r = r\<lparr>prMerged := True, prMergedBy := pgInt8 (mpActor p), prMergeSha := Some merged, prMergeMethod := Some (mpMethod p),
     prBaseAtMerge := Some (prBaseOid pr), prHeadAtMerge := Some (prHeadOid pr), prMergeable := Some False, prMergeableState := ''clean''\<rparr>"

lemma merged_pull:
  assumes "pullInv db" "mpMethod p \<in> validMethods" "i \<in> isID ` set (Issues db)" "evIssue e = i" "evKind e = ''merged''" "\<And>r. r \<in> set (Issues db) \<Longrightarrow> isID r = i \<Longrightarrow> isState r = ''open''"
    and "db' = (changeState i ''closed'' (Some ''completed'') by e db)\<lparr>Pulls := updateWhere (\<lambda>r. prID r = i) (mergedRow p pr merged) (Pulls db), DefaultBranches := ds\<rparr>"
  shows "pullInv db'" "mergedClosed db \<Longrightarrow> mergedClosed db'"
proof -
  let ?c = "changeState i ''closed'' (Some ''completed'') by e db"
  have c: "pullInv ?c" by (rule changeState_inv [OF assms(1) _ assms(3,4)]) (simp_all add: issueStates_def assms(5))
  have P: "Pulls ?c = Pulls db" "Pulls db' = updateWhere (\<lambda>r. prID r = i) (mergedRow p pr merged) (Pulls db)" "Issues db' = Issues ?c" "Events db' = Events ?c"
    by (simp_all add: assms(7) changeState_def)
  have ev: "e \<in> set (Events db')" by (simp add: P(4) changeState_def)
  have row: "prID (mergedRow p pr merged r) = prID r" "prBaseRef (mergedRow p pr merged r) = prBaseRef r" "prHeadRef (mergedRow p pr merged r) = prHeadRef r" for r
    by (simp_all add: mergedRow_def)
  have "trackerInv db'" using c trackerInv_cong [of db' ?c] by (simp add: pullInv_def assms(7))
  moreover have "reviewInv db'" using c row unfolding assms(7) by (auto simp: pullInv_def reviewInv_def CountActivePRReviewRequests_def P(1) set_updateWhere)
  moreover have "distinct (map prID (Pulls db'))" using assms(1) by (simp add: P(2) map_updateWhere row pullInv_def)
  moreover have "(\<exists>r \<in> set (Issues db'). isID r = prID q \<and> isKind r = ''pr'') \<and> mergedOK db' q" if q: "q \<in> set (Pulls db')" for q
  proof -
    obtain x where x: "x \<in> set (Pulls db)" "q = (if prID x = i then mergedRow p pr merged x else x)" using q unfolding P(2) set_updateWhere by blast
    then have "(\<exists>r \<in> set (Issues db'). isID r = prID x \<and> isKind r = ''pr'') \<and> mergedOK ?c x" using c by (simp add: pullInv_def P)
    then show ?thesis using x(2) ev assms(2,4,5) by (auto simp: row mergedOK_def P(4) mergedRow_def)
  qed
  ultimately show "pullInv db'" by (simp add: pullInv_def)
  show "mergedClosed db'" if "mergedClosed db"
  proof -
    have "mergedClosed ?c" by (rule changeState_closed [OF that]) simp
    moreover have "isState r = ''closed''" if r: "r \<in> set (Issues ?c)" "isID r = i" for r
      using changeState_rows(1) [OF r(1)] r(2) by auto
    ultimately show ?thesis unfolding mergedClosed_def P(1-3) set_updateWhere by (auto simp: row split: if_split_asm)
  qed
qed

lemma bindTx_E: "bindTx m f s = Inr (y, s'') \<Longrightarrow> (\<And>x s'. m s = Inr (x, s') \<Longrightarrow> f x s' = Inr (y, s'') \<Longrightarrow> P) \<Longrightarrow> P"
  using bindTx_Inr by metis

lemma recordMerge_effect:
  assumes "recordMerge f p pr issue merged db = Inr (u, db')" "pullInv db" "issue \<in> set (Issues db)" "isID issue = mpPRID p" "isState issue = ''open''" "isKind issue = ''pr''"
  shows "mpMethod p \<in> validMethods" "Pulls db' = updateWhere (\<lambda>r. prID r = mpPRID p) (mergedRow p pr merged) (Pulls db)"
    "Issues db' = updateWhere (\<lambda>r. r = issue \<or> linkedRow issue (linkedNumbers issue (PRCommits db (mpPRID p))) r) (closeRow p) (Issues db)"
    "pullInv db'" "mergedClosed db \<Longrightarrow> mergedClosed db'"
proof -
  let ?e = "\<lparr>evIssue = mpPRID p, evActor = pgInt8 (mpActor p), evKind = ''merged'', evMeta = ''{\"method\":\"'' @ mpMethod p @ ''\",\"commit\":\"'' @ merged @ ''\"}'', evRef = None\<rparr>"
  have mr: "(\<lambda>r. r\<lparr>prMerged := True, prMergedBy := pgInt8 (mpActor p), prMergeSha := Some merged, prMergeMethod := Some (mpMethod p),
     prBaseAtMerge := Some (prBaseOid pr), prHeadAtMerge := Some (prHeadOid pr), prMergeable := Some False, prMergeableState := ''clean''\<rparr>) = mergedRow p pr merged"
    by (simp add: mergedRow_def fun_eq_iff)
  let ?db1 = "db\<lparr>Pulls := updateWhere (\<lambda>r. prID r = mpPRID p) (mergedRow p pr merged) (Pulls db)\<rparr>"
  obtain def u2 db2 where r: "mpMethod p \<in> validMethods"
      "(if def = prBaseRef pr then stmt f ''UpdateRepoDefaultBranchOID'' (\<lambda>_. True) (\<lambda>db. ((), db\<lparr>DefaultBranches := (DefaultBranches db)(isRepo issue \<mapsto> (def, Some merged))\<rparr>)) else okTx ()) ?db1 = Inr (u2, db2)"
      "bindTx (SetIssueState f (mpPRID p) ''closed'' (Some ''completed'') (pgInt8 (mpActor p))) (\<lambda>_. bindTx (InsertIssueEvent f ?e) (\<lambda>_.
        bindTx (readTx (\<lambda>db. linkedNumbers issue (PRCommits db (mpPRID p)))) (\<lambda>linked. closeLinked f p issue {} linked))) db2 = Inr (u, db')"
    using assms(1) unfolding recordMerge_def mr
    by (elim bindTx_E [where m = "stmt _ _ _ _"] bindTx_E [where m = "if _ then _ else _"], unfold tx_basic(4), elim conjE) (rule that, simp_all only: prod.inject)
  have "\<exists>ds. db2 = ?db1\<lparr>DefaultBranches := ds\<rparr>" using r(2) by (cases "def = prBaseRef pr") (auto simp: tx_basic intro: exI [of _ "DefaultBranches db"])
  then obtain ds where ds: "db2 = ?db1\<lparr>DefaultBranches := ds\<rparr>" by blast
  obtain k db3 v db4 where s: "SetIssueState f (mpPRID p) ''closed'' (Some ''completed'') (pgInt8 (mpActor p)) (?db1\<lparr>DefaultBranches := ds\<rparr>) = Inr (k, db3)"
      "InsertIssueEvent f ?e db3 = Inr (v, db4)" "closeLinked f p issue {} (linkedNumbers issue (PRCommits db4 (mpPRID p))) db4 = Inr (u, db')"
    using r(3) unfolding ds by (simp only: bindTx_Inr tx_basic) blast
  note m = r(1)
  show "mpMethod p \<in> validMethods" by (rule m)
  note c = close_statement [OF s(1,2)]
  have uniq: "r = issue" if "r \<in> set (Issues db)" "isID r = mpPRID p" for r
    using inj_onD [of isID "set (Issues db)" r issue] assms(2-4) that by (simp add: pullInv_def trackerInv_def distinct_map)
  have own: "mpPRID p \<in> isID ` set (Issues db)" using assms(3,4) by (metis imageI)
  have open_row: "isState r = ''open''" if "r \<in> set (Issues db)" "isID r = mpPRID p" for r using uniq [OF that] assms(5) by simp
  have d4: "db4 = (changeState (mpPRID p) ''closed'' (Some ''completed'') (pgInt8 (mpActor p)) ?e db)\<lparr>Pulls := updateWhere (\<lambda>r. prID r = mpPRID p) (mergedRow p pr merged) (Pulls db), DefaultBranches := ds\<rparr>"
    unfolding c(1) changeState_def by simp
  have inv4: "pullInv db4" "mergedClosed db \<Longrightarrow> mergedClosed db4"
    by (rule merged_pull [OF assms(2) m own _ _ open_row d4]; simp)+
  have l: "closesLinked p issue (linkedNumbers issue (PRCommits db4 (mpPRID p))) db4 db'" by (rule closeLinked_effect [OF s(3) inv4(1)]) simp
  show "pullInv db'" "mergedClosed db \<Longrightarrow> mergedClosed db'" using l inv4 unfolding closesLinked_def by blast+
  obtain es where "db' = db4\<lparr>Issues := Issues db', Events := Events db4 @ es\<rparr>" using l unfolding closesLinked_def by blast
  from arg_cong [OF this, of Pulls] show "Pulls db' = updateWhere (\<lambda>r. prID r = mpPRID p) (mergedRow p pr merged) (Pulls db)" by (simp add: d4)
  have pc: "PRCommits db4 = PRCommits db" by (simp add: d4 changeState_def)
  have "(isID r = mpPRID p \<and> isState r \<noteq> ''closed'') = (r = issue)" if "r \<in> set (Issues db)" for r
    using uniq [OF that] assms(4,5) by auto
  note own_row = updateWhere_cong [OF this]
  have g: "closeRow p = (\<lambda>r. r\<lparr>isState := ''closed'', isReason := Some ''completed'', isClosedBy := pgInt8 (mpActor p)\<rparr>)"
    by (simp add: closeRow_def fun_eq_iff)
  have i4: "Issues db4 = updateWhere (\<lambda>r. r = issue) (closeRow p) (Issues db)" by (simp add: d4 changeState_def own_row g)
  have "Issues db' = updateWhere (linkedRow issue (linkedNumbers issue (PRCommits db (mpPRID p)))) (closeRow p) (Issues db4)"
    using l unfolding closesLinked_def pc by blast
  then show "Issues db' = updateWhere (\<lambda>r. r = issue \<or> linkedRow issue (linkedNumbers issue (PRCommits db (mpPRID p))) r) (closeRow p) (Issues db)"
    unfolding i4 by (subst (asm) updateWhere_compose) (simp_all add: linkedRow_def)
qed

lemma mergeChecks_ok:
  assumes "mergeChecks f ge git i db = Inr (pr, issue)"
  shows "GetPullRequest i db = Some pr" "\<not> prMerged pr" "GetIssueByID i db = Some issue" "isState issue = ''open''" "prMergeableState pr = ''clean''"
    "\<exists>rg. reviewGate ge (gitDirName git) issue pr db = Inr rg \<and> Satisfied rg" "\<exists>cg. checksGate ge issue pr = Inr cg \<and> chkSatisfied cg"
  using assms unfolding mergeChecks_def by (auto split: option.split_asm if_split_asm sum.split_asm)

lemma Merge_ok:
  assumes "Merge f ge users git p db = (Inr (), o', db')"
  obtains pr issue opts merged where "mergeChecks f ge git (mpPRID p) db = Inr (pr, issue)" "mergeOptions users p pr issue = Some opts" "o' = Some opts"
    "PerformMerge git opts = GitOK merged" "recordMerge f p pr issue merged db = Inr ((), db')"
  using assms unfolding Merge_def by (auto split: option.split_asm sum.split_asm git.split_asm prod.split_asm) metis

lemma Merge_failed: "Merge f ge users git p db = (Inl e, o', db') \<Longrightarrow> db' = db"
  unfolding Merge_def by (auto split: option.split_asm sum.split_asm git.split_asm prod.split_asm)

lemma pull_issue_kind:
  assumes "pullInv db" "GetPullRequest i db = Some pr" "GetIssueByID i db = Some issue"
  shows "issue \<in> set (Issues db)" "isID issue = i" "isKind issue = ''pr''"
proof -
  show i: "issue \<in> set (Issues db)" "isID issue = i" using GetIssueByID_Some [OF assms(3)] by simp_all
  obtain r where "r \<in> set (Issues db)" "isID r = i" "isKind r = ''pr''" using assms(1) GetPullRequest_Some [OF assms(2)] unfolding pullInv_def by blast
  then show "isKind issue = ''pr''" using GetIssueByID_unique [of db r] assms(1,3) by (simp add: pullInv_def)
qed

lemma Merge_pull:
  assumes "pullInv db" "Merge f ge users git p db = (r, o', db')"
  shows "pullInv db'" "mergedClosed db \<Longrightarrow> mergedClosed db'"
proof -
  have "pullInv db' \<and> (mergedClosed db \<longrightarrow> mergedClosed db')"
  proof (cases r)
    case (Inl e)
    then show ?thesis using Merge_failed assms by metis
  next
    case (Inr u)
    then obtain pr issue merged where m: "mergeChecks f ge git (mpPRID p) db = Inr (pr, issue)" "recordMerge f p pr issue merged db = Inr ((), db')"
      using Merge_ok [of f ge users git p db o' db'] assms(2) by (metis old.unit.exhaust)
    note c = mergeChecks_ok [OF m(1)]
    show ?thesis using recordMerge_effect [OF m(2) assms(1) pull_issue_kind(1,2) [OF assms(1) c(1,3)] c(4) pull_issue_kind(3) [OF assms(1) c(1,3)]] by blast
  qed
  then show "pullInv db'" "mergedClosed db \<Longrightarrow> mergedClosed db'" by blast+
qed

section \<open>Runs\<close>

text \<open>
  One step is one call of an operation, whatever it answers, from its first statement to its last: calls do not overlap.
  Repositories come and go and change their default branches at any time. With \<open>guarded\<close>, the state of a pull request is only
  changed through \<open>pulls.SetState\<close>, and not by the route for issues.
\<close>

inductive pullStep :: "bool \<Rightarrow> 'x PullTracker_scheme \<Rightarrow> 'x PullTracker_scheme \<Rightarrow> bool" for guarded where
  issueCreated: "Create env p db = (r, db') \<Longrightarrow> pullStep guarded db db'"
| issueCommented: "AddComment env l c db = (r, db') \<Longrightarrow> pullStep guarded db db'"
| issueEdited: "Edit env i title body db = (r, db') \<Longrightarrow> pullStep guarded db db'"
| issueStateSet: "setState env actor i st reason cid db = (r, db') \<Longrightarrow> guarded \<longrightarrow> GetPullRequest i db = None \<Longrightarrow> pullStep guarded db db'"
| issueLocked: "SetLock env actor i locked reason db = (r, db') \<Longrightarrow> pullStep guarded db db'"
| issueDeleted: "Delete env i db = (r, db') \<Longrightarrow> pullStep guarded db db'"
| pullOpened: "OpenPull env (ge :: Owner GateEnv) entitled git p db = (r, db') \<Longrightarrow> pullStep guarded db db'"
| pullSynchronized: "Synchronize env (ge :: Owner GateEnv) entitled git i db = (r, db') \<Longrightarrow> pullStep guarded db db'"
| pullProbed: "Mergeability f (ge :: Owner GateEnv) git i db = (r, db') \<Longrightarrow> pullStep guarded db db'"
| pullMerged: "Merge f (ge :: Owner GateEnv) users git mp db = (r, o', db') \<Longrightarrow> pullStep guarded db db'"
| pullStateSet: "SetState env git actor i st db = (r, db') \<Longrightarrow> pullStep guarded db db'"
| pullEdited: "EditPR env i title body db = (r, db') \<Longrightarrow> pullStep guarded db db'"
| pullReadied: "SetReady env actor i db = (r, db') \<Longrightarrow> pullStep guarded db db'"
| pullUpdated: "UpdateBranch env users git actor i m h db = (r, db') \<Longrightarrow> pullStep guarded db db'"
| pullRetargeted: "SetBase env isPrint git actor i h b db = (r, db') \<Longrightarrow> pullStep guarded db db'"
| headChecked: "ForHeadSHA f repo sha db = db' \<Longrightarrow> pullStep guarded db db'"
| reviewRequested: "Request env i user team by db = (r, db') \<Longrightarrow> pullStep guarded db db'"
| reviewSubmitted: "Submit env teams i author state body prAuthor db = (r, db') \<Longrightarrow> pullStep guarded db db'"
| reviewDismissed: "Dismiss env actor rid reason db = (r, db') \<Longrightarrow> pullStep guarded db db'"
| commentAdded: "AddReviewComment env cp db = (r, db') \<Longrightarrow> pullStep guarded db db'"
| commentEdited: "EditComment env cid body db = (r, db') \<Longrightarrow> pullStep guarded db db'"
| threadResolved: "Resolve env actor cid db = (r, db') \<Longrightarrow> pullStep guarded db db'"
| threadReopened: "Reopen env cid db = (r, db') \<Longrightarrow> pullStep guarded db db'"
| repositoriesChanged: "db' = db\<lparr>DefaultBranches := branches\<rparr> \<Longrightarrow> pullStep guarded db db'"

lemma quiet_results:
  "Synchronize env ge entitled git i db = (r, db') \<Longrightarrow> quietly db db'"
  "Mergeability f ge git i db = (r, db') \<Longrightarrow> quietly db db'"
  "EditPR env i title body db = (r, db') \<Longrightarrow> quietly db db'"
  "SetReady env actor i db = (r, db') \<Longrightarrow> quietly db db'"
  "ForHeadSHA f repo sha db = db' \<Longrightarrow> quietly db db'"
  "Resolve env actor c db = (r, db') \<Longrightarrow> quietly db db'"
  "Reopen env c db = (r, db') \<Longrightarrow> quietly db db'"
  using Synchronize_quiet Mergeability_quiet EditPR_quiet SetReady_quiet ForHeadSHA_quiet setResolved_quiet
  unfolding Resolve_def Reopen_def by (metis snd_conv)+

lemma quiet_oid_results:
  "UpdateBranch env users git actor i m h db = (r, db') \<Longrightarrow> quietly db db'"
  "SetBase env isPrint git actor i h b db = (r, db') \<Longrightarrow> quietly db db'"
  using UpdateBranch_quiet SetBase_quiet by (metis snd_conv)+

lemma repositories_quiet: "db' = db\<lparr>DefaultBranches := branches\<rparr> \<Longrightarrow> quietly db db'"
  by (intro quietly_tables) (simp_all add: reviewInv_def CountActivePRReviewRequests_def)

lemmas quiet_ops = repositories_quiet quiet_results quiet_oid_results quietly_noted [OF AddComment_noted] Edit_quiet SetLock_quiet Request_quiet Submit_quiet Dismiss_quiet AddReviewComment_quiet EditComment_quiet

lemma Create_pull:
  assumes "pullInv db" "Create env p db = (r, db')"
  shows "pullInv db'" "mergedClosed db \<Longrightarrow> mergedClosed db'" "Pulls db' = Pulls db"
proof -
  have "db' = db \<or> (\<exists>row. CreateInTx env p db = Inr (row, db'))"
    using assms(2) unfolding Create_def by (cases r) (auto simp: transaction_Inr dest: transaction_Inl)
  then show "pullInv db'" "mergedClosed db \<Longrightarrow> mergedClosed db'" "Pulls db' = Pulls db" using CreateInTx_pull [OF assms(1)] assms(1) by blast+
qed

lemma pullStep_cases:
  assumes "pullStep guarded db db'"
  obtains "quietly db db'"
    | env p r where "Create env p db = (r, db')"
    | env actor i st reason cid r where "setState env actor i st reason cid db = (r, db')" "guarded \<longrightarrow> GetPullRequest i db = None"
    | env i r where "Delete env i db = (r, db')"
    | env and ge :: "Owner GateEnv" and entitled git p r where "OpenPull env ge entitled git p db = (r, db')"
    | f and ge :: "Owner GateEnv" and users git mp r o' where "Merge f ge users git mp db = (r, o', db')"
    | env git actor i st r where "SetState env git actor i st db = (r, db')"
  using assms by (cases rule: pullStep.cases) (blast intro: quiet_ops | assumption)+


lemma pullStep_inv:
  assumes "pullInv db" "pullStep guarded db db'"
  shows "pullInv db'"
  using assms(2)
  by (cases rule: pullStep_cases)
     (blast intro: quietly_inv Create_pull(1) setState_pullInv Delete_pull(1) OpenPull_pull(1) Merge_pull(1) SetState_pullInv assms(1))+

lemma pullStep_closed:
  assumes "pullInv db" "mergedClosed db" "pullStep True db db'"
  shows "mergedClosed db'"
  using assms(3)
proof (cases rule: pullStep_cases)
  case (3 env actor i st reason cid r)
  have "prID q \<noteq> i" if "q \<in> set (Pulls db)" for q
    using 3(2) that by (auto simp: GetPullRequest_def find_None_iff)
  then show ?thesis using setState_closed [OF assms(2) 3(1)] by blast
qed (blast intro: quietly_closed Create_pull(2) Delete_pull(2) OpenPull_pull(2) Merge_pull(2) SetState_closed assms(1,2))+

text \<open>A step leaves the record of every finished merge as it is.\<close>

definition keepsMerges :: "'x PullTracker_scheme \<Rightarrow> 'x PullTracker_scheme \<Rightarrow> bool" where
  "keepsMerges db db' \<longleftrightarrow> (\<forall>p \<in> set (Pulls db). prMerged p \<longrightarrow> mergeRecord p \<in> mergeRecord ` set (Pulls db'))"

lemma keepsMerges_trans: "keepsMerges a b \<Longrightarrow> keepsMerges b c \<Longrightarrow> keepsMerges a c"
  unfolding keepsMerges_def
proof (intro ballI impI)
  fix p assume ab: "\<forall>p \<in> set (Pulls a). prMerged p \<longrightarrow> mergeRecord p \<in> mergeRecord ` set (Pulls b)" and bc: "\<forall>p \<in> set (Pulls b). prMerged p \<longrightarrow> mergeRecord p \<in> mergeRecord ` set (Pulls c)"
    and p: "p \<in> set (Pulls a)" "prMerged p"
  obtain q where "q \<in> set (Pulls b)" "mergeRecord p = mergeRecord q" using ab p by blast
  moreover then have "prMerged q" using p(2) by (simp add: mergeRecord_def)
  ultimately show "mergeRecord p \<in> mergeRecord ` set (Pulls c)" using bc by auto
qed

lemma keepsMerges_same: "Pulls db' = Pulls db \<Longrightarrow> keepsMerges db db'"
  by (simp add: keepsMerges_def)

lemma keepsMerges_quiet: "quietly db db' \<Longrightarrow> keepsMerges db db'"
proof -
  assume "quietly db db'"
  then have "map mergeRecord (Pulls db') = map mergeRecord (Pulls db)" by (simp add: quietly_def)
  from arg_cong [OF this, of set] show "keepsMerges db db'" by (simp add: keepsMerges_def)
qed

lemma keepsMerges_setState: "setState env actor i st reason cid db = (r, db') \<Longrightarrow> keepsMerges db db'"
proof (erule setState_change)
  fix rs "by" e
  assume "quietly (changeState i st rs by e db) db'"
  moreover have "keepsMerges db (changeState i st rs by e db)" by (rule keepsMerges_same) (simp add: changeState_def)
  ultimately show ?thesis using keepsMerges_trans keepsMerges_quiet by blast
qed (simp add: keepsMerges_same)

lemma keepsMerges_open: "pullInv db \<Longrightarrow> OpenPull env ge entitled git p db = (r, db') \<Longrightarrow> keepsMerges db db'"
proof (erule OpenPull_transaction)
  fix base head bo ho issue pr db1
  assume inv: "pullInv db" and o: "openTx env p base head bo ho db = Inr ((issue, pr), db1)" and q: "quietly db1 db'"
  obtain c db0 where "CreateInTx env c db = Inr (issue, db0)" "db1 = db0\<lparr>Pulls := Pulls db0 @ [pr]\<rparr>"
    using openTx_effect [OF o] by (metis fst_conv snd_conv)
  then have "keepsMerges db db1" using CreateInTx_pull(3) [OF inv] by (auto simp: keepsMerges_def)
  then show ?thesis using keepsMerges_trans keepsMerges_quiet [OF q] by blast
qed (simp add: keepsMerges_same)

lemma keepsMerges_merge:
  assumes "pullInv db" "Merge f ge users git p db = (r, o', db')"
  shows "keepsMerges db db'"
proof (cases r)
  case (Inl e)
  then show ?thesis using Merge_failed assms keepsMerges_same by metis
next
  case (Inr u)
  then obtain pr issue merged where m: "mergeChecks f ge git (mpPRID p) db = Inr (pr, issue)" "recordMerge f p pr issue merged db = Inr ((), db')"
    using Merge_ok [of f ge users git p db o' db'] assms(2) by (metis old.unit.exhaust)
  note c = mergeChecks_ok [OF m(1)]
  have P: "Pulls db' = updateWhere (\<lambda>r. prID r = mpPRID p) (mergedRow p pr merged) (Pulls db)"
    using recordMerge_effect(2) [OF m(2) assms(1) pull_issue_kind(1,2) [OF assms(1) c(1,3)] c(4) pull_issue_kind(3) [OF assms(1) c(1,3)]] .
  have "q \<in> set (Pulls db')" if "q \<in> set (Pulls db)" "prMerged q" for q
  proof -
    have "prID q \<noteq> mpPRID p" using GetPullRequest_unique [of db q] assms(1) c(1,2) that by (auto simp: pullInv_def)
    then show ?thesis using that(1) unfolding P set_updateWhere by force
  qed
  then show ?thesis by (auto simp: keepsMerges_def)
qed

lemma pullStep_keeps:
  assumes "pullInv db" "pullStep guarded db db'"
  shows "keepsMerges db db'"
  using assms(2)
proof (cases rule: pullStep_cases)
  case (7 env git actor i st r)
  then show ?thesis by (rule SetState_setState) (auto intro: keepsMerges_same keepsMerges_setState)
qed (blast intro: keepsMerges_quiet keepsMerges_same Create_pull(3) keepsMerges_setState Delete_pull(3) keepsMerges_open keepsMerges_merge assms(1))+

interpretation pull_runs: kept_invariant "pullStep guarded" pullInv
  by unfold_locales (rule pullStep_inv)

interpretation guarded_runs: kept_invariant "pullStep True" "\<lambda>db. pullInv db \<and> mergedClosed db"
  by unfold_locales (blast intro: pullStep_inv pullStep_closed)

lemma keepsMerges_run: "(pullStep guarded)\<^sup>*\<^sup>* db db' \<Longrightarrow> pullInv db \<Longrightarrow> keepsMerges db db'"
proof (induction rule: rtranclp_induct)
  case (step b c)
  then show ?case using keepsMerges_trans [OF _ pullStep_keeps] pull_runs.reachable_inv by blast
qed (simp add: keepsMerges_same)

end
