(* ===== verification/PullSafety.thy ===== *)
theory PullSafety
  imports PullRuns
begin

text \<open>
  The properties of pull requests over runs of the tracker: what a merge needs, what it does, that it is final,
  and what opening, reviewing and synchronizing guarantee. A small run (a pull request opened, probed and merged)
  is evaluated for the witnesses.
\<close>

section \<open>A run\<close>

text \<open>Runs start with empty tables but for one repository; \<open>repositoriesChanged\<close> gives them any others.\<close>

definition emptyPulls :: PullTracker where
  "emptyPulls = \<lparr>Issues = [], Counters = Map.empty, NextIssueID = 1, Events = [], References = [], Comments = [], NextCommentID = 1, DomainEvents = [],
     Pulls = [], PRCommits = \<lambda>_. [], PRFiles = \<lambda>_. [], Reviews = [], NextReviewID = 1, Requests = [], ReviewComments = [], NextReviewCommentID = 1,
     DefaultBranches = [5 \<mapsto> (''main'', None)], Jobs = []\<rparr>"

definition demoGit :: GitRepo where
  "demoGit = \<lparr>ResolveRefOID = (\<lambda>r. if r = ''main'' then GitOK ''b0'' else if r = ''fix'' then GitOK ''h0'' else RefNotFound), IsAncestor = (\<lambda>_ _. GitOK False),
    CommitsBetween = (\<lambda>_ _ _. GitOK [\<lparr>pcSha = ''h0'', pcSubject = ''fixes #7'', pcBody = ''''\<rparr>]),
    FilesChangedBetween = (\<lambda>_ _. GitOK [\<lparr>pfPath = ''a'', pfStatus = ''modified'', pfOldPath = None, pfAdditions = 1, pfDeletions = 0\<rparr>]),
    ProbeMerge = (\<lambda>_ _. GitOK False), PerformMerge = (\<lambda>_. GitOK ''m0''), ReadBlobBytes = (\<lambda>_ _. None), UpdateBranchFromBase = (\<lambda>_. AlreadyUpToDate), gitDirName = ''demo.git''\<rparr>"

definition demoGates :: "Owner GateEnv" where
  "demoGates = \<lparr>ListBranchProtectionRules = (\<lambda>_. Inr []), RepoReadError = None,
    OwnerData = \<lparr>LoadOwners = Inr None, ChangedFiles = Inr [], ResolveTargets = (\<lambda>_. Inr \<lparr>UserIDs = [], TeamIDs = []\<rparr>), TeamMembers = (\<lambda>_. Inr [])\<rparr>,
    LatestRun = (\<lambda>_ _ _. Inr None)\<rparr>"

definition demoUsers :: userTable where
  "demoUsers = (\<lambda>u. if u = 3 then Some \<lparr>puDisplay = '''', puUsername = ''ann'', puPrimary = None\<rparr> else None)"

definition demoPull :: PullParams where
  "demoPull = \<lparr>ppRepoID = 5, ppAuthor = 3, ppTitle = ''fix'', ppBody = '''', ppBaseRef = ''main'', ppHeadRef = ''fix'', ppDraft = False\<rparr>"

definition demoMerge :: MergeParams where
  "demoMerge = \<lparr>mpPRID = 1, mpActor = 3, mpMethod = ''merge'', mpSubject = '''', mpBody = ''''\<rparr>"

lemma demo_trim: "TrimSpace ''main'' = ''main''" "TrimSpace ''fix'' = ''fix''" by (simp_all add: TrimSpace_id graphic_def)

lemma demo_title: "titleError ''fix'' = None"
proof -
  have "runesOf ''fix'' = map of_char ''fix''" by (rule runesOf_ascii) (simp add: ascii_def)
  then show "titleError ''fix'' = None" by (simp add: titleError_def containsHostileUnicode_def hostileRunes_def)
qed

definition demoRow :: Issue where
  "demoRow = \<lparr>isID = 1, isRepo = 5, isNumber = 1, isKind = ''pr'', isTitle = ''fix'', isBody = '''', isHtml = None,
      isAuthor = Some 3, isState = ''open'', isReason = None, isClosedBy = None, isLocked = False, isLockReason = None\<rparr>"

definition demoPR :: PullRequest where
  "demoPR = newPull 1 demoPull ''main'' ''fix'' ''b0'' ''h0''"

definition demoCreated :: PullTracker where
  "demoCreated = emptyPulls\<lparr>Counters := [5 \<mapsto> 2], Issues := [demoRow], NextIssueID := 2, DomainEvents :=
     [\<lparr>deActor = Some 3, deKind = ''pr_opened'', deRepo = 5, deSource = 1, dePublic = True, deMentions = []\<rparr>]\<rparr>"

definition demoOpen :: PullTracker where
  "demoOpen = demoCreated\<lparr>Pulls := [demoPR], PRCommits := (\<lambda>_. [])(1 := [\<lparr>pcSha = ''h0'', pcSubject = ''fixes #7'', pcBody = ''''\<rparr>]),
     PRFiles := (\<lambda>_. [])(1 := [\<lparr>pfPath = ''a'', pfStatus = ''modified'', pfOldPath = None, pfAdditions = 1, pfDeletions = 0\<rparr>]),
     Jobs := [(''workflow:trigger'', 1), (''pr:mergeability'', 1), (''pr:dependency_review'', 1)]\<rparr>"

lemma quiet_stmt: "stmt (flt quietEnv) n ok upd s = (if ok s then Inr (upd s) else Inl (StoreErr n ''constraint''))" "flt quietEnv n = None"
  by (simp_all add: stmt_def quietEnv_def)

lemma demo_create: "CreateInTx quietEnv \<lparr>cpRepoID = 5, cpAuthor = 3, cpTitle = ''fix'', cpBody = '''', cpKind = ''pr''\<rparr> emptyPulls = Inr (demoRow, demoCreated)"
  by (simp add: CreateInTx_def Let_def demo_trim demo_title bodyError_def bindTx_def quiet_stmt EnsureRepoIssueCounter_def AllocateIssueNumber_def CreateIssue_def
     UpdateIssueTitleBody_def insertReferencesFromBody_def emitIssueEventTx_def emitDomainEvent_def okTx_def renderBody_def pgInt8_def pgText_def GetIssueByNumber_def
     emptyPulls_def demoRow_def demoCreated_def) (simp add: quietEnv_def)

lemma demo_openTx: "openTx quietEnv demoPull ''main'' ''fix'' ''b0'' ''h0'' emptyPulls = Inr ((demoRow, demoPR), demoCreated\<lparr>Pulls := [demoPR]\<rparr>)"
proof -
  have f: "FindOpenPullRequestByBranches 5 ''main'' ''fix'' emptyPulls = None" by (simp add: FindOpenPullRequestByBranches_def emptyPulls_def)
  have "prID demoPR = 1" "prBaseRef demoPR = ''main''" "prHeadRef demoPR = ''fix''" by (simp_all add: demoPR_def newPull_def)
  then have g: "CreatePullRequest (flt quietEnv) demoPR demoCreated = Inr (demoPR, demoCreated\<lparr>Pulls := [demoPR]\<rparr>)"
    by (simp add: CreatePullRequest_def quiet_stmt GetPullRequest_def demoCreated_def emptyPulls_def)
  have p: "ppRepoID demoPull = 5" "ppAuthor demoPull = 3" "ppTitle demoPull = ''fix''" "ppBody demoPull = ''''" by (simp_all add: demoPull_def)
  have "isID demoRow = 1" by (simp add: demoRow_def)
  then show ?thesis by (simp add: openTx_def bindTx_def quiet_stmt okTx_def p f demo_create demoPR_def [symmetric] g)
qed

lemma demo_refresh: "refreshCommitsAndFiles (flt quietEnv) demoGit 1 ''b0'' ''h0'' (demoCreated\<lparr>Pulls := [demoPR]\<rparr>) = (Inr (), demoOpen\<lparr>Jobs := []\<rparr>)"
  by (simp add: refreshCommitsAndFiles_def transaction_def demoGit_def bindTx_def quiet_stmt SetPullRequestSnapshot_def updatePull_def okTx_def updateWhere_def demoOpen_def demoPR_def newPull_def demoCreated_def emptyPulls_def)

lemma demo_opened: "OpenPull quietEnv demoGates (Inr True) demoGit demoPull emptyPulls = (Inr (demoRow, demoPR), demoOpen)"
proof -
  have p: "ppBaseRef demoPull = ''main''" "ppHeadRef demoPull = ''fix''" "ppAuthor demoPull = 3" "prID demoPR = 1" by (simp_all add: demoPull_def demoPR_def newPull_def)
  have g: "ResolveRefOID demoGit ''main'' = GitOK ''b0''" "ResolveRefOID demoGit ''fix'' = GitOK ''h0''" by (simp_all add: demoGit_def)
  have r: "requestCodeOwners quietEnv demoGates (Inr True) 1 3 db = db" for db :: PullTracker by (simp add: requestCodeOwners_def demoGates_def)
  show ?thesis by (simp add: OpenPull_def Let_def p demo_trim g transaction_def quiet_stmt demo_openTx demo_refresh r enqueueJob_def) (simp add: demoOpen_def)
qed

definition demoClean :: PullTracker where
  "demoClean = demoOpen\<lparr>Pulls := [demoPR\<lparr>prMergeable := Some True, prMergeableState := ''clean''\<rparr>]\<rparr>"

lemma demo_probed: "Mergeability (flt quietEnv) demoGates demoGit 1 demoOpen = (Inr (), demoClean)"
proof -
  have rules: "ListBranchProtectionRules demoGates 5 = Inr []" by (simp add: demoGates_def)
  have pr: "GetPullRequest 1 demoOpen = Some demoPR" "GetIssueByID 1 demoOpen = Some demoRow"
    by (simp_all add: GetPullRequest_def GetIssueByID_def demoOpen_def demoCreated_def demoPR_def newPull_def demoRow_def)
  have row: "isRepo demoRow = 5" "prBaseOid demoPR = ''b0''" "prHeadOid demoPR = ''h0''" "prBaseRef demoPR = ''main''" "prID demoPR = 1" by (simp_all add: demoRow_def demoPR_def newPull_def)
  have "\<exists>rg. reviewGate demoGates (gitDirName demoGit) demoRow demoPR demoOpen = Inr rg \<and> Satisfied rg"
    by (simp add: reviewGate_def Evaluate_def rules row Let_def MatchLongestRule_def matchRuleForTarget_def ListUndismissedReviewsForGate_def)
       (simp add: demoOpen_def demoCreated_def emptyPulls_def latestPerAuthor_def flushLatest_def countLatestDecisions_def)
  then obtain rg where rg: "reviewGate demoGates (gitDirName demoGit) demoRow demoPR demoOpen = Inr rg" "Satisfied rg" by blast
  have "\<exists>cg. checksGate demoGates demoRow demoPR = Inr cg \<and> chkSatisfied cg"
    by (simp add: checksGate_def loadRequiredCheckNames_def rules row MatchLongestRule_def matchRuleForTarget_def EvaluateRequiredChecks_def)
  then obtain cg where cg: "checksGate demoGates demoRow demoPR = Inr cg" "chkSatisfied cg" by blast
  have git: "CommitsBetween demoGit ''b0'' ''h0'' (Suc 0) = GitOK [\<lparr>pcSha = ''h0'', pcSubject = ''fixes #7'', pcBody = ''''\<rparr>]" "ProbeMerge demoGit ''b0'' ''h0'' = GitOK False"
    by (simp_all add: demoGit_def)
  have "alone (SetPullRequestMergeability (flt quietEnv) 1 (Some True) ''clean'') demoOpen = (Inr (), demoClean)"
    by (simp add: alone_def SetPullRequestMergeability_def updatePull_def quiet_stmt updateWhere_def demoClean_def row) (simp add: demoOpen_def row updateWhere_def)
  then show ?thesis by (simp add: Mergeability_def gatesState_def quiet_stmt pr row git rg cg)
qed

definition demoMerged :: PullTracker where
  "demoMerged = (let p = demoPR\<lparr>prMerged := True, prMergedBy := Some 3, prMergeSha := Some ''m0'', prMergeMethod := Some ''merge'',
       prBaseAtMerge := Some ''b0'', prHeadAtMerge := Some ''h0'', prMergeable := Some False, prMergeableState := ''clean''\<rparr> in
     demoClean\<lparr>Pulls := [p], Issues := [demoRow\<lparr>isState := ''closed'', isReason := Some ''completed'', isClosedBy := Some 3\<rparr>],
       Events := [\<lparr>evIssue = 1, evActor = Some 3, evKind = ''merged'', evMeta = ''{\"method\":\"merge\",\"commit\":\"m0\"}'', evRef = None\<rparr>],
       DefaultBranches := [5 \<mapsto> (''main'', Some ''m0'')]\<rparr>)"

lemma closeLinked_none: "(\<And>n. n \<noteq> isNumber issue \<Longrightarrow> GetIssueByNumber (isRepo issue) n db = None) \<Longrightarrow> closeLinked f p issue closed ns db = Inr ((), db)"
  by (induction ns) (auto simp: okTx_def bindTx_def readTx_def)

lemma demo_merged: "\<exists>opts. Merge (flt quietEnv) demoGates demoUsers demoGit demoMerge demoClean = (Inr (), Some opts, demoMerged)"
proof -
  let ?pr = "demoPR\<lparr>prMergeable := Some True, prMergeableState := ''clean''\<rparr>"
  have rules: "ListBranchProtectionRules demoGates 5 = Inr []" by (simp add: demoGates_def)
  have row: "isRepo demoRow = 5" "isID demoRow = 1" "isNumber demoRow = 1" "isState demoRow = ''open''" "prBaseOid demoPR = ''b0''" "prHeadOid demoPR = ''h0''" "prBaseRef demoPR = ''main''" "prID demoPR = 1" "\<not> prMerged demoPR"
    by (simp_all add: demoRow_def demoPR_def newPull_def)
  have db: "Issues demoClean = [demoRow]" "Pulls demoClean = [?pr]" "DefaultBranches demoClean = [5 \<mapsto> (''main'', None)]" "Events demoClean = []"
    by (simp_all add: demoClean_def demoOpen_def demoCreated_def emptyPulls_def)
  have pr: "GetPullRequest 1 demoClean = Some ?pr" "GetIssueByID 1 demoClean = Some demoRow" by (simp_all add: GetPullRequest_def GetIssueByID_def db row)
  have rg: "\<exists>rg. reviewGate demoGates (gitDirName demoGit) demoRow ?pr demoClean = Inr rg \<and> Satisfied rg"
    by (simp add: reviewGate_def Evaluate_def rules row Let_def MatchLongestRule_def matchRuleForTarget_def ListUndismissedReviewsForGate_def)
       (simp add: demoClean_def demoOpen_def demoCreated_def emptyPulls_def latestPerAuthor_def flushLatest_def countLatestDecisions_def)
  have cg: "\<exists>cg. checksGate demoGates demoRow ?pr = Inr cg \<and> chkSatisfied cg"
    by (simp add: checksGate_def loadRequiredCheckNames_def rules row MatchLongestRule_def matchRuleForTarget_def EvaluateRequiredChecks_def)
  have git: "IsAncestor demoGit a b = GitOK False" "PerformMerge demoGit opts = GitOK ''m0''" for a b opts by (simp_all add: demoGit_def)
  have p: "mpPRID demoMerge = 1" "mpActor demoMerge = 3" "mpMethod demoMerge = ''merge''" by (simp_all add: demoMerge_def)
  have checks: "mergeChecks (flt quietEnv) demoGates demoGit 1 demoClean = Inr (?pr, demoRow)"
    using rg cg by (auto simp: mergeChecks_def quiet_stmt pr row git)
  have "identityFor demoUsers 3 = Some (''ann'', ''ann@noreply.shithub.local'')" by (simp add: identityFor_def demoUsers_def)
  then obtain opts where opts: "mergeOptions demoUsers demoMerge ?pr demoRow = Some opts" by (simp add: mergeOptions_def p Let_def)
  have rec: "recordMerge (flt quietEnv) demoMerge ?pr demoRow ''m0'' demoClean = Inr ((), demoMerged)"
  proof -
    have none: "closeLinked q demoMerge demoRow closed ns demoMerged = Inr ((), demoMerged)" for q closed ns
      by (rule closeLinked_none) (simp add: GetIssueByNumber_def demoMerged_def Let_def row)
    let ?db1 = "demoClean\<lparr>Pulls := [demoPR\<lparr>prMerged := True, prMergedBy := Some 3, prMergeSha := Some ''m0'', prMergeMethod := Some ''merge'',
       prBaseAtMerge := Some ''b0'', prHeadAtMerge := Some ''h0'', prMergeable := Some False, prMergeableState := ''clean''\<rparr>], DefaultBranches := [5 \<mapsto> (''main'', Some ''m0'')]\<rparr>"
    let ?db2 = "?db1\<lparr>Issues := [demoRow\<lparr>isState := ''closed'', isReason := Some ''completed'', isClosedBy := Some 3\<rparr>]\<rparr>"
    have s1: "SetIssueState q 1 ''closed'' (Some ''completed'') (Some 3) ?db1 = Inr (Suc 0, ?db2)" if "q ''SetIssueState'' = None" for q
      using that by (simp add: SetIssueState_def stmt_def issueStates_def stateReasons_def db row pgInt8_def)
    have s2: "InsertIssueEvent q \<lparr>evIssue = 1, evActor = Some 3, evKind = ''merged'', evMeta = ''{\"method\":\"merge\",\"commit\":\"m0\"}'', evRef = None\<rparr> ?db2 = Inr ((), demoMerged)"
      if "q ''InsertIssueEvent'' = None" for q
      using that by (simp add: InsertIssueEvent_def stmt_def GetIssueByID_def row pgInt8_def demoMerged_def Let_def db)
    show ?thesis
      by (simp add: recordMerge_def bindTx_def quiet_stmt p validMethods_def db row readTx_def) (simp add: s1 s2 none pgInt8_def bindTx_def readTx_def quiet_stmt)
  qed
  show ?thesis using opts rec by (simp add: Merge_def quiet_stmt p checks git)
qed


lemma emptyPulls_inv: "pullInv emptyPulls" "mergedClosed emptyPulls"
  by (simp_all add: pullInv_def trackerInv_def reviewInv_def CountActivePRReviewRequests_def mergedClosed_def emptyPulls_def)

lemma demo_clean_run: "(pullStep guarded)\<^sup>*\<^sup>* emptyPulls demoClean"
proof -
  have "pullStep guarded emptyPulls demoOpen" "pullStep guarded demoOpen demoClean"
    by (rule pullOpened [OF demo_opened] pullProbed [OF demo_probed])+
  then show ?thesis by (meson converse_rtranclp_into_rtranclp rtranclp.rtrancl_refl)
qed

lemma demo_run: "(pullStep guarded)\<^sup>*\<^sup>* emptyPulls demoMerged"
  using demo_merged pullMerged rtranclp.rtrancl_into_rtrancl [OF demo_clean_run] by metis

lemma demo_merged_pull: "GetPullRequest 1 demoMerged = Some (hd (Pulls demoMerged))" "prMerged (hd (Pulls demoMerged))"
  by (simp_all add: GetPullRequest_def demoMerged_def Let_def demoPR_def newPull_def)

section \<open>Merged for good\<close>

text \<open>
  C9. A merged pull request stays closed. In every state that the operations can produce, provided states of
  pull requests are only set through the operation for pull requests, the issue of a merged pull request
  exists, is a pull request and is closed; the commit of the merge is recorded, and so is the merge in the
  timeline.
\<close>

theorem merged_pulls_stay_closed:
  assumes "(pullStep True)\<^sup>*\<^sup>* emptyPulls db" "GetPullRequest i db = Some p" "prMerged p"
  shows "\<exists>r. GetIssueByID i db = Some r \<and> isKind r = ''pr'' \<and> isState r = ''closed'' \<and> prMergeSha p \<noteq> None \<and>
    (\<exists>e \<in> set (Events db). evIssue e = i \<and> evKind e = ''merged'')"
proof -
  have inv: "pullInv db" "mergedClosed db" using guarded_runs.reachable_inv [OF assms(1)] emptyPulls_inv by blast+
  note p = GetPullRequest_Some [OF assms(2)]
  obtain r where r: "r \<in> set (Issues db)" "isID r = i" "isKind r = ''pr''" and ok: "mergedOK db p" using inv(1) p unfolding pullInv_def by blast
  then show ?thesis using GetIssueByID_unique [OF _ r(1)] inv p assms(3) by (auto simp: pullInv_def mergedOK_def mergedClosed_def)
qed

theorem merged_pulls_stay_closed_witness:
  "\<exists>r. GetIssueByID 1 demoMerged = Some r \<and> isState r = ''closed''"
  using merged_pulls_stay_closed [OF demo_run demo_merged_pull] by blast

text \<open>
  C20. A merge is final. Whatever operations follow, the record of a merge (its commit, method, author, and the
  base and head it joined) never changes, and every later attempt to merge the pull request again is
  refused before git is asked.
\<close>

theorem merge_is_final:
  assumes "(pullStep guarded)\<^sup>*\<^sup>* emptyPulls db" "(pullStep guarded)\<^sup>*\<^sup>* db db'" "GetPullRequest i db = Some p" "prMerged p"
    and "f ''Begin'' = None" "f ''LockPullRequestForMerge'' = None" "mpPRID mp = i"
  shows "\<exists>p'. GetPullRequest i db' = Some p' \<and> mergeRecord p' = mergeRecord p \<and> Merge f ge users git mp db' = (Inl ErrAlreadyMerged, None, db')"
proof -
  have inv: "pullInv db" using pull_runs.reachable_inv [OF assms(1) emptyPulls_inv(1)] .
  have inv': "pullInv db'" using pull_runs.reachable_inv [OF assms(2) inv] .
  note p = GetPullRequest_Some [OF assms(3)]
  obtain p' where p': "p' \<in> set (Pulls db')" "mergeRecord p' = mergeRecord p"
    using keepsMerges_run [OF assms(2) inv] p assms(4) unfolding keepsMerges_def by (metis imageE)
  then have id: "prID p' = i" "prMerged p'" using p assms(4) by (simp_all add: mergeRecord_def)
  have g: "GetPullRequest i db' = Some p'" using GetPullRequest_unique [OF _ p'(1)] inv' id(1) by (simp add: pullInv_def)
  moreover have "Merge f ge users git mp db' = (Inl ErrAlreadyMerged, None, db')"
    using g id(2) assms(5-7) by (simp add: Merge_def mergeChecks_def)
  ultimately show ?thesis using p'(2) by blast
qed

theorem merge_is_final_witness:
  "Merge (flt quietEnv) demoGates demoUsers demoGit demoMerge demoMerged = (Inl ErrAlreadyMerged, None, demoMerged)"
proof -
  have "mpPRID demoMerge = 1" by (simp add: demoMerge_def)
  then show ?thesis using merge_is_final [OF demo_run rtranclp.rtrancl_refl demo_merged_pull] quiet_stmt(2) by blast
qed

text \<open>
  The route for issues does not have that protection: it sets the state of whatever number it is given, so a
  run that also uses it reaches a pull request that is merged and open again.
\<close>

theorem issue_route_reopens_merged_pull:
  "\<exists>db p r. (pullStep False)\<^sup>*\<^sup>* emptyPulls db \<and> GetPullRequest 1 db = Some p \<and> prMerged p \<and> GetIssueByID 1 db = Some r \<and> isState r = ''open''"
proof -
  obtain r0 where r0: "GetIssueByID 1 demoMerged = Some r0" "isState r0 = ''closed''"
    by (simp add: GetIssueByID_def demoMerged_def Let_def demoRow_def)
  then obtain db where s: "setStateTx quietEnv 3 1 ''open'' '''' 0 demoMerged = Inr (True, db)"
    using setStateTx_ok [of quietEnv 1 demoMerged r0 "''open''" "''''" 3 0] by (auto simp: quietEnv_def issueStates_def)
  have set: "setState quietEnv 3 1 ''open'' '''' 0 demoMerged = (Inr (), db)"
    by (simp add: setState_def transaction_def quiet_stmt s issueStates_def)
  then have "pullStep False demoMerged db" by (rule issueStateSet) simp
  then have run: "(pullStep False)\<^sup>*\<^sup>* emptyPulls db" using demo_run by (meson rtranclp.rtrancl_into_rtrancl)
  have "GetPullRequest 1 db = GetPullRequest 1 demoMerged \<and> (\<exists>r. GetIssueByID 1 db = Some r \<and> isState r = ''open'')"
    using set
  proof (cases rule: setState_effect)
    case (1 ds)
    then show ?thesis using r0 GetIssueByID_Some [OF r0(1)] by (simp add: GetPullRequest_def GetIssueByID_def find_updateWhere)
  qed simp
  then show ?thesis using run demo_merged_pull by auto
qed


section \<open>Requests for review\<close>

text \<open>
  C34. Review requests stay bounded and unique. In every state that the operations can produce when they run one after the
  other, a pull request has at most twenty requests that wait for a review, no two of them ask the same user or the same team, and each
  asks exactly one of the two.
\<close>

theorem review_requests_bounded:
  assumes "(pullStep guarded)\<^sup>*\<^sup>* emptyPulls db"
  shows "length (filter (\<lambda>r. rqPR r = i \<and> activeRequest r) (Requests db)) \<le> 20 \<and>
    distinct (map (\<lambda>r. (rqPR r, rqUser r, rqTeam r)) (filter activeRequest (Requests db))) \<and>
    (\<forall>r. r \<in> set (Requests db) \<longrightarrow> (rqUser r = None) \<noteq> (rqTeam r = None))"
proof -
  have inv: "reviewInv db" using pull_runs.reachable_inv [OF assms emptyPulls_inv(1)] by (simp add: pullInv_def)
  have "length (filter (\<lambda>r. rqPR r = i \<and> activeRequest r) rs) \<le> length (filter (\<lambda>r. rqPR r = i \<and> \<not> rqDismissed r) rs)" for rs
    by (induction rs) (auto simp: activeRequest_def)
  from this [of "Requests db"] have "length (filter (\<lambda>r. rqPR r = i \<and> activeRequest r) (Requests db)) \<le> 20"
    using inv unfolding reviewInv_def CountActivePRReviewRequests_def MaxReviewersPerPR_def by (meson le_trans)
  then show ?thesis using inv by (simp add: reviewInv_def)
qed

theorem review_requests_bounded_witness:
  "\<exists>db r. (pullStep True)\<^sup>*\<^sup>* emptyPulls db \<and> r \<in> set (Requests db) \<and> rqUser r = Some 4 \<and> length (filter (\<lambda>r. rqPR r = 1 \<and> activeRequest r) (Requests db)) \<le> 20"
proof -
  obtain r db where q: "Request quietEnv 1 4 0 3 demoMerged = (r, db)" by fastforce
  have "Requests demoMerged = []" "GetIssueByID 1 demoMerged \<noteq> None"
    by (simp_all add: demoMerged_def Let_def demoClean_def demoOpen_def demoCreated_def emptyPulls_def GetIssueByID_def demoRow_def)
  then have "\<exists>r \<in> set (Requests db). rqUser r = Some 4" using q
    by (auto simp: Request_def requestRefused_def insertRequest_def Let_def quiet_stmt CountActivePRReviewRequests_def MaxReviewersPerPR_def alone_def emitIssueEventTx_def emitDomainEvent_def pgInt8_def split: option.split_asm)
  moreover have "(pullStep True)\<^sup>*\<^sup>* emptyPulls db" using reviewRequested [OF q] demo_run by (meson rtranclp.rtrancl_into_rtrancl)
  ultimately show ?thesis using review_requests_bounded [of True db 1] by blast
qed

text \<open>
  Calls that overlap can break both: the checks of two requests for the same reviewer pass, and then both insert their row. One
  after the other, the second is refused.
\<close>

lemma demo_open_tables: "Requests demoOpen = []" "GetIssueByID 1 demoOpen = Some demoRow" "Issues demoOpen = [demoRow]"
  by (simp_all add: demoOpen_def demoCreated_def emptyPulls_def GetIssueByID_def demoRow_def)

lemma overlapping_requests_duplicate:
  "requestRefused (flt quietEnv) 1 4 0 demoOpen = None \<and>
   (\<exists>db1 db2 r1 r2. insertRequest quietEnv 1 4 0 3 demoOpen = (Inr r1, db1) \<and> insertRequest quietEnv 1 4 0 3 db1 = (Inr r2, db2) \<and>
      map (\<lambda>r. (rqPR r, rqUser r, activeRequest r)) (Requests db2) = [(1, Some 4, True), (1, Some 4, True)] \<and>
      Request quietEnv 1 4 0 3 db1 = (Inl ErrReviewerAlreadyPending, db1))"
proof -
  define row where "row = \<lparr>rqPR = 1, rqUser = Some 4, rqTeam = None, rqBy = Some 3, rqDismissed = False, rqSatisfiedBy = None\<rparr>"
  have ins: "\<exists>ds. insertRequest quietEnv 1 4 0 3 db = (Inr row, db\<lparr>Requests := Requests db @ [row], DomainEvents := ds\<rparr>)" if "Issues db = [demoRow]" for db :: PullTracker
    using that by (simp add: insertRequest_def Let_def alone_def quiet_stmt emitIssueEventTx_def emitDomainEvent_def pgInt8_def GetIssueByID_def demoRow_def row_def) blast
  obtain d1 where d1: "insertRequest quietEnv 1 4 0 3 demoOpen = (Inr row, demoOpen\<lparr>Requests := [row], DomainEvents := d1\<rparr>)" (is "_ = (_, ?db1)")
    using ins [OF demo_open_tables(3)] demo_open_tables(1) by auto
  obtain d2 where d2: "insertRequest quietEnv 1 4 0 3 ?db1 = (Inr row, ?db1\<lparr>Requests := [row, row], DomainEvents := d2\<rparr>)"
    using ins [of ?db1] demo_open_tables(3) by auto
  have "requestRefused (flt quietEnv) 1 4 0 demoOpen = None"
    by (simp add: requestRefused_def quiet_stmt CountActivePRReviewRequests_def MaxReviewersPerPR_def demo_open_tables(1))
  moreover have "Request quietEnv 1 4 0 3 ?db1 = (Inl ErrReviewerAlreadyPending, ?db1)"
    by (simp add: Request_def requestRefused_def quiet_stmt CountActivePRReviewRequests_def MaxReviewersPerPR_def pendingFor_def activeRequest_def row_def)
  moreover have "activeRequest row" "rqPR row = 1" "rqUser row = Some 4" by (simp_all add: row_def activeRequest_def)
  ultimately show ?thesis using d1 d2 by (intro conjI exI) (assumption | simp)+
qed

section \<open>What a merge needs\<close>














section \<open>What a merge does\<close>



section \<open>Opening\<close>

text \<open>Why an opening is refused, apart from its title and body.\<close>

definition openRefusal :: "GitRepo \<Rightarrow> PullParams \<Rightarrow> 'x PullTracker_scheme \<Rightarrow> tracker_error option" where
  "openRefusal git p db =
     (let base = TrimSpace (ppBaseRef p); head = TrimSpace (ppHeadRef p) in
      if base = '''' \<or> head = '''' \<or> base = head then Some ErrSameBranch
      else if ResolveRefOID git base = RefNotFound then Some ErrBaseNotFound
      else if ResolveRefOID git head = RefNotFound then Some ErrHeadNotFound
      else if ResolveRefOID git base = ResolveRefOID git head then Some ErrNoCommitsToMerge
      else map_option (\<lambda>is. DuplicatePRError (isNumber is) base head) (FindOpenPullRequestByBranches (ppRepoID p) base head db))"

lemma openTx_ok:
  assumes "pullInv db" "flt env = (\<lambda>_. None)" "titleError (TrimSpace (ppTitle p)) = None" "bodyError (ppBody p) = None"
    "FindOpenPullRequestByBranches (ppRepoID p) base head db = None" "base \<noteq> head"
  shows "\<exists>x db'. openTx env p base head bo ho db = Inr (x, db')"
proof -
  let ?c = "\<lparr>cpRepoID = ppRepoID p, cpAuthor = ppAuthor p, cpTitle = ppTitle p, cpBody = ppBody p, cpKind = ''pr''\<rparr>"
  have "trackerInv db" using assms(1) by (simp add: pullInv_def)
  then obtain row db1 where c: "CreateInTx env ?c db = Inr (row, db1)" using CreateInTx_ok [of db env ?c] assms(2-4) by auto
  note e = CreateInTx_pull [OF assms(1) c]
  have "GetPullRequest (isID row) db1 = None" unfolding GetPullRequest_def e(3) find_None_iff using e(6) by (metis imageI)
  then have "CreatePullRequest (flt env) (newPull (isID row) p base head bo ho) db1 = Inr (newPull (isID row) p base head bo ho, db1\<lparr>Pulls := Pulls db1 @ [newPull (isID row) p base head bo ho]\<rparr>)"
    using assms(2,6) by (simp add: CreatePullRequest_def stmt_def newPull_def)
  then show ?thesis by (simp add: openTx_def bindTx_def stmt_def assms(2,5) okTx_def c)
qed


lemma OpenPull_refused:
  assumes "flt env = (\<lambda>_. None)" "\<And>r e. ResolveRefOID git r \<noteq> GitFailed e" "openRefusal git p db = Some e"
  shows "OpenPull env ge entitled git p db = (Inl e, db)"
proof -
  define base head where "base = TrimSpace (ppBaseRef p)" and "head = TrimSpace (ppHeadRef p)"
  have ref: "ResolveRefOID git r = RefNotFound \<or> (\<exists>x. ResolveRefOID git r = GitOK x)" for r using assms(2) by (cases "ResolveRefOID git r") auto
  show ?thesis
  proof (cases "\<exists>bo ho. base \<noteq> '''' \<and> head \<noteq> '''' \<and> base \<noteq> head \<and> ResolveRefOID git base = GitOK bo \<and> ResolveRefOID git head = GitOK ho \<and> bo \<noteq> ho")
    case False
    then show ?thesis using assms(3) ref [of base] ref [of head] unfolding openRefusal_def OpenPull_def Let_def base_def head_def by (auto split: if_split_asm)
  next
    case True
    then obtain bo ho x where o: "base \<noteq> ''''" "head \<noteq> ''''" "base \<noteq> head" "ResolveRefOID git base = GitOK bo" "ResolveRefOID git head = GitOK ho" "bo \<noteq> ho"
        "FindOpenPullRequestByBranches (ppRepoID p) base head db = Some x" "e = DuplicatePRError (isNumber x) base head"
      using assms(3) unfolding openRefusal_def Let_def base_def head_def by auto
    have "transaction (flt env) (openTx env p base head bo ho) db = (Inl e, db)"
      using o(7,8) by (simp add: transaction_def openTx_def bindTx_def stmt_def assms(1) failTx_def)
    then show ?thesis using o unfolding OpenPull_def Let_def base_def head_def by simp
  qed
qed

text \<open>What follows the transaction keeps the two rows that it has written.\<close>

lemma insertRows_keeps:
  assumes "insertRows f n free ins rs db = Inr (x, db')" "\<And>r db. Issues (ins r db) = Issues db \<and> Pulls (ins r db) = Pulls db"
  shows "Issues db' = Issues db \<and> Pulls db' = Pulls db"
  using assms(1) by (induction rs arbitrary: db) (auto simp: bindTx_Inr tx_basic assms(2))

lemma refresh_keeps:
  assumes "refreshCommitsAndFiles f git i bo ho db = (r, db')" "\<And>q. q \<in> set (Pulls db) \<Longrightarrow> prID q = i \<Longrightarrow> prBaseOid q = bo \<and> prHeadOid q = ho"
  shows "Issues db' = Issues db \<and> Pulls db' = Pulls db"
proof -
  have same: "updateWhere (\<lambda>q. prID q = i) (\<lambda>q. q\<lparr>prBaseOid := bo, prHeadOid := ho\<rparr>) (Pulls db) = Pulls db"
    unfolding updateWhere_def using assms(2) by (intro map_idI) auto
  have step: "Issues db' = Issues db \<and> Pulls db' = Pulls db" if
    "insertRows f ''InsertPullRequestCommit'' fr1 (\<lambda>c db. db\<lparr>PRCommits := (PRCommits db)(i := PRCommits db i @ [c])\<rparr>) commits
       (db\<lparr>PRCommits := cs, PRFiles := fs\<rparr>) = Inr (u1, db1)"
    "insertRows f ''InsertPullRequestFile'' fr2 (\<lambda>c db. db\<lparr>PRFiles := (PRFiles db)(i := PRFiles db i @ [c])\<rparr>) files db1 = Inr (u2, db2)"
    "SetPullRequestSnapshot f i bo ho db2 = Inr (u3, db')" for fr1 fr2 cs fs commits files u1 u2 u3 db1 db2
    using insertRows_keeps [OF that(1)] insertRows_keeps [OF that(2)] that(3) same by (simp add: SetPullRequestSnapshot_def updatePull_def tx_basic)
  show ?thesis using assms(1) unfolding refreshCommitsAndFiles_def
    by (cases r) (auto simp: bindTx_Inr tx_basic transaction_Inr dest: transaction_Inl step split: git.split_asm)
qed

lemma Request_keeps: "Request env i user team by db = (r, db') \<Longrightarrow> Issues db' = Issues db \<and> Pulls db' = Pulls db"
  by (auto simp: Request_def insertRequest_def Let_def alone_def emitIssueEventTx_def emitDomainEvent_def stmt_def
      split: option.split_asm sum.split_asm if_split_asm prod.split_asm)

lemma requestAll_keeps: "Issues (requestAll env i by rs db) = Issues db \<and> Pulls (requestAll env i by rs db) = Pulls db"
proof (induction rs arbitrary: db)
  case (Cons x rs)
  obtain u t where x: "x = (u, t)" by fastforce
  obtain r db1 where q: "Request env i u t by db = (r, db1)" by fastforce
  then show ?case using Cons.IH [of db1] Request_keeps [OF q] by (auto simp: x requestReviewerTarget_def split: sum.split)
qed simp

lemma requestCodeOwners_keeps: "Issues (requestCodeOwners env ge entitled i by db) = Issues db \<and> Pulls (requestCodeOwners env ge entitled i by db) = Pulls db"
  by (auto simp: requestCodeOwners_def requestAll_keeps split: sum.split option.split prod.split)

lemma enqueueJob_keeps [simp]: "Issues (enqueueJob f k i db) = Issues db" "Pulls (enqueueJob f k i db) = Pulls db"
  by (simp_all add: enqueueJob_def split: option.split)

lemma OpenPull_keeps:
  assumes "flt env = (\<lambda>_. None)" "base = TrimSpace (ppBaseRef p)" "head = TrimSpace (ppHeadRef p)" "base \<noteq> ''''" "head \<noteq> ''''" "base \<noteq> head"
    "ResolveRefOID git base = GitOK bo" "ResolveRefOID git head = GitOK ho" "bo \<noteq> ho"
    "openTx env p base head bo ho db = Inr ((issue, newPull i p base head bo ho), db1)"
    "Pulls db1 = Pulls db @ [newPull i p base head bo ho]" "i \<notin> prID ` set (Pulls db)"
  shows "\<exists>db'. OpenPull env ge entitled git p db = (Inr (issue, newPull i p base head bo ho), db') \<and> Issues db' = Issues db1 \<and> Pulls db' = Pulls db1"
proof -
  let ?pr = "newPull i p base head bo ho"
  have parts: "prID ?pr = i" "prBaseOid ?pr = bo" "prHeadOid ?pr = ho" by (simp_all add: newPull_def)
  obtain r db2 where r: "refreshCommitsAndFiles (\<lambda>_. None) git (prID ?pr) bo ho db1 = (r, db2)" by fastforce
  have "Issues db2 = Issues db1 \<and> Pulls db2 = Pulls db1"
    by (rule refresh_keeps [OF r]) (use assms(11,12) parts in auto)
  then show ?thesis using assms(4-9) r requestCodeOwners_keeps [of env ge entitled "prID ?pr" "ppAuthor p" db2]
    unfolding OpenPull_def Let_def assms(1) assms(2,3) [symmetric] by (simp add: transaction_def assms(10) split: sum.split)
qed

text \<open>
  C33. Opening a pull request has one of two outcomes if its title and body are valid and the database and git do
  not fail. Either it is refused for the first of these reasons that applies, and nothing changes: the same or
  a blank branch, a missing base, a missing head, nothing to merge, an open pull request for the same
  branches, which the error names. Or there is a new open pull request with the next number of the repository,
  unmerged, at the commits its branches point to: its issue and its row are stored behind the old ones, which stay as they are.
\<close>

theorem opening_is_refused_or_fresh:
  assumes "(pullStep guarded)\<^sup>*\<^sup>* emptyPulls db" "flt env = (\<lambda>_. None)" "titleError (TrimSpace (ppTitle p)) = None" "bodyError (ppBody p) = None"
    and "\<And>r e. ResolveRefOID git r \<noteq> GitFailed e"
  shows "case openRefusal git p db of
      Some e \<Rightarrow> OpenPull env ge entitled git p db = (Inl e, db)
    | None \<Rightarrow> \<exists>issue pr db'. OpenPull env ge entitled git p db = (Inr (issue, pr), db') \<and> prID pr = isID issue \<and> isKind issue = ''pr'' \<and> isState issue = ''open'' \<and>
        isNumber issue = nextNumber db (ppRepoID p) \<and> isRepo issue = ppRepoID p \<and> \<not> prMerged pr \<and> prID pr \<notin> prID ` set (Pulls db) \<and>
        Issues db' = Issues db @ [issue] \<and> Pulls db' = Pulls db @ [pr] \<and>
        ResolveRefOID git (prBaseRef pr) = GitOK (prBaseOid pr) \<and> ResolveRefOID git (prHeadRef pr) = GitOK (prHeadOid pr)"
proof -
  have inv: "pullInv db" using pull_runs.reachable_inv [OF assms(1) emptyPulls_inv(1)] .
  define base head where "base = TrimSpace (ppBaseRef p)" and "head = TrimSpace (ppHeadRef p)"
  have ref: "ResolveRefOID git r = RefNotFound \<or> (\<exists>x. ResolveRefOID git r = GitOK x)" for r using assms(5) by (cases "ResolveRefOID git r") auto
  show ?thesis
  proof (cases "openRefusal git p db")
    case (Some e)
    then show ?thesis using OpenPull_refused [OF assms(2,5)] by simp
  next
    case None
    then obtain bo ho where o: "base \<noteq> ''''" "head \<noteq> ''''" "base \<noteq> head" "ResolveRefOID git base = GitOK bo" "ResolveRefOID git head = GitOK ho" "bo \<noteq> ho"
        "FindOpenPullRequestByBranches (ppRepoID p) base head db = None"
      using ref [of base] ref [of head] unfolding openRefusal_def Let_def base_def head_def by (auto split: if_split_asm)
    obtain x db1 where t: "openTx env p base head bo ho db = Inr (x, db1)" using openTx_ok [OF inv assms(2-4) o(7,3)] by blast
    obtain issue db0 where i: "x = (issue, newPull (isID issue) p base head bo ho)" and
        c: "CreateInTx env \<lparr>cpRepoID = ppRepoID p, cpAuthor = ppAuthor p, cpTitle = ppTitle p, cpBody = ppBody p, cpKind = ''pr''\<rparr> db = Inr (issue, db0)"
        and d1: "db1 = db0\<lparr>Pulls := Pulls db0 @ [newPull (isID issue) p base head bo ho]\<rparr>"
      using openTx_effect [OF t] by metis
    have "trackerInv db" using inv by (simp add: pullInv_def)
    note e = CreateInTx_effect [OF this c]
    note new = CreateInTx_pull(6) [OF inv c]
    have rows: "Issues db1 = Issues db @ [issue]" "Pulls db1 = Pulls db @ [newPull (isID issue) p base head bo ho]"
      using e(1) CreateInTx_pull(3) [OF inv c] by (auto simp: d1 noted_def)
    obtain db' where d: "OpenPull env ge entitled git p db = (Inr (issue, newPull (isID issue) p base head bo ho), db')" and
        k: "Issues db' = Issues db1 \<and> Pulls db' = Pulls db1"
      using OpenPull_keeps [OF assms(2) base_def head_def o(1-6) t [unfolded i]] rows(2) new by blast
    then show ?thesis using None o(4,5) e new rows by (auto simp: newPull_def)
  qed
qed

theorem opening_is_refused_or_fresh_witness:
  "\<exists>issue pr db'. OpenPull quietEnv demoGates (Inr True) demoGit demoPull emptyPulls = (Inr (issue, pr), db') \<and> isNumber issue = 1"
proof -
  have t: "TrimSpace (ppBaseRef demoPull) = ''main''" "TrimSpace (ppHeadRef demoPull) = ''fix''" "TrimSpace (ppTitle demoPull) = ''fix''"
    by (simp_all add: demoPull_def demo_trim)
  have g: "ResolveRefOID demoGit r \<noteq> GitFailed e" for r e by (simp add: demoGit_def)
  have n: "openRefusal demoGit demoPull emptyPulls = None"
    by (simp add: openRefusal_def Let_def t demoGit_def FindOpenPullRequestByBranches_def emptyPulls_def)
  have b: "bodyError (ppBody demoPull) = None" by (simp add: bodyError_def demoPull_def)
  have "ppRepoID demoPull = 5" "nextNumber emptyPulls 5 = 1" "Issues emptyPulls = []" "Pulls emptyPulls = []" by (simp_all add: demoPull_def nextNumber_def emptyPulls_def)
  then show ?thesis using opening_is_refused_or_fresh [OF rtranclp.rtrancl_refl, of quietEnv demoPull demoGit demoGates "Inr True"] t g n b demo_title
    by (auto simp: quietEnv_def)
qed

text \<open>
  Only opening looks for another pull request between the same branches. Reopening a closed one while another
  is open succeeds, and both are open afterwards, for the same repository, base and head.
\<close>

theorem reopening_allows_duplicates:
  assumes "flt env = (\<lambda>_. None)" "GetPullRequest i db = Some p" "\<not> prMerged p" "GetIssueByID i db = Some r" "isState r = ''closed''"
    and "GetPullRequest j db = Some q" "GetIssueByID j db = Some r'" "isState r' = ''open''"
    and "prBaseRef q = prBaseRef p" "prHeadRef q = prHeadRef p" "ResolveRefOID git (prBaseRef p) = GitOK bo" "ResolveRefOID git (prHeadRef p) = GitOK ho"
  shows "\<exists>db' x y. SetState env git actor i ''open'' db = (Inr (), db') \<and> Pulls db' = Pulls db \<and>
    GetIssueByID i db' = Some x \<and> isState x = ''open'' \<and> GetIssueByID j db' = Some y \<and> isState y = ''open''"
proof -
  obtain db' where s: "setStateTx env actor i ''open'' '''' 0 db = Inr (True, db')"
    using setStateTx_ok [of env i db r "''open''" "''''" actor 0] assms(1,4,5) by (auto simp: issueStates_def)
  have set: "setState env actor i ''open'' '''' 0 db = (Inr (), db')" by (simp add: setState_def transaction_def assms(1) s issueStates_def)
  then have e: "SetState env git actor i ''open'' db = (Inr (), db')" by (simp add: SetState_def assms(1-3,11,12))
  have "i \<noteq> j"
  proof
    assume "i = j"
    then have "r = r'" using assms(4,7) by simp
    then show False using assms(5,8) by simp
  qed
  then have ij: "isID r = i" "isID r' = j" "i \<noteq> j" using GetIssueByID_Some [OF assms(4)] GetIssueByID_Some [OF assms(7)] by simp_all
  have "Pulls db' = Pulls db \<and> (\<exists>x y. GetIssueByID i db' = Some x \<and> isState x = ''open'' \<and> GetIssueByID j db' = Some y \<and> isState y = ''open'')"
    using set
  proof (cases rule: setState_effect)
    case (1 ds)
    have p: "Pulls db' = Pulls db" unfolding 1(2) by simp
    have "GetIssueByID k db' = map_option (\<lambda>r. if isID r = i \<and> isState r \<noteq> ''open'' then r\<lparr>isState := ''open'', isReason := pgText '''', isClosedBy := None\<rparr> else r) (GetIssueByID k db)" for k
      unfolding 1(2) GetIssueByID_def by (simp add: find_updateWhere)
    then show ?thesis using p assms(4,5,7,8) ij by simp
  qed simp
  then show ?thesis using e by blast
qed

definition twoPulls :: PullTracker where
  "twoPulls = demoOpen\<lparr>Pulls := [demoPR, demoPR\<lparr>prID := 2\<rparr>], Issues := [demoRow\<lparr>isState := ''closed''\<rparr>, demoRow\<lparr>isID := 2, isNumber := 2\<rparr>]\<rparr>"

theorem reopening_allows_duplicates_witness:
  "\<exists>db' x y. SetState quietEnv demoGit 3 1 ''open'' twoPulls = (Inr (), db') \<and>
    GetIssueByID 1 db' = Some x \<and> isState x = ''open'' \<and> GetIssueByID 2 db' = Some y \<and> isState y = ''open''"
proof -
  have d: "GetPullRequest 1 twoPulls = Some demoPR" "GetPullRequest 2 twoPulls = Some (demoPR\<lparr>prID := 2\<rparr>)"
      "GetIssueByID 1 twoPulls = Some (demoRow\<lparr>isState := ''closed''\<rparr>)" "GetIssueByID 2 twoPulls = Some (demoRow\<lparr>isID := 2, isNumber := 2\<rparr>)"
    by (simp_all add: GetPullRequest_def GetIssueByID_def twoPulls_def demoPR_def newPull_def demoRow_def)
  have g: "ResolveRefOID demoGit (prBaseRef demoPR) = GitOK ''b0''" "ResolveRefOID demoGit (prHeadRef demoPR) = GitOK ''h0''" "\<not> prMerged demoPR"
    by (simp_all add: demoGit_def demoPR_def newPull_def)
  have q: "flt quietEnv = (\<lambda>_. None)" by (simp add: quietEnv_def)
  show ?thesis using reopening_allows_duplicates [OF q d(1) g(3) d(3) _ d(2) d(4) _ _ _ g(1,2), of 3] by (simp add: demoRow_def) blast
qed

section \<open>Submitting reviews\<close>





section \<open>Comment positions\<close>

lemma remapRows_effect:
  assumes "remapRows f git b h cs db = (Inr (), db')" "\<And>c. c \<in> set cs \<Longrightarrow> \<exists>d \<in> set (ReviewComments db). rcID d = rcID c \<and> remappedPosition git b h d = remappedPosition git b h c"
    "distinct (map rcID (ReviewComments db))"
  shows "db' = db\<lparr>ReviewComments := updateWhere (\<lambda>d. rcID d \<in> rcID ` set cs) (\<lambda>d. d\<lparr>rcPosition := remappedPosition git b h d\<rparr>) (ReviewComments db)\<rparr>"
  using assms
proof (induction cs arbitrary: db)
  case Nil
  have "updateWhere (\<lambda>d. False) g rs = rs" for g and rs :: "ReviewComment list" by (rule updateWhere_id) simp
  then show ?case using Nil by simp
next
  case (Cons c cs)
  let ?pos = "remappedPosition git b h" and ?g = "\<lambda>d. d\<lparr>rcPosition := remappedPosition git b h d\<rparr>"
  have pos: "?pos (d\<lparr>rcPosition := v\<rparr>) = ?pos d" for d v by (simp add: remappedPosition_def)
  define db1 where "db1 = db\<lparr>ReviewComments := updateWhere (\<lambda>d. rcID d = rcID c) ?g (ReviewComments db)\<rparr>"
  have "d\<lparr>rcPosition := ?pos c\<rparr> = ?g d" if "d \<in> set (ReviewComments db)" "rcID d = rcID c" for d
  proof -
    obtain e where "e \<in> set (ReviewComments db)" "rcID e = rcID c" "?pos e = ?pos c" using Cons(3) [of c] by auto
    then have "e = d" using that Cons(4) inj_onD [of rcID "set (ReviewComments db)" e d] by (simp add: distinct_map)
    then show ?thesis using \<open>?pos e = ?pos c\<close> by simp
  qed
  then have "updateWhere (\<lambda>d. rcID d = rcID c) (\<lambda>d. d\<lparr>rcPosition := ?pos c\<rparr>) (ReviewComments db) = updateWhere (\<lambda>d. rcID d = rcID c) ?g (ReviewComments db)"
    unfolding updateWhere_def by (intro map_cong) auto
  then have r: "remapRows f git b h cs db1 = (Inr (), db')"
    using Cons(2) by (auto simp: alone_def updateComment_def stmt_def db1_def split: option.split_asm sum.split_asm)
  have rows: "ReviewComments db1 = updateWhere (\<lambda>d. rcID d = rcID c) ?g (ReviewComments db)" by (simp add: db1_def)
  have "\<exists>d \<in> set (ReviewComments db1). rcID d = rcID e \<and> ?pos d = ?pos e" if e: "e \<in> set cs" for e
  proof -
    obtain d where "d \<in> set (ReviewComments db)" "rcID d = rcID e" "?pos d = ?pos e" using Cons(3) [of e] e by (meson list.set_intros(2))
    then have "(if rcID d = rcID c then ?g d else d) \<in> set (ReviewComments db1)" unfolding rows set_updateWhere by (intro image_eqI) auto
    then show ?thesis by (rule rev_bexI) (simp add: pos \<open>rcID d = rcID e\<close> \<open>?pos d = ?pos e\<close>)
  qed
  moreover have "distinct (map rcID (ReviewComments db1))" using Cons(4) by (simp add: rows map_updateWhere)
  ultimately have "db' = db1\<lparr>ReviewComments := updateWhere (\<lambda>d. rcID d \<in> rcID ` set cs) ?g (ReviewComments db1)\<rparr>" by (rule Cons(1) [OF r])
  moreover have "updateWhere (\<lambda>d. rcID d \<in> rcID ` set cs) ?g (ReviewComments db1) = updateWhere (\<lambda>d. rcID d \<in> rcID ` set (c # cs)) ?g (ReviewComments db)"
    unfolding rows updateWhere_def by (simp add: pos)
  ultimately show ?case by (simp add: db1_def)
qed



lemma remapRows_ok: "(\<exists>s'. remapRows f git b h cs s = (Inr (), s')) \<longleftrightarrow> cs = [] \<or> f ''SetPRReviewCommentCurrentPosition'' = None"
proof (induction cs arbitrary: s)
  case (Cons c cs)
  then show ?case by (cases "f ''SetPRReviewCommentCurrentPosition''") (auto simp: alone_def updateComment_def stmt_def)
qed simp

lemma RemapAllForPR_effect:
  assumes "RemapAllForPR f git i b h db = (Inr (), db')" "b \<noteq> ''''" "h \<noteq> ''''" "distinct (map rcID (ReviewComments db))"
  shows "db' = db\<lparr>ReviewComments := updateWhere (\<lambda>c. rcPR c = i \<and> \<not> rcPending c) (\<lambda>c. c\<lparr>rcPosition := remappedPosition git b h c\<rparr>) (ReviewComments db)\<rparr>"
proof -
  let ?ours = "\<lambda>c. rcPR c = i \<and> \<not> rcPending c" and ?g = "\<lambda>c. c\<lparr>rcPosition := remappedPosition git b h c\<rparr>"
  have r: "remapRows f git b h (filter ?ours (ReviewComments db)) db = (Inr (), db')"
    using assms(1-3) by (auto simp: RemapAllForPR_def split: option.split_asm)
  have ids: "rcID c \<in> rcID ` set (filter ?ours (ReviewComments db)) \<longleftrightarrow> ?ours c" if "c \<in> set (ReviewComments db)" for c
    using assms(4) that by (auto simp: distinct_map dest: inj_onD)
  have "db' = db\<lparr>ReviewComments := updateWhere (\<lambda>d. rcID d \<in> rcID ` set (filter ?ours (ReviewComments db))) ?g (ReviewComments db)\<rparr>"
    by (rule remapRows_effect [OF r _ assms(4)]) auto
  moreover have "updateWhere (\<lambda>d. rcID d \<in> rcID ` set (filter ?ours (ReviewComments db))) ?g (ReviewComments db) = updateWhere ?ours ?g (ReviewComments db)"
    by (rule updateWhere_cong [OF ids])
  ultimately show ?thesis by (simp only:)
qed

text \<open>The line with the same number has the same text in both versions of a file. A version that cannot be read has no lines.\<close>

definition sameLine :: "string option \<Rightarrow> string option \<Rightarrow> int \<Rightarrow> bool" where
  "sameLine original current n \<longleftrightarrow> (\<exists>old new. original = Some old \<and> current = Some new \<and> 1 \<le> n
     \<and> nat n \<le> length (textLines [] old) \<and> nat n \<le> length (textLines [] new) \<and> textLines [] old ! (nat n - 1) = textLines [] new ! (nat n - 1))"

lemma newPosition_sameLine: "newPosition original current n = (if sameLine original current n then Some n else None)"
  by (cases original; cases current) (auto simp: newPosition_def lineAt_def sameLine_def lineLoop_lines nat_diff_distrib split: option.split)

text \<open>
  C38. Remapping the comments of a pull request onto a new snapshot gives every published comment of it its original line as
  position if the line with this number has the same text in the commented version of the file and in the new one (the
  base for comments on the left side, the head for the others), and no position if the text differs or one of the lines or
  files is missing; it leaves drafts and the comments of other pull requests alone. Doing it again changes nothing.
\<close>

theorem remapping_is_exact_and_idempotent:
  assumes "(pullStep guarded)\<^sup>*\<^sup>* emptyPulls db" "RemapAllForPR f git i b h db = (Inr (), db')" "b \<noteq> ''''" "h \<noteq> ''''"
  shows "ReviewComments db' = map (\<lambda>c. if rcPR c = i \<and> \<not> rcPending c then c\<lparr>rcPosition :=
      if sameLine (ReadBlobBytes git (rcCommit c) (rcPath c)) (ReadBlobBytes git (if rcSide c = ''left'' then b else h) (rcPath c)) (rcLine c)
      then Some (rcLine c) else None\<rparr> else c) (ReviewComments db) \<and>
    RemapAllForPR f git i b h db' = (Inr (), db')"
proof -
  let ?ours = "\<lambda>c. rcPR c = i \<and> \<not> rcPending c" and ?g = "\<lambda>c. c\<lparr>rcPosition := remappedPosition git b h c\<rparr>"
  have inj: "distinct (map rcID (ReviewComments db))" using pull_runs.reachable_inv [OF assms(1) emptyPulls_inv(1)] by (simp add: pullInv_def reviewInv_def)
  note d = RemapAllForPR_effect [OF assms(2-4) inj]
  have rows: "ReviewComments db' = updateWhere ?ours ?g (ReviewComments db)" by (simp add: d)
  have ours: "filter ?ours (ReviewComments db') = map ?g (filter ?ours (ReviewComments db))"
  proof -
    have "filter ?ours (updateWhere ?ours ?g cs) = map ?g (filter ?ours cs)" for cs by (induction cs) simp_all
    then show ?thesis by (simp only: rows)
  qed
  have fl: "f ''ListNonDraftCommentsForPositionMap'' = None" "filter ?ours (ReviewComments db) = [] \<or> f ''SetPRReviewCommentCurrentPosition'' = None"
    using assms(2-4) remapRows_ok [of f git b h "filter ?ours (ReviewComments db)" db] by (auto simp: RemapAllForPR_def split: option.split_asm)
  then have "filter ?ours (ReviewComments db') = [] \<or> f ''SetPRReviewCommentCurrentPosition'' = None" using ours by simp
  then obtain db'' where s: "RemapAllForPR f git i b h db' = (Inr (), db'')"
    using remapRows_ok [of f git b h "filter ?ours (ReviewComments db')" db'] fl(1) assms(3,4) by (auto simp: RemapAllForPR_def)
  have "distinct (map rcID (ReviewComments db'))" using inj by (simp add: rows map_updateWhere)
  note d2 = RemapAllForPR_effect [OF s assms(3,4) this]
  have "updateWhere ?ours ?g (ReviewComments db') = ReviewComments db'"
    unfolding rows updateWhere_def by (simp add: remappedPosition_def)
  then have "db'' = db'" using d2 by simp
  moreover have "ReviewComments db' = map (\<lambda>c. if ?ours c then ?g c else c) (ReviewComments db)" by (simp add: rows updateWhere_def)
  ultimately show ?thesis using s by (simp add: remappedPosition_def newPosition_sameLine)
qed


text \<open>A file whose second line changes between the two heads.\<close>

definition editedGit :: GitRepo where
  "editedGit = demoGit\<lparr>ReadBlobBytes := (\<lambda>ref path. if ref = ''h0'' then Some [CHR ''x'', CHR 0x0A, CHR ''y'', CHR 0x0A]
     else if ref = ''h1'' then Some [CHR ''x'', CHR 0x0A, CHR ''z'', CHR 0x0A] else None)\<rparr>"

theorem remapping_is_exact_and_idempotent_witness:
  "\<exists>db db'. (pullStep True)\<^sup>*\<^sup>* emptyPulls db \<and> RemapAllForPR (flt quietEnv) editedGit 1 ''b0'' ''h1'' db = (Inr (), db') \<and>
    map (\<lambda>c. (rcLine c, rcPosition c)) (ReviewComments db') = [(1, Some 1), (2, None)]"
proof -
  let ?c = "\<lambda>n. \<lparr>cmPR = 1, cmAuthor = 4, cmPath = ''a'', cmSide = ''right'', cmCommit = ''h0'', cmLine = n, cmOriginalPosition = 1, cmPosition = 1, cmBody = ''ok'', cmReply = 0, cmPending = False\<rparr>"
  have t: "TrimSpace ''ok'' = ''ok''" by (simp add: TrimSpace_id graphic_def)
  have i: "GetIssueByID 1 demoClean = Some demoRow" "ReviewComments demoClean = []"
    by (simp_all add: GetIssueByID_def demoClean_def demoOpen_def demoCreated_def demoRow_def emptyPulls_def)
  have add: "\<exists>row db1. AddReviewComment quietEnv (?c n) db = (Inr row, db1) \<and> ReviewComments db1 = ReviewComments db @ [row] \<and> GetIssueByID 1 db1 = Some demoRow
      \<and> rcPR row = 1 \<and> \<not> rcPending row \<and> rcLine row = n \<and> rcCommit row = ''h0'' \<and> rcSide row = ''right''"
    if "GetIssueByID 1 db = Some demoRow" "n \<in> {1, 2}" for n and db :: PullTracker
    using that by (auto simp: AddReviewComment_def Let_def t replyParent_def anchored_def alone_def quiet_stmt GetIssueByID_def)
  obtain r1 db1 where one: "AddReviewComment quietEnv (?c 1) demoClean = (Inr r1, db1)" "ReviewComments db1 = [r1]" "GetIssueByID 1 db1 = Some demoRow"
      "rcPR r1 = 1" "\<not> rcPending r1" "rcLine r1 = 1" "rcCommit r1 = ''h0''" "rcSide r1 = ''right''" using add [OF i(1), of 1] i(2) by auto
  obtain r2 db where two: "AddReviewComment quietEnv (?c 2) db1 = (Inr r2, db)" "ReviewComments db = [r1, r2]"
      "rcPR r2 = 1" "\<not> rcPending r2" "rcLine r2 = 2" "rcCommit r2 = ''h0''" "rcSide r2 = ''right''" using add [OF one(3), of 2] one(2) by auto
  have run: "(pullStep True)\<^sup>*\<^sup>* emptyPulls db" using commentAdded [OF one(1)] commentAdded [OF two(1)] demo_clean_run by (meson rtranclp.rtrancl_into_rtrancl)
  obtain db' where r: "RemapAllForPR (flt quietEnv) editedGit 1 ''b0'' ''h1'' db = (Inr (), db')"
    using remapRows_ok [of "flt quietEnv" editedGit "''b0''" "''h1''" "[r1, r2]" db] by (auto simp: RemapAllForPR_def two one quiet_stmt)
  have lines: "sameLine (ReadBlobBytes editedGit ''h0'' p) (ReadBlobBytes editedGit ''h1'' p) 1" "\<not> sameLine (ReadBlobBytes editedGit ''h0'' p) (ReadBlobBytes editedGit ''h1'' p) 2" for p
    by (simp_all add: sameLine_def editedGit_def)
  from remapping_is_exact_and_idempotent [OF run r] show ?thesis using run r by (auto simp: one(4-8) two(2-7) lines)
qed

end
