(* ===== verification/Entitlements.thy ===== *)
theory Entitlements
  imports Prelude "HOL-Library.Word"
begin

text \<open>
  Paid features (\<^verbatim>\<open>src/internal/entitlements\<close>, \<^verbatim>\<open>src/internal/billing/principal.go\<close>): the registry of features and
  the kinds of accounts they apply to, the decision from the billing state with its grace period, limits
  and overrides, the per-request cache, the gate of the handlers and the storage quota. Billing tables are
  fields of a record of answers; features, limits, plans and states are the strings of the code.
\<close>

section \<open>Principals\<close>

record BillingPrincipal =
  bpKind :: string
  bpID :: go_int64

definition PrincipalForOrg :: "go_int64 \<Rightarrow> BillingPrincipal" where
  "PrincipalForOrg i = \<lparr>bpKind = ''org'', bpID = i\<rparr>"

definition PrincipalForUser :: "go_int64 \<Rightarrow> BillingPrincipal" where
  "PrincipalForUser i = \<lparr>bpKind = ''user'', bpID = i\<rparr>"

definition SubjectKindValid :: "string \<Rightarrow> bool" where
  "SubjectKindValid k \<longleftrightarrow> k = ''user'' \<or> k = ''org''"

datatype ent_error =
  ErrPoolRequired | ErrOrgIDRequired | ErrUnknownFeature | ErrUnknownLimit | ErrInvalidPrincipal | ErrInvalidStorageQuotaUse
| EntStore string

definition PrincipalValidate :: "BillingPrincipal \<Rightarrow> ent_error option" where
  "PrincipalValidate p = (if \<not> SubjectKindValid (bpKind p) then Some ErrInvalidPrincipal
     else if bpID p \<le> 0 then Some ErrInvalidPrincipal else None)"

definition IsOrg :: "BillingPrincipal \<Rightarrow> bool" where
  "IsOrg p \<longleftrightarrow> bpKind p = ''org''"

definition IsUser :: "BillingPrincipal \<Rightarrow> bool" where
  "IsUser p \<longleftrightarrow> bpKind p = ''user''"

section \<open>The registry\<close>

definition featureKinds :: "(string \<times> string list) list" where
  "featureKinds =
    [(''secret_teams'', [''org'']),
     (''advanced_branch_protection'', [''user'', ''org'']),
     (''required_reviewers'', [''user'', ''org'']),
     (''actions_org_secrets'', [''org'']),
     (''actions_org_variables'', [''org'']),
     (''private_collaboration_limit'', [''org'']),
     (''storage_quota'', [''org'']),
     (''actions_minutes_quota'', [''org'']),
     (''scheduled_reminders'', [''org'']),
     (''repo_projects'', [''org'']),
     (''repo_wikis'', [''org'']),
     (''repo_insights'', [''org'']),
     (''multiple_assignees'', [''org'']),
     (''security_overview'', [''org'']),
     (''dependency_graph'', [''org'']),
     (''dependency_review'', [''org'']),
     (''dependabot_security_updates'', [''org'']),
     (''dependabot_version_updates'', [''org'']),
     (''dependabot_auto_triage'', [''org'']),
     (''security_advisories'', [''org'']),
     (''sboms'', [''org'']),
     (''artifact_attestations'', [''org'']),
     (''secret_scanning'', [''org'']),
     (''secret_push_protection'', [''org'']),
     (''secret_custom_patterns'', [''org'']),
     (''secret_bypass_controls'', [''org'']),
     (''code_scanning'', [''org'']),
     (''security_campaigns'', [''org'']),
     (''profile_pins_beyond_free'', [''user'']),
     (''codeowners_review'', [''user'', ''org'']),
     (''profile_vanity'', [''user'']),
     (''animated_avatars'', [''user'']),
     (''username_reservations'', [''user'']),
     (''private_repo_templates'', [''user'']),
     (''saved_replies_unlimited'', [''user'']),
     (''scheduled_issues'', [''user'']),
     (''advanced_code_search'', [''user'']),
     (''contribution_privacy'', [''user'']),
     (''secret_scan_history'', [''user'']),
     (''secret_scan_alerts'', [''user'']),
     (''fine_grained_pats'', [''user'']),
     (''user_actions_secrets'', [''user'']),
     (''user_actions_variables'', [''user'']),
     (''webhook_relay'', [''user'']),
     (''cron_workflow_dispatch'', [''user'']),
     (''personal_status_page'', [''user'']),
     (''repo_time_machine'', [''user'']),
     (''inbox_rules'', [''user'']),
     (''inbox_digests'', [''user''])]"

text \<open>A missing key of a Go map reads as the nil slice.\<close>

definition AppliesTo :: "string \<Rightarrow> string list" where
  "AppliesTo feature = (case map_of featureKinds feature of Some ks \<Rightarrow> ks | None \<Rightarrow> [])"

definition FeatureAppliesToKind :: "string \<Rightarrow> string \<Rightarrow> bool" where
  "FeatureAppliesToKind feature kind = list_ex (\<lambda>k. k = kind) (AppliesTo feature)"

definition FeaturesForKind :: "string \<Rightarrow> string list" where
  "FeaturesForKind kind = map fst (filter (\<lambda>(f, kinds). list_ex (\<lambda>k. k = kind) kinds) featureKinds)"

definition KnownFeature :: "string \<Rightarrow> bool" where
  "KnownFeature feature \<longleftrightarrow> map_of featureKinds feature \<noteq> None"

definition requiredPlanForFeature :: "string \<Rightarrow> string \<Rightarrow> string" where
  "requiredPlanForFeature feature kind =
     (if \<not> FeatureAppliesToKind feature kind then '''' else if kind = ''org'' then ''team'' else if kind = ''user'' then ''pro'' else '''')"

section \<open>Decisions\<close>

record BillingState =
  bsPlan :: string
  bsStatus :: string
  bsGrace :: "int option"

record FeatureDecision =
  fdFeature :: string
  fdAllowed :: bool
  fdPlan :: string
  fdReason :: string

definition activeTeamBilling :: "int \<Rightarrow> BillingState \<Rightarrow> bool" where
  "activeTeamBilling now st =
     (if bsPlan st \<noteq> ''team'' then False
      else if bsStatus st = ''active'' \<or> bsStatus st = ''trialing'' then True
      else if bsStatus st = ''past_due'' then (case bsGrace st of Some g \<Rightarrow> \<not> g < now | None \<Rightarrow> False)
      else False)"

definition decideOrgFeature :: "int \<Rightarrow> BillingState \<Rightarrow> string \<Rightarrow> FeatureDecision" where
  "decideOrgFeature now st feature =
     (let d = \<lparr>fdFeature = feature, fdAllowed = False, fdPlan = requiredPlanForFeature feature ''org'', fdReason = ''upgrade_required''\<rparr> in
      if fdPlan d = '''' then d\<lparr>fdReason := ''unknown_feature''\<rparr>
      else if bsPlan st = ''enterprise'' then d\<lparr>fdReason := ''enterprise_contact_sales''\<rparr>
      else if bsPlan st = ''team'' then
        (if activeTeamBilling now st then d\<lparr>fdAllowed := True, fdReason := ''''\<rparr> else d\<lparr>fdReason := ''billing_action_needed''\<rparr>)
      else d)"

definition decideUserFeature :: "int \<Rightarrow> BillingState \<Rightarrow> string \<Rightarrow> FeatureDecision" where
  "decideUserFeature now st feature =
     (let d = \<lparr>fdFeature = feature, fdAllowed = False, fdPlan = requiredPlanForFeature feature ''user'', fdReason = ''upgrade_required''\<rparr> in
      if fdPlan d = '''' then d\<lparr>fdReason := ''unknown_feature''\<rparr>
      else if bsPlan st = ''pro'' then
        (if bsStatus st = ''active'' \<or> bsStatus st = ''trialing'' then d\<lparr>fdAllowed := True, fdReason := ''''\<rparr>
         else if bsStatus st = ''past_due'' then
           (if (case bsGrace st of Some g \<Rightarrow> \<not> g < now | None \<Rightarrow> False) then d\<lparr>fdAllowed := True, fdReason := ''''\<rparr>
            else d\<lparr>fdReason := ''billing_action_needed''\<rparr>)
         else d\<lparr>fdReason := ''billing_action_needed''\<rparr>)
      else d)"

record QuotaOverride =
  qoKind :: string
  qoLimit :: "go_int64 option"
  qoUnlimited :: bool

record EntSet =
  esOrgID :: go_int64
  esPrincipal :: BillingPrincipal
  esState :: BillingState
  esUserState :: BillingState
  esNow :: int
  esOverrides :: "string \<rightharpoonup> QuotaOverride"

definition CanUse :: "EntSet \<Rightarrow> string \<Rightarrow> FeatureDecision" where
  "CanUse s feature = (if bpKind (esPrincipal s) = ''user'' then decideUserFeature (esNow s) (esUserState s) feature
     else decideOrgFeature (esNow s) (esState s) feature)"

definition decisionStatus :: "FeatureDecision \<Rightarrow> nat" where
  "decisionStatus d = (if fdAllowed d then 200 else 402)"

section \<open>Limits\<close>

record LimitValue =
  lvName :: string
  lvFeature :: string
  lvAllowed :: bool
  lvDefined :: bool
  lvUnlimited :: bool
  lvOverridden :: bool
  lvValue :: go_int64
  lvUnit :: string
  lvPlan :: string
  lvReason :: string

definition FreePrivateCollaborationLimit :: go_int64 where "FreePrivateCollaborationLimit = 3"
definition FreeOrgStorageQuotaBytes :: go_int64 where "FreeOrgStorageQuotaBytes = 500 * 1024 * 1024"
definition TeamOrgStorageQuotaBytes :: go_int64 where "TeamOrgStorageQuotaBytes = 2 * 1024 * 1024 * 1024"
definition FreeOrgActionsMinutesQuota :: go_int64 where "FreeOrgActionsMinutesQuota = 2000"
definition TeamOrgActionsMinutesQuota :: go_int64 where "TeamOrgActionsMinutesQuota = 3000"
definition FreeProfilePinsCap :: go_int64 where "FreeProfilePinsCap = 6"
definition ProProfilePinsCap :: go_int64 where "ProProfilePinsCap = 100"

definition limitFeature :: "string \<Rightarrow> (string \<times> string) option" where
  "limitFeature name =
     (if name = ''private_collaboration_limit'' then Some (''private_collaboration_limit'', ''collaborators'')
      else if name = ''storage_quota'' then Some (''storage_quota'', ''bytes'')
      else if name = ''actions_minutes_quota'' then Some (''actions_minutes_quota'', ''minutes'')
      else if name = ''profile_pins_free_cap'' \<or> name = ''profile_pins_pro_cap'' then Some (''profile_pins_beyond_free'', ''pins'')
      else None)"

definition KnownLimit :: "string \<Rightarrow> bool" where
  "KnownLimit name \<longleftrightarrow> limitFeature name \<noteq> None"

definition quotaOverrideForLimit :: "EntSet \<Rightarrow> string \<Rightarrow> QuotaOverride option" where
  "quotaOverrideForLimit s name =
     (if name = ''storage_quota'' then esOverrides s ''storage_bytes''
      else if name = ''actions_minutes_quota'' then esOverrides s ''actions_minutes''
      else None)"

definition usageLimit :: "EntSet \<Rightarrow> string \<Rightarrow> string \<Rightarrow> string \<Rightarrow> LimitValue" where
  "usageLimit s name feature u =
     (let v = \<lparr>lvName = name, lvFeature = feature, lvAllowed = True, lvDefined = True, lvUnlimited = False, lvOverridden = False,
               lvValue = 0, lvUnit = u, lvPlan = ''team'', lvReason = ''''\<rparr> in
      if bsPlan (esState s) = ''enterprise'' then v\<lparr>lvAllowed := False, lvDefined := False, lvReason := ''enterprise_contact_sales''\<rparr>
      else let teamActive = activeTeamBilling (esNow s) (esState s);
               v1 = (if name = ''storage_quota'' then v\<lparr>lvValue := (if teamActive then TeamOrgStorageQuotaBytes else FreeOrgStorageQuotaBytes)\<rparr>
                     else if name = ''actions_minutes_quota'' then v\<lparr>lvValue := (if teamActive then TeamOrgActionsMinutesQuota else FreeOrgActionsMinutesQuota)\<rparr>
                     else v) in
      case quotaOverrideForLimit s name of
        None \<Rightarrow> v1
      | Some ov \<Rightarrow> (if qoUnlimited ov then v1\<lparr>lvOverridden := True, lvUnlimited := True, lvValue := 0\<rparr>
          else (case qoLimit ov of Some n \<Rightarrow> v1\<lparr>lvOverridden := True, lvValue := n\<rparr> | None \<Rightarrow> v1\<lparr>lvOverridden := True\<rparr>)))"

text \<open>\<open>Set.Limit\<close>.\<close>

definition SetLimit :: "EntSet \<Rightarrow> string \<Rightarrow> ent_error + LimitValue" where
  "SetLimit s name = (case limitFeature name of None \<Rightarrow> Inl ErrUnknownLimit | Some (feature, u) \<Rightarrow>
     if IsOrg (esPrincipal s) \<and> (name = ''storage_quota'' \<or> name = ''actions_minutes_quota'') then Inr (usageLimit s name feature u)
     else let d = CanUse s feature;
              v = \<lparr>lvName = name, lvFeature = feature, lvAllowed = fdAllowed d, lvDefined = False, lvUnlimited = False, lvOverridden = False,
                   lvValue = 0, lvUnit = u, lvPlan = fdPlan d, lvReason = fdReason d\<rparr> in
     if name = ''profile_pins_free_cap'' then Inr (v\<lparr>lvDefined := True, lvValue := FreeProfilePinsCap\<rparr>)
     else if name = ''profile_pins_pro_cap'' then Inr (v\<lparr>lvDefined := True, lvValue := ProProfilePinsCap\<rparr>)
     else if name = ''private_collaboration_limit'' then
       Inr (if fdAllowed d then v\<lparr>lvDefined := True, lvUnlimited := True\<rparr> else v\<lparr>lvDefined := True, lvValue := FreePrivateCollaborationLimit\<rparr>)
     else if \<not> fdAllowed d then Inr v
     else if name = ''storage_quota'' \<or> name = ''actions_minutes_quota'' then Inr (usageLimit s name feature u)
     else Inr v)"

section \<open>Loading, with the cache of a request\<close>

record EntDeps =
  entPool :: bool
  entNow :: int
  GetOrgBillingState :: "go_int64 \<Rightarrow> BillingState result"
  ListOrgQuotaOverrides :: "go_int64 \<Rightarrow> QuotaOverride list result"
  GetUserBillingState :: "go_int64 \<Rightarrow> BillingState result"

type_synonym principalCache = "(BillingPrincipal \<rightharpoonup> EntSet) option"

definition ContextWithPrincipalCache :: principalCache where
  "ContextWithPrincipalCache = Some Map.empty"

definition lookupPrincipalCache :: "principalCache \<Rightarrow> BillingPrincipal \<Rightarrow> EntSet option" where
  "lookupPrincipalCache c p = (case c of None \<Rightarrow> None | Some m \<Rightarrow> m p)"

definition storePrincipalCache :: "principalCache \<Rightarrow> BillingPrincipal \<Rightarrow> EntSet \<Rightarrow> principalCache" where
  "storePrincipalCache c p s = map_option (\<lambda>m. m(p \<mapsto> s)) c"

definition zeroState :: BillingState where
  "zeroState = \<lparr>bsPlan = '''', bsStatus = '''', bsGrace = None\<rparr>"

text \<open>\<open>Loader.ForPrincipal\<close>; the guards of the billing package repeat those made here.\<close>

definition LoadPrincipal :: "EntDeps \<Rightarrow> BillingPrincipal \<Rightarrow> ent_error + EntSet" where
  "LoadPrincipal d p =
     (if \<not> entPool d then Inl ErrPoolRequired
      else case PrincipalValidate p of Some e \<Rightarrow> Inl e | None \<Rightarrow>
      if bpKind p = ''org'' then
        (case GetOrgBillingState d (bpID p) of Inl e \<Rightarrow> Inl (EntStore e) | Inr st \<Rightarrow>
         (case ListOrgQuotaOverrides d (bpID p) of Inl e \<Rightarrow> Inl (EntStore e) | Inr ovs \<Rightarrow>
            Inr \<lparr>esOrgID = bpID p, esPrincipal = p, esState = st, esUserState = zeroState, esNow = entNow d,
                 esOverrides = foldl (\<lambda>m ov. m(qoKind ov \<mapsto> ov)) Map.empty ovs\<rparr>))
      else if bpKind p = ''user'' then
        (case GetUserBillingState d (bpID p) of Inl e \<Rightarrow> Inl (EntStore e) | Inr st \<Rightarrow>
            Inr \<lparr>esOrgID = 0, esPrincipal = p, esState = zeroState, esUserState = st, esNow = entNow d, esOverrides = Map.empty\<rparr>)
      else Inl ErrInvalidPrincipal)"

definition ForPrincipal :: "EntDeps \<Rightarrow> principalCache \<Rightarrow> BillingPrincipal \<Rightarrow> (ent_error + EntSet) \<times> principalCache" where
  "ForPrincipal d c p = (case lookupPrincipalCache c p of Some s \<Rightarrow> (Inr s, c) | None \<Rightarrow>
     (case LoadPrincipal d p of Inl e \<Rightarrow> (Inl e, c) | Inr s \<Rightarrow> (Inr s, storePrincipalCache c p s)))"

definition LoaderForOrg :: "EntDeps \<Rightarrow> go_int64 \<Rightarrow> ent_error + EntSet" where
  "LoaderForOrg d i = LoadPrincipal d (PrincipalForOrg i)"

definition CheckPrincipalFeature :: "EntDeps \<Rightarrow> principalCache \<Rightarrow> BillingPrincipal \<Rightarrow> string \<Rightarrow> (ent_error + FeatureDecision) \<times> principalCache" where
  "CheckPrincipalFeature d c p feature =
     (if \<not> KnownFeature feature then (Inl ErrUnknownFeature, c)
      else case ForPrincipal d c p of (Inl e, c') \<Rightarrow> (Inl e, c') | (Inr s, c') \<Rightarrow> (Inr (CanUse s feature), c'))"

definition CheckOrgFeature :: "EntDeps \<Rightarrow> principalCache \<Rightarrow> go_int64 \<Rightarrow> string \<Rightarrow> (ent_error + FeatureDecision) \<times> principalCache" where
  "CheckOrgFeature d c i feature = CheckPrincipalFeature d c (PrincipalForOrg i) feature"

section \<open>The gate of the handlers\<close>

text \<open>\<open>url.PathEscape\<close>.\<close>

definition pathSafe :: "char \<Rightarrow> bool" where
  "pathSafe c \<longleftrightarrow> is_ascii_upper c \<or> is_ascii_lower c \<or> is_ascii_digit c \<or> c \<in> set ''-_.~$&+=:@''"

definition upperHex :: "nat \<Rightarrow> char" where
  "upperHex k = ''0123456789ABCDEF'' ! k"

definition PathEscape :: "string \<Rightarrow> string" where
  "PathEscape s = concat (map (\<lambda>c. if pathSafe c then [c] else [CHR ''%'', upperHex (of_char c div 16), upperHex (of_char c mod 16)]) s)"

record UpgradeBanner =
  ubMessage :: string
  ubActionText :: string
  ubActionHref :: string
  ubStatusCode :: nat

definition BillingPath :: "string \<Rightarrow> string" where
  "BillingPath slug = ''/organizations/'' @ PathEscape slug @ ''/settings/billing''"

definition OrgUpgradeBanner :: "FeatureDecision \<Rightarrow> string \<Rightarrow> string \<Rightarrow> UpgradeBanner" where
  "OrgUpgradeBanner d label slug =
     \<lparr>ubMessage = label @ (if fdReason d = ''billing_action_needed'' then '' are read-only until Team billing is brought back into good standing.''
        else if fdReason d = ''enterprise_contact_sales'' then '' require a supported enterprise plan. Contact sales to continue.''
        else '' require Team billing. Upgrade this organization to continue.''),
      ubActionText = ''Manage billing and plans'', ubActionHref = BillingPath slug, ubStatusCode = decisionStatus d\<rparr>"

definition PrincipalUpgradeBanner :: "FeatureDecision \<Rightarrow> string \<Rightarrow> BillingPrincipal \<Rightarrow> string \<Rightarrow> UpgradeBanner" where
  "PrincipalUpgradeBanner d label p slug =
     (if IsUser p then
        \<lparr>ubMessage = label @ (if fdReason d = ''billing_action_needed'' then '' are read-only until Pro billing is brought back into good standing.''
           else '' require Pro billing. Upgrade this account to continue.''),
         ubActionText = ''Manage billing'', ubActionHref = ''/settings/billing'', ubStatusCode = decisionStatus d\<rparr>
      else OrgUpgradeBanner d label slug)"

record RequireOpts =
  roLabel :: string
  roOrgSlug :: string
  roEnforceForOrg :: bool
  roEnforceForUser :: bool
  roWriteResponse :: bool

definition NewRequireOpts :: "string \<Rightarrow> string \<Rightarrow> RequireOpts" where
  "NewRequireOpts label slug = \<lparr>roLabel = label, roOrgSlug = slug, roEnforceForOrg = True, roEnforceForUser = False, roWriteResponse = True\<rparr>"

record EnforceModeDecision =
  emDecision :: "FeatureDecision option"
  emPrincipal :: BillingPrincipal
  emAllow :: bool
  emWouldDenyButLog :: bool
  emUnknownKindForFeature :: bool

text \<open>
  \<open>RequirePrincipalFeature\<close> with the response it writes, a status and a text, if it does; the decision is
  missing where the code leaves it zero.
\<close>

definition RequirePrincipalFeature ::
  "EntDeps \<Rightarrow> principalCache \<Rightarrow> BillingPrincipal \<Rightarrow> string \<Rightarrow> RequireOpts \<Rightarrow> bool \<times> EnforceModeDecision \<times> (nat \<times> string) option \<times> principalCache" where
  "RequirePrincipalFeature d c p feature opts =
     (let res = \<lparr>emDecision = None, emPrincipal = p, emAllow = False, emWouldDenyButLog = False, emUnknownKindForFeature = False\<rparr> in
      if \<not> FeatureAppliesToKind feature (bpKind p) then (True, res\<lparr>emUnknownKindForFeature := True, emAllow := True\<rparr>, None, c)
      else case CheckPrincipalFeature d c p feature of
        (Inl e, c') \<Rightarrow> (False, res, if roWriteResponse opts then Some (500, ''entitlement check failed'') else None, c')
      | (Inr decision, c') \<Rightarrow>
          let res1 = res\<lparr>emDecision := Some decision\<rparr>;
              enforce = (if bpKind p = ''org'' then roEnforceForOrg opts else if bpKind p = ''user'' then roEnforceForUser opts else False);
              banner = PrincipalUpgradeBanner decision (roLabel opts) p (roOrgSlug opts) in
          if fdAllowed decision then (True, res1\<lparr>emAllow := True\<rparr>, None, c')
          else if \<not> enforce then (True, res1\<lparr>emWouldDenyButLog := True, emAllow := True\<rparr>, None, c')
          else (False, res1, if roWriteResponse opts then Some (ubStatusCode banner, ubMessage banner) else None, c'))"

section \<open>Storage quota\<close>

text \<open>The sum of two \<^verbatim>\<open>int64\<close> values wraps around.\<close>

definition int64_add :: "go_int64 \<Rightarrow> go_int64 \<Rightarrow> go_int64" where
  "int64_add a b = sint (word_of_int (a + b) :: 64 word)"

record OrgStorageQuotaCheck =
  sqAllowed :: bool
  sqUsed :: go_int64
  sqAdditional :: go_int64
  sqWouldUse :: go_int64
  sqLimit :: go_int64
  sqUnlimited :: bool
  sqOverridden :: bool
  sqPlan :: string
  sqReason :: string

definition CheckOrgStorageQuota :: "EntDeps \<Rightarrow> go_int64 \<Rightarrow> go_int64 \<Rightarrow> go_int64 \<Rightarrow> ent_error + OrgStorageQuotaCheck" where
  "CheckOrgStorageQuota d org used extra =
     (if used < 0 \<or> extra < 0 then Inl ErrInvalidStorageQuotaUse
      else case LoaderForOrg d org of Inl e \<Rightarrow> Inl e | Inr s \<Rightarrow>
      case SetLimit s ''storage_quota'' of Inl e \<Rightarrow> Inl e | Inr lim \<Rightarrow>
      let check = \<lparr>sqAllowed = True, sqUsed = used, sqAdditional = extra, sqWouldUse = int64_add used extra, sqLimit = lvValue lim,
                   sqUnlimited = (lvUnlimited lim \<or> \<not> lvDefined lim), sqOverridden = lvOverridden lim, sqPlan = lvPlan lim, sqReason = lvReason lim\<rparr> in
      if \<not> lvAllowed lim \<and> lvReason lim \<noteq> '''' then Inr (check\<lparr>sqAllowed := False, sqUnlimited := False\<rparr>)
      else if sqUnlimited check then Inr check
      else if sqWouldUse check > lvValue lim then Inr (check\<lparr>sqAllowed := False\<rparr>)
      else Inr check)"

definition quotaMessage :: "OrgStorageQuotaCheck \<Rightarrow> string" where
  "quotaMessage c = (if sqAllowed c \<or> sqUnlimited c then ''''
     else ''Organization storage quota exceeded. This change would use '' @ Itoa (sqWouldUse c) @ '' bytes of '' @ Itoa (sqLimit c)
          @ '' bytes. Upgrade to Team or contact support to continue.'')"

text \<open>The error of a check, with its text.\<close>

definition quotaErr :: "OrgStorageQuotaCheck \<Rightarrow> string option" where
  "quotaErr c = (if sqAllowed c then None
     else Some (if quotaMessage c \<noteq> '''' then quotaMessage c else ''entitlements: organization storage quota exceeded''))"

definition quotaStatus :: "OrgStorageQuotaCheck \<Rightarrow> nat" where
  "quotaStatus c = (if sqAllowed c then 200 else 402)"

section \<open>When a feature is open\<close>

text \<open>Good standing: a paid plan that is current, on trial, or past due within its grace period.\<close>

definition goodStanding :: "string \<Rightarrow> int \<Rightarrow> BillingState \<Rightarrow> bool" where
  "goodStanding plan now st \<longleftrightarrow> bsPlan st = plan \<and>
     (bsStatus st = ''active'' \<or> bsStatus st = ''trialing'' \<or> (bsStatus st = ''past_due'' \<and> (\<exists>g. bsGrace st = Some g \<and> now \<le> g)))"

lemma activeTeamBilling_standing: "activeTeamBilling now st \<longleftrightarrow> goodStanding ''team'' now st"
  by (auto simp: activeTeamBilling_def goodStanding_def not_less split: option.split)

lemma decide_allowed:
  "fdAllowed (decideOrgFeature now st f) \<longleftrightarrow> FeatureAppliesToKind f ''org'' \<and> goodStanding ''team'' now st"
  "fdAllowed (decideUserFeature now st f) \<longleftrightarrow> FeatureAppliesToKind f ''user'' \<and> goodStanding ''pro'' now st"
  by (auto simp: decideOrgFeature_def decideUserFeature_def Let_def requiredPlanForFeature_def activeTeamBilling_standing goodStanding_def not_less
      split: option.split)

lemma known_if_applies: "FeatureAppliesToKind f k \<Longrightarrow> KnownFeature f"
  by (auto simp: FeatureAppliesToKind_def KnownFeature_def AppliesTo_def split: option.split_asm)

text \<open>The billing state a decision about a principal rests on.\<close>

definition billingRow :: "EntDeps \<Rightarrow> BillingPrincipal \<Rightarrow> BillingState result" where
  "billingRow d p = (if IsUser p then GetUserBillingState d (bpID p)
     else (case GetOrgBillingState d (bpID p) of Inl e \<Rightarrow> Inl e | Inr st \<Rightarrow>
       (case ListOrgQuotaOverrides d (bpID p) of Inl e \<Rightarrow> Inl e | Inr _ \<Rightarrow> Inr st)))"

definition unlockingPlan :: "BillingPrincipal \<Rightarrow> string" where
  "unlockingPlan p = (if IsUser p then ''pro'' else ''team'')"

lemma LoadPrincipal_ok:
  assumes "entPool d" "SubjectKindValid (bpKind p)" "0 < bpID p"
  shows "case billingRow d p of Inl e \<Rightarrow> LoadPrincipal d p = Inl (EntStore e)
    | Inr st \<Rightarrow> (\<exists>s. LoadPrincipal d p = Inr s \<and> esPrincipal s = p \<and> esNow s = entNow d \<and> (if IsUser p then esUserState s else esState s) = st)"
  using assms by (auto simp: LoadPrincipal_def billingRow_def PrincipalValidate_def SubjectKindValid_def IsUser_def split: sum.split)

lemma CanUse_allowed:
  assumes "esPrincipal s = p" "SubjectKindValid (bpKind p)"
  shows "fdAllowed (CanUse s f) \<longleftrightarrow> FeatureAppliesToKind f (bpKind p) \<and> goodStanding (unlockingPlan p) (esNow s) (if IsUser p then esUserState s else esState s)"
  using assms by (auto simp: CanUse_def decide_allowed IsUser_def unlockingPlan_def SubjectKindValid_def)

text \<open>A request for a feature that does not apply to the kind of account is not looked at any further: it passes.\<close>

lemma inapplicable_feature_passes:
  "\<not> FeatureAppliesToKind feature (bpKind p) \<Longrightarrow> RequirePrincipalFeature d c p feature opts = (ok, res, response, c') \<Longrightarrow> ok \<and> response = None"
  by (auto simp: RequirePrincipalFeature_def Let_def)

text \<open>
  C16. The gate of the handlers. For a feature that applies to its kind of account, and without a cached decision, the
  request of a well-formed principal is stopped exactly when the billing rows cannot be read, or the account is not in good
  standing for the unlocking plan while the gate is enforced for its kind. The answer is 500 in the first case and 402 in the
  second; a past due account passes up to and including the end of its grace period.
\<close>

theorem feature_gate_stops_iff:
  assumes "entPool d" "SubjectKindValid (bpKind p)" "0 < bpID p" "lookupPrincipalCache c p = None"
    and "RequirePrincipalFeature d c p feature opts = (ok, res, response, c')" "FeatureAppliesToKind feature (bpKind p)"
  shows "(ok \<longleftrightarrow> emAllow res) \<and> (\<not> ok \<longleftrightarrow>
      (case billingRow d p of Inl e \<Rightarrow> True
       | Inr st \<Rightarrow> \<not> goodStanding (unlockingPlan p) (entNow d) st \<and> (if IsUser p then roEnforceForUser opts else roEnforceForOrg opts)))
    \<and> map_option fst response = (if ok \<or> \<not> roWriteResponse opts then None else Some (case billingRow d p of Inl _ \<Rightarrow> 500 | Inr _ \<Rightarrow> 402))"
proof -
  note True = assms(6)
  note load = LoadPrincipal_ok [OF assms(1-3)]
  show ?thesis
  proof (cases "billingRow d p")
    case (Inl e)
    then have "LoadPrincipal d p = Inl (EntStore e)" using load by simp
    then show ?thesis using assms(4,5) True Inl known_if_applies [OF True]
      by (auto simp: RequirePrincipalFeature_def CheckPrincipalFeature_def ForPrincipal_def Let_def)
  next
    case (Inr st)
    then obtain s where s: "LoadPrincipal d p = Inr s" "esPrincipal s = p" "esNow s = entNow d" "(if IsUser p then esUserState s else esState s) = st"
      using load by auto
    have "fdAllowed (CanUse s feature) \<longleftrightarrow> goodStanding (unlockingPlan p) (entNow d) st" using CanUse_allowed [OF s(2) assms(2)] True s(3,4) by simp
    moreover have "(if bpKind p = ''org'' then roEnforceForOrg opts else if bpKind p = ''user'' then roEnforceForUser opts else False)
        = (if IsUser p then roEnforceForUser opts else roEnforceForOrg opts)" using assms(2) by (auto simp: IsUser_def SubjectKindValid_def)
    moreover have "ubStatusCode (PrincipalUpgradeBanner dec l p sl) = decisionStatus dec" for dec l sl
      by (simp add: PrincipalUpgradeBanner_def OrgUpgradeBanner_def)
    ultimately show ?thesis using assms(4,5) True Inr known_if_applies [OF True] s(1)
      by (auto simp: RequirePrincipalFeature_def CheckPrincipalFeature_def ForPrincipal_def Let_def decisionStatus_def split: if_split_asm)
  qed
qed

definition demoBilling :: EntDeps where
  "demoBilling = \<lparr>entPool = True, entNow = 100, GetOrgBillingState = \<lambda>i. Inr \<lparr>bsPlan = ''team'', bsStatus = ''past_due'', bsGrace = Some (if i = 1 then 100 else 99)\<rparr>,
     ListOrgQuotaOverrides = \<lambda>_. Inr [], GetUserBillingState = \<lambda>_. Inl ''down''\<rparr>"

theorem feature_gate_stops_iff_witness:
  "fst (RequirePrincipalFeature demoBilling None (PrincipalForOrg 1) ''secret_teams'' (NewRequireOpts ''Secret teams'' ''acme''))
   \<and> \<not> fst (RequirePrincipalFeature demoBilling None (PrincipalForOrg 2) ''secret_teams'' (NewRequireOpts ''Secret teams'' ''acme''))"
proof -
  have a: "FeatureAppliesToKind ''secret_teams'' ''org''" by (simp add: FeatureAppliesToKind_def AppliesTo_def featureKinds_def)
  have g: "fst (RequirePrincipalFeature demoBilling None (PrincipalForOrg i) ''secret_teams'' (NewRequireOpts ''Secret teams'' ''acme'')) \<longleftrightarrow> i = 1" if "0 < i" for i
  proof -
    obtain ok res response c' where r: "RequirePrincipalFeature demoBilling None (PrincipalForOrg i) ''secret_teams'' (NewRequireOpts ''Secret teams'' ''acme'') = (ok, res, response, c')"
      using prod_cases4 by blast
    have "ok \<longleftrightarrow> i = 1"
      using feature_gate_stops_iff [OF _ _ _ _ r] that a
      by (auto simp: demoBilling_def PrincipalForOrg_def SubjectKindValid_def lookupPrincipalCache_def billingRow_def IsUser_def unlockingPlan_def goodStanding_def NewRequireOpts_def split: if_split_asm)
    then show ?thesis using r by simp
  qed
  show ?thesis using g [of 1] g [of 2] by simp
qed

section \<open>What the storage quota admits\<close>

lemma int64_add_exact: "0 \<le> a \<Longrightarrow> 0 \<le> b \<Longrightarrow> a + b < 2 ^ 63 \<Longrightarrow> int64_add a b = a + b"
  unfolding int64_add_def sint_sbintrunc' by (rule signed_take_bit_int_eq_self) simp_all

text \<open>The last override of the kind, if any, replaces the default of the plan; \<open>None\<close> is no limit.\<close>

definition storageOverride :: "QuotaOverride list \<Rightarrow> QuotaOverride option" where
  "storageOverride ovs = find (\<lambda>ov. qoKind ov = ''storage_bytes'') (rev ovs)"

definition storageLimit :: "int \<Rightarrow> BillingState \<Rightarrow> QuotaOverride list \<Rightarrow> go_int64 option" where
  "storageLimit now st ovs = (let plain = (if goodStanding ''team'' now st then TeamOrgStorageQuotaBytes else FreeOrgStorageQuotaBytes) in
     case storageOverride ovs of None \<Rightarrow> Some plain | Some ov \<Rightarrow>
       if qoUnlimited ov then None else Some (case qoLimit ov of Some n \<Rightarrow> n | None \<Rightarrow> plain))"

lemma override_map: "foldl (\<lambda>m ov. m(qoKind ov \<mapsto> ov)) Map.empty ovs k = find (\<lambda>ov. qoKind ov = k) (rev ovs)"
  by (induction ovs rule: rev_induct) auto

lemma storage_limit_value:
  assumes "LoaderForOrg d org = Inr s" "GetOrgBillingState d org = Inr st" "ListOrgQuotaOverrides d org = Inr ovs"
  shows "\<exists>lim. SetLimit s ''storage_quota'' = Inr lim \<and> (if bsPlan st = ''enterprise'' then \<not> lvAllowed lim \<and> lvReason lim \<noteq> ''''
    else lvAllowed lim \<and> lvDefined lim \<and> (case storageLimit (entNow d) st ovs of None \<Rightarrow> lvUnlimited lim | Some l \<Rightarrow> \<not> lvUnlimited lim \<and> lvValue lim = l))"
proof -
  have s: "esState s = st" "esNow s = entNow d" "IsOrg (esPrincipal s)" "esOverrides s k = find (\<lambda>ov. qoKind ov = k) (rev ovs)" for k
    using assms by (auto simp: LoaderForOrg_def LoadPrincipal_def PrincipalForOrg_def IsOrg_def override_map split: if_split_asm option.split_asm)
  have "SetLimit s ''storage_quota'' = Inr (usageLimit s ''storage_quota'' ''storage_quota'' ''bytes'')"
    using s(3) by (simp add: SetLimit_def limitFeature_def)
  then show ?thesis
    by (simp add: usageLimit_def Let_def s(1,2,4) quotaOverrideForLimit_def storageLimit_def storageOverride_def activeTeamBilling_standing split: option.split)
qed

text \<open>
  The storage quota. When the billing rows can be read and the sum of used and added bytes fits in 63 bits,
  the check answers, reports the sum, and lets the change pass exactly when the organization is not an
  enterprise and the sum is within the limit of its plan in good standing or of its latest override.
\<close>

theorem storage_quota_admits_iff_within_limit:
  assumes "entPool d" "0 < org" "GetOrgBillingState d org = Inr st" "ListOrgQuotaOverrides d org = Inr ovs"
    and "0 \<le> used" "0 \<le> extra" "used + extra < 2 ^ 63"
  shows "\<exists>c. CheckOrgStorageQuota d org used extra = Inr c \<and> sqWouldUse c = used + extra \<and> (quotaErr c = None \<longleftrightarrow> sqAllowed c) \<and>
    (sqAllowed c \<longleftrightarrow> bsPlan st \<noteq> ''enterprise'' \<and> (case storageLimit (entNow d) st ovs of None \<Rightarrow> True | Some l \<Rightarrow> used + extra \<le> l))"
proof -
  obtain s where s: "LoaderForOrg d org = Inr s"
    using assms(1-4) by (auto simp: LoaderForOrg_def LoadPrincipal_def PrincipalForOrg_def PrincipalValidate_def SubjectKindValid_def)
  obtain lim where "SetLimit s ''storage_quota'' = Inr lim" "if bsPlan st = ''enterprise'' then \<not> lvAllowed lim \<and> lvReason lim \<noteq> ''''
    else lvAllowed lim \<and> lvDefined lim \<and> (case storageLimit (entNow d) st ovs of None \<Rightarrow> lvUnlimited lim | Some l \<Rightarrow> \<not> lvUnlimited lim \<and> lvValue lim = l)"
    using storage_limit_value [OF s assms(3,4)] by blast
  then show ?thesis using assms(5-7) s int64_add_exact [OF assms(5-7)]
    by (auto simp: CheckOrgStorageQuota_def Let_def quotaErr_def split: if_split_asm option.split_asm)
qed

definition freeBilling :: EntDeps where
  "freeBilling = \<lparr>entPool = True, entNow = 0, GetOrgBillingState = \<lambda>i. Inr \<lparr>bsPlan = ''free'', bsStatus = ''none'', bsGrace = None\<rparr>,
     ListOrgQuotaOverrides = \<lambda>_. Inr [], GetUserBillingState = \<lambda>_. Inl ''down''\<rparr>"

theorem storage_quota_admits_iff_within_limit_witness:
  "\<exists>c. CheckOrgStorageQuota freeBilling 1 (500 * 1024 * 1024) 1 = Inr c \<and> \<not> sqAllowed c"
proof -
  have "\<exists>c. CheckOrgStorageQuota freeBilling 1 (500 * 1024 * 1024) 1 = Inr c \<and> sqWouldUse c = 500 * 1024 * 1024 + 1 \<and> (quotaErr c = None \<longleftrightarrow> sqAllowed c) \<and>
    (sqAllowed c \<longleftrightarrow> bsPlan \<lparr>bsPlan = ''free'', bsStatus = ''none'', bsGrace = None\<rparr> \<noteq> ''enterprise'' \<and>
      (case storageLimit (entNow freeBilling) \<lparr>bsPlan = ''free'', bsStatus = ''none'', bsGrace = None\<rparr> [] of None \<Rightarrow> True | Some l \<Rightarrow> 500 * 1024 * 1024 + 1 \<le> l))"
    by (rule storage_quota_admits_iff_within_limit) (simp_all add: freeBilling_def)
  then show ?thesis by (auto simp: storageLimit_def Let_def storageOverride_def goodStanding_def FreeOrgStorageQuotaBytes_def)
qed

text \<open>Beyond 63 bits the sum wraps to a negative number, and the change passes.\<close>

lemma storage_quota_wraps: "\<exists>c. CheckOrgStorageQuota freeBilling 1 (2 ^ 63 - 1) 1 = Inr c \<and> sqAllowed c \<and> sqWouldUse c = - (2 ^ 63)"
proof -
  have w: "int64_add (2 ^ 63 - 1) 1 = - (2 ^ 63)" by (simp add: int64_add_def)
  show ?thesis
    by (simp add: CheckOrgStorageQuota_def freeBilling_def LoaderForOrg_def LoadPrincipal_def PrincipalForOrg_def PrincipalValidate_def SubjectKindValid_def
        SetLimit_def limitFeature_def IsOrg_def usageLimit_def quotaOverrideForLimit_def activeTeamBilling_def Let_def w [simplified] FreeOrgStorageQuotaBytes_def)
qed

section \<open>The cache of a request\<close>

text \<open>A cache of what was loaded in the same request changes no answer, and stays one.\<close>

definition cacheCoherent :: "EntDeps \<Rightarrow> principalCache \<Rightarrow> bool" where
  "cacheCoherent d c \<longleftrightarrow> (\<forall>p s. lookupPrincipalCache c p = Some s \<longrightarrow> LoadPrincipal d p = Inr s)"

lemma ForPrincipal_coherent:
  assumes "cacheCoherent d c"
  shows "fst (ForPrincipal d c p) = LoadPrincipal d p" "cacheCoherent d (snd (ForPrincipal d c p))"
  using assms by (auto simp: ForPrincipal_def cacheCoherent_def lookupPrincipalCache_def storePrincipalCache_def split: option.split sum.split if_split_asm)

lemma principalCache_fresh: "cacheCoherent d None" "cacheCoherent d ContextWithPrincipalCache"
  by (simp_all add: cacheCoherent_def lookupPrincipalCache_def ContextWithPrincipalCache_def)

lemma CheckPrincipalFeature_coherent:
  assumes "cacheCoherent d c"
  shows "fst (CheckPrincipalFeature d c p f) = fst (CheckPrincipalFeature d None p f)" "cacheCoherent d (snd (CheckPrincipalFeature d c p f))"
  using ForPrincipal_coherent [OF assms, of p] ForPrincipal_coherent [OF principalCache_fresh(1), of d p] assms
  by (cases "LoadPrincipal d p"; auto simp: CheckPrincipalFeature_def split: prod.split)+

end
