(* ===== verification/Organizations.thy ===== *)
theory Organizations
  imports Entitlements GoPath
begin

text \<open>
  Organizations (\<^verbatim>\<open>src/internal/orgs\<close>, \<^verbatim>\<open>src/internal/entitlements/private_collaboration.go\<close>, the visibility switch, deletion and
  restoring of \<^verbatim>\<open>src/internal/repos/lifecycle\<close>, forks and the access page): members, teams, invitations, and the limit on
  collaborators of private repositories.
  The tables are lists of rows; a statement of the database fails as the argument \<open>f\<close> says by its name,
  and a failed transaction leaves the tables alone.
\<close>

section \<open>Tables\<close>

record OrgMember =
  omOrg :: go_int64
  omUser :: go_int64
  omRole :: string

record Team =
  teID :: go_int64
  teOrg :: go_int64
  teSlug :: string
  teDisplayName :: string
  teDescription :: string
  teParent :: "go_int64 option"
  tePrivacy :: string
  teCreatedBy :: go_int64

record TeamMember =
  tmTeam :: go_int64
  tmUser :: go_int64
  tmRole :: string

record TeamGrant =
  tgTeam :: go_int64
  tgRepo :: go_int64
  tgRole :: string

record OrgRepo =
  rpID :: go_int64
  rpOrg :: "go_int64 option"
  rpVisibility :: string
  rpDeleted :: bool

record Collaborator =
  clRepo :: go_int64
  clUser :: go_int64
  clRole :: string

record OrgInvitation =
  ivID :: go_int64
  ivOrg :: go_int64
  ivTargetUser :: "go_int64 option"
  ivTargetEmail :: "string option"
  ivRole :: string
  ivTokenHash :: string
  ivExpiresAt :: int
  ivAccepted :: bool
  ivDeclined :: bool
  ivCanceled :: bool

record OrgRow =
  ogID :: go_int64
  ogSlug :: string
  ogDisplayName :: string
  ogDescription :: string
  ogBillingEmail :: string
  ogCreatedBy :: go_int64

record OrgTables =
  OrgRows :: "OrgRow list"
  NextOrgID :: go_int64
  UserSlugs :: "string list"
  OrgMembers :: "OrgMember list"
  TeamRows :: "Team list"
  NextTeamID :: go_int64
  TeamMemberRows :: "TeamMember list"
  TeamGrants :: "TeamGrant list"
  OrgRepos :: "OrgRepo list"
  Collaborators :: "Collaborator list"
  Invitations :: "OrgInvitation list"
  NextInvitationID :: go_int64
  SeatSyncJobs :: "go_int64 list"

type_synonym orgFaults = "string \<Rightarrow> string option"

section \<open>Collaborators of private repositories\<close>

definition privateRepoIDs :: "go_int64 \<Rightarrow> 'x OrgTables_scheme \<Rightarrow> go_int64 list" where
  "privateRepoIDs org db = map rpID (filter (\<lambda>r. rpOrg r = Some org \<and> rpVisibility r = ''private'' \<and> \<not> rpDeleted r) (OrgRepos db))"

definition ownerIDs :: "go_int64 \<Rightarrow> 'x OrgTables_scheme \<Rightarrow> go_int64 list" where
  "ownerIDs org db = map omUser (filter (\<lambda>m. omOrg m = org \<and> omRole m = ''owner'') (OrgMembers db))"

definition collaboratorIDs :: "go_int64 list \<Rightarrow> 'x OrgTables_scheme \<Rightarrow> go_int64 list" where
  "collaboratorIDs repos db = map clUser (filter (\<lambda>c. clRepo c \<in> set repos) (Collaborators db))"

definition grantingTeams :: "go_int64 \<Rightarrow> go_int64 list \<Rightarrow> 'x OrgTables_scheme \<Rightarrow> go_int64 list" where
  "grantingTeams org repos db =
     map teID (filter (\<lambda>t. teOrg t = org \<and> list_ex (\<lambda>g. tgTeam g = teID t \<and> tgRepo g \<in> set repos) (TeamGrants db)) (TeamRows db))"

text \<open>Members of a granting team or of a child of one.\<close>

definition grantedMemberIDs :: "go_int64 \<Rightarrow> go_int64 list \<Rightarrow> 'x OrgTables_scheme \<Rightarrow> go_int64 list" where
  "grantedMemberIDs org granting db =
     map tmUser (filter (\<lambda>m. list_ex (\<lambda>t. teID t = tmTeam m \<and> teOrg t = org \<and>
        (teID t \<in> set granting \<or> (case teParent t of Some p \<Rightarrow> p \<in> set granting | None \<Rightarrow> False))) (TeamRows db)) (TeamMemberRows db))"

definition privateCollaborators :: "go_int64 \<Rightarrow> 'x OrgTables_scheme \<Rightarrow> go_int64 list" where
  "privateCollaborators org db = (let repos = privateRepoIDs org db in
     remdups ((if repos = [] then [] else ownerIDs org db) @ collaboratorIDs repos db @ grantedMemberIDs org (grantingTeams org repos db) db))"

text \<open>\<open>queryIDSet\<close>: a failing query, or the distinct ids.\<close>

definition queryIDSet :: "orgFaults \<Rightarrow> string \<Rightarrow> go_int64 list \<Rightarrow> ent_error + go_int64 list" where
  "queryIDSet f name ids = (case f name of Some e \<Rightarrow> Inl (EntStore e) | None \<Rightarrow> Inr (remdups ids))"

definition currentPrivateCollaboratorIDs :: "orgFaults \<Rightarrow> go_int64 \<Rightarrow> 'x OrgTables_scheme \<Rightarrow> ent_error + go_int64 list" where
  "currentPrivateCollaboratorIDs f org db = queryIDSet f ''currentPrivateCollaboratorIDs'' (privateCollaborators org db)"

definition repoPrivateCollaboratorCandidateIDs :: "orgFaults \<Rightarrow> go_int64 \<Rightarrow> go_int64 \<Rightarrow> 'x OrgTables_scheme \<Rightarrow> ent_error + go_int64 list" where
  "repoPrivateCollaboratorCandidateIDs f org repo db = queryIDSet f ''repoPrivateCollaboratorCandidateIDs''
     (ownerIDs org db @ collaboratorIDs [repo] db @ grantedMemberIDs org (grantingTeams org [repo] db) db)"

text \<open>Members of a team and of its children, whatever their organization.\<close>

definition teamAndChildMembers :: "go_int64 \<Rightarrow> 'x OrgTables_scheme \<Rightarrow> go_int64 list" where
  "teamAndChildMembers team db = (if \<not> list_ex (\<lambda>t. teID t = team) (TeamRows db) then [] else
     map tmUser (filter (\<lambda>m. list_ex (\<lambda>t. teID t = tmTeam m \<and> (teID t = team \<or> teParent t = Some team)) (TeamRows db)) (TeamMemberRows db)))"

definition teamGrantCandidateIDs :: "orgFaults \<Rightarrow> go_int64 \<Rightarrow> 'x OrgTables_scheme \<Rightarrow> ent_error + go_int64 list" where
  "teamGrantCandidateIDs f team db = queryIDSet f ''teamGrantCandidateIDs'' (teamAndChildMembers team db)"

definition orgOwnerIDs :: "orgFaults \<Rightarrow> go_int64 \<Rightarrow> 'x OrgTables_scheme \<Rightarrow> ent_error + go_int64 list" where
  "orgOwnerIDs f org db = queryIDSet f ''orgOwnerIDs'' (ownerIDs org db)"

definition orgHasPrivateRepos :: "EntDeps \<Rightarrow> orgFaults \<Rightarrow> go_int64 \<Rightarrow> 'x OrgTables_scheme \<Rightarrow> ent_error + bool" where
  "orgHasPrivateRepos d f org db = (if \<not> entPool d then Inl ErrPoolRequired
     else case f ''orgHasPrivateRepos'' of Some e \<Rightarrow> Inl (EntStore e) | None \<Rightarrow> Inr (privateRepoIDs org db \<noteq> []))"

text \<open>The organization of a repository, 0 for none, and whether it is private.\<close>

definition orgRepoPrivateState :: "EntDeps \<Rightarrow> orgFaults \<Rightarrow> go_int64 \<Rightarrow> 'x OrgTables_scheme \<Rightarrow> ent_error + go_int64 \<times> bool" where
  "orgRepoPrivateState d f repo db = (if \<not> entPool d then Inl ErrPoolRequired
     else case f ''orgRepoPrivateState'' of Some e \<Rightarrow> Inl (EntStore e) | None \<Rightarrow>
     (case find (\<lambda>r. rpID r = repo \<and> \<not> rpDeleted r) (OrgRepos db) of None \<Rightarrow> Inr (0, False)
      | Some r \<Rightarrow> Inr (case rpOrg r of None \<Rightarrow> 0 | Some org \<Rightarrow> org, rpVisibility r = ''private'')))"

definition teamPrivateRepoAccessState :: "EntDeps \<Rightarrow> orgFaults \<Rightarrow> go_int64 \<Rightarrow> 'x OrgTables_scheme \<Rightarrow> ent_error + go_int64 \<times> bool" where
  "teamPrivateRepoAccessState d f team db = (if \<not> entPool d then Inl ErrPoolRequired
     else case f ''teamPrivateRepoAccessState'' of Some e \<Rightarrow> Inl (EntStore e) | None \<Rightarrow>
     (case find (\<lambda>t. teID t = team) (TeamRows db) of None \<Rightarrow> Inr (0, False)
      | Some t \<Rightarrow> Inr (teOrg t, list_ex (\<lambda>g. tgRepo g \<in> set (privateRepoIDs (teOrg t) db) \<and> (tgTeam g = teID t \<or> Some (tgTeam g) = teParent t)) (TeamGrants db))))"

record PrivateCollaborationUsage =
  pcuOrgID :: go_int64
  pcuCount :: go_int64
  pcuLimit :: go_int64
  pcuUnlimited :: bool
  pcuPlan :: string
  pcuReason :: string

record PrivateCollaborationCheck =
  pccAllowed :: bool
  pccUsage :: "PrivateCollaborationUsage option"
  pccAdded :: go_int64
  pccWouldUse :: go_int64

definition privateCollaborationUsageWithIDs ::
  "EntDeps \<Rightarrow> orgFaults \<Rightarrow> go_int64 \<Rightarrow> 'x OrgTables_scheme \<Rightarrow> ent_error + PrivateCollaborationUsage \<times> go_int64 list" where
  "privateCollaborationUsageWithIDs d f org db =
     (if \<not> entPool d then Inl ErrPoolRequired else if org = 0 then Inl ErrOrgIDRequired
      else case LoaderForOrg d org of Inl e \<Rightarrow> Inl e | Inr s \<Rightarrow>
      case SetLimit s ''private_collaboration_limit'' of Inl e \<Rightarrow> Inl e | Inr lim \<Rightarrow>
      case currentPrivateCollaboratorIDs f org db of Inl e \<Rightarrow> Inl e | Inr ids \<Rightarrow>
      Inr (\<lparr>pcuOrgID = org, pcuCount = int (length ids), pcuLimit = lvValue lim, pcuUnlimited = lvUnlimited lim, pcuPlan = lvPlan lim, pcuReason = lvReason lim\<rparr>, ids))"

definition usageCheck :: "PrivateCollaborationUsage \<Rightarrow> PrivateCollaborationCheck" where
  "usageCheck u = \<lparr>pccAllowed = True, pccUsage = Some u, pccAdded = 0, pccWouldUse = pcuCount u\<rparr>"

text \<open>The candidates that are new, each once.\<close>

fun newCandidates :: "go_int64 list \<Rightarrow> go_int64 set \<Rightarrow> go_int64" where
  "newCandidates [] current = 0"
| "newCandidates (u # us) current = (if u = 0 then newCandidates us current
     else if u \<in> current then newCandidates us current
     else 1 + newCandidates us (insert u current))"

definition CheckPrivateCollaborationExpansion ::
  "EntDeps \<Rightarrow> orgFaults \<Rightarrow> go_int64 \<Rightarrow> go_int64 list \<Rightarrow> go_int64 \<Rightarrow> 'x OrgTables_scheme \<Rightarrow> ent_error + PrivateCollaborationCheck" where
  "CheckPrivateCollaborationExpansion d f org users anonymous db =
     (case privateCollaborationUsageWithIDs d f org db of Inl e \<Rightarrow> Inl e | Inr (u, current) \<Rightarrow>
      let check = usageCheck u in
      if pcuUnlimited u then Inr check
      else let added = (if anonymous < 0 then 0 else anonymous) + newCandidates users (set current);
               check1 = check\<lparr>pccAdded := added, pccWouldUse := pcuCount u + added\<rparr> in
      if added = 0 then Inr check1
      else if pccWouldUse check1 > pcuLimit u then Inr (check1\<lparr>pccAllowed := False\<rparr>)
      else Inr check1)"

definition CheckPrivateRepositoryCreation :: "EntDeps \<Rightarrow> orgFaults \<Rightarrow> go_int64 \<Rightarrow> 'x OrgTables_scheme \<Rightarrow> ent_error + PrivateCollaborationCheck" where
  "CheckPrivateRepositoryCreation d f org db =
     (case privateCollaborationUsageWithIDs d f org db of Inl e \<Rightarrow> Inl e | Inr (u, _) \<Rightarrow>
      if pcuUnlimited u then Inr (usageCheck u)
      else if pcuCount u > pcuLimit u then Inr ((usageCheck u)\<lparr>pccAllowed := False\<rparr>)
      else if pcuCount u > 0 then Inr (usageCheck u)
      else case orgOwnerIDs f org db of Inl e \<Rightarrow> Inl e | Inr owners \<Rightarrow> CheckPrivateCollaborationExpansion d f org owners 0 db)"

definition CheckRepoPrivateVisibility :: "EntDeps \<Rightarrow> orgFaults \<Rightarrow> go_int64 \<Rightarrow> go_int64 \<Rightarrow> 'x OrgTables_scheme \<Rightarrow> ent_error + PrivateCollaborationCheck" where
  "CheckRepoPrivateVisibility d f org repo db =
     (case privateCollaborationUsageWithIDs d f org db of Inl e \<Rightarrow> Inl e | Inr (u, _) \<Rightarrow>
      if \<not> pcuUnlimited u \<and> pcuCount u > pcuLimit u then Inr ((usageCheck u)\<lparr>pccAllowed := False\<rparr>)
      else case repoPrivateCollaboratorCandidateIDs f org repo db of Inl e \<Rightarrow> Inl e | Inr us \<Rightarrow> CheckPrivateCollaborationExpansion d f org us 0 db)"

definition allowedPrivateCollaborationCheck :: "EntDeps \<Rightarrow> orgFaults \<Rightarrow> go_int64 \<Rightarrow> 'x OrgTables_scheme \<Rightarrow> ent_error + PrivateCollaborationCheck" where
  "allowedPrivateCollaborationCheck d f org db =
     (if org = 0 then Inr \<lparr>pccAllowed = True, pccUsage = None, pccAdded = 0, pccWouldUse = 0\<rparr>
      else case privateCollaborationUsageWithIDs d f org db of Inl e \<Rightarrow> Inl e | Inr (u, _) \<Rightarrow> Inr (usageCheck u))"

definition CheckOrgOwnerPrivateCollaboration :: "EntDeps \<Rightarrow> orgFaults \<Rightarrow> go_int64 \<Rightarrow> go_int64 \<Rightarrow> 'x OrgTables_scheme \<Rightarrow> ent_error + PrivateCollaborationCheck" where
  "CheckOrgOwnerPrivateCollaboration d f org user db =
     (case orgHasPrivateRepos d f org db of Inl e \<Rightarrow> Inl e | Inr hasPrivate \<Rightarrow>
      if \<not> hasPrivate then allowedPrivateCollaborationCheck d f org db
      else CheckPrivateCollaborationExpansion d f org [user] 0 db)"

definition CheckPrivateInvitationSlot :: "EntDeps \<Rightarrow> orgFaults \<Rightarrow> go_int64 \<Rightarrow> 'x OrgTables_scheme \<Rightarrow> ent_error + PrivateCollaborationCheck" where
  "CheckPrivateInvitationSlot d f org db =
     (case orgHasPrivateRepos d f org db of Inl e \<Rightarrow> Inl e | Inr hasPrivate \<Rightarrow>
      if \<not> hasPrivate then allowedPrivateCollaborationCheck d f org db
      else CheckPrivateCollaborationExpansion d f org [] 1 db)"

definition CheckDirectPrivateCollaborator :: "EntDeps \<Rightarrow> orgFaults \<Rightarrow> go_int64 \<Rightarrow> go_int64 \<Rightarrow> 'x OrgTables_scheme \<Rightarrow> ent_error + PrivateCollaborationCheck" where
  "CheckDirectPrivateCollaborator d f repo user db =
     (case orgRepoPrivateState d f repo db of Inl e \<Rightarrow> Inl e | Inr (org, isPrivate) \<Rightarrow>
      if org = 0 \<or> \<not> isPrivate then allowedPrivateCollaborationCheck d f org db
      else CheckPrivateCollaborationExpansion d f org [user] 0 db)"

definition CheckTeamMemberPrivateCollaboration :: "EntDeps \<Rightarrow> orgFaults \<Rightarrow> go_int64 \<Rightarrow> go_int64 \<Rightarrow> 'x OrgTables_scheme \<Rightarrow> ent_error + PrivateCollaborationCheck" where
  "CheckTeamMemberPrivateCollaboration d f team user db =
     (case teamPrivateRepoAccessState d f team db of Inl e \<Rightarrow> Inl e | Inr (org, hasAccess) \<Rightarrow>
      if \<not> hasAccess then allowedPrivateCollaborationCheck d f org db
      else CheckPrivateCollaborationExpansion d f org [user] 0 db)"

definition CheckTeamPrivateRepoGrant :: "EntDeps \<Rightarrow> orgFaults \<Rightarrow> go_int64 \<Rightarrow> go_int64 \<Rightarrow> 'x OrgTables_scheme \<Rightarrow> ent_error + PrivateCollaborationCheck" where
  "CheckTeamPrivateRepoGrant d f team repo db =
     (case orgRepoPrivateState d f repo db of Inl e \<Rightarrow> Inl e | Inr (org, isPrivate) \<Rightarrow>
      if org = 0 \<or> \<not> isPrivate then allowedPrivateCollaborationCheck d f org db
      else case teamGrantCandidateIDs f team db of Inl e \<Rightarrow> Inl e | Inr us \<Rightarrow> CheckPrivateCollaborationExpansion d f org us 0 db)"

section \<open>Members\<close>

datatype org_error =
  ErrEmptySlug | ErrSlugTooLong | ErrSlugInvalid | ErrSlugReserved | ErrSlugTaken | ErrCreatorRequired
| ErrUserNotFound | ErrNotAMember | ErrAlreadyMember | ErrLastOwner
| ErrInvitationNotFound | ErrInvitationExpired | ErrInvitationConsumed | ErrInvitationDuplicate | ErrInvalidInvitationKind | ErrUnauthorizedAcceptor | ErrInviteParams
| ErrTeamNotFound | ErrTeamSlugInvalid | ErrTeamSlugTaken | ErrTeamNestingTooDeep | ErrTeamSelfParent | ErrTeamCrossOrgParent | ErrTeamMissingActor
| ErrAlreadyDeleted | ErrNotDeleted | ErrPastGrace | ErrNameTaken
| ErrNotLoggedIn | ErrSourceNotFound | ErrSourceDeleted | ErrSourceArchived | ErrSourcePaused | ErrForkOwnerKind | ErrSelfForkSameName | ErrVisibilityFloor | ErrForkDescription | ErrTargetNameTaken
| ErrTeamRoleInvalid | ErrTeamRepoRoleInvalid | ErrInvalidRole string | ErrInvalidPrivacy string | ErrInvalidVisibility | ErrFormFields | ErrOwnerHasAccess
| CollaborationLimit PrivateCollaborationCheck | EntErr ent_error | OrgStore string string

text \<open>The first of some statements that fails, by itself or by a violated constraint.\<close>

fun failing :: "orgFaults \<Rightarrow> (string \<times> bool) list \<Rightarrow> org_error option" where
  "failing f [] = None"
| "failing f ((n, ok) # ns) = (case f n of Some e \<Rightarrow> Some (OrgStore n e) | None \<Rightarrow> if ok then failing f ns else Some (OrgStore n ''constraint''))"

text \<open>A change of the tables that takes effect if none of its statements fails.\<close>

definition commits :: "orgFaults \<Rightarrow> (string \<times> bool) list \<Rightarrow> 's \<Rightarrow> 's \<Rightarrow> (org_error + unit) \<times> 's" where
  "commits f ns db' db = (case failing f ns of Some e \<Rightarrow> (Inl e, db) | None \<Rightarrow> (Inr (), db'))"

text \<open>The rows that foreign keys refer to.\<close>

definition orgExists :: "go_int64 \<Rightarrow> 'x OrgTables_scheme \<Rightarrow> bool" where
  "orgExists org db = list_ex (\<lambda>o'. ogID o' = org) (OrgRows db)"

definition teamExists :: "go_int64 \<Rightarrow> 'x OrgTables_scheme \<Rightarrow> bool" where
  "teamExists team db = list_ex (\<lambda>t. teID t = team) (TeamRows db)"

definition repoExists :: "go_int64 \<Rightarrow> 'x OrgTables_scheme \<Rightarrow> bool" where
  "repoExists repo db = list_ex (\<lambda>r. rpID r = repo) (OrgRepos db)"

text \<open>\<open>check.Err()\<close> and the error of the check itself.\<close>

definition refusal :: "ent_error + PrivateCollaborationCheck \<Rightarrow> org_error option" where
  "refusal r = (case r of Inl e \<Rightarrow> Some (EntErr e) | Inr c \<Rightarrow> if pccAllowed c then None else Some (CollaborationLimit c))"

definition parseRole :: "string \<Rightarrow> org_error + string" where
  "parseRole s = (if s = ''owner'' \<or> s = ''member'' then Inr s else Inl (ErrInvalidRole s))"

definition GetOrgMember :: "go_int64 \<Rightarrow> go_int64 \<Rightarrow> 'x OrgTables_scheme \<Rightarrow> OrgMember option" where
  "GetOrgMember org user db = find (\<lambda>m. omOrg m = org \<and> omUser m = user) (OrgMembers db)"

text \<open>\<^verbatim>\<open>INSERT ... ON CONFLICT DO NOTHING\<close>.\<close>

definition AddOrgMember :: "go_int64 \<Rightarrow> go_int64 \<Rightarrow> string \<Rightarrow> 'x OrgTables_scheme \<Rightarrow> 'x OrgTables_scheme" where
  "AddOrgMember org user role db = (if GetOrgMember org user db \<noteq> None then db
     else db\<lparr>OrgMembers := OrgMembers db @ [\<lparr>omOrg = org, omUser = user, omRole = role\<rparr>]\<rparr>)"

definition seatSync :: "go_int64 \<Rightarrow> 'x OrgTables_scheme \<Rightarrow> 'x OrgTables_scheme" where
  "seatSync org db = db\<lparr>SeatSyncJobs := SeatSyncJobs db @ [org]\<rparr>"

definition CountOrgOwners :: "go_int64 \<Rightarrow> 'x OrgTables_scheme \<Rightarrow> nat" where
  "CountOrgOwners org db = length (ownerIDs org db)"

definition AddMember :: "EntDeps \<Rightarrow> orgFaults \<Rightarrow> go_int64 \<Rightarrow> go_int64 \<Rightarrow> string \<Rightarrow> 'x OrgTables_scheme \<Rightarrow> (org_error + unit) \<times> 'x OrgTables_scheme" where
  "AddMember d f org user role db =
     (case parseRole (if role = '''' then ''member'' else role) of Inl e \<Rightarrow> (Inl e, db) | Inr r \<Rightarrow>
      case (if r = ''owner'' then refusal (CheckOrgOwnerPrivateCollaboration d f org user db) else None) of Some e \<Rightarrow> (Inl e, db) | None \<Rightarrow>
      commits f [(''Begin'', True), (''AddOrgMember'', orgExists org db), (''EnqueueSeatSync'', True), (''Commit'', True)] (seatSync org (AddOrgMember org user r db)) db)"

text \<open>
  The checks of \<open>ChangeRole\<close> and its write are statements of their own, without a transaction. \<open>ChangeRole\<close> is a call that
  no other one overlaps: its write finds the rows that its checks saw.
\<close>

definition roleChecks :: "EntDeps \<Rightarrow> orgFaults \<Rightarrow> go_int64 \<Rightarrow> go_int64 \<Rightarrow> string \<Rightarrow> 'x OrgTables_scheme \<Rightarrow> org_error + string" where
  "roleChecks d f org user role db =
     (case parseRole role of Inl e \<Rightarrow> Inl e | Inr r \<Rightarrow>
      case failing f [(''GetOrgMember'', True)] of Some e \<Rightarrow> Inl e | None \<Rightarrow>
      case GetOrgMember org user db of None \<Rightarrow> Inl ErrNotAMember | Some current \<Rightarrow>
      case (if omRole current = ''owner'' \<and> r \<noteq> ''owner''
            then (case failing f [(''CountOrgOwners'', True)] of Some e \<Rightarrow> Some e | None \<Rightarrow> if CountOrgOwners org db \<le> 1 then Some ErrLastOwner else None)
            else None) of Some e \<Rightarrow> Inl e | None \<Rightarrow>
      case (if omRole current \<noteq> ''owner'' \<and> r = ''owner'' then refusal (CheckOrgOwnerPrivateCollaboration d f org user db) else None) of Some e \<Rightarrow> Inl e | None \<Rightarrow>
      Inr r)"

definition ChangeOrgMemberRole :: "go_int64 \<Rightarrow> go_int64 \<Rightarrow> string \<Rightarrow> 'x OrgTables_scheme \<Rightarrow> 'x OrgTables_scheme" where
  "ChangeOrgMemberRole org user r db = db\<lparr>OrgMembers := map (\<lambda>m. if omOrg m = org \<and> omUser m = user then m\<lparr>omRole := r\<rparr> else m) (OrgMembers db)\<rparr>"

definition ChangeRole :: "EntDeps \<Rightarrow> orgFaults \<Rightarrow> go_int64 \<Rightarrow> go_int64 \<Rightarrow> string \<Rightarrow> 'x OrgTables_scheme \<Rightarrow> (org_error + unit) \<times> 'x OrgTables_scheme" where
  "ChangeRole d f org user role db =
     (case roleChecks d f org user role db of Inl e \<Rightarrow> (Inl e, db)
      | Inr r \<Rightarrow> commits f [(''ChangeOrgMemberRole'', True)] (ChangeOrgMemberRole org user r db) db)"

text \<open>\<open>RemoveMember\<close> runs in a transaction, but without a lock on the owners it has counted; it, too, is a call that no other overlaps.\<close>

definition RemoveMember :: "orgFaults \<Rightarrow> go_int64 \<Rightarrow> go_int64 \<Rightarrow> 'x OrgTables_scheme \<Rightarrow> (org_error + unit) \<times> 'x OrgTables_scheme" where
  "RemoveMember f org user db =
     (case failing f [(''Begin'', True), (''GetOrgMember'', True)] of Some e \<Rightarrow> (Inl e, db) | None \<Rightarrow>
      case GetOrgMember org user db of None \<Rightarrow> (Inl ErrNotAMember, db) | Some current \<Rightarrow>
      case (if omRole current = ''owner''
            then (case failing f [(''CountOrgOwners'', True)] of Some e \<Rightarrow> Some e | None \<Rightarrow> if CountOrgOwners org db \<le> 1 then Some ErrLastOwner else None)
            else None) of Some e \<Rightarrow> (Inl e, db) | None \<Rightarrow>
      commits f [(''RemoveOrgMember'', True), (''EnqueueSeatSync'', True), (''Commit'', True)]
        (seatSync org (db\<lparr>OrgMembers := filter (\<lambda>m. \<not> (omOrg m = org \<and> omUser m = user)) (OrgMembers db)\<rparr>)) db)"

definition IsMember :: "orgFaults \<Rightarrow> go_int64 \<Rightarrow> go_int64 \<Rightarrow> 'x OrgTables_scheme \<Rightarrow> org_error + bool" where
  "IsMember f org user db = (case failing f [(''GetOrgMember'', True)] of Some e \<Rightarrow> Inl e | None \<Rightarrow> Inr (GetOrgMember org user db \<noteq> None))"

definition IsOwner :: "orgFaults \<Rightarrow> go_int64 \<Rightarrow> go_int64 \<Rightarrow> 'x OrgTables_scheme \<Rightarrow> org_error + bool" where
  "IsOwner f org user db = (case failing f [(''GetOrgMember'', True)] of Some e \<Rightarrow> Inl e
     | None \<Rightarrow> Inr (case GetOrgMember org user db of None \<Rightarrow> False | Some m \<Rightarrow> omRole m = ''owner''))"

section \<open>Creating an organization\<close>

definition slugAlnum :: "char \<Rightarrow> bool" where
  "slugAlnum c \<longleftrightarrow> is_ascii_lower c \<or> is_ascii_digit c"

definition reservedNames :: "string list" where
  "reservedNames =
    [''static'', ''healthz'', ''readyz'', ''metrics'', ''signup'', ''login'', ''logout'', ''password'', ''verify-email'',
     ''internal'', ''settings'', ''api'', ''admin'', ''new'', ''explore'', ''trending'', ''marketplace'', ''issues'', ''pulls'',
     ''notifications'', ''watching'', ''stars'', ''orgs'', ''organizations'', ''search'', ''about'', ''contact'', ''pricing'',
     ''site'', ''help'', ''docs'', ''blog'', ''security'', ''status'', ''terms'', ''privacy'', ''cookies'', ''oauth'',
     ''sessions'', ''saml'', ''sso'', ''webauthn'', ''two-factor'', ''recovery'', ''avatar'', ''avatars'', ''raw'', ''media'',
     ''assets'', ''favicon.ico'', ''robots.txt'', ''sitemap.xml'', ''git'', ''ssh'', ''public'', ''private'', ''keys'',
     ''tokens'', ''shithub'', ''shithubd'', ''shithubbot'', ''threads'', ''invitations'']"

definition IsReserved :: "(nat \<Rightarrow> nat) \<Rightarrow> string \<Rightarrow> bool" where
  "IsReserved tbl name \<longleftrightarrow> ToLower tbl name \<in> set reservedNames"

text \<open>\<open>slugRE\<close>.\<close>

definition slugRE :: "string \<Rightarrow> bool" where
  "slugRE s \<longleftrightarrow> s \<noteq> [] \<and> length s \<le> 39 \<and> slugAlnum (hd s) \<and> slugAlnum (last s) \<and> list_all (\<lambda>c. slugAlnum c \<or> c = CHR ''-'') s"

record CreateOrgParams =
  coSlug :: string
  coDisplayName :: string
  coDescription :: string
  coBillingEmail :: string
  coCreatedBy :: go_int64

definition newOrg :: "(nat \<Rightarrow> nat) \<Rightarrow> CreateOrgParams \<Rightarrow> go_int64 \<Rightarrow> OrgRow" where
  "newOrg tbl p i = (let slug = ToLower tbl (TrimSpace (coSlug p)); display = TrimSpace (coDisplayName p) in
     \<lparr>ogID = i, ogSlug = slug, ogDisplayName = (if display = Nil then slug else display),
      ogDescription = TrimSpace (coDescription p), ogBillingEmail = TrimSpace (coBillingEmail p), ogCreatedBy = coCreatedBy p\<rparr>)"

text \<open>A slug is taken when an organization or a user has it: both live in the table of principals.\<close>

definition CreateOrg :: "(nat \<Rightarrow> nat) \<Rightarrow> orgFaults \<Rightarrow> CreateOrgParams \<Rightarrow> 'x OrgTables_scheme \<Rightarrow> (org_error + OrgRow) \<times> 'x OrgTables_scheme" where
  "CreateOrg tbl f p db =
     (let slug = ToLower tbl (TrimSpace (coSlug p)) in
      if slug = Nil then (Inl ErrEmptySlug, db)
      else if length slug > 39 then (Inl ErrSlugTooLong, db)
      else if \<not> slugRE slug then (Inl ErrSlugInvalid, db)
      else if IsReserved tbl slug then (Inl ErrSlugReserved, db)
      else if coCreatedBy p = 0 then (Inl ErrCreatorRequired, db)
      else case failing f [(''Begin'', True), (''CreateOrg'', True)] of Some e \<Rightarrow> (Inl e, db) | None \<Rightarrow>
      if slug \<in> set (UserSlugs db) \<or> list_ex (\<lambda>r. ogSlug r = slug) (OrgRows db) then (Inl ErrSlugTaken, db)
      else let row = newOrg tbl p (NextOrgID db)
           in case commits f [(''AddOrgMember'', True), (''EnqueueSeatSync'', True), (''Commit'', True)]
                (seatSync (ogID row) (AddOrgMember (ogID row) (coCreatedBy p) ''owner'' (db\<lparr>OrgRows := OrgRows db @ [row], NextOrgID := NextOrgID db + 1\<rparr>))) db of
              (Inl e, db') \<Rightarrow> (Inl e, db') | (Inr _, db') \<Rightarrow> (Inr row, db'))"

section \<open>Teams\<close>

text \<open>\<open>teamSlugRE\<close>.\<close>

definition teamSlugRE :: "string \<Rightarrow> bool" where
  "teamSlugRE s \<longleftrightarrow> s \<noteq> [] \<and> length s \<le> 50 \<and> slugAlnum (hd s) \<and> slugAlnum (last s) \<and>
     list_all (\<lambda>c. slugAlnum c \<or> c = CHR ''.'' \<or> c = CHR ''_'' \<or> c = CHR ''-'') s"

definition parsePrivacy :: "string \<Rightarrow> org_error + string" where
  "parsePrivacy s = (if s = '''' \<or> s = ''visible'' then Inr ''visible'' else if s = ''secret'' then Inr ''secret'' else Inl (ErrInvalidPrivacy s))"

definition parseTeamRole :: "string \<Rightarrow> org_error + string" where
  "parseTeamRole s = (if s = '''' \<or> s = ''member'' then Inr ''member'' else if s = ''maintainer'' then Inr ''maintainer'' else Inl ErrTeamRoleInvalid)"

definition parseTeamRepoRole :: "string \<Rightarrow> org_error + string" where
  "parseTeamRepoRole s = (if s \<in> {''read'', ''triage'', ''write'', ''maintain'', ''admin''} then Inr s else Inl ErrTeamRepoRoleInvalid)"

record CreateTeamParams =
  ctOrgID :: go_int64
  ctSlug :: string
  ctDisplayName :: string
  ctDescription :: string
  ctParentTeamID :: go_int64
  ctPrivacy :: string
  ctCreatedBy :: go_int64

definition GetTeamByID :: "go_int64 \<Rightarrow> 'x OrgTables_scheme \<Rightarrow> Team option" where
  "GetTeamByID i db = find (\<lambda>t. teID t = i) (TeamRows db)"

text \<open>The nesting trigger, which looks only at the parent of the new parent.\<close>

definition nestingRefused :: "go_int64 option \<Rightarrow> 'x OrgTables_scheme \<Rightarrow> bool" where
  "nestingRefused parent db = (case parent of None \<Rightarrow> False | Some p \<Rightarrow> (case GetTeamByID p db of None \<Rightarrow> False | Some t \<Rightarrow> teParent t \<noteq> None))"

definition newTeam :: "(nat \<Rightarrow> nat) \<Rightarrow> CreateTeamParams \<Rightarrow> string \<Rightarrow> go_int64 \<Rightarrow> Team" where
  "newTeam tbl p priv i = \<lparr>teID = i, teOrg = ctOrgID p, teSlug = ToLower tbl (TrimSpace (ctSlug p)), teDisplayName = TrimSpace (ctDisplayName p),
     teDescription = TrimSpace (ctDescription p), teParent = (if ctParentTeamID p \<noteq> 0 then Some (ctParentTeamID p) else None), tePrivacy = priv,
     teCreatedBy = ctCreatedBy p\<rparr>"

definition CreateTeam :: "(nat \<Rightarrow> nat) \<Rightarrow> orgFaults \<Rightarrow> CreateTeamParams \<Rightarrow> 'x OrgTables_scheme \<Rightarrow> (org_error + Team) \<times> 'x OrgTables_scheme" where
  "CreateTeam tbl f p db =
     (let slug = ToLower tbl (TrimSpace (ctSlug p)); parent = (if ctParentTeamID p \<noteq> 0 then Some (ctParentTeamID p) else None) in
      if \<not> teamSlugRE slug then (Inl ErrTeamSlugInvalid, db)
      else if ctCreatedBy p = 0 then (Inl ErrTeamMissingActor, db)
      else case parsePrivacy (ctPrivacy p) of Inl e \<Rightarrow> (Inl e, db) | Inr priv \<Rightarrow>
      case (if parent = None then None
            else case failing f [(''GetTeamByID'', True)] of Some e \<Rightarrow> Some e | None \<Rightarrow>
              (case GetTeamByID (ctParentTeamID p) db of None \<Rightarrow> Some ErrTeamNotFound
               | Some t \<Rightarrow> if teOrg t \<noteq> ctOrgID p then Some ErrTeamCrossOrgParent else None)) of Some e \<Rightarrow> (Inl e, db) | None \<Rightarrow>
      case failing f [(''CreateTeam'', True)] of Some e \<Rightarrow> (Inl e, db) | None \<Rightarrow>
      if nestingRefused parent db then (Inl ErrTeamNestingTooDeep, db)
      else if list_ex (\<lambda>t. teOrg t = ctOrgID p \<and> teSlug t = slug) (TeamRows db) then (Inl ErrTeamSlugTaken, db)
      else let row = newTeam tbl p priv (NextTeamID db)
           in (Inr row, db\<lparr>TeamRows := TeamRows db @ [row], NextTeamID := NextTeamID db + 1\<rparr>))"

definition SetTeamParent :: "orgFaults \<Rightarrow> go_int64 \<Rightarrow> go_int64 \<Rightarrow> 'x OrgTables_scheme \<Rightarrow> (org_error + unit) \<times> 'x OrgTables_scheme" where
  "SetTeamParent f team parent db =
     (let np = (if parent \<noteq> 0 then Some parent else None) in
      if parent = team then (Inl ErrTeamSelfParent, db)
      else case failing f [(''SetTeamParent'', True)] of Some e \<Rightarrow> (Inl e, db) | None \<Rightarrow>
      if GetTeamByID team db = None then (Inr (), db)
      else if nestingRefused np db then (Inl ErrTeamNestingTooDeep, db)
      else if np \<noteq> None \<and> GetTeamByID parent db = None then (Inl (OrgStore ''SetTeamParent'' ''constraint''), db)
      else (Inr (), db\<lparr>TeamRows := map (\<lambda>t. if teID t = team then t\<lparr>teParent := np\<rparr> else t) (TeamRows db)\<rparr>))"

definition AddTeamMember :: "EntDeps \<Rightarrow> orgFaults \<Rightarrow> go_int64 \<Rightarrow> go_int64 \<Rightarrow> string \<Rightarrow> 'x OrgTables_scheme \<Rightarrow> (org_error + unit) \<times> 'x OrgTables_scheme" where
  "AddTeamMember d f team user role db =
     (case parseTeamRole role of Inl e \<Rightarrow> (Inl e, db) | Inr r \<Rightarrow>
      case refusal (CheckTeamMemberPrivateCollaboration d f team user db) of Some e \<Rightarrow> (Inl e, db) | None \<Rightarrow>
      commits f [(''AddTeamMember'', teamExists team db)]
        (if list_ex (\<lambda>m. tmTeam m = team \<and> tmUser m = user) (TeamMemberRows db) then db
         else db\<lparr>TeamMemberRows := TeamMemberRows db @ [\<lparr>tmTeam = team, tmUser = user, tmRole = r\<rparr>]\<rparr>) db)"

definition RemoveTeamMember :: "orgFaults \<Rightarrow> go_int64 \<Rightarrow> go_int64 \<Rightarrow> 'x OrgTables_scheme \<Rightarrow> (org_error + unit) \<times> 'x OrgTables_scheme" where
  "RemoveTeamMember f team user db = commits f [(''RemoveTeamMember'', True)]
     (db\<lparr>TeamMemberRows := filter (\<lambda>m. \<not> (tmTeam m = team \<and> tmUser m = user)) (TeamMemberRows db)\<rparr>) db"

text \<open>The statement behind a grant: a second grant of a team on a repository changes the role of the first.\<close>

definition upsertTeamGrant :: "go_int64 \<Rightarrow> go_int64 \<Rightarrow> string \<Rightarrow> 'x OrgTables_scheme \<Rightarrow> 'x OrgTables_scheme" where
  "upsertTeamGrant team repo role db =
     (if list_ex (\<lambda>g. tgTeam g = team \<and> tgRepo g = repo) (TeamGrants db)
      then db\<lparr>TeamGrants := map (\<lambda>g. if tgTeam g = team \<and> tgRepo g = repo then g\<lparr>tgRole := role\<rparr> else g) (TeamGrants db)\<rparr>
      else db\<lparr>TeamGrants := TeamGrants db @ [\<lparr>tgTeam = team, tgRepo = repo, tgRole = role\<rparr>]\<rparr>)"

definition GrantTeamRepoAccess :: "EntDeps \<Rightarrow> orgFaults \<Rightarrow> go_int64 \<Rightarrow> go_int64 \<Rightarrow> string \<Rightarrow> 'x OrgTables_scheme \<Rightarrow> (org_error + unit) \<times> 'x OrgTables_scheme" where
  "GrantTeamRepoAccess d f team repo role db =
     (case parseTeamRepoRole role of Inl e \<Rightarrow> (Inl e, db) | Inr r \<Rightarrow>
      case refusal (CheckTeamPrivateRepoGrant d f team repo db) of Some e \<Rightarrow> (Inl e, db) | None \<Rightarrow>
      commits f [(''GrantTeamRepoAccess'', teamExists team db \<and> repoExists repo db)] (upsertTeamGrant team repo r db) db)"

definition RevokeTeamRepoAccess :: "orgFaults \<Rightarrow> go_int64 \<Rightarrow> go_int64 \<Rightarrow> 'x OrgTables_scheme \<Rightarrow> (org_error + unit) \<times> 'x OrgTables_scheme" where
  "RevokeTeamRepoAccess f team repo db = commits f [(''RevokeTeamRepoAccess'', True)]
     (db\<lparr>TeamGrants := filter (\<lambda>g. \<not> (tgTeam g = team \<and> tgRepo g = repo)) (TeamGrants db)\<rparr>) db"

section \<open>Repositories and their direct collaborators\<close>

definition SetVisibility :: "EntDeps \<Rightarrow> orgFaults \<Rightarrow> go_int64 \<Rightarrow> string \<Rightarrow> 'x OrgTables_scheme \<Rightarrow> (org_error + unit) \<times> 'x OrgTables_scheme" where
  "SetVisibility d f repo vis db =
     (if vis \<noteq> ''public'' \<and> vis \<noteq> ''private'' then (Inl ErrInvalidVisibility, db)
      else case failing f [(''GetRepoByID'', True)] of Some e \<Rightarrow> (Inl e, db) | None \<Rightarrow>
      case find (\<lambda>r. rpID r = repo) (OrgRepos db) of None \<Rightarrow> (Inl (OrgStore ''GetRepoByID'' ''no rows''), db) | Some r \<Rightarrow>
      if rpVisibility r = vis then (Inr (), db)
      else case (case rpOrg r of Some org \<Rightarrow> if vis = ''private'' then refusal (CheckRepoPrivateVisibility d f org (rpID r) db) else None | None \<Rightarrow> None) of
        Some e \<Rightarrow> (Inl e, db)
      | None \<Rightarrow> commits f [(''SetRepoVisibility'', True)]
          (db\<lparr>OrgRepos := map (\<lambda>q. if rpID q = repo then q\<lparr>rpVisibility := vis\<rparr> else q) (OrgRepos db)\<rparr>) db)"

definition parseCollabRole :: "(nat \<Rightarrow> nat) \<Rightarrow> string \<Rightarrow> string option" where
  "parseCollabRole tbl raw = (let s = ToLower tbl (TrimSpace raw) in
     if s = '''' \<or> s = ''read'' \<or> s = ''pull'' then Some ''read'' else if s = ''triage'' then Some ''triage''
     else if s = ''write'' \<or> s = ''push'' then Some ''write'' else if s = ''maintain'' then Some ''maintain''
     else if s = ''admin'' then Some ''admin'' else None)"

text \<open>\<^verbatim>\<open>INSERT ... ON CONFLICT DO UPDATE\<close>.\<close>

definition UpsertCollabRole :: "go_int64 \<Rightarrow> go_int64 \<Rightarrow> string \<Rightarrow> 'x OrgTables_scheme \<Rightarrow> 'x OrgTables_scheme" where
  "UpsertCollabRole repo user role db = (if list_ex (\<lambda>c. clRepo c = repo \<and> clUser c = user) (Collaborators db)
     then db\<lparr>Collaborators := map (\<lambda>c. if clRepo c = repo \<and> clUser c = user then c\<lparr>clRole := role\<rparr> else c) (Collaborators db)\<rparr>
     else db\<lparr>Collaborators := Collaborators db @ [\<lparr>clRepo = repo, clUser = user, clRole = role\<rparr>]\<rparr>)"

text \<open>The part of the handler behind authorization and decoding: role, limit, upsert.\<close>

definition putCollaborator ::
  "(nat \<Rightarrow> nat) \<Rightarrow> EntDeps \<Rightarrow> orgFaults \<Rightarrow> go_int64 \<Rightarrow> go_int64 \<Rightarrow> string \<Rightarrow> 'x OrgTables_scheme \<Rightarrow> (org_error + unit) \<times> 'x OrgTables_scheme" where
  "putCollaborator tbl d f repo user role db =
     (case parseCollabRole tbl role of None \<Rightarrow> (Inl (ErrInvalidRole role), db) | Some r \<Rightarrow>
      case refusal (CheckDirectPrivateCollaborator d f repo user db) of Some e \<Rightarrow> (Inl e, db) | None \<Rightarrow>
      commits f [(''UpsertCollabRole'', repoExists repo db)]
        (UpsertCollabRole repo user r db) db)"

text \<open>The part of \<open>repos.Create\<close> that concerns the limit: the check, then the row with a new id.\<close>

definition insertRepo :: "EntDeps \<Rightarrow> orgFaults \<Rightarrow> go_int64 \<Rightarrow> go_int64 \<Rightarrow> string \<Rightarrow> 'x OrgTables_scheme \<Rightarrow> (org_error + unit) \<times> 'x OrgTables_scheme" where
  "insertRepo d f i org vis db =
     (case (if org \<noteq> 0 \<and> vis = ''private'' then refusal (CheckPrivateRepositoryCreation d f org db) else None) of Some e \<Rightarrow> (Inl e, db) | None \<Rightarrow>
      commits f [(''CreateRepo'', (org = 0 \<or> orgExists org db) \<and> \<not> repoExists i db)]
        (db\<lparr>OrgRepos := OrgRepos db @ [\<lparr>rpID = i, rpOrg = (if org \<noteq> 0 then Some org else None), rpVisibility = vis, rpDeleted = False\<rparr>]\<rparr>) db)"

section \<open>Invitations\<close>

text \<open>Users as the invitations need them: by name, and the addresses of a user with their verification.\<close>

record OrgUsers =
  userNamed :: "string \<Rightarrow> go_int64 option"
  userEmails :: "go_int64 \<Rightarrow> (string \<times> bool) list"

record InviteParams =
  ipOrgID :: go_int64
  ipInvitedBy :: go_int64
  ipUsername :: string
  ipEmail :: string
  ipRole :: string

definition TrimLeftAt :: "string \<Rightarrow> string" where
  "TrimLeftAt = dropWhile (\<lambda>c. c = CHR ''@'')"

definition pendingInvitation :: "int \<Rightarrow> OrgInvitation \<Rightarrow> bool" where
  "pendingInvitation now i \<longleftrightarrow> \<not> ivAccepted i \<and> \<not> ivDeclined i \<and> \<not> ivCanceled i \<and> now < ivExpiresAt i"

definition inviteTarget ::
  "(nat \<Rightarrow> nat) \<Rightarrow> orgFaults \<Rightarrow> OrgUsers \<Rightarrow> InviteParams \<Rightarrow> 'x OrgTables_scheme \<Rightarrow> org_error + go_int64 option \<times> string option" where
  "inviteTarget tbl f users p db =
     (if ipUsername p \<noteq> '''' then
        (let uname = ToLower tbl (TrimLeftAt (TrimSpace (ipUsername p))) in
         if uname = '''' then Inl ErrInvalidInvitationKind
         else case failing f [(''GetUserByUsername'', True)] of Some e \<Rightarrow> Inl e | None \<Rightarrow>
         case userNamed users uname of None \<Rightarrow> Inl ErrUserNotFound | Some u \<Rightarrow>
         if f ''GetOrgMember'' = None \<and> GetOrgMember (ipOrgID p) u db \<noteq> None then Inl ErrAlreadyMember
         else Inr (Some u, None))
      else let email = ToLower tbl (TrimSpace (ipEmail p)) in
         if email = '''' then Inl ErrInvalidInvitationKind else Inr (None, Some email))"

text \<open>Seven days, in the nanoseconds of the clock. \<open>hash\<close> is the hash of the fresh token.\<close>

definition inviteLifetime :: int where
  "inviteLifetime = 7 * 24 * 3600 * 1000000000"

definition Invite ::
  "(nat \<Rightarrow> nat) \<Rightarrow> EntDeps \<Rightarrow> orgFaults \<Rightarrow> OrgUsers \<Rightarrow> int \<Rightarrow> string \<Rightarrow> InviteParams \<Rightarrow> 'x OrgTables_scheme \<Rightarrow> (org_error + OrgInvitation) \<times> 'x OrgTables_scheme" where
  "Invite tbl d f users now hash p db =
     (if ipOrgID p = 0 \<or> ipInvitedBy p = 0 then (Inl ErrInviteParams, db)
      else if (ipUsername p = '''' \<and> ipEmail p = '''') \<or> (ipUsername p \<noteq> '''' \<and> ipEmail p \<noteq> '''') then (Inl ErrInvalidInvitationKind, db)
      else case parseRole (ipRole p) of Inl e \<Rightarrow> (Inl e, db) | Inr role \<Rightarrow>
      case inviteTarget tbl f users p db of Inl e \<Rightarrow> (Inl e, db) | Inr (targetUser, targetEmail) \<Rightarrow>
      case failing f [(''GetExistingPendingInvitation'', True)] of Some e \<Rightarrow> (Inl e, db) | None \<Rightarrow>
      if list_ex (\<lambda>i. ivOrg i = ipOrgID p \<and> ((targetUser \<noteq> None \<and> ivTargetUser i = targetUser) \<or> (targetEmail \<noteq> None \<and> ivTargetEmail i = targetEmail))
                    \<and> pendingInvitation now i) (Invitations db)
      then (Inl ErrInvitationDuplicate, db)
      else case (if role = ''owner''
                 then refusal (case targetUser of Some u \<Rightarrow> CheckOrgOwnerPrivateCollaboration d f (ipOrgID p) u db
                                | None \<Rightarrow> CheckPrivateInvitationSlot d f (ipOrgID p) db)
                 else None) of Some e \<Rightarrow> (Inl e, db) | None \<Rightarrow>
      case failing f [(''NewToken'', True), (''CreateOrgInvitation'', True)] of Some e \<Rightarrow> (Inl e, db) | None \<Rightarrow>
      let row = \<lparr>ivID = NextInvitationID db, ivOrg = ipOrgID p, ivTargetUser = targetUser, ivTargetEmail = targetEmail, ivRole = role,
                 ivTokenHash = hash, ivExpiresAt = now + inviteLifetime, ivAccepted = False, ivDeclined = False, ivCanceled = False\<rparr>
      in (Inr row, db\<lparr>Invitations := Invitations db @ [row], NextInvitationID := NextInvitationID db + 1\<rparr>))"

definition validatePending :: "int \<Rightarrow> OrgInvitation \<Rightarrow> org_error option" where
  "validatePending now i = (if ivAccepted i \<or> ivDeclined i \<or> ivCanceled i then Some ErrInvitationConsumed
     else if ivExpiresAt i < now then Some ErrInvitationExpired else None)"

definition userOwnsVerifiedEmail :: "(nat \<Rightarrow> nat) \<Rightarrow> OrgUsers \<Rightarrow> go_int64 \<Rightarrow> string \<Rightarrow> bool" where
  "userOwnsVerifiedEmail tbl users u email = list_ex (\<lambda>(e, verified). ToLower tbl e = ToLower tbl email \<and> verified) (userEmails users u)"

text \<open>The checks accepting and declining share.\<close>

definition notTarget :: "(nat \<Rightarrow> nat) \<Rightarrow> orgFaults \<Rightarrow> OrgUsers \<Rightarrow> int \<Rightarrow> OrgInvitation \<Rightarrow> go_int64 \<Rightarrow> org_error option" where
  "notTarget tbl f users now iv u =
     (case validatePending now iv of Some e \<Rightarrow> Some e | None \<Rightarrow>
      if ivTargetUser iv \<noteq> None \<and> ivTargetUser iv \<noteq> Some u then Some ErrUnauthorizedAcceptor
      else case ivTargetEmail iv of None \<Rightarrow> None | Some email \<Rightarrow>
        (case failing f [(''ListUserEmailsForUser'', True)] of Some e \<Rightarrow> Some e | None \<Rightarrow>
           if userOwnsVerifiedEmail tbl users u email then None else Some ErrUnauthorizedAcceptor))"

definition markInvitation :: "go_int64 \<Rightarrow> (OrgInvitation \<Rightarrow> OrgInvitation) \<Rightarrow> 'x OrgTables_scheme \<Rightarrow> 'x OrgTables_scheme" where
  "markInvitation i g db = db\<lparr>Invitations := map (\<lambda>v. if ivID v = i then g v else v) (Invitations db)\<rparr>"

definition AcceptInvitation ::
  "(nat \<Rightarrow> nat) \<Rightarrow> EntDeps \<Rightarrow> orgFaults \<Rightarrow> OrgUsers \<Rightarrow> int \<Rightarrow> OrgInvitation \<Rightarrow> go_int64 \<Rightarrow> 'x OrgTables_scheme \<Rightarrow> (org_error + unit) \<times> 'x OrgTables_scheme" where
  "AcceptInvitation tbl d f users now iv u db =
     (case notTarget tbl f users now iv u of Some e \<Rightarrow> (Inl e, db) | None \<Rightarrow>
      case (if ivRole iv = ''owner'' then refusal (CheckOrgOwnerPrivateCollaboration d f (ivOrg iv) u db) else None) of Some e \<Rightarrow> (Inl e, db) | None \<Rightarrow>
      commits f [(''Begin'', True), (''AddOrgMember'', orgExists (ivOrg iv) db), (''AcceptOrgInvitation'', True), (''EnqueueSeatSync'', True), (''Commit'', True)]
        (seatSync (ivOrg iv) (markInvitation (ivID iv) (\<lambda>v. v\<lparr>ivAccepted := True\<rparr>) (AddOrgMember (ivOrg iv) u (ivRole iv) db))) db)"

definition DeclineInvitation ::
  "(nat \<Rightarrow> nat) \<Rightarrow> orgFaults \<Rightarrow> OrgUsers \<Rightarrow> int \<Rightarrow> OrgInvitation \<Rightarrow> go_int64 \<Rightarrow> 'x OrgTables_scheme \<Rightarrow> (org_error + unit) \<times> 'x OrgTables_scheme" where
  "DeclineInvitation tbl f users now iv u db =
     (case notTarget tbl f users now iv u of Some e \<Rightarrow> (Inl e, db) | None \<Rightarrow>
      commits f [(''DeclineOrgInvitation'', True)] (markInvitation (ivID iv) (\<lambda>v. v\<lparr>ivDeclined := True\<rparr>) db) db)"

definition CancelInvitation :: "orgFaults \<Rightarrow> int \<Rightarrow> OrgInvitation \<Rightarrow> 'x OrgTables_scheme \<Rightarrow> (org_error + unit) \<times> 'x OrgTables_scheme" where
  "CancelInvitation f now iv db =
     (case validatePending now iv of Some e \<Rightarrow> (Inl e, db) | None \<Rightarrow>
      commits f [(''CancelOrgInvitation'', True)] (markInvitation (ivID iv) (\<lambda>v. v\<lparr>ivCanceled := True\<rparr>) db) db)"

definition LookupInvitationByToken :: "orgFaults \<Rightarrow> (string \<Rightarrow> string option) \<Rightarrow> string \<Rightarrow> 'x OrgTables_scheme \<Rightarrow> org_error + OrgInvitation" where
  "LookupInvitationByToken f hashOf tok db =
     (case hashOf tok of None \<Rightarrow> Inl ErrInvitationNotFound | Some h \<Rightarrow>
      case failing f [(''GetOrgInvitationByTokenHash'', True)] of Some e \<Rightarrow> Inl e | None \<Rightarrow>
      (case find (\<lambda>i. ivTokenHash i = h) (Invitations db) of None \<Rightarrow> Inl ErrInvitationNotFound | Some i \<Rightarrow> Inr i))"

section \<open>The access page of a repository\<close>

definition parseFormRole :: "string \<Rightarrow> string" where
  "parseFormRole s = (let r = TrimSpace s in if r \<in> {''read'', ''triage'', ''write'', ''maintain'', ''admin''} then r else '''')"

text \<open>The handlers of the page behind authorization and form parsing; \<open>owner\<close> is the owner of a personal repository.\<close>

definition settingsCollabUpsert ::
  "(nat \<Rightarrow> nat) \<Rightarrow> orgFaults \<Rightarrow> OrgUsers \<Rightarrow> go_int64 option \<Rightarrow> go_int64 \<Rightarrow> string \<Rightarrow> string \<Rightarrow> 'x OrgTables_scheme \<Rightarrow> (org_error + unit) \<times> 'x OrgTables_scheme" where
  "settingsCollabUpsert tbl f users owner repo username role db =
     (let name = ToLower tbl (TrimSpace username); r = parseFormRole role in
      if name = '''' \<or> r = '''' then (Inl ErrFormFields, db)
      else case (case f ''GetUserByUsername'' of Some _ \<Rightarrow> None | None \<Rightarrow> userNamed users name) of None \<Rightarrow> (Inl ErrUserNotFound, db) | Some target \<Rightarrow>
      if owner = Some target then (Inl ErrOwnerHasAccess, db)
      else commits f [(''UpsertCollabRole'', repoExists repo db)] (UpsertCollabRole repo target r db) db)"

definition settingsCollabRemove :: "orgFaults \<Rightarrow> go_int64 \<Rightarrow> go_int64 option \<Rightarrow> 'x OrgTables_scheme \<Rightarrow> (org_error + unit) \<times> 'x OrgTables_scheme" where
  "settingsCollabRemove f repo uid db = (case uid of None \<Rightarrow> (Inl ErrFormFields, db) | Some u \<Rightarrow>
     if u \<le> 0 then (Inl ErrFormFields, db)
     else commits f [(''RemoveCollab'', True)] (db\<lparr>Collaborators := filter (\<lambda>c. \<not> (clRepo c = repo \<and> clUser c = u)) (Collaborators db)\<rparr>) db)"

text \<open>A team of the repository's organization gets a role; the id and the role come from the form. The limit is not asked about.\<close>

definition settingsTeamGrant :: "orgFaults \<Rightarrow> OrgRepo \<Rightarrow> go_int64 option \<Rightarrow> string \<Rightarrow> 'x OrgTables_scheme \<Rightarrow> (org_error + unit) \<times> 'x OrgTables_scheme" where
  "settingsTeamGrant f row teamID role db =
     (case rpOrg row of None \<Rightarrow> (Inl ErrFormFields, db) | Some org \<Rightarrow>
      case teamID of None \<Rightarrow> (Inl ErrFormFields, db) | Some tid \<Rightarrow>
      if tid \<le> 0 \<or> parseFormRole role = '''' then (Inl ErrFormFields, db)
      else case (case f ''GetTeamByID'' of Some _ \<Rightarrow> None | None \<Rightarrow> GetTeamByID tid db) of None \<Rightarrow> (Inl ErrTeamNotFound, db) | Some team \<Rightarrow>
      if teOrg team \<noteq> org then (Inl ErrTeamNotFound, db)
      else commits f [(''GrantTeamRepoAccess'', repoExists (rpID row) db)] (upsertTeamGrant tid (rpID row) (parseFormRole role) db) db)"

section \<open>Deletion, restoration and forks\<close>

text \<open>
  \<open>lockRepoName\<close> and the moves of the directory are statements that may fail like those of the database. A restored
  repository comes back as it was; neither restoring nor forking asks about the limit.
\<close>

definition markRepoDeleted :: "bool \<Rightarrow> go_int64 \<Rightarrow> 'x OrgTables_scheme \<Rightarrow> 'x OrgTables_scheme" where
  "markRepoDeleted gone repo db = db\<lparr>OrgRepos := map (\<lambda>q. if rpID q = repo then q\<lparr>rpDeleted := gone\<rparr> else q) (OrgRepos db)\<rparr>"

definition SoftDelete :: "orgFaults \<Rightarrow> go_int64 \<Rightarrow> 'x OrgTables_scheme \<Rightarrow> (org_error + unit) \<times> 'x OrgTables_scheme" where
  "SoftDelete f repo db =
     (case failing f [(''Begin'', True), (''GetRepoByID'', repoExists repo db), (''lockRepoName'', True)] of Some e \<Rightarrow> (Inl e, db) | None \<Rightarrow>
      if list_ex (\<lambda>r. rpID r = repo \<and> rpDeleted r) (OrgRepos db) then (Inl ErrAlreadyDeleted, db)
      else commits f [(''moveCanonicalToDeleted'', True), (''SoftDeleteRepoLifecycle'', True), (''Commit'', True)] (markRepoDeleted True repo db) db)"

definition softDeleteGrace :: int where
  "softDeleteGrace = 7 * 24 * 60 * 60 * 1000000000"

text \<open>\<open>age\<close> is the time since the deletion, \<open>taken\<close> whether an active repository has the name.\<close>

definition Restore :: "orgFaults \<Rightarrow> int \<Rightarrow> bool \<Rightarrow> go_int64 \<Rightarrow> 'x OrgTables_scheme \<Rightarrow> (org_error + unit) \<times> 'x OrgTables_scheme" where
  "Restore f age taken repo db =
     (case failing f [(''Begin'', True), (''GetRepoByID'', repoExists repo db), (''lockRepoName'', True)] of Some e \<Rightarrow> (Inl e, db) | None \<Rightarrow>
      if \<not> list_ex (\<lambda>r. rpID r = repo \<and> rpDeleted r) (OrgRepos db) then (Inl ErrNotDeleted, db)
      else if softDeleteGrace < age then (Inl ErrPastGrace, db)
      else case failing f [(''activeRepoNameExists'', True)] of Some e \<Rightarrow> (Inl e, db) | None \<Rightarrow>
      if taken then (Inl ErrNameTaken, db)
      else if f ''moveDeletedToCanonical'' = Some ''already exists'' \<or> f ''moveDeletedToCanonical'' = None \<and> f ''RestoreRepo'' = Some ''unique violation''
      then (Inl ErrNameTaken, db)
      else commits f [(''moveDeletedToCanonical'', True), (''RestoreRepo'', True), (''Commit'', True)] (markRepoDeleted False repo db) db)"

definition allowedTargetVisibility :: "string \<Rightarrow> string \<Rightarrow> string option" where
  "allowedTargetVisibility source target =
     (if source = ''public'' then (if target = '''' then Some ''public'' else if target = ''public'' \<or> target = ''private'' then Some target else None)
      else if source = ''private'' then (if target = '''' \<or> target = ''private'' then Some ''private'' else None)
      else None)"

record ForkParams =
  fkActor :: go_int64
  fkSource :: go_int64
  fkOwnerKind :: string
  fkOwner :: go_int64
  fkVisibility :: string

text \<open>What the columns that the tables here leave out say: the flags of the source and its owner among the users, whether the
  name of the fork is that of the source, whether the description is admissible, and whether the name is taken.\<close>

record ForkAnswers =
  faArchived :: bool
  faPaused :: bool
  faSourceUser :: "go_int64 option"
  faSameName :: bool
  faDescription :: bool
  faTaken :: bool

definition forkRefusal :: "ForkAnswers \<Rightarrow> string \<Rightarrow> OrgRepo \<Rightarrow> ForkParams \<Rightarrow> org_error option" where
  "forkRefusal a kind src p =
     (if rpDeleted src then Some ErrSourceDeleted
      else if faArchived a then Some ErrSourceArchived
      else if faPaused a then Some ErrSourcePaused
      else if kind \<noteq> ''user'' \<and> kind \<noteq> ''org'' then Some ErrForkOwnerKind
      else if faSameName a \<and> (if kind = ''user'' then faSourceUser a else rpOrg src) = Some (fkOwner p) then Some ErrSelfForkSameName
      else if allowedTargetVisibility (rpVisibility src) (fkVisibility p) = None then Some ErrVisibilityFloor
      else if \<not> faDescription a then Some ErrForkDescription
      else None)"

definition forkRow :: "go_int64 \<Rightarrow> string \<Rightarrow> OrgRepo \<Rightarrow> ForkParams \<Rightarrow> OrgRepo" where
  "forkRow i kind src p = \<lparr>rpID = i, rpOrg = (if kind = ''org'' then Some (fkOwner p) else None),
     rpVisibility = the (allowedTargetVisibility (rpVisibility src) (fkVisibility p)), rpDeleted = False\<rparr>"

definition forkCreate :: "orgFaults \<Rightarrow> ForkAnswers \<Rightarrow> go_int64 \<Rightarrow> ForkParams \<Rightarrow> 'x OrgTables_scheme \<Rightarrow> (org_error + unit) \<times> 'x OrgTables_scheme" where
  "forkCreate f a i p db =
     (let kind = (if fkOwnerKind p = '''' then ''user'' else fkOwnerKind p) in
      if fkActor p = 0 then (Inl ErrNotLoggedIn, db)
      else case failing f [(''GetRepoByID'', True)] of Some e \<Rightarrow> (Inl e, db) | None \<Rightarrow>
      case find (\<lambda>r. rpID r = fkSource p) (OrgRepos db) of None \<Rightarrow> (Inl ErrSourceNotFound, db) | Some src \<Rightarrow>
      case forkRefusal a kind src p of Some e \<Rightarrow> (Inl e, db) | None \<Rightarrow>
      case failing f [(''ExistsRepoForOwner'', True)] of Some e \<Rightarrow> (Inl e, db) | None \<Rightarrow>
      if faTaken a then (Inl ErrTargetNameTaken, db)
      else commits f [(''CreateForkRepo'', (kind = ''org'' \<longrightarrow> orgExists (fkOwner p) db) \<and> \<not> repoExists i db)]
        (db\<lparr>OrgRepos := OrgRepos db @ [forkRow i kind src p]\<rparr>) db)"

end
