(* ===== verification/OrgSafety.thy ===== *)
theory OrgSafety
  imports Organizations
begin

text \<open>
  Runs of the organization operations: what every one of them keeps of the tables, and that every organization
  keeps an owner.
\<close>

section \<open>Effects of the operations\<close>

lemma commits_cases: "commits f ns new db = (r, db') \<Longrightarrow> db' = db \<or> (db' = new \<and> failing f ns = None)"
  by (auto simp: commits_def split: option.split_asm)

lemma refusal_None: "refusal c = None \<longleftrightarrow> (\<exists>k. c = Inr k \<and> pccAllowed k)"
  by (auto simp: refusal_def split: sum.split)

lemma failing_Cons [simp]: "failing f ((n, ok) # ns) = None \<longleftrightarrow> f n = None \<and> ok \<and> failing f ns = None"
  by (simp split: option.split)

declare failing.simps(2) [simp del]

definition orgInv :: "'x OrgTables_scheme \<Rightarrow> bool" where
  "orgInv db \<longleftrightarrow> distinct (map (\<lambda>m. (omOrg m, omUser m)) (OrgMembers db))
    \<and> (\<forall>m \<in> set (OrgMembers db). omUser m \<noteq> 0 \<and> omOrg m \<in> ogID ` set (OrgRows db))
    \<and> (\<forall>r \<in> set (OrgRows db). ogID r < NextOrgID db \<and> ownerIDs (ogID r) db \<noteq> [])
    \<and> distinct (map teID (TeamRows db)) \<and> (\<forall>i \<in> teID ` set (TeamRows db). i < NextTeamID db)
    \<and> (\<forall>m \<in> set (TeamMemberRows db). tmUser m \<noteq> 0 \<and> tmTeam m \<in> teID ` set (TeamRows db))
    \<and> (\<forall>g \<in> set (TeamGrants db). tgTeam g \<in> teID ` set (TeamRows db) \<and> tgRepo g \<in> rpID ` set (OrgRepos db))
    \<and> distinct (map rpID (OrgRepos db))
    \<and> (\<forall>c \<in> set (Collaborators db). clUser c \<noteq> 0 \<and> clRepo c \<in> rpID ` set (OrgRepos db))
    \<and> (\<forall>r \<in> set (OrgRepos db). \<forall>i. rpOrg r = Some i \<longrightarrow> i \<in> ogID ` set (OrgRows db))"

lemma exists_simps:
  "orgExists i db \<longleftrightarrow> i \<in> ogID ` set (OrgRows db)"
  "teamExists i db \<longleftrightarrow> i \<in> teID ` set (TeamRows db)"
  "repoExists i db \<longleftrightarrow> i \<in> rpID ` set (OrgRepos db)"
  by (auto simp: orgExists_def teamExists_def repoExists_def list_ex_iff)

lemma orgInv_unrelated [simp]:
  "orgInv (db\<lparr>SeatSyncJobs := js\<rparr>) = orgInv db" "orgInv (db\<lparr>Invitations := vs\<rparr>) = orgInv db" "orgInv (db\<lparr>NextInvitationID := n\<rparr>) = orgInv db"
  by (simp_all add: orgInv_def ownerIDs_def)

lemma orgInv_members:
  assumes "orgInv db" "distinct (map (\<lambda>m. (omOrg m, omUser m)) ms)" "\<And>m. m \<in> set ms \<Longrightarrow> omUser m \<noteq> 0 \<and> omOrg m \<in> ogID ` set (OrgRows db)"
    "\<And>r. r \<in> set (OrgRows db) \<Longrightarrow> \<exists>m \<in> set ms. omOrg m = ogID r \<and> omRole m = ''owner''"
  shows "orgInv (db\<lparr>OrgMembers := ms\<rparr>)"
  using assms by (auto simp: orgInv_def ownerIDs_def filter_empty_conv)

lemma orgInv_owner: "orgInv db \<Longrightarrow> r \<in> set (OrgRows db) \<Longrightarrow> \<exists>m \<in> set (OrgMembers db). omOrg m = ogID r \<and> omRole m = ''owner''"
  by (auto simp: orgInv_def ownerIDs_def filter_empty_conv)

lemma GetOrgMember_None: "GetOrgMember org user db = None \<longleftrightarrow> (org, user) \<notin> (\<lambda>m. (omOrg m, omUser m)) ` set (OrgMembers db)"
  by (auto simp: GetOrgMember_def find_None_iff)

lemma GetOrgMember_Some: "GetOrgMember org user db = Some m \<Longrightarrow> m \<in> set (OrgMembers db) \<and> omOrg m = org \<and> omUser m = user"
  by (auto simp: GetOrgMember_def find_Some_iff)

lemma AddOrgMember_inv:
  assumes "orgInv db" "user \<noteq> 0" "org \<in> ogID ` set (OrgRows db)"
  shows "orgInv (AddOrgMember org user role db)"
proof (cases "GetOrgMember org user db")
  case None
  have "orgInv (db\<lparr>OrgMembers := OrgMembers db @ [\<lparr>omOrg = org, omUser = user, omRole = role\<rparr>]\<rparr>)"
  proof (rule orgInv_members [OF assms(1)])
    show "distinct (map (\<lambda>m. (omOrg m, omUser m)) (OrgMembers db @ [\<lparr>omOrg = org, omUser = user, omRole = role\<rparr>]))"
      using None assms(1) by (simp add: GetOrgMember_None orgInv_def)
  qed (use assms orgInv_owner [OF assms(1)] in \<open>auto simp: orgInv_def\<close>)
  then show ?thesis using None by (simp add: AddOrgMember_def)
qed (use assms in \<open>simp add: AddOrgMember_def\<close>)

text \<open>With two owners, one remains when another leaves or is demoted.\<close>

lemma another_owner:
  assumes "orgInv db" "\<not> CountOrgOwners org db \<le> 1"
  shows "\<exists>m \<in> set (OrgMembers db). omOrg m = org \<and> omRole m = ''owner'' \<and> omUser m \<noteq> user"
proof (rule ccontr)
  assume none: "\<not> ?thesis"
  let ?os = "filter (\<lambda>m. omOrg m = org \<and> omRole m = ''owner'') (OrgMembers db)"
  have "distinct (map (\<lambda>m. (omOrg m, omUser m)) ?os)" using assms(1) by (simp add: orgInv_def distinct_map inj_on_def)
  from distinct_card [OF this] have "length ?os = card (set (map (\<lambda>m. (omOrg m, omUser m)) ?os))" by simp
  also have "\<dots> \<le> card {(org, user)}" by (rule card_mono) (use none in auto)
  finally show False using assms(2) by (simp add: CountOrgOwners_def ownerIDs_def)
qed

lemma AddMember_inv:
  assumes "AddMember d f org user role db = (r, db')" "orgInv db" "user \<noteq> 0"
  shows "orgInv db'"
  using assms AddOrgMember_inv [OF assms(2,3), of org]
  by (auto simp: AddMember_def seatSync_def exists_simps split: sum.split_asm option.split_asm dest!: commits_cases)

lemma ChangeRole_inv:
  assumes "ChangeRole d f org user role db = (r, db')" "orgInv db"
  shows "orgInv db'"
proof (cases "db' = db")
  case False
  obtain q cur where q: "GetOrgMember org user db = Some cur" "omRole cur = ''owner'' \<and> q \<noteq> ''owner'' \<longrightarrow> \<not> CountOrgOwners org db \<le> 1"
      "db' = db\<lparr>OrgMembers := map (\<lambda>m. if omOrg m = org \<and> omUser m = user then m\<lparr>omRole := q\<rparr> else m) (OrgMembers db)\<rparr>"
    using assms(1) False by (auto simp: ChangeRole_def roleChecks_def ChangeOrgMemberRole_def split: sum.split_asm option.split_asm if_split_asm dest!: commits_cases)
  let ?g = "\<lambda>m. if omOrg m = org \<and> omUser m = user then m\<lparr>omRole := q\<rparr> else m"
  show ?thesis unfolding q(3)
  proof (rule orgInv_members [OF assms(2)])
    have "map (\<lambda>m. (omOrg m, omUser m)) (map ?g (OrgMembers db)) = map (\<lambda>m. (omOrg m, omUser m)) (OrgMembers db)" by simp
    then show "distinct (map (\<lambda>m. (omOrg m, omUser m)) (map ?g (OrgMembers db)))" using assms(2) by (simp only: orgInv_def)
    show "omUser m \<noteq> 0 \<and> omOrg m \<in> ogID ` set (OrgRows db)" if "m \<in> set (map ?g (OrgMembers db))" for m
      using that assms(2) by (auto simp: orgInv_def split: if_split_asm)
    show "\<exists>m \<in> set (map ?g (OrgMembers db)). omOrg m = ogID r \<and> omRole m = ''owner''" if r: "r \<in> set (OrgRows db)" for r
    proof (cases "ogID r = org \<and> q \<noteq> ''owner''")
      case True
      have "\<exists>m \<in> set (OrgMembers db). omOrg m = org \<and> omRole m = ''owner'' \<and> omUser m \<noteq> user"
      proof (cases "omRole cur = ''owner''")
        case owner: True
        then show ?thesis using another_owner [OF assms(2)] q(2) True by blast
      next
        case no: False
        obtain m where m: "m \<in> set (OrgMembers db)" "omOrg m = org" "omRole m = ''owner''" using orgInv_owner [OF assms(2) r] True by auto
        have "inj_on (\<lambda>m. (omOrg m, omUser m)) (set (OrgMembers db))" using assms(2) by (simp add: orgInv_def distinct_map)
        then have "omUser m \<noteq> user" using m no GetOrgMember_Some [OF q(1)] by (auto dest: inj_onD)
        then show ?thesis using m by blast
      qed
      then show ?thesis using True by (auto intro!: image_eqI)
    next
      case False
      obtain m where m: "m \<in> set (OrgMembers db)" "omOrg m = ogID r" "omRole m = ''owner''" using orgInv_owner [OF assms(2) r] by auto
      then have "?g m \<in> set (map ?g (OrgMembers db))" "omOrg (?g m) = ogID r" "omRole (?g m) = ''owner''" using False by auto
      then show ?thesis by blast
    qed
  qed
qed (use assms in simp)

lemma RemoveMember_inv:
  assumes "RemoveMember f org user db = (r, db')" "orgInv db"
  shows "orgInv db'"
proof (cases "db' = db")
  case False
  let ?ms = "filter (\<lambda>m. \<not> (omOrg m = org \<and> omUser m = user)) (OrgMembers db)"
  obtain cur where q: "GetOrgMember org user db = Some cur" "omRole cur = ''owner'' \<longrightarrow> \<not> CountOrgOwners org db \<le> 1"
      "db' = seatSync org (db\<lparr>OrgMembers := ?ms\<rparr>)"
    using assms(1) False by (auto simp: RemoveMember_def split: option.split_asm if_split_asm dest!: commits_cases)
  have "orgInv (db\<lparr>OrgMembers := ?ms\<rparr>)"
  proof (rule orgInv_members [OF assms(2)])
    show "\<exists>m \<in> set ?ms. omOrg m = ogID r \<and> omRole m = ''owner''" if r: "r \<in> set (OrgRows db)" for r
    proof (cases "ogID r = org \<and> omRole cur = ''owner''")
      case True
      then show ?thesis using another_owner [OF assms(2), of org user] q(2) by auto
    next
      case False
      obtain m where m: "m \<in> set (OrgMembers db)" "omOrg m = ogID r" "omRole m = ''owner''" using orgInv_owner [OF assms(2) r] by auto
      have "inj_on (\<lambda>m. (omOrg m, omUser m)) (set (OrgMembers db))" using assms(2) by (simp add: orgInv_def distinct_map)
      then have "\<not> (omOrg m = org \<and> omUser m = user)" using m False GetOrgMember_Some [OF q(1)] by (auto dest: inj_onD)
      then show ?thesis using m by auto
    qed
  qed (use assms(2) in \<open>auto simp: orgInv_def distinct_map inj_on_def\<close>)
  then show ?thesis by (simp add: q(3) seatSync_def)
qed (use assms in simp)

lemma CreateOrg_inv:
  assumes "CreateOrg tbl f p db = (r, db')" "orgInv db"
  shows "orgInv db'"
proof (cases "db' = db")
  case False
  define row where "row = newOrg tbl p (NextOrgID db)"
  have row: "ogID row = NextOrgID db" "coCreatedBy p \<noteq> 0"
      "db' = seatSync (ogID row) (AddOrgMember (ogID row) (coCreatedBy p) ''owner'' (db\<lparr>OrgRows := OrgRows db @ [row], NextOrgID := NextOrgID db + 1\<rparr>))"
    using assms(1) False by (auto simp: row_def CreateOrg_def newOrg_def Let_def split: option.split_asm if_split_asm prod.split_asm sum.split_asm dest!: commits_cases)
  have fresh: "omOrg m \<noteq> NextOrgID db" if "m \<in> set (OrgMembers db)" for m using assms(2) that by (force simp: orgInv_def)
  then have none: "GetOrgMember (ogID row) (coCreatedBy p) (db\<lparr>OrgRows := OrgRows db @ [row], NextOrgID := NextOrgID db + 1\<rparr>) = None"
    by (auto simp: GetOrgMember_def find_None_iff row(1))
  have owners: "ownerIDs (ogID q) (db\<lparr>OrgRows := OrgRows db @ [row], NextOrgID := NextOrgID db + 1, OrgMembers := OrgMembers db @ [\<lparr>omOrg = NextOrgID db, omUser = coCreatedBy p, omRole = ''owner''\<rparr>]\<rparr>) \<noteq> []"
    if "q \<in> set (OrgRows db @ [row])" for q
    using that orgInv_owner [OF assms(2), of q] row(1) by (auto simp: ownerIDs_def filter_empty_conv)
  have "orgInv (db\<lparr>OrgRows := OrgRows db @ [row], NextOrgID := NextOrgID db + 1, OrgMembers := OrgMembers db @ [\<lparr>omOrg = NextOrgID db, omUser = coCreatedBy p, omRole = ''owner''\<rparr>]\<rparr>)"
    unfolding orgInv_def using assms(2) row(1,2) fresh owners by (auto simp: orgInv_def)
  then show ?thesis using none by (simp add: row(3) seatSync_def AddOrgMember_def row(1))
qed (use assms in simp)

lemma CreateTeam_inv:
  assumes "CreateTeam tbl f p db = (r, db')" "orgInv db"
  shows "orgInv db'"
proof (cases "db' = db")
  case False
  then obtain priv where db': "db' = db\<lparr>TeamRows := TeamRows db @ [newTeam tbl p priv (NextTeamID db)], NextTeamID := NextTeamID db + 1\<rparr>"
    using assms(1) by (auto simp: CreateTeam_def Let_def split: option.split_asm if_split_asm sum.split_asm)
  have "teID (newTeam tbl p priv (NextTeamID db)) = NextTeamID db" by (simp add: newTeam_def)
  then show ?thesis using assms(2) unfolding db' orgInv_def by (auto simp: ownerIDs_def)
qed (use assms in simp)

lemma SetTeamParent_inv:
  assumes "SetTeamParent f team parent db = (r, db')" "orgInv db"
  shows "orgInv db'"
proof (cases "db' = db")
  case False
  then obtain np where row: "db' = db\<lparr>TeamRows := map (\<lambda>t. if teID t = team then t\<lparr>teParent := np\<rparr> else t) (TeamRows db)\<rparr>"
    using assms(1) by (auto simp: SetTeamParent_def Let_def split: option.split_asm if_split_asm)
  let ?g = "\<lambda>t. if teID t = team then t\<lparr>teParent := np\<rparr> else t"
  have ids: "map teID (map ?g (TeamRows db)) = map teID (TeamRows db)" by simp
  then have "teID ` set (map ?g (TeamRows db)) = teID ` set (TeamRows db)" by (metis set_map)
  then show ?thesis using assms(2) ids unfolding row orgInv_def by (auto simp: ownerIDs_def simp del: map_map set_map)
qed (use assms in simp)

text \<open>One table replaced by rows that keep its references.\<close>

lemma orgInv_refs:
  "orgInv db \<Longrightarrow> m \<in> set (TeamMemberRows db) \<Longrightarrow> tmUser m \<noteq> 0" "orgInv db \<Longrightarrow> m \<in> set (TeamMemberRows db) \<Longrightarrow> tmTeam m \<in> teID ` set (TeamRows db)"
  "orgInv db \<Longrightarrow> g \<in> set (TeamGrants db) \<Longrightarrow> tgTeam g \<in> teID ` set (TeamRows db)" "orgInv db \<Longrightarrow> g \<in> set (TeamGrants db) \<Longrightarrow> tgRepo g \<in> rpID ` set (OrgRepos db)"
  unfolding orgInv_def by blast+

lemma orgInv_teamMembers:
  "orgInv db \<Longrightarrow> (\<And>m. m \<in> set ms \<Longrightarrow> tmUser m \<noteq> 0 \<and> tmTeam m \<in> teID ` set (TeamRows db)) \<Longrightarrow> orgInv (db\<lparr>TeamMemberRows := ms\<rparr>)"
  unfolding orgInv_def ownerIDs_def by simp

lemma orgInv_grants:
  "orgInv db \<Longrightarrow> (\<And>g. g \<in> set gs \<Longrightarrow> tgTeam g \<in> teID ` set (TeamRows db) \<and> tgRepo g \<in> rpID ` set (OrgRepos db)) \<Longrightarrow> orgInv (db\<lparr>TeamGrants := gs\<rparr>)"
  unfolding orgInv_def ownerIDs_def by simp

lemma orgInv_newRepo:
  "orgInv db \<Longrightarrow> rpID q \<notin> rpID ` set (OrgRepos db) \<Longrightarrow> (\<And>i. rpOrg q = Some i \<Longrightarrow> i \<in> ogID ` set (OrgRows db)) \<Longrightarrow> orgInv (db\<lparr>OrgRepos := OrgRepos db @ [q]\<rparr>)"
  unfolding orgInv_def ownerIDs_def by simp

lemma AddTeamMember_inv:
  assumes "AddTeamMember d f team user role db = (r, db')" "orgInv db" "user \<noteq> 0"
  shows "orgInv db'"
proof -
  have "db' = db \<or> (\<exists>q. team \<in> teID ` set (TeamRows db) \<and> db' = db\<lparr>TeamMemberRows := TeamMemberRows db @ [\<lparr>tmTeam = team, tmUser = user, tmRole = q\<rparr>]\<rparr>)"
    using assms(1) by (auto simp: AddTeamMember_def exists_simps split: sum.split_asm option.split_asm if_split_asm dest!: commits_cases)
  then show ?thesis using assms(2,3) by (elim disjE exE conjE) (auto intro!: orgInv_teamMembers simp: orgInv_refs)
qed

lemma GrantTeamRepoAccess_inv:
  assumes "GrantTeamRepoAccess d f team repo role db = (r, db')" "orgInv db"
  shows "orgInv db'"
proof -
  have "db' = db \<or> (\<exists>q. db' = db\<lparr>TeamGrants := map (\<lambda>g. if tgTeam g = team \<and> tgRepo g = repo then g\<lparr>tgRole := q\<rparr> else g) (TeamGrants db)\<rparr>)
      \<or> (\<exists>q. team \<in> teID ` set (TeamRows db) \<and> repo \<in> rpID ` set (OrgRepos db) \<and> db' = db\<lparr>TeamGrants := TeamGrants db @ [\<lparr>tgTeam = team, tgRepo = repo, tgRole = q\<rparr>]\<rparr>)"
    using assms(1) by (auto simp: GrantTeamRepoAccess_def upsertTeamGrant_def exists_simps split: sum.split_asm option.split_asm if_split_asm dest!: commits_cases)
  then show ?thesis using assms(2) by (elim disjE exE conjE) (auto intro!: orgInv_grants simp: orgInv_refs)
qed

lemma removals_inv:
  assumes "orgInv db"
  shows "RemoveTeamMember f team user db = (r, db') \<Longrightarrow> orgInv db'" "RevokeTeamRepoAccess f team repo db = (r, db') \<Longrightarrow> orgInv db'"
  using assms by (auto simp: RemoveTeamMember_def RevokeTeamRepoAccess_def orgInv_refs dest!: commits_cases intro!: orgInv_teamMembers orgInv_grants)

text \<open>Changes of repositories that keep their ids and organizations.\<close>

lemma orgInv_repos:
  assumes "orgInv db" "\<And>q. rpID (h q) = rpID q \<and> rpOrg (h q) = rpOrg q"
  shows "orgInv (db\<lparr>OrgRepos := map h (OrgRepos db)\<rparr>)"
proof -
  have ids: "map rpID (map h (OrgRepos db)) = map rpID (OrgRepos db)" using assms(2) by simp
  moreover from this have "rpID ` set (map h (OrgRepos db)) = rpID ` set (OrgRepos db)" by (metis set_map)
  moreover have "i \<in> ogID ` set (OrgRows db)" if "q \<in> set (map h (OrgRepos db))" "rpOrg q = Some i" for q i
    using that assms by (auto simp: orgInv_def)
  ultimately show ?thesis using assms(1) unfolding orgInv_def by (auto simp: ownerIDs_def simp del: map_map set_map)
qed

lemma SetVisibility_inv:
  assumes "SetVisibility d f repo vis db = (r, db')" "orgInv db"
  shows "orgInv db'"
  using assms by (auto simp: SetVisibility_def split: option.split_asm if_split_asm dest!: commits_cases intro!: orgInv_repos)

lemma lifecycle_inv:
  assumes "orgInv db"
  shows "SoftDelete f repo db = (r, db') \<Longrightarrow> orgInv db'" "Restore f age taken repo db = (r, db') \<Longrightarrow> orgInv db'"
  using assms by (auto simp: SoftDelete_def Restore_def markRepoDeleted_def split: option.split_asm if_split_asm dest!: commits_cases intro!: orgInv_repos)

lemma UpsertCollabRole_inv: "orgInv db \<Longrightarrow> user \<noteq> 0 \<Longrightarrow> repo \<in> rpID ` set (OrgRepos db) \<Longrightarrow> orgInv (UpsertCollabRole repo user role db)"
  by (auto simp: UpsertCollabRole_def orgInv_def ownerIDs_def)

lemma putCollaborator_inv:
  assumes "putCollaborator tbl d f repo user role db = (r, db')" "orgInv db" "user \<noteq> 0"
  shows "orgInv db'"
  using assms by (auto simp: putCollaborator_def exists_simps split: option.split_asm dest!: commits_cases intro!: UpsertCollabRole_inv)

lemma access_page_inv:
  assumes "orgInv db"
  shows "settingsCollabUpsert tbl f users owner repo name role db = (r, db') \<Longrightarrow> 0 \<notin> ran (userNamed users) \<Longrightarrow> orgInv db'"
    "settingsCollabRemove f repo uid db = (r, db') \<Longrightarrow> orgInv db'"
  using assms by (auto simp: settingsCollabUpsert_def settingsCollabRemove_def Let_def ran_def exists_simps split: if_split_asm option.split_asm
      dest!: commits_cases intro!: UpsertCollabRole_inv) (auto simp: orgInv_def ownerIDs_def)

lemma insertRepo_inv:
  assumes "insertRepo d f i org vis db = (r, db')" "orgInv db"
  shows "orgInv db'"
proof -
  define q where "q = \<lparr>rpID = i, rpOrg = (if org = 0 then None else Some org), rpVisibility = vis, rpDeleted = False\<rparr>"
  have "db' = db \<or> (i \<notin> rpID ` set (OrgRepos db) \<and> (org = 0 \<or> org \<in> ogID ` set (OrgRows db)) \<and> db' = db\<lparr>OrgRepos := OrgRepos db @ [q]\<rparr>)"
    using assms(1) by (auto simp: q_def insertRepo_def exists_simps split: option.split_asm if_split_asm dest!: commits_cases)
  moreover have "rpID q = i" "rpOrg q = (if org = 0 then None else Some org)" by (simp_all add: q_def)
  ultimately show ?thesis using assms(2) by (elim disjE exE conjE) (auto intro!: orgInv_newRepo split: if_split_asm)
qed

lemma forkCreate_effect:
  assumes "forkCreate f a i p db = (r, db')" "db' \<noteq> db"
  shows "\<exists>kind src. db' = db\<lparr>OrgRepos := OrgRepos db @ [forkRow i kind src p]\<rparr> \<and> i \<notin> rpID ` set (OrgRepos db)
    \<and> (kind = ''org'' \<longrightarrow> fkOwnerKind p = ''org'' \<and> fkOwner p \<in> ogID ` set (OrgRows db))"
proof -
  define kind where "kind = (if fkOwnerKind p = '''' then ''user'' else fkOwnerKind p)"
  have "\<exists>src. db' = db\<lparr>OrgRepos := OrgRepos db @ [forkRow i kind src p]\<rparr> \<and> i \<notin> rpID ` set (OrgRepos db)
      \<and> (kind = ''org'' \<longrightarrow> fkOwner p \<in> ogID ` set (OrgRows db))"
    using assms unfolding forkCreate_def kind_def [symmetric] Let_def exists_simps
    by (auto split: option.split_asm if_split_asm dest!: commits_cases)
  moreover have "kind = ''org'' \<longrightarrow> fkOwnerKind p = ''org''" by (simp add: kind_def)
  ultimately show ?thesis by blast
qed

lemma forkCreate_inv:
  assumes "forkCreate f a i p db = (r, db')" "orgInv db"
  shows "orgInv db'"
proof (cases "db' = db")
  case False
  obtain kind src where e: "db' = db\<lparr>OrgRepos := OrgRepos db @ [forkRow i kind src p]\<rparr>" "i \<notin> rpID ` set (OrgRepos db)"
      "kind = ''org'' \<longrightarrow> fkOwner p \<in> ogID ` set (OrgRows db)"
    using forkCreate_effect [OF assms(1) False] by blast
  moreover have "rpID (forkRow i kind src p) = i" "rpOrg (forkRow i kind src p) = (if kind = ''org'' then Some (fkOwner p) else None)" by (simp_all add: forkRow_def)
  ultimately show ?thesis using assms(2) by (auto intro!: orgInv_newRepo split: if_split_asm)
qed (use assms in simp)

lemma settingsTeamGrant_inv:
  assumes "settingsTeamGrant f row tid role db = (r, db')" "orgInv db"
  shows "orgInv db'"
proof -
  have "db' = db \<or> (\<exists>team q. team \<in> teID ` set (TeamRows db) \<and> rpID row \<in> rpID ` set (OrgRepos db) \<and> db' = upsertTeamGrant team (rpID row) q db)"
    using assms(1) by (auto simp: settingsTeamGrant_def exists_simps GetTeamByID_def find_Some_iff split: option.split_asm if_split_asm dest!: commits_cases)
  then show ?thesis using assms(2) by (elim disjE exE conjE) (auto intro!: orgInv_grants simp: upsertTeamGrant_def orgInv_refs)
qed

lemma invitations_inv:
  assumes "orgInv db"
  shows "Invite tbl d f users now hash p db = (r, db') \<Longrightarrow> orgInv db'"
    "DeclineInvitation tbl f users now iv u db = (r', db') \<Longrightarrow> orgInv db'"
    "CancelInvitation f now iv db = (r', db') \<Longrightarrow> orgInv db'"
  using assms by (auto simp: Invite_def DeclineInvitation_def CancelInvitation_def markInvitation_def Let_def
      split: if_split_asm option.split_asm sum.split_asm prod.split_asm dest!: commits_cases)

lemma AcceptInvitation_inv:
  assumes "AcceptInvitation tbl d f users now iv u db = (r, db')" "orgInv db" "u \<noteq> 0"
  shows "orgInv db'"
  using assms AddOrgMember_inv [OF assms(2,3), of "ivOrg iv" "ivRole iv"]
  by (auto simp: AcceptInvitation_def seatSync_def markInvitation_def exists_simps split: option.split_asm dest!: commits_cases)

section \<open>Runs\<close>

text \<open>
  One operation, successful or not, from its first statement to its last: operations do not overlap, although in the code the
  check of an operation and its write are mostly statements of their own. \<open>billing\<close> restricts what the billing tables say.
  \<open>bypass\<close> admits the operations that add collaborators without asking about the limit: giving a team another parent, entering
  a collaborator or a team on the access page, restoring a repository, and forking one into an organization. The ids of users
  are positive.
\<close>

inductive orgStep :: "bool \<Rightarrow> (EntDeps \<Rightarrow> bool) \<Rightarrow> 'x OrgTables_scheme \<Rightarrow> 'x OrgTables_scheme \<Rightarrow> bool" for bypass billing where
  OrgCreated: "CreateOrg tbl f p db = (r1, db') \<Longrightarrow> orgStep bypass billing db db'"
| MemberAdded: "AddMember d f org user role db = (r, db') \<Longrightarrow> billing d \<Longrightarrow> user \<noteq> 0 \<Longrightarrow> orgStep bypass billing db db'"
| RoleChanged: "ChangeRole d f org user role db = (r, db') \<Longrightarrow> billing d \<Longrightarrow> orgStep bypass billing db db'"
| MemberRemoved: "RemoveMember f org user db = (r, db') \<Longrightarrow> orgStep bypass billing db db'"
| TeamCreated: "CreateTeam tbl f tp db = (r2, db') \<Longrightarrow> orgStep bypass billing db db'"
| TeamMoved: "SetTeamParent f team parent db = (r, db') \<Longrightarrow> bypass \<Longrightarrow> orgStep bypass billing db db'"
| TeamMemberAdded: "AddTeamMember d f team user role db = (r, db') \<Longrightarrow> billing d \<Longrightarrow> user \<noteq> 0 \<Longrightarrow> orgStep bypass billing db db'"
| TeamMemberRemoved: "RemoveTeamMember f team user db = (r, db') \<Longrightarrow> orgStep bypass billing db db'"
| AccessGranted: "GrantTeamRepoAccess d f team repo role db = (r, db') \<Longrightarrow> billing d \<Longrightarrow> orgStep bypass billing db db'"
| AccessRevoked: "RevokeTeamRepoAccess f team repo db = (r, db') \<Longrightarrow> orgStep bypass billing db db'"
| VisibilityChanged: "SetVisibility d f repo vis db = (r, db') \<Longrightarrow> billing d \<Longrightarrow> orgStep bypass billing db db'"
| CollaboratorPut: "putCollaborator tbl d f repo user role db = (r, db') \<Longrightarrow> billing d \<Longrightarrow> user \<noteq> 0 \<Longrightarrow> orgStep bypass billing db db'"
| CollaboratorSaved: "settingsCollabUpsert tbl f users owner repo name role db = (r, db') \<Longrightarrow> bypass \<Longrightarrow> 0 \<notin> ran (userNamed users) \<Longrightarrow> orgStep bypass billing db db'"
| CollaboratorRemoved: "settingsCollabRemove f repo uid db = (r, db') \<Longrightarrow> orgStep bypass billing db db'"
| TeamGrantSaved: "settingsTeamGrant f row tid role db = (r, db') \<Longrightarrow> bypass \<Longrightarrow> orgStep bypass billing db db'"
| RepoDeleted: "SoftDelete f repo db = (r, db') \<Longrightarrow> orgStep bypass billing db db'"
| RepoRestored: "Restore f age taken repo db = (r, db') \<Longrightarrow> bypass \<Longrightarrow> orgStep bypass billing db db'"
| RepoForked: "forkCreate f a i fp db = (r, db') \<Longrightarrow> bypass \<or> fkOwnerKind fp \<noteq> ''org'' \<Longrightarrow> orgStep bypass billing db db'"
| RepoCreated: "insertRepo d f i org vis db = (r, db') \<Longrightarrow> billing d \<Longrightarrow> orgStep bypass billing db db'"
| Invited: "Invite tbl d f users now hash ip db = (r3, db') \<Longrightarrow> billing d \<Longrightarrow> orgStep bypass billing db db'"
| InvitationAccepted: "AcceptInvitation tbl d f users now iv user db = (r, db') \<Longrightarrow> billing d \<Longrightarrow> user \<noteq> 0 \<Longrightarrow> orgStep bypass billing db db'"
| InvitationDeclined: "DeclineInvitation tbl f users now iv user db = (r, db') \<Longrightarrow> orgStep bypass billing db db'"
| InvitationCanceled: "CancelInvitation f now iv db = (r, db') \<Longrightarrow> orgStep bypass billing db db'"

lemma orgStep_inv: "orgInv db \<Longrightarrow> orgStep bypass billing db db' \<Longrightarrow> orgInv db'"
  by (erule orgStep.cases)
     (blast intro: CreateOrg_inv AddMember_inv ChangeRole_inv RemoveMember_inv CreateTeam_inv SetTeamParent_inv AddTeamMember_inv removals_inv
       GrantTeamRepoAccess_inv SetVisibility_inv putCollaborator_inv access_page_inv insertRepo_inv invitations_inv AcceptInvitation_inv
       lifecycle_inv forkCreate_inv settingsTeamGrant_inv)+

interpretation org_runs: kept_invariant "orgStep bypass billing" orgInv
  by unfold_locales (rule orgStep_inv)

definition emptyOrgs :: OrgTables where
  "emptyOrgs = \<lparr>OrgRows = [], NextOrgID = 1, UserSlugs = [], OrgMembers = [], TeamRows = [], NextTeamID = 1, TeamMemberRows = [], TeamGrants = [],
     OrgRepos = [], Collaborators = [], Invitations = [], NextInvitationID = 1, SeatSyncJobs = []\<rparr>"

lemma emptyOrgs_inv: "orgInv emptyOrgs"
  by (simp add: orgInv_def emptyOrgs_def)

text \<open>
  C4. Every organization keeps an owner: after any sequence of operations from an empty database, successful or
  failed, in any order and with any billing, one after the other, each existing organization has a member with the role
  owner, whom \<open>IsOwner\<close> recognizes unless its query fails, and nobody is a member of an organization twice.
\<close>

theorem organizations_keep_an_owner:
  assumes "(orgStep bypass billing)\<^sup>*\<^sup>* emptyOrgs db" "org \<in> ogID ` set (OrgRows db)"
  shows "(\<exists>m \<in> set (OrgMembers db). omOrg m = org \<and> omRole m = ''owner'' \<and> IsOwner f org (omUser m) db \<in> {Inr True} \<union> range Inl)
    \<and> distinct (map (\<lambda>m. (omOrg m, omUser m)) (OrgMembers db))"
proof -
  have inv: "orgInv db" by (rule org_runs.reachable_inv [OF assms(1) emptyOrgs_inv])
  then obtain m where m: "m \<in> set (OrgMembers db)" "omOrg m = org" "omRole m = ''owner''" using orgInv_owner assms(2) by blast
  have "inj_on (\<lambda>m. (omOrg m, omUser m)) (set (OrgMembers db))" using inv by (simp add: orgInv_def distinct_map)
  moreover obtain q where q: "GetOrgMember org (omUser m) db = Some q" using m by (cases "GetOrgMember org (omUser m) db") (auto simp: GetOrgMember_None)
  ultimately have "q = m" using GetOrgMember_Some [OF q] m by (auto dest: inj_onD)
  then have "IsOwner f org (omUser m) db \<in> {Inr True} \<union> range Inl" using m q by (auto simp: IsOwner_def split: option.split)
  then show ?thesis using m inv by (auto simp: orgInv_def)
qed

definition demoParams :: CreateOrgParams where
  "demoParams = \<lparr>coSlug = ''acme'', coDisplayName = ''Acme'', coDescription = ''d'', coBillingEmail = ''a@b'', coCreatedBy = 7\<rparr>"

definition demoOrg :: OrgTables where
  "demoOrg = emptyOrgs\<lparr>OrgRows := [\<lparr>ogID = 1, ogSlug = ''acme'', ogDisplayName = ''Acme'', ogDescription = ''d'', ogBillingEmail = ''a@b'', ogCreatedBy = 7\<rparr>],
     NextOrgID := 2, OrgMembers := [\<lparr>omOrg = 1, omUser = 7, omRole = ''owner''\<rparr>], SeatSyncJobs := [1]\<rparr>"

definition demoPrivate :: OrgTables where
  "demoPrivate = demoOrg\<lparr>OrgRepos := [\<lparr>rpID = 1, rpOrg = Some 1, rpVisibility = ''private'', rpDeleted = False\<rparr>]\<rparr>"

lemma demo_trimmed: "TrimSpace ''acme'' = ''acme''" "TrimSpace ''Acme'' = ''Acme''" "TrimSpace ''d'' = ''d''" "TrimSpace ''a@b'' = ''a@b''" "ToLower tbl ''acme'' = ''acme''"
  by (rule TrimSpace_id; simp add: graphic_def)+ (simp add: ToLower_ascii ascii_def ascii_lower_def is_ascii_upper_def)

lemma demo_org_run: "billing freeBilling \<Longrightarrow> (orgStep bypass billing)\<^sup>*\<^sup>* emptyOrgs demoPrivate"
proof -
  assume paid: "billing freeBilling"
  have "CreateOrg (\<lambda>c. c) (\<lambda>_. None) demoParams emptyOrgs = (Inr (hd (OrgRows demoOrg)), demoOrg)"
    by (simp add: CreateOrg_def demoParams_def demo_trimmed slugRE_def slugAlnum_def is_ascii_lower_def IsReserved_def reservedNames_def newOrg_def Let_def commits_def
        emptyOrgs_def demoOrg_def seatSync_def AddOrgMember_def GetOrgMember_def less_eq_char_def failing.simps(2))
  then have "orgStep bypass billing emptyOrgs demoOrg" by (rule OrgCreated)
  moreover have "insertRepo freeBilling (\<lambda>_. None) 1 1 ''private'' demoOrg = (Inr (), demoPrivate)"
    by code_simp
  then have "orgStep bypass billing demoOrg demoPrivate"
    by (rule RepoCreated) (rule paid)
  ultimately show ?thesis by simp
qed

theorem organizations_keep_an_owner_witness: "\<exists>m \<in> set (OrgMembers demoPrivate). omOrg m = 1 \<and> omRole m = ''owner'' \<and> IsOwner (\<lambda>_. None) 1 (omUser m) demoPrivate = Inr True"
proof -
  have "1 \<in> ogID ` set (OrgRows demoPrivate)" by (simp add: demoPrivate_def demoOrg_def)
  from organizations_keep_an_owner [OF demo_org_run [of "\<lambda>_. True", OF TrueI] this, of "\<lambda>_. None"] show ?thesis by (auto simp: IsOwner_def failing.simps(2))
qed

text \<open>
  Calls that overlap can remove the last owner: two owners are demoted at once, the checks of both pass, and then both
  writes follow. One after the other, the second demotion is refused.
\<close>

definition twoOwners :: OrgTables where
  "twoOwners = demoOrg\<lparr>OrgMembers := [\<lparr>omOrg = 1, omUser = 7, omRole = ''owner''\<rparr>, \<lparr>omOrg = 1, omUser = 8, omRole = ''owner''\<rparr>]\<rparr>"

lemma overlapping_demotions_leave_no_owner:
  "roleChecks freeBilling (\<lambda>_. None) 1 7 ''member'' twoOwners = Inr ''member'' \<and> roleChecks freeBilling (\<lambda>_. None) 1 8 ''member'' twoOwners = Inr ''member''
   \<and> ownerIDs 1 (ChangeOrgMemberRole 1 8 ''member'' (ChangeOrgMemberRole 1 7 ''member'' twoOwners)) = []
   \<and> fst (ChangeRole freeBilling (\<lambda>_. None) 1 8 ''member'' (snd (ChangeRole freeBilling (\<lambda>_. None) 1 7 ''member'' twoOwners))) = Inl ErrLastOwner"
  by code_simp

end
