(* ===== verification/OrgLimits.thy ===== *)
theory OrgLimits
  imports OrgSafety
begin

text \<open>
  The limit on the collaborators of private repositories: an organization that does not pay for more never has more
  than three, whatever sequence of the operations that ask about the limit is run; and the operations that escape the check.
\<close>

section \<open>Who can reach the private repositories\<close>

lemma in_granting: "i \<in> set (grantingTeams g rs db) \<longleftrightarrow> (\<exists>t \<in> set (TeamRows db). teID t = i \<and> teOrg t = g \<and> (\<exists>a \<in> set (TeamGrants db). tgTeam a = i \<and> tgRepo a \<in> set rs))"
  by (auto simp: grantingTeams_def list_ex_iff)

text \<open>Somebody reaches a repository through a team when a grant is to his team or to its parent.\<close>

definition teamPath :: "go_int64 \<Rightarrow> go_int64 set \<Rightarrow> 'x OrgTables_scheme \<Rightarrow> TeamMember \<Rightarrow> Team \<Rightarrow> TeamGrant \<Rightarrow> Team \<Rightarrow> bool" where
  "teamPath g rs db m t a t' \<longleftrightarrow> m \<in> set (TeamMemberRows db) \<and> t \<in> set (TeamRows db) \<and> a \<in> set (TeamGrants db) \<and> t' \<in> set (TeamRows db)
    \<and> teID t = tmTeam m \<and> teOrg t = g \<and> tgRepo a \<in> rs \<and> teID t' = tgTeam a \<and> teOrg t' = g \<and> (teID t = tgTeam a \<or> teParent t = Some (tgTeam a))"

lemma in_grantedMembers:
  "u \<in> set (grantedMemberIDs g (grantingTeams g rs db) db) \<longleftrightarrow> (\<exists>m t a t'. teamPath g (set rs) db m t a t' \<and> tmUser m = u)"
proof -
  let ?G = "set (grantingTeams g rs db)"
  have "(i \<in> G \<or> (case p of Some q \<Rightarrow> q \<in> G | None \<Rightarrow> False)) \<longleftrightarrow> (\<exists>j \<in> G. i = j \<or> p = Some j)" for i p and G :: "go_int64 set"
    by (auto split: option.split)
  then have "u \<in> set (grantedMemberIDs g (grantingTeams g rs db) db) \<longleftrightarrow>
      (\<exists>m \<in> set (TeamMemberRows db). tmUser m = u \<and> (\<exists>t \<in> set (TeamRows db). teID t = tmTeam m \<and> teOrg t = g \<and> (\<exists>j \<in> ?G. teID t = j \<or> teParent t = Some j)))"
    unfolding grantedMemberIDs_def list_ex_iff set_map set_filter image_iff by (simp add: Bex_def) blast
  also have "\<dots> \<longleftrightarrow> (\<exists>m t a t'. teamPath g (set rs) db m t a t' \<and> tmUser m = u)" (is "?l \<longleftrightarrow> ?r")
  proof
    assume ?l
    then obtain m t t' a where "m \<in> set (TeamMemberRows db)" "tmUser m = u" "t \<in> set (TeamRows db)" "teID t = tmTeam m" "teOrg t = g"
        "t' \<in> set (TeamRows db)" "teOrg t' = g" "a \<in> set (TeamGrants db)" "tgTeam a = teID t'" "tgRepo a \<in> set rs" "teID t = tgTeam a \<or> teParent t = Some (tgTeam a)"
      unfolding Bex_def in_granting by metis
    then show ?r unfolding teamPath_def by (intro exI [of _ m] exI [of _ t] exI [of _ a] exI [of _ t']) simp
  next
    assume ?r
    then obtain m t a t' where *: "teamPath g (set rs) db m t a t'" "tmUser m = u" by blast
    then have "tgTeam a \<in> ?G" unfolding in_granting by (auto simp: teamPath_def)
    then show ?l using * unfolding teamPath_def by blast
  qed
  finally show ?thesis .
qed

lemma granted_subset:
  "(\<And>m t a t'. teamPath g (set rs') db' m t a t' \<Longrightarrow> tmUser m \<in> S) \<Longrightarrow> set (grantedMemberIDs g (grantingTeams g rs' db') db') \<subseteq> S"
  by (auto simp: in_grantedMembers)

lemma granted_member: "teamPath g (set rs) db m t a t' \<Longrightarrow> tmUser m \<in> set (grantedMemberIDs g (grantingTeams g rs db) db)"
  by (auto simp: in_grantedMembers)

lemma in_collaborators: "u \<in> set (collaboratorIDs rs db) \<longleftrightarrow> (\<exists>c \<in> set (Collaborators db). clUser c = u \<and> clRepo c \<in> set rs)"
  by (auto simp: collaboratorIDs_def)

lemma in_privateCollaborators:
  "u \<in> set (privateCollaborators g db) \<longleftrightarrow> (privateRepoIDs g db \<noteq> [] \<and> u \<in> set (ownerIDs g db)) \<or> u \<in> set (collaboratorIDs (privateRepoIDs g db) db)
    \<or> u \<in> set (grantedMemberIDs g (grantingTeams g (privateRepoIDs g db) db) db)"
  by (auto simp: privateCollaborators_def Let_def)

lemma no_private_repos: "privateRepoIDs g db = [] \<Longrightarrow> privateCollaborators g db = []"
proof -
  assume "privateRepoIDs g db = []"
  then have "u \<notin> set (privateCollaborators g db)" for u unfolding in_privateCollaborators by (simp add: in_collaborators in_grantedMembers teamPath_def)
  then show ?thesis by (metis last_in_set)
qed

lemma privateCollaborators_card: "length (privateCollaborators g db) = card (set (privateCollaborators g db))"
  by (rule distinct_card [symmetric]) (simp add: privateCollaborators_def Let_def)

lemma newCandidates_card: "finite cur \<Longrightarrow> newCandidates us cur = int (card ((set us - {0}) - cur))"
proof (induction us arbitrary: cur)
  case (Cons u us)
  show ?case
  proof (cases "u = 0 \<or> u \<in> cur")
    case True
    then have "set (u # us) - {0} - cur = set us - {0} - cur" by auto
    then show ?thesis using True Cons by auto
  next
    case False
    then have "set (u # us) - {0} - cur = insert u (set us - {0} - insert u cur)" by auto
    moreover have "u \<notin> set us - {0} - insert u cur" by simp
    ultimately show ?thesis using False Cons by simp
  qed
qed simp

text \<open>The billing of an organization that does not pay for unlimited private collaboration.\<close>

definition unpaid :: "go_int64 \<Rightarrow> EntDeps \<Rightarrow> bool" where
  "unpaid g d \<longleftrightarrow> (\<forall>st. GetOrgBillingState d g = Inr st \<longrightarrow> \<not> goodStanding ''team'' (entNow d) st)"

lemma unpaid_limit:
  assumes "unpaid g d" "privateCollaborationUsageWithIDs d f g db = Inr (u, ids)"
  shows "\<not> pcuUnlimited u" "pcuLimit u = FreePrivateCollaborationLimit" "pcuCount u = int (length (privateCollaborators g db))" "ids = privateCollaborators g db"
proof -
  obtain s lim where s: "LoadPrincipal d (PrincipalForOrg g) = Inr s" "SetLimit s ''private_collaboration_limit'' = Inr lim" "ids = privateCollaborators g db"
      "pcuUnlimited u = lvUnlimited lim" "pcuLimit u = lvValue lim" "pcuCount u = int (length ids)"
    using assms(2) by (auto simp: privateCollaborationUsageWithIDs_def LoaderForOrg_def currentPrivateCollaboratorIDs_def queryIDSet_def distinct_remdups_id
        privateCollaborators_def Let_def split: if_split_asm sum.split_asm option.split_asm)
  have st: "esPrincipal s = PrincipalForOrg g" "esNow s = entNow d" "GetOrgBillingState d g = Inr (esState s)"
    using s(1) by (auto simp: LoadPrincipal_def PrincipalForOrg_def split: if_split_asm option.split_asm sum.split_asm)
  then have "\<not> goodStanding ''team'' (esNow s) (esState s)" using assms(1) by (auto simp: unpaid_def)
  then have "\<not> fdAllowed (CanUse s ''private_collaboration_limit'')"
    using st(1) by (simp add: CanUse_def PrincipalForOrg_def decide_allowed)
  then have "\<not> lvUnlimited lim \<and> lvValue lim = FreePrivateCollaborationLimit" using s(2) by (auto simp: SetLimit_def limitFeature_def Let_def)
  then show "\<not> pcuUnlimited u" "pcuLimit u = FreePrivateCollaborationLimit" "pcuCount u = int (length (privateCollaborators g db))" "ids = privateCollaborators g db"
    using s by simp_all
qed

text \<open>What an admitted expansion says: the collaborators and the candidates together are within the limit.\<close>

abbreviation withinLimit :: "go_int64 \<Rightarrow> 'x OrgTables_scheme \<Rightarrow> bool" where
  "withinLimit g db \<equiv> int (card (set (privateCollaborators g db))) \<le> FreePrivateCollaborationLimit"

lemma admitted_expansion:
  assumes "unpaid g d" "CheckPrivateCollaborationExpansion d f g us 0 db = Inr c" "pccAllowed c" "withinLimit g db"
  shows "int (card (set (privateCollaborators g db) \<union> (set us - {0}))) \<le> FreePrivateCollaborationLimit"
proof -
  obtain u ids where u: "privateCollaborationUsageWithIDs d f g db = Inr (u, ids)" using assms(2)
    by (auto simp: CheckPrivateCollaborationExpansion_def split: sum.split_asm)
  note l = unpaid_limit [OF assms(1) u]
  let ?n = "set us - {0} - set (privateCollaborators g db)"
  have "newCandidates us (set ids) = int (card ?n)" by (simp add: newCandidates_card l(4))
  then have "card ?n = 0 \<or> pcuCount u + int (card ?n) \<le> FreePrivateCollaborationLimit"
    using assms(2,3) l u by (auto simp: CheckPrivateCollaborationExpansion_def Let_def usageCheck_def split: if_split_asm)
  moreover have "set (privateCollaborators g db) \<union> (set us - {0}) = set (privateCollaborators g db) \<union> ?n" by blast
  moreover have "card (set (privateCollaborators g db) \<union> ?n) = card (set (privateCollaborators g db)) + card ?n" by (rule card_Un_disjoint) auto
  ultimately show ?thesis using assms(4) l(3) by (simp only: privateCollaborators_card) linarith
qed

lemma within_if_subset:
  assumes "withinLimit g db" "set (privateCollaborators g db') \<subseteq> set (privateCollaborators g db)"
  shows "withinLimit g db'"
  using card_mono [OF _ assms(2)] assms(1) by simp

lemma within_if_admitted:
  assumes "unpaid g d" "refusal (CheckPrivateCollaborationExpansion d f g us 0 db) = None" "withinLimit g db"
    "set (privateCollaborators g db') \<subseteq> set (privateCollaborators g db) \<union> (set us - {0})"
  shows "withinLimit g db'"
proof -
  obtain c where "CheckPrivateCollaborationExpansion d f g us 0 db = Inr c" "pccAllowed c" using assms(2) by (auto simp: refusal_None)
  then have "int (card (set (privateCollaborators g db) \<union> (set us - {0}))) \<le> FreePrivateCollaborationLimit" using admitted_expansion assms by blast
  moreover have "card (set (privateCollaborators g db')) \<le> card (set (privateCollaborators g db) \<union> (set us - {0}))" by (rule card_mono [OF _ assms(4)]) simp
  ultimately show ?thesis by simp
qed

subsection \<open>Changes of members\<close>

text \<open>Two states that agree on everything but members and organizations.\<close>

definition sameAccess :: "'x OrgTables_scheme \<Rightarrow> 'x OrgTables_scheme \<Rightarrow> bool" where
  "sameAccess db db' \<longleftrightarrow> OrgRepos db' = OrgRepos db \<and> Collaborators db' = Collaborators db \<and> TeamRows db' = TeamRows db
    \<and> TeamMemberRows db' = TeamMemberRows db \<and> TeamGrants db' = TeamGrants db"

lemma owners_grow:
  assumes "sameAccess db db'" "set (ownerIDs g db') \<subseteq> set (ownerIDs g db) \<union> A"
  shows "privateRepoIDs g db' = privateRepoIDs g db" "set (privateCollaborators g db') \<subseteq> set (privateCollaborators g db) \<union> A"
proof -
  show "privateRepoIDs g db' = privateRepoIDs g db" using assms(1) by (simp add: sameAccess_def privateRepoIDs_def)
  moreover have "collaboratorIDs rs db' = collaboratorIDs rs db" "grantedMemberIDs g (grantingTeams g rs db') db' = grantedMemberIDs g (grantingTeams g rs db) db" for rs
    using assms(1) by (simp_all add: sameAccess_def collaboratorIDs_def grantedMemberIDs_def grantingTeams_def)
  ultimately show "set (privateCollaborators g db') \<subseteq> set (privateCollaborators g db) \<union> A"
    using assms(2) unfolding subset_iff Un_iff in_privateCollaborators by auto
qed

lemma no_owner_within: "withinLimit g db \<Longrightarrow> sameAccess db db' \<Longrightarrow> set (ownerIDs g db') \<subseteq> set (ownerIDs g db) \<Longrightarrow> withinLimit g db'"
  using owners_grow(2) [of db db' g "{}"] within_if_subset [of g db db'] by simp

lemma owner_within:
  assumes "unpaid g d" "withinLimit g db" "user \<noteq> 0" "refusal (CheckOrgOwnerPrivateCollaboration d f org user db) = None"
    "sameAccess db db'" "set (ownerIDs g db') \<subseteq> set (ownerIDs g db) \<union> (if org = g then {user} else {})"
  shows "withinLimit g db'"
proof (cases "org = g \<and> privateRepoIDs g db \<noteq> []")
  case True
  then have "refusal (CheckPrivateCollaborationExpansion d f g [user] 0 db) = None"
    using assms(4) by (auto simp: CheckOrgOwnerPrivateCollaboration_def orgHasPrivateRepos_def refusal_def split: sum.split_asm if_split_asm option.split_asm)
  then show ?thesis using within_if_admitted [OF assms(1) _ assms(2), of f "[user]" db'] owners_grow(2) [OF assms(5,6)] assms(3) True by auto
next
  case False
  then show ?thesis using no_owner_within [OF assms(2,5)] no_private_repos [of g db'] owners_grow(1) [OF assms(5,6)] assms(6)
    by (cases "org = g") (simp_all add: FreePrivateCollaborationLimit_def)
qed

lemma seatSync_frame [simp]: "sameAccess db (seatSync org db') = sameAccess db db'" "ownerIDs g (seatSync org db) = ownerIDs g db"
  "privateCollaborators g (seatSync org db) = privateCollaborators g db"
  by (simp_all add: sameAccess_def seatSync_def ownerIDs_def privateCollaborators_def Let_def privateRepoIDs_def collaboratorIDs_def grantedMemberIDs_def grantingTeams_def)

lemma AddOrgMember_frame:
  "sameAccess db (AddOrgMember org user r db)" "set (ownerIDs g (AddOrgMember org user r db)) \<subseteq> set (ownerIDs g db) \<union> (if org = g \<and> r = ''owner'' then {user} else {})"
  by (auto simp add: sameAccess_def AddOrgMember_def ownerIDs_def simp del: set_filter)

lemma AddMember_within:
  assumes "AddMember d f org user role db = (r, db')" "unpaid g d" "withinLimit g db" "user \<noteq> 0"
  shows "withinLimit g db'"
proof (cases "db' = db")
  case False
  then obtain q where q: "db' = seatSync org (AddOrgMember org user q db)" "q = ''owner'' \<longrightarrow> refusal (CheckOrgOwnerPrivateCollaboration d f org user db) = None"
    using assms(1) by (auto simp: AddMember_def split: sum.split_asm option.split_asm if_split_asm dest!: commits_cases)
  have "withinLimit g (AddOrgMember org user q db)"
  proof (cases "q = ''owner''")
    case True
    then show ?thesis using owner_within [OF assms(2-4), of f org] AddOrgMember_frame(1) [of db org user q] AddOrgMember_frame(2) [of g org user q db] q(2) by simp
  next
    case False
    then show ?thesis using no_owner_within [OF assms(3)] AddOrgMember_frame(1) [of db org user q] AddOrgMember_frame(2) [of g org user q db] by simp
  qed
  then show ?thesis by (simp add: q(1))
qed (use assms in simp)

lemma AcceptInvitation_within:
  assumes "AcceptInvitation tbl d f users now iv user db = (r, db')" "unpaid g d" "withinLimit g db" "user \<noteq> 0"
  shows "withinLimit g db'"
proof (cases "db' = db")
  case False
  let ?new = "AddOrgMember (ivOrg iv) user (ivRole iv) db"
  have mark: "privateCollaborators g (markInvitation i h db0) = privateCollaborators g db0" for i h and db0 :: "'a OrgTables_scheme"
    by (simp add: markInvitation_def privateCollaborators_def Let_def privateRepoIDs_def collaboratorIDs_def grantedMemberIDs_def grantingTeams_def ownerIDs_def)
  have q: "db' = seatSync (ivOrg iv) (markInvitation (ivID iv) (\<lambda>v. v\<lparr>ivAccepted := True\<rparr>) ?new)"
      "ivRole iv = ''owner'' \<longrightarrow> refusal (CheckOrgOwnerPrivateCollaboration d f (ivOrg iv) user db) = None"
    using assms(1) False by (auto simp: AcceptInvitation_def split: option.split_asm if_split_asm dest!: commits_cases)
  have "withinLimit g ?new"
  proof (cases "ivRole iv = ''owner''")
    case True
    then show ?thesis using owner_within [OF assms(2-4), of f "ivOrg iv"] AddOrgMember_frame(1) [of db "ivOrg iv" user "ivRole iv"]
      AddOrgMember_frame(2) [of g "ivOrg iv" user "ivRole iv" db] q(2) by simp
  next
    case False
    then show ?thesis using no_owner_within [OF assms(3)] AddOrgMember_frame(1) [of db "ivOrg iv" user "ivRole iv"]
      AddOrgMember_frame(2) [of g "ivOrg iv" user "ivRole iv" db] by simp
  qed
  then show ?thesis by (simp add: q(1) mark)
qed (use assms in simp)

lemma ChangeRole_within:
  assumes "ChangeRole d f org user role db = (r, db')" "unpaid g d" "withinLimit g db" "orgInv db"
  shows "withinLimit g db'"
proof (cases "db' = db")
  case False
  let ?db = "\<lambda>q. db\<lparr>OrgMembers := map (\<lambda>m. if omOrg m = org \<and> omUser m = user then m\<lparr>omRole := q\<rparr> else m) (OrgMembers db)\<rparr>"
  obtain q cur where q: "GetOrgMember org user db = Some cur" "db' = ?db q"
      "omRole cur \<noteq> ''owner'' \<and> q = ''owner'' \<longrightarrow> refusal (CheckOrgOwnerPrivateCollaboration d f org user db) = None"
    using assms(1) False by (auto simp: ChangeRole_def roleChecks_def ChangeOrgMemberRole_def split: sum.split_asm option.split_asm if_split_asm dest!: commits_cases)
  have cur: "cur \<in> set (OrgMembers db)" "omOrg cur = org" "omUser cur = user" using GetOrgMember_Some [OF q(1)] by auto
  then have user: "user \<noteq> 0" using assms(4) by (auto simp: orgInv_def)
  have same: "sameAccess db (?db q)" by (simp add: sameAccess_def)
  have own: "set (ownerIDs g (?db q)) \<subseteq> set (ownerIDs g db) \<union> (if org = g then if q = ''owner'' then {user} else {} else {})"
  proof
    fix x assume "x \<in> set (ownerIDs g (?db q))"
    then obtain m where "m \<in> set (OrgMembers db)" "x = omUser m" "omOrg m = g" "if omOrg m = org \<and> omUser m = user then q = ''owner'' else omRole m = ''owner''"
      by (auto simp: ownerIDs_def split: if_split_asm)
    then show "x \<in> set (ownerIDs g db) \<union> (if org = g then if q = ''owner'' then {user} else {} else {})" by (auto simp: ownerIDs_def split: if_split_asm)
  qed
  show ?thesis
  proof (cases "omRole cur \<noteq> ''owner'' \<and> q = ''owner''")
    case True
    show ?thesis unfolding q(2) by (rule owner_within [OF assms(2,3) user _ same]) (use True q(3) own in auto)
  next
    case False
    have "org = g \<and> q = ''owner'' \<longrightarrow> user \<in> set (ownerIDs g db)" using False cur by (auto simp: ownerIDs_def)
    then have "set (ownerIDs g (?db q)) \<subseteq> set (ownerIDs g db)" using own by (auto split: if_split_asm)
    then show ?thesis unfolding q(2) by (rule no_owner_within [OF assms(3) same])
  qed
qed (use assms in simp)

lemma RemoveMember_within:
  assumes "RemoveMember f org user db = (r, db')" "withinLimit g db"
  shows "withinLimit g db'"
proof (cases "db' = db")
  case False
  let ?db = "db\<lparr>OrgMembers := filter (\<lambda>m. \<not> (omOrg m = org \<and> omUser m = user)) (OrgMembers db)\<rparr>"
  have db': "db' = seatSync org ?db"
    using assms(1) False by (auto simp: RemoveMember_def split: option.split_asm if_split_asm dest!: commits_cases)
  have "withinLimit g ?db" by (rule no_owner_within [OF assms(2)]) (auto simp: sameAccess_def ownerIDs_def)
  then show ?thesis by (simp add: db')
qed (use assms in simp)

lemma CreateOrg_within:
  assumes "CreateOrg tbl f p db = (r, db')" "withinLimit g db" "orgInv db"
  shows "withinLimit g db'"
proof (cases "db' = db")
  case False
  define row where "row = newOrg tbl p (NextOrgID db)"
  let ?db = "db\<lparr>OrgRows := OrgRows db @ [row], NextOrgID := NextOrgID db + 1\<rparr>"
  have row: "ogID row = NextOrgID db" "db' = seatSync (ogID row) (AddOrgMember (ogID row) (coCreatedBy p) ''owner'' ?db)"
    using assms(1) False by (auto simp: row_def CreateOrg_def newOrg_def Let_def split: option.split_asm if_split_asm prod.split_asm sum.split_asm dest!: commits_cases)
  have same: "sameAccess db (AddOrgMember (ogID row) (coCreatedBy p) ''owner'' ?db)" by (simp add: sameAccess_def AddOrgMember_def)
  have own: "set (ownerIDs g (AddOrgMember (ogID row) (coCreatedBy p) ''owner'' ?db)) \<subseteq> set (ownerIDs g db) \<union> (if g = NextOrgID db then {coCreatedBy p} else {})"
    using AddOrgMember_frame(2) [of g "ogID row" "coCreatedBy p" "''owner''" ?db] row(1) by (simp add: ownerIDs_def split: if_split_asm)
  show ?thesis
  proof (cases "g = NextOrgID db")
    case True
    then have "privateRepoIDs g db = []" using assms(3) by (fastforce simp: orgInv_def privateRepoIDs_def filter_empty_conv)
    then show ?thesis using owners_grow(1) [OF same own] by (simp add: row(2) FreePrivateCollaborationLimit_def no_private_repos)
  next
    case False
    then show ?thesis using no_owner_within [OF assms(2) same] own by (simp add: row(2))
  qed
qed (use assms in simp)

subsection \<open>Changes of teams and repositories\<close>

lemma team_members_grow:
  assumes "privateRepoIDs g db' = privateRepoIDs g db" "ownerIDs g db' = ownerIDs g db" "Collaborators db' = Collaborators db"
    "\<And>m t a t'. teamPath g (set (privateRepoIDs g db)) db' m t a t' \<Longrightarrow> tmUser m \<in> set (grantedMemberIDs g (grantingTeams g (privateRepoIDs g db) db) db) \<union> A"
  shows "set (privateCollaborators g db') \<subseteq> set (privateCollaborators g db) \<union> A"
proof -
  have "set (grantedMemberIDs g (grantingTeams g (privateRepoIDs g db) db') db') \<subseteq> set (grantedMemberIDs g (grantingTeams g (privateRepoIDs g db) db) db) \<union> A"
    by (rule granted_subset [OF assms(4)])
  then show ?thesis unfolding subset_iff Un_iff in_privateCollaborators in_collaborators assms(1-3) by blast
qed

lemma CreateTeam_within:
  assumes "CreateTeam tbl f p db = (r, db')" "withinLimit g db" "orgInv db"
  shows "withinLimit g db'"
proof (cases "db' = db")
  case False
  then obtain q where db': "db' = db\<lparr>TeamRows := TeamRows db @ [newTeam tbl p q (NextTeamID db)], NextTeamID := NextTeamID db + 1\<rparr>"
    using assms(1) by (auto simp: CreateTeam_def Let_def split: option.split_asm if_split_asm sum.split_asm)
  define t where "t = newTeam tbl p q (NextTeamID db)"
  have new: "teID t = NextTeamID db" by (simp add: t_def newTeam_def)
  have "tmTeam m \<in> teID ` set (TeamRows db)" if "m \<in> set (TeamMemberRows db)" for m using assms(3) that by (simp add: orgInv_def)
  moreover have "tgTeam a \<in> teID ` set (TeamRows db)" if "a \<in> set (TeamGrants db)" for a using assms(3) that by (simp add: orgInv_def)
  moreover have "teID t \<notin> teID ` set (TeamRows db)" using assms(3) new unfolding orgInv_def by fastforce
  ultimately have fresh: "m \<in> set (TeamMemberRows db) \<Longrightarrow> teID t \<noteq> tmTeam m" "a \<in> set (TeamGrants db) \<Longrightarrow> teID t \<noteq> tgTeam a" for m a by metis+
  show ?thesis
  proof (rule within_if_subset [OF assms(2)], rule team_members_grow [where A = "{}", simplified])
    fix m u a u' assume "teamPath g (set (privateRepoIDs g db)) db' m u a u'"
    then have p: "m \<in> set (TeamMemberRows db)" "a \<in> set (TeamGrants db)" "u \<in> insert t (set (TeamRows db))" "u' \<in> insert t (set (TeamRows db))"
        "teamPath g (set (privateRepoIDs g db)) db' m u a u'" by (auto simp: teamPath_def db' t_def [symmetric])
    then have "u \<noteq> t" "u' \<noteq> t" using fresh by (auto simp: teamPath_def)
    then have "teamPath g (set (privateRepoIDs g db)) db m u a u'" using p by (auto simp: teamPath_def)
    then show "tmUser m \<in> set (grantedMemberIDs g (grantingTeams g (privateRepoIDs g db) db) db)" by (rule granted_member)
  qed (simp_all add: db' privateRepoIDs_def ownerIDs_def)
qed (use assms in simp)

lemma team_unique: "orgInv db \<Longrightarrow> t \<in> set (TeamRows db) \<Longrightarrow> t' \<in> set (TeamRows db) \<Longrightarrow> teID t = teID t' \<Longrightarrow> t = t'"
  by (auto simp: orgInv_def distinct_map dest: inj_onD)

lemma repo_unique: "orgInv db \<Longrightarrow> r \<in> set (OrgRepos db) \<Longrightarrow> r' \<in> set (OrgRepos db) \<Longrightarrow> rpID r = rpID r' \<Longrightarrow> r = r'"
  by (auto simp: orgInv_def distinct_map dest: inj_onD)

lemma AddTeamMember_within:
  assumes "AddTeamMember d f team user role db = (r, db')" "unpaid g d" "withinLimit g db" "orgInv db" "user \<noteq> 0"
  shows "withinLimit g db'"
proof (cases "db' = db")
  case False
  then obtain q where q: "refusal (CheckTeamMemberPrivateCollaboration d f team user db) = None" "team \<in> teID ` set (TeamRows db)"
      "db' = db\<lparr>TeamMemberRows := TeamMemberRows db @ [\<lparr>tmTeam = team, tmUser = user, tmRole = q\<rparr>]\<rparr>"
    using assms(1) by (auto simp: AddTeamMember_def exists_simps split: sum.split_asm option.split_asm if_split_asm dest!: commits_cases)
  obtain t where t: "find (\<lambda>t. teID t = team) (TeamRows db) = Some t" using q(2) by (cases "find (\<lambda>t. teID t = team) (TeamRows db)") (auto simp: find_None_iff)
  then have tin: "t \<in> set (TeamRows db)" "teID t = team" by (auto simp: find_Some_iff)
  define acc where "acc = list_ex (\<lambda>a. tgRepo a \<in> set (privateRepoIDs (teOrg t) db) \<and> (tgTeam a = teID t \<or> Some (tgTeam a) = teParent t)) (TeamGrants db)"
  have frame: "privateRepoIDs g db' = privateRepoIDs g db" "ownerIDs g db' = ownerIDs g db" "Collaborators db' = Collaborators db" by (simp_all add: q(3) privateRepoIDs_def ownerIDs_def)
  let ?old = "set (grantedMemberIDs g (grantingTeams g (privateRepoIDs g db) db) db)"
  have sub: "set (privateCollaborators g db') \<subseteq> set (privateCollaborators g db) \<union> (if teOrg t = g \<and> acc then {user} else {})"
  proof (rule team_members_grow [OF frame])
    fix m t' a t'' assume m: "teamPath g (set (privateRepoIDs g db)) db' m t' a t''"
    consider "m \<in> set (TeamMemberRows db)" | "m = \<lparr>tmTeam = team, tmUser = user, tmRole = q\<rparr>" using m by (auto simp: q(3) teamPath_def)
    then show "tmUser m \<in> ?old \<union> (if teOrg t = g \<and> acc then {user} else {})"
    proof cases
      case 1
      then have "teamPath g (set (privateRepoIDs g db)) db m t' a t''" using m by (auto simp: teamPath_def q(3))
      then show ?thesis by (simp add: granted_member)
    next
      case 2
      then have "t' = t" using team_unique [OF assms(4) _ tin(1)] m tin(2) by (simp add: teamPath_def q(3))
      then have "acc" "teOrg t = g" using m by (auto simp: acc_def list_ex_iff teamPath_def q(3))
      then show ?thesis using 2 by simp
    qed
  qed
  show ?thesis
  proof (cases "teOrg t = g \<and> acc")
    case True
    then have "refusal (CheckPrivateCollaborationExpansion d f g [user] 0 db) = None"
      using q(1) t by (auto simp: CheckTeamMemberPrivateCollaboration_def teamPrivateRepoAccessState_def acc_def refusal_def split: sum.split_asm if_split_asm option.split_asm)
    then show ?thesis using within_if_admitted [OF assms(2) _ assms(3), of f "[user]" db'] sub True assms(5) by auto
  next
    case False
    then show ?thesis using sub within_if_subset [OF assms(3)] by auto
  qed
qed (use assms in simp)

text \<open>Candidates from a repository that becomes reachable privately, or from a new grant on one.\<close>

lemma removals_within:
  assumes "withinLimit g db"
  shows "RemoveTeamMember f team user db = (r, db') \<Longrightarrow> withinLimit g db'" "RevokeTeamRepoAccess f team repo db = (r, db') \<Longrightarrow> withinLimit g db'"
proof -
  have *: "withinLimit g db2" if frame: "privateRepoIDs g db2 = privateRepoIDs g db" "ownerIDs g db2 = ownerIDs g db" "Collaborators db2 = Collaborators db"
      "TeamRows db2 = TeamRows db" "set (TeamMemberRows db2) \<subseteq> set (TeamMemberRows db)" "set (TeamGrants db2) \<subseteq> set (TeamGrants db)" for db2 :: "'a OrgTables_scheme"
  proof (rule within_if_subset [OF assms], rule team_members_grow [OF frame(1-3), where A = "{}", simplified])
    fix m t a t' assume "teamPath g (set (privateRepoIDs g db)) db2 m t a t'"
    then have "teamPath g (set (privateRepoIDs g db)) db m t a t'" using frame(4-6) by (auto simp: teamPath_def)
    then show "tmUser m \<in> set (grantedMemberIDs g (grantingTeams g (privateRepoIDs g db) db) db)" by (rule granted_member)
  qed
  show "RemoveTeamMember f team user db = (r, db') \<Longrightarrow> withinLimit g db'" "RevokeTeamRepoAccess f team repo db = (r, db') \<Longrightarrow> withinLimit g db'"
    using assms by (auto simp: RemoveTeamMember_def RevokeTeamRepoAccess_def dest!: commits_cases intro!: * simp: privateRepoIDs_def ownerIDs_def)
qed

lemma private_repo_state:
  assumes "orgInv db" "repo \<in> set (privateRepoIDs g db)" "orgRepoPrivateState d f repo db = Inr s"
  shows "s = (g, True)"
proof -
  obtain r where r: "r \<in> set (OrgRepos db)" "rpID r = repo" "rpOrg r = Some g" "rpVisibility r = ''private''" "\<not> rpDeleted r"
    using assms(2) by (auto simp: privateRepoIDs_def)
  then obtain q where "find (\<lambda>r. rpID r = repo \<and> \<not> rpDeleted r) (OrgRepos db) = Some q" "q \<in> set (OrgRepos db)" "rpID q = repo"
    by (cases "find (\<lambda>r. rpID r = repo \<and> \<not> rpDeleted r) (OrgRepos db)") (auto simp: find_None_iff find_Some_iff)
  moreover from this have "q = r" using repo_unique [OF assms(1)] r by auto
  ultimately show ?thesis using assms(3) r by (auto simp: orgRepoPrivateState_def split: if_split_asm option.split_asm)
qed

lemma GrantTeamRepoAccess_within:
  assumes "GrantTeamRepoAccess d f team repo role db = (r, db')" "unpaid g d" "withinLimit g db" "orgInv db" "g \<noteq> 0"
  shows "withinLimit g db'"
proof (cases "db' = db")
  case False
  let ?ext = "\<lambda>q. db\<lparr>TeamGrants := TeamGrants db @ [\<lparr>tgTeam = team, tgRepo = repo, tgRole = q\<rparr>]\<rparr>"
  let ?upd = "\<lambda>q. db\<lparr>TeamGrants := map (\<lambda>a. if tgTeam a = team \<and> tgRepo a = repo then a\<lparr>tgRole := q\<rparr> else a) (TeamGrants db)\<rparr>"
  obtain q where q: "refusal (CheckTeamPrivateRepoGrant d f team repo db) = None" "db' = ?upd q \<or> db' = ?ext q"
    using assms(1) False by (auto simp: GrantTeamRepoAccess_def upsertTeamGrant_def split: sum.split_asm option.split_asm if_split_asm dest!: commits_cases)
  have frame: "privateRepoIDs g db' = privateRepoIDs g db" "ownerIDs g db' = ownerIDs g db" "Collaborators db' = Collaborators db" "TeamRows db' = TeamRows db" "TeamMemberRows db' = TeamMemberRows db"
    using q(2) by (auto simp: privateRepoIDs_def ownerIDs_def)
  have grant: "(tgTeam a = team \<and> tgRepo a = repo) \<or> (\<exists>b \<in> set (TeamGrants db). tgTeam b = tgTeam a \<and> tgRepo b = tgRepo a)" if "a \<in> set (TeamGrants db')" for a
    using that q(2) by (auto split: if_split_asm)
  let ?new = "if repo \<in> set (privateRepoIDs g db) then set (teamAndChildMembers team db) else {}"
  let ?old = "set (grantedMemberIDs g (grantingTeams g (privateRepoIDs g db) db) db)"
  have sub: "set (privateCollaborators g db') \<subseteq> set (privateCollaborators g db) \<union> ?new"
  proof (rule team_members_grow [OF frame(1-3)])
    fix m t a t' assume m: "teamPath g (set (privateRepoIDs g db)) db' m t a t'"
    then consider "tgTeam a = team" "tgRepo a = repo" | b where "b \<in> set (TeamGrants db)" "tgTeam b = tgTeam a" "tgRepo b = tgRepo a"
      using grant [of a] by (auto simp: teamPath_def)
    then show "tmUser m \<in> ?old \<union> ?new"
    proof cases
      case 1
      then have "tmUser m \<in> set (teamAndChildMembers team db)" "repo \<in> set (privateRepoIDs g db)"
        using m by (auto simp: teamPath_def frame teamAndChildMembers_def list_ex_iff)
      then show ?thesis by simp
    next
      case 2
      then have "teamPath g (set (privateRepoIDs g db)) db m t b t'" using m by (auto simp: teamPath_def frame)
      then show ?thesis by (simp add: granted_member)
    qed
  qed
  show ?thesis
  proof (cases "repo \<in> set (privateRepoIDs g db)")
    case True
    obtain s where s: "orgRepoPrivateState d f repo db = Inr s" using q(1)
      by (auto simp: CheckTeamPrivateRepoGrant_def refusal_def split: sum.split_asm)
    then obtain us where us: "teamGrantCandidateIDs f team db = Inr us" "refusal (CheckPrivateCollaborationExpansion d f g us 0 db) = None"
      using q(1) private_repo_state [OF assms(4) True s] assms(5) by (auto simp: CheckTeamPrivateRepoGrant_def refusal_def split: sum.split_asm)
    have "set us = set (teamAndChildMembers team db)" using us(1) by (auto simp: teamGrantCandidateIDs_def queryIDSet_def split: option.split_asm)
    moreover have "0 \<notin> set (teamAndChildMembers team db)" using assms(4) by (auto simp: teamAndChildMembers_def orgInv_def)
    ultimately show ?thesis using within_if_admitted [OF assms(2) us(2) assms(3), of db'] sub True by auto
  next
    case False
    then show ?thesis using sub within_if_subset [OF assms(3)] by auto
  qed
qed (use assms in simp)

lemma putCollaborator_within:
  assumes "putCollaborator tbl d f repo user role db = (r, db')" "unpaid g d" "withinLimit g db" "orgInv db" "g \<noteq> 0" "user \<noteq> 0"
  shows "withinLimit g db'"
proof (cases "db' = db")
  case False
  let ?ext = "\<lambda>q. db\<lparr>Collaborators := Collaborators db @ [\<lparr>clRepo = repo, clUser = user, clRole = q\<rparr>]\<rparr>"
  let ?upd = "\<lambda>q. db\<lparr>Collaborators := map (\<lambda>c. if clRepo c = repo \<and> clUser c = user then c\<lparr>clRole := q\<rparr> else c) (Collaborators db)\<rparr>"
  obtain q where q: "refusal (CheckDirectPrivateCollaborator d f repo user db) = None" "db' = ?upd q \<or> db' = ?ext q"
    using assms(1) False by (auto simp: putCollaborator_def UpsertCollabRole_def split: option.split_asm if_split_asm dest!: commits_cases)
  have "privateRepoIDs g db' = privateRepoIDs g db" "ownerIDs g db' = ownerIDs g db" "grantingTeams g rs db' = grantingTeams g rs db"
      "grantedMemberIDs g ts db' = grantedMemberIDs g ts db" for rs ts
    using q(2) by (auto simp: privateRepoIDs_def ownerIDs_def grantingTeams_def grantedMemberIDs_def)
  moreover have "u \<in> set (collaboratorIDs rs db) \<or> (u = user \<and> repo \<in> set rs)" if "u \<in> set (collaboratorIDs rs db')" for u rs
    using that q(2) by (auto simp: collaboratorIDs_def split: if_split_asm)
  ultimately have sub: "set (privateCollaborators g db') \<subseteq> set (privateCollaborators g db) \<union> (if repo \<in> set (privateRepoIDs g db) then {user} else {})"
    unfolding subset_iff Un_iff in_privateCollaborators by auto
  show ?thesis
  proof (cases "repo \<in> set (privateRepoIDs g db)")
    case True
    obtain s where s: "orgRepoPrivateState d f repo db = Inr s" using q(1) by (auto simp: CheckDirectPrivateCollaborator_def refusal_def split: sum.split_asm)
    then have "refusal (CheckPrivateCollaborationExpansion d f g [user] 0 db) = None"
      using q(1) private_repo_state [OF assms(4) True s] assms(5) by (simp add: CheckDirectPrivateCollaborator_def)
    then show ?thesis using within_if_admitted [OF assms(2) _ assms(3), of f "[user]" db'] sub True assms(6) by auto
  next
    case False
    then show ?thesis using sub within_if_subset [OF assms(3)] by auto
  qed
qed (use assms in simp)

lemma settingsCollabRemove_within:
  assumes "settingsCollabRemove f repo uid db = (r, db')" "withinLimit g db"
  shows "withinLimit g db'"
proof (cases "db' = db")
  case False
  then obtain u where db': "db' = db\<lparr>Collaborators := filter (\<lambda>c. \<not> (clRepo c = repo \<and> clUser c = u)) (Collaborators db)\<rparr>"
    using assms(1) by (auto simp: settingsCollabRemove_def split: option.split_asm if_split_asm dest!: commits_cases)
  have "privateRepoIDs g db' = privateRepoIDs g db" "ownerIDs g db' = ownerIDs g db" "grantingTeams g rs db' = grantingTeams g rs db"
      "grantedMemberIDs g ts db' = grantedMemberIDs g ts db" "set (collaboratorIDs rs db') \<subseteq> set (collaboratorIDs rs db)" for rs ts
    by (auto simp: db' privateRepoIDs_def ownerIDs_def grantingTeams_def grantedMemberIDs_def collaboratorIDs_def)
  then have "set (privateCollaborators g db') \<subseteq> set (privateCollaborators g db)" unfolding subset_iff in_privateCollaborators by auto
  then show ?thesis by (rule within_if_subset [OF assms(2)])
qed (use assms in simp)

text \<open>When the set of private repositories changes, the tables of accesses stay.\<close>

lemma repos_grow:
  assumes "OrgMembers db' = OrgMembers db" "Collaborators db' = Collaborators db" "TeamRows db' = TeamRows db" "TeamMemberRows db' = TeamMemberRows db"
    "TeamGrants db' = TeamGrants db" "set (privateRepoIDs g db') \<subseteq> set (privateRepoIDs g db) \<union> set rs"
  shows "set (privateCollaborators g db') \<subseteq> set (privateCollaborators g db) \<union>
    (if rs = [] then {} else set (ownerIDs g db) \<union> set (collaboratorIDs rs db) \<union> set (grantedMemberIDs g (grantingTeams g rs db) db))"
proof -
  have same: "ownerIDs g db' = ownerIDs g db" using assms(1) by (simp add: ownerIDs_def)
  have "set (collaboratorIDs (privateRepoIDs g db') db') \<subseteq> set (collaboratorIDs (privateRepoIDs g db) db) \<union> set (collaboratorIDs rs db)"
    using assms(2,6) by (auto simp: collaboratorIDs_def)
  moreover have "set (grantedMemberIDs g (grantingTeams g (privateRepoIDs g db') db') db')
      \<subseteq> set (grantedMemberIDs g (grantingTeams g (privateRepoIDs g db) db) db) \<union> set (grantedMemberIDs g (grantingTeams g rs db) db)"
  proof (rule granted_subset)
    fix m t a t' assume "teamPath g (set (privateRepoIDs g db')) db' m t a t'"
    then have "teamPath g (set (privateRepoIDs g db)) db m t a t' \<or> teamPath g (set rs) db m t a t'" using assms(3-6) by (auto simp: teamPath_def)
    then show "tmUser m \<in> set (grantedMemberIDs g (grantingTeams g (privateRepoIDs g db) db) db) \<union> set (grantedMemberIDs g (grantingTeams g rs db) db)"
      using granted_member [of g "privateRepoIDs g db" db] granted_member [of g rs db] by blast
  qed
  moreover have "privateRepoIDs g db' \<noteq> [] \<longrightarrow> privateRepoIDs g db \<noteq> [] \<or> rs \<noteq> []" using assms(6) by auto
  moreover have "collaboratorIDs [] db = []" "u \<notin> set (grantedMemberIDs g (grantingTeams g [] db) db)" for u
    by (simp_all add: collaboratorIDs_def in_grantedMembers teamPath_def)
  ultimately show ?thesis unfolding subset_iff Un_iff in_privateCollaborators same by (cases "rs = []") auto
qed

lemma nobody_is_0:
  assumes "orgInv db"
  shows "0 \<notin> set (ownerIDs g db)" "0 \<notin> set (collaboratorIDs rs db)" "0 \<notin> set (grantedMemberIDs g (grantingTeams g rs db) db)"
  using assms by (auto simp: orgInv_def ownerIDs_def collaboratorIDs_def in_grantedMembers teamPath_def)

lemma SetVisibility_within:
  assumes "SetVisibility d f repo vis db = (r, db')" "unpaid g d" "withinLimit g db" "orgInv db" "g \<noteq> 0"
  shows "withinLimit g db'"
proof (cases "db' = db")
  case False
  let ?g = "\<lambda>q. if rpID q = repo then q\<lparr>rpVisibility := vis\<rparr> else q"
  obtain row where row: "find (\<lambda>r. rpID r = repo) (OrgRepos db) = Some row" "db' = db\<lparr>OrgRepos := map ?g (OrgRepos db)\<rparr>"
      "rpOrg row = Some g \<and> vis = ''private'' \<longrightarrow> refusal (CheckRepoPrivateVisibility d f g (rpID row) db) = None"
    using assms(1) False by (auto simp: SetVisibility_def split: option.split_asm if_split_asm dest!: commits_cases)
  then have rin: "row \<in> set (OrgRepos db)" "rpID row = repo" by (auto simp: find_Some_iff)
  define rs where "rs = (if rpOrg row = Some g \<and> vis = ''private'' then [repo] else [])"
  have "i \<in> set (privateRepoIDs g db) \<union> set rs" if i: "i \<in> set (privateRepoIDs g db')" for i
  proof -
    obtain q' where q': "q' \<in> set (OrgRepos db')" "rpID q' = i" "rpOrg q' = Some g" "\<not> rpDeleted q'" "rpVisibility q' = ''private''"
      using i by (auto simp: privateRepoIDs_def)
    then obtain q where qq: "q \<in> set (OrgRepos db)" "q' = ?g q" using row(2) by auto
    then have q: "q \<in> set (OrgRepos db)" "rpID q = i" "rpOrg q = Some g" "\<not> rpDeleted q" "rpVisibility (?g q) = ''private''"
      using q' by (simp_all split: if_split_asm)
    show ?thesis
    proof (cases "i = repo")
      case True
      then have "q = row" using repo_unique [OF assms(4)] q rin by auto
      then show ?thesis using q True by (auto simp: rs_def)
    qed (use q in \<open>auto simp: privateRepoIDs_def\<close>)
  qed
  then have sub: "set (privateCollaborators g db') \<subseteq> set (privateCollaborators g db) \<union>
      (if rs = [] then {} else set (ownerIDs g db) \<union> set (collaboratorIDs rs db) \<union> set (grantedMemberIDs g (grantingTeams g rs db) db))"
    by (intro repos_grow) (auto simp: row(2))
  show ?thesis
  proof (cases "rs = []")
    case False
    then have rs: "rs = [repo]" "rpOrg row = Some g" "vis = ''private''" by (auto simp: rs_def split: if_split_asm)
    then obtain us where us: "repoPrivateCollaboratorCandidateIDs f g repo db = Inr us" "refusal (CheckPrivateCollaborationExpansion d f g us 0 db) = None"
      using row(3) rin(2) by (auto simp: CheckRepoPrivateVisibility_def refusal_def split: sum.split_asm if_split_asm)
    have "set us = set (ownerIDs g db) \<union> set (collaboratorIDs rs db) \<union> set (grantedMemberIDs g (grantingTeams g rs db) db)"
      using us(1) rs(1) by (auto simp: repoPrivateCollaboratorCandidateIDs_def queryIDSet_def split: option.split_asm)
    then have "set (privateCollaborators g db') \<subseteq> set (privateCollaborators g db) \<union> (set us - {0})" using sub False nobody_is_0 [OF assms(4)] by auto
    then show ?thesis by (rule within_if_admitted [OF assms(2) us(2) assms(3)])
  qed (use sub within_if_subset [OF assms(3)] in auto)
qed (use assms in simp)

lemma insertRepo_within:
  assumes "insertRepo d f i org vis db = (r, db')" "unpaid g d" "withinLimit g db" "orgInv db" "g \<noteq> 0"
  shows "withinLimit g db'"
proof (cases "db' = db")
  case False
  define q where "q = \<lparr>rpID = i, rpOrg = (if org \<noteq> 0 then Some org else None), rpVisibility = vis, rpDeleted = False\<rparr>"
  have row: "db' = db\<lparr>OrgRepos := OrgRepos db @ [q]\<rparr>" "i \<notin> rpID ` set (OrgRepos db)"
      "org \<noteq> 0 \<and> vis = ''private'' \<longrightarrow> refusal (CheckPrivateRepositoryCreation d f org db) = None"
    using assms(1) False by (auto simp: q_def insertRepo_def exists_simps split: option.split_asm if_split_asm dest!: commits_cases)
  define rs where "rs = (if org = g \<and> vis = ''private'' then [i] else [])"
  have "set (privateRepoIDs g db') \<subseteq> set (privateRepoIDs g db) \<union> set rs" using assms(5) by (auto simp: privateRepoIDs_def row(1) q_def rs_def)
  then have sub: "set (privateCollaborators g db') \<subseteq> set (privateCollaborators g db) \<union>
      (if rs = [] then {} else set (ownerIDs g db) \<union> set (collaboratorIDs rs db) \<union> set (grantedMemberIDs g (grantingTeams g rs db) db))"
    by (intro repos_grow) (auto simp: row(1))
  have none: "u \<notin> set (collaboratorIDs [i] db)" "u \<notin> set (grantedMemberIDs g (grantingTeams g [i] db) db)" for u
    using assms(4) row(2) unfolding in_collaborators in_grantedMembers teamPath_def orgInv_def by auto
  show ?thesis
  proof (cases "rs = [] \<or> privateRepoIDs g db \<noteq> []")
    case True
    then have "set (privateCollaborators g db') \<subseteq> set (privateCollaborators g db)"
      using sub none unfolding rs_def subset_iff Un_iff in_privateCollaborators by (auto split: if_split_asm)
    then show ?thesis by (rule within_if_subset [OF assms(3)])
  next
    case False
    then have rs: "rs = [i]" "org = g" "vis = ''private''" "privateCollaborators g db = []" by (auto simp: rs_def no_private_repos split: if_split_asm)
    have "refusal (CheckPrivateRepositoryCreation d f g db) = None" using row(3) rs assms(5) by simp
    moreover from this obtain u ids where u: "privateCollaborationUsageWithIDs d f g db = Inr (u, ids)"
      by (auto simp: CheckPrivateRepositoryCreation_def refusal_def split: sum.split_asm)
    moreover have "\<not> pcuUnlimited u" "pcuLimit u = 3" "pcuCount u = 0" using unpaid_limit [OF assms(2) u] rs(4) by (simp_all add: FreePrivateCollaborationLimit_def)
    ultimately obtain us where us: "orgOwnerIDs f g db = Inr us" "refusal (CheckPrivateCollaborationExpansion d f g us 0 db) = None"
      by (auto simp: CheckPrivateRepositoryCreation_def refusal_def split: sum.split_asm)
    have "set us = set (ownerIDs g db)" using us(1) by (auto simp: orgOwnerIDs_def queryIDSet_def split: option.split_asm)
    then have "set (privateCollaborators g db') \<subseteq> set (privateCollaborators g db) \<union> (set us - {0})"
      using sub False nobody_is_0(1) [OF assms(4), of g] none rs(1) by auto
    then show ?thesis by (rule within_if_admitted [OF assms(2) us(2) assms(3)])
  qed
qed (use assms in simp)

text \<open>Deleting a repository and forking one into a personal account give nobody access to a private repository.\<close>

lemma fewer_repos_within:
  assumes "withinLimit g db" "db' = db\<lparr>OrgRepos := rows\<rparr>" "set (privateRepoIDs g db') \<subseteq> set (privateRepoIDs g db)"
  shows "withinLimit g db'"
proof -
  have "set (privateCollaborators g db') \<subseteq> set (privateCollaborators g db)"
    using repos_grow [of db' db g "[]"] assms(2,3) by simp
  then show ?thesis by (rule within_if_subset [OF assms(1)])
qed

lemma SoftDelete_within:
  assumes "SoftDelete f repo db = (r, db')" "withinLimit g db"
  shows "withinLimit g db'"
proof (cases "db' = db")
  case False
  have "db' = markRepoDeleted True repo db" using assms(1) False by (auto simp: SoftDelete_def split: option.split_asm if_split_asm dest!: commits_cases)
  then show ?thesis by (intro fewer_repos_within [OF assms(2)]) (auto simp: markRepoDeleted_def privateRepoIDs_def split: if_split_asm)
qed (use assms in simp)

lemma forkCreate_within:
  assumes "forkCreate f a i p db = (r, db')" "fkOwnerKind p \<noteq> ''org''" "withinLimit g db"
  shows "withinLimit g db'"
proof (cases "db' = db")
  case False
  obtain kind src where e: "db' = db\<lparr>OrgRepos := OrgRepos db @ [forkRow i kind src p]\<rparr>" "kind \<noteq> ''org''"
    using forkCreate_effect [OF assms(1) False] assms(2) by blast
  then show ?thesis by (intro fewer_repos_within [OF assms(3) e(1)]) (auto simp: privateRepoIDs_def forkRow_def)
qed (use assms in simp)

lemma invitations_within:
  assumes "withinLimit g db"
  shows "Invite tbl d f users now hash p db = (r, db') \<Longrightarrow> withinLimit g db'"
    "DeclineInvitation tbl f users now iv u db = (r', db') \<Longrightarrow> withinLimit g db'"
    "CancelInvitation f now iv db = (r', db') \<Longrightarrow> withinLimit g db'"
proof -
  have "privateCollaborators g (db\<lparr>Invitations := vs\<rparr>) = privateCollaborators g db"
      "privateCollaborators g (db\<lparr>Invitations := vs, NextInvitationID := n\<rparr>) = privateCollaborators g db" for vs n
    by (simp_all add: privateCollaborators_def Let_def privateRepoIDs_def collaboratorIDs_def grantedMemberIDs_def grantingTeams_def ownerIDs_def)
  then show "Invite tbl d f users now hash p db = (r, db') \<Longrightarrow> withinLimit g db'"
    "DeclineInvitation tbl f users now iv u db = (r', db') \<Longrightarrow> withinLimit g db'"
    "CancelInvitation f now iv db = (r', db') \<Longrightarrow> withinLimit g db'"
    using assms by (auto simp: Invite_def DeclineInvitation_def CancelInvitation_def markInvitation_def Let_def
      split: if_split_asm option.split_asm sum.split_asm prod.split_asm dest!: commits_cases)
qed

lemma orgStep_within:
  assumes "orgStep False (unpaid g) db db'" "orgInv db \<and> withinLimit g db" "g \<noteq> 0"
  shows "orgInv db' \<and> withinLimit g db'"
proof
  show "orgInv db'" using assms orgStep_inv by blast
  show "withinLimit g db'" using assms
    by cases (blast intro: CreateOrg_within AddMember_within ChangeRole_within RemoveMember_within CreateTeam_within AddTeamMember_within removals_within
       GrantTeamRepoAccess_within SetVisibility_within settingsCollabRemove_within putCollaborator_within insertRepo_within invitations_within AcceptInvitation_within
       SoftDelete_within forkCreate_within)+
qed


interpretation unpaid_runs: kept_invariant "orgStep False (unpaid g)" "\<lambda>db. orgInv db \<and> (g \<noteq> 0 \<longrightarrow> withinLimit g db)"
  by unfold_locales (use orgStep_within orgStep_inv in blast)

text \<open>
  C5. The limit on private collaborators. As long as an organization is not in good standing on the team plan, no
  sequence of the modelled operations, one after the other, whoever issues them and whichever of their statements fail, gives its
  private repositories more than three collaborators: owners, direct collaborators and members of teams with
  access, each counted once. Five operations are excluded, because the code does not ask about the limit there and each of them
  leads beyond it, as shown below: giving a team another parent (\<open>SetTeamParent\<close>), entering a collaborator
  (\<open>settingsCollabUpsert\<close>) or a team (\<open>settingsTeamGrant\<close>) on the access page, restoring a deleted repository (\<open>Restore\<close>), and
  forking into an organization (\<open>forkCreate\<close> with the owner kind org).
\<close>

theorem unpaid_org_keeps_collaborator_limit:
  assumes "(orgStep False (unpaid g))\<^sup>*\<^sup>* emptyOrgs db" "g \<noteq> 0"
  shows "int (length (privateCollaborators g db)) \<le> FreePrivateCollaborationLimit"
proof -
  have "orgInv emptyOrgs \<and> (g \<noteq> 0 \<longrightarrow> withinLimit g emptyOrgs)"
    using emptyOrgs_inv no_private_repos [of g emptyOrgs] by (simp add: privateRepoIDs_def emptyOrgs_def FreePrivateCollaborationLimit_def)
  from unpaid_runs.reachable_inv [OF assms(1) this] show ?thesis using assms(2) by (simp add: privateCollaborators_card)
qed

theorem unpaid_org_keeps_collaborator_limit_witness: "privateCollaborators 1 demoPrivate = [7] \<and> int (length (privateCollaborators 1 demoPrivate)) \<le> 3"
proof -
  have "unpaid 1 freeBilling" by (simp add: unpaid_def freeBilling_def goodStanding_def)
  from unpaid_org_keeps_collaborator_limit [OF demo_org_run [of "unpaid 1", OF this]] have "int (length (privateCollaborators 1 demoPrivate)) \<le> 3" by (simp add: FreePrivateCollaborationLimit_def)
  moreover have "privateCollaborators 1 demoPrivate = [7]" by code_simp
  ultimately show ?thesis by simp
qed

text \<open>
  Giving a team another parent is not checked against the limit, and so leads beyond it: the members of the team
  gain the access of the parent. The same operation nests teams two deep, since only the parent of
  the new parent is looked at, not the children of the team. The access page, restoring and forking do not check either.
\<close>

definition demoTeams :: OrgTables where
  "demoTeams = demoPrivate\<lparr>
     TeamRows := map (\<lambda>(i, p). \<lparr>teID = i, teOrg = 1, teSlug = ''t'' @ Itoa i, teDisplayName = '''', teDescription = '''', teParent = p, tePrivacy = ''visible'', teCreatedBy = 7\<rparr>)
       [(1, None), (2, None), (3, Some 2)],
     NextTeamID := 4, TeamGrants := [\<lparr>tgTeam = 1, tgRepo = 1, tgRole = ''read''\<rparr>],
     TeamMemberRows := map (\<lambda>u. \<lparr>tmTeam = 2, tmUser = u, tmRole = ''member''\<rparr>) [8, 9, 10]\<rparr>"

lemma moving_a_team_exceeds_the_limit:
  "orgInv demoTeams \<and> privateCollaborators 1 demoTeams = [7] \<and>
   (\<exists>db'. SetTeamParent (\<lambda>_. None) 2 1 demoTeams = (Inr (), db') \<and> length (privateCollaborators 1 db') = 4 \<and>
      map (\<lambda>t. (teID t, teParent t)) (TeamRows db') = [(1, None), (2, Some 1), (3, Some 2)])"
proof -
  have "orgInv demoTeams" by (auto simp: orgInv_def demoTeams_def demoPrivate_def demoOrg_def emptyOrgs_def ownerIDs_def)
  moreover have "privateCollaborators 1 demoTeams = [7]" by code_simp
  moreover have "(case SetTeamParent (\<lambda>_. None) 2 1 demoTeams of (r, db') \<Rightarrow> r = Inr () \<and> length (privateCollaborators 1 db') = 4 \<and>
      map (\<lambda>t. (teID t, teParent t)) (TeamRows db') = [(1, None), (2, Some 1), (3, Some 2)])" by code_simp
  ultimately show ?thesis by (auto split: prod.split_asm)
qed

definition crowdedOrg :: OrgTables where
  "crowdedOrg = demoPrivate\<lparr>Collaborators := [\<lparr>clRepo = 1, clUser = 8, clRole = ''read''\<rparr>, \<lparr>clRepo = 1, clUser = 9, clRole = ''read''\<rparr>]\<rparr>"

lemma access_page_exceeds_the_limit:
  "\<exists>db' e. settingsCollabUpsert tbl (\<lambda>_. None) \<lparr>userNamed = [''eve'' \<mapsto> 10], userEmails = \<lambda>_. []\<rparr> None 1 ''eve'' ''read'' crowdedOrg = (Inr (), db')
     \<and> length (privateCollaborators 1 db') = 4
     \<and> putCollaborator tbl freeBilling (\<lambda>_. None) 1 10 ''read'' crowdedOrg = (Inl (CollaborationLimit e), crowdedOrg)"
proof -
  have t: "TrimSpace ''eve'' = ''eve''" "TrimSpace ''read'' = ''read''" by (rule TrimSpace_id; simp add: graphic_def)+
  have l: "ToLower tbl ''eve'' = ''eve''" "ToLower tbl ''read'' = ''read''" by (simp_all add: ToLower_ascii ascii_def ascii_lower_def is_ascii_upper_def)
  define db' where "db' = UpsertCollabRole 1 10 ''read'' crowdedOrg"
  have "settingsCollabUpsert tbl (\<lambda>_. None) \<lparr>userNamed = [''eve'' \<mapsto> 10], userEmails = \<lambda>_. []\<rparr> None 1 ''eve'' ''read'' crowdedOrg = (Inr (), db')"
    by (simp add: settingsCollabUpsert_def Let_def t l parseFormRole_def commits_def failing.simps(2) repoExists_def crowdedOrg_def demoPrivate_def db'_def)
  moreover have "length (privateCollaborators 1 db') = 4" unfolding db'_def by code_simp
  moreover obtain e where e: "refusal (CheckDirectPrivateCollaborator freeBilling (\<lambda>_. None) 1 10 crowdedOrg) = Some (CollaborationLimit e)"
  proof -
    have "(case refusal (CheckDirectPrivateCollaborator freeBilling (\<lambda>_. None) 1 10 crowdedOrg) of Some (CollaborationLimit e) \<Rightarrow> True | _ \<Rightarrow> False)" by code_simp
    then show ?thesis using that by (auto split: option.split_asm org_error.split_asm)
  qed
  moreover from e have "putCollaborator tbl freeBilling (\<lambda>_. None) 1 10 ''read'' crowdedOrg = (Inl (CollaborationLimit e), crowdedOrg)"
    by (simp add: putCollaborator_def parseCollabRole_def t l)
  ultimately show ?thesis by blast
qed

lemma granting_on_the_access_page_exceeds_the_limit:
  "\<exists>db'. settingsTeamGrant (\<lambda>_. None) (hd (OrgRepos demoTeams)) (Some 2) ''read'' demoTeams = (Inr (), db') \<and> length (privateCollaborators 1 db') = 4"
proof -
  have t: "parseFormRole ''read'' = ''read''" by (simp add: parseFormRole_def TrimSpace_id graphic_def)
  define db' where "db' = upsertTeamGrant 2 1 ''read'' demoTeams"
  have "settingsTeamGrant (\<lambda>_. None) (hd (OrgRepos demoTeams)) (Some 2) ''read'' demoTeams = (Inr (), db')"
    by (simp add: settingsTeamGrant_def t commits_def failing.simps repoExists_def GetTeamByID_def demoTeams_def demoPrivate_def db'_def)
  moreover have "length (privateCollaborators 1 db') = 4" unfolding db'_def by code_simp
  ultimately show ?thesis by blast
qed

definition deletedRepoOrg :: OrgTables where
  "deletedRepoOrg = crowdedOrg\<lparr>OrgRepos := OrgRepos crowdedOrg @ [\<lparr>rpID = 2, rpOrg = Some 1, rpVisibility = ''private'', rpDeleted = True\<rparr>],
     Collaborators := Collaborators crowdedOrg @ [\<lparr>clRepo = 2, clUser = 10, clRole = ''read''\<rparr>]\<rparr>"

lemma restoring_exceeds_the_limit:
  "orgInv deletedRepoOrg \<and> length (privateCollaborators 1 deletedRepoOrg) = 3 \<and>
   (case Restore (\<lambda>_. None) 0 False 2 deletedRepoOrg of (r, db') \<Rightarrow> r = Inr () \<and> length (privateCollaborators 1 db') = 4)"
proof (intro conjI)
  show "orgInv deletedRepoOrg" by (auto simp: orgInv_def deletedRepoOrg_def crowdedOrg_def demoPrivate_def demoOrg_def emptyOrgs_def ownerIDs_def)
  show "length (privateCollaborators 1 deletedRepoOrg) = 3" by code_simp
  show "case Restore (\<lambda>_. None) 0 False 2 deletedRepoOrg of (r, db') \<Rightarrow> r = Inr () \<and> length (privateCollaborators 1 db') = 4" by code_simp
qed

text \<open>Four owners are no private collaborators as long as the organization has no private repository.\<close>

definition ownersOrg :: OrgTables where
  "ownersOrg = demoOrg\<lparr>OrgMembers := map (\<lambda>u. \<lparr>omOrg = 1, omUser = u, omRole = ''owner''\<rparr>) [7, 8, 9, 10],
     OrgRepos := [\<lparr>rpID = 1, rpOrg = None, rpVisibility = ''public'', rpDeleted = False\<rparr>]\<rparr>"

lemma forking_exceeds_the_limit:
  "orgInv ownersOrg \<and> privateCollaborators 1 ownersOrg = [] \<and>
   (case forkCreate (\<lambda>_. None) \<lparr>faArchived = False, faPaused = False, faSourceUser = Some 20, faSameName = True, faDescription = True, faTaken = False\<rparr> 2
      \<lparr>fkActor = 7, fkSource = 1, fkOwnerKind = ''org'', fkOwner = 1, fkVisibility = ''private''\<rparr> ownersOrg of
    (r, db') \<Rightarrow> r = Inr () \<and> length (privateCollaborators 1 db') = 4)
   \<and> (case insertRepo freeBilling (\<lambda>_. None) 2 1 ''private'' ownersOrg of (r, _) \<Rightarrow> r \<noteq> Inr ())"
proof (intro conjI)
  show "orgInv ownersOrg" by (auto simp: orgInv_def ownersOrg_def demoOrg_def emptyOrgs_def ownerIDs_def)
qed code_simp+

end
