(* ===== verification/JobQueue.thy ===== *)
theory JobQueue
  imports Prelude "HOL-Library.Multiset"
begin

text \<open>
  The job queue (\<^verbatim>\<open>src/internal/worker\<close>): the table of jobs with its claim, the pool that dispatches jobs to handlers,
  retries and backoff. The clock, the handlers and the statements that fail are arguments; a handler may change the
  database, the jobs table included.
\<close>

section \<open>The table\<close>

type_synonym jobFaults = "string \<Rightarrow> string option"

record Job =
  jobID :: go_int64
  jobKind :: string
  jobPayload :: string
  runAt :: int
  jobAttempts :: int
  jobMaxAttempts :: int
  lockedBy :: "string option"
  lockedAt :: "int option"
  lastError :: "string option"
  completedAt :: "int option"
  failedAt :: "int option"

record JobTable =
  Jobs :: "Job list"
  NextJobID :: go_int64

text \<open>Nanoseconds; the lease of a claim is written into the query.\<close>

definition second :: int where
  "second = 1000000000"

definition leaseTime :: int where
  "leaseTime = 5 * 60 * second"

record EnqueueOptions =
  eoRunAt :: "int option"
  eoMaxAttempts :: int

definition EnqueueJob :: "int \<Rightarrow> string \<Rightarrow> string \<Rightarrow> int option \<Rightarrow> int option \<Rightarrow> 'x JobTable_scheme \<Rightarrow> Job \<times> 'x JobTable_scheme" where
  "EnqueueJob now kind payload run maxAttempts db =
     (let job = \<lparr>jobID = NextJobID db, jobKind = kind, jobPayload = payload, runAt = (case run of Some t \<Rightarrow> t | None \<Rightarrow> now), jobAttempts = 0,
                 jobMaxAttempts = (case maxAttempts of Some m \<Rightarrow> m | None \<Rightarrow> 5), lockedBy = None, lockedAt = None, lastError = None,
                 completedAt = None, failedAt = None\<rparr>
      in (job, db\<lparr>Jobs := Jobs db @ [job], NextJobID := NextJobID db + 1\<rparr>))"

text \<open>\<^verbatim>\<open>char_length\<close> of the database, for the UTF-8 text it stores: bytes that do not continue a character.\<close>

definition char_length :: "string \<Rightarrow> nat" where
  "char_length s = length (filter (\<lambda>c. \<not> (128 \<le> (of_char c :: nat) \<and> (of_char c :: nat) < 192)) s)"

text \<open>\<open>Enqueue\<close>; \<open>body\<close> is the payload as JSON, missing when it cannot be encoded. The schema bounds the length of a kind.\<close>

definition Enqueue :: "jobFaults \<Rightarrow> int \<Rightarrow> string \<Rightarrow> string option \<Rightarrow> EnqueueOptions \<Rightarrow> 'x JobTable_scheme \<Rightarrow> (string + go_int64) \<times> 'x JobTable_scheme" where
  "Enqueue f now kind body opts db =
     (case body of None \<Rightarrow> (Inl ''worker: marshal payload'', db) | Some payload \<Rightarrow>
      case f ''EnqueueJob'' of Some e \<Rightarrow> (Inl (''worker: enqueue '' @ kind @ '': '' @ e), db) | None \<Rightarrow>
      if char_length kind < 1 \<or> 100 < char_length kind then (Inl (''worker: enqueue '' @ kind @ '': constraint''), db)
      else case EnqueueJob now kind payload (eoRunAt opts) (if eoMaxAttempts opts > 0 then Some (eoMaxAttempts opts) else None) db of
        (job, db') \<Rightarrow> (Inr (jobID job), db'))"

text \<open>The condition of the claim: due, not finished, and free or held longer than the lease.\<close>

definition claimable :: "int \<Rightarrow> string \<Rightarrow> Job \<Rightarrow> bool" where
  "claimable now kind j \<longleftrightarrow> jobKind j = kind \<and> completedAt j = None \<and> failedAt j = None \<and> runAt j \<le> now
     \<and> (lockedBy j = None \<or> (case lockedAt j of Some t \<Rightarrow> t < now - leaseTime | None \<Rightarrow> False))"

definition before :: "Job \<Rightarrow> Job \<Rightarrow> bool" where
  "before j k \<longleftrightarrow> runAt j < runAt k \<or> (runAt j = runAt k \<and> jobID j \<le> jobID k)"

text \<open>\<^verbatim>\<open>ORDER BY run_at, id LIMIT 1\<close>.\<close>

fun oldest :: "Job list \<Rightarrow> Job option" where
  "oldest [] = None"
| "oldest (j # js) = (case oldest js of None \<Rightarrow> Some j | Some k \<Rightarrow> if before j k then Some j else Some k)"

definition updateJob :: "go_int64 \<Rightarrow> (Job \<Rightarrow> Job) \<Rightarrow> 'x JobTable_scheme \<Rightarrow> 'x JobTable_scheme" where
  "updateJob i g db = db\<lparr>Jobs := map (\<lambda>j. if jobID j = i then g j else j) (Jobs db)\<rparr>"

definition ClaimJob :: "int \<Rightarrow> string \<Rightarrow> string \<Rightarrow> 'x JobTable_scheme \<Rightarrow> Job option \<times> 'x JobTable_scheme" where
  "ClaimJob now kind by db =
     (case oldest (filter (claimable now kind) (Jobs db)) of None \<Rightarrow> (None, db) | Some j \<Rightarrow>
      let claim = (\<lambda>r. r\<lparr>lockedBy := Some by, lockedAt := Some now, jobAttempts := jobAttempts r + 1\<rparr>)
      in (Some (claim j), updateJob (jobID j) claim db))"

definition MarkJobCompleted :: "int \<Rightarrow> go_int64 \<Rightarrow> 'x JobTable_scheme \<Rightarrow> 'x JobTable_scheme" where
  "MarkJobCompleted now i = updateJob i (\<lambda>j. j\<lparr>completedAt := Some now, lockedBy := None, lockedAt := None\<rparr>)"

definition RescheduleJob :: "go_int64 \<Rightarrow> string \<Rightarrow> int \<Rightarrow> 'x JobTable_scheme \<Rightarrow> 'x JobTable_scheme" where
  "RescheduleJob i e t = updateJob i (\<lambda>j. j\<lparr>lockedBy := None, lockedAt := None, lastError := Some e, runAt := t\<rparr>)"

definition MarkJobFailed :: "int \<Rightarrow> go_int64 \<Rightarrow> string \<Rightarrow> 'x JobTable_scheme \<Rightarrow> 'x JobTable_scheme" where
  "MarkJobFailed now i e = updateJob i (\<lambda>j. j\<lparr>failedAt := Some now, lockedBy := None, lockedAt := None, lastError := Some e\<rparr>)"

section \<open>Backoff\<close>

text \<open>Doubling with a cap, the loop of the backoff functions.\<close>

fun doubling :: "int \<Rightarrow> nat \<Rightarrow> int \<Rightarrow> int" where
  "doubling cap 0 d = d"
| "doubling cap (Suc n) d = (if d * 2 \<ge> cap then cap else doubling cap n (d * 2))"

text \<open>The jitter is the product with a random factor, in floating point, as a function of the delay.\<close>

definition Backoff :: "int \<Rightarrow> (int \<Rightarrow> int) option \<Rightarrow> int" where
  "Backoff attempts jitter =
     (let n = (if attempts < 1 then 1 else attempts); maxDelay = 3600 * second;
          d = doubling maxDelay (nat (n - 1)) (30 * second); d1 = (if d > maxDelay then maxDelay else d) in
      case jitter of None \<Rightarrow> d1 | Some scale \<Rightarrow> scale d1)"

section \<open>The pool\<close>

datatype outcome = RunOK | RunFailed string | RunPoison string | RunPanicked string

text \<open>\<open>safeRun\<close>: a panic is an ordinary failure.\<close>

fun safeRun :: "outcome \<Rightarrow> outcome" where
  "safeRun (RunPanicked r) = RunFailed (''worker: handler panic: '' @ r)"
| "safeRun RunOK = RunOK"
| "safeRun (RunFailed e) = RunFailed e"
| "safeRun (RunPoison e) = RunPoison e"

text \<open>One dispatch: when it starts and ends, its jitter, the statements that fail, and whether the context was cancelled before.\<close>

record RunEnv =
  reStart :: int
  reEnd :: int
  reJitter :: "int \<Rightarrow> int"
  reFaults :: jobFaults
  reCancelled :: bool

text \<open>The order in which the map of handlers is walked may differ from pass to pass.\<close>

type_synonym 's handler = "string \<Rightarrow> 's \<Rightarrow> outcome \<times> 's"

record 's Pool =
  InstanceID :: string
  kindOrder :: "nat \<Rightarrow> string list"
  handlers :: "string \<rightharpoonup> 's handler"

definition Register :: "string \<Rightarrow> 's handler \<Rightarrow> ('s, 'z) Pool_scheme \<Rightarrow> ('s, 'z) Pool_scheme" where
  "Register kind h p = p\<lparr>handlers := (handlers p)(kind \<mapsto> h)\<rparr>"

text \<open>A statement whose error is ignored.\<close>

definition ignoring :: "jobFaults \<Rightarrow> string \<Rightarrow> ('s \<Rightarrow> 's) \<Rightarrow> 's \<Rightarrow> 's" where
  "ignoring f name g db = (if f name = None then g db else db)"

text \<open>What follows the handler: the job is completed, failed for good, or rescheduled.\<close>

definition finishRun :: "RunEnv \<Rightarrow> Job \<Rightarrow> outcome \<Rightarrow> 'x JobTable_scheme \<Rightarrow> 'x JobTable_scheme" where
  "finishRun env job r =
     (case safeRun r of
        RunOK \<Rightarrow> ignoring (reFaults env) ''MarkJobCompleted'' (MarkJobCompleted (reEnd env) (jobID job))
      | RunPoison e \<Rightarrow> ignoring (reFaults env) ''MarkJobFailed'' (MarkJobFailed (reEnd env) (jobID job) (''worker: poison job: '' @ e))
      | RunFailed e \<Rightarrow> (if jobAttempts job \<ge> jobMaxAttempts job
          then ignoring (reFaults env) ''MarkJobFailed'' (MarkJobFailed (reEnd env) (jobID job) e)
          else ignoring (reFaults env) ''RescheduleJob'' (RescheduleJob (jobID job) e (reEnd env + Backoff (jobAttempts job) (Some (reJitter env)))))
      | RunPanicked e \<Rightarrow> id)"

definition runOne :: "('x JobTable_scheme, 'z) Pool_scheme \<Rightarrow> RunEnv \<Rightarrow> string \<Rightarrow> 'x JobTable_scheme \<Rightarrow> (string + bool) \<times> 'x JobTable_scheme" where
  "runOne p env kind db =
     (case reFaults env ''ClaimJob'' of Some e \<Rightarrow> (Inl (''claim '' @ kind @ '': '' @ e), db) | None \<Rightarrow>
      case ClaimJob (reStart env) kind (InstanceID p) db of
        (None, db1) \<Rightarrow> (Inr False, db1)
      | (Some job, db1) \<Rightarrow>
          (case handlers p (jobKind job) of
             None \<Rightarrow> (Inr True, ignoring (reFaults env) ''MarkJobFailed'' (MarkJobFailed (reStart env) (jobID job) ''no handler registered'') db1)
           | Some h \<Rightarrow> (case h (jobPayload job) db1 of (r, db2) \<Rightarrow> (Inr True, finishRun env job r db2))))"

text \<open>One pass over the kinds: whether a job ran, or the error that stops the pass.\<close>

fun tryKinds :: "('x JobTable_scheme, 'z) Pool_scheme \<Rightarrow> (nat \<Rightarrow> RunEnv) \<Rightarrow> nat \<Rightarrow> string list \<Rightarrow> bool \<Rightarrow> 'x JobTable_scheme \<Rightarrow> (string + bool) \<times> 'x JobTable_scheme" where
  "tryKinds p env n [] any db = (Inr any, db)"
| "tryKinds p env n (kind # kinds) any db =
     (if reCancelled (env n) then (Inl ''context canceled'', db)
      else case runOne p (env n) kind db of
        (Inl e, db') \<Rightarrow> (Inl e, db')
      | (Inr did, db') \<Rightarrow> tryKinds p env (Suc n) kinds (any \<or> did) db')"

definition tryClaimAndRun :: "('x JobTable_scheme, 'z) Pool_scheme \<Rightarrow> (nat \<Rightarrow> RunEnv) \<Rightarrow> nat \<Rightarrow> 'x JobTable_scheme \<Rightarrow> (string + bool) \<times> 'x JobTable_scheme" where
  "tryClaimAndRun p env n db = tryKinds p env n (kindOrder p n) False db"

text \<open>The inner loop of a worker: pass after pass until one finds nothing or fails. It need not return.\<close>

partial_function (option) drain :: "('x JobTable_scheme, 'z) Pool_scheme \<Rightarrow> (nat \<Rightarrow> RunEnv) \<Rightarrow> nat \<Rightarrow> 'x JobTable_scheme \<Rightarrow> 'x JobTable_scheme option" where
  "drain p env n db =
     (case tryClaimAndRun p env n db of (r, db') \<Rightarrow>
        if r = Inr True then drain p env (n + length (kindOrder p n)) db' else Some db')"

section \<open>Draining the queue ends\<close>

definition live :: "Job \<Rightarrow> bool" where
  "live j \<longleftrightarrow> completedAt j = None \<and> failedAt j = None"

definition idsOK :: "'x JobTable_scheme \<Rightarrow> bool" where
  "idsOK db \<longleftrightarrow> distinct (map jobID (Jobs db)) \<and> (\<forall>j \<in> set (Jobs db). jobID j < NextJobID db)"

lemma oldest_Some: "oldest js = Some j \<Longrightarrow> j \<in> set js \<and> (\<forall>k \<in> set js. before j k)"
proof (induction js arbitrary: j)
  case (Cons i js)
  show ?case
  proof (cases "oldest js")
    case None
    then have "js = []" by (cases js) (auto split: option.split_asm if_split_asm)
    then show ?thesis using Cons.prems by (auto simp: before_def)
  next
    case (Some k)
    then show ?thesis using Cons.IH [OF Some] Cons.prems by (auto simp: before_def split: if_split_asm)
  qed
qed simp

lemma oldest_None: "oldest js = None \<longleftrightarrow> js = []"
  by (cases js) (auto split: option.split)

text \<open>An update of one live job, seen from the live jobs.\<close>

lemma live_update:
  assumes "idsOK db" "filter live (Jobs db) = xs @ j # ys"
  shows "filter live (Jobs (updateJob (jobID j) g db)) = xs @ (if live (g j) then [g j] else []) @ ys"
proof -
  have "j \<in> set (filter live (Jobs db))" by (simp add: assms(2))
  then have j: "j \<in> set (Jobs db)" "live j" by auto
  obtain us vs where js: "Jobs db = us @ j # vs" using split_list [OF j(1)] by blast
  have ids: "jobID k \<noteq> jobID j" if "k \<in> set us \<union> set vs" for k
    using assms(1) that unfolding idsOK_def js by (auto simp: rev_image_eqI)
  then have "map (\<lambda>k. if jobID k = jobID j then g k else k) us = us" "map (\<lambda>k. if jobID k = jobID j then g k else k) vs = vs" by (auto intro: map_idI)
  then have new: "filter live (Jobs (updateJob (jobID j) g db)) = filter live us @ (if live (g j) then [g j] else []) @ filter live vs"
    by (simp add: updateJob_def js)
  have "j \<notin> set (filter live us)" "j \<notin> set (filter live vs)" using ids by auto
  moreover have "filter live us @ j # filter live vs = xs @ j # ys" using assms(2) j(2) by (simp add: js)
  ultimately show ?thesis using new append_Cons_eq_iff [of j "filter live us" "filter live vs" xs ys] by auto
qed

lemma updateJob_ids:
  "(\<And>j. jobID (g j) = jobID j) \<Longrightarrow> idsOK (updateJob i g db) = idsOK db"
proof -
  have n: "NextJobID (updateJob i g db) = NextJobID db" by (simp add: updateJob_def)
  assume "\<And>j. jobID (g j) = jobID j"
  then have "map jobID (Jobs (updateJob i g db)) = map jobID (Jobs db)" by (simp add: updateJob_def)
  then have "map jobID (Jobs (updateJob i g db)) = map jobID (Jobs db) \<and> jobID ` set (Jobs (updateJob i g db)) = jobID ` set (Jobs db)" by (metis set_map)
  then show "idsOK (updateJob i g db) = idsOK db" unfolding idsOK_def by (metis (no_types, lifting) n imageE imageI)
qed

text \<open>What is left to do for a job: the rank of its kind, then its remaining attempts.\<close>

definition jobLess :: "((nat \<times> nat) \<times> (nat \<times> nat)) set" where
  "jobLess = less_than <*lex*> less_than"

definition todo :: "(string \<Rightarrow> nat) \<Rightarrow> Job \<Rightarrow> nat \<times> nat" where
  "todo rank j = (rank (jobKind j), nat (jobMaxAttempts j - jobAttempts j))"

definition workLeft :: "(string \<Rightarrow> nat) \<Rightarrow> 'x JobTable_scheme \<Rightarrow> (nat \<times> nat) multiset" where
  "workLeft rank db = image_mset (todo rank) (mset (filter live (Jobs db)))"

lemma jobLess_wf: "wf jobLess" "trans jobLess"
  by (auto simp: jobLess_def wf_lex_prod trans_def)

text \<open>After the handler the claimed job is gone from the live ones, or is back with an attempt less.\<close>

lemma finishRun_effect:
  assumes "idsOK db" "filter live (Jobs db) = xs @ j # ys"
    and "reFaults env ''MarkJobCompleted'' = None" "reFaults env ''MarkJobFailed'' = None" "reFaults env ''RescheduleJob'' = None"
  shows "idsOK (finishRun env j r db) \<and> (\<exists>js. finishRun env j r db = db\<lparr>Jobs := js\<rparr>)
    \<and> (\<exists>zs. filter live (Jobs (finishRun env j r db)) = xs @ zs @ ys
        \<and> (\<forall>k \<in> set zs. jobAttempts j < jobMaxAttempts j \<and> jobKind k = jobKind j \<and> jobAttempts k = jobAttempts j \<and> jobMaxAttempts k = jobMaxAttempts j))"
proof -
  have upd: "idsOK (updateJob (jobID j) g db) \<and> (\<exists>js. updateJob (jobID j) g db = db\<lparr>Jobs := js\<rparr>)
      \<and> (\<exists>zs. filter live (Jobs (updateJob (jobID j) g db)) = xs @ zs @ ys \<and> (\<forall>k \<in> set zs. P k))"
    if "\<And>k. jobID (g k) = jobID k" "live (g j) \<longrightarrow> P (g j)" for g P
  proof (intro conjI)
    show "idsOK (updateJob (jobID j) g db)" using assms(1) that(1) by (simp add: updateJob_ids)
    show "\<exists>js. updateJob (jobID j) g db = db\<lparr>Jobs := js\<rparr>" unfolding updateJob_def by blast
    show "\<exists>zs. filter live (Jobs (updateJob (jobID j) g db)) = xs @ zs @ ys \<and> (\<forall>k \<in> set zs. P k)"
      by (rule exI [of _ "if live (g j) then [g j] else []"]) (use live_update [OF assms(1,2), of g] that(2) in auto)
  qed
  show ?thesis
  proof (cases "safeRun r")
    case RunOK
    then have "finishRun env j r db = updateJob (jobID j) (\<lambda>k. k\<lparr>completedAt := Some (reEnd env), lockedBy := None, lockedAt := None\<rparr>) db"
      using assms(3) by (simp add: finishRun_def ignoring_def MarkJobCompleted_def)
    then show ?thesis by (simp only:) (rule upd, simp_all add: live_def)
  next
    case (RunFailed e)
    show ?thesis
    proof (cases "jobMaxAttempts j \<le> jobAttempts j")
      case True
      then have "finishRun env j r db = updateJob (jobID j) (\<lambda>k. k\<lparr>failedAt := Some (reEnd env), lockedBy := None, lockedAt := None, lastError := Some e\<rparr>) db"
        using assms(4) RunFailed by (simp add: finishRun_def ignoring_def MarkJobFailed_def)
      then show ?thesis by (simp only:) (rule upd, simp_all add: live_def)
    next
      case False
      then have "finishRun env j r db = updateJob (jobID j) (\<lambda>k. k\<lparr>lockedBy := None, lockedAt := None, lastError := Some e, runAt := reEnd env + Backoff (jobAttempts j) (Some (reJitter env))\<rparr>) db"
        using assms(5) RunFailed by (simp add: finishRun_def ignoring_def RescheduleJob_def)
      then show ?thesis using False by (simp only:) (rule upd, simp_all)
    qed
  next
    case (RunPoison e)
    then have "finishRun env j r db = updateJob (jobID j) (\<lambda>k. k\<lparr>failedAt := Some (reEnd env), lockedBy := None, lockedAt := None, lastError := Some (''worker: poison job: '' @ e)\<rparr>) db"
      using assms(4) by (simp add: finishRun_def ignoring_def MarkJobFailed_def)
    then show ?thesis by (simp only:) (rule upd, simp_all add: live_def)
  qed (cases r, simp_all)
qed

text \<open>The last pass of a drain found nothing due, unless it failed.\<close>

lemma tryKinds_quiet:
  "tryKinds p env n kinds any db = (Inr False, db') \<Longrightarrow>
     db' = db \<and> \<not> any \<and> (\<forall>i < length kinds. \<forall>j \<in> set (Jobs db). \<not> claimable (reStart (env (n + i))) (kinds ! i) j)"
proof (induction kinds arbitrary: n any db)
  case (Cons kind kinds)
  obtain did db1 where run: "runOne p (env n) kind db = (Inr did, db1)" "tryKinds p env (Suc n) kinds (any \<or> did) db1 = (Inr False, db')"
    using Cons.prems by (auto split: if_split_asm prod.split_asm sum.split_asm)
  note rest = Cons.IH [OF run(2)]
  then have "oldest (filter (claimable (reStart (env n)) kind) (Jobs db)) = None" "db1 = db"
    using run(1) by (auto simp: runOne_def ClaimJob_def Let_def split: option.split_asm prod.split_asm)
  then show ?case using rest by (auto simp: oldest_None filter_empty_conv less_Suc_eq_0_disj)
qed simp

lemma runOne_succeeds: "reFaults env ''ClaimJob'' = None \<Longrightarrow> \<exists>did db1. runOne p env kind db = (Inr did, db1)"
  by (auto simp: runOne_def split: option.split prod.split)

lemma tryKinds_succeeds:
  "(\<And>k. \<not> reCancelled (env k) \<and> reFaults (env k) ''ClaimJob'' = None) \<Longrightarrow> \<exists>b. fst (tryKinds p env n kinds any db) = Inr b"
proof (induction kinds arbitrary: n any db)
  case (Cons kind kinds)
  obtain did db1 where "runOne p (env n) kind db = (Inr did, db1)" using runOne_succeeds Cons.prems by blast
  then show ?case using Cons.prems [of n] Cons.IH [OF Cons.prems] by simp
qed simp

lemma drain_last_pass: "drain p env n db = Some db' \<Longrightarrow> \<exists>m db0 r. tryClaimAndRun p env m db0 = (r, db') \<and> r \<noteq> Inr True"
proof (rule drain.raw_induct [where P = "\<lambda>p env n db db'. \<exists>m db0 r. tryClaimAndRun p env m db0 = (r, db') \<and> r \<noteq> Inr True"])
qed (auto split: prod.split_asm if_split_asm)

lemma drain_leaves_nothing_due:
  assumes "drain p env n db = Some db'" "\<And>k. \<not> reCancelled (env k) \<and> reFaults (env k) ''ClaimJob'' = None"
  shows "\<exists>m. \<forall>i < length (kindOrder p m). \<forall>j \<in> set (Jobs db'). \<not> claimable (reStart (env (m + i))) (kindOrder p m ! i) j"
proof -
  obtain m db0 r where r: "tryKinds p env m (kindOrder p m) False db0 = (r, db')" "r \<noteq> Inr True"
    using drain_last_pass [OF assms(1)] by (auto simp: tryClaimAndRun_def)
  then have "r = Inr False" using tryKinds_succeeds [where env = env and kinds = "kindOrder p m" and p = p and n = m and any = False and db = db0, OF assms(2)] by auto
  then show ?thesis using tryKinds_quiet r(1) by blast
qed

text \<open>
  What the pool relies on: handlers keep the unfinished jobs and only add new ones, and either use up some of
  their own work (\<open>pot\<close>) or add only jobs of kinds with a lower rank. The marks of the pool do not touch that work.
\<close>

locale job_handlers =
  fixes p :: "('x JobTable_scheme, 'z) Pool_scheme" and rank :: "string \<Rightarrow> nat" and pot :: "'x JobTable_scheme \<Rightarrow> nat"
  assumes handler_adds: "handlers p kind = Some h \<Longrightarrow> h payload db = (r, db') \<Longrightarrow> idsOK db \<Longrightarrow> idsOK db' \<and>
      (\<exists>new. filter live (Jobs db') = filter live (Jobs db) @ new \<and> (pot db' < pot db \<or> (pot db' = pot db \<and> (\<forall>j \<in> set new. rank (jobKind j) < rank kind))))"
    and pot_marks: "pot (db\<lparr>Jobs := js\<rparr>) = pot db"
begin

definition measureOf :: "'x JobTable_scheme \<Rightarrow> nat \<times> (nat \<times> nat) multiset" where
  "measureOf db = (pot db, workLeft rank db)"

definition progress :: "('x JobTable_scheme \<times> 'x JobTable_scheme) set" where
  "progress = inv_image (less_than <*lex*> mult jobLess) measureOf"

lemma progress_wf: "wf progress"
  unfolding progress_def by (intro wf_inv_image wf_lex_prod wf_less_than wf_mult jobLess_wf)

lemma progress_trans: "trans progress"
  unfolding progress_def by (intro trans_inv_image trans_lex_prod) (auto simp: mult_def)

lemma pot_update [simp]: "pot (updateJob i g db) = pot db"
  by (simp add: updateJob_def pot_marks)

text \<open>One live job is replaced by smaller ones: less is left to do.\<close>

lemma progress_replace:
  assumes "filter live (Jobs db) = xs @ j # ys" "filter live (Jobs db') = xs @ zs @ ys @ new" "pot db' = pot db"
    "\<And>k. k \<in> set zs \<union> set new \<Longrightarrow> (todo rank k, todo rank j) \<in> jobLess"
  shows "(db', db) \<in> progress"
proof -
  let ?I = "image_mset (todo rank) (mset xs + mset ys)"
  have "workLeft rank db = ?I + {#todo rank j#}" "workLeft rank db' = ?I + image_mset (todo rank) (mset zs + mset new)"
    using assms(1,2) by (simp_all add: workLeft_def)
  moreover have "(?I + image_mset (todo rank) (mset zs + mset new), ?I + {#todo rank j#}) \<in> mult jobLess"
    by (rule one_step_implies_mult) (use assms(4) in auto)
  ultimately show ?thesis using assms(3) by (simp add: progress_def measureOf_def)
qed

lemma runOne_progress:
  assumes "runOne p env kind db = (Inr did, db')" "idsOK db"
    and "reFaults env ''MarkJobCompleted'' = None" "reFaults env ''MarkJobFailed'' = None" "reFaults env ''RescheduleJob'' = None"
  shows "idsOK db' \<and> (if did then (db', db) \<in> progress else db' = db)"
proof (cases "oldest (filter (claimable (reStart env) kind) (Jobs db))")
  case None
  then show ?thesis using assms(1,2) by (auto simp: runOne_def ClaimJob_def split: option.split_asm)
next
  case (Some j)
  then have j: "j \<in> set (Jobs db)" "live j" "jobKind j = kind" using oldest_Some [OF Some] by (auto simp: claimable_def live_def)
  define claim where "claim = (\<lambda>r::Job. r\<lparr>lockedBy := Some (InstanceID p), lockedAt := Some (reStart env), jobAttempts := jobAttempts r + 1\<rparr>)"
  have claim: "live (claim j)" "jobID (claim k) = jobID k" "jobKind (claim k) = jobKind k" "jobMaxAttempts (claim k) = jobMaxAttempts k" "jobAttempts (claim k) = jobAttempts k + 1" for k
    using j(2) by (simp_all add: claim_def live_def)
  define db1 where "db1 = updateJob (jobID j) claim db"
  obtain xs ys where xs: "filter live (Jobs db) = xs @ j # ys" using split_list [of j "filter live (Jobs db)"] j(1,2) by auto
  have xs1: "filter live (Jobs db1) = xs @ claim j # ys" using live_update [OF assms(2) xs, of claim] claim(1) by (simp add: db1_def)
  have db1: "idsOK db1" "pot db1 = pot db" using assms(2) claim(2) by (simp_all add: db1_def updateJob_ids)
  have claimed: "ClaimJob (reStart env) kind (InstanceID p) db = (Some (claim j), db1)" using Some by (simp add: ClaimJob_def claim_def db1_def)
  show ?thesis
  proof (cases "handlers p kind")
    case None
    then have r: "did" "db' = MarkJobFailed (reStart env) (jobID (claim j)) ''no handler registered'' db1"
      using assms(1,4) claimed claim(3) j(3) by (auto simp: runOne_def ignoring_def split: option.split_asm)
    have "filter live (Jobs db') = xs @ [] @ ys @ []" using live_update [OF db1(1) xs1] by (simp add: r(2) MarkJobFailed_def live_def)
    then have "(db', db) \<in> progress" by (rule progress_replace [OF xs]) (use r(2) db1(2) in \<open>simp_all add: MarkJobFailed_def\<close>)
    then show ?thesis using r db1(1) by (simp add: MarkJobFailed_def updateJob_ids)
  next
    case (Some h)
    obtain o' db2 where h: "h (jobPayload (claim j)) db1 = (o', db2)" by fastforce
    have r: "did" "db' = finishRun env (claim j) o' db2"
      using assms(1) claimed claim(3) j(3) Some h by (auto simp: runOne_def split: option.split_asm)
    obtain new where new: "idsOK db2" "filter live (Jobs db2) = filter live (Jobs db1) @ new"
        "pot db2 < pot db1 \<or> (pot db2 = pot db1 \<and> (\<forall>k \<in> set new. rank (jobKind k) < rank kind))" using handler_adds [OF Some h db1(1)] by blast
    have xs2: "filter live (Jobs db2) = xs @ claim j # ys @ new" by (simp add: new(2) xs1)
    obtain zs where zs: "filter live (Jobs db') = xs @ zs @ ys @ new" "\<And>k. k \<in> set zs \<Longrightarrow> (todo rank k, todo rank j) \<in> jobLess"
      and fin: "idsOK db'" "pot db' = pot db2"
    proof -
      obtain zs js where "idsOK db'" "db' = db2\<lparr>Jobs := js\<rparr>" "filter live (Jobs db') = xs @ zs @ ys @ new"
          "\<forall>k \<in> set zs. jobAttempts (claim j) < jobMaxAttempts (claim j) \<and> jobKind k = jobKind (claim j) \<and> jobAttempts k = jobAttempts (claim j) \<and> jobMaxAttempts k = jobMaxAttempts (claim j)"
        using finishRun_effect [OF new(1) xs2 assms(3-5), of o'] r(2) by blast
      moreover from this(4) have "(todo rank k, todo rank j) \<in> jobLess" if "k \<in> set zs" for k
        using that claim(3-5) by (auto simp: jobLess_def todo_def)
      ultimately show thesis using that [of zs] by (simp add: pot_marks)
    qed
    have "(db', db) \<in> progress"
    proof (cases "pot db2 < pot db1")
      case True
      then show ?thesis by (simp add: progress_def measureOf_def fin(2) db1(2))
    next
      case False
      then have low: "pot db' = pot db" "\<And>k. k \<in> set new \<Longrightarrow> (todo rank k, todo rank j) \<in> jobLess"
        using new(3) fin(2) db1(2) j(3) by (auto simp: jobLess_def todo_def)
      show ?thesis by (rule progress_replace [OF xs zs(1) low(1)]) (use zs(2) low(2) in blast)
    qed
    then show ?thesis using r(1) fin(1) by simp
  qed
qed

text \<open>A pass that ran a job leaves less to do.\<close>

lemma tryKinds_progress:
  assumes "tryKinds p env n kinds any db = (r, db')" "idsOK db"
    and "\<And>k name. name \<in> {''MarkJobCompleted'', ''MarkJobFailed'', ''RescheduleJob''} \<Longrightarrow> reFaults (env k) name = None"
  shows "(r = Inr True \<longrightarrow> idsOK db' \<and> (any \<or> (db', db) \<in> progress)) \<and> ((db', db) \<in> progress\<^sup>= \<or> (\<exists>e. r = Inl e))"
  using assms(1,2)
proof (induction kinds arbitrary: n any db)
  case (Cons kind kinds)
  show ?case
  proof (cases "\<exists>did db1. \<not> reCancelled (env n) \<and> runOne p (env n) kind db = (Inr did, db1)")
    case True
    then obtain did db1 where run: "\<not> reCancelled (env n)" "runOne p (env n) kind db = (Inr did, db1)" by blast
    have one: "idsOK db1" "if did then (db1, db) \<in> progress else db1 = db" using runOne_progress [OF run(2) Cons.prems(2)] assms(3) by simp_all
    have "tryKinds p env (Suc n) kinds (any \<or> did) db1 = (r, db')" using Cons.prems(1) run by simp
    from Cons.IH [OF this one(1)] one(2) show ?thesis using transD [OF progress_trans] by (auto split: if_split_asm)
  next
    case False
    then show ?thesis using Cons.prems(1) by (auto split: if_split_asm prod.split_asm sum.split_asm)
  qed
qed auto

lemma drain_returns:
  assumes "idsOK db" "\<And>k name. name \<in> {''MarkJobCompleted'', ''MarkJobFailed'', ''RescheduleJob''} \<Longrightarrow> reFaults (env k) name = None"
  shows "\<exists>db'. drain p env n db = Some db'"
  using progress_wf assms(1)
proof (induction db arbitrary: n rule: wf_induct_rule)
  case (less db)
  obtain r db1 where pass: "tryClaimAndRun p env n db = (r, db1)" by fastforce
  show ?case
  proof (cases "r = Inr True")
    case True
    then have "idsOK db1" "(db1, db) \<in> progress"
      using tryKinds_progress [OF _ less.prems assms(2), where any = False] pass by (auto simp: tryClaimAndRun_def)
    from less.IH [OF this(2,1)] show ?thesis using pass True by (simp add: drain.simps)
  next
    case False
    then show ?thesis using pass by (simp add: drain.simps)
  qed
qed

end

section \<open>Claims are exclusive\<close>

text \<open>
  Several workers at once: claims and marks are single statements of the database, between which time passes. With
  \<open>punctual\<close> no dispatch outlives its lease, which is what the timeout of the pool is for.
\<close>

record Dispatch =
  dWorker :: string
  dJob :: Job
  dClaimed :: int

record Queue =
  qTable :: JobTable
  qNow :: int
  qFlight :: "Dispatch list"

definition PurgeCompletedJobs :: "int \<Rightarrow> 'x JobTable_scheme \<Rightarrow> 'x JobTable_scheme" where
  "PurgeCompletedJobs cutoff db = db\<lparr>Jobs := filter (\<lambda>j. \<not> (case completedAt j of Some t \<Rightarrow> t < cutoff | None \<Rightarrow> False)) (Jobs db)\<rparr>"

definition PurgeFailedJobs :: "int \<Rightarrow> 'x JobTable_scheme \<Rightarrow> 'x JobTable_scheme" where
  "PurgeFailedJobs cutoff db = db\<lparr>Jobs := filter (\<lambda>j. \<not> (case failedAt j of Some t \<Rightarrow> t < cutoff | None \<Rightarrow> False)) (Jobs db)\<rparr>"

inductive queueStep :: "bool \<Rightarrow> Queue \<Rightarrow> Queue \<Rightarrow> bool" for punctual where
  Ticked: "qNow s \<le> t \<Longrightarrow> punctual \<longrightarrow> (\<forall>d \<in> set (qFlight s). t \<le> dClaimed d + leaseTime) \<Longrightarrow> queueStep punctual s (s\<lparr>qNow := t\<rparr>)"
| Enqueued: "Enqueue f (qNow s) kind body opts (qTable s) = (r, db) \<Longrightarrow> queueStep punctual s (s\<lparr>qTable := db\<rparr>)"
| Claimed: "ClaimJob (qNow s) kind by (qTable s) = (Some j, db) \<Longrightarrow>
    queueStep punctual s (s\<lparr>qTable := db, qFlight := qFlight s @ [\<lparr>dWorker = by, dJob = j, dClaimed = qNow s\<rparr>]\<rparr>)"
| Finished: "d \<in> set (qFlight s) \<Longrightarrow> reEnd env = qNow s \<Longrightarrow>
    queueStep punctual s (s\<lparr>qTable := finishRun env (dJob d) o' (qTable s), qFlight := remove1 d (qFlight s)\<rparr>)"
| PurgedCompleted: "queueStep punctual s (s\<lparr>qTable := PurgeCompletedJobs cutoff (qTable s)\<rparr>)"
| PurgedFailed: "queueStep punctual s (s\<lparr>qTable := PurgeFailedJobs cutoff (qTable s)\<rparr>)"

definition holds :: "JobTable \<Rightarrow> int \<Rightarrow> Dispatch \<Rightarrow> bool" where
  "holds db now d \<longleftrightarrow> dClaimed d \<le> now \<and> now \<le> dClaimed d + leaseTime
    \<and> (\<exists>j \<in> set (Jobs db). jobID j = jobID (dJob d) \<and> live j \<and> lockedBy j \<noteq> None \<and> lockedAt j = Some (dClaimed d))"

definition queueInv :: "Queue \<Rightarrow> bool" where
  "queueInv s \<longleftrightarrow> idsOK (qTable s) \<and> distinct (map (\<lambda>d. jobID (dJob d)) (qFlight s)) \<and> (\<forall>d \<in> set (qFlight s). holds (qTable s) (qNow s) d)"

lemma holds_update: "jobID (dJob d) \<noteq> i \<Longrightarrow> (\<And>j. jobID (g j) = jobID j) \<Longrightarrow> holds db now d \<Longrightarrow> holds (updateJob i g db) now d"
  unfolding holds_def updateJob_def by (auto intro!: bexI)

lemma job_unique: "idsOK db \<Longrightarrow> j \<in> set (Jobs db) \<Longrightarrow> k \<in> set (Jobs db) \<Longrightarrow> jobID j = jobID k \<Longrightarrow> j = k"
  by (auto simp: idsOK_def distinct_map dest: inj_onD)

lemma held_job_not_claimable:
  assumes "idsOK db" "holds db now d" "j \<in> set (Jobs db)" "claimable now kind j"
  shows "jobID j \<noteq> jobID (dJob d)"
proof
  assume same: "jobID j = jobID (dJob d)"
  obtain k where "k \<in> set (Jobs db)" "jobID k = jobID (dJob d)" "lockedBy k \<noteq> None" "lockedAt k = Some (dClaimed d)" "now \<le> dClaimed d + leaseTime"
    using assms(2) by (auto simp: holds_def)
  moreover from this have "j = k" using job_unique [OF assms(1,3)] same by simp
  ultimately show False using assms(4) by (auto simp: claimable_def)
qed

lemma finishRun_update: "\<exists>g. finishRun env j r db = updateJob (jobID j) g db \<and> (\<forall>k. jobID (g k) = jobID k)"
proof -
  have "updateJob (jobID j) (\<lambda>k. k) db = db" by (simp add: updateJob_def)
  then have same: "\<exists>g. db = updateJob (jobID j) g db \<and> (\<forall>k. jobID (g k) = jobID k)" by metis
  show ?thesis unfolding finishRun_def ignoring_def MarkJobCompleted_def MarkJobFailed_def RescheduleJob_def
    using same by (cases "safeRun r") (auto split: if_split intro!: exI)
qed

lemma Enqueue_ids:
  assumes "Enqueue f now kind body opts db = (r, db')" "idsOK db"
  shows "idsOK db' \<and> (db' = db \<or> (\<exists>j. db' = db\<lparr>Jobs := Jobs db @ [j], NextJobID := NextJobID db + 1\<rparr> \<and> jobKind j = kind \<and> live j))"
proof (cases "db' = db")
  case False
  then obtain j where j: "db' = db\<lparr>Jobs := Jobs db @ [j], NextJobID := NextJobID db + 1\<rparr>" "jobID j = NextJobID db" "jobKind j = kind" "live j"
    using assms(1) by (auto simp: Enqueue_def EnqueueJob_def Let_def live_def split: option.split_asm if_split_asm)
  moreover have "idsOK db'" using assms(2) unfolding j(1) idsOK_def by (force simp: j(2))
  ultimately show ?thesis by blast
qed (use assms in simp)

lemma purge_inv:
  assumes "queueInv s" "\<And>j. live j \<Longrightarrow> P j"
  shows "queueInv (s\<lparr>qTable := (qTable s)\<lparr>Jobs := filter P (Jobs (qTable s))\<rparr>\<rparr>)"
  using assms by (fastforce simp: queueInv_def idsOK_def holds_def distinct_map intro: inj_on_subset)

lemma claim_inv:
  assumes "queueInv s" "ClaimJob (qNow s) kind w (qTable s) = (Some j, db)"
  shows "queueInv (s\<lparr>qTable := db, qFlight := qFlight s @ [\<lparr>dWorker = w, dJob = j, dClaimed = qNow s\<rparr>]\<rparr>)"
proof -
  define claim where "claim = (\<lambda>r::Job. r\<lparr>lockedBy := Some w, lockedAt := Some (qNow s), jobAttempts := jobAttempts r + 1\<rparr>)"
  obtain i where i: "oldest (filter (claimable (qNow s) kind) (Jobs (qTable s))) = Some i" "j = claim i" "db = updateJob (jobID i) claim (qTable s)"
    using assms(2) by (auto simp: ClaimJob_def claim_def Let_def split: option.split_asm)
  have iin: "i \<in> set (Jobs (qTable s))" "claimable (qNow s) kind i" using oldest_Some [OF i(1)] by auto
  have claim: "jobID (claim k) = jobID k" "live (claim k) = live k" "lockedBy (claim k) = Some w" "lockedAt (claim k) = Some (qNow s)" for k by (simp_all add: claim_def live_def)
  have ids: "idsOK (qTable s)" and flight: "\<And>d. d \<in> set (qFlight s) \<Longrightarrow> holds (qTable s) (qNow s) d" using assms(1) by (auto simp: queueInv_def)
  have other: "jobID (dJob d) \<noteq> jobID i" if "d \<in> set (qFlight s)" for d using held_job_not_claimable [OF ids flight [OF that] iin] by simp
  then have fresh: "jobID i \<notin> (\<lambda>d. jobID (dJob d)) ` set (qFlight s)" by force
  have "holds db (qNow s) d" if "d \<in> set (qFlight s)" for d unfolding i(3) by (rule holds_update [OF other [OF that] claim(1) flight [OF that]])
  moreover have "holds db (qNow s) \<lparr>dWorker = w, dJob = j, dClaimed = qNow s\<rparr>"
  proof -
    have "claim i \<in> set (Jobs db)" using iin(1) by (force simp: i(3) updateJob_def)
    moreover have "live i" using iin(2) by (simp add: claimable_def live_def)
    ultimately show ?thesis using claim i(2) by (auto simp: holds_def leaseTime_def second_def intro!: bexI [of _ "claim i"])
  qed
  moreover have "idsOK db" using ids claim(1) by (simp add: i(3) updateJob_ids)
  ultimately show ?thesis using assms(1) fresh i(2) claim(1) by (simp add: queueInv_def)
qed

lemma queueStep_inv: "queueInv s \<Longrightarrow> queueStep True s s' \<Longrightarrow> queueInv s'"
proof (erule queueStep.cases)
  fix s1 t assume "queueInv s" "s = s1" "s' = s1\<lparr>qNow := t\<rparr>" "qNow s1 \<le> t" "True \<longrightarrow> (\<forall>d \<in> set (qFlight s1). t \<le> dClaimed d + leaseTime)"
  then show "queueInv s'" by (auto simp: queueInv_def holds_def)
next
  fix f s1 kind body opts r db assume "queueInv s" "s = s1" "s' = s1\<lparr>qTable := db\<rparr>" "Enqueue f (qNow s1) kind body opts (qTable s1) = (r, db)"
  then show "queueInv s'" using Enqueue_ids [of f "qNow s1" kind body opts "qTable s1" r db] by (auto simp: queueInv_def holds_def)
next
  fix s1 kind by' j db assume "queueInv s" "s = s1" "ClaimJob (qNow s1) kind by' (qTable s1) = (Some j, db)"
    "s' = s1\<lparr>qTable := db, qFlight := qFlight s1 @ [\<lparr>dWorker = by', dJob = j, dClaimed = qNow s1\<rparr>]\<rparr>"
  then show "queueInv s'" using claim_inv by blast
next
  fix d s1 env o' assume a: "queueInv s" "s = s1" "d \<in> set (qFlight s1)"
    "s' = s1\<lparr>qTable := finishRun env (dJob d) o' (qTable s1), qFlight := remove1 d (qFlight s1)\<rparr>"
  obtain g where g: "finishRun env (dJob d) o' (qTable s1) = updateJob (jobID (dJob d)) g (qTable s1)" "\<And>k. jobID (g k) = jobID k"
    using finishRun_update [of env "dJob d" o' "qTable s1"] by blast
  have dist: "distinct (map (\<lambda>d. jobID (dJob d)) (qFlight s1))" using a(1,2) by (simp add: queueInv_def)
  have rest: "e \<in> set (qFlight s1) \<and> jobID (dJob e) \<noteq> jobID (dJob d)" if "e \<in> set (remove1 d (qFlight s1))" for e
  proof -
    have "distinct (qFlight s1)" using dist by (simp add: distinct_map)
    then have "e \<in> set (qFlight s1)" "e \<noteq> d" using that by auto
    then show ?thesis using dist a(3) by (auto simp: distinct_map dest: inj_onD)
  qed
  have "distinct (map (\<lambda>d. jobID (dJob d)) (remove1 d (qFlight s1)))" using dist by (simp add: distinct_map inj_on_def)
  then show "queueInv s'" using a(1,2,4) g rest updateJob_ids [OF g(2)] by (auto simp: queueInv_def intro!: holds_update)
next
  fix s1 cutoff assume "queueInv s" "s = s1" "s' = s1\<lparr>qTable := PurgeCompletedJobs cutoff (qTable s1)\<rparr>"
  then show "queueInv s'" by (auto simp: PurgeCompletedJobs_def live_def intro!: purge_inv)
next
  fix s1 cutoff assume "queueInv s" "s = s1" "s' = s1\<lparr>qTable := PurgeFailedJobs cutoff (qTable s1)\<rparr>"
  then show "queueInv s'" by (auto simp: PurgeFailedJobs_def live_def intro!: purge_inv)
qed

interpretation queue_runs: kept_invariant "queueStep True" queueInv
  by unfold_locales (rule queueStep_inv)

definition emptyQueue :: Queue where
  "emptyQueue = \<lparr>qTable = \<lparr>Jobs = [], NextJobID = 1\<rparr>, qNow = 0, qFlight = []\<rparr>"

text \<open>
  C7. No job runs twice at a time. In every run of any number of workers in which no dispatch outlives its
  five-minute lease, whatever is enqueued, claimed, finished, failed or purged in between, the jobs in flight are
  distinct.
\<close>

theorem claims_are_exclusive:
  assumes "(queueStep True)\<^sup>*\<^sup>* emptyQueue s"
  shows "distinct (map (\<lambda>d. jobID (dJob d)) (qFlight s))"
proof -
  have "queueInv emptyQueue" by (simp add: queueInv_def emptyQueue_def idsOK_def)
  from queue_runs.reachable_inv [OF assms this] show ?thesis by (simp add: queueInv_def)
qed

text \<open>A run: one job, claimed by a worker that is slow, by a second one after the lease, and by a third.\<close>

definition demoEnv :: "int \<Rightarrow> RunEnv" where
  "demoEnv t = \<lparr>reStart = t, reEnd = t, reJitter = (\<lambda>d. d), reFaults = (\<lambda>_. None), reCancelled = False\<rparr>"

definition demoQueue :: Queue where
  "demoQueue = emptyQueue\<lparr>qTable := snd (Enqueue (\<lambda>_. None) 0 ''push:process'' (Some ''{}'') \<lparr>eoRunAt = None, eoMaxAttempts = 0\<rparr> (qTable emptyQueue))\<rparr>"

definition claimNow :: "string \<Rightarrow> Queue \<Rightarrow> Queue" where
  "claimNow w s = (case ClaimJob (qNow s) ''push:process'' w (qTable s) of (Some j, db) \<Rightarrow> s\<lparr>qTable := db, qFlight := qFlight s @ [\<lparr>dWorker = w, dJob = j, dClaimed = qNow s\<rparr>]\<rparr>
     | (None, db) \<Rightarrow> s)"

definition failFirst :: "Queue \<Rightarrow> Queue" where
  "failFirst s = s\<lparr>qTable := finishRun (demoEnv (qNow s)) (dJob (hd (qFlight s))) (RunFailed ''e'') (qTable s), qFlight := remove1 (hd (qFlight s)) (qFlight s)\<rparr>"

lemma demo_steps:
  "queueStep b emptyQueue demoQueue"
  "(queueStep b)\<^sup>*\<^sup>* s (claimNow w s)"
  "qFlight s \<noteq> [] \<Longrightarrow> queueStep b s (failFirst s)"
  "qNow s \<le> t \<Longrightarrow> queueStep False s (s\<lparr>qNow := t\<rparr>)"
proof -
  show "queueStep b emptyQueue demoQueue" unfolding demoQueue_def
    by (rule Enqueued [where f = "\<lambda>_. None" and kind = "''push:process''" and body = "Some ''{}''" and opts = "\<lparr>eoRunAt = None, eoMaxAttempts = 0\<rparr>"])
       (simp add: emptyQueue_def prod_eq_iff)
  show "(queueStep b)\<^sup>*\<^sup>* s (claimNow w s)"
    by (auto simp: claimNow_def split: prod.split option.split intro!: r_into_rtranclp Claimed)
  show "qFlight s \<noteq> [] \<Longrightarrow> queueStep b s (failFirst s)" unfolding failFirst_def by (rule Finished) (simp_all add: demoEnv_def)
  show "qNow s \<le> t \<Longrightarrow> queueStep False s (s\<lparr>qNow := t\<rparr>)" by (rule Ticked) simp_all
qed

theorem claims_are_exclusive_witness:
  "length (qFlight (claimNow ''b'' (claimNow ''a'' demoQueue))) = 1 \<and> distinct (map (\<lambda>d. jobID (dJob d)) (qFlight (claimNow ''b'' (claimNow ''a'' demoQueue))))"
proof -
  have "(queueStep True)\<^sup>*\<^sup>* emptyQueue (claimNow ''b'' (claimNow ''a'' demoQueue))"
    using demo_steps(1) [of True] demo_steps(2) [of True demoQueue "''a''"] demo_steps(2) [of True "claimNow ''a'' demoQueue" "''b''"] by simp
  from claims_are_exclusive [OF this] show ?thesis by (intro conjI) (code_simp, assumption)
qed

text \<open>
  Without that: the marks do not ask who holds the job, so a worker that finishes after its lease frees the job that
  another one is running. Here two workers run it, both within their leases.
\<close>

lemma late_finish_frees_running_job:
  "\<exists>s. (queueStep False)\<^sup>*\<^sup>* emptyQueue s \<and> map (\<lambda>d. jobID (dJob d)) (qFlight s) = [1, 1] \<and> (\<forall>d \<in> set (qFlight s). qNow s \<le> dClaimed d + leaseTime)"
proof -
  define s1 where "s1 = claimNow ''b'' ((claimNow ''a'' demoQueue)\<lparr>qNow := 6 * 60 * second\<rparr>)"
  define s2 where "s2 = claimNow ''c'' ((failFirst s1)\<lparr>qNow := 7 * 60 * second\<rparr>)"
  have "(queueStep False)\<^sup>*\<^sup>* emptyQueue (claimNow ''a'' demoQueue)" using demo_steps(1) [of False] demo_steps(2) [of False demoQueue "''a''"] by simp
  also have "queueStep False (claimNow ''a'' demoQueue) ((claimNow ''a'' demoQueue)\<lparr>qNow := 6 * 60 * second\<rparr>)" by (rule demo_steps(4)) code_simp
  also have "(queueStep False)\<^sup>*\<^sup>* ((claimNow ''a'' demoQueue)\<lparr>qNow := 6 * 60 * second\<rparr>) s1" unfolding s1_def by (rule demo_steps(2))
  also have "queueStep False s1 (failFirst s1)" by (rule demo_steps(3)) (unfold s1_def, code_simp)
  also have "queueStep False (failFirst s1) ((failFirst s1)\<lparr>qNow := 7 * 60 * second\<rparr>)" by (rule demo_steps(4)) (unfold s1_def, code_simp)
  also have "(queueStep False)\<^sup>*\<^sup>* ((failFirst s1)\<lparr>qNow := 7 * 60 * second\<rparr>) s2" unfolding s2_def by (rule demo_steps(2))
  finally have "(queueStep False)\<^sup>*\<^sup>* emptyQueue s2" .
  moreover have "map (\<lambda>d. jobID (dJob d)) (qFlight s2) = [1, 1]" "\<forall>d \<in> set (qFlight s2). qNow s2 \<le> dClaimed d + leaseTime"
    unfolding s2_def s1_def by code_simp+
  ultimately show ?thesis by (intro exI [of _ s2] conjI)
qed

text \<open>An unfinished job is never lost: from some time on its kind can be claimed, whoever holds it. The number of attempts is not asked for.\<close>

lemma unfinished_job_is_claimable:
  assumes "j \<in> set (Jobs db)" "live j" "lockedBy j \<noteq> None \<longrightarrow> lockedAt j \<noteq> None"
  shows "\<exists>t0. \<forall>t \<ge> t0. fst (ClaimJob t (jobKind j) w db) \<noteq> None"
proof -
  define t0 where "t0 = max (runAt j) (case lockedAt j of Some t \<Rightarrow> t + leaseTime + 1 | None \<Rightarrow> 0)"
  have "claimable t (jobKind j) j" if "t0 \<le> t" for t
    using assms that by (auto simp: claimable_def live_def t0_def split: option.split_asm)
  then have "oldest (filter (claimable t (jobKind j)) (Jobs db)) \<noteq> None" if "t0 \<le> t" for t
    using assms(1) that by (auto simp: oldest_None filter_empty_conv)
  then have "fst (ClaimJob t (jobKind j) w db) \<noteq> None" if "t0 \<le> t" for t using that by (force simp: ClaimJob_def Let_def split: option.split)
  then show ?thesis by blast
qed

text \<open>The delays grow from half a minute to an hour, doubling.\<close>

lemma doubling_closed: "0 < d \<Longrightarrow> d \<le> cap \<Longrightarrow> doubling cap n d = min cap (d * 2 ^ n)"
proof (induction n arbitrary: d)
  case (Suc n)
  have grow: "d * 2 \<le> d * 2 ^ Suc n" using mult_left_mono [of 1 "2 ^ n" "d * 2"] Suc.prems(1) by (simp add: mult.assoc)
  show ?case
  proof (cases "d * 2 \<ge> cap")
    case True
    then show ?thesis using grow by (simp add: min_def)
  next
    case False
    then show ?thesis using Suc.IH [of "d * 2"] Suc.prems(1) by (simp add: mult.assoc)
  qed
qed simp

lemma backoff_schedule: "Backoff n None = min (3600 * second) (30 * second * 2 ^ nat (max 1 n - 1))"
  by (simp add: Backoff_def Let_def doubling_closed second_def max_def)

end
