(* ===== verification/Webhooks.thy ===== *)
theory Webhooks
  imports JobQueue OutboundGuard
begin

text \<open>
  Webhooks (\<^verbatim>\<open>src/internal/webhook\<close> and \<^verbatim>\<open>src/internal/worker/jobs/webhook.go\<close>): fan-out of domain events to
  subscribers, signed delivery through the guarded client, retries, disabling, and the job handlers that tie them
  to the queue. JSON, the cipher, hashes, the resolver and the answers of the receivers are arguments.
\<close>

section \<open>Tables\<close>

record Webhook =
  whID :: go_int64
  whOwnerKind :: string
  whOwnerID :: go_int64
  whURL :: string
  whContentType :: string
  whEvents :: "string list"
  whCipher :: string
  whNonce :: string
  whActive :: bool
  whFailures :: int
  whThreshold :: int
  whDisabledAt :: "int option"
  whDisabledReason :: "string option"
  whLastSuccess :: "int option"
  whLastFailure :: "int option"
  whSSL :: bool
  whCreatedBy :: "go_int64 option"

text \<open>The summaries of errors, before they are printed.\<close>

datatype summary =
  WebhookDisabled | DecryptFailed | SsrfRefused ssrf_reason | PayloadTooLarge | TransportFailed string
| HttpRetryable int | HttpRejected int | MaxAttemptsExhausted summary

record Delivery =
  dlID :: go_int64
  dlWebhook :: go_int64
  dlEventKind :: string
  dlEventID :: "go_int64 option"
  dlUUID :: string
  dlHeaders :: string
  dlBody :: string
  dlAttempt :: int
  dlMaxAttempts :: int
  dlNextRetry :: "int option"
  dlStatus :: string
  dlIdempotencyKey :: string
  dlRedeliverOf :: "go_int64 option"
  dlRespStatus :: "int option"
  dlRespBody :: string
  dlTruncated :: bool
  dlCompletedAt :: "int option"
  dlError :: "summary option"

record HookEvent =
  heID :: go_int64
  heKind :: string
  heRepo :: "go_int64 option"
  heActor :: "go_int64 option"
  heCreatedAt :: int
  hePayload :: string

record HookTables = JobTable +
  Webhooks :: "Webhook list"
  NextWebhookID :: go_int64
  Deliveries :: "Delivery list"
  NextDeliveryID :: go_int64
  HookEvents :: "HookEvent list"
  WebhookCursor :: "go_int64 option"

section \<open>The world outside\<close>

datatype jsonValue = JInt int | JText string | JRaw string | JObject "(string \<times> jsonValue) list"

record HookRequest =
  rqURL :: string
  rqHeaders :: "string \<rightharpoonup> string"
  rqBody :: string

datatype httpAnswer = NoAnswer string | Answer int string

record HookEnv =
  hnNow :: int
  hnFaults :: jobFaults
  hnMarshal :: "jsonValue \<Rightarrow> string option"
  hnUnmarshalHeaders :: "string \<Rightarrow> (string \<times> string) list option"
  hnDeliveryOf :: "string \<Rightarrow> go_int64 option"
  hnTime :: "int \<Rightarrow> string"
  hnUUID :: "go_int64 \<Rightarrow> string"
  hnSHA256 :: "string \<Rightarrow> string"
  hnHMAC :: "string \<Rightarrow> string \<Rightarrow> string"
  hnOpen :: "(string \<Rightarrow> string \<Rightarrow> string option) option"
  hnSeal :: "(string \<Rightarrow> (string \<times> string) option) option"
  hnRandom :: "string option"
  hnParse :: "string \<Rightarrow> URL option"
  hnLookup :: "string \<Rightarrow> string + nat list list"
  hnSSRF :: Config
  hnServe :: "nat list \<times> string \<Rightarrow> HookRequest \<Rightarrow> httpAnswer"
  hnJitter :: "int \<Rightarrow> int"
  hnRepoOrg :: "go_int64 \<Rightarrow> go_int64 option result"

section \<open>Backoff and signatures\<close>

definition BackoffBase :: int where "BackoffBase = 30 * second"
definition BackoffMax :: int where "BackoffMax = 24 * 3600 * second"
definition ResponseBodyCap :: int where "ResponseBodyCap = 32 * 1024"
definition MaxBodySize :: int where "MaxBodySize = 25 * 1024 * 1024"

definition hookBackoff :: "int \<Rightarrow> (int \<Rightarrow> int) option \<Rightarrow> int" where
  "hookBackoff attempt jitter =
     (let n = (if attempt < 1 then 1 else attempt); d = doubling BackoffMax (nat (n - 1)) BackoffBase;
          d1 = (if d > BackoffMax then BackoffMax else d) in
      case jitter of None \<Rightarrow> d1 | Some scale \<Rightarrow> scale d1)"

definition SignSHA256 :: "HookEnv \<Rightarrow> string \<Rightarrow> string \<Rightarrow> string" where
  "SignSHA256 env secret body = ''sha256='' @ hnHMAC env secret body"

definition VerifySHA256 :: "HookEnv \<Rightarrow> string \<Rightarrow> string \<Rightarrow> string \<Rightarrow> bool" where
  "VerifySHA256 env secret body sig = (let want = SignSHA256 env secret body in if length want \<noteq> length sig then False else want = sig)"

definition OpenSecret :: "HookEnv \<Rightarrow> string \<Rightarrow> string \<Rightarrow> string option" where
  "OpenSecret env cipher nonce = (case hnOpen env of None \<Rightarrow> None | Some opn \<Rightarrow> opn cipher nonce)"

definition SealSecret :: "HookEnv \<Rightarrow> string \<Rightarrow> (string \<times> string) option" where
  "SealSecret env secret = (case hnSeal env of None \<Rightarrow> None | Some seal \<Rightarrow> if secret = '''' then None else seal secret)"

text \<open>\<^verbatim>\<open>http.CanonicalHeaderKey\<close>; a name with a character that no token has is kept.\<close>

definition tokenByte :: "char \<Rightarrow> bool" where
  "tokenByte c \<longleftrightarrow> is_ascii_lower c \<or> is_ascii_upper c \<or> is_ascii_digit c \<or> c \<in> set ''!#$%&*+-.^_`|~'' \<or> c = CHR 0x27"

fun canonicalFrom :: "bool \<Rightarrow> string \<Rightarrow> string" where
  "canonicalFrom up [] = []"
| "canonicalFrom up (c # cs) = (if up \<and> is_ascii_lower c then char_of (of_char c - 32 :: nat) else if \<not> up then ascii_lower c else c) # canonicalFrom (c = CHR ''-'') cs"

definition canonicalHeaderKey :: "string \<Rightarrow> string" where
  "canonicalHeaderKey s = (if list_all tokenByte s then canonicalFrom True s else s)"

definition headerSet :: "string \<Rightarrow> string \<Rightarrow> (string \<rightharpoonup> string) \<Rightarrow> (string \<rightharpoonup> string)" where
  "headerSet k v h = h(canonicalHeaderKey k \<mapsto> v)"

definition applyHeaders :: "HookEnv \<Rightarrow> HookRequest \<Rightarrow> string \<Rightarrow> string \<Rightarrow> string \<Rightarrow> HookRequest" where
  "applyHeaders env req headersJSON uuid secret =
     (let stored = (if headersJSON = '''' then [] else case hnUnmarshalHeaders env headersJSON of Some m \<Rightarrow> m | None \<Rightarrow> []);
          h = fold (\<lambda>(k, v). headerSet k v) stored (rqHeaders req) in
      req\<lparr>rqHeaders := headerSet ''X-Shithub-Signature-256'' (SignSHA256 env secret (rqBody req)) (headerSet ''X-Shithub-Delivery'' uuid h)\<rparr>)"

section \<open>Statements\<close>

definition updateHook :: "go_int64 \<Rightarrow> (Webhook \<Rightarrow> Webhook) \<Rightarrow> 'x HookTables_scheme \<Rightarrow> 'x HookTables_scheme" where
  "updateHook i g db = db\<lparr>Webhooks := map (\<lambda>w. if whID w = i then g w else w) (Webhooks db)\<rparr>"

definition updateDelivery :: "go_int64 \<Rightarrow> (Delivery \<Rightarrow> Delivery) \<Rightarrow> 'x HookTables_scheme \<Rightarrow> 'x HookTables_scheme" where
  "updateDelivery i g db = db\<lparr>Deliveries := map (\<lambda>d. if dlID d = i then g d else d) (Deliveries db)\<rparr>"

definition MarkDeliverySucceeded :: "int \<Rightarrow> go_int64 \<Rightarrow> int \<Rightarrow> string \<Rightarrow> bool \<Rightarrow> 'x HookTables_scheme \<Rightarrow> 'x HookTables_scheme" where
  "MarkDeliverySucceeded now i status body trunc = updateDelivery i (\<lambda>d. d\<lparr>dlStatus := ''succeeded'', dlRespStatus := Some status, dlRespBody := body,
     dlTruncated := trunc, dlCompletedAt := Some now, dlError := None\<rparr>)"

definition MarkDeliveryRetry :: "go_int64 \<Rightarrow> int option \<Rightarrow> string \<Rightarrow> bool \<Rightarrow> int \<Rightarrow> summary \<Rightarrow> 'x HookTables_scheme \<Rightarrow> 'x HookTables_scheme" where
  "MarkDeliveryRetry i status body trunc next e = updateDelivery i (\<lambda>d. d\<lparr>dlStatus := ''failed_retry'', dlAttempt := dlAttempt d + 1, dlRespStatus := status,
     dlRespBody := body, dlTruncated := trunc, dlNextRetry := Some next, dlError := Some e\<rparr>)"

definition MarkDeliveryPermanentFailure :: "int \<Rightarrow> go_int64 \<Rightarrow> int option \<Rightarrow> string \<Rightarrow> bool \<Rightarrow> summary \<Rightarrow> 'x HookTables_scheme \<Rightarrow> 'x HookTables_scheme" where
  "MarkDeliveryPermanentFailure now i status body trunc e = updateDelivery i (\<lambda>d. d\<lparr>dlStatus := ''failed_permanent'', dlRespStatus := status,
     dlRespBody := body, dlTruncated := trunc, dlCompletedAt := Some now, dlError := Some e\<rparr>)"

definition GetDeliveryByID :: "go_int64 \<Rightarrow> 'x HookTables_scheme \<Rightarrow> Delivery option" where
  "GetDeliveryByID i db = find (\<lambda>d. dlID d = i) (Deliveries db)"

definition GetWebhookByID :: "go_int64 \<Rightarrow> 'x HookTables_scheme \<Rightarrow> Webhook option" where
  "GetWebhookByID i db = find (\<lambda>w. whID w = i) (Webhooks db)"

definition AutoDisableWebhook :: "int \<Rightarrow> go_int64 \<Rightarrow> string \<Rightarrow> 'x HookTables_scheme \<Rightarrow> 'x HookTables_scheme" where
  "AutoDisableWebhook now i reason = updateHook i (\<lambda>w. w\<lparr>whDisabledAt := Some now, whDisabledReason := Some reason\<rparr>)"

definition RecordWebhookSuccess :: "int \<Rightarrow> go_int64 \<Rightarrow> 'x HookTables_scheme \<Rightarrow> 'x HookTables_scheme" where
  "RecordWebhookSuccess now i = updateHook i (\<lambda>w. w\<lparr>whFailures := 0, whLastSuccess := Some now\<rparr>)"

section \<open>Delivery\<close>

definition recordFailure :: "HookEnv \<Rightarrow> Webhook \<Rightarrow> 'x HookTables_scheme \<Rightarrow> 'x HookTables_scheme" where
  "recordFailure env hook db =
     (if hnFaults env ''RecordWebhookFailure'' \<noteq> None then db
      else case GetWebhookByID (whID hook) db of None \<Rightarrow> db | Some w \<Rightarrow>
        let db1 = updateHook (whID hook) (\<lambda>w. w\<lparr>whFailures := whFailures w + 1, whLastFailure := Some (hnNow env)\<rparr>) db; failures = whFailures w + 1 in
        if failures \<ge> whThreshold w
        then ignoring (hnFaults env) ''AutoDisableWebhook'' (AutoDisableWebhook (hnNow env) (whID hook) (''auto-disabled after '' @ Itoa failures @ '' consecutive failures'')) db1
        else db1)"

definition scheduleRetryOrPermanent :: "HookEnv \<Rightarrow> Delivery \<Rightarrow> Webhook \<Rightarrow> int \<Rightarrow> string \<Rightarrow> bool \<Rightarrow> summary \<Rightarrow> 'x HookTables_scheme \<Rightarrow> 'x HookTables_scheme" where
  "scheduleRetryOrPermanent env row hook status body trunc e db =
     (let nextAttempt = dlAttempt row + 1; statusVal = (if status > 0 then Some status else None) in
      if nextAttempt > dlMaxAttempts row then
        recordFailure env hook (ignoring (hnFaults env) ''MarkDeliveryPermanentFailure''
          (MarkDeliveryPermanentFailure (hnNow env) (dlID row) statusVal body trunc (MaxAttemptsExhausted e)) db)
      else ignoring (hnFaults env) ''MarkDeliveryRetry''
          (MarkDeliveryRetry (dlID row) statusVal body trunc (hnNow env + hookBackoff nextAttempt (Some (hnJitter env))) e) db)"

definition isRetryableStatus :: "int \<Rightarrow> bool" where
  "isRetryableStatus status = (if status = 408 \<or> status = 429 then True else status \<ge> 500 \<and> status < 600)"

fun limitReader :: "int \<Rightarrow> string \<Rightarrow> string" where
  "limitReader n [] = []"
| "limitReader n (c # cs) = (if n \<le> 0 then [] else c # limitReader (n - 1) cs)"

definition readCappedBody :: "string \<Rightarrow> int \<Rightarrow> string \<times> bool" where
  "readCappedBody r cap = (let body = limitReader (cap + 1) r in if int (length body) > cap then (limitReader cap body, True) else (body, False))"

definition JoinHostPort :: "string \<Rightarrow> string \<Rightarrow> string" where
  "JoinHostPort host port = (if CHR '':'' \<in> set host then ''['' @ host @ '']:'' @ port else host @ '':'' @ port)"

text \<open>The guarded client: it dials the host of the URL and asks whoever answers at the address.\<close>

definition clientDo :: "HookEnv \<Rightarrow> HookRequest \<Rightarrow> httpAnswer" where
  "clientDo env req = (case hnParse env (rqURL req) of None \<Rightarrow> NoAnswer ''malformed URL'' | Some u \<Rightarrow>
     (case clientDial (hnLookup env) (hnSSRF env) (JoinHostPort (Hostname u) (portText u)) of
        Inl _ \<Rightarrow> NoAnswer ''dial'' | Inr addr \<Rightarrow> hnServe env addr req))"

text \<open>The request and what its answer means for the delivery. The URL has been validated, so the request can be built; the
  headers of the answer, which are only stored, are left out, and a body that breaks off is read as a shorter one.\<close>

definition sendDelivery :: "HookEnv \<Rightarrow> go_int64 \<Rightarrow> Delivery \<Rightarrow> Webhook \<Rightarrow> string \<Rightarrow> 'x HookTables_scheme \<Rightarrow> 'x HookTables_scheme" where
  "sendDelivery env i row hook secret db =
     (let req = applyHeaders env \<lparr>rqURL = whURL hook, rqHeaders = Map.empty, rqBody = dlBody row\<rparr> (dlHeaders row) (dlUUID row) secret in
      case clientDo env req of
        NoAnswer e \<Rightarrow> scheduleRetryOrPermanent env row hook 0 '''' False (TransportFailed e) db
      | Answer status resp \<Rightarrow>
          (case readCappedBody resp ResponseBodyCap of (body, trunc) \<Rightarrow>
           if status \<ge> 200 \<and> status < 400 then
             ignoring (hnFaults env) ''RecordWebhookSuccess'' (RecordWebhookSuccess (hnNow env) (whID hook))
               (ignoring (hnFaults env) ''MarkDeliverySucceeded'' (MarkDeliverySucceeded (hnNow env) i status body trunc) db)
           else if isRetryableStatus status then scheduleRetryOrPermanent env row hook status body trunc (HttpRetryable status) db
           else recordFailure env hook (ignoring (hnFaults env) ''MarkDeliveryPermanentFailure''
             (MarkDeliveryPermanentFailure (hnNow env) i (Some status) body trunc (HttpRejected status)) db)))"

text \<open>\<open>Deliver\<close>: the error it returns, if any.\<close>

definition Deliver :: "HookEnv \<Rightarrow> go_int64 \<Rightarrow> 'x HookTables_scheme \<Rightarrow> string option \<times> 'x HookTables_scheme" where
  "Deliver env i db =
     (if hnOpen env = None then (Some ''webhook deliver: nil SecretBox'', db)
      else case (if hnFaults env ''GetDeliveryByID'' \<noteq> None then None else GetDeliveryByID i db) of None \<Rightarrow> (Some ''load delivery'', db) | Some row \<Rightarrow>
      if dlStatus row = ''succeeded'' \<or> dlStatus row = ''failed_permanent'' then (None, db)
      else case (if hnFaults env ''GetWebhookByID'' \<noteq> None then None else GetWebhookByID (dlWebhook row) db) of None \<Rightarrow> (Some ''load webhook'', db) | Some hook \<Rightarrow>
      let fail = (\<lambda>e. ignoring (hnFaults env) ''MarkDeliveryPermanentFailure'' (MarkDeliveryPermanentFailure (hnNow env) i None '''' False e)) in
      if \<not> whActive hook \<or> whDisabledAt hook \<noteq> None then (None, fail WebhookDisabled db)
      else case OpenSecret env (whCipher hook) (whNonce hook) of
        None \<Rightarrow> (None, ignoring (hnFaults env) ''AutoDisableWebhook'' (AutoDisableWebhook (hnNow env) (whID hook) ''secret decryption failure'') (fail DecryptFailed db))
      | Some secret \<Rightarrow>
      case Validate (hnParse env) (hnSSRF env) (whURL hook) of
        Some e \<Rightarrow> (None, recordFailure env hook (fail (SsrfRefused e) db))
      | None \<Rightarrow>
      if int (length (dlBody row)) > MaxBodySize then (None, fail PayloadTooLarge db)
      else (None, sendDelivery env i row hook secret db))"

section \<open>Fan-out\<close>

definition subscribesToKind :: "string list \<Rightarrow> string \<Rightarrow> bool" where
  "subscribesToKind events kind = (if events = [] then True else list_ex (\<lambda>e. e = kind \<or> e = ''*'') events)"

definition contentTypeHeader :: "string \<Rightarrow> string" where
  "contentTypeHeader ct = (if ct = ''form'' then ''application/x-www-form-urlencoded'' else ''application/json'')"

definition idempotencyKey :: "HookEnv \<Rightarrow> go_int64 \<Rightarrow> go_int64 \<Rightarrow> string \<Rightarrow> string" where
  "idempotencyKey env hook event body = hnSHA256 env (body @ Itoa hook @ Itoa event)"

definition buildPayload :: "HookEnv \<Rightarrow> HookEvent \<Rightarrow> Webhook \<Rightarrow> (string \<times> string) option" where
  "buildPayload env ev w =
     (let envelope = [(''event_id'', JInt (heID ev)), (''event_kind'', JText (heKind ev)), (''created_at'', JText (hnTime env (heCreatedAt ev))),
            (''webhook_id'', JInt (whID w)), (''payload'', JRaw (hePayload ev))]
            @ (case heRepo ev of Some r \<Rightarrow> [(''repo_id'', JInt r)] | None \<Rightarrow> [])
            @ (case heActor ev of Some a \<Rightarrow> [(''actor_user_id'', JInt a)] | None \<Rightarrow> []);
          hdrs = [(''User-Agent'', JText ''shithub-Hookshot''), (''Content-Type'', JText (contentTypeHeader (whContentType w))), (''X-Shithub-Event'', JText (heKind ev)),
            (''X-Shithub-Hook-Installation-Target-Type'', JText (whOwnerKind w)), (''X-Shithub-Hook-Installation-Target-Id'', JText (Itoa (whOwnerID w)))] in
      case hnMarshal env (JObject envelope) of None \<Rightarrow> None | Some body \<Rightarrow>
      case hnMarshal env (JObject hdrs) of None \<Rightarrow> None | Some headers \<Rightarrow> Some (body, headers))"

definition ListActiveWebhooksForOwner :: "string \<Rightarrow> go_int64 \<Rightarrow> 'x HookTables_scheme \<Rightarrow> Webhook list" where
  "ListActiveWebhooksForOwner kind owner db = filter (\<lambda>w. whOwnerKind w = kind \<and> whOwnerID w = owner \<and> whActive w \<and> whDisabledAt w = None) (Webhooks db)"

text \<open>A new row of \<^verbatim>\<open>webhook_deliveries\<close>, pending and on its first attempt.\<close>

definition newDelivery :: "HookEnv \<Rightarrow> go_int64 \<Rightarrow> string \<Rightarrow> go_int64 option \<Rightarrow> string \<Rightarrow> string \<Rightarrow> int \<Rightarrow> string \<Rightarrow> go_int64 option \<Rightarrow> go_int64 \<Rightarrow> Delivery" where
  "newDelivery env hook kind event headers body maxAttempts idem redeliver i =
     \<lparr>dlID = i, dlWebhook = hook, dlEventKind = kind, dlEventID = event, dlUUID = hnUUID env i, dlHeaders = headers, dlBody = body, dlAttempt = 1,
      dlMaxAttempts = maxAttempts, dlNextRetry = Some (hnNow env), dlStatus = ''pending'', dlIdempotencyKey = idem, dlRedeliverOf = redeliver,
      dlRespStatus = None, dlRespBody = '''', dlTruncated = False, dlCompletedAt = None, dlError = None\<rparr>"

definition CreateDelivery :: "HookEnv \<Rightarrow> (go_int64 \<Rightarrow> Delivery) \<Rightarrow> 'x HookTables_scheme \<Rightarrow> (string + Delivery) \<times> 'x HookTables_scheme" where
  "CreateDelivery env row db = (case hnFaults env ''CreateDelivery'' of Some e \<Rightarrow> (Inl e, db) | None \<Rightarrow>
     let d = row (NextDeliveryID db) in (Inr d, db\<lparr>Deliveries := Deliveries db @ [d], NextDeliveryID := NextDeliveryID db + 1\<rparr>))"

definition KindWebhookFanout :: string where "KindWebhookFanout = ''webhook:fanout''"
definition KindWebhookDeliver :: string where "KindWebhookDeliver = ''webhook:deliver''"
definition KindWebhookPurgeOld :: string where "KindWebhookPurgeOld = ''webhook:purge_old''"

definition MarshalDeliverPayload :: "HookEnv \<Rightarrow> go_int64 \<Rightarrow> string option" where
  "MarshalDeliverPayload env i = hnMarshal env (JObject [(''delivery_id'', JInt i)])"

definition workerEnqueueDeliver :: "HookEnv \<Rightarrow> go_int64 \<Rightarrow> 'x HookTables_scheme \<Rightarrow> (string + go_int64) \<times> 'x HookTables_scheme" where
  "workerEnqueueDeliver env i db = Enqueue (hnFaults env) (hnNow env) KindWebhookDeliver (MarshalDeliverPayload env i) \<lparr>eoRunAt = None, eoMaxAttempts = 0\<rparr> db"

text \<open>The subscribers of one event, one after the other; the error that stops the loop. A job that cannot be enqueued is only logged.\<close>

fun dispatchTo :: "HookEnv \<Rightarrow> HookEvent \<Rightarrow> Webhook list \<Rightarrow> 'x HookTables_scheme \<Rightarrow> string option \<times> 'x HookTables_scheme" where
  "dispatchTo env ev [] db = (None, db)"
| "dispatchTo env ev (w # ws) db =
     (if \<not> subscribesToKind (whEvents w) (heKind ev) then dispatchTo env ev ws db
      else case buildPayload env ev w of None \<Rightarrow> dispatchTo env ev ws db | Some (body, headers) \<Rightarrow>
      case CreateDelivery env (newDelivery env (whID w) (heKind ev) (Some (heID ev)) headers body 8 (idempotencyKey env (whID w) (heID ev) body) None) db of
        (Inl e, db1) \<Rightarrow> (Some e, db1)
      | (Inr row, db1) \<Rightarrow> dispatchTo env ev ws (snd (workerEnqueueDeliver env (dlID row) db1)))"

definition dispatchEvent :: "HookEnv \<Rightarrow> HookEvent \<Rightarrow> 'x HookTables_scheme \<Rightarrow> string option \<times> 'x HookTables_scheme" where
  "dispatchEvent env ev db =
     (case heRepo ev of None \<Rightarrow> (None, db) | Some repo \<Rightarrow>
      case hnFaults env ''ListActiveWebhooksForOwner repo'' of Some e \<Rightarrow> (Some (''list repo webhooks: '' @ e), db) | None \<Rightarrow>
      let repoSubs = ListActiveWebhooksForOwner ''repo'' repo db in
      case (case hnRepoOrg env repo of
              Inr (Some org) \<Rightarrow> (case hnFaults env ''ListActiveWebhooksForOwner org'' of Some e \<Rightarrow> Inl e | None \<Rightarrow> Inr (ListActiveWebhooksForOwner ''org'' org db))
            | _ \<Rightarrow> Inr []) of
        Inl e \<Rightarrow> (Some (''list org webhooks: '' @ e), db)
      | Inr orgSubs \<Rightarrow> dispatchTo env ev (repoSubs @ orgSubs) db)"

definition FanoutBatch :: nat where "FanoutBatch = 200"

definition cursorOf :: "'x HookTables_scheme \<Rightarrow> go_int64" where
  "cursorOf db = (case WebhookCursor db of Some c \<Rightarrow> c | None \<Rightarrow> 0)"

text \<open>The events after the cursor, in the order of their ids.\<close>

definition ListUnprocessedDomainEvents :: "go_int64 \<Rightarrow> nat \<Rightarrow> 'x HookTables_scheme \<Rightarrow> HookEvent list" where
  "ListUnprocessedDomainEvents latest limit db = take limit (sort_key heID (filter (\<lambda>e. heID e > latest) (HookEvents db)))"

text \<open>The loop over the batch: how many events were dispatched, and the latest of them.\<close>

fun fanoutLoop :: "HookEnv \<Rightarrow> HookEvent list \<Rightarrow> go_int64 \<Rightarrow> nat \<Rightarrow> 'x HookTables_scheme \<Rightarrow> go_int64 \<times> nat \<times> 'x HookTables_scheme" where
  "fanoutLoop env [] latest processed db = (latest, processed, db)"
| "fanoutLoop env (ev # evs) latest processed db =
     (case dispatchEvent env ev db of (Some e, db') \<Rightarrow> (latest, processed, db') | (None, db') \<Rightarrow> fanoutLoop env evs (heID ev) (processed + 1) db')"

definition FanoutOnce :: "HookEnv \<Rightarrow> 'x HookTables_scheme \<Rightarrow> (string + nat) \<times> 'x HookTables_scheme" where
  "FanoutOnce env db =
     (case hnFaults env ''GetWebhookCursor'' of Some e \<Rightarrow> (Inl (''webhook fanout: load cursor: '' @ e), db) | None \<Rightarrow>
      case hnFaults env ''ListUnprocessedDomainEvents'' of Some e \<Rightarrow> (Inl (''webhook fanout: list events: '' @ e), db) | None \<Rightarrow>
      case fanoutLoop env (ListUnprocessedDomainEvents (cursorOf db) FanoutBatch db) (cursorOf db) 0 db of
        (latest, processed, db1) \<Rightarrow>
          if processed > 0 then
            (case hnFaults env ''SetWebhookCursor'' of Some e \<Rightarrow> (Inl (''webhook fanout: persist cursor: '' @ e), db1)
             | None \<Rightarrow> (Inr processed, db1\<lparr>WebhookCursor := Some latest\<rparr>))
          else (Inr processed, db1))"

section \<open>Pings and redeliveries\<close>

definition EnqueuePing :: "HookEnv \<Rightarrow> go_int64 \<Rightarrow> 'x HookTables_scheme \<Rightarrow> string option \<times> 'x HookTables_scheme" where
  "EnqueuePing env i db =
     (case (if hnFaults env ''GetWebhookByID'' \<noteq> None then None else GetWebhookByID i db) of None \<Rightarrow> (Some ''load webhook'', db) | Some hook \<Rightarrow>
      let enc = (\<lambda>v. case hnMarshal env v of Some b \<Rightarrow> b | None \<Rightarrow> '''');
          body = enc (JObject [(''zen'', JText ''Approachable is better than simple.''), (''hook'', JObject [(''id'', JInt (whID hook)), (''url'', JText (whURL hook))])]);
          hdrs = enc (JObject [(''User-Agent'', JText ''shithub-Hookshot''), (''Content-Type'', JText (contentTypeHeader (whContentType hook))), (''X-Shithub-Event'', JText ''ping'')]) in
      case CreateDelivery env (newDelivery env i ''ping'' None hdrs body 3 (idempotencyKey env i 0 body) None) db of
        (Inl e, db1) \<Rightarrow> (Some (''create ping delivery: '' @ e), db1)
      | (Inr row, db1) \<Rightarrow> (case workerEnqueueDeliver env (dlID row) db1 of (Inl e, db2) \<Rightarrow> (Some (''enqueue ping: '' @ e), db2) | (Inr _, db2) \<Rightarrow> (None, db2)))"

definition Redeliver :: "HookEnv \<Rightarrow> go_int64 \<Rightarrow> 'x HookTables_scheme \<Rightarrow> (string + go_int64) \<times> 'x HookTables_scheme" where
  "Redeliver env i db =
     (case (if hnFaults env ''GetDeliveryByID'' \<noteq> None then None else GetDeliveryByID i db) of None \<Rightarrow> (Inl ''load original'', db) | Some orig \<Rightarrow>
      case CreateDelivery env (newDelivery env (dlWebhook orig) (dlEventKind orig) (dlEventID orig) (dlHeaders orig) (dlBody orig) (dlMaxAttempts orig) (dlIdempotencyKey orig) (Some (dlID orig))) db of
        (Inl e, db1) \<Rightarrow> (Inl (''create redelivery: '' @ e), db1)
      | (Inr row, db1) \<Rightarrow> (case workerEnqueueDeliver env (dlID row) db1 of (Inl e, db2) \<Rightarrow> (Inl (''enqueue redelivery: '' @ e), db2) | (Inr _, db2) \<Rightarrow> (Inr (dlID row), db2)))"

section \<open>The job handlers\<close>

definition WebhookFanout :: "HookEnv \<Rightarrow> 'x HookTables_scheme handler" where
  "WebhookFanout env payload db =
     (case FanoutOnce env db of (Inl e, db1) \<Rightarrow> (RunFailed e, db1)
      | (Inr processed, db1) \<Rightarrow> (RunOK, if processed \<ge> FanoutBatch
          then snd (Enqueue (hnFaults env) (hnNow env) KindWebhookFanout (hnMarshal env (JObject [])) \<lparr>eoRunAt = None, eoMaxAttempts = 0\<rparr> db1) else db1))"

definition WebhookDeliver :: "HookEnv \<Rightarrow> 'x HookTables_scheme handler" where
  "WebhookDeliver env payload db =
     (case hnDeliveryOf env payload of None \<Rightarrow> (RunPoison ''invalid payload'', db) | Some i \<Rightarrow>
      if i \<le> 0 then (RunPoison ''delivery_id must be positive'', db)
      else case Deliver env i db of (Some e, db') \<Rightarrow> (RunFailed e, db') | (None, db') \<Rightarrow> (RunOK, db'))"

definition WebhookPurgeOld :: "HookEnv \<Rightarrow> int \<Rightarrow> 'x HookTables_scheme handler" where
  "WebhookPurgeOld env retention payload db =
     (let keep = (if retention \<le> 0 then 30 * 24 * 3600 * second else retention) div 1000 * 1000 in
      case hnFaults env ''PurgeOldDeliveries'' of Some e \<Rightarrow> (RunFailed e, db) | None \<Rightarrow>
      (RunOK, db\<lparr>Deliveries := filter (\<lambda>d. \<not> ((dlStatus d = ''succeeded'' \<or> dlStatus d = ''failed_permanent'')
         \<and> (case dlCompletedAt d of Some t \<Rightarrow> t < hnNow env - keep | None \<Rightarrow> False))) (Deliveries db)\<rparr>))"

text \<open>The pool with these handlers, as the worker process registers them.\<close>

definition webhookPool :: "HookEnv \<Rightarrow> int \<Rightarrow> string \<Rightarrow> (nat \<Rightarrow> string list) \<Rightarrow> 'x HookTables_scheme Pool" where
  "webhookPool env retention inst order =
     Register KindWebhookPurgeOld (WebhookPurgeOld env retention) (Register KindWebhookDeliver (WebhookDeliver env)
       (Register KindWebhookFanout (WebhookFanout env) \<lparr>InstanceID = inst, kindOrder = order, handlers = Map.empty\<rparr>))"

end
