(* ===== verification/WebhookRuns.thy ===== *)
theory WebhookRuns
  imports Webhooks
begin

text \<open>
  Properties of webhooks: the queue with their handlers drains, who sees a delivery, to whom events are fanned out,
  and that a failed delivery is left alone.
\<close>

section \<open>What the operations touch\<close>

lemma update_frames [simp]:
  "Jobs (updateHook i g db) = Jobs db" "NextJobID (updateHook i g db) = NextJobID db" "HookEvents (updateHook i g db) = HookEvents db"
  "WebhookCursor (updateHook i g db) = WebhookCursor db" "Deliveries (updateHook i g db) = Deliveries db" "NextDeliveryID (updateHook i g db) = NextDeliveryID db"
  "Jobs (updateDelivery i h db) = Jobs db" "NextJobID (updateDelivery i h db) = NextJobID db" "HookEvents (updateDelivery i h db) = HookEvents db"
  "WebhookCursor (updateDelivery i h db) = WebhookCursor db" "Webhooks (updateDelivery i h db) = Webhooks db" "NextDeliveryID (updateDelivery i h db) = NextDeliveryID db"
  by (simp_all add: updateHook_def updateDelivery_def)

lemmas hook_statements = MarkDeliverySucceeded_def MarkDeliveryRetry_def MarkDeliveryPermanentFailure_def AutoDisableWebhook_def RecordWebhookSuccess_def

text \<open>Jobs, events and cursor.\<close>

definition queueView :: "'x HookTables_scheme \<Rightarrow> Job list \<times> go_int64 \<times> HookEvent list \<times> go_int64 option" where
  "queueView db = (Jobs db, NextJobID db, HookEvents db, WebhookCursor db)"

lemma view_updates [simp]: "queueView (updateHook i g db) = queueView db" "queueView (updateDelivery i h db) = queueView db"
  by (simp_all add: queueView_def)

lemma view_statements [simp]:
  "queueView (MarkDeliverySucceeded now i status body trunc db) = queueView db"
  "queueView (MarkDeliveryRetry i st body trunc next e db) = queueView db"
  "queueView (MarkDeliveryPermanentFailure now i st body trunc e db) = queueView db"
  "queueView (AutoDisableWebhook now i reason db) = queueView db"
  "queueView (RecordWebhookSuccess now i db) = queueView db"
  by (simp_all add: hook_statements)

lemma view_ignoring [simp]: "(\<And>d. queueView (g d) = queueView d) \<Longrightarrow> queueView (ignoring f n g db) = queueView db"
  by (simp add: ignoring_def)

lemma recordFailure_view [simp]: "queueView (recordFailure env hook db) = queueView db"
  by (simp add: recordFailure_def Let_def split: option.split)

lemma schedule_view [simp]: "queueView (scheduleRetryOrPermanent env row hook status body trunc e db) = queueView db"
  by (simp add: scheduleRetryOrPermanent_def Let_def)

lemma sendDelivery_view [simp]: "queueView (sendDelivery env i row hook secret db) = queueView db"
  by (simp add: sendDelivery_def Let_def split: httpAnswer.split prod.split)

lemma Deliver_view: "queueView (snd (Deliver env i db)) = queueView db"
  by (simp add: Deliver_def Let_def split: option.split)

section \<open>The queue drains\<close>

text \<open>Only jobs of one kind are added.\<close>

definition addsJobs :: "string \<Rightarrow> 'x HookTables_scheme \<Rightarrow> 'x HookTables_scheme \<Rightarrow> bool" where
  "addsJobs kind db db' \<longleftrightarrow> (idsOK db \<longrightarrow> idsOK db') \<and> HookEvents db' = HookEvents db \<and> Webhooks db' = Webhooks db \<and> WebhookCursor db' = WebhookCursor db
    \<and> (idsOK db \<longrightarrow> (\<exists>new. Jobs db' = Jobs db @ new \<and> (\<forall>j \<in> set new. jobKind j = kind \<and> live j)))"

lemma addsJobs_refl: "addsJobs kind db db"
  by (simp add: addsJobs_def)

lemma addsJobs_trans: "addsJobs kind db db1 \<Longrightarrow> addsJobs kind db1 db2 \<Longrightarrow> addsJobs kind db db2"
  by (fastforce simp: addsJobs_def)

lemma addsJobs_Enqueue: "addsJobs kind db (snd (Enqueue f now kind body opts db))"
proof -
  obtain r db' where e: "Enqueue f now kind body opts db = (r, db')" by fastforce
  have "HookEvents db' = HookEvents db" "Webhooks db' = Webhooks db" "WebhookCursor db' = WebhookCursor db"
    using e by (auto simp: Enqueue_def EnqueueJob_def Let_def split: option.split_asm if_split_asm)
  then show ?thesis using Enqueue_ids [OF e] e by (auto simp: addsJobs_def)
qed

lemma addsJobs_CreateDelivery: "CreateDelivery env row db = (r, db') \<Longrightarrow> addsJobs kind db db'"
  by (auto simp: CreateDelivery_def Let_def addsJobs_def idsOK_def split: option.split_asm)

lemma addsJobs_dispatchTo: "addsJobs KindWebhookDeliver db (snd (dispatchTo env ev ws db))"
proof (induction ws arbitrary: db)
  case (Cons w ws)
  show ?case
  proof (cases "\<exists>body headers row db1. subscribesToKind (whEvents w) (heKind ev) \<and> buildPayload env ev w = Some (body, headers)
      \<and> CreateDelivery env (newDelivery env (whID w) (heKind ev) (Some (heID ev)) headers body 8 (idempotencyKey env (whID w) (heID ev) body) None) db = (Inr row, db1)")
    case True
    then obtain body headers row db1 where c: "subscribesToKind (whEvents w) (heKind ev)" "buildPayload env ev w = Some (body, headers)"
        "CreateDelivery env (newDelivery env (whID w) (heKind ev) (Some (heID ev)) headers body 8 (idempotencyKey env (whID w) (heID ev) body) None) db = (Inr row, db1)" by blast
    have "addsJobs KindWebhookDeliver db1 (snd (workerEnqueueDeliver env (dlID row) db1))" unfolding workerEnqueueDeliver_def by (rule addsJobs_Enqueue)
    then have "addsJobs KindWebhookDeliver db (snd (workerEnqueueDeliver env (dlID row) db1))" by (rule addsJobs_trans [OF addsJobs_CreateDelivery [OF c(3)]])
    moreover have "snd (dispatchTo env ev (w # ws) db) = snd (dispatchTo env ev ws (snd (workerEnqueueDeliver env (dlID row) db1)))" using c by simp
    ultimately show ?thesis using addsJobs_trans [OF _ Cons.IH] by metis
  next
    case False
    then show ?thesis using Cons.IH by (auto split: option.split prod.split sum.split intro: addsJobs_CreateDelivery)
  qed
qed (simp add: addsJobs_refl)

lemma addsJobs_dispatchEvent: "addsJobs KindWebhookDeliver db (snd (dispatchEvent env ev db))"
  by (simp add: dispatchEvent_def Let_def addsJobs_refl addsJobs_dispatchTo split: option.split sum.split)

lemma fanoutLoop_effect:
  assumes "fanoutLoop env evs latest n db = (l, m, db')"
  shows "addsJobs KindWebhookDeliver db db' \<and> n \<le> m \<and> (if m = n then l = latest else l \<in> heID ` set evs)"
  using assms
proof (induction evs arbitrary: latest n db)
  case (Cons ev evs)
  obtain r db1 where d: "dispatchEvent env ev db = (r, db1)" by fastforce
  have a: "addsJobs KindWebhookDeliver db db1" using addsJobs_dispatchEvent [of db env ev] d by simp
  show ?case
  proof (cases r)
    case None
    then have "fanoutLoop env evs (heID ev) (n + 1) db1 = (l, m, db')" using Cons.prems d by simp
    from Cons.IH [OF this] show ?thesis using addsJobs_trans [OF a] by (auto split: if_split_asm)
  qed (use Cons.prems d a in auto)
qed (auto simp: addsJobs_refl)

text \<open>The events still to be fanned out.\<close>

definition pendingEvents :: "'x HookTables_scheme \<Rightarrow> nat" where
  "pendingEvents db = length (filter (\<lambda>e. heID e > cursorOf db) (HookEvents db))"

lemma pendingEvents_less:
  assumes "e \<in> set evs" "heID e = l" "c < l"
  shows "length (filter (\<lambda>e. heID e > l) evs) < length (filter (\<lambda>e. heID e > c) evs)"
proof -
  have "filter (\<lambda>e. heID e > l) evs = filter (\<lambda>e. heID e > l) (filter (\<lambda>e. heID e > c) evs)" using assms(3) by (auto intro: filter_cong)
  also have "length \<dots> < length (filter (\<lambda>e. heID e > c) evs)" by (rule length_filter_less [of e]) (use assms in auto)
  finally show ?thesis .
qed

lemma FanoutOnce_effect:
  assumes "FanoutOnce env db = (r, db')"
  shows "(addsJobs KindWebhookDeliver db db' \<and> (\<exists>e. r = Inl e \<or> r = Inr 0))
    \<or> (\<exists>n db1 l. r = Inr n \<and> 0 < n \<and> addsJobs KindWebhookDeliver db db1 \<and> db' = db1\<lparr>WebhookCursor := Some l\<rparr> \<and> pendingEvents db' < pendingEvents db)"
proof -
  obtain l n db1 where loop: "fanoutLoop env (ListUnprocessedDomainEvents (cursorOf db) FanoutBatch db) (cursorOf db) 0 db = (l, n, db1)" using prod_cases3 by blast
  note eff = fanoutLoop_effect [OF loop]
  have less: "pendingEvents (db1\<lparr>WebhookCursor := Some l\<rparr>) < pendingEvents db" if "0 < n"
  proof -
    have "l \<in> heID ` set (ListUnprocessedDomainEvents (cursorOf db) FanoutBatch db)" using eff that by (auto split: if_split_asm)
    then obtain e where e: "e \<in> set (ListUnprocessedDomainEvents (cursorOf db) FanoutBatch db)" "heID e = l" by auto
    then have "e \<in> set (filter (\<lambda>e. heID e > cursorOf db) (HookEvents db))" unfolding ListUnprocessedDomainEvents_def using in_set_takeD [of e] by (metis set_sort)
    then have "e \<in> set (HookEvents db)" "heID e = l" "cursorOf db < l" using e(2) by auto
    moreover have "HookEvents db1 = HookEvents db" using eff by (simp add: addsJobs_def)
    ultimately show ?thesis using pendingEvents_less by (simp add: pendingEvents_def cursorOf_def)
  qed
  show ?thesis
  proof (cases "n = 0")
    case True
    then show ?thesis using assms loop eff by (auto simp: FanoutOnce_def addsJobs_refl split: option.split_asm)
  next
    case False
    then show ?thesis using assms loop eff less by (auto simp: FanoutOnce_def addsJobs_refl split: option.split_asm)
  qed
qed


section \<open>The handlers meet the contract of the queue\<close>

definition hookRank :: "string \<Rightarrow> nat" where
  "hookRank kind = (if kind = KindWebhookFanout then 1 else 0)"

lemma hook_kinds [simp]: "KindWebhookFanout \<noteq> KindWebhookDeliver" "KindWebhookFanout \<noteq> KindWebhookPurgeOld" "KindWebhookDeliver \<noteq> KindWebhookPurgeOld"
  "KindWebhookDeliver \<noteq> KindWebhookFanout" "KindWebhookPurgeOld \<noteq> KindWebhookFanout" "KindWebhookPurgeOld \<noteq> KindWebhookDeliver"
  by (simp_all add: KindWebhookFanout_def KindWebhookDeliver_def KindWebhookPurgeOld_def)

text \<open>What the contract asks of a handler of the given kind, for one call.\<close>

definition meetsContract :: "string \<Rightarrow> 'x HookTables_scheme \<Rightarrow> 'x HookTables_scheme \<Rightarrow> bool" where
  "meetsContract kind db db' \<longleftrightarrow> idsOK db' \<and> (\<exists>new. filter live (Jobs db') = filter live (Jobs db) @ new
     \<and> (pendingEvents db' < pendingEvents db \<or> (pendingEvents db' = pendingEvents db \<and> (\<forall>j \<in> set new. hookRank (jobKind j) < hookRank kind))))"

lemma same_view_meets: "idsOK db \<Longrightarrow> queueView db' = queueView db \<Longrightarrow> meetsContract kind db db'"
  by (simp add: meetsContract_def queueView_def idsOK_def pendingEvents_def cursorOf_def)

lemma WebhookDeliver_meets: "idsOK db \<Longrightarrow> meetsContract kind db (snd (WebhookDeliver env payload db))"
proof (rule same_view_meets)
  show "queueView (snd (WebhookDeliver env payload db)) = queueView db"
    using Deliver_view [of env _ db] by (auto simp: WebhookDeliver_def split: option.split prod.split) (metis snd_conv)+
qed

lemma WebhookPurgeOld_meets: "idsOK db \<Longrightarrow> meetsContract kind db (snd (WebhookPurgeOld env retention payload db))"
  by (rule same_view_meets) (simp_all add: WebhookPurgeOld_def Let_def queueView_def split: option.split)

text \<open>New jobs of delivery alone are below a fan-out; any new jobs are fine once the cursor has moved.\<close>

lemma added_filter: "addsJobs kind db db' \<Longrightarrow> idsOK db \<Longrightarrow> idsOK db' \<and> (\<exists>new. filter live (Jobs db') = filter live (Jobs db) @ new \<and> (\<forall>j \<in> set new. jobKind j = kind))"
  by (fastforce simp: addsJobs_def)

lemma added_meets:
  assumes "addsJobs KindWebhookDeliver db db'" "idsOK db"
  shows "meetsContract KindWebhookFanout db db'"
proof -
  have "pendingEvents db' = pendingEvents db" using assms(1) by (simp add: addsJobs_def pendingEvents_def cursorOf_def)
  then show ?thesis using added_filter [OF assms] by (auto simp: meetsContract_def hookRank_def)
qed

lemma moved_meets:
  assumes "addsJobs KindWebhookDeliver db db1" "addsJobs KindWebhookFanout (db1\<lparr>WebhookCursor := c\<rparr>) db2" "idsOK db"
    "pendingEvents (db1\<lparr>WebhookCursor := c\<rparr>) < pendingEvents db"
  shows "meetsContract KindWebhookFanout db db2"
proof -
  have one: "idsOK db1" "\<exists>new. filter live (Jobs db1) = filter live (Jobs db) @ new" using added_filter [OF assms(1,3)] by auto
  then have "idsOK (db1\<lparr>WebhookCursor := c\<rparr>)" by (simp add: idsOK_def)
  from added_filter [OF assms(2) this] have "idsOK db2" "\<exists>new. filter live (Jobs db2) = filter live (Jobs db1) @ new" by auto
  moreover have "pendingEvents db2 = pendingEvents (db1\<lparr>WebhookCursor := c\<rparr>)" using assms(2) by (simp add: addsJobs_def pendingEvents_def cursorOf_def)
  ultimately show ?thesis using one assms(4) by (auto simp: meetsContract_def)
qed

lemma WebhookFanout_meets:
  assumes "idsOK db"
  shows "meetsContract KindWebhookFanout db (snd (WebhookFanout env payload db))"
proof -
  obtain r db1 where f: "FanoutOnce env db = (r, db1)" by fastforce
  consider (kept) "addsJobs KindWebhookDeliver db db1" "\<exists>e. r = Inl e \<or> r = Inr 0"
    | (moved) n db0 l where "r = Inr n" "addsJobs KindWebhookDeliver db db0" "db1 = db0\<lparr>WebhookCursor := Some l\<rparr>" "pendingEvents db1 < pendingEvents db"
    using FanoutOnce_effect [OF f] by blast
  then show ?thesis
  proof cases
    case kept
    then show ?thesis using added_meets [OF kept(1) assms] f by (auto simp: WebhookFanout_def FanoutBatch_def)
  next
    case moved
    have "addsJobs KindWebhookFanout db1 (snd (WebhookFanout env payload db))"
      using f moved(1) by (simp add: WebhookFanout_def addsJobs_Enqueue addsJobs_refl)
    then show ?thesis using moved_meets [OF moved(2) _ assms] moved(3,4) by simp
  qed
qed

interpretation hook_jobs: job_handlers "webhookPool env retention inst order" hookRank pendingEvents for env retention inst order
proof unfold_locales
  fix kind h payload and db :: "'a HookTables_scheme" and r db'
  assume h: "handlers (webhookPool env retention inst order) kind = Some h" "h payload db = (r, db')" and ids: "idsOK db"
  consider "kind = KindWebhookFanout" "h = WebhookFanout env" | "kind = KindWebhookDeliver" "h = WebhookDeliver env" | "kind = KindWebhookPurgeOld" "h = WebhookPurgeOld env retention"
    using h(1) by (auto simp: webhookPool_def Register_def split: if_split_asm)
  then have "meetsContract kind db db'"
    using h(2) ids WebhookFanout_meets [OF ids, of env payload] WebhookDeliver_meets [OF ids, of kind env payload] WebhookPurgeOld_meets [OF ids, of kind env retention payload]
    by cases auto
  then show "idsOK db' \<and> (\<exists>new. filter live (Jobs db') = filter live (Jobs db) @ new
      \<and> (pendingEvents db' < pendingEvents db \<or> (pendingEvents db' = pendingEvents db \<and> (\<forall>j \<in> set new. hookRank (jobKind j) < hookRank kind))))"
    by (simp add: meetsContract_def)
qed (simp add: pendingEvents_def cursorOf_def)


text \<open>
  C6. A worker's pass over the webhook queue ends. From every consistent table of jobs, whatever the receivers answer,
  whatever fails in the webhook code, and however many events are waiting to be fanned out, the loop that runs jobs until
  none is due returns, provided the pool can mark its jobs; when it could also look for jobs, no job of a kind it handles
  was left due at its last pass. This holds although a fan-out enqueues deliveries and its own successor.
\<close>

theorem webhook_queue_drains:
  assumes "idsOK db"
    and "\<forall>k. \<forall>name \<in> {''MarkJobCompleted'', ''MarkJobFailed'', ''RescheduleJob''}. reFaults (env k) name = None"
  shows "\<exists>db'. drain (webhookPool henv retention inst order) env n db = Some db'
    \<and> ((\<forall>k. \<not> reCancelled (env k) \<and> reFaults (env k) ''ClaimJob'' = None) \<longrightarrow>
        (\<exists>m. \<forall>i < length (order m). \<forall>j \<in> set (Jobs db'). \<not> claimable (reStart (env (m + i))) (order m ! i) j))"
proof -
  obtain db' where d: "drain (webhookPool henv retention inst order) env n db = Some db'"
    using hook_jobs.drain_returns [OF assms(1), of env henv retention inst order n] assms(2) by auto
  have "kindOrder (webhookPool henv retention inst order) = order" by (simp add: webhookPool_def Register_def)
  then show ?thesis using d drain_leaves_nothing_due [OF d] by (metis (no_types, lifting))
qed


section \<open>Who sees a delivery\<close>

text \<open>Only the client asks the receivers.\<close>

lemma without_serve [simp]:
  "SignSHA256 (env\<lparr>hnServe := s\<rparr>) secret body = SignSHA256 env secret body"
  "OpenSecret (env\<lparr>hnServe := s\<rparr>) c n = OpenSecret env c n"
  "applyHeaders (env\<lparr>hnServe := s\<rparr>) req hs uuid secret = applyHeaders env req hs uuid secret"
  "recordFailure (env\<lparr>hnServe := s\<rparr>) hook db = recordFailure env hook db"
  by (simp_all add: SignSHA256_def OpenSecret_def applyHeaders_def recordFailure_def Let_def split: option.split)

lemma schedule_without_serve [simp]:
  "scheduleRetryOrPermanent (env\<lparr>hnServe := s\<rparr>) row hook st body trunc e db = scheduleRetryOrPermanent env row hook st body trunc e db"
  by (simp add: scheduleRetryOrPermanent_def Let_def)

lemma signature_header: "canonicalHeaderKey ''X-Shithub-Signature-256'' = ''X-Shithub-Signature-256''"
  by code_simp

lemma applyHeaders_parts [simp]:
  "rqURL (applyHeaders env req hs uuid secret) = rqURL req" "rqBody (applyHeaders env req hs uuid secret) = rqBody req"
  "rqHeaders (applyHeaders env req hs uuid secret) ''X-Shithub-Signature-256'' = Some (SignSHA256 env secret (rqBody req))"
  by (simp_all add: applyHeaders_def Let_def headerSet_def signature_header)

text \<open>
  The addresses behind a URL: the host of the URL (a literal address may be in brackets) resolves to the address, which is
  not a forbidden one unless the configuration exempts the host or all of them, and the port is the URL's and allowed.
\<close>

definition admittedAddress :: "HookEnv \<Rightarrow> string \<Rightarrow> nat list \<times> string \<Rightarrow> bool" where
  "admittedAddress env raw addr \<longleftrightarrow> (\<exists>u host ips. hnParse env raw = Some u \<and> (Hostname u = host \<or> Hostname u = ''['' @ host @ '']'')
     \<and> hnLookup env host = Inr ips \<and> fst addr \<in> set ips \<and> snd addr = portText u \<and> fst (Atoi (snd addr)) \<in> set (AllowedPorts (applyDefaults (hnSSRF env)))
     \<and> (stringSetContainsFold (AllowedHosts (hnSSRF env)) host \<or> AllowPrivateNetworks (hnSSRF env) \<or> \<not> IsForbiddenIP (fst addr)))"

lemma lastColon_append: "CHR '':'' \<notin> set p \<Longrightarrow> lastColon (b @ CHR '':'' # p) = Some (b, p)"
proof -
  assume "CHR '':'' \<notin> set p"
  then have "takeWhile (\<lambda>c. c \<noteq> CHR '':'') (rev p @ CHR '':'' # rev b) = rev p" "dropWhile (\<lambda>c. c \<noteq> CHR '':'') (rev p @ CHR '':'' # rev b) = CHR '':'' # rev b"
    by (auto simp: takeWhile_append dropWhile_append)
  then show ?thesis by (simp add: lastColon_def)
qed

text \<open>What is joined for the dialler is split again into the same host and port.\<close>

lemma split_joined:
  assumes "SplitHostPort (JoinHostPort h p) = Some (h', p')" "CHR '':'' \<notin> set p"
  shows "p' = p \<and> (h = h' \<or> h = ''['' @ h' @ '']'')"
proof (cases "CHR '':'' \<in> set h")
  case True
  have "lastColon ((''['' @ h @ '']'') @ CHR '':'' # p) = Some (''['' @ h @ '']'', p)" by (rule lastColon_append [OF assms(2)])
  then have "lastColon (CHR ''['' # h @ CHR '']'' # CHR '':'' # p) = Some (''['' @ h @ '']'', p)" by simp
  then show ?thesis using assms(1) True by (auto simp: JoinHostPort_def SplitHostPort_def butlast_append split: if_split_asm)
next
  case False
  have colon: "lastColon (h @ CHR '':'' # p) = Some (h, p)" by (rule lastColon_append [OF assms(2)])
  show ?thesis
  proof (cases "HasPrefix (h @ CHR '':'' # p) ''[''")
    case True
    then obtain t where t: "h = CHR ''['' # t" by (cases h) auto
    then have "t \<noteq> []" "last t = CHR '']''" "h' = butlast t" "p' = p"
      using assms(1) False colon True by (auto simp: JoinHostPort_def SplitHostPort_def split: if_split_asm)
    then show ?thesis using t append_butlast_last_id [of t] by simp
  qed (use assms(1) False colon in \<open>auto simp: JoinHostPort_def SplitHostPort_def split: if_split_asm\<close>)
qed

lemma port_no_colon: "Atoi p = (n, True) \<Longrightarrow> CHR '':'' \<notin> set p"
proof -
  assume a: "Atoi p = (n, True)"
  define ds where "ds = (if HasPrefix p ''-'' \<or> HasPrefix p ''+'' then tl p else p)"
  have "list_all is_ascii_digit ds" using a by (auto simp: Atoi_def Let_def ds_def split: if_split_asm)
  then have "CHR '':'' \<notin> set ds" by (auto simp: list_all_iff is_ascii_digit_def less_eq_char_def)
  moreover have "set p \<subseteq> {CHR ''-'', CHR ''+''} \<union> set ds" by (cases p) (auto simp: ds_def)
  ultimately show ?thesis by auto
qed

text \<open>
  The requests that a delivery may make: for an unfinished delivery of an active webhook, to its URL, with its body and
  a signature that verifies under its secret, at an address that the guard admits.
\<close>

definition rightful :: "HookEnv \<Rightarrow> go_int64 \<Rightarrow> 'x HookTables_scheme \<Rightarrow> nat list \<times> string \<Rightarrow> HookRequest \<Rightarrow> bool" where
  "rightful env i db addr req \<longleftrightarrow>
     (\<exists>row hook secret sig. GetDeliveryByID i db = Some row \<and> dlStatus row \<notin> {''succeeded'', ''failed_permanent''}
        \<and> GetWebhookByID (dlWebhook row) db = Some hook \<and> whActive hook \<and> whDisabledAt hook = None
        \<and> OpenSecret env (whCipher hook) (whNonce hook) = Some secret
        \<and> rqURL req = whURL hook \<and> rqBody req = dlBody row \<and> int (length (rqBody req)) \<le> MaxBodySize
        \<and> rqHeaders req ''X-Shithub-Signature-256'' = Some sig \<and> VerifySHA256 env secret (rqBody req) sig
        \<and> Validate (hnParse env) (hnSSRF env) (rqURL req) = None)
     \<and> admittedAddress env (rqURL req) addr"

lemma clientDo_serve:
  assumes "\<And>addr. admittedAddress env (rqURL req) addr \<Longrightarrow> s addr req = hnServe env addr req" "Validate (hnParse env) (hnSSRF env) (rqURL req) = None"
  shows "clientDo (env\<lparr>hnServe := s\<rparr>) req = clientDo env req"
proof (cases "hnParse env (rqURL req)")
  case (Some u)
  obtain n where "Atoi (portText u) = (n, True)" using assms(2) Some by (auto simp: Validate_def Let_def split: if_split_asm prod.split_asm)
  note port = port_no_colon [OF this]
  have "s addr req = hnServe env addr req" if dial: "clientDial (hnLookup env) (hnSSRF env) (JoinHostPort (Hostname u) (portText u)) = Inr addr" for addr
  proof -
    obtain ip p where addr: "addr = (ip, p)" by fastforce
    obtain host ips where h: "SplitHostPort (JoinHostPort (Hostname u) (portText u)) = Some (host, p)" "hnLookup env host = Inr ips" "ip \<in> set ips"
        "fst (Atoi p) \<in> set (AllowedPorts (applyDefaults (hnSSRF env)))"
        "stringSetContainsFold (AllowedHosts (hnSSRF env)) host \<or> AllowPrivateNetworks (hnSSRF env) \<or> (\<nexists>x. x \<in> set ips \<and> IsForbiddenIP x)"
      using dialled_address_was_checked [OF dial [unfolded addr]] by blast
    note same = split_joined [OF h(1) port]
    have "\<exists>u host ips. hnParse env (rqURL req) = Some u \<and> (Hostname u = host \<or> Hostname u = ''['' @ host @ '']'') \<and> hnLookup env host = Inr ips \<and> ip \<in> set ips
        \<and> p = portText u \<and> fst (Atoi p) \<in> set (AllowedPorts (applyDefaults (hnSSRF env)))
        \<and> (stringSetContainsFold (AllowedHosts (hnSSRF env)) host \<or> AllowPrivateNetworks (hnSSRF env) \<or> \<not> IsForbiddenIP ip)"
      by (rule exI [of _ u], rule exI [of _ host], rule exI [of _ ips]) (use h Some same in blast)
    then show ?thesis using assms(1) [of addr] by (simp add: admittedAddress_def addr)
  qed
  then show ?thesis using Some by (auto simp: clientDo_def split: sum.split)
qed (simp add: clientDo_def)

text \<open>
  C19. A delivery is shown to nobody else. Whatever receivers do with other requests, at other addresses, is irrelevant
  to \<open>Deliver\<close>: it only depends on the answers to requests for an unfinished delivery of an active webhook, sent to the
  webhook's URL with the stored body and a signature of that body under the webhook's secret, at an address that the host of
  this URL resolves to and that is not forbidden (unless the configuration exempts the host or private networks), at the
  port of the URL, which is allowed.
\<close>

theorem deliveries_are_signed_and_guarded:
  assumes "\<And>addr req. rightful env i db addr req \<Longrightarrow> s addr req = hnServe env addr req"
  shows "Deliver (env\<lparr>hnServe := s\<rparr>) i db = Deliver env i db"
proof -
  have same: "sendDelivery (env\<lparr>hnServe := s\<rparr>) i row hook secret db = sendDelivery env i row hook secret db"
    if "GetDeliveryByID i db = Some row" "dlStatus row \<noteq> ''succeeded''" "dlStatus row \<noteq> ''failed_permanent''" "GetWebhookByID (dlWebhook row) db = Some hook"
      "whActive hook" "whDisabledAt hook = None" "OpenSecret env (whCipher hook) (whNonce hook) = Some secret"
      "Validate (hnParse env) (hnSSRF env) (whURL hook) = None" "\<not> MaxBodySize < int (length (dlBody row))" for row hook secret
  proof -
    let ?req = "applyHeaders env \<lparr>rqURL = whURL hook, rqHeaders = Map.empty, rqBody = dlBody row\<rparr> (dlHeaders row) (dlUUID row) secret"
    have "clientDo (env\<lparr>hnServe := s\<rparr>) ?req = clientDo env ?req"
      by (rule clientDo_serve, rule assms) (use that in \<open>auto simp: rightful_def VerifySHA256_def Let_def\<close>)
    then show ?thesis by (simp add: sendDelivery_def Let_def split: httpAnswer.split prod.split)
  qed
  show ?thesis unfolding Deliver_def Let_def by (simp split: option.split) (use same in auto)
qed

section \<open>To whom events go\<close>

definition subscribers :: "HookEnv \<Rightarrow> 'x HookTables_scheme \<Rightarrow> HookEvent \<Rightarrow> Webhook list" where
  "subscribers env db ev = (case heRepo ev of None \<Rightarrow> [] | Some repo \<Rightarrow>
     filter (\<lambda>w. whActive w \<and> whDisabledAt w = None \<and> (whEvents w = [] \<or> heKind ev \<in> set (whEvents w) \<or> ''*'' \<in> set (whEvents w)))
       (filter (\<lambda>w. whOwnerKind w = ''repo'' \<and> whOwnerID w = repo) (Webhooks db)
        @ filter (\<lambda>w. whOwnerKind w = ''org'' \<and> hnRepoOrg env repo = Inr (Some (whOwnerID w))) (Webhooks db)))"

text \<open>One pending delivery for each pair, with the payload for it, and one job for each delivery, appended in order.\<close>

definition fannedOut :: "HookEnv \<Rightarrow> (Webhook \<times> HookEvent) list \<Rightarrow> 'x HookTables_scheme \<Rightarrow> 'x HookTables_scheme \<Rightarrow> bool" where
  "fannedOut env pairs db db' \<longleftrightarrow>
     (\<exists>rows js. db' = db\<lparr>Deliveries := Deliveries db @ rows, NextDeliveryID := NextDeliveryID db + int (length rows),
                        Jobs := Jobs db @ js, NextJobID := NextJobID db + int (length js)\<rparr>
      \<and> list_all2 (\<lambda>d (w, ev). dlWebhook d = whID w \<and> dlEventID d = Some (heID ev) \<and> dlEventKind d = heKind ev \<and> dlStatus d = ''pending'' \<and> dlAttempt d = 1
           \<and> buildPayload env ev w = Some (dlBody d, dlHeaders d)) rows pairs
      \<and> list_all2 (\<lambda>j d. jobKind j = KindWebhookDeliver \<and> MarshalDeliverPayload env (dlID d) = Some (jobPayload j) \<and> live j \<and> lockedBy j = None) js rows
      \<and> (\<forall>k < length rows. dlID (rows ! k) = NextDeliveryID db + int k))"

lemma fannedOut_refl: "fannedOut env [] db db"
  unfolding fannedOut_def by (intro exI [of _ "[]"]) simp

lemma fannedOut_trans:
  assumes "fannedOut env ps db db1" "fannedOut env qs db1 db2"
  shows "fannedOut env (ps @ qs) db db2"
proof -
  obtain rows js where one: "db1 = db\<lparr>Deliveries := Deliveries db @ rows, NextDeliveryID := NextDeliveryID db + int (length rows),
        Jobs := Jobs db @ js, NextJobID := NextJobID db + int (length js)\<rparr>"
      "list_all2 (\<lambda>d (w, ev). dlWebhook d = whID w \<and> dlEventID d = Some (heID ev) \<and> dlEventKind d = heKind ev \<and> dlStatus d = ''pending'' \<and> dlAttempt d = 1
         \<and> buildPayload env ev w = Some (dlBody d, dlHeaders d)) rows ps"
      "list_all2 (\<lambda>j d. jobKind j = KindWebhookDeliver \<and> MarshalDeliverPayload env (dlID d) = Some (jobPayload j) \<and> live j \<and> lockedBy j = None) js rows"
      "\<forall>k < length rows. dlID (rows ! k) = NextDeliveryID db + int k"
    using assms(1) unfolding fannedOut_def by blast
  obtain rows' js' where two: "db2 = db1\<lparr>Deliveries := Deliveries db1 @ rows', NextDeliveryID := NextDeliveryID db1 + int (length rows'),
        Jobs := Jobs db1 @ js', NextJobID := NextJobID db1 + int (length js')\<rparr>"
      "list_all2 (\<lambda>d (w, ev). dlWebhook d = whID w \<and> dlEventID d = Some (heID ev) \<and> dlEventKind d = heKind ev \<and> dlStatus d = ''pending'' \<and> dlAttempt d = 1
         \<and> buildPayload env ev w = Some (dlBody d, dlHeaders d)) rows' qs"
      "list_all2 (\<lambda>j d. jobKind j = KindWebhookDeliver \<and> MarshalDeliverPayload env (dlID d) = Some (jobPayload j) \<and> live j \<and> lockedBy j = None) js' rows'"
      "\<forall>k < length rows'. dlID (rows' ! k) = NextDeliveryID db1 + int k"
    using assms(2) unfolding fannedOut_def by blast
  have "\<forall>k < length (rows @ rows'). dlID ((rows @ rows') ! k) = NextDeliveryID db + int k"
    using one(4) two(4) by (auto simp: one(1) nth_append)
  then show ?thesis unfolding fannedOut_def
    by (intro exI [of _ "rows @ rows'"] exI [of _ "js @ js'"] conjI list_all2_appendI one(2,3) two(2,3)) (simp_all add: one(1) two(1))
qed

text \<open>When nothing fails and every value can be encoded.\<close>

lemma fannedOut_one:
  assumes "\<And>n. hnFaults env n = None" "\<And>v. hnMarshal env v \<noteq> None" "subscribesToKind (whEvents w) (heKind ev)"
  shows "\<exists>db1. dispatchTo env ev (w # ws) db = dispatchTo env ev ws db1 \<and> fannedOut env [(w, ev)] db db1"
proof -
  define enc where "enc v = the (hnMarshal env v)" for v
  have "hnMarshal env v = Some (enc v)" for v using assms(2) [of v] by (auto simp: enc_def)
  then have "buildPayload env ev w \<noteq> None" by (simp add: buildPayload_def Let_def)
  then obtain body headers where b: "buildPayload env ev w = Some (body, headers)" by auto
  define row where "row = newDelivery env (whID w) (heKind ev) (Some (heID ev)) headers body 8 (idempotencyKey env (whID w) (heID ev) body) None (NextDeliveryID db)"
  obtain p where p: "MarshalDeliverPayload env (NextDeliveryID db) = Some p" using assms(2) by (auto simp: MarshalDeliverPayload_def)
  define db0 where "db0 = db\<lparr>Deliveries := Deliveries db @ [row], NextDeliveryID := NextDeliveryID db + 1\<rparr>"
  define job where "job = fst (EnqueueJob (hnNow env) KindWebhookDeliver p None None db0)"
  have row: "dlID row = NextDeliveryID db" "dlWebhook row = whID w" "dlEventID row = Some (heID ev)" "dlEventKind row = heKind ev" "dlStatus row = ''pending''"
      "dlAttempt row = 1" "dlBody row = body" "dlHeaders row = headers" by (simp_all add: row_def newDelivery_def)
  have "CreateDelivery env (newDelivery env (whID w) (heKind ev) (Some (heID ev)) headers body 8 (idempotencyKey env (whID w) (heID ev) body) None) db = (Inr row, db0)"
    using assms(1) by (simp add: CreateDelivery_def row_def db0_def Let_def)
  moreover have "snd (workerEnqueueDeliver env (dlID row) db0) = db0\<lparr>Jobs := Jobs db @ [job], NextJobID := NextJobID db + 1\<rparr>"
    using assms(1) p by (simp add: workerEnqueueDeliver_def Enqueue_def row(1) EnqueueJob_def Let_def KindWebhookDeliver_def char_length_def job_def db0_def)
  moreover have job: "jobKind job = KindWebhookDeliver" "jobPayload job = p" "live job" "lockedBy job = None" by (simp_all add: job_def EnqueueJob_def Let_def live_def)
  ultimately have "dispatchTo env ev (w # ws) db = dispatchTo env ev ws (db0\<lparr>Jobs := Jobs db @ [job], NextJobID := NextJobID db + 1\<rparr>)" using assms(3) b by simp
  moreover have "fannedOut env [(w, ev)] db (db0\<lparr>Jobs := Jobs db @ [job], NextJobID := NextJobID db + 1\<rparr>)"
    unfolding fannedOut_def by (intro exI [of _ "[row]"] exI [of _ "[job]"]) (simp add: db0_def row job p b)
  ultimately show ?thesis by blast
qed

lemma dispatchTo_fansOut:
  assumes "\<And>n. hnFaults env n = None" "\<And>v. hnMarshal env v \<noteq> None"
  shows "\<exists>db'. dispatchTo env ev ws db = (None, db') \<and> fannedOut env (map (\<lambda>w. (w, ev)) (filter (\<lambda>w. subscribesToKind (whEvents w) (heKind ev)) ws)) db db'"
proof (induction ws arbitrary: db)
  case (Cons w ws)
  show ?case
  proof (cases "subscribesToKind (whEvents w) (heKind ev)")
    case True
    obtain db1 where "dispatchTo env ev (w # ws) db = dispatchTo env ev ws db1" "fannedOut env [(w, ev)] db db1" using fannedOut_one [OF assms True] by blast
    then show ?thesis using Cons.IH [of db1] True fannedOut_trans [of env "[(w, ev)]" db db1] by fastforce
  qed (use Cons.IH in auto)
qed (simp add: fannedOut_refl)

lemma dispatchEvent_fansOut:
  assumes "\<And>n. hnFaults env n = None" "\<And>v. hnMarshal env v \<noteq> None"
  shows "\<exists>db'. dispatchEvent env ev db = (None, db') \<and> fannedOut env (map (\<lambda>w. (w, ev)) (subscribers env db ev)) db db'"
proof (cases "heRepo ev")
  case (Some repo)
  define ws where "ws = ListActiveWebhooksForOwner ''repo'' repo db @ (case hnRepoOrg env repo of Inr (Some org) \<Rightarrow> ListActiveWebhooksForOwner ''org'' org db | _ \<Rightarrow> [])"
  have active: "filter (\<lambda>w. subscribesToKind (whEvents w) (heKind ev)) (ListActiveWebhooksForOwner kind owner db)
      = filter (\<lambda>w. whActive w \<and> whDisabledAt w = None \<and> (whEvents w = [] \<or> heKind ev \<in> set (whEvents w) \<or> ''*'' \<in> set (whEvents w)))
          (filter (\<lambda>w. whOwnerKind w = kind \<and> whOwnerID w = owner) (Webhooks db))" for kind owner
    unfolding ListActiveWebhooksForOwner_def filter_filter by (rule filter_cong) (auto simp: subscribesToKind_def list_ex_iff)
  have "filter (\<lambda>w. subscribesToKind (whEvents w) (heKind ev)) ws = subscribers env db ev"
  proof (cases "\<exists>org. hnRepoOrg env repo = Inr (Some org)")
    case True
    then obtain org where "hnRepoOrg env repo = Inr (Some org)" by blast
    then have "filter (\<lambda>w. whOwnerKind w = ''org'' \<and> hnRepoOrg env repo = Inr (Some (whOwnerID w))) (Webhooks db) = filter (\<lambda>w. whOwnerKind w = ''org'' \<and> whOwnerID w = org) (Webhooks db)"
      by (auto intro: filter_cong)
    with \<open>hnRepoOrg env repo = Inr (Some org)\<close> show ?thesis by (simp add: ws_def subscribers_def Some active)
  next
    case False
    then have "filter (\<lambda>w. whOwnerKind w = ''org'' \<and> hnRepoOrg env repo = Inr (Some (whOwnerID w))) (Webhooks db) = []" by (simp add: filter_empty_conv)
    with False show ?thesis by (auto simp: ws_def subscribers_def Some active split: sum.split option.split)
  qed
  moreover have "dispatchEvent env ev db = dispatchTo env ev ws db" using Some assms(1) by (simp add: dispatchEvent_def ws_def split: option.split sum.split)
  ultimately show ?thesis using dispatchTo_fansOut [OF assms, of ev ws db] by simp
qed (simp add: dispatchEvent_def subscribers_def fannedOut_refl)


lemma fannedOut_frame:
  "fannedOut env ps db db' \<Longrightarrow> Webhooks db' = Webhooks db \<and> HookEvents db' = HookEvents db \<and> WebhookCursor db' = WebhookCursor db"
  by (auto simp: fannedOut_def)

lemma fanoutLoop_fansOut:
  assumes "\<And>n. hnFaults env n = None" "\<And>v. hnMarshal env v \<noteq> None"
  shows "\<exists>db'. fanoutLoop env evs latest n db = (last (latest # map heID evs), n + length evs, db')
    \<and> fannedOut env (concat (map (\<lambda>ev. map (\<lambda>w. (w, ev)) (subscribers env db ev)) evs)) db db'"
proof (induction evs arbitrary: latest n db)
  case (Cons ev evs)
  obtain db1 where d: "dispatchEvent env ev db = (None, db1)" "fannedOut env (map (\<lambda>w. (w, ev)) (subscribers env db ev)) db db1"
    using dispatchEvent_fansOut [OF assms] by blast
  have "subscribers env db1 = subscribers env db" using fannedOut_frame [OF d(2)] by (simp add: subscribers_def fun_eq_iff split: option.split)
  then show ?case using Cons.IH [of "heID ev" "n + 1" db1] d fannedOut_trans [OF d(2)] by auto
qed (simp add: fannedOut_refl)

text \<open>
  C17. Every subscriber gets every event. When no statement fails and values can be encoded, one fan-out takes the next
  two hundred events after the cursor, in the order of their ids, and appends exactly one pending delivery with its job for each of them and
  each active, enabled webhook of the repository, then of its organization, that subscribes to the kind of the event
  (webhooks that name no events subscribe to all). The cursor moves to the last of these events, so none is taken twice.
\<close>

theorem fanout_reaches_every_subscriber:
  assumes "\<And>n. hnFaults env n = None" "\<And>v. hnMarshal env v \<noteq> None"
    and "batch = take 200 (sort_key heID (filter (\<lambda>e. heID e > cursorOf db) (HookEvents db)))"
  shows "\<exists>db1. fannedOut env [(w, ev). ev \<leftarrow> batch, w \<leftarrow> subscribers env db ev] db db1
    \<and> FanoutOnce env db = (Inr (length batch), if batch = [] then db1 else db1\<lparr>WebhookCursor := Some (heID (last batch))\<rparr>)"
proof -
  have batch: "ListUnprocessedDomainEvents (cursorOf db) FanoutBatch db = batch" by (simp add: assms(3) ListUnprocessedDomainEvents_def FanoutBatch_def)
  obtain db1 where l: "fanoutLoop env batch (cursorOf db) 0 db = (last (cursorOf db # map heID batch), length batch, db1)"
      "fannedOut env (concat (map (\<lambda>ev. map (\<lambda>w. (w, ev)) (subscribers env db ev)) batch)) db db1"
    using fanoutLoop_fansOut [OF assms(1,2), of batch "cursorOf db" 0 db] by auto
  have "FanoutOnce env db = (Inr (length batch), if batch = [] then db1 else db1\<lparr>WebhookCursor := Some (heID (last batch))\<rparr>)"
    using l(1) assms(1) batch by (auto simp: FanoutOnce_def last_map)
  then show ?thesis using l(2) by auto
qed


section \<open>One event, one webhook, one failing receiver\<close>

definition demoHooks :: HookEnv where
  "demoHooks = \<lparr>hnNow = 0, hnFaults = (\<lambda>_. None), hnMarshal = (\<lambda>v. Some (case v of JObject [(k, JInt i)] \<Rightarrow> ''1'' | _ \<Rightarrow> ''body'')),
     hnUnmarshalHeaders = (\<lambda>_. Some []), hnDeliveryOf = (\<lambda>p. if p = ''1'' then Some 1 else None), hnTime = (\<lambda>_. ''''), hnUUID = (\<lambda>_. ''u''),
     hnSHA256 = (\<lambda>s. s), hnHMAC = (\<lambda>k b. k @ b), hnOpen = Some (\<lambda>c n. Some ''key''), hnSeal = None, hnRandom = None,
     hnParse = (\<lambda>_. Some \<lparr>Scheme = ''https'', Host = ''hooks.test'', Path = ''/'', Hostname = ''hooks.test'', Port = ''''\<rparr>),
     hnLookup = (\<lambda>_. Inr [[93, 184, 216, 34]]), hnSSRF = Default, hnServe = (\<lambda>_ _. Answer 500 ''''), hnJitter = (\<lambda>d. d), hnRepoOrg = (\<lambda>_. Inr None)\<rparr>"

definition demoTables :: HookTables where
  "demoTables = \<lparr>Jobs = [], NextJobID = 1,
     Webhooks = [\<lparr>whID = 5, whOwnerKind = ''repo'', whOwnerID = 3, whURL = ''https://hooks.test/'', whContentType = ''json'', whEvents = [''push''], whCipher = '''',
       whNonce = '''', whActive = True, whFailures = 0, whThreshold = 50, whDisabledAt = None, whDisabledReason = None, whLastSuccess = None, whLastFailure = None, whSSL = True, whCreatedBy = None\<rparr>],
     NextWebhookID = 6, Deliveries = [], NextDeliveryID = 1,
     HookEvents = [\<lparr>heID = 7, heKind = ''push'', heRepo = Some 3, heActor = None, heCreatedAt = 0, hePayload = ''{}''\<rparr>], WebhookCursor = None\<rparr>"

definition demoQueued :: HookTables where
  "demoQueued = snd (Enqueue (\<lambda>_. None) 0 KindWebhookFanout (Some ''{}'') \<lparr>eoRunAt = None, eoMaxAttempts = 0\<rparr> demoTables)"

definition demoPool :: "HookTables Pool" where
  "demoPool = webhookPool demoHooks 0 ''w'' (\<lambda>_. [KindWebhookFanout, KindWebhookDeliver, KindWebhookPurgeOld])"

definition demoKinds :: "string list" where
  "demoKinds = [KindWebhookFanout, KindWebhookDeliver, KindWebhookPurgeOld]"

text \<open>The tables after the fan-out, with the delivery pending.\<close>

definition demoPending :: HookTables where
  "demoPending = snd (WebhookFanout demoHooks ''{}'' demoTables)"

theorem webhook_queue_drains_witness:
  "\<exists>db'. drain demoPool (\<lambda>_. demoEnv 0) 0 demoQueued = Some db' \<and> list_all (\<lambda>kind. filter (claimable 0 kind) (Jobs db') = []) demoKinds"
proof -
  have "idsOK demoQueued" by (simp add: demoQueued_def demoTables_def Enqueue_def EnqueueJob_def KindWebhookFanout_def idsOK_def Let_def)
  then obtain db' m where "drain demoPool (\<lambda>_. demoEnv 0) 0 demoQueued = Some db'"
      "\<forall>i < length demoKinds. \<forall>j \<in> set (Jobs db'). \<not> claimable 0 (demoKinds ! i) j"
    using webhook_queue_drains [of demoQueued "\<lambda>_. demoEnv 0" demoHooks 0 "''w''" "\<lambda>_. demoKinds" 0] by (auto simp: demoEnv_def demoPool_def demoKinds_def)
  moreover from this(2) have "\<forall>kind \<in> set demoKinds. \<forall>j \<in> set (Jobs db'). \<not> claimable 0 kind j" by (metis in_set_conv_nth)
  ultimately show ?thesis by (auto simp: list_all_iff filter_empty_conv)
qed

theorem deliveries_are_signed_and_guarded_witness:
  "map dlStatus (Deliveries (snd (Deliver (demoHooks\<lparr>hnServe := \<lambda>addr req. if rqURL req = ''https://hooks.test/'' then Answer 500 '''' else NoAnswer ''other''\<rparr>) 1 demoPending))) = [''failed_retry'']"
proof -
  let ?s = "\<lambda>addr req. if rqURL req = ''https://hooks.test/'' then Answer 500 '''' else NoAnswer ''other''"
  have db: "map_option dlWebhook (GetDeliveryByID 1 demoPending) = Some 5" "map_option whURL (GetWebhookByID 5 demoPending) = Some ''https://hooks.test/''" by code_simp+
  have "?s addr req = hnServe demoHooks addr req" if "rightful demoHooks 1 demoPending addr req" for addr req
    using that db by (auto simp: rightful_def demoHooks_def)
  then have "Deliver (demoHooks\<lparr>hnServe := ?s\<rparr>) 1 demoPending = Deliver demoHooks 1 demoPending" by (rule deliveries_are_signed_and_guarded)
  then show ?thesis by (simp only:) code_simp
qed

theorem fanout_reaches_every_subscriber_witness:
  "\<exists>db1. fannedOut demoHooks [(hd (Webhooks demoTables), hd (HookEvents demoTables))] demoTables db1
    \<and> FanoutOnce demoHooks demoTables = (Inr 1, db1\<lparr>WebhookCursor := Some 7\<rparr>)"
proof -
  have "hnFaults demoHooks n = None" "hnMarshal demoHooks v \<noteq> None" for n v by (simp_all add: demoHooks_def)
  from fanout_reaches_every_subscriber [OF this refl, of demoTables] show ?thesis
    by (simp add: demoTables_def cursorOf_def subscribers_def)
qed

text \<open>
  The retry that was scheduled for the failed delivery never happens: the job is completed all the same, and no job
  that would take up the delivery is left or enqueued by any handler.
\<close>

lemma failed_delivery_is_left_alone:
  "\<exists>db. drain demoPool (\<lambda>_. demoEnv 0) 0 demoQueued = Some db \<and> map dlStatus (Deliveries db) = [''failed_retry''] \<and> (\<forall>j \<in> set (Jobs db). \<not> live j)"
proof -
  define db1 where "db1 = snd (tryClaimAndRun demoPool (\<lambda>_. demoEnv 0) 0 demoQueued)"
  have one: "fst (tryClaimAndRun demoPool (\<lambda>_. demoEnv 0) 0 demoQueued) = Inr True" by code_simp
  have "fst (tryClaimAndRun demoPool (\<lambda>_. demoEnv 0) 3 db1) = Inr False" unfolding db1_def by code_simp
  then obtain db2 where two: "tryClaimAndRun demoPool (\<lambda>_. demoEnv 0) 3 db1 = (Inr False, db2)" by (metis prod.collapse)
  have "db2 = db1" using tryKinds_quiet [OF two [unfolded tryClaimAndRun_def]] by simp
  moreover have "length (kindOrder demoPool 0) = 3" by code_simp
  moreover have "tryClaimAndRun demoPool (\<lambda>_. demoEnv 0) 0 demoQueued = (Inr True, db1)" using one by (simp add: db1_def prod_eq_iff)
  ultimately have "drain demoPool (\<lambda>_. demoEnv 0) 0 demoQueued = Some db1"
    using two drain.simps [of demoPool "\<lambda>_. demoEnv 0" 0 demoQueued] drain.simps [of demoPool "\<lambda>_. demoEnv 0" 3 db1] by simp
  moreover have "map dlStatus (Deliveries db1) = [''failed_retry'']" "list_all (\<lambda>j. \<not> live j) (Jobs db1)" unfolding db1_def by code_simp+
  ultimately show ?thesis by (auto simp: list_all_iff)
qed

end
