(* ===== verification/WebhookManage.thy ===== *)
theory WebhookManage
  imports WebhookRuns GitAccess
begin

text \<open>
  The management of webhooks (\<^verbatim>\<open>src/internal/webhook/manage.go\<close> and \<^verbatim>\<open>secrets.go\<close>): creation with a ping, updates, secrets,
  and the events a webhook subscribes to; and what is known of every stored webhook, whatever happens.
\<close>

section \<open>Parameters\<close>

datatype manageError = ErrBadURL | ErrBadContentType | ErrBadOwnerKind | ErrBadEvent | NoRandom | SealError | StoreError string

record CreateParams =
  cpOwnerKind :: string
  cpOwnerID :: go_int64
  cpURL :: string
  cpContentType :: string
  cpEvents :: "string list"
  cpSecret :: string
  cpActive :: bool
  cpSSL :: bool
  cpActor :: go_int64

record UpdateParams =
  upURL :: string
  upContentType :: string
  upEvents :: "string list"
  upActive :: bool
  upSSL :: bool
  upNewSecret :: string

definition SecretLength :: nat where "SecretLength = 32"

definition GenerateSecret :: "HookEnv \<Rightarrow> string option" where
  "GenerateSecret env = map_option (\<lambda>b. hexEncode (take SecretLength b)) (hnRandom env)"

definition validateURL :: "(string \<Rightarrow> URL option) \<Rightarrow> string \<Rightarrow> manageError option" where
  "validateURL parse raw = (case parse raw of None \<Rightarrow> Some ErrBadURL | Some u \<Rightarrow>
     if (Scheme u \<noteq> ''http'' \<and> Scheme u \<noteq> ''https'') \<or> Host u = '''' then Some ErrBadURL else None)"

definition parseOwnerKind :: "string \<Rightarrow> manageError + string" where
  "parseOwnerKind s = (if s = ''repo'' then Inr ''repo'' else if s = ''org'' then Inr ''org'' else Inl ErrBadOwnerKind)"

definition parseContentType :: "string \<Rightarrow> manageError + string" where
  "parseContentType s = (if s = '''' \<or> s = ''json'' then Inr ''json'' else if s = ''form'' then Inr ''form'' else Inl ErrBadContentType)"

definition trimByte :: "char \<Rightarrow> bool" where
  "trimByte c \<longleftrightarrow> c = CHR '' '' \<or> c = CHR 0x09 \<or> c = CHR 0x0A \<or> c = CHR 0x0D"

fun trimFront :: "string \<Rightarrow> string" where
  "trimFront [] = []"
| "trimFront (c # cs) = (if trimByte c then trimFront cs else c # cs)"

definition trimEvent :: "string \<Rightarrow> string" where
  "trimEvent s = rev (trimFront (rev (trimFront s)))"

definition lowerEvent :: "string \<Rightarrow> string" where
  "lowerEvent s = map ascii_lower s"

text \<open>The loop of \<open>normalizeEvents\<close>, with the events seen and the result so far.\<close>

fun normalizeLoop :: "string list \<Rightarrow> string list \<Rightarrow> manageError + string list" where
  "normalizeLoop [] out = Inr out"
| "normalizeLoop (e0 # es) out =
     (let e = lowerEvent (trimEvent e0) in
      if e = '''' then normalizeLoop es out
      else if length e > 64 then Inl ErrBadEvent
      else if e \<in> set out then normalizeLoop es out
      else normalizeLoop es (out @ [e]))"

definition normalizeEvents :: "string list \<Rightarrow> manageError + string list" where
  "normalizeEvents events = normalizeLoop events []"

section \<open>Operations\<close>

text \<open>The statements; the schema bounds the length of the URL.\<close>

definition CreateWebhook :: "HookEnv \<Rightarrow> (go_int64 \<Rightarrow> Webhook) \<Rightarrow> 'x HookTables_scheme \<Rightarrow> (manageError + Webhook) \<times> 'x HookTables_scheme" where
  "CreateWebhook env row db =
     (case hnFaults env ''CreateWebhook'' of Some e \<Rightarrow> (Inl (StoreError e), db) | None \<Rightarrow>
      let w = row (NextWebhookID db) in
      if char_length (whURL w) < 1 \<or> 2048 < char_length (whURL w) then (Inl (StoreError ''webhooks_url_length''), db)
      else (Inr w, db\<lparr>Webhooks := Webhooks db @ [w], NextWebhookID := NextWebhookID db + 1\<rparr>))"

definition Create :: "HookEnv \<Rightarrow> CreateParams \<Rightarrow> 'x HookTables_scheme \<Rightarrow> (manageError + Webhook) \<times> 'x HookTables_scheme" where
  "Create env p db =
     (case validateURL (hnParse env) (cpURL p) of Some e \<Rightarrow> (Inl e, db) | None \<Rightarrow>
      case ValidateWithResolve (hnParse env) (hnLookup env) (hnSSRF env) (cpURL p) of Some e \<Rightarrow> (Inl ErrBadURL, db) | None \<Rightarrow>
      case parseOwnerKind (cpOwnerKind p) of Inl e \<Rightarrow> (Inl e, db) | Inr ownerKind \<Rightarrow>
      case parseContentType (cpContentType p) of Inl e \<Rightarrow> (Inl e, db) | Inr contentType \<Rightarrow>
      case normalizeEvents (cpEvents p) of Inl e \<Rightarrow> (Inl e, db) | Inr events \<Rightarrow>
      case (if cpSecret p = '''' then GenerateSecret env else Some (cpSecret p)) of None \<Rightarrow> (Inl NoRandom, db) | Some secret \<Rightarrow>
      case SealSecret env secret of None \<Rightarrow> (Inl SealError, db) | Some (cipher, nonce) \<Rightarrow>
      case CreateWebhook env (\<lambda>i. \<lparr>whID = i, whOwnerKind = ownerKind, whOwnerID = cpOwnerID p, whURL = cpURL p, whContentType = contentType, whEvents = events,
             whCipher = cipher, whNonce = nonce, whActive = cpActive p, whFailures = 0, whThreshold = 50, whDisabledAt = None, whDisabledReason = None,
             whLastSuccess = None, whLastFailure = None, whSSL = cpSSL p, whCreatedBy = (if cpActor p \<noteq> 0 then Some (cpActor p) else None)\<rparr>) db of
        (Inl e, db1) \<Rightarrow> (Inl e, db1)
      | (Inr row, db1) \<Rightarrow> (Inr row, snd (EnqueuePing env (whID row) db1)))"

definition UpdateWebhook :: "HookEnv \<Rightarrow> go_int64 \<Rightarrow> string \<Rightarrow> string \<Rightarrow> string list \<Rightarrow> bool \<Rightarrow> bool \<Rightarrow> 'x HookTables_scheme \<Rightarrow> manageError option \<times> 'x HookTables_scheme" where
  "UpdateWebhook env i u contentType events active ssl db =
     (case hnFaults env ''UpdateWebhook'' of Some e \<Rightarrow> (Some (StoreError e), db) | None \<Rightarrow>
      if GetWebhookByID i db \<noteq> None \<and> (char_length u < 1 \<or> 2048 < char_length u) then (Some (StoreError ''webhooks_url_length''), db)
      else (None, updateHook i (\<lambda>w. w\<lparr>whURL := u, whContentType := contentType, whEvents := events, whActive := active, whSSL := ssl, whThreshold := 50\<rparr>) db))"

definition Update :: "HookEnv \<Rightarrow> go_int64 \<Rightarrow> UpdateParams \<Rightarrow> 'x HookTables_scheme \<Rightarrow> manageError option \<times> 'x HookTables_scheme" where
  "Update env i p db =
     (case validateURL (hnParse env) (upURL p) of Some e \<Rightarrow> (Some e, db) | None \<Rightarrow>
      case ValidateWithResolve (hnParse env) (hnLookup env) (hnSSRF env) (upURL p) of Some e \<Rightarrow> (Some ErrBadURL, db) | None \<Rightarrow>
      case parseContentType (upContentType p) of Inl e \<Rightarrow> (Some e, db) | Inr contentType \<Rightarrow>
      case normalizeEvents (upEvents p) of Inl e \<Rightarrow> (Some e, db) | Inr events \<Rightarrow>
      case UpdateWebhook env i (upURL p) contentType events (upActive p) (upSSL p) db of (Some e, db1) \<Rightarrow> (Some e, db1) | (None, db1) \<Rightarrow>
      if upNewSecret p \<noteq> '''' then
        (case SealSecret env (upNewSecret p) of None \<Rightarrow> (Some SealError, db1) | Some (cipher, nonce) \<Rightarrow>
         case hnFaults env ''UpdateWebhookSecret'' of Some e \<Rightarrow> (Some (StoreError e), db1)
         | None \<Rightarrow> (None, updateHook i (\<lambda>w. w\<lparr>whCipher := cipher, whNonce := nonce\<rparr>) db1))
      else (None, db1))"

text \<open>The deliveries of a webhook go with it.\<close>

definition DeleteHook :: "HookEnv \<Rightarrow> go_int64 \<Rightarrow> 'x HookTables_scheme \<Rightarrow> manageError option \<times> 'x HookTables_scheme" where
  "DeleteHook env i db = (case hnFaults env ''DeleteWebhook'' of Some e \<Rightarrow> (Some (StoreError e), db)
     | None \<Rightarrow> (None, db\<lparr>Webhooks := filter (\<lambda>w. whID w \<noteq> i) (Webhooks db), Deliveries := filter (\<lambda>d. dlWebhook d \<noteq> i) (Deliveries db)\<rparr>))"

definition SetActive :: "HookEnv \<Rightarrow> go_int64 \<Rightarrow> bool \<Rightarrow> 'x HookTables_scheme \<Rightarrow> manageError option \<times> 'x HookTables_scheme" where
  "SetActive env i active db = (case hnFaults env ''SetWebhookActive'' of Some e \<Rightarrow> (Some (StoreError e), db)
     | None \<Rightarrow> (None, updateHook i (\<lambda>w. w\<lparr>whActive := active, whDisabledAt := None, whDisabledReason := None, whFailures := 0\<rparr>) db))"

section \<open>Events\<close>

lemma lower_char: "ascii_lower c = (if 65 \<le> (of_char c :: nat) \<and> (of_char c :: nat) \<le> 90 then char_of (of_char c + 32 :: nat) else c)"
  by (simp add: ascii_lower_def is_ascii_upper_def less_eq_char_def)

lemma lower_code: "of_char (ascii_lower c) = (if 65 \<le> (of_char c :: nat) \<and> (of_char c :: nat) \<le> 90 then of_char c + 32 else (of_char c :: nat))"
  by (simp add: lower_char)

lemma ascii_lower_idem [simp]: "ascii_lower (ascii_lower c) = ascii_lower c"
  by (simp add: lower_char)

lemma trimByte_code: "trimByte c \<longleftrightarrow> (of_char c :: nat) \<in> {32, 9, 10, 13}"
proof -
  have "c = d \<longleftrightarrow> (of_char c :: nat) = of_char d" for d by (simp add: of_char_eq_iff)
  from this [of "CHR '' ''"] this [of "CHR 0x09"] this [of "CHR 0x0A"] this [of "CHR 0x0D"] show ?thesis by (simp add: trimByte_def)
qed

lemma trimByte_lower [simp]: "trimByte (ascii_lower c) = trimByte c"
  by (auto simp: trimByte_code lower_code)

lemma trimFront_drop: "trimFront s = dropWhile trimByte s"
  by (induction s) auto

lemma trim_back_hd: "rev (dropWhile P (rev ys)) \<noteq> [] \<Longrightarrow> hd (rev (dropWhile P (rev ys))) = hd ys"
  by (metis hd_append2 rev_append rev_rev_ident takeWhile_dropWhile_id)

text \<open>What is kept is in a form that normalizing again does not change.\<close>

lemma trimEvent_idem: "trimEvent (trimEvent s) = trimEvent s"
proof -
  define ys where "ys = dropWhile trimByte s"
  define t where "t = rev (dropWhile trimByte (rev ys))"
  have "\<not> trimByte (hd t)" if "t \<noteq> []"
  proof -
    have "hd t = hd ys" using trim_back_hd [of trimByte ys] that unfolding t_def by blast
    moreover have "ys \<noteq> []" using that by (auto simp: t_def)
    ultimately show ?thesis using hd_dropWhile [of trimByte s] by (simp add: ys_def)
  qed
  then have "dropWhile trimByte t = t" by (simp add: dropWhile_eq_self_iff) blast
  moreover have "dropWhile trimByte (rev t) = rev t" by (simp add: t_def)
  ultimately show ?thesis by (simp add: trimEvent_def trimFront_drop flip: ys_def t_def)
qed

lemma normal_form: "lowerEvent (trimEvent (lowerEvent (trimEvent s))) = lowerEvent (trimEvent s)"
proof -
  have "trimEvent (lowerEvent x) = lowerEvent (trimEvent x)" for x
    by (simp add: trimEvent_def trimFront_drop lowerEvent_def dropWhile_map rev_map comp_def)
  then show ?thesis by (simp add: trimEvent_idem) (simp add: lowerEvent_def)
qed

definition canonicalEvent :: "string \<Rightarrow> bool" where
  "canonicalEvent e \<longleftrightarrow> e \<noteq> '''' \<and> length e \<le> 64 \<and> lowerEvent (trimEvent e) = e"

lemma normalizeLoop_spec:
  "normalizeLoop es out = Inr r \<Longrightarrow> distinct out \<Longrightarrow> list_all canonicalEvent out \<Longrightarrow>
     distinct r \<and> list_all canonicalEvent r \<and> set r = set out \<union> ((\<lambda>e. lowerEvent (trimEvent e)) ` set es - {''''})"
proof (induction es arbitrary: out)
  case (Cons e0 es)
  define e where "e = lowerEvent (trimEvent e0)"
  show ?case
  proof (cases "e = '''' \<or> e \<in> set out")
    case True
    then have "normalizeLoop es out = Inr r" using Cons.prems(1) by (auto simp: Let_def e_def split: if_split_asm)
    then show ?thesis using Cons.IH [OF _ Cons.prems(2,3)] True by (auto simp: e_def)
  next
    case False
    then have step: "normalizeLoop es (out @ [e]) = Inr r" "length e \<le> 64" using Cons.prems(1) by (auto simp: Let_def e_def split: if_split_asm)
    have "canonicalEvent e" using False step(2) by (simp add: canonicalEvent_def e_def normal_form)
    then show ?thesis using Cons.IH [OF step(1)] Cons.prems(2,3) False by (auto simp: e_def)
  qed
qed simp

lemma normalizeEvents_spec:
  "normalizeEvents es = Inr r \<Longrightarrow> distinct r \<and> list_all canonicalEvent r \<and> set r = (\<lambda>e. lowerEvent (trimEvent e)) ` set es - {''''}"
  using normalizeLoop_spec [of es "[]" r] by (simp add: normalizeEvents_def)

lemma normalizeLoop_canonical: "distinct (out @ es) \<Longrightarrow> list_all canonicalEvent es \<Longrightarrow> normalizeLoop es out = Inr (out @ es)"
  by (induction es arbitrary: out) (auto simp: canonicalEvent_def Let_def)

text \<open>Normalizing is idempotent, so an update with the events that the form shows keeps them.\<close>

lemma normalizeEvents_idem: "normalizeEvents es = Inr r \<Longrightarrow> normalizeEvents r = Inr r"
  using normalizeEvents_spec [of es r] normalizeLoop_canonical [of "[]" r] by (simp add: normalizeEvents_def)

section \<open>Secrets\<close>

text \<open>A webhook is created with the given secret: the deliverer opens what was sealed, for a box that opens what it seals.\<close>

lemma created_secret_opens:
  assumes "Create env p db = (Inr w, db')" "cpSecret p \<noteq> ''''"
    and "\<And>s c n. SealSecret env s = Some (c, n) \<Longrightarrow> OpenSecret env c n = Some s"
  shows "OpenSecret env (whCipher w) (whNonce w) = Some (cpSecret p)"
proof -
  obtain c n where "SealSecret env (cpSecret p) = Some (c, n)" "whCipher w = c" "whNonce w = n"
    using assms(1,2) by (auto simp: Create_def CreateWebhook_def Let_def split: option.split_asm sum.split_asm if_split_asm prod.split_asm)
  then show ?thesis using assms(3) by simp
qed


section \<open>Stored webhooks\<close>

text \<open>What only management changes of a webhook.\<close>

definition hookCore :: "Webhook \<Rightarrow> go_int64 \<times> string \<times> string \<times> string \<times> string list \<times> int" where
  "hookCore w = (whID w, whOwnerKind w, whURL w, whContentType w, whEvents w, whThreshold w)"

definition coreView :: "'x HookTables_scheme \<Rightarrow> (go_int64 \<times> string \<times> string \<times> string \<times> string list \<times> int) list \<times> go_int64" where
  "coreView db = (map hookCore (Webhooks db), NextWebhookID db)"

lemma core_update [simp]: "(\<And>w. hookCore (g w) = hookCore w) \<Longrightarrow> coreView (updateHook i g db) = coreView db"
  by (simp add: coreView_def updateHook_def)

lemma core_delivery [simp]: "coreView (updateDelivery i g db) = coreView db"
  by (simp add: coreView_def updateDelivery_def)

lemma core_statements [simp]:
  "coreView (MarkDeliverySucceeded now i status body trunc db) = coreView db"
  "coreView (MarkDeliveryRetry i st body trunc next e db) = coreView db"
  "coreView (MarkDeliveryPermanentFailure now i st body trunc e db) = coreView db"
  "coreView (AutoDisableWebhook now i reason db) = coreView db"
  "coreView (RecordWebhookSuccess now i db) = coreView db"
  by (simp_all add: hook_statements hookCore_def)

lemma core_ignoring [simp]: "(\<And>d. coreView (g d) = coreView d) \<Longrightarrow> coreView (ignoring f n g db) = coreView db"
  by (simp add: ignoring_def)

lemma recordFailure_core [simp]: "coreView (recordFailure env hook db) = coreView db"
  by (simp add: recordFailure_def Let_def hookCore_def split: option.split)

lemma schedule_core [simp]: "coreView (scheduleRetryOrPermanent env row hook status body trunc e db) = coreView db"
  by (simp add: scheduleRetryOrPermanent_def Let_def)

lemma sendDelivery_core [simp]: "coreView (sendDelivery env i row hook secret db) = coreView db"
  by (simp add: sendDelivery_def Let_def split: httpAnswer.split prod.split)

lemma Deliver_core: "coreView (snd (Deliver env i db)) = coreView db"
  by (simp add: Deliver_def Let_def split: option.split)

lemma Enqueue_core [simp]: "coreView (snd (Enqueue f now kind body opts db)) = coreView db"
  by (simp add: Enqueue_def EnqueueJob_def Let_def coreView_def split: option.split)

lemma CreateDelivery_core: "CreateDelivery env row db = (r, db') \<Longrightarrow> coreView db' = coreView db"
  by (auto simp: CreateDelivery_def Let_def coreView_def split: option.split_asm)

lemma enqueueDeliver_core [simp]: "coreView (snd (workerEnqueueDeliver env i db)) = coreView db"
  by (simp add: workerEnqueueDeliver_def)

lemma dispatchTo_core: "coreView (snd (dispatchTo env ev ws db)) = coreView db"
proof (induction ws arbitrary: db)
  case (Cons w ws)
  then show ?case by (auto simp: CreateDelivery_core split: option.split prod.split sum.split)
qed simp

lemma dispatchEvent_core: "coreView (snd (dispatchEvent env ev db)) = coreView db"
  by (simp add: dispatchEvent_def Let_def dispatchTo_core split: option.split sum.split)

lemma fanoutLoop_core: "fanoutLoop env evs latest n db = (l, m, db') \<Longrightarrow> coreView db' = coreView db"
proof (induction evs arbitrary: latest n db)
  case (Cons ev evs)
  obtain r db1 where d: "dispatchEvent env ev db = (r, db1)" by fastforce
  then have "coreView db1 = coreView db" using dispatchEvent_core [of env ev db] by simp
  then show ?case using Cons d by (auto split: option.split_asm)
qed simp

lemma FanoutOnce_core: "coreView (snd (FanoutOnce env db)) = coreView db"
proof -
  obtain l n db1 where "fanoutLoop env (ListUnprocessedDomainEvents (cursorOf db) FanoutBatch db) (cursorOf db) 0 db = (l, n, db1)" using prod_cases3 by blast
  moreover from fanoutLoop_core [OF this] have "coreView db1 = coreView db" .
  moreover have "coreView (db1\<lparr>WebhookCursor := c\<rparr>) = coreView db1" for c by (simp add: coreView_def)
  ultimately show ?thesis by (simp add: FanoutOnce_def split: option.split)
qed

lemma snd_case_result: "snd (case x of (Inl e, d) \<Rightarrow> (f e, d) | (Inr v, d) \<Rightarrow> (g v, d)) = snd x"
  by (simp split: prod.split sum.split)

lemma queued_core:
  "coreView (snd (case CreateDelivery env row db of (Inl e, db1) \<Rightarrow> (f e, db1)
     | (Inr d, db1) \<Rightarrow> (case workerEnqueueDeliver env (dlID d) db1 of (Inl e, db2) \<Rightarrow> (g e, db2) | (Inr v, db2) \<Rightarrow> (h d v, db2)))) = coreView db"
proof -
  obtain r db1 where c: "CreateDelivery env row db = (r, db1)" by fastforce
  from CreateDelivery_core [OF c] show ?thesis by (simp add: c snd_case_result split: sum.split)
qed

lemma EnqueuePing_core: "coreView (snd (EnqueuePing env i db)) = coreView db"
  by (simp add: EnqueuePing_def Let_def queued_core split: option.split)

lemma Redeliver_core: "coreView (snd (Redeliver env i db)) = coreView db"
  by (simp add: Redeliver_def queued_core split: option.split)

lemma updateJob_core [simp]: "coreView (updateJob i g db) = coreView db"
  by (simp add: coreView_def updateJob_def)

lemma handler_core:
  assumes "handlers (webhookPool env retention inst order) kind = Some h"
  shows "coreView (snd (h payload db)) = coreView db"
proof -
  have f: "coreView (snd (WebhookFanout env payload db)) = coreView db"
    using FanoutOnce_core [of env db] by (auto simp: WebhookFanout_def split: prod.split sum.split)
  have d: "coreView (snd (WebhookDeliver env payload db)) = coreView db"
    using Deliver_core [of env _ db] by (auto simp: WebhookDeliver_def split: option.split prod.split) (metis snd_conv)+
  have p: "coreView (snd (WebhookPurgeOld env retention payload db)) = coreView db"
    by (simp add: WebhookPurgeOld_def Let_def coreView_def split: option.split)
  show ?thesis using assms f d p by (auto simp: webhookPool_def Register_def split: if_split_asm)
qed

lemma runOne_core: "coreView (snd (runOne (webhookPool env retention inst order) renv kind db)) = coreView db"
proof -
  let ?p = "webhookPool env retention inst order"
  have inst: "InstanceID (webhookPool env retention inst order :: 'a HookTables_scheme Pool) = inst" by (simp add: webhookPool_def Register_def)
  obtain r db1 where c: "ClaimJob (reStart renv) kind inst db = (r, db1)" by fastforce
  then have db1: "coreView db1 = coreView db" by (auto simp: ClaimJob_def Let_def split: option.split_asm)
  have fin: "coreView (finishRun renv job o' d) = coreView d" for job o' and d :: "'a HookTables_scheme" using finishRun_update [of renv job o' d] by auto
  have ran: "coreView (finishRun renv job (fst x) (snd x)) = coreView db" if "handlers ?p k = Some h" "x = h payload db1" for k h payload x job
    using handler_core [OF that(1), of payload db1] db1 fin that(2) by simp
  show ?thesis
  proof (cases r)
    case None
    then show ?thesis using c db1 by (simp add: runOne_def webhookPool_def Register_def split: option.split)
  next
    case (Some job)
    then show ?thesis using c db1 ran [of "jobKind job" _ _ "jobPayload job"]
      by (simp add: runOne_def inst MarkJobFailed_def ignoring_def case_prod_beta split: option.split)
  qed
qed

text \<open>Everything that happens to webhooks, with the configuration of the guard fixed; names may resolve anew each time.\<close>

inductive hookStep :: "(string \<Rightarrow> URL option) \<Rightarrow> Config \<Rightarrow> HookTables \<Rightarrow> HookTables \<Rightarrow> bool" for parse cfg where
  Created: "hnParse env = parse \<Longrightarrow> hnSSRF env = cfg \<Longrightarrow> hookStep parse cfg db (snd (Create env p db))"
| Updated: "hnParse env = parse \<Longrightarrow> hnSSRF env = cfg \<Longrightarrow> hookStep parse cfg db (snd (Update env i u db))"
| Removed: "hookStep parse cfg db (snd (DeleteHook env i db))"
| Toggled: "hookStep parse cfg db (snd (SetActive env i active db))"
| Ran: "hookStep parse cfg db (snd (runOne (webhookPool env retention inst order) renv kind db))"
| Pinged: "hookStep parse cfg db (snd (EnqueuePing env i db))"
| Redelivered: "hookStep parse cfg db (snd (Redeliver env i db))"
| Happened: "\<forall>e \<in> set (HookEvents db). heID e < heID ev \<Longrightarrow> hookStep parse cfg db (db\<lparr>HookEvents := HookEvents db @ [ev]\<rparr>)"
| Enqueued: "hookStep parse cfg db (snd (Enqueue f now kind body opts db))"

text \<open>A webhook as management admits it.\<close>

definition admitted :: "(string \<Rightarrow> URL option) \<Rightarrow> Config \<Rightarrow> go_int64 \<times> string \<times> string \<times> string \<times> string list \<times> int \<Rightarrow> bool" where
  "admitted parse cfg = (\<lambda>(i, owner, u, ct, events, threshold). owner \<in> {''repo'', ''org''} \<and> ct \<in> {''json'', ''form''} \<and> threshold = 50
     \<and> validateURL parse u = None \<and> Validate parse cfg u = None \<and> char_length u \<in> {1..2048} \<and> distinct events \<and> list_all canonicalEvent events)"

definition hooksInv :: "(string \<Rightarrow> URL option) \<Rightarrow> Config \<Rightarrow> HookTables \<Rightarrow> bool" where
  "hooksInv parse cfg db \<longleftrightarrow> (\<forall>c \<in> set (fst (coreView db)). admitted parse cfg c) \<and> distinct (map whID (Webhooks db)) \<and> (\<forall>w \<in> set (Webhooks db). whID w < NextWebhookID db)"

lemma hooksInv_core: "coreView db' = coreView db \<Longrightarrow> hooksInv parse cfg db \<Longrightarrow> hooksInv parse cfg db'"
proof -
  have ids: "map whID (Webhooks d) = map fst (fst (coreView d))" "NextWebhookID d = snd (coreView d)" for d :: HookTables by (simp_all add: coreView_def hookCore_def)
  have "hooksInv parse cfg d \<longleftrightarrow> (\<forall>c \<in> set (fst (coreView d)). admitted parse cfg c) \<and> distinct (map fst (fst (coreView d))) \<and> (\<forall>i \<in> set (map fst (fst (coreView d))). i < snd (coreView d))" for d
    unfolding hooksInv_def ids(1) [symmetric] ids(2) [symmetric] by auto
  then show "coreView db' = coreView db \<Longrightarrow> hooksInv parse cfg db \<Longrightarrow> hooksInv parse cfg db'" by simp
qed


lemma resolved_validates: "ValidateWithResolve parse lookup cfg u = None \<Longrightarrow> Validate parse cfg u = None"
  by (simp add: ValidateWithResolve_def split: option.split_asm)

lemma parsed_kinds: "parseOwnerKind s = Inr k \<Longrightarrow> k \<in> {''repo'', ''org''}" "parseContentType s = Inr c \<Longrightarrow> c \<in> {''json'', ''form''}"
  by (auto simp: parseOwnerKind_def parseContentType_def split: if_split_asm)

lemma CreateHook_inv:
  assumes "hooksInv (hnParse env) (hnSSRF env) db"
  shows "hooksInv (hnParse env) (hnSSRF env) (snd (Create env p db))"
proof (cases "fst (Create env p db)")
  case (Inl e)
  then have "snd (Create env p db) = db"
    by (auto simp: Create_def CreateWebhook_def Let_def split: option.split sum.split_asm sum.split prod.split_asm if_split_asm)
  then show ?thesis using assms by simp
next
  case (Inr w)
  then obtain kind ct events where w: "validateURL (hnParse env) (cpURL p) = None" "ValidateWithResolve (hnParse env) (hnLookup env) (hnSSRF env) (cpURL p) = None"
      "parseOwnerKind (cpOwnerKind p) = Inr kind" "parseContentType (cpContentType p) = Inr ct" "normalizeEvents (cpEvents p) = Inr events"
      "hookCore w = (NextWebhookID db, kind, cpURL p, ct, events, 50)" "1 \<le> char_length (cpURL p)" "char_length (cpURL p) \<le> 2048"
      "snd (Create env p db) = snd (EnqueuePing env (whID w) (db\<lparr>Webhooks := Webhooks db @ [w], NextWebhookID := NextWebhookID db + 1\<rparr>))"
    by (auto simp: Create_def CreateWebhook_def hookCore_def Let_def split: option.split_asm sum.split_asm prod.split_asm if_split_asm)
  have "admitted (hnParse env) (hnSSRF env) (hookCore w)"
    using w(1,6,7,8) resolved_validates [OF w(2)] parsed_kinds(1) [OF w(3)] parsed_kinds(2) [OF w(4)] normalizeEvents_spec [OF w(5)]
    by (auto simp: admitted_def Suc_le_eq)
  moreover have "whID w = NextWebhookID db" using w(6) by (simp add: hookCore_def)
  ultimately have "hooksInv (hnParse env) (hnSSRF env) (db\<lparr>Webhooks := Webhooks db @ [w], NextWebhookID := NextWebhookID db + 1\<rparr>)"
    using assms by (force simp: hooksInv_def coreView_def)
  then show ?thesis unfolding w(9) by (rule hooksInv_core [OF EnqueuePing_core])
qed

lemma updateHook_inv:
  assumes "hooksInv parse cfg db" "\<And>w. whID (g w) = whID w" "\<And>w. admitted parse cfg (hookCore w) \<Longrightarrow> admitted parse cfg (hookCore (g w))"
  shows "hooksInv parse cfg (updateHook i g db)"
proof -
  have "map whID (Webhooks (updateHook i g db)) = map whID (Webhooks db)" using assms(2) by (simp add: updateHook_def)
  then have "distinct (map whID (Webhooks (updateHook i g db)))" using assms(1) by (simp add: hooksInv_def)
  moreover have "w \<in> set (Webhooks (updateHook i g db)) \<Longrightarrow> whID w < NextWebhookID db \<and> admitted parse cfg (hookCore w)" for w
    using assms by (auto simp: hooksInv_def coreView_def updateHook_def split: if_split_asm)
  ultimately show ?thesis by (auto simp: hooksInv_def coreView_def) (simp add: updateHook_def)
qed

lemma Update_inv:
  assumes "hooksInv (hnParse env) (hnSSRF env) db"
  shows "hooksInv (hnParse env) (hnSSRF env) (snd (Update env i p db))"
proof (cases "\<exists>ct events db1. validateURL (hnParse env) (upURL p) = None \<and> ValidateWithResolve (hnParse env) (hnLookup env) (hnSSRF env) (upURL p) = None
    \<and> parseContentType (upContentType p) = Inr ct \<and> normalizeEvents (upEvents p) = Inr events
    \<and> UpdateWebhook env i (upURL p) ct events (upActive p) (upSSL p) db = (None, db1)")
  case True
  then obtain ct events db1 where u: "validateURL (hnParse env) (upURL p) = None" "ValidateWithResolve (hnParse env) (hnLookup env) (hnSSRF env) (upURL p) = None"
      "parseContentType (upContentType p) = Inr ct" "normalizeEvents (upEvents p) = Inr events"
      "UpdateWebhook env i (upURL p) ct events (upActive p) (upSSL p) db = (None, db1)" by blast
  have db1: "hooksInv (hnParse env) (hnSSRF env) db1"
  proof (cases "GetWebhookByID i db")
    case None
    then have "map (\<lambda>w. if whID w = i then g w else w) (Webhooks db) = Webhooks db" for g by (auto simp: GetWebhookByID_def find_None_iff intro!: map_idI)
    then have "updateHook i g db = db" for g by (simp add: updateHook_def)
    then show ?thesis using u(5) assms by (auto simp: UpdateWebhook_def split: option.split_asm if_split_asm)
  next
    case (Some w)
    then have len: "1 \<le> char_length (upURL p)" "char_length (upURL p) \<le> 2048" and
      db1: "db1 = updateHook i (\<lambda>w. w\<lparr>whURL := upURL p, whContentType := ct, whEvents := events, whActive := upActive p, whSSL := upSSL p, whThreshold := 50\<rparr>) db"
      using u(5) by (auto simp: UpdateWebhook_def split: option.split_asm if_split_asm)
    show ?thesis unfolding db1
      by (rule updateHook_inv [OF assms])
         (use len u(1) resolved_validates [OF u(2)] parsed_kinds(2) [OF u(3)] normalizeEvents_spec [OF u(4)] in \<open>auto simp: admitted_def hookCore_def Suc_le_eq\<close>)
  qed
  have "coreView (snd (Update env i p db)) = coreView db1"
    using u by (auto simp: Update_def hookCore_def split: option.split prod.split)
  then show ?thesis by (rule hooksInv_core) (rule db1)
next
  case False
  then have "snd (Update env i p db) = db"
    by (auto simp: Update_def UpdateWebhook_def split: option.split sum.split if_split_asm)
  then show ?thesis using assms by simp
qed

lemma DeleteHook_inv: "hooksInv parse cfg db \<Longrightarrow> hooksInv parse cfg (snd (DeleteHook env i db))"
  by (auto simp: DeleteHook_def hooksInv_def coreView_def distinct_map inj_on_def split: option.split)

lemma SetActive_inv: "hooksInv parse cfg db \<Longrightarrow> hooksInv parse cfg (snd (SetActive env i active db))"
  by (auto simp: SetActive_def hookCore_def intro!: updateHook_inv split: option.split)

lemma hookStep_inv: "hooksInv parse cfg db \<Longrightarrow> hookStep parse cfg db db' \<Longrightarrow> hooksInv parse cfg db'"
proof (erule hookStep.cases)
qed (auto intro: CreateHook_inv Update_inv DeleteHook_inv SetActive_inv hooksInv_core [OF runOne_core] hooksInv_core [OF EnqueuePing_core]
       hooksInv_core [OF Redeliver_core] hooksInv_core [OF Enqueue_core] hooksInv_core simp: coreView_def)

interpretation hook_runs: kept_invariant "hookStep parse cfg" "hooksInv parse cfg" for parse cfg
  by unfold_locales (rule hookStep_inv)


text \<open>
  C32. What is known of every stored webhook. Whatever is created, edited, deleted, toggled, pinged, redelivered and run,
  in any order and with any failures of statements, every webhook has a URL with a scheme, a host and a port that the guard
  admits, an owner and a content type of the known kinds, a threshold of fifty failures, and distinct, lowercased, trimmed
  event names of at most 64 bytes, and no two webhooks share an id.
\<close>

theorem stored_webhooks_are_admissible:
  assumes "(hookStep parse cfg)\<^sup>*\<^sup>* \<lparr>Jobs = [], NextJobID = 1, Webhooks = [], NextWebhookID = 1, Deliveries = [], NextDeliveryID = 1, HookEvents = [], WebhookCursor = None\<rparr> db"
  shows "distinct (map whID (Webhooks db)) \<and> (\<forall>w \<in> set (Webhooks db). Validate parse cfg (whURL w) = None
    \<and> (\<exists>u. parse (whURL w) = Some u \<and> Scheme u \<in> {''http'', ''https''} \<and> Scheme u \<in> set (AllowedSchemes (applyDefaults cfg)) \<and> Host u \<noteq> '''')
    \<and> whOwnerKind w \<in> {''repo'', ''org''} \<and> whContentType w \<in> {''json'', ''form''} \<and> whThreshold w = 50
    \<and> distinct (whEvents w) \<and> (\<forall>e \<in> set (whEvents w). e \<noteq> '''' \<and> length e \<le> 64 \<and> lowerEvent (trimEvent e) = e))"
proof -
  have "hooksInv parse cfg \<lparr>Jobs = [], NextJobID = 1, Webhooks = [], NextWebhookID = 1, Deliveries = [], NextDeliveryID = 1, HookEvents = [], WebhookCursor = None\<rparr>"
    by (simp add: hooksInv_def coreView_def)
  from hook_runs.reachable_inv [OF assms this] have known: "distinct (map whID (Webhooks db))" "\<And>w. w \<in> set (Webhooks db) \<Longrightarrow> admitted parse cfg (hookCore w)"
    by (auto simp: hooksInv_def coreView_def)
  have url: "\<exists>u. parse (whURL w) = Some u \<and> Scheme u \<in> {''http'', ''https''} \<and> Scheme u \<in> set (AllowedSchemes (applyDefaults cfg)) \<and> Host u \<noteq> ''''"
    if "validateURL parse (whURL w) = None" "Validate parse cfg (whURL w) = None" for w
    using that by (auto simp: validateURL_def Validate_def stringSetContains_def list_ex_iff Let_def split: option.split_asm if_split_asm)
  show ?thesis
  proof (intro conjI ballI known(1))
    fix w assume "w \<in> set (Webhooks db)"
    from known(2) [OF this] show "Validate parse cfg (whURL w) = None"
      "\<exists>u. parse (whURL w) = Some u \<and> Scheme u \<in> {''http'', ''https''} \<and> Scheme u \<in> set (AllowedSchemes (applyDefaults cfg)) \<and> Host u \<noteq> ''''"
      "whOwnerKind w \<in> {''repo'', ''org''}" "whContentType w \<in> {''json'', ''form''}" "whThreshold w = 50" "distinct (whEvents w)"
      using url [of w] by (auto simp: admitted_def hookCore_def)
  next
    fix w e assume "w \<in> set (Webhooks db)" "e \<in> set (whEvents w)"
    with known(2) have "canonicalEvent e" by (auto simp: admitted_def hookCore_def list_all_iff)
    then show "e \<noteq> ''''" "length e \<le> 64" "lowerEvent (trimEvent e) = e" by (auto simp: canonicalEvent_def)
  qed
qed

definition demoCreate :: CreateParams where
  "demoCreate = \<lparr>cpOwnerKind = ''repo'', cpOwnerID = 3, cpURL = ''https://hooks.test/'', cpContentType = '''', cpEvents = ['' Push'', ''push'', ''''],
     cpSecret = ''key'', cpActive = True, cpSSL = True, cpActor = 9\<rparr>"

definition demoManaged :: HookTables where
  "demoManaged = snd (Create (demoHooks\<lparr>hnSeal := Some (\<lambda>s. Some (s, ''n''))\<rparr>) demoCreate
     \<lparr>Jobs = [], NextJobID = 1, Webhooks = [], NextWebhookID = 1, Deliveries = [], NextDeliveryID = 1, HookEvents = [], WebhookCursor = None\<rparr>)"

theorem stored_webhooks_are_admissible_witness:
  "map whEvents (Webhooks demoManaged) = [[''push'']] \<and> list_all (\<lambda>w. Validate (hnParse demoHooks) Default (whURL w) = None) (Webhooks demoManaged)"
proof -
  have "hookStep (hnParse demoHooks) Default \<lparr>Jobs = [], NextJobID = 1, Webhooks = [], NextWebhookID = 1, Deliveries = [], NextDeliveryID = 1, HookEvents = [], WebhookCursor = None\<rparr> demoManaged"
    unfolding demoManaged_def by (rule Created) (simp_all add: demoHooks_def)
  then have "(hookStep (hnParse demoHooks) Default)\<^sup>*\<^sup>* \<lparr>Jobs = [], NextJobID = 1, Webhooks = [], NextWebhookID = 1, Deliveries = [], NextDeliveryID = 1, HookEvents = [], WebhookCursor = None\<rparr> demoManaged"
    by (rule r_into_rtranclp)
  from stored_webhooks_are_admissible [OF this] have "list_all (\<lambda>w. Validate (hnParse demoHooks) Default (whURL w) = None) (Webhooks demoManaged)" by (simp add: list_all_iff)
  moreover have "map whEvents (Webhooks demoManaged) = [[''push'']]" by code_simp
  ultimately show ?thesis by simp
qed

end
