(* ===== verification/Spec2Isabelle.thy ===== *)
theory Spec2Isabelle
  imports Policy ExprEval RunnerRender LogScrub WorkflowTrigger MergeGates LruCache RateLimit
    GitAccess AccessTokens OutboundGuard CodeOwners PullSafety OrgLimits WebhookManage
begin

text \<open>
  A verification library for shithub, a git forge written in Go. The theories translate the parts of
  \<^verbatim>\<open>src/internal\<close> in which the forge decides something (who may do what, which script a runner gets, when a
  pull request may merge, which address may be dialled) into executable HOL definitions, and prove that
  they decide as intended.

  \<^bold>\<open>How the program is put together.\<close> HTTP handlers and SSH sessions turn a request into an actor and a
  repository reference and ask the authorization policy. Pushes additionally pass the branch protection
  rules; pull requests pass the review, code-owner and required-check gates before a merge records itself
  in the issue tracker and closes the issues it names. Organizations own repositories through members,
  teams and invitations, within the limits their billing plan sets. Workflow files are matched
  against events; jobs go to runners, where expressions are evaluated, step scripts rendered with
  untrusted and secret values kept out of the script text, and the output scrubbed of secrets. Caches,
  rate limits, access tokens and guards for outgoing requests and redirects serve all of them. What need
  not happen at once goes through a table of jobs to a pool of workers; webhooks are fanned out and
  delivered that way.

  \<^bold>\<open>Modelling conventions.\<close> A definition has the name of the Go function it translates. Structs are
  records, enums datatypes, Go strings lists of bytes (\<open>string\<close>), \<^verbatim>\<open>int64\<close> and \<^verbatim>\<open>uint64\<close> are words where wrap
  around matters and integers otherwise, times are integers (nanoseconds). Errors are the left side of a
  sum, panics a result of their own. Database queries are fields of a record of answers that may be rows,
  no rows or an error; the clock and entropy are arguments. Functions of the Go standard library are
  translated as far as the sources use them; case tables and letter classes of the unicode package, the
  URL parser, the resolver and git itself are parameters. The step relations of the issue tracker, of pull
  requests and of organizations run whole operations one after the other: each call sees the tables as the
  previous one left them, although some calls of the code check and write in statements of their own. Where
  this matters, the checks and the write are definitions of their own, and a lemma shows what overlapping calls
  can do (\<open>overlapping_demotions_leave_no_owner\<close>, \<open>overlapping_requests_duplicate\<close>). Claims, marks and leases in
  \<open>JobQueue\<close> and \<open>RateLimit\<close> are single statements and are interleaved freely.

  \<^bold>\<open>The theories.\<close>

  \<^item> \<open>Prelude\<close>: Go's string functions (\<^verbatim>\<open>HasPrefix\<close>, \<^verbatim>\<open>Index\<close>, \<^verbatim>\<open>TrimSpace\<close>, \<^verbatim>\<open>Replacer\<close>), fixed-width integers, the
    collections of simplification rules. \<open>GoRunes\<close>: UTF-8 decoding and \<^verbatim>\<open>filepath.Match\<close>. \<open>GoPath\<close>: splitting
    and joining, \<^verbatim>\<open>path.Clean\<close>, runes, lower case. \<open>GoNet\<close>: address and prefix parsing of \<^verbatim>\<open>net\<close> and \<^verbatim>\<open>netip\<close>.
  \<^item> \<open>Policy\<close> (\<^verbatim>\<open>auth/policy\<close>): the decision \<open>Can\<close> with its gates in order, role resolution over owners,
    collaborators, teams and their parents, the request cache, the 404 mapping and the SQL visibility
    predicate. Shown: \<open>Can\<close> decides as the documented policy, outside two cases in which it grants more and
    which are exhibited; roles are the strongest grant; the cache is
    transparent; private repositories look missing to strangers; failing lookups deny.
  \<^item> \<open>ExprLex\<close>, \<open>ExprParse\<close>, \<open>ExprEval\<close> (\<^verbatim>\<open>actions/expr\<close>): lexer, recursive-descent parser with its slice accesses,
    evaluator with taint and sensitivity marks. Shown: printing then parsing is the identity; no input
    panics; unmarked results do not depend on secrets, untainted ones not on the event payload.
  \<^item> \<open>RunnerRender\<close> (\<^verbatim>\<open>runner/exec/render.go\<close>, \<^verbatim>\<open>actions/concurrency\<close>): step rendering over the evaluator. Shown: two
    runs that differ only in marked values give the same script, and expanding the bindings in the
    script gives the directly resolved text; concurrency groups are bounded.
  \<^item> \<open>LogScrub\<close> (\<^verbatim>\<open>runner/scrub\<close>): the streaming secret mask. Shown: the chunking of the output is irrelevant for
    secrets without borders, and the masked text has no secret left.
  \<^item> \<open>WorkflowTrigger\<close> (\<^verbatim>\<open>actions/trigger\<close>): globs as regular expressions, include and exclude lists, event
    matching. Shown: a match is what the declarative trigger condition says, with the documented meaning of
    patterns as a relation of its own, for names without newlines.
  \<^item> \<open>BranchProtection\<close> (\<^verbatim>\<open>repos/protection\<close>) and \<open>MergeGates\<close> (\<^verbatim>\<open>pulls/review\<close>, \<^verbatim>\<open>checks\<close>, \<^verbatim>\<open>actions/runstate\<close>):
    the push gates, and the review, code-owner and required-check gates with the roll-ups of check
    suites and runs. Shown: when exactly each gate opens.
  \<^item> \<open>CodeOwners\<close> (\<^verbatim>\<open>repos/codeowners\<close>): parsing and matching of CODEOWNERS files, whose answers the code-owner
    gate uses. Shown: the last matching entry owns a path, entries are the lines that parse, what
    patterns without wildcards match, and that the field splitter inverts escaping.
  \<^item> \<open>IssueRefs\<close> (\<^verbatim>\<open>issues/references.go\<close>, \<^verbatim>\<open>pulls/linked_issues.go\<close>): the regular expressions that find issue numbers in
    text. Shown: what is written as a reference or after a closing keyword is found, and nothing else.
  \<^item> \<open>IssueTracker\<close> (\<^verbatim>\<open>issues\<close>): numbers, comments, edits, states, locks and the timeline, as transactions over
    explicit tables in which each statement may fail. Shown: numbers are consecutive, replaying the
    timeline gives the state, setting a state twice changes nothing.
  \<^item> \<open>PullReviews\<close>, \<open>PullRequests\<close> (\<^verbatim>\<open>pulls\<close>, \<^verbatim>\<open>pulls/review\<close>): reviews, requests, comments and their positions; opening,
    synchronising, editing, updating and merging, on top of the issue tracker and the gates of
    \<open>MergeGates\<close>. \<open>PullRuns\<close> has what each operation keeps of the tables, \<open>PullSafety\<close> the properties of runs.
    Shown: a merge happens only when every gate is open, is final, and closes exactly the linked open
    issues; merged pull requests stay closed as long as their state is not set as an issue's; the number
    of review requests is bounded while requests do not overlap; remapping comment positions is exact.
  \<^item> \<open>Entitlements\<close> (\<^verbatim>\<open>entitlements\<close>, \<^verbatim>\<open>billing/principal.go\<close>): features, plans, limits, the gate of the handlers and the
    storage quota. Shown: when exactly a request is stopped, and with which status; when exactly a
    change is within the quota.
  \<^item> \<open>Organizations\<close> (\<^verbatim>\<open>orgs\<close>, \<^verbatim>\<open>entitlements/private_collaboration.go\<close>, the visibility switch and the direct
    collaborators, the access page, deletion, restoring and forking of repositories): the operations of these
    files that change who can reach a repository of an organization; transfers between accounts, hard
    deletion and the import from GitHub are left out. \<open>OrgSafety\<close>: whatever is run, one operation after the other,
    every organization keeps an owner and nobody is a member twice. \<open>OrgLimits\<close>: an organization that does not
    pay never has more private collaborators than its limit, as long as none of the five operations runs in
    which the code does not ask: another parent for a team, a collaborator or a team entered on the access
    page, a restored repository, a fork into the organization. Each of them is shown to lead beyond the limit.
  \<^item> \<open>JobQueue\<close> (\<^verbatim>\<open>worker\<close>): the table of jobs, claims with a lease, the dispatch of a job with its marks, retries and
    backoff, and the loop that drains the queue. Shown: no job is run twice at a time while runs keep their
    lease; the loop ends for handlers that meet the contract \<open>job_handlers\<close>.
  \<^item> \<open>Webhooks\<close> (\<^verbatim>\<open>webhook\<close>, \<^verbatim>\<open>worker/jobs/webhook.go\<close>): fan-out, signed delivery through \<open>OutboundGuard\<close>, pings and
    redeliveries, and the job handlers. \<open>WebhookRuns\<close>: the queue with these handlers drains, every subscriber
    gets every event once, deliveries go signed to admitted addresses only; a failed delivery is left
    alone. \<open>WebhookManage\<close> (\<^verbatim>\<open>webhook/manage.go\<close>): creation, updates and normalization of events, and what is
    known of every stored webhook.
  \<^item> \<open>LruCache\<close> (\<^verbatim>\<open>cache/lru\<close>): the two caches over an explicit store of list elements. Shown: a hit is the last
    write, eviction removes the least recently used key, byte accounting is exact.
  \<^item> \<open>RateLimit\<close> (\<^verbatim>\<open>ratelimit\<close>, \<^verbatim>\<open>auth/throttle\<close>): counters and leases as a state machine. Shown: bounds on grants
    and on concurrent leases; which failures open and which close.
  \<^item> \<open>GitAccess\<close> (\<^verbatim>\<open>infra/storage/reposfs.go\<close>, \<^verbatim>\<open>git/protocol\<close>, \<^verbatim>\<open>orgs/principals.go\<close>): the layout of repositories on
    disk, SSH command parsing and the dispatcher, composed with \<open>Policy\<close>. Shown: no two repositories share
    a directory and none lies outside the root; accepted commands name safe paths; git runs only for
    what the policy allows.
  \<^item> \<open>AccessTokens\<close> (\<^verbatim>\<open>auth/pat\<close>): minting, recognition, scopes, address allowlists, the last-used debouncer.
    Shown: unbiased sampling that ends, round trip of minted tokens, and that the debouncer behaves as if
    it never evicted.
  \<^item> \<open>OutboundGuard\<close> (\<^verbatim>\<open>security/ssrf\<close>, \<^verbatim>\<open>security/openredirect\<close>): Shown: the address actually dialled was
    checked, and the forbidden addresses are the listed networks.

  \<^bold>\<open>Interfaces.\<close> Laws that several operations or components share are locales, interpreted on the
  definitions of the code in the theory that provides them: map-like caches in \<open>LruCache\<close>, the taint
  lattice of the evaluator, time-ordered simulations (\<open>timed_simulation\<close> in \<open>AccessTokens\<close>) and others. The step
  relations of the issue tracker, of pull requests, of organizations, of the queue and of webhooks are
  instances of \<open>kept_invariant\<close>, which carries an invariant of single operations to their runs. The pool
  relies on its handlers through \<open>job_handlers\<close> (a handler keeps the unfinished jobs and adds only jobs of
  lower rank, unless it uses up work of its own), which \<open>WebhookRuns\<close> interprets on the webhook handlers.

  \<^bold>\<open>Bounds and fuel.\<close> Loops are structural recursions or functions with a termination proof; none of the
  modelled loops uses fuel, except that the random sampler reads from an explicit list of deliveries and
  gives \<open>None\<close> when they run out; it is shown to return as soon as enough bytes were accepted. The draining
  loop of a worker, which need not end for every handler, is a partial function into \<open>option\<close>; that it
  returns for the webhook handlers is a theorem.

  \<^bold>\<open>Not modelled.\<close> HTTP handlers and templates, generated database code, the execution of git, mail,
  the transport of HTTP requests, the goroutines and notifications of the worker pool and its other
  handlers, metrics and configuration: input and output around the decisions above. Within the
  modelled packages: the cancellation of superseded runs, labels and milestones, the operations that
  move directories, the import of organizations, and the printing of canonical allowlists.
\<close>

end
